(* ===== verification/Go_Base.thy ===== *)
theory Go_Base
  imports Main "HOL-Library.AList" "HOL-Library.Char_ord" "HOL-Library.List_Lexorder"
    "HOL-Library.Sublist" "HOL-Library.Multiset"
begin

text \<open>
  Shared base of the development: what the Go sources use of the language and of its standard
  library, with the lemmas the component theories rest on.

  \<^item> Strings are byte strings (\<open>string\<close>), ordered as Go orders them, lexicographically by byte.
    Case mapping and white space are those of ASCII: on ASCII text \<open>to_lower\<close>, \<open>to_upper\<close>,
    \<open>trim_space\<close> and \<open>equal_fold\<close> are \<open>strings.ToLower\<close>, \<open>strings.ToUpper\<close>,
    \<open>strings.TrimSpace\<close> and \<open>strings.EqualFold\<close>; bytes outside ASCII are left as they are.
  \<^item> A Go map is an association list with distinct keys. The order of the list is the order
    in which a \<open>range\<close> loop visits the map, which Go leaves open: a theorem for every list
    with the same entries is a theorem for every iteration order.
  \<^item> A \<open>map[K]struct{}\<close> used as a set is a list without repetitions.
  \<^item> \<open>int64\<close> values are \<open>int\<close>s kept in range by \<open>wrap64\<close> where the code can overflow.
\<close>

section \<open>Collections of rewrite rules\<close>

named_theorems go_string \<open>normal forms of the string functions\<close>
named_theorems go_map \<open>lookup and domain of the map operations\<close>

section \<open>Strings\<close>

definition is_space :: "char \<Rightarrow> bool" where
  "is_space c \<longleftrightarrow> c = CHR 0x20 \<or> c = CHR 0x09 \<or> c = CHR 0x0A \<or> c = CHR 0x0B \<or> c = CHR 0x0C \<or> c = CHR 0x0D"

definition lower_char :: "char \<Rightarrow> char" where
  "lower_char c = (if 65 \<le> (of_char c :: nat) \<and> (of_char c :: nat) \<le> 90
     then char_of ((of_char c :: nat) + 32) else c)"

definition upper_char :: "char \<Rightarrow> char" where
  "upper_char c = (if 97 \<le> (of_char c :: nat) \<and> (of_char c :: nat) \<le> 122
     then char_of ((of_char c :: nat) - 32) else c)"

text \<open>The letters are those whose five low bits are 1 to 26; evaluation looks at the bits.\<close>

definition in_alphabet :: "bool \<Rightarrow> bool \<Rightarrow> bool \<Rightarrow> bool \<Rightarrow> bool \<Rightarrow> bool" where
  "in_alphabet b0 b1 b2 b3 b4 \<longleftrightarrow> (b0 \<or> b1 \<or> b2 \<or> b3 \<or> b4) \<and> \<not> (b4 \<and> b3 \<and> (b2 \<or> b1 \<and> b0))"

lemma lower_char_code [code]:
  "lower_char (Char b0 b1 b2 b3 b4 b5 b6 b7) =
     (if \<not> b7 \<and> b6 \<and> \<not> b5 \<and> in_alphabet b0 b1 b2 b3 b4 then Char b0 b1 b2 b3 b4 True b6 b7
      else Char b0 b1 b2 b3 b4 b5 b6 b7)"
  by (cases b0; cases b1; cases b2; cases b3; cases b4; cases b5; cases b6; cases b7)
     (simp_all add: lower_char_def in_alphabet_def of_char_def char_of_def bit_simps)

lemma upper_char_code [code]:
  "upper_char (Char b0 b1 b2 b3 b4 b5 b6 b7) =
     (if \<not> b7 \<and> b6 \<and> b5 \<and> in_alphabet b0 b1 b2 b3 b4 then Char b0 b1 b2 b3 b4 False b6 b7
      else Char b0 b1 b2 b3 b4 b5 b6 b7)"
  by (cases b0; cases b1; cases b2; cases b3; cases b4; cases b5; cases b6; cases b7)
     (simp_all add: upper_char_def in_alphabet_def of_char_def char_of_def bit_simps)

definition to_lower :: "string \<Rightarrow> string" where
  "to_lower s = map lower_char s"

definition to_upper :: "string \<Rightarrow> string" where
  "to_upper s = map upper_char s"

definition equal_fold :: "string \<Rightarrow> string \<Rightarrow> bool" where
  "equal_fold s t \<longleftrightarrow> to_lower s = to_lower t"

definition trim_left :: "string \<Rightarrow> string" where
  "trim_left s = dropWhile is_space s"

definition trim_space :: "string \<Rightarrow> string" where
  "trim_space s = rev (trim_left (rev (trim_left s)))"

text \<open>\<open>strings.Split\<close> with a one-byte separator, and \<open>strings.Join\<close>.\<close>

fun split_on :: "char \<Rightarrow> string \<Rightarrow> string list" where
  "split_on sep [] = [[]]"
| "split_on sep (c # cs) =
     (if c = sep then [] # split_on sep cs
      else (case split_on sep cs of [] \<Rightarrow> [[c]] | w # ws \<Rightarrow> (c # w) # ws))"

fun join_with :: "string \<Rightarrow> string list \<Rightarrow> string" where
  "join_with sep [] = []"
| "join_with sep [w] = w"
| "join_with sep (w # v # ws) = w @ sep @ join_with sep (v # ws)"

text \<open>\<open>strings.Contains\<close>, \<open>strings.HasPrefix\<close> and \<open>strings.HasSuffix\<close>.\<close>

fun contains_str :: "string \<Rightarrow> string \<Rightarrow> bool" where
  "contains_str [] t \<longleftrightarrow> t = []"
| "contains_str (c # cs) t \<longleftrightarrow> prefix t (c # cs) \<or> contains_str cs t"

definition has_prefix :: "string \<Rightarrow> string \<Rightarrow> bool" where
  "has_prefix s t \<longleftrightarrow> prefix t s"

definition has_suffix :: "string \<Rightarrow> string \<Rightarrow> bool" where
  "has_suffix s t \<longleftrightarrow> prefix (rev t) (rev s)"

lemma of_char_lower_char:
  "(of_char (lower_char c) :: nat) =
     (if 65 \<le> (of_char c :: nat) \<and> (of_char c :: nat) \<le> 90 then of_char c + 32 else of_char c)"
  by (auto simp: lower_char_def)

lemma lower_char_idem [simp]: "lower_char (lower_char c) = lower_char c"
  by (auto simp: lower_char_def)

lemma is_space_code:
  "is_space c \<longleftrightarrow> (of_char c :: nat) \<in> {9, 10, 11, 12, 13, 32}"
proof -
  have eq: "c = char_of n \<longleftrightarrow> (of_char c :: nat) = n" if "n < 256" for n :: nat
    using that by (metis char_of_char mod_less of_char_of)
  show ?thesis
    using eq [of 9] eq [of 10] eq [of 11] eq [of 12] eq [of 13] eq [of 32]
    by (simp add: is_space_def char_of_def bit_simps) blast
qed

lemma is_space_lower_char [simp]: "is_space (lower_char c) = is_space c"
  by (auto simp: is_space_code of_char_lower_char)

lemma to_lower_idem [simp, go_string]: "to_lower (to_lower s) = to_lower s"
  by (simp add: to_lower_def)

lemma to_lower_Nil [simp, go_string]: "to_lower s = [] \<longleftrightarrow> s = []"
  by (simp add: to_lower_def)

lemma to_lower_append: "to_lower (s @ t) = to_lower s @ to_lower t"
  by (simp add: to_lower_def)

lemma equal_fold_refl [simp]: "equal_fold s s"
  by (simp add: equal_fold_def)

lemma equal_fold_sym: "equal_fold s t = equal_fold t s"
  by (auto simp: equal_fold_def)

lemma trim_left_to_lower: "trim_left (to_lower s) = to_lower (trim_left s)"
  by (simp add: trim_left_def to_lower_def dropWhile_map comp_def)

lemma trim_space_to_lower [go_string]: "trim_space (to_lower s) = to_lower (trim_space s)"
  by (metis rev_map to_lower_def trim_left_to_lower trim_space_def)

lemma trim_left_idem [simp]: "trim_left (trim_left s) = trim_left s"
  unfolding trim_left_def by (induction s) auto

lemma trim_left_suffix: "suffix (trim_left s) s"
  by (simp add: trim_left_def suffix_dropWhile)

lemma trim_left_fixed: "trim_left s = s \<longleftrightarrow> s = [] \<or> \<not> is_space (hd s)"
proof (cases s)
  case (Cons c cs)
  have "length (dropWhile is_space cs) \<le> length cs"
    by (rule length_dropWhile_le)
  then have "dropWhile is_space cs \<noteq> c # cs"
    by (metis Suc_n_not_le_n length_Cons)
  with Cons show ?thesis
    by (auto simp: trim_left_def)
qed (simp add: trim_left_def)

lemma hd_trim_left: "trim_left s \<noteq> [] \<Longrightarrow> \<not> is_space (hd (trim_left s))"
  unfolding trim_left_def by (rule hd_dropWhile)

lemma trim_space_alt: "trim_space s = rev (trim_left (rev (trim_left s)))"
  by (fact trim_space_def)

lemma hd_trim_space: "trim_space s \<noteq> [] \<Longrightarrow> \<not> is_space (hd (trim_space s))"
proof -
  let ?t = "trim_left s"
  assume ne: "trim_space s \<noteq> []"
  have "suffix (trim_left (rev ?t)) (rev ?t)"
    by (rule trim_left_suffix)
  then have "prefix (trim_space s) ?t"
    by (simp add: trim_space_def suffix_to_prefix)
  then have "hd (trim_space s) = hd ?t" and "?t \<noteq> []"
    using ne by (auto simp: prefix_def)
  then show ?thesis
    using hd_trim_left [of s] by simp
qed

lemma trim_space_idem [simp, go_string]: "trim_space (trim_space s) = trim_space s"
proof -
  have "trim_left (trim_space s) = trim_space s"
    using hd_trim_space trim_left_fixed by blast
  then show ?thesis
    by (metis rev_rev_ident trim_left_idem trim_space_def)
qed

lemma trim_space_Nil [simp]: "trim_space [] = []"
  by (simp add: trim_space_def trim_left_def)

lemma split_on_ne [simp]: "split_on sep s \<noteq> []"
  by (induction s) (auto split: list.splits)

lemma split_on_no_sep: "sep \<notin> set w \<Longrightarrow> split_on sep w = [w]"
  by (induction w) auto

lemma split_on_append_sep:
  "sep \<notin> set w \<Longrightarrow> split_on sep (w @ sep # s) = w # split_on sep s"
  by (induction w) auto

lemma split_on_join:
  assumes "ws \<noteq> []" and "\<forall>w \<in> set ws. sep \<notin> set w"
  shows "split_on sep (join_with [sep] ws) = ws"
  using assms
  by (induction "[sep]" ws rule: join_with.induct)
     (auto simp: split_on_no_sep split_on_append_sep)

lemma split_on_parts: "w \<in> set (split_on sep s) \<Longrightarrow> sep \<notin> set w"
  by (induction s arbitrary: w) (auto split: if_splits list.splits)

lemma contains_str_iff: "contains_str s t \<longleftrightarrow> sublist t s"
  by (induction s) (auto simp: sublist_Cons_right)

section \<open>Lower-cased and trimmed keys\<close>

text \<open>
  \<open>stringutils.DefaultNormalizer\<close> caches \<open>strings.ToLower(strings.TrimSpace(s))\<close>; the cached
  value is the value of that function.
\<close>

definition normalizeLowerTrim :: "string \<Rightarrow> string" where
  "normalizeLowerTrim s = to_lower (trim_space s)"

lemma normalizeLowerTrim_idem [simp, go_string]:
  "normalizeLowerTrim (normalizeLowerTrim s) = normalizeLowerTrim s"
  by (simp add: normalizeLowerTrim_def trim_space_to_lower)

lemma normalizeLowerTrim_Nil [simp]: "normalizeLowerTrim [] = []"
  by (simp add: normalizeLowerTrim_def to_lower_def)

section \<open>Maps and sets\<close>

type_synonym ('k, 'v) gomap = "('k \<times> 'v) list"
type_synonym 'k goset = "'k list"

definition gm_ok :: "('k, 'v) gomap \<Rightarrow> bool" where
  "gm_ok m \<longleftrightarrow> distinct (map fst m)"

definition gm_get :: "('k, 'v) gomap \<Rightarrow> 'k \<Rightarrow> 'v option" where
  "gm_get m k = map_of m k"

definition gm_has :: "('k, 'v) gomap \<Rightarrow> 'k \<Rightarrow> bool" where
  "gm_has m k \<longleftrightarrow> map_of m k \<noteq> None"

definition gm_put :: "'k \<Rightarrow> 'v \<Rightarrow> ('k, 'v) gomap \<Rightarrow> ('k, 'v) gomap" where
  "gm_put k v m = AList.update k v m"

definition gm_del :: "'k \<Rightarrow> ('k, 'v) gomap \<Rightarrow> ('k, 'v) gomap" where
  "gm_del k m = AList.delete k m"

definition gs_add :: "'k \<Rightarrow> 'k goset \<Rightarrow> 'k goset" where
  "gs_add k s = (if k \<in> set s then s else s @ [k])"

lemma gm_get_Nil [simp, go_map]: "gm_get [] k = None"
  by (simp add: gm_get_def)

lemma gm_get_put [simp, go_map]: "gm_get (gm_put k v m) k' = (if k' = k then Some v else gm_get m k')"
  by (simp add: gm_get_def gm_put_def update_conv)

lemma gm_get_del [simp, go_map]: "gm_get (gm_del k m) k' = (if k' = k then None else gm_get m k')"
  by (simp add: gm_get_def gm_del_def delete_conv)

lemma gm_has_get: "gm_has m k \<longleftrightarrow> gm_get m k \<noteq> None"
  by (simp add: gm_has_def gm_get_def)

lemma gm_ok_Nil [simp]: "gm_ok []"
  by (simp add: gm_ok_def)

lemma gm_ok_put [simp]: "gm_ok m \<Longrightarrow> gm_ok (gm_put k v m)"
  by (simp add: gm_ok_def gm_put_def distinct_update)

lemma gm_ok_del [simp]: "gm_ok m \<Longrightarrow> gm_ok (gm_del k m)"
  by (simp add: gm_ok_def gm_del_def distinct_delete)

lemma gm_get_iff: "gm_ok m \<Longrightarrow> gm_get m k = Some v \<longleftrightarrow> (k, v) \<in> set m"
  by (simp add: gm_ok_def gm_get_def)

lemma gm_has_iff: "gm_has m k \<longleftrightarrow> k \<in> fst ` set m"
  by (simp add: gm_has_def map_of_eq_None_iff)

lemma set_gs_add [simp, go_map]: "set (gs_add k s) = insert k (set s)"
  by (auto simp: gs_add_def)

lemma distinct_gs_add [simp]: "distinct s \<Longrightarrow> distinct (gs_add k s)"
  by (simp add: gs_add_def)

lemma set_fold_gs_add: "set (fold gs_add ks s) = set ks \<union> set s"
  by (induction ks arbitrary: s) auto

lemma distinct_fold_gs_add: "distinct s \<Longrightarrow> distinct (fold gs_add ks s)"
  by (induction ks arbitrary: s) auto

text \<open>\<open>m[k] = append(m[k], v)\<close>.\<close>

definition gm_append :: "'k \<Rightarrow> 'v \<Rightarrow> ('k, 'v list) gomap \<Rightarrow> ('k, 'v list) gomap" where
  "gm_append k v m = gm_put k ((case gm_get m k of None \<Rightarrow> [] | Some vs \<Rightarrow> vs) @ [v]) m"

section \<open>Loops\<close>

text \<open>A \<open>range\<close> loop is a fold; most loops append at most one entry per element.\<close>

lemma fold_invariant:
  "P acc \<Longrightarrow> (\<And>x acc. P acc \<Longrightarrow> P (f x acc)) \<Longrightarrow> P (fold f xs acc)"
  by (induction xs arbitrary: acc) auto

definition opt_list :: "'a option \<Rightarrow> 'a list" where
  "opt_list v = (case v of None \<Rightarrow> [] | Some x \<Rightarrow> [x])"

lemma opt_list_simps [simp]: "opt_list None = []" "opt_list (Some x) = [x]"
  by (simp_all add: opt_list_def)

declare map_filter_simps [simp del]

lemma map_filter_Nil [simp]: "List.map_filter f [] = []"
  by (simp add: map_filter_simps)

lemma map_filter_Cons [simp]: "List.map_filter f (x # xs) = opt_list (f x) @ List.map_filter f xs"
  by (simp add: map_filter_simps split: option.splits)

lemma set_map_filter: "y \<in> set (List.map_filter f xs) \<longleftrightarrow> (\<exists>x \<in> set xs. f x = Some y)"
  by (induction xs) (auto simp: opt_list_def split: option.splits)

text \<open>An index that groups the values of a list by key, skipping elements without a key.\<close>

definition group_by :: "('a \<Rightarrow> 'k option) \<Rightarrow> ('a \<Rightarrow> 'v) \<Rightarrow> 'a list \<Rightarrow> ('k, 'v list) gomap" where
  "group_by key val xs = fold (\<lambda>x m. case key x of None \<Rightarrow> m | Some k \<Rightarrow> gm_append k (val x) m) xs []"

lemma gm_get_append [simp, go_map]:
  "gm_get (gm_append k v m) k' = (if k' = k then Some ((case gm_get m k of None \<Rightarrow> [] | Some vs \<Rightarrow> vs) @ [v]) else gm_get m k')"
  by (simp add: gm_append_def)

lemma gm_get_group_by:
  "gm_get (group_by key val xs) k =
     (if \<exists>x \<in> set xs. key x = Some k then Some (map val (filter (\<lambda>x. key x = Some k) xs)) else None)"
  unfolding group_by_def by (induction xs rule: rev_induct) (auto split: option.splits)

lemma gm_ok_group_by: "gm_ok (group_by key val xs)"
  unfolding group_by_def by (rule fold_invariant) (auto simp: gm_append_def split: option.split)

text \<open>Writing a list of keyed values into a map: the last write to a key wins.\<close>

lemma fold_upd_value:
  "\<forall>x \<in> set xs. key x = k \<longrightarrow> val x = v \<Longrightarrow>
    fold (\<lambda>x m. m(key x \<mapsto> val x)) xs m k = (if k \<in> key ` set xs then Some v else m k)"
  by (induction xs arbitrary: m) auto

lemma distinct_map_filter_key:
  assumes "distinct (map k xs)" and "\<And>x y. x \<in> set xs \<Longrightarrow> f x = Some y \<Longrightarrow> g y = k x"
  shows "distinct (map g (List.map_filter f xs))"
  using assms
proof (induction xs)
  case (Cons x xs)
  then have IH: "distinct (map g (List.map_filter f xs))"
    by simp
  have mem: "g y \<in> k ` set xs" if "y \<in> set (List.map_filter f xs)" for y
    using that Cons.prems(2) by (auto simp: set_map_filter)
  show ?case
  proof (cases "f x")
    case (Some y)
    then have "g y = k x"
      using Cons.prems(2) by simp
    then have "g y \<notin> k ` set xs"
      using Cons.prems(1) by simp
    with IH mem Some show ?thesis
      by auto
  qed (simp add: IH)
qed simp

section \<open>Sorting\<close>

lemma distinct_sort_key_map: "distinct (map g (sort_key f xs)) = distinct (map g xs)"
  by (metis mset_eq_imp_distinct_iff mset_map mset_sort)


text \<open>
  \<open>sort.Strings\<close>, \<open>slices.Sort\<close> and \<open>sort.Slice\<close> with a string key. The last one is not
  stable in Go; two entries with the same key do not occur where the model sorts.
\<close>

lemma filter_key_inj:
  assumes "inj_on f A" and "k \<in> A" and "set zs \<subseteq> A"
  shows "filter (\<lambda>x. f k = f x) zs = replicate (count (mset zs) k) k"
  using assms(3)
proof (induction zs)
  case (Cons z zs)
  then show ?case
    using assms(1,2) by (auto simp: inj_on_def)
qed simp

lemma sort_key_unique:
  assumes "mset xs = mset ys" and "inj_on f (set xs)"
  shows "sort_key f xs = sort_key f ys"
proof (rule properties_for_sort_key)
  show "mset (sort_key f ys) = mset xs"
    using assms(1) by simp
  show "sorted (map f (sort_key f ys))"
    by simp
next
  fix k
  assume "k \<in> set (sort_key f ys)"
  then have k: "k \<in> set xs" and seq: "set (sort_key f ys) \<subseteq> set xs"
    using mset_eq_setD [OF assms(1)] by auto
  show "filter (\<lambda>x. f k = f x) (sort_key f ys) = filter (\<lambda>x. f k = f x) xs"
    using filter_key_inj [OF assms(2) k seq] filter_key_inj [OF assms(2) k order_refl] assms(1)
    by simp
qed

lemma distinct_mset_eqI:
  "distinct xs \<Longrightarrow> distinct ys \<Longrightarrow> set xs = set ys \<Longrightarrow> mset xs = mset ys"
  using set_eq_iff_mset_eq_distinct by blast

section \<open>Fixed-width integers\<close>

text \<open>Two's complement wrap-around of \<open>int64\<close>.\<close>

definition wrap64 :: "int \<Rightarrow> int" where
  "wrap64 x = (x + 2 ^ 63) mod 2 ^ 64 - 2 ^ 63"

definition int64 :: "int \<Rightarrow> bool" where
  "int64 x \<longleftrightarrow> - (2 ^ 63) \<le> x \<and> x < 2 ^ 63"

lemma wrap64_add: "wrap64 (wrap64 a + b) = wrap64 (a + b)"
  by (simp add: wrap64_def mod_simps algebra_simps)

lemma wrap64_id [simp]: "int64 x \<Longrightarrow> wrap64 x = x"
  unfolding wrap64_def int64_def by simp

lemma int64_wrap64 [simp]: "int64 (wrap64 x)"
proof -
  have "0 \<le> (x + 2 ^ 63) mod 2 ^ 64" and "(x + 2 ^ 63) mod 2 ^ 64 < 2 ^ 64"
    by (rule pos_mod_sign, simp) (rule pos_mod_bound, simp)
  then show ?thesis
    unfolding wrap64_def int64_def by simp
qed

section \<open>Printing\<close>

text \<open>The \<open>%d\<close> verb on integers, and the \<open>%q\<close> verb on printable ASCII text.\<close>

definition digit_char :: "nat \<Rightarrow> char" where
  "digit_char d = char_of (48 + d)"

fun show_nat :: "nat \<Rightarrow> string" where
  "show_nat n = (if n < 10 then [digit_char n] else show_nat (n div 10) @ [digit_char (n mod 10)])"

declare show_nat.simps [simp del]

definition show_int :: "int \<Rightarrow> string" where
  "show_int i = (if i < 0 then CHR ''-'' # show_nat (nat (- i)) else show_nat (nat i))"

definition go_quote :: "string \<Rightarrow> string" where
  "go_quote s = [CHR 0x22] @ concat (map (\<lambda>c. if c = CHR 0x22 \<or> c = CHR 0x5C then [CHR 0x5C, c] else [c]) s) @ [CHR 0x22]"

end
