(* ===== verification/Restore_Plan.thy ===== *)
theory Restore_Plan
  imports Go_Base
begin

text \<open>
  The restore planner of \<open>src/internal/backups/restore_plan.go\<close>: a snapshot recorded by a backup
  run is compared with the live state of an instance, and the differences become a plan of
  category, tag and torrent actions. Structs are records, \<open>*string\<close> is \<open>string option\<close>, a
  nil and an empty slice are the empty list (the planner never tells them apart), and the
  \<open>any\<close> fields of \<open>DiffChange\<close> are the datatype \<open>diff_value\<close>.

  The second half gives a plan its meaning as a change of an abstract instance (a map of
  category paths, a set of tags, a map of torrents) and shows what a plan of each mode reaches.
\<close>

section \<open>Data\<close>

record manifest_item =
  mi_Hash :: string
  mi_Name :: string
  mi_Category :: "string option"
  mi_SizeBytes :: int
  mi_ArchivePath :: string
  mi_InfoHashV1 :: "string option"
  mi_InfoHashV2 :: "string option"
  mi_Tags :: "string list"
  mi_TorrentBlob :: string

record manifest =
  mf_InstanceID :: int
  mf_Categories :: "(string, string) gomap"
  mf_Tags :: "string list"
  mf_Items :: "manifest_item list"

record category_spec =
  cs_Name :: string
  cs_SavePath :: string

record category_update =
  cu_Name :: string
  cu_CurrentPath :: string
  cu_DesiredPath :: string

datatype diff_value = DStr string | DStrs "string list" | DInt int

record diff_change =
  dc_Field :: string
  dc_Supported :: bool
  dc_Current :: diff_value
  dc_Desired :: diff_value
  dc_Message :: string

record snapshot_torrent =
  st_Hash :: string
  st_Name :: string
  st_Category :: "string option"
  st_Tags :: "string list"
  st_ArchivePath :: string
  st_BlobPath :: string
  st_SizeBytes :: int
  st_InfoHashV1 :: "string option"
  st_InfoHashV2 :: "string option"

record snapshot_state =
  ss_RunID :: int
  ss_InstanceID :: int
  ss_Categories :: "(string, string) gomap"
  ss_Tags :: "string goset"
  ss_Torrents :: "(string, snapshot_torrent) gomap"

record live_category =
  lc_Name :: string
  lc_SavePath :: string

record live_torrent =
  lt_Hash :: string
  lt_Name :: string
  lt_Category :: string
  lt_Tags :: "string list"
  lt_TrackerURLs :: "string list"
  lt_InfoHashV1 :: string
  lt_InfoHashV2 :: string
  lt_SizeBytes :: int

record live_state =
  ls_InstanceID :: int
  ls_Categories :: "(string, live_category) gomap"
  ls_Tags :: "string goset"
  ls_Torrents :: "(string, live_torrent) gomap"

record torrent_update =
  tu_Hash :: string
  tu_Current :: live_torrent
  tu_Desired :: snapshot_torrent
  tu_Changes :: "diff_change list"

record category_plan =
  cp_Create :: "category_spec list"
  cp_Update :: "category_update list"
  cp_Delete :: "string list"

record tag_plan =
  tp_Create :: "string list"
  tp_Delete :: "string list"

record torrent_plan =
  xp_Add :: "manifest_item list"
  xp_Update :: "torrent_update list"
  xp_Delete :: "string list"

record restore_plan =
  rp_Mode :: string
  rp_RunID :: int
  rp_InstanceID :: int
  rp_Categories :: category_plan
  rp_Tags :: tag_plan
  rp_Torrents :: torrent_plan

text \<open>The part of a live torrent (\<open>qbt.Torrent\<close>) and of the reader interface the planner uses.\<close>

record reader_torrent =
  rt_Hash :: string
  rt_Name :: string
  rt_Category :: string
  rt_Tags :: string
  rt_Trackers :: "string list"
  rt_InfohashV1 :: string
  rt_InfohashV2 :: string
  rt_TotalSize :: int

record backup_reader =
  GetCategories :: "int \<Rightarrow> string + (string, string) gomap"
  GetTags :: "int \<Rightarrow> string + string list"
  GetAllTorrents :: "int \<Rightarrow> string + reader_torrent list"

record backup_service =
  bs_LoadManifest :: "int \<Rightarrow> string + manifest"
  bs_reader :: "backup_reader option"

section \<open>Modes\<close>

definition RestoreModeIncremental :: string where
  "RestoreModeIncremental = ''incremental''"

definition RestoreModeOverwrite :: string where
  "RestoreModeOverwrite = ''overwrite''"

definition RestoreModeComplete :: string where
  "RestoreModeComplete = ''complete''"

lemmas restore_mode_defs =
  RestoreModeIncremental_def RestoreModeOverwrite_def RestoreModeComplete_def

definition isValidRestoreMode :: "string \<Rightarrow> bool" where
  "isValidRestoreMode mode \<longleftrightarrow>
     mode = RestoreModeIncremental \<or> mode = RestoreModeOverwrite \<or> mode = RestoreModeComplete"

definition ParseRestoreMode :: "string \<Rightarrow> string + string" where
  "ParseRestoreMode value =
     (let mode = normalizeLowerTrim value in
      if mode = [] then Inr RestoreModeIncremental
      else if \<not> isValidRestoreMode mode then Inl (''unsupported restore mode: '' @ value)
      else Inr mode)"

definition allowUpdates :: "string \<Rightarrow> bool" where
  "allowUpdates mode \<longleftrightarrow> mode = RestoreModeOverwrite \<or> mode = RestoreModeComplete"

definition includeDeletes :: "string \<Rightarrow> bool" where
  "includeDeletes mode \<longleftrightarrow> mode = RestoreModeComplete"

section \<open>String lists and sets\<close>

definition normalizeCategory :: "string option \<Rightarrow> string" where
  "normalizeCategory category = (case category of None \<Rightarrow> [] | Some c \<Rightarrow> trim_space c)"

definition toStringSet :: "string list \<Rightarrow> string goset" where
  "toStringSet items =
     fold (\<lambda>item result. let trimmed = trim_space item in
             if trimmed = [] then result else gs_add trimmed result) items []"

definition stringSetsEqual :: "string list \<Rightarrow> string list \<Rightarrow> bool" where
  "stringSetsEqual a b =
     (let setA = toStringSet a; setB = toStringSet b in
      if length setA \<noteq> length setB then False
      else list_all (\<lambda>key. key \<in> set setB) setA)"

definition splitTags :: "string \<Rightarrow> string list" where
  "splitTags raw =
     (if trim_space raw = [] then []
      else sort (filter (\<lambda>t. t \<noteq> []) (map trim_space (split_on (CHR '','') raw))))"

definition uniqueTrackerURLs :: "string list \<Rightarrow> string list" where
  "uniqueTrackerURLs trackers =
     sort (fold (\<lambda>u result. let url = trim_space u in
             if url = [] then result
             else if url \<in> set result then result else result @ [url]) trackers [])"

section \<open>Loading the two states\<close>

definition snapshotItem :: "string \<Rightarrow> manifest_item \<Rightarrow> snapshot_torrent" where
  "snapshotItem hash item =
     \<lparr>st_Hash = hash, st_Name = mi_Name item, st_Category = mi_Category item,
      st_Tags = mi_Tags item, st_ArchivePath = mi_ArchivePath item,
      st_BlobPath = mi_TorrentBlob item, st_SizeBytes = mi_SizeBytes item,
      st_InfoHashV1 = mi_InfoHashV1 item, st_InfoHashV2 = mi_InfoHashV2 item\<rparr>"

definition snapshotTorrents :: "manifest_item list \<Rightarrow> (string, snapshot_torrent) gomap" where
  "snapshotTorrents items =
     fold (\<lambda>item torrents. let hash = normalizeLowerTrim (mi_Hash item) in
             if hash = [] then torrents else gm_put hash (snapshotItem hash item) torrents)
       items []"

definition trimmedCategories :: "(string \<Rightarrow> string \<Rightarrow> 'c) \<Rightarrow> (string, string) gomap \<Rightarrow> (string, 'c) gomap" where
  "trimmedCategories mk cats =
     fold (\<lambda>(name, path) acc. let trimmedName = trim_space name in
             if trimmedName = [] then acc
             else gm_put trimmedName (mk trimmedName (trim_space path)) acc) cats []"

definition tagSet :: "string list \<Rightarrow> string goset" where
  "tagSet tags =
     fold (\<lambda>tag acc. let trimmed = trim_space tag in
             if trimmed = [] then acc else gs_add trimmed acc) tags []"

definition loadSnapshotState :: "(int \<Rightarrow> string + manifest) \<Rightarrow> int \<Rightarrow> string + snapshot_state" where
  "loadSnapshotState loadManifest runID =
     (case loadManifest runID of
        Inl err \<Rightarrow> Inl err
      | Inr mf \<Rightarrow> Inr
          \<lparr>ss_RunID = runID, ss_InstanceID = mf_InstanceID mf,
           ss_Categories = trimmedCategories (\<lambda>_ path. path) (mf_Categories mf),
           ss_Tags = tagSet (mf_Tags mf),
           ss_Torrents = snapshotTorrents (mf_Items mf)\<rparr>)"

definition liveItem :: "string \<Rightarrow> reader_torrent \<Rightarrow> live_torrent" where
  "liveItem hash t =
     \<lparr>lt_Hash = hash, lt_Name = rt_Name t, lt_Category = trim_space (rt_Category t),
      lt_Tags = splitTags (rt_Tags t), lt_TrackerURLs = uniqueTrackerURLs (rt_Trackers t),
      lt_InfoHashV1 = trim_space (rt_InfohashV1 t), lt_InfoHashV2 = trim_space (rt_InfohashV2 t),
      lt_SizeBytes = rt_TotalSize t\<rparr>"

definition liveTorrents :: "reader_torrent list \<Rightarrow> (string, live_torrent) gomap" where
  "liveTorrents torrents =
     fold (\<lambda>t acc. let hash = normalizeLowerTrim (rt_Hash t) in
             if hash = [] then acc else gm_put hash (liveItem hash t) acc) torrents []"

definition loadLiveState :: "backup_reader \<Rightarrow> int \<Rightarrow> string + live_state" where
  "loadLiveState reader instanceID =
     (case GetCategories reader instanceID of
        Inl err \<Rightarrow> Inl (''load categories: '' @ err)
      | Inr categories \<Rightarrow>
     (case GetTags reader instanceID of
        Inl err \<Rightarrow> Inl (''load tags: '' @ err)
      | Inr tags \<Rightarrow>
     (case GetAllTorrents reader instanceID of
        Inl err \<Rightarrow> Inl (''load torrents: '' @ err)
      | Inr torrents \<Rightarrow> Inr
          \<lparr>ls_InstanceID = instanceID,
           ls_Categories = trimmedCategories (\<lambda>name path. \<lparr>lc_Name = name, lc_SavePath = path\<rparr>) categories,
           ls_Tags = tagSet tags,
           ls_Torrents = liveTorrents torrents\<rparr>)))"

section \<open>Building the plan\<close>

definition category_snap_step ::
  "(string, live_category) gomap \<Rightarrow> string \<Rightarrow> string \<times> string \<Rightarrow> category_plan \<Rightarrow> category_plan" where
  "category_snap_step live mode entry plan =
     (let (name, savePath) = entry; trimmedName = trim_space name in
      if trimmedName = [] then plan
      else (case gm_get live trimmedName of
          None \<Rightarrow> plan\<lparr>cp_Create := cp_Create plan @ [\<lparr>cs_Name = trimmedName, cs_SavePath = trim_space savePath\<rparr>]\<rparr>
        | Some liveCat \<Rightarrow>
            let desiredPath = trim_space savePath in
            if allowUpdates mode \<and> desiredPath \<noteq> lc_SavePath liveCat
            then plan\<lparr>cp_Update := cp_Update plan @
                   [\<lparr>cu_Name = trimmedName, cu_CurrentPath = lc_SavePath liveCat, cu_DesiredPath = desiredPath\<rparr>]\<rparr>
            else plan))"

definition category_live_step ::
  "(string, string) gomap \<Rightarrow> string \<times> live_category \<Rightarrow> category_plan \<Rightarrow> category_plan" where
  "category_live_step snapshot entry plan =
     (let trimmedName = trim_space (fst entry) in
      if trimmedName = [] then plan
      else if \<not> gm_has snapshot trimmedName
      then plan\<lparr>cp_Delete := cp_Delete plan @ [trimmedName]\<rparr> else plan)"

definition buildCategoryPlan ::
  "(string, string) gomap \<Rightarrow> (string, live_category) gomap \<Rightarrow> string \<Rightarrow> category_plan" where
  "buildCategoryPlan snapshot live mode =
     (let plan = fold (category_snap_step live mode) snapshot \<lparr>cp_Create = [], cp_Update = [], cp_Delete = []\<rparr>;
          plan = (if includeDeletes mode then fold (category_live_step snapshot) live plan else plan)
      in \<lparr>cp_Create = sort_key cs_Name (cp_Create plan),
          cp_Update = sort_key cu_Name (cp_Update plan),
          cp_Delete = sort (cp_Delete plan)\<rparr>)"

definition missingTags :: "string goset \<Rightarrow> string goset \<Rightarrow> string list" where
  "missingTags wanted present =
     fold (\<lambda>tag acc. let trimmed = trim_space tag in
             if trimmed = [] then acc
             else if trimmed \<notin> set present then acc @ [trimmed] else acc) wanted []"

definition buildTagPlan :: "string goset \<Rightarrow> string goset \<Rightarrow> string \<Rightarrow> tag_plan" where
  "buildTagPlan snapshot live mode =
     \<lparr>tp_Create = sort (missingTags snapshot live),
      tp_Delete = (if includeDeletes mode then sort (missingTags live snapshot) else [])\<rparr>"

definition trimmedOption :: "string option \<Rightarrow> string option" where
  "trimmedOption v =
     (case v of None \<Rightarrow> None | Some s \<Rightarrow> if trim_space s \<noteq> [] then Some (trim_space s) else None)"

definition snapshotTorrentToManifestItem :: "snapshot_torrent \<Rightarrow> manifest_item" where
  "snapshotTorrentToManifestItem t =
     \<lparr>mi_Hash = normalizeLowerTrim (st_Hash t), mi_Name = st_Name t,
      mi_Category = map_option trim_space (st_Category t),
      mi_SizeBytes = st_SizeBytes t, mi_ArchivePath = st_ArchivePath t,
      mi_InfoHashV1 = trimmedOption (st_InfoHashV1 t),
      mi_InfoHashV2 = trimmedOption (st_InfoHashV2 t),
      mi_Tags = st_Tags t, mi_TorrentBlob = st_BlobPath t\<rparr>"

definition infohashChange :: "string \<Rightarrow> string option \<Rightarrow> string \<Rightarrow> diff_change list" where
  "infohashChange field snap live =
     (case snap of None \<Rightarrow> []
      | Some s \<Rightarrow>
          let desired = trim_space s in
          if desired \<noteq> [] \<and> desired \<noteq> trim_space live
          then [\<lparr>dc_Field = field, dc_Supported = False, dc_Current = DStr (trim_space live),
                 dc_Desired = DStr desired,
                 dc_Message = ''infohash values are read-only; verify torrent integrity manually''\<rparr>]
          else [])"

definition computeTorrentChanges :: "snapshot_torrent \<Rightarrow> live_torrent \<Rightarrow> diff_change list" where
  "computeTorrentChanges snapshot live =
     (let snapshotCategory = normalizeCategory (st_Category snapshot);
          liveCategory = trim_space (lt_Category live)
      in (if snapshotCategory \<noteq> liveCategory
          then [\<lparr>dc_Field = ''category'', dc_Supported = True, dc_Current = DStr liveCategory,
                 dc_Desired = DStr snapshotCategory, dc_Message = []\<rparr>] else [])
       @ (if \<not> stringSetsEqual (st_Tags snapshot) (lt_Tags live)
          then [\<lparr>dc_Field = ''tags'', dc_Supported = True, dc_Current = DStrs (lt_Tags live),
                 dc_Desired = DStrs (st_Tags snapshot), dc_Message = []\<rparr>] else [])
       @ infohashChange ''infohash_v1'' (st_InfoHashV1 snapshot) (lt_InfoHashV1 live)
       @ infohashChange ''infohash_v2'' (st_InfoHashV2 snapshot) (lt_InfoHashV2 live)
       @ (if st_SizeBytes snapshot > 0 \<and> st_SizeBytes snapshot \<noteq> lt_SizeBytes live
          then [\<lparr>dc_Field = ''sizeBytes'', dc_Supported = False, dc_Current = DInt (lt_SizeBytes live),
                 dc_Desired = DInt (st_SizeBytes snapshot),
                 dc_Message = ''local data size differs; re-verify files or re-download''\<rparr>] else []))"

definition torrent_snap_step ::
  "(string, live_torrent) gomap \<Rightarrow> string \<Rightarrow> string \<times> snapshot_torrent \<Rightarrow> torrent_plan \<Rightarrow> torrent_plan" where
  "torrent_snap_step live mode entry plan =
     (let (hash, snap) = entry; normalizedHash = normalizeLowerTrim hash in
      if normalizedHash = [] then plan
      else (case gm_get live normalizedHash of
          None \<Rightarrow> plan\<lparr>xp_Add := xp_Add plan @ [snapshotTorrentToManifestItem snap]\<rparr>
        | Some liveTorrent \<Rightarrow>
            if \<not> allowUpdates mode then plan
            else let changes = computeTorrentChanges snap liveTorrent in
              if changes = [] then plan
              else plan\<lparr>xp_Update := xp_Update plan @
                     [\<lparr>tu_Hash = normalizedHash, tu_Current = liveTorrent, tu_Desired = snap, tu_Changes = changes\<rparr>]\<rparr>))"

definition torrent_live_step ::
  "(string, snapshot_torrent) gomap \<Rightarrow> string \<times> live_torrent \<Rightarrow> torrent_plan \<Rightarrow> torrent_plan" where
  "torrent_live_step snapshot entry plan =
     (let normalizedHash = normalizeLowerTrim (fst entry) in
      if normalizedHash = [] then plan
      else if \<not> gm_has snapshot normalizedHash
      then plan\<lparr>xp_Delete := xp_Delete plan @ [normalizedHash]\<rparr> else plan)"

definition buildTorrentPlan ::
  "(string, snapshot_torrent) gomap \<Rightarrow> (string, live_torrent) gomap \<Rightarrow> string \<Rightarrow> torrent_plan" where
  "buildTorrentPlan snapshot live mode =
     (let plan = fold (torrent_snap_step live mode) snapshot \<lparr>xp_Add = [], xp_Update = [], xp_Delete = []\<rparr>;
          plan = (if includeDeletes mode then fold (torrent_live_step snapshot) live plan else plan)
      in \<lparr>xp_Add = sort_key (\<lambda>i. normalizeLowerTrim (mi_Hash i)) (xp_Add plan),
          xp_Update = sort_key (\<lambda>u. normalizeLowerTrim (tu_Hash u)) (xp_Update plan),
          xp_Delete = sort (xp_Delete plan)\<rparr>)"

definition buildRestorePlan ::
  "snapshot_state option \<Rightarrow> live_state option \<Rightarrow> string \<Rightarrow> string + restore_plan" where
  "buildRestorePlan snapshot live mode =
     (case snapshot of
        None \<Rightarrow> Inl ''nil snapshot state''
      | Some sn \<Rightarrow>
     (case live of
        None \<Rightarrow> Inl ''nil live state''
      | Some lv \<Rightarrow> Inr
          \<lparr>rp_Mode = mode, rp_RunID = ss_RunID sn, rp_InstanceID = ss_InstanceID sn,
           rp_Categories = buildCategoryPlan (ss_Categories sn) (ls_Categories lv) mode,
           rp_Tags = buildTagPlan (ss_Tags sn) (ls_Tags lv) mode,
           rp_Torrents = buildTorrentPlan (ss_Torrents sn) (ls_Torrents lv) mode\<rparr>))"

section \<open>Plan options and the entry point\<close>

definition excludeSet :: "string list \<Rightarrow> string goset" where
  "excludeSet hashes =
     fold (\<lambda>hash acc. let normalized = normalizeLowerTrim hash in
             if normalized = [] then acc else gs_add normalized acc) hashes []"

definition applyRestorePlanOptions :: "restore_plan \<Rightarrow> string list option \<Rightarrow> restore_plan" where
  "applyRestorePlanOptions plan opts =
     (case opts of
        None \<Rightarrow> plan
      | Some hashes \<Rightarrow>
          if hashes = [] then plan
          else let exclude = excludeSet hashes in
            if exclude = [] then plan
            else let keep = (\<lambda>h. normalizeLowerTrim h \<notin> set exclude); t = rp_Torrents plan in
              plan\<lparr>rp_Torrents :=
                \<lparr>xp_Add = filter (\<lambda>i. keep (mi_Hash i)) (xp_Add t),
                 xp_Update = filter (\<lambda>u. keep (tu_Hash u)) (xp_Update t),
                 xp_Delete = filter keep (xp_Delete t)\<rparr>\<rparr>)"

definition PlanRestoreDiff ::
  "backup_service option \<Rightarrow> int \<Rightarrow> string \<Rightarrow> string list option \<Rightarrow> string + restore_plan" where
  "PlanRestoreDiff s runID mode0 opts =
     (case s of
        None \<Rightarrow> Inl ''nil backup service''
      | Some srv \<Rightarrow>
     (case bs_reader srv of
        None \<Rightarrow> Inl ''sync manager unavailable''
      | Some reader \<Rightarrow>
          let mode = (if mode0 = [] then RestoreModeIncremental else mode0) in
          if \<not> isValidRestoreMode mode then Inl (''unsupported restore mode: '' @ mode)
          else (case loadSnapshotState (bs_LoadManifest srv) runID of
              Inl err \<Rightarrow> Inl err
            | Inr snapshot \<Rightarrow>
           (case loadLiveState reader (ss_InstanceID snapshot) of
              Inl err \<Rightarrow> Inl err
            | Inr live \<Rightarrow>
           (case buildRestorePlan (Some snapshot) (Some live) mode of
              Inl err \<Rightarrow> Inl err
            | Inr plan \<Rightarrow> Inr (applyRestorePlanOptions plan opts))))))"

section \<open>Well-formed states\<close>

text \<open>
  What the two loaders establish: keys are trimmed (hashes lower-cased too), none is empty and
  none occurs twice, and a snapshot torrent carries its key.
\<close>

definition trimmed_keys :: "(string, 'v) gomap \<Rightarrow> bool" where
  "trimmed_keys m \<longleftrightarrow> gm_ok m \<and> (\<forall>(k, v) \<in> set m. trim_space k = k \<and> k \<noteq> [])"

definition hash_keys :: "(string, 'v) gomap \<Rightarrow> bool" where
  "hash_keys m \<longleftrightarrow> gm_ok m \<and> (\<forall>(k, v) \<in> set m. normalizeLowerTrim k = k \<and> k \<noteq> [])"

definition trimmed_set :: "string goset \<Rightarrow> bool" where
  "trimmed_set s \<longleftrightarrow> distinct s \<and> (\<forall>t \<in> set s. trim_space t = t \<and> t \<noteq> [])"

definition snapshot_ok :: "snapshot_state \<Rightarrow> bool" where
  "snapshot_ok sn \<longleftrightarrow> trimmed_keys (ss_Categories sn) \<and> trimmed_set (ss_Tags sn)
     \<and> hash_keys (ss_Torrents sn) \<and> (\<forall>(h, t) \<in> set (ss_Torrents sn). st_Hash t = h)"

definition live_ok :: "live_state \<Rightarrow> bool" where
  "live_ok lv \<longleftrightarrow> trimmed_keys (ls_Categories lv) \<and> trimmed_set (ls_Tags lv) \<and> hash_keys (ls_Torrents lv)"

lemma set_gm_put: "set (gm_put k v m) \<subseteq> insert (k, v) (set m)"
  unfolding gm_put_def by (induction m) auto

lemma entries_gm_put:
  "P (k, v) \<Longrightarrow> \<forall>e \<in> set m. P e \<Longrightarrow> \<forall>e \<in> set (gm_put k v m). P e"
  using set_gm_put by fastforce

lemma trimmed_keys_put:
  "trimmed_keys m \<Longrightarrow> k \<noteq> [] \<Longrightarrow> trim_space k = k \<Longrightarrow> trimmed_keys (gm_put k v m)"
  unfolding trimmed_keys_def by (auto dest!: subsetD [OF set_gm_put])

lemma hash_keys_put:
  "hash_keys m \<Longrightarrow> k \<noteq> [] \<Longrightarrow> normalizeLowerTrim k = k \<Longrightarrow> hash_keys (gm_put k v m)"
  unfolding hash_keys_def by (auto dest!: subsetD [OF set_gm_put])

lemma trimmedCategories_ok: "trimmed_keys (trimmedCategories mk cats)"
  unfolding trimmedCategories_def
  by (rule fold_invariant) (auto simp: Let_def trimmed_keys_put, simp add: trimmed_keys_def)

lemma tagSet_ok: "trimmed_set (tagSet tags)"
  unfolding tagSet_def
  by (rule fold_invariant) (auto simp: Let_def trimmed_set_def)

lemma liveTorrents_ok: "hash_keys (liveTorrents ts)"
  unfolding liveTorrents_def
  by (rule fold_invariant) (auto simp: Let_def hash_keys_put, simp add: hash_keys_def)

lemma snapshotTorrents_ok:
  "hash_keys (snapshotTorrents items) \<and> (\<forall>(h, t) \<in> set (snapshotTorrents items). st_Hash t = h)"
  unfolding snapshotTorrents_def
proof (rule fold_invariant)
  show "hash_keys ([] :: (string, snapshot_torrent) gomap) \<and> (\<forall>(h, t) \<in> set []. st_Hash t = h)"
    by (simp add: hash_keys_def)
next
  fix item :: manifest_item and m :: "(string, snapshot_torrent) gomap"
  let ?h = "normalizeLowerTrim (mi_Hash item)"
  assume m: "hash_keys m \<and> (\<forall>(h, t) \<in> set m. st_Hash t = h)"
  have "\<forall>(h, t) \<in> set (gm_put ?h (snapshotItem ?h item) m). st_Hash t = h"
    using m by (intro entries_gm_put) (simp_all add: snapshotItem_def)
  with m show "hash_keys (let hash = ?h in if hash = [] then m else gm_put hash (snapshotItem hash item) m) \<and>
     (\<forall>(h, t) \<in> set (let hash = ?h in if hash = [] then m else gm_put hash (snapshotItem hash item) m). st_Hash t = h)"
    by (simp add: Let_def hash_keys_put)
qed

lemma loadSnapshotState_ok: "loadSnapshotState lm r = Inr sn \<Longrightarrow> snapshot_ok sn"
  by (auto simp: loadSnapshotState_def snapshot_ok_def trimmedCategories_ok tagSet_ok
      snapshotTorrents_ok [THEN conjunct1] split: sum.splits)
     (use snapshotTorrents_ok in fastforce)

lemma loadLiveState_ok: "loadLiveState rd i = Inr lv \<Longrightarrow> live_ok lv"
  by (auto simp: loadLiveState_def live_ok_def trimmedCategories_ok tagSet_ok liveTorrents_ok split: sum.splits)

section \<open>The entries of a plan\<close>

text \<open>
  Each loop of the planner appends at most one entry per visited key; the entry is a function of
  the key alone, so that the plan does not depend on the order of the loop.
\<close>

definition category_create_of :: "(string, live_category) gomap \<Rightarrow> string \<times> string \<Rightarrow> category_spec option" where
  "category_create_of live e =
     (if trim_space (fst e) = [] \<or> gm_get live (trim_space (fst e)) \<noteq> None then None
      else Some \<lparr>cs_Name = trim_space (fst e), cs_SavePath = trim_space (snd e)\<rparr>)"

definition category_update_of ::
  "(string, live_category) gomap \<Rightarrow> string \<Rightarrow> string \<times> string \<Rightarrow> category_update option" where
  "category_update_of live mode e =
     (case gm_get live (trim_space (fst e)) of
        None \<Rightarrow> None
      | Some l \<Rightarrow> if trim_space (fst e) = [] \<or> \<not> allowUpdates mode \<or> trim_space (snd e) = lc_SavePath l then None
          else Some \<lparr>cu_Name = trim_space (fst e), cu_CurrentPath = lc_SavePath l, cu_DesiredPath = trim_space (snd e)\<rparr>)"

definition category_delete_of :: "(string, string) gomap \<Rightarrow> string \<times> live_category \<Rightarrow> string option" where
  "category_delete_of snap e =
     (if trim_space (fst e) = [] \<or> gm_has snap (trim_space (fst e)) then None else Some (trim_space (fst e)))"

lemma category_snap_step_eq:
  "category_snap_step live mode e plan =
     plan\<lparr>cp_Create := cp_Create plan @ opt_list (category_create_of live e),
          cp_Update := cp_Update plan @ opt_list (category_update_of live mode e)\<rparr>"
  by (cases e)
     (simp add: category_snap_step_def category_create_of_def category_update_of_def Let_def split: option.splits)

lemma category_live_step_eq:
  "category_live_step snap e plan = plan\<lparr>cp_Delete := cp_Delete plan @ opt_list (category_delete_of snap e)\<rparr>"
  by (simp add: category_live_step_def category_delete_of_def Let_def)

lemma fold_category_snap:
  "fold (category_snap_step live mode) snap plan =
     plan\<lparr>cp_Create := cp_Create plan @ List.map_filter (category_create_of live) snap,
          cp_Update := cp_Update plan @ List.map_filter (category_update_of live mode) snap\<rparr>"
  by (induction snap arbitrary: plan) (simp_all add: category_snap_step_eq map_filter_Cons map_filter_Nil)

lemma fold_category_live:
  "fold (category_live_step snap) live plan =
     plan\<lparr>cp_Delete := cp_Delete plan @ List.map_filter (category_delete_of snap) live\<rparr>"
  by (induction live arbitrary: plan) (simp_all add: category_live_step_eq map_filter_Cons map_filter_Nil)

lemma buildCategoryPlan_eq:
  "buildCategoryPlan snap live mode =
     \<lparr>cp_Create = sort_key cs_Name (List.map_filter (category_create_of live) snap),
      cp_Update = sort_key cu_Name (List.map_filter (category_update_of live mode) snap),
      cp_Delete = (if includeDeletes mode then sort (List.map_filter (category_delete_of snap) live) else [])\<rparr>"
  by (simp add: buildCategoryPlan_def fold_category_snap fold_category_live Let_def)

lemma trimmed_keysD:
  assumes "trimmed_keys m"
  shows "gm_ok m" and "(k, v) \<in> set m \<Longrightarrow> trim_space k = k" and "(k, v) \<in> set m \<Longrightarrow> k \<noteq> []"
    and "gm_get m k = Some v \<longleftrightarrow> (k, v) \<in> set m"
  using assms by (auto simp: trimmed_keys_def gm_get_iff)

lemma set_map_filter_trimmed:
  assumes "trimmed_keys m"
    and "\<And>n v. trim_space n = n \<Longrightarrow> n \<noteq> [] \<Longrightarrow> gm_has m n \<Longrightarrow> f (n, v) = Some y \<longleftrightarrow> P n v"
  shows "y \<in> set (List.map_filter f m) \<longleftrightarrow> (\<exists>n v. gm_get m n = Some v \<and> P n v)"
proof -
  have "f (n, v) = Some y \<longleftrightarrow> P n v" if "(n, v) \<in> set m" for n v
    using that assms(2) [of n v] trimmed_keysD(2-4) [OF assms(1), of n v] by (simp add: gm_has_get)
  then show ?thesis
    unfolding set_map_filter trimmed_keysD(4) [OF assms(1)] by (metis surj_pair)
qed

lemma category_create_iff:
  assumes "trimmed_keys snap"
  shows "c \<in> set (cp_Create (buildCategoryPlan snap live mode)) \<longleftrightarrow>
    (\<exists>n p. gm_get snap n = Some p \<and> gm_get live n = None \<and> c = \<lparr>cs_Name = n, cs_SavePath = trim_space p\<rparr>)"
  by (simp add: buildCategoryPlan_eq) (rule set_map_filter_trimmed [OF assms], auto simp: category_create_of_def)

lemma category_update_iff:
  assumes "trimmed_keys snap"
  shows "u \<in> set (cp_Update (buildCategoryPlan snap live mode)) \<longleftrightarrow>
    (\<exists>n p. gm_get snap n = Some p \<and> (\<exists>l. gm_get live n = Some l \<and> allowUpdates mode \<and> trim_space p \<noteq> lc_SavePath l
       \<and> u = \<lparr>cu_Name = n, cu_CurrentPath = lc_SavePath l, cu_DesiredPath = trim_space p\<rparr>))"
  by (simp add: buildCategoryPlan_eq)
     (rule set_map_filter_trimmed [OF assms], auto simp: category_update_of_def split: option.splits)

lemma category_delete_iff:
  assumes "trimmed_keys live"
  shows "n \<in> set (cp_Delete (buildCategoryPlan snap live mode)) \<longleftrightarrow>
    includeDeletes mode \<and> gm_has live n \<and> \<not> gm_has snap n"
proof -
  have "n \<in> set (List.map_filter (category_delete_of snap) live) \<longleftrightarrow>
      (\<exists>k v. gm_get live k = Some v \<and> \<not> gm_has snap k \<and> n = k)"
    by (rule set_map_filter_trimmed [OF assms]) (auto simp: category_delete_of_def)
  then show ?thesis
    by (auto simp: buildCategoryPlan_eq gm_has_get)
qed

lemma missingTags_eq:
  assumes "trimmed_set wanted"
  shows "missingTags wanted present = filter (\<lambda>t. t \<notin> set present) wanted"
proof -
  have "fold (\<lambda>tag acc. let trimmed = trim_space tag in
             if trimmed = [] then acc
             else if trimmed \<notin> set present then acc @ [trimmed] else acc) ts acc
      = acc @ filter (\<lambda>t. t \<notin> set present) ts"
    if "\<forall>t \<in> set ts. trim_space t = t \<and> t \<noteq> []" for ts acc
    using that by (induction ts arbitrary: acc) (auto simp: Let_def)
  from this [of wanted "[]"] assms show ?thesis
    unfolding missingTags_def trimmed_set_def by simp
qed

definition torrent_add_of ::
  "(string, live_torrent) gomap \<Rightarrow> string \<times> snapshot_torrent \<Rightarrow> manifest_item option" where
  "torrent_add_of live e =
     (if normalizeLowerTrim (fst e) = [] \<or> gm_get live (normalizeLowerTrim (fst e)) \<noteq> None then None
      else Some (snapshotTorrentToManifestItem (snd e)))"

definition torrent_update_of ::
  "(string, live_torrent) gomap \<Rightarrow> string \<Rightarrow> string \<times> snapshot_torrent \<Rightarrow> torrent_update option" where
  "torrent_update_of live mode e =
     (case gm_get live (normalizeLowerTrim (fst e)) of
        None \<Rightarrow> None
      | Some l \<Rightarrow>
          if normalizeLowerTrim (fst e) = [] \<or> \<not> allowUpdates mode \<or> computeTorrentChanges (snd e) l = [] then None
          else Some \<lparr>tu_Hash = normalizeLowerTrim (fst e), tu_Current = l, tu_Desired = snd e,
                      tu_Changes = computeTorrentChanges (snd e) l\<rparr>)"

definition torrent_delete_of :: "(string, snapshot_torrent) gomap \<Rightarrow> string \<times> live_torrent \<Rightarrow> string option" where
  "torrent_delete_of snap e =
     (if normalizeLowerTrim (fst e) = [] \<or> gm_has snap (normalizeLowerTrim (fst e)) then None
      else Some (normalizeLowerTrim (fst e)))"

lemma torrent_snap_step_eq:
  "torrent_snap_step live mode e plan =
     plan\<lparr>xp_Add := xp_Add plan @ opt_list (torrent_add_of live e),
          xp_Update := xp_Update plan @ opt_list (torrent_update_of live mode e)\<rparr>"
  by (cases e)
     (simp add: torrent_snap_step_def torrent_add_of_def torrent_update_of_def Let_def split: option.splits)

lemma torrent_live_step_eq:
  "torrent_live_step snap e plan = plan\<lparr>xp_Delete := xp_Delete plan @ opt_list (torrent_delete_of snap e)\<rparr>"
  by (simp add: torrent_live_step_def torrent_delete_of_def Let_def)

lemma fold_torrent_snap:
  "fold (torrent_snap_step live mode) snap plan =
     plan\<lparr>xp_Add := xp_Add plan @ List.map_filter (torrent_add_of live) snap,
          xp_Update := xp_Update plan @ List.map_filter (torrent_update_of live mode) snap\<rparr>"
  by (induction snap arbitrary: plan) (simp_all add: torrent_snap_step_eq)

lemma fold_torrent_live:
  "fold (torrent_live_step snap) live plan =
     plan\<lparr>xp_Delete := xp_Delete plan @ List.map_filter (torrent_delete_of snap) live\<rparr>"
  by (induction live arbitrary: plan) (simp_all add: torrent_live_step_eq)

lemma buildTorrentPlan_eq:
  "buildTorrentPlan snap live mode =
     \<lparr>xp_Add = sort_key (\<lambda>i. normalizeLowerTrim (mi_Hash i)) (List.map_filter (torrent_add_of live) snap),
      xp_Update = sort_key (\<lambda>u. normalizeLowerTrim (tu_Hash u)) (List.map_filter (torrent_update_of live mode) snap),
      xp_Delete = (if includeDeletes mode then sort (List.map_filter (torrent_delete_of snap) live) else [])\<rparr>"
  by (simp add: buildTorrentPlan_def fold_torrent_snap fold_torrent_live Let_def)

lemma hash_keysD:
  assumes "hash_keys m"
  shows "gm_ok m" and "(k, v) \<in> set m \<Longrightarrow> normalizeLowerTrim k = k" and "(k, v) \<in> set m \<Longrightarrow> k \<noteq> []"
    and "gm_get m k = Some v \<longleftrightarrow> (k, v) \<in> set m"
  using assms by (auto simp: hash_keys_def gm_get_iff)

lemma set_map_filter_hashes:
  assumes "hash_keys m"
    and "\<And>h v. normalizeLowerTrim h = h \<Longrightarrow> h \<noteq> [] \<Longrightarrow> gm_get m h = Some v \<Longrightarrow> f (h, v) = Some y \<longleftrightarrow> P h v"
  shows "y \<in> set (List.map_filter f m) \<longleftrightarrow> (\<exists>h v. gm_get m h = Some v \<and> P h v)"
proof -
  have "f (h, v) = Some y \<longleftrightarrow> P h v" if "(h, v) \<in> set m" for h v
    using that assms(2) [of h v] hash_keysD(2-4) [OF assms(1), of h v] by simp
  then show ?thesis
    unfolding set_map_filter hash_keysD(4) [OF assms(1)] by (metis surj_pair)
qed

lemma torrent_add_iff:
  assumes "hash_keys snap"
  shows "i \<in> set (xp_Add (buildTorrentPlan snap live mode)) \<longleftrightarrow>
    (\<exists>h t. gm_get snap h = Some t \<and> gm_get live h = None \<and> i = snapshotTorrentToManifestItem t)"
  by (simp add: buildTorrentPlan_eq) (rule set_map_filter_hashes [OF assms], auto simp: torrent_add_of_def)

lemma torrent_update_iff:
  assumes "hash_keys snap"
  shows "u \<in> set (xp_Update (buildTorrentPlan snap live mode)) \<longleftrightarrow>
    (\<exists>h t. gm_get snap h = Some t \<and> (\<exists>l. gm_get live h = Some l \<and> allowUpdates mode
       \<and> computeTorrentChanges t l \<noteq> []
       \<and> u = \<lparr>tu_Hash = h, tu_Current = l, tu_Desired = t, tu_Changes = computeTorrentChanges t l\<rparr>))"
  by (simp add: buildTorrentPlan_eq)
     (rule set_map_filter_hashes [OF assms], auto simp: torrent_update_of_def split: option.splits)

lemma torrent_delete_iff:
  assumes "hash_keys live"
  shows "h \<in> set (xp_Delete (buildTorrentPlan snap live mode)) \<longleftrightarrow>
    includeDeletes mode \<and> gm_has live h \<and> \<not> gm_has snap h"
proof -
  have "h \<in> set (List.map_filter (torrent_delete_of snap) live) \<longleftrightarrow>
      (\<exists>k v. gm_get live k = Some v \<and> \<not> gm_has snap k \<and> h = k)"
    by (rule set_map_filter_hashes [OF assms]) (auto simp: torrent_delete_of_def)
  then show ?thesis
    by (auto simp: buildTorrentPlan_eq gm_has_get)
qed

lemma category_names_distinct:
  assumes "trimmed_keys snap"
  shows "distinct (map cs_Name (cp_Create (buildCategoryPlan snap live mode)))"
    and "distinct (map cu_Name (cp_Update (buildCategoryPlan snap live mode)))"
proof -
  note d = trimmed_keysD(1,2) [OF assms]
  show "distinct (map cs_Name (cp_Create (buildCategoryPlan snap live mode)))"
    unfolding buildCategoryPlan_eq using d
    by (auto simp: distinct_sort_key_map category_create_of_def gm_ok_def split: if_splits
        intro!: distinct_map_filter_key [where k = fst])
  show "distinct (map cu_Name (cp_Update (buildCategoryPlan snap live mode)))"
    unfolding buildCategoryPlan_eq using d
    by (auto simp: distinct_sort_key_map category_update_of_def gm_ok_def split: if_splits option.splits
        intro!: distinct_map_filter_key [where k = fst])
qed

lemma torrent_hashes_distinct:
  assumes "hash_keys snap" and "\<forall>(h, t) \<in> set snap. st_Hash t = h"
  shows "distinct (map mi_Hash (xp_Add (buildTorrentPlan snap live mode)))"
    and "distinct (map tu_Hash (xp_Update (buildTorrentPlan snap live mode)))"
proof -
  note d = hash_keysD(1,2) [OF assms(1)]
  have st: "(h, t) \<in> set snap \<Longrightarrow> st_Hash t = h" for h t
    using assms(2) by blast
  show "distinct (map mi_Hash (xp_Add (buildTorrentPlan snap live mode)))"
    unfolding buildTorrentPlan_eq using d st
    by (auto simp: distinct_sort_key_map torrent_add_of_def snapshotTorrentToManifestItem_def gm_ok_def
        split: if_splits intro!: distinct_map_filter_key [where k = fst])
  show "distinct (map tu_Hash (xp_Update (buildTorrentPlan snap live mode)))"
    unfolding buildTorrentPlan_eq using d
    by (auto simp: distinct_sort_key_map torrent_update_of_def gm_ok_def split: if_splits option.splits
        intro!: distinct_map_filter_key [where k = fst])
qed

section \<open>What a plan does\<close>

text \<open>
  An abstract instance: category paths, tags, and per torrent its category and its set of tags.
  Creates, updates and deletes act on it in the order in which a restore carries them out.
\<close>

type_synonym category_map = "string \<Rightarrow> string option"
type_synonym torrent_map = "string \<Rightarrow> (string \<times> string set) option"

definition category_after :: "category_plan \<Rightarrow> category_map \<Rightarrow> category_map" where
  "category_after plan m = (\<lambda>n. if n \<in> set (cp_Delete plan) then None
     else fold (\<lambda>u m. m(cu_Name u \<mapsto> cu_DesiredPath u)) (cp_Update plan)
            (fold (\<lambda>c m. m(cs_Name c \<mapsto> cs_SavePath c)) (cp_Create plan) m) n)"

definition tags_after :: "tag_plan \<Rightarrow> string set \<Rightarrow> string set" where
  "tags_after plan T = (T \<union> set (tp_Create plan)) - set (tp_Delete plan)"

definition change_after :: "diff_change \<Rightarrow> string \<times> string set \<Rightarrow> string \<times> string set" where
  "change_after c v =
     (if \<not> dc_Supported c then v
      else (case dc_Desired c of
          DStr s \<Rightarrow> if dc_Field c = ''category'' then (s, snd v) else v
        | DStrs ts \<Rightarrow> if dc_Field c = ''tags'' then (fst v, set (toStringSet ts)) else v
        | DInt _ \<Rightarrow> v))"

definition update_after :: "torrent_update \<Rightarrow> torrent_map \<Rightarrow> torrent_map" where
  "update_after u m = m(tu_Hash u := map_option (fold change_after (tu_Changes u)) (m (tu_Hash u)))"

definition torrents_after :: "torrent_plan \<Rightarrow> torrent_map \<Rightarrow> torrent_map" where
  "torrents_after plan m = (\<lambda>h. if h \<in> set (xp_Delete plan) then None
     else fold update_after (xp_Update plan)
            (fold (\<lambda>i m. m(mi_Hash i \<mapsto> (normalizeCategory (mi_Category i), set (toStringSet (mi_Tags i)))))
               (xp_Add plan) m) h)"

definition live_categories :: "live_state \<Rightarrow> category_map" where
  "live_categories lv n = map_option lc_SavePath (gm_get (ls_Categories lv) n)"

definition live_torrents :: "live_state \<Rightarrow> torrent_map" where
  "live_torrents lv h =
     map_option (\<lambda>t. (trim_space (lt_Category t), set (toStringSet (lt_Tags t)))) (gm_get (ls_Torrents lv) h)"

definition snapshot_torrents :: "snapshot_state \<Rightarrow> torrent_map" where
  "snapshot_torrents sn h =
     map_option (\<lambda>t. (normalizeCategory (st_Category t), set (toStringSet (st_Tags t)))) (gm_get (ss_Torrents sn) h)"

text \<open>
  The specification of a restore in one place: what is missing is created; what is present is
  brought to the snapshot's value in the overwrite and complete modes and kept otherwise; what
  the snapshot does not know is deleted in the complete mode and kept otherwise.
\<close>

definition restored :: "string \<Rightarrow> 'v option \<Rightarrow> 'v option \<Rightarrow> 'v option" where
  "restored mode snap live =
     (case snap of
        Some v \<Rightarrow> if live \<noteq> None \<and> \<not> allowUpdates mode then live else Some v
      | None \<Rightarrow> if includeDeletes mode then None else live)"

lemma buildCategoryPlan_restores:
  assumes s: "trimmed_keys snap" and l: "trimmed_keys live"
  shows "category_after (buildCategoryPlan snap live mode) (\<lambda>n. map_option lc_SavePath (gm_get live n)) n =
    restored mode (map_option trim_space (gm_get snap n)) (map_option lc_SavePath (gm_get live n))"
    (is "category_after ?plan ?m n = _")
proof -
  define v where "v = trim_space (the (gm_get snap n))"
  let ?c = "fold (\<lambda>c m. m(cs_Name c \<mapsto> cs_SavePath c)) (cp_Create ?plan) ?m"
  let ?u = "fold (\<lambda>u m. m(cu_Name u \<mapsto> cu_DesiredPath u)) (cp_Update ?plan) ?c"
  have "?c n = (if n \<in> cs_Name ` set (cp_Create ?plan) then Some v else ?m n)"
    by (rule fold_upd_value) (auto simp: category_create_iff [OF s] v_def)
  moreover have "n \<in> cs_Name ` set (cp_Create ?plan) \<longleftrightarrow> gm_get snap n \<noteq> None \<and> gm_get live n = None"
    by (force simp: image_iff category_create_iff [OF s])
  moreover have "?u n = (if n \<in> cu_Name ` set (cp_Update ?plan) then Some v else ?c n)"
    by (rule fold_upd_value) (auto simp: category_update_iff [OF s] v_def)
  moreover have "n \<in> cu_Name ` set (cp_Update ?plan) \<longleftrightarrow>
      gm_get snap n \<noteq> None \<and> allowUpdates mode \<and> (\<exists>l. gm_get live n = Some l \<and> v \<noteq> lc_SavePath l)"
    by (force simp: image_iff category_update_iff [OF s] v_def)
  ultimately show ?thesis
    by (auto simp: category_after_def restored_def category_delete_iff [OF l] gm_has_get v_def split: option.splits)
qed

lemma buildTagPlan_restores:
  assumes "trimmed_set snap" and "trimmed_set live"
  shows "tags_after (buildTagPlan snap live mode) (set live) =
    (if includeDeletes mode then set snap else set live \<union> set snap)"
  by (auto simp: tags_after_def buildTagPlan_def missingTags_eq [OF assms(1)] missingTags_eq [OF assms(2)])

lemma set_toStringSet: "set (toStringSet xs) = {trim_space x |x. x \<in> set xs \<and> trim_space x \<noteq> []}"
proof -
  have "set (fold (\<lambda>item result. let trimmed = trim_space item in
             if trimmed = [] then result else gs_add trimmed result) xs acc) =
      set acc \<union> {trim_space x |x. x \<in> set xs \<and> trim_space x \<noteq> []}" for acc
    by (induction xs arbitrary: acc) (auto simp: Let_def)
  then show ?thesis
    by (simp add: toStringSet_def)
qed

lemma distinct_toStringSet: "distinct (toStringSet xs)"
  unfolding toStringSet_def by (rule fold_invariant) (auto simp: Let_def)

lemma stringSetsEqual_iff: "stringSetsEqual a b \<longleftrightarrow> set (toStringSet a) = set (toStringSet b)"
proof
  assume eq: "stringSetsEqual a b"
  then have "set (toStringSet a) \<subseteq> set (toStringSet b)" and "length (toStringSet a) = length (toStringSet b)"
    by (auto simp: stringSetsEqual_def Let_def list_all_iff split: if_splits)
  then show "set (toStringSet a) = set (toStringSet b)"
    by (simp add: card_subset_eq distinct_card distinct_toStringSet)
next
  assume "set (toStringSet a) = set (toStringSet b)"
  then show "stringSetsEqual a b"
    using distinct_card [OF distinct_toStringSet]
    by (metis list_all_iff stringSetsEqual_def)
qed

lemma fold_change_after:
  "fold change_after (computeTorrentChanges t l) (trim_space (lt_Category l), set (toStringSet (lt_Tags l))) =
     (normalizeCategory (st_Category t), set (toStringSet (st_Tags t)))"
  by (auto simp: computeTorrentChanges_def infohashChange_def change_after_def Let_def stringSetsEqual_iff
      split: option.splits)

lemma changes_unsupported:
  assumes "normalizeCategory (st_Category t) = trim_space (lt_Category l) \<and> stringSetsEqual (st_Tags t) (lt_Tags l)"
    and "c \<in> set (computeTorrentChanges t l)"
  shows "\<not> dc_Supported c"
  using assms by (auto simp: computeTorrentChanges_def infohashChange_def Let_def split: if_splits option.splits)

lemma list_Nil_iff: "xs = [] \<longleftrightarrow> (\<forall>x. x \<notin> set xs)"
  by (cases xs) auto

lemma fold_update_other: "h \<notin> tu_Hash ` set us \<Longrightarrow> fold update_after us m h = m h"
  by (induction us arbitrary: m) (auto simp: update_after_def)

lemma fold_update_member:
  assumes "distinct (map tu_Hash us)" and "u \<in> set us"
  shows "fold update_after us m (tu_Hash u) = map_option (fold change_after (tu_Changes u)) (m (tu_Hash u))"
  using assms
proof (induction us arbitrary: m)
  case (Cons a us)
  show ?case
  proof (cases "u = a")
    case True
    with Cons.prems show ?thesis
      by (simp add: fold_update_other) (simp add: update_after_def)
  next
    case False
    with Cons.prems have "tu_Hash a \<noteq> tu_Hash u" and "u \<in> set us"
      by (auto simp: image_iff)
    with Cons show ?thesis
      by (simp add: update_after_def)
  qed
qed simp

lemma buildTorrentPlan_restores:
  assumes s: "hash_keys snap" and l: "hash_keys live" and st: "\<forall>(h, t) \<in> set snap. st_Hash t = h"
  defines "m \<equiv> \<lambda>h. map_option (\<lambda>t. (trim_space (lt_Category t), set (toStringSet (lt_Tags t)))) (gm_get live h)"
  shows "torrents_after (buildTorrentPlan snap live mode) m h =
    restored mode (map_option (\<lambda>t. (normalizeCategory (st_Category t), set (toStringSet (st_Tags t)))) (gm_get snap h)) (m h)"
    (is "torrents_after ?plan m h = _")
proof -
  let ?val = "\<lambda>i. (normalizeCategory (mi_Category i), set (toStringSet (mi_Tags i)))"
  let ?c = "fold (\<lambda>i m. m(mi_Hash i \<mapsto> ?val i)) (xp_Add ?plan) m"
  define v where "v = (\<lambda>t. (normalizeCategory (st_Category t), set (toStringSet (st_Tags t)))) (the (gm_get snap h))"
  have hash: "mi_Hash (snapshotTorrentToManifestItem t) = k" if "gm_get snap k = Some t" for k t
    using that st hash_keysD(2,4) [OF s, of k t] by (auto simp: snapshotTorrentToManifestItem_def)
  have val: "normalizeCategory (mi_Category (snapshotTorrentToManifestItem t)) = normalizeCategory (st_Category t)"
    "mi_Tags (snapshotTorrentToManifestItem t) = st_Tags t" for t
    by (auto simp: snapshotTorrentToManifestItem_def normalizeCategory_def split: option.splits)
  have c: "?c h = (if h \<in> mi_Hash ` set (xp_Add ?plan) then Some v else m h)"
    by (rule fold_upd_value) (auto simp: torrent_add_iff [OF s] hash val v_def)
  have add: "h \<in> mi_Hash ` set (xp_Add ?plan) \<longleftrightarrow> gm_get snap h \<noteq> None \<and> gm_get live h = None"
    using hash by (auto simp: image_iff Bex_def torrent_add_iff [OF s])
  have upd: "fold update_after (xp_Update ?plan) ?c h =
      (if gm_get snap h \<noteq> None \<and> gm_get live h \<noteq> None \<and> allowUpdates mode then Some v else ?c h)"
  proof (cases "h \<in> tu_Hash ` set (xp_Update ?plan)")
    case True
    then obtain t l where tl: "gm_get snap h = Some t" "gm_get live h = Some l" "allowUpdates mode"
      and u: "\<lparr>tu_Hash = h, tu_Current = l, tu_Desired = t, tu_Changes = computeTorrentChanges t l\<rparr> \<in> set (xp_Update ?plan)"
      by (force simp: torrent_update_iff [OF s])
    have "?c h = Some (trim_space (lt_Category l), set (toStringSet (lt_Tags l)))"
      using c add tl unfolding m_def by simp
    then show ?thesis
      using fold_update_member [OF torrent_hashes_distinct(2) [OF s st] u, of ?c] tl
      by (simp add: v_def fold_change_after)
  next
    case False
    then have "computeTorrentChanges t l = []"
      if "gm_get snap h = Some t" "gm_get live h = Some l" "allowUpdates mode" for t l
      using that by (force simp: torrent_update_iff [OF s] image_iff)
    then have "m h = Some v" if "gm_get snap h \<noteq> None" "gm_get live h \<noteq> None" "allowUpdates mode"
      using that fold_change_after [of "the (gm_get snap h)" "the (gm_get live h)"]
      by (auto simp: m_def v_def)
    with False show ?thesis
      by (simp add: fold_update_other c add)
  qed
  show ?thesis
    using c add upd
    by (auto simp: torrents_after_def restored_def torrent_delete_iff [OF l] gm_has_get v_def m_def split: option.splits)
qed

section \<open>Excluded torrents\<close>

text \<open>
  A loop whose body for the key \<open>k\<close> only touches \<open>k\<close>: dropping the entries of some keys leaves
  those keys alone and does not change what the loop does to the others.
\<close>

lemma fold_filter_keys:
  assumes "\<And>x m. key x \<noteq> h \<Longrightarrow> f x m h = m h"
    and "\<And>x m m'. key x = h \<Longrightarrow> m h = m' h \<Longrightarrow> f x m h = f x m' h"
  shows "m h = m' h \<Longrightarrow>
    fold f (filter (\<lambda>x. P (key x)) xs) m h = (if P h then fold f xs m' h else m' h)"
proof (induction xs arbitrary: m m')
  case (Cons x xs)
  show ?case
  proof (cases "key x = h")
    case True
    with Cons.prems assms(2) have "f x m h = f x m' h"
      by blast
    with True Cons.IH [of "f x m" "f x m'"] Cons.IH [of m m'] Cons.prems show ?thesis
      by simp
  next
    case False
    then have "f x m h = m h" "f x m' h = m' h"
      using assms(1) by blast+
    with Cons.IH [of "f x m" "f x m'"] Cons.IH [of m "f x m'"] Cons.prems show ?thesis
      by simp
  qed
qed simp

lemma torrents_after_filter:
  "torrents_after \<lparr>xp_Add = filter (\<lambda>i. keep (mi_Hash i)) (xp_Add t),
      xp_Update = filter (\<lambda>u. keep (tu_Hash u)) (xp_Update t),
      xp_Delete = filter keep (xp_Delete t)\<rparr> m h =
    (if keep h then torrents_after t m h else m h)"
proof -
  let ?add = "\<lambda>i m. m(mi_Hash i \<mapsto> (normalizeCategory (mi_Category i), set (toStringSet (mi_Tags i))))"
  have add: "fold ?add (filter (\<lambda>i. keep (mi_Hash i)) is) m h = (if keep h then fold ?add is m h else m h)" for "is"
    by (rule fold_filter_keys) auto
  have upd: "fold update_after (filter (\<lambda>u. keep (tu_Hash u)) us) m1 h =
      (if keep h then fold update_after us m2 h else m2 h)" if "m1 h = m2 h" for us m1 m2
    using that by (rule fold_filter_keys [rotated -1]) (auto simp: update_after_def)
  let ?m1 = "fold ?add (filter (\<lambda>i. keep (mi_Hash i)) (xp_Add t)) m"
  have "fold update_after (filter (\<lambda>u. keep (tu_Hash u)) (xp_Update t)) ?m1 h =
      (if keep h then fold update_after (xp_Update t) (fold ?add (xp_Add t) m) h else m h)"
    using upd [of ?m1 "fold ?add (xp_Add t) m"] upd [of ?m1 m] add [of "xp_Add t"] by presburger
  then show ?thesis
    by (simp add: torrents_after_def)
qed

text \<open>The hashes a caller of the planner excludes.\<close>

definition excluded :: "string list option \<Rightarrow> string set" where
  "excluded opts = (case opts of None \<Rightarrow> {} | Some hashes \<Rightarrow> {normalizeLowerTrim h |h. h \<in> set hashes \<and> normalizeLowerTrim h \<noteq> []})"

lemma set_excludeSet: "set (excludeSet hashes) = excluded (Some hashes)"
proof -
  have "set (fold (\<lambda>hash acc. let normalized = normalizeLowerTrim hash in
             if normalized = [] then acc else gs_add normalized acc) hashes acc) =
     set acc \<union> {normalizeLowerTrim h |h. h \<in> set hashes \<and> normalizeLowerTrim h \<noteq> []}" for acc
    by (induction hashes arbitrary: acc) (auto simp: Let_def)
  then show ?thesis
    by (simp add: excludeSet_def excluded_def)
qed

lemma applyRestorePlanOptions_eq:
  "applyRestorePlanOptions plan opts =
     (let keep = (\<lambda>h. normalizeLowerTrim h \<notin> excluded opts); t = rp_Torrents plan in
      plan\<lparr>rp_Torrents := \<lparr>xp_Add = filter (\<lambda>i. keep (mi_Hash i)) (xp_Add t),
                 xp_Update = filter (\<lambda>u. keep (tu_Hash u)) (xp_Update t),
                 xp_Delete = filter keep (xp_Delete t)\<rparr>\<rparr>)"
proof (cases "excluded opts = {}")
  case True
  then have "hashes = [] \<or> excludeSet hashes = []" if "opts = Some hashes" for hashes
    using set_excludeSet [of hashes] that by auto
  with True show ?thesis
    by (auto simp: applyRestorePlanOptions_def Let_def split: option.splits)
next
  case False
  then obtain hashes where opts: "opts = Some hashes" "excluded (Some hashes) \<noteq> {}"
    by (cases opts) (auto simp: excluded_def)
  then have "hashes \<noteq> []" "excludeSet hashes \<noteq> []"
    using set_excludeSet [of hashes] by (auto simp: excluded_def)
  with opts show ?thesis
    by (simp add: applyRestorePlanOptions_def set_excludeSet)
qed

lemma PlanRestoreDiff_cases:
  assumes "PlanRestoreDiff s run mode opts = Inr plan"
  obtains srv rd sn lv p where "s = Some srv" "bs_reader srv = Some rd"
    "loadSnapshotState (bs_LoadManifest srv) run = Inr sn"
    "loadLiveState rd (ss_InstanceID sn) = Inr lv"
    "isValidRestoreMode (rp_Mode plan)"
    "rp_Mode plan = (if mode = [] then RestoreModeIncremental else mode)"
    "buildRestorePlan (Some sn) (Some lv) (rp_Mode plan) = Inr p"
    "plan = applyRestorePlanOptions p opts" "snapshot_ok sn" "live_ok lv"
  using assms unfolding PlanRestoreDiff_def
  by (force simp: Let_def buildRestorePlan_def applyRestorePlanOptions_eq
      dest: loadSnapshotState_ok loadLiveState_ok split: option.splits sum.splits if_splits)

lemmas snapshot_okD = snapshot_ok_def [THEN iffD1]
lemmas live_okD = live_ok_def [THEN iffD1]

lemma buildRestorePlan_parts:
  assumes "buildRestorePlan (Some sn) (Some lv) mode = Inr p"
  shows "rp_Categories p = buildCategoryPlan (ss_Categories sn) (ls_Categories lv) mode"
    and "rp_Tags p = buildTagPlan (ss_Tags sn) (ls_Tags lv) mode"
    and "rp_Torrents p = buildTorrentPlan (ss_Torrents sn) (ls_Torrents lv) mode"
  using assms by (auto simp: buildRestorePlan_def)

section \<open>Independence of the map order\<close>

lemma mset_map_filter: "mset xs = mset ys \<Longrightarrow> mset (List.map_filter f xs) = mset (List.map_filter f ys)"
  by (simp add: map_filter_def)

lemma gm_ok_perm: "mset m = mset m' \<Longrightarrow> gm_ok m' = gm_ok m"
  unfolding gm_ok_def by (metis mset_eq_imp_distinct_iff mset_map)

lemma gm_get_perm: "gm_ok m \<Longrightarrow> mset m = mset m' \<Longrightarrow> gm_get m = gm_get m'"
  using gm_get_iff [of m] gm_get_iff [of m'] gm_ok_perm [of m m'] mset_eq_setD [of m m']
  by (intro ext) (metis not_Some_eq)

lemma gm_has_perm: "mset m = mset m' \<Longrightarrow> gm_has m = gm_has m'"
  by (rule ext) (simp add: gm_has_iff mset_eq_setD [of m m'])

lemma category_entries_perm:
  assumes "gm_ok live" "mset live = mset live'" "mset snap = mset snap'"
  shows "category_create_of live = category_create_of live'"
    and "category_update_of live mode = category_update_of live' mode"
    and "category_delete_of snap = category_delete_of snap'"
  using gm_get_perm [OF assms(1,2)] gm_has_perm [OF assms(3)]
  by (simp_all add: category_create_of_def [abs_def] category_update_of_def [abs_def] category_delete_of_def [abs_def])

lemma torrent_entries_perm:
  assumes "gm_ok live" "mset live = mset live'" "mset snap = mset snap'"
  shows "torrent_add_of live = torrent_add_of live'"
    and "torrent_update_of live mode = torrent_update_of live' mode"
    and "torrent_delete_of snap = torrent_delete_of snap'"
  using gm_get_perm [OF assms(1,2)] gm_has_perm [OF assms(3)]
  by (simp_all add: torrent_add_of_def [abs_def] torrent_update_of_def [abs_def] torrent_delete_of_def [abs_def])

lemma sort_perm: "mset xs = mset ys \<Longrightarrow> sort xs = sort ys"
  by (rule sort_key_unique) auto

lemma buildCategoryPlan_perm:
  assumes "trimmed_keys snap" "trimmed_keys live" "mset snap = mset snap'" "mset live = mset live'"
  shows "buildCategoryPlan snap live mode = buildCategoryPlan snap' live' mode"
proof -
  have inj: "inj_on cs_Name (set (List.map_filter (category_create_of live) snap))"
    "inj_on cu_Name (set (List.map_filter (category_update_of live mode) snap))"
    using category_names_distinct [OF assms(1), of live mode]
    by (simp_all add: buildCategoryPlan_eq distinct_sort_key_map) (auto simp: distinct_map)
  show ?thesis
    unfolding buildCategoryPlan_eq
      category_entries_perm [OF trimmed_keysD(1) [OF assms(2)] assms(4,3), symmetric]
    by (simp only: sort_key_unique [OF mset_map_filter [OF assms(3)] inj(1)]
        sort_key_unique [OF mset_map_filter [OF assms(3)] inj(2)] sort_perm [OF mset_map_filter [OF assms(4)]])
qed

lemma buildTorrentPlan_perm:
  assumes "hash_keys snap" "hash_keys live" "mset snap = mset snap'" "mset live = mset live'"
    and st: "\<forall>(h, t) \<in> set snap. st_Hash t = h"
  shows "buildTorrentPlan snap live mode = buildTorrentPlan snap' live' mode"
proof -
  let ?add = "List.map_filter (torrent_add_of live) snap" and ?upd = "List.map_filter (torrent_update_of live mode) snap"
  have "inj_on mi_Hash (set ?add)" "inj_on tu_Hash (set ?upd)"
    using torrent_hashes_distinct [OF assms(1) st, of live mode]
    by (simp_all add: buildTorrentPlan_eq distinct_sort_key_map) (auto simp: distinct_map)
  moreover have "normalizeLowerTrim (mi_Hash i) = mi_Hash i" if "i \<in> set ?add" for i
    using that by (auto simp: set_map_filter torrent_add_of_def snapshotTorrentToManifestItem_def split: if_splits)
  moreover have "normalizeLowerTrim (tu_Hash u) = tu_Hash u" if "u \<in> set ?upd" for u
    using that by (auto simp: set_map_filter torrent_update_of_def split: if_splits option.splits)
  ultimately have inj: "inj_on (\<lambda>i. normalizeLowerTrim (mi_Hash i)) (set ?add)"
    "inj_on (\<lambda>u. normalizeLowerTrim (tu_Hash u)) (set ?upd)"
    by (simp_all add: inj_on_def)
  show ?thesis
    unfolding buildTorrentPlan_eq
      torrent_entries_perm [OF hash_keysD(1) [OF assms(2)] assms(4,3), symmetric]
    by (simp only: sort_key_unique [OF mset_map_filter [OF assms(3)] inj(1)]
        sort_key_unique [OF mset_map_filter [OF assms(3)] inj(2)] sort_perm [OF mset_map_filter [OF assms(4)]])
qed

lemma buildTagPlan_perm:
  assumes "mset snap = mset snap'" "mset live = mset live'" "trimmed_set snap" "trimmed_set live"
  shows "buildTagPlan snap live mode = buildTagPlan snap' live' mode"
proof -
  have ok: "trimmed_set snap'" "trimmed_set live'"
    using assms(3,4) mset_eq_setD [OF assms(1)] mset_eq_setD [OF assms(2)]
      mset_eq_imp_distinct_iff [OF assms(1)] mset_eq_imp_distinct_iff [OF assms(2)]
    by (simp_all add: trimmed_set_def)
  have *: "sort (filter (\<lambda>t. t \<notin> set b) a) = sort (filter (\<lambda>t. t \<notin> set b') a')"
    if "mset a = mset a'" "mset b = mset b'" for a a' b b' :: "string list"
    using that(1) unfolding mset_eq_setD [OF that(2)] by (intro sort_perm) simp
  show ?thesis
    using * [OF assms(1,2)] * [OF assms(2,1)] assms ok by (simp add: buildTagPlan_def missingTags_eq)
qed

section \<open>The effect of a plan with exclusions\<close>

lemma plan_effect:
  fixes opts :: "string list option"
  assumes ok: "snapshot_ok sn" "live_ok lv" and p: "buildRestorePlan (Some sn) (Some lv) mode = Inr p"
  defines "plan \<equiv> applyRestorePlanOptions p opts"
  shows "torrents_after (rp_Torrents plan) (live_torrents lv) h =
      (if normalizeLowerTrim h \<in> excluded opts then live_torrents lv h
       else restored mode (snapshot_torrents sn h) (live_torrents lv h))"
    and "category_after (rp_Categories plan) (live_categories lv) n =
      restored mode (map_option trim_space (gm_get (ss_Categories sn) n)) (live_categories lv n)"
    and "tags_after (rp_Tags plan) (set (ls_Tags lv)) =
      (if includeDeletes mode then set (ss_Tags sn) else set (ls_Tags lv) \<union> set (ss_Tags sn))"
proof -
  note parts = buildRestorePlan_parts [OF p] snapshot_okD [OF ok(1)] live_okD [OF ok(2)]
  have "torrents_after (rp_Torrents plan) (live_torrents lv) h =
          (if normalizeLowerTrim h \<in> excluded opts then live_torrents lv h
           else torrents_after (rp_Torrents p) (live_torrents lv) h)"
    using torrents_after_filter [of "\<lambda>h. normalizeLowerTrim h \<notin> excluded opts"]
    by (simp add: plan_def applyRestorePlanOptions_eq Let_def)
  moreover have "torrents_after (rp_Torrents p) (live_torrents lv) h =
      restored mode (snapshot_torrents sn h) (live_torrents lv h)"
    using parts by (simp add: live_torrents_def [abs_def] snapshot_torrents_def buildTorrentPlan_restores)
  ultimately show "torrents_after (rp_Torrents plan) (live_torrents lv) h =
      (if normalizeLowerTrim h \<in> excluded opts then live_torrents lv h
       else restored mode (snapshot_torrents sn h) (live_torrents lv h))"
    by simp
  have same: "rp_Categories plan = rp_Categories p" "rp_Tags plan = rp_Tags p"
    by (simp_all add: plan_def applyRestorePlanOptions_eq Let_def)
  show "category_after (rp_Categories plan) (live_categories lv) n =
      restored mode (map_option trim_space (gm_get (ss_Categories sn) n)) (live_categories lv n)"
    using parts buildCategoryPlan_restores by (simp add: same live_categories_def [abs_def])
  show "tags_after (rp_Tags plan) (set (ls_Tags lv)) =
      (if includeDeletes mode then set (ss_Tags sn) else set (ls_Tags lv) \<union> set (ss_Tags sn))"
    using parts buildTagPlan_restores by (simp add: same)
qed

section \<open>Properties of the planner\<close>

text \<open>
  C1. The torrents a restore plan reaches. Whenever \<open>PlanRestoreDiff\<close> returns a plan, carrying it
  out on the live torrents gives, for every hash: the live torrent unchanged if the caller excluded
  the hash, and otherwise what the mode asks for: torrents missing from the instance are added with
  the snapshot's category and tags, present ones are brought to them in the overwrite and complete
  modes and kept in the incremental mode, and torrents unknown to the snapshot are deleted in the
  complete mode only.
\<close>

theorem PlanRestoreDiff_restores_torrents:
  assumes "PlanRestoreDiff s run mode opts = Inr plan"
  shows "\<exists>srv rd sn lv. s = Some srv \<and> bs_reader srv = Some rd
    \<and> loadSnapshotState (bs_LoadManifest srv) run = Inr sn \<and> loadLiveState rd (ss_InstanceID sn) = Inr lv
    \<and> (\<forall>h. torrents_after (rp_Torrents plan) (live_torrents lv) h =
          (if normalizeLowerTrim h \<in> excluded opts then live_torrents lv h
           else restored (rp_Mode plan) (snapshot_torrents sn h) (live_torrents lv h)))"
  using assms
proof (rule PlanRestoreDiff_cases)
  fix srv rd sn lv p
  assume "s = Some srv" "bs_reader srv = Some rd" "loadSnapshotState (bs_LoadManifest srv) run = Inr sn"
    "loadLiveState rd (ss_InstanceID sn) = Inr lv"
    and "buildRestorePlan (Some sn) (Some lv) (rp_Mode plan) = Inr p" "plan = applyRestorePlanOptions p opts"
    "snapshot_ok sn" "live_ok lv"
  then show ?thesis
    using plan_effect [of sn lv "rp_Mode plan" p] by metis
qed

text \<open>
  C2. The categories and tags a restore plan reaches, for every result of \<open>PlanRestoreDiff\<close>: each
  category ends with the save path the mode asks for, the tags are the union of the live tags
  and the snapshot's, or exactly the snapshot's in the complete mode, whatever hashes are excluded.
\<close>

theorem PlanRestoreDiff_restores_categories_tags:
  assumes "PlanRestoreDiff s run mode opts = Inr plan"
  shows "\<exists>srv rd sn lv. s = Some srv \<and> bs_reader srv = Some rd
    \<and> loadSnapshotState (bs_LoadManifest srv) run = Inr sn \<and> loadLiveState rd (ss_InstanceID sn) = Inr lv
    \<and> (\<forall>n. category_after (rp_Categories plan) (live_categories lv) n =
          restored (rp_Mode plan) (map_option trim_space (gm_get (ss_Categories sn) n)) (live_categories lv n))
    \<and> tags_after (rp_Tags plan) (set (ls_Tags lv)) =
        (if includeDeletes (rp_Mode plan) then set (ss_Tags sn) else set (ls_Tags lv) \<union> set (ss_Tags sn))"
  using assms
proof (rule PlanRestoreDiff_cases)
  fix srv rd sn lv p
  assume "s = Some srv" "bs_reader srv = Some rd" "loadSnapshotState (bs_LoadManifest srv) run = Inr sn"
    "loadLiveState rd (ss_InstanceID sn) = Inr lv"
    and "buildRestorePlan (Some sn) (Some lv) (rp_Mode plan) = Inr p" "plan = applyRestorePlanOptions p opts"
    "snapshot_ok sn" "live_ok lv"
  then show ?thesis
    using plan_effect [of sn lv "rp_Mode plan" p] by metis
qed

text \<open>A small service: the snapshot knows \<open>aa\<close> and \<open>bb\<close>, the instance has \<open>bb\<close> and \<open>cc\<close>.\<close>

definition demo_item :: "string \<Rightarrow> string list \<Rightarrow> manifest_item" where
  "demo_item hash tags =
     \<lparr>mi_Hash = hash, mi_Name = ''n'', mi_Category = Some '' tv '', mi_SizeBytes = 5, mi_ArchivePath = ''p'',
      mi_InfoHashV1 = None, mi_InfoHashV2 = None, mi_Tags = tags, mi_TorrentBlob = ''b''\<rparr>"

definition demo_torrent :: "string \<Rightarrow> string \<Rightarrow> reader_torrent" where
  "demo_torrent hash tags =
     \<lparr>rt_Hash = hash, rt_Name = ''n'', rt_Category = ''movies'', rt_Tags = tags, rt_Trackers = [],
      rt_InfohashV1 = [], rt_InfohashV2 = [], rt_TotalSize = 5\<rparr>"

definition demo_service :: backup_service where
  "demo_service =
     \<lparr>bs_LoadManifest = (\<lambda>_. Inr \<lparr>mf_InstanceID = 1, mf_Categories = [('' tv '', ''/tv'')], mf_Tags = [''x''],
        mf_Items = [demo_item ''BB '' [''x''], demo_item ''AA'' []]\<rparr>),
      bs_reader = Some \<lparr>GetCategories = (\<lambda>_. Inr [(''movies'', ''/m'')]), GetTags = (\<lambda>_. Inr [''y'']),
        GetAllTorrents = (\<lambda>_. Inr [demo_torrent ''cc'' ''y'', demo_torrent ''bb'' ''y, x''])\<rparr>\<rparr>"

theorem PlanRestoreDiff_restores_torrents_witness:
  "\<exists>plan. PlanRestoreDiff (Some demo_service) 7 ''complete'' (Some [''CC'']) = Inr plan
    \<and> map mi_Hash (xp_Add (rp_Torrents plan)) = [''aa''] \<and> map tu_Hash (xp_Update (rp_Torrents plan)) = [''bb'']
    \<and> (\<exists>lv. torrents_after (rp_Torrents plan) (live_torrents lv) ''cc'' = live_torrents lv ''cc'')"
proof -
  let ?r = "PlanRestoreDiff (Some demo_service) 7 ''complete'' (Some [''CC''])"
  have "case ?r of Inl _ \<Rightarrow> False | Inr plan \<Rightarrow> map mi_Hash (xp_Add (rp_Torrents plan)) = [''aa'']
      \<and> map tu_Hash (xp_Update (rp_Torrents plan)) = [''bb'']"
    by code_simp
  then obtain plan where "?r = Inr plan" "map mi_Hash (xp_Add (rp_Torrents plan)) = [''aa'']"
      "map tu_Hash (xp_Update (rp_Torrents plan)) = [''bb'']"
    by (auto split: sum.splits)
  moreover have "normalizeLowerTrim ''cc'' \<in> excluded (Some [''CC''])"
    unfolding set_excludeSet [symmetric] by code_simp
  moreover from PlanRestoreDiff_restores_torrents [OF \<open>?r = Inr plan\<close>] obtain lv sn where
    "\<forall>h. torrents_after (rp_Torrents plan) (live_torrents lv) h =
       (if normalizeLowerTrim h \<in> excluded (Some [''CC'']) then live_torrents lv h
        else restored (rp_Mode plan) (snapshot_torrents sn h) (live_torrents lv h))"
    by blast
  ultimately show ?thesis
    by metis
qed

theorem PlanRestoreDiff_restores_categories_tags_witness:
  "\<exists>plan. PlanRestoreDiff (Some demo_service) 7 ''overwrite'' None = Inr plan
    \<and> (\<exists>lv. \<forall>n. category_after (rp_Categories plan) (live_categories lv) n
        = restored (rp_Mode plan) (gm_get [(''tv'', ''/tv'')] n) (live_categories lv n))"
proof -
  let ?r = "PlanRestoreDiff (Some demo_service) 7 ''overwrite'' None"
  have "case ?r of Inl _ \<Rightarrow> False | Inr plan \<Rightarrow> True"
    by code_simp
  then obtain plan where r: "?r = Inr plan"
    by (auto split: sum.splits)
  have "case loadSnapshotState (bs_LoadManifest demo_service) 7 of Inl _ \<Rightarrow> False
      | Inr sn \<Rightarrow> ss_Categories sn = [(''tv'', ''/tv'')]"
    by code_simp
  moreover have "map_option trim_space (gm_get [(''tv'', ''/tv'')] n) = gm_get [(''tv'', ''/tv'')] n" for n
    by (simp add: gm_get_def) code_simp
  ultimately show ?thesis
    using PlanRestoreDiff_restores_categories_tags [OF r] r by (auto split: sum.splits)
qed

text \<open>
  C3. The plan does not depend on the order in which Go visits the maps: two well-formed states
  whose categories, tags and torrents have the same entries, in any order, give the same plan.
\<close>

theorem buildRestorePlan_order_independent:
  assumes "snapshot_ok sn" "live_ok lv"
    and "mset (ss_Categories sn) = mset (ss_Categories sn')" "mset (ss_Tags sn) = mset (ss_Tags sn')"
    and "mset (ss_Torrents sn) = mset (ss_Torrents sn')"
    and "mset (ls_Categories lv) = mset (ls_Categories lv')" "mset (ls_Tags lv) = mset (ls_Tags lv')"
    and "mset (ls_Torrents lv) = mset (ls_Torrents lv')"
    and "ss_RunID sn = ss_RunID sn'" "ss_InstanceID sn = ss_InstanceID sn'"
  shows "buildRestorePlan (Some sn) (Some lv) mode = buildRestorePlan (Some sn') (Some lv') mode"
  using assms buildCategoryPlan_perm [of "ss_Categories sn" "ls_Categories lv" "ss_Categories sn'" "ls_Categories lv'" mode]
    buildTagPlan_perm [of "ss_Tags sn" "ss_Tags sn'" "ls_Tags lv" "ls_Tags lv'" mode]
    buildTorrentPlan_perm [of "ss_Torrents sn" "ls_Torrents lv" "ss_Torrents sn'" "ls_Torrents lv'" mode]
  by (simp add: buildRestorePlan_def snapshot_ok_def live_ok_def)

text \<open>
  C4. A restored instance needs nothing more: when the live state already has the snapshot's
  categories, tags, torrents, torrent categories and torrent tags, the plan of every mode creates,
  adds and deletes nothing, and what it lists as updates of torrents are differences that the
  planner itself marks as unsupported (info hashes and sizes).
\<close>

theorem buildRestorePlan_fixpoint:
  assumes "snapshot_ok sn" "live_ok lv"
    and "\<And>n. map_option trim_space (gm_get (ss_Categories sn) n) = live_categories lv n"
    and "set (ss_Tags sn) = set (ls_Tags lv)" and "snapshot_torrents sn = live_torrents lv"
    and "buildRestorePlan (Some sn) (Some lv) mode = Inr p"
  shows "rp_Categories p = \<lparr>cp_Create = [], cp_Update = [], cp_Delete = []\<rparr>
    \<and> rp_Tags p = \<lparr>tp_Create = [], tp_Delete = []\<rparr>
    \<and> xp_Add (rp_Torrents p) = [] \<and> xp_Delete (rp_Torrents p) = []
    \<and> (\<forall>u \<in> set (xp_Update (rp_Torrents p)). \<forall>c \<in> set (tu_Changes u). \<not> dc_Supported c)"
proof -
  note parts = buildRestorePlan_parts [OF assms(6)] snapshot_okD [OF assms(1)] live_okD [OF assms(2)]
  have cat: "gm_get (ss_Categories sn) n = Some x \<Longrightarrow> gm_get (ls_Categories lv) n \<noteq> None"
    "gm_get (ls_Categories lv) n = Some l \<Longrightarrow> gm_get (ss_Categories sn) n \<noteq> None"
    "gm_get (ss_Categories sn) n = Some x \<Longrightarrow> gm_get (ls_Categories lv) n = Some l \<Longrightarrow> trim_space x = lc_SavePath l" for n x l
    using assms(3) [of n] unfolding live_categories_def by (auto simp: map_option_case split: option.splits)
  have tor: "gm_get (ss_Torrents sn) h = Some t \<Longrightarrow> gm_get (ls_Torrents lv) h \<noteq> None"
    "gm_get (ls_Torrents lv) h = Some l \<Longrightarrow> gm_get (ss_Torrents sn) h \<noteq> None"
    "gm_get (ss_Torrents sn) h = Some t \<Longrightarrow> gm_get (ls_Torrents lv) h = Some l \<Longrightarrow>
      normalizeCategory (st_Category t) = trim_space (lt_Category l) \<and> stringSetsEqual (st_Tags t) (lt_Tags l)" for h t l
    using fun_cong [OF assms(5), of h] unfolding live_torrents_def snapshot_torrents_def
    by (auto simp: map_option_case stringSetsEqual_iff split: option.splits)
  have "c \<notin> set (cp_Create (rp_Categories p))" "u \<notin> set (cp_Update (rp_Categories p))"
    "d \<notin> set (cp_Delete (rp_Categories p))" for c u d
    using parts cat
    by (auto simp: category_create_iff category_update_iff category_delete_iff gm_has_get)
      (metis not_None_eq)
  moreover have "rp_Tags p = \<lparr>tp_Create = [], tp_Delete = []\<rparr>"
    using parts assms(4) by (simp add: buildTagPlan_def missingTags_eq filter_empty_conv)
  moreover have "i \<notin> set (xp_Add (rp_Torrents p))" for i
    using parts tor(1) by (auto simp: torrent_add_iff)
  moreover have "h \<notin> set (xp_Delete (rp_Torrents p))" for h
    using parts tor(2) [of h] by (cases "gm_get (ls_Torrents lv) h") (auto simp: torrent_delete_iff gm_has_get)
  moreover have "\<not> dc_Supported c" if "u \<in> set (xp_Update (rp_Torrents p))" "c \<in> set (tu_Changes u)" for u c
  proof -
    from that(1) parts(3-5) obtain h t l where "gm_get (ss_Torrents sn) h = Some t"
      "gm_get (ls_Torrents lv) h = Some l" "tu_Changes u = computeTorrentChanges t l"
      by (auto simp: torrent_update_iff)
    with that(2) tor(3) show ?thesis
      using changes_unsupported by metis
  qed
  ultimately show ?thesis
    using list_Nil_iff [of "cp_Create (rp_Categories p)"] list_Nil_iff [of "cp_Update (rp_Categories p)"]
      list_Nil_iff [of "cp_Delete (rp_Categories p)"] list_Nil_iff [of "xp_Add (rp_Torrents p)"]
      list_Nil_iff [of "xp_Delete (rp_Torrents p)"]
    by (cases "rp_Categories p") simp
qed

definition demo_snapshot :: "(string, string) gomap \<Rightarrow> snapshot_state" where
  "demo_snapshot cats = \<lparr>ss_RunID = 7, ss_InstanceID = 1, ss_Categories = cats, ss_Tags = [''x''],
     ss_Torrents = [(''bb'', snapshotItem ''bb'' (demo_item ''bb'' [''x'']))]\<rparr>"

definition demo_live :: "(string, string) gomap \<Rightarrow> live_state" where
  "demo_live cats = \<lparr>ls_InstanceID = 1, ls_Categories = map (\<lambda>(n, p). (n, \<lparr>lc_Name = n, lc_SavePath = p\<rparr>)) cats,
     ls_Tags = [''x''],
     ls_Torrents = [(''bb'', (liveItem ''bb'' (demo_torrent ''bb'' ''x''))\<lparr>lt_Category := ''tv'', lt_SizeBytes := 6\<rparr>)]\<rparr>"

theorem buildRestorePlan_order_independent_witness:
  "buildRestorePlan (Some (demo_snapshot [(''a'', ''/a''), (''b'', ''/b'')])) (Some (demo_live [])) RestoreModeComplete
    = buildRestorePlan (Some (demo_snapshot [(''b'', ''/b''), (''a'', ''/a'')])) (Some (demo_live [])) RestoreModeComplete"
proof (rule buildRestorePlan_order_independent)
  show "snapshot_ok (demo_snapshot [(''a'', ''/a''), (''b'', ''/b'')])" and "live_ok (demo_live [])"
    by code_simp+
qed (simp_all add: demo_snapshot_def)

theorem buildRestorePlan_fixpoint_witness:
  "\<exists>p. buildRestorePlan (Some (demo_snapshot [(''tv'', ''/tv'')])) (Some (demo_live [(''tv'', ''/tv'')])) RestoreModeComplete = Inr p
    \<and> length (xp_Update (rp_Torrents p)) = 1
    \<and> (\<forall>u \<in> set (xp_Update (rp_Torrents p)). \<forall>c \<in> set (tu_Changes u). \<not> dc_Supported c)"
proof -
  let ?sn = "demo_snapshot [(''tv'', ''/tv'')]" and ?lv = "demo_live [(''tv'', ''/tv'')]"
  obtain p where p: "buildRestorePlan (Some ?sn) (Some ?lv) RestoreModeComplete = Inr p"
    by (simp add: buildRestorePlan_def)
  have "case buildRestorePlan (Some ?sn) (Some ?lv) RestoreModeComplete of Inl _ \<Rightarrow> False
      | Inr p \<Rightarrow> length (xp_Update (rp_Torrents p)) = 1"
    by code_simp
  with p have "length (xp_Update (rp_Torrents p)) = 1"
    by simp
  moreover have "map_option trim_space (gm_get (ss_Categories ?sn) n) = live_categories ?lv n" for n
    by (simp add: demo_snapshot_def demo_live_def live_categories_def gm_get_def) code_simp
  moreover have "snapshot_torrents ?sn h = live_torrents ?lv h" for h
    by (simp add: demo_snapshot_def demo_live_def snapshot_torrents_def live_torrents_def gm_get_def) code_simp
  moreover have "snapshot_ok ?sn" "live_ok ?lv" "set (ss_Tags ?sn) = set (ls_Tags ?lv)"
    by code_simp+
  ultimately show ?thesis
    using p buildRestorePlan_fixpoint [of ?sn ?lv RestoreModeComplete p] by blast
qed

text \<open>
  \<open>ParseRestoreMode\<close> accepts exactly the three modes in any case and with blanks around, reads
  a blank string as the incremental mode, and its result is a mode that \<open>PlanRestoreDiff\<close> accepts;
  everything else is reported as an unsupported mode.
\<close>

theorem ParseRestoreMode_spec:
  "ParseRestoreMode v =
     (if trim_space v = [] then Inr RestoreModeIncremental
      else if equal_fold (trim_space v) RestoreModeIncremental then Inr RestoreModeIncremental
      else if equal_fold (trim_space v) RestoreModeOverwrite then Inr RestoreModeOverwrite
      else if equal_fold (trim_space v) RestoreModeComplete then Inr RestoreModeComplete
      else Inl (''unsupported restore mode: '' @ v))
   \<and> (case ParseRestoreMode v of Inl _ \<Rightarrow> True | Inr m \<Rightarrow> isValidRestoreMode m \<and> ParseRestoreMode m = Inr m)"
proof -
  have low: "to_lower m = m" "trim_space m = m" "m \<noteq> []"
    if "m = RestoreModeIncremental \<or> m = RestoreModeOverwrite \<or> m = RestoreModeComplete" for m
    using that by (elim disjE; simp only:; code_simp)+
  have ne: "RestoreModeIncremental \<noteq> RestoreModeOverwrite" "RestoreModeIncremental \<noteq> RestoreModeComplete"
    "RestoreModeOverwrite \<noteq> RestoreModeComplete"
    by code_simp+
  show ?thesis
    using low ne
    by (auto simp: ParseRestoreMode_def normalizeLowerTrim_def equal_fold_def isValidRestoreMode_def Let_def)
qed

end
