(* ===== verification/Go_Path.thy ===== *)
theory Go_Path
  imports Go_Base
begin

text \<open>
  The lexical part of Go's \<open>path/filepath\<close> on Unix (\<open>Clean\<close>, \<open>Join\<close>, \<open>Abs\<close>, \<open>ToSlash\<close>), as the
  sources use it, and what a path prefix test on cleaned absolute paths guarantees. The working
  directory that \<open>Abs\<close> reads is a parameter.
\<close>

section \<open>Cleaning a path\<close>

definition dot :: string where "dot = ''.''"

definition dotdot :: string where "dotdot = ''..''"

text \<open>One component of a path against the stack of components kept so far (last one first).\<close>

definition clean_step :: "bool \<Rightarrow> string \<Rightarrow> string list \<Rightarrow> string list" where
  "clean_step rooted c stack =
     (if c = [] \<or> c = dot then stack
      else if c = dotdot then
        (case stack of
           [] \<Rightarrow> if rooted then [] else [dotdot]
         | prev # rest \<Rightarrow> if prev = dotdot then dotdot # stack else rest)
      else c # stack)"

definition clean_comps :: "bool \<Rightarrow> string list \<Rightarrow> string list" where
  "clean_comps rooted parts = rev (fold (clean_step rooted) parts [])"

definition is_rooted :: "string \<Rightarrow> bool" where
  "is_rooted p \<longleftrightarrow> has_prefix p ''/''"

definition path_clean :: "string \<Rightarrow> string" where
  "path_clean p =
     (let comps = clean_comps (is_rooted p) (split_on (CHR ''/'') p) in
      if is_rooted p then CHR ''/'' # join_with ''/'' comps
      else if comps = [] then dot else join_with ''/'' comps)"

definition path_join :: "string list \<Rightarrow> string" where
  "path_join elems =
     (let es = dropWhile (\<lambda>e. e = []) elems in
      if es = [] then [] else path_clean (join_with ''/'' es))"

definition path_abs :: "string \<Rightarrow> string \<Rightarrow> string" where
  "path_abs cwd p = (if is_rooted p then path_clean p else path_join [cwd, p])"

section \<open>Components\<close>

definition path_comps :: "string \<Rightarrow> string list" where
  "path_comps p = filter (\<lambda>c. c \<noteq> []) (split_on (CHR ''/'') p)"

lemma is_rooted_Cons [simp]: "is_rooted (c # cs) \<longleftrightarrow> c = CHR ''/''"
  by (auto simp: is_rooted_def has_prefix_def)

lemma is_rooted_Nil [simp]: "\<not> is_rooted []"
  by (simp add: is_rooted_def has_prefix_def)

lemma split_on_append: "split_on sep (a @ sep # b) = split_on sep a @ split_on sep b"
  by (induction a) (auto split: list.splits)

lemma path_comps_append: "path_comps (a @ CHR ''/'' # b) = path_comps a @ path_comps b"
  by (simp add: path_comps_def split_on_append)

lemma path_comps_Nil [simp]: "path_comps [] = []"
  by (simp add: path_comps_def)

lemma path_comps_Cons_sep [simp]: "path_comps (CHR ''/'' # b) = path_comps b"
  using path_comps_append [of "[]" b] by simp

definition plain_comp :: "string \<Rightarrow> bool" where
  "plain_comp c \<longleftrightarrow> c \<noteq> [] \<and> c \<noteq> dot \<and> c \<noteq> dotdot \<and> CHR ''/'' \<notin> set c"

lemma clean_step_rooted_plain:
  "CHR ''/'' \<notin> set c \<Longrightarrow> \<forall>x \<in> set stack. plain_comp x \<Longrightarrow> \<forall>x \<in> set (clean_step True c stack). plain_comp x"
  by (cases stack) (auto simp: clean_step_def plain_comp_def [of c] dot_def dotdot_def)

lemma fold_clean_rooted_plain:
  "\<forall>c \<in> set parts. CHR ''/'' \<notin> set c \<Longrightarrow> \<forall>x \<in> set stack. plain_comp x \<Longrightarrow>
    \<forall>x \<in> set (fold (clean_step True) parts stack). plain_comp x"
proof (induction parts arbitrary: stack)
  case (Cons c parts)
  then have "\<forall>x \<in> set (clean_step True c stack). plain_comp x"
    by (intro clean_step_rooted_plain) auto
  with Cons show ?case
    by simp
qed simp

lemma clean_comps_rooted_plain:
  "c \<in> set (clean_comps True (split_on (CHR ''/'') p)) \<Longrightarrow> plain_comp c"
  using fold_clean_rooted_plain [of "split_on (CHR ''/'') p" "[]"] split_on_parts
  by (force simp: clean_comps_def)

lemma path_comps_join:
  assumes "\<forall>c \<in> set cs. plain_comp c"
  shows "path_comps (join_with ''/'' cs) = cs"
proof (cases "cs = []")
  case False
  then have "split_on (CHR ''/'') (join_with [CHR ''/''] cs) = cs"
    using assms by (intro split_on_join) (auto simp: plain_comp_def)
  with assms show ?thesis
    by (auto simp: path_comps_def plain_comp_def filter_id_conv)
qed simp

lemma path_comps_clean_rooted:
  assumes "is_rooted p"
  shows "path_comps (path_clean p) = clean_comps True (split_on (CHR ''/'') p)"
    and "c \<in> set (path_comps (path_clean p)) \<Longrightarrow> plain_comp c"
    and "is_rooted (path_clean p)"
  using assms path_comps_join clean_comps_rooted_plain [of _ p]
  by (auto simp: path_clean_def Let_def)

lemma is_rooted_append: "is_rooted p \<Longrightarrow> is_rooted (p @ q)"
  by (cases p) auto

lemma path_join_rooted:
  assumes "is_rooted base"
  shows "path_join [base, rel] = path_clean (base @ ''/'' @ rel)" and "is_rooted (base @ ''/'' @ rel)"
  using assms by (auto simp: path_join_def is_rooted_append)

text \<open>An absolute path without the components that \<open>Clean\<close> removes.\<close>

definition clean_abs :: "string \<Rightarrow> bool" where
  "clean_abs p \<longleftrightarrow> is_rooted p \<and> (\<forall>c \<in> set (path_comps p). plain_comp c)"

lemma clean_abs_path_clean: "is_rooted p \<Longrightarrow> clean_abs (path_clean p)"
  using path_comps_clean_rooted by (simp add: clean_abs_def)

lemma clean_abs_path_abs: "is_rooted cwd \<Longrightarrow> clean_abs (path_abs cwd p)"
  using path_join_rooted [of cwd p] by (auto simp: path_abs_def clean_abs_path_clean)

text \<open>\<open>p\<close> is \<open>base\<close> or lies below it, component by component.\<close>

definition below :: "string \<Rightarrow> string \<Rightarrow> bool" where
  "below base p \<longleftrightarrow> (\<exists>rel. path_comps p = path_comps base @ rel \<and> (\<forall>c \<in> set rel. plain_comp c))"

lemma prefix_below:
  assumes "clean_abs p" and "has_prefix p (base @ ''/'') \<or> p = base"
  shows "below base p"
  using assms by (auto simp: below_def has_prefix_def prefix_def clean_abs_def path_comps_append)

lemma clean_step_plain: "plain_comp c \<Longrightarrow> clean_step r c st = c # st"
  by (simp add: clean_step_def plain_comp_def)

lemma fold_clean_plain: "\<forall>c \<in> set cs. plain_comp c \<Longrightarrow> fold (clean_step r) cs st = rev cs @ st"
  by (induction cs arbitrary: st) (simp_all add: clean_step_plain)

lemma fold_clean_filter: "fold (clean_step r) (filter (\<lambda>c. c \<noteq> []) cs) st = fold (clean_step r) cs st"
  by (induction cs arbitrary: st) (simp_all add: clean_step_def)

lemma clean_comps_path_comps: "clean_comps r (split_on (CHR ''/'') p) = clean_comps r (path_comps p)"
  by (simp add: clean_comps_def path_comps_def fold_clean_filter)

text \<open>Joining a relative path of plain components to a clean base stays below the base.\<close>

lemma join_plain_comps:
  assumes "clean_abs base" and "\<forall>c \<in> set (path_comps rel). plain_comp c"
  shows "path_comps (path_join [base, rel]) = path_comps base @ path_comps rel"
proof -
  have "path_comps (path_join [base, rel]) = clean_comps True (path_comps base @ path_comps rel)"
    using assms(1) path_join_rooted [of base rel] path_comps_clean_rooted(1) [of "base @ ''/'' @ rel"]
    by (simp add: clean_abs_def clean_comps_path_comps path_comps_append)
  also have "\<dots> = path_comps base @ path_comps rel"
    using assms by (auto simp: clean_comps_def fold_clean_plain clean_abs_def)
  finally show ?thesis .
qed

section \<open>Canonical absolute paths\<close>

text \<open>
  A canonical path is the one absolute path with given plain components; \<open>Clean\<close> returns it for
  every rooted path. Questions about canonical paths become questions about lists of components.
\<close>

definition abs_path :: "string list \<Rightarrow> string" where
  "abs_path cs = CHR ''/'' # join_with ''/'' cs"

definition plain_comps :: "string list \<Rightarrow> bool" where
  "plain_comps cs \<longleftrightarrow> list_all plain_comp cs"

definition canonical :: "string \<Rightarrow> bool" where
  "canonical p \<longleftrightarrow> (\<exists>cs. plain_comps cs \<and> p = abs_path cs)"

lemma plain_comps_simps [simp]:
  "plain_comps []" "plain_comps (c # cs) \<longleftrightarrow> plain_comp c \<and> plain_comps cs"
  "plain_comps (as @ bs) \<longleftrightarrow> plain_comps as \<and> plain_comps bs"
  by (simp_all add: plain_comps_def)

lemma plain_comps_iff: "plain_comps cs \<longleftrightarrow> (\<forall>c \<in> set cs. plain_comp c)"
  by (simp add: plain_comps_def list_all_iff)

lemma plain_comps_prefix: "prefix as bs \<Longrightarrow> plain_comps bs \<Longrightarrow> plain_comps as"
  by (auto simp: prefix_def)

lemma path_comps_abs_path [simp]: "plain_comps cs \<Longrightarrow> path_comps (abs_path cs) = cs"
  by (simp add: abs_path_def path_comps_join plain_comps_iff)

lemma is_rooted_abs_path [simp]: "is_rooted (abs_path cs)"
  by (simp add: abs_path_def)

lemma abs_path_inject: "plain_comps as \<Longrightarrow> plain_comps bs \<Longrightarrow> abs_path as = abs_path bs \<longleftrightarrow> as = bs"
  using path_comps_abs_path by metis

lemma path_clean_abs_path:
  assumes "is_rooted p"
  shows "path_clean p = abs_path (path_comps (path_clean p))" and "plain_comps (path_comps (path_clean p))"
  using assms path_comps_clean_rooted [of p]
  by (auto simp: path_clean_def abs_path_def Let_def plain_comps_iff)

lemma fold_clean_no_sep:
  "\<forall>c \<in> set parts. CHR ''/'' \<notin> set c \<Longrightarrow> \<forall>x \<in> set st. x \<noteq> [] \<and> CHR ''/'' \<notin> set x \<Longrightarrow>
    \<forall>x \<in> set (fold (clean_step r) parts st). x \<noteq> [] \<and> CHR ''/'' \<notin> set x"
proof (induction parts arbitrary: st)
  case (Cons c parts)
  have "\<forall>x \<in> set (clean_step r c st). x \<noteq> [] \<and> CHR ''/'' \<notin> set x"
    using Cons.prems by (cases st) (auto simp: clean_step_def dotdot_def)
  from Cons.IH [OF _ this] Cons.prems(1) show ?case
    unfolding fold_Cons comp_def by simp
qed simp

lemma is_rooted_path_clean: "is_rooted (path_clean p) = is_rooted p"
proof (cases "is_rooted p")
  case False
  let ?cs = "clean_comps False (split_on (CHR ''/'') p)"
  have cs: "\<forall>x \<in> set ?cs. x \<noteq> [] \<and> CHR ''/'' \<notin> set x"
    using fold_clean_no_sep [of "split_on (CHR ''/'') p" "[]" False] split_on_parts
    by (simp add: clean_comps_def)
  have "\<not> is_rooted (join_with ''/'' ?cs)"
  proof (cases ?cs)
    case (Cons c rest)
    with cs obtain x xs where "c = x # xs" and "x \<noteq> CHR ''/''"
      by (cases c) auto
    with Cons show ?thesis
      by (cases rest) simp_all
  qed simp
  with False show ?thesis
    by (simp add: path_clean_def Let_def dot_def)
qed (simp add: path_comps_clean_rooted)

lemma path_clean_canonical: "is_rooted p \<Longrightarrow> canonical (path_clean p)"
  unfolding canonical_def using path_clean_abs_path by blast

lemma canonical_abs_path [simp]: "plain_comps cs \<Longrightarrow> canonical (abs_path cs)"
  unfolding canonical_def by blast

lemma canonical_comps:
  assumes "canonical p"
  shows "p = abs_path (path_comps p)" and "plain_comps (path_comps p)" and "is_rooted p"
  using assms by (auto simp: canonical_def)

lemma path_clean_abs_path_id [simp]: "plain_comps cs \<Longrightarrow> path_clean (abs_path cs) = abs_path cs"
proof -
  assume cs: "plain_comps cs"
  have "path_comps (path_clean (abs_path cs)) = clean_comps True (path_comps (abs_path cs))"
    by (simp add: path_comps_clean_rooted(1) clean_comps_path_comps)
  also have "\<dots> = cs"
    using cs by (simp add: clean_comps_def fold_clean_plain plain_comps_iff)
  finally show ?thesis
    using path_clean_abs_path(1) [of "abs_path cs"] by simp
qed

lemma path_clean_idem: "is_rooted p \<Longrightarrow> path_clean (path_clean p) = path_clean p"
  using path_clean_abs_path [of p] path_clean_abs_path_id by metis

lemma join_with_append:
  "as \<noteq> [] \<Longrightarrow> bs \<noteq> [] \<Longrightarrow> join_with sep (as @ bs) = join_with sep as @ sep @ join_with sep bs"
  by (induction sep as rule: join_with.induct) (auto simp: neq_Nil_conv)

lemma abs_path_append:
  "as \<noteq> [] \<Longrightarrow> bs \<noteq> [] \<Longrightarrow> abs_path (as @ bs) = abs_path as @ ''/'' @ join_with ''/'' bs"
  by (simp add: abs_path_def join_with_append)

lemma join_with_Nil_iff: "plain_comps cs \<Longrightarrow> join_with ''/'' cs = [] \<longleftrightarrow> cs = []"
  by (induction "''/'' :: string" cs rule: join_with.induct) (auto simp: plain_comp_def)

lemma abs_path_root: "plain_comps cs \<Longrightarrow> abs_path cs = ''/'' \<longleftrightarrow> cs = []"
  by (auto simp: abs_path_def join_with_Nil_iff)

text \<open>A prefix test that asks for a separator after the prefix compares components.\<close>

lemma abs_path_prefix_sep:
  assumes "plain_comps as" and "plain_comps bs" and "as \<noteq> []"
  shows "has_prefix (abs_path bs) (abs_path as @ ''/'') \<longleftrightarrow> strict_prefix as bs"
proof
  assume "has_prefix (abs_path bs) (abs_path as @ ''/'')"
  then obtain r where "abs_path bs = abs_path as @ CHR ''/'' # r"
    by (auto simp: has_prefix_def prefix_def)
  then have eq: "bs = as @ path_comps r" and *: "abs_path bs \<noteq> abs_path as"
    using assms path_comps_append [of "abs_path as" r] path_comps_abs_path by (metis, auto)
  then have "path_comps r \<noteq> []"
    by auto
  with eq show "strict_prefix as bs"
    by (auto simp: strict_prefix_def)
next
  assume "strict_prefix as bs"
  then obtain r where "bs = as @ r" and "r \<noteq> []"
    by (auto simp: strict_prefix_def prefix_def)
  then show "has_prefix (abs_path bs) (abs_path as @ ''/'')"
    using assms by (simp add: abs_path_append has_prefix_def)
qed

section \<open>Parts of a path\<close>

text \<open>\<open>Dir\<close>: everything up to the final separator, cleaned.\<close>

definition path_dir :: "string \<Rightarrow> string" where
  "path_dir p = path_clean (rev (dropWhile (\<lambda>c. c \<noteq> CHR ''/'') (rev p)))"

text \<open>\<open>Base\<close>: the last element, with trailing separators removed.\<close>

definition path_base :: "string \<Rightarrow> string" where
  "path_base p =
     (if p = [] then dot
      else let q = dropWhile (\<lambda>c. c = CHR ''/'') (rev p) in
        if q = [] then ''/'' else rev (takeWhile (\<lambda>c. c \<noteq> CHR ''/'') q))"

text \<open>\<open>Ext\<close>: the suffix from the last dot of the final element.\<close>

definition path_ext :: "string \<Rightarrow> string" where
  "path_ext p =
     (let e = takeWhile (\<lambda>c. c \<noteq> CHR ''/'') (rev p) in
      if CHR ''.'' \<in> set e then rev (takeWhile (\<lambda>c. c \<noteq> CHR ''.'') e @ ''.'') else [])"

text \<open>\<open>Rel\<close>: \<open>None\<close> is the error that no relative path exists.\<close>

fun drop_common :: "string list \<Rightarrow> string list \<Rightarrow> string list \<times> string list" where
  "drop_common (b # bs) (t # ts) = (if b = t then drop_common bs ts else (b # bs, t # ts))"
| "drop_common bs ts = (bs, ts)"

definition path_rel :: "string \<Rightarrow> string \<Rightarrow> string option" where
  "path_rel base targ =
     (let b = path_clean base; t = path_clean targ; b0 = (if b = dot then [] else b) in
      if t = b then Some dot
      else if is_rooted b0 \<noteq> is_rooted t then None
      else case drop_common (path_comps b0) (path_comps t) of (bs, ts) \<Rightarrow>
        if bs \<noteq> [] \<and> hd bs = dotdot then None
        else Some (join_with ''/'' (replicate (length bs) dotdot @ ts)))"

lemma drop_common_eq:
  "drop_common bs ts = (bs', ts') \<Longrightarrow> \<exists>cs. bs = cs @ bs' \<and> ts = cs @ ts'"
proof (induction bs ts arbitrary: bs' ts' rule: drop_common.induct)
  case (1 b bs t ts)
  show ?case
  proof (cases "b = t")
    case True
    with 1 obtain cs where "bs = cs @ bs'" and "ts = cs @ ts'"
      by force
    with True show ?thesis
      by (intro exI [of _ "b # cs"]) simp
  qed (use 1 in simp)
qed auto

lemma drop_common_append [simp]: "drop_common (cs @ bs) (cs @ ts) = drop_common bs ts"
  by (induction cs) auto

lemma has_prefix_dotdot_join: "has_prefix (join_with ''/'' (dotdot # cs)) ''..''"
  by (cases cs) (auto simp: has_prefix_def dotdot_def)

text \<open>A relative path that does not start with two dots leads strictly below the base, or is the base.\<close>

lemma path_rel_below:
  assumes rel: "path_rel base targ = Some r" and "\<not> has_prefix r ''..''"
    and rooted: "is_rooted targ" and ne: "path_clean targ \<noteq> path_clean base"
  shows "is_rooted base" and "strict_prefix (path_comps (path_clean base)) (path_comps (path_clean targ))"
proof -
  let ?b = "path_clean base" and ?t = "path_clean targ"
  have rt: "is_rooted ?t"
    using rooted path_comps_clean_rooted(3) by blast
  have "is_rooted (if ?b = dot then [] else ?b)"
    using rel ne rt by (auto simp: path_rel_def Let_def split: if_splits)
  then have rb: "is_rooted ?b" and nd: "?b \<noteq> dot"
    by (auto split: if_splits)
  then show "is_rooted base"
    by (simp add: is_rooted_path_clean)
  then have pb: "plain_comps (path_comps ?b)" and eb: "?b = abs_path (path_comps ?b)"
    using path_clean_abs_path by blast+
  obtain bs ts where d: "drop_common (path_comps ?b) (path_comps ?t) = (bs, ts)"
    by (metis surj_pair)
  then have r: "r = join_with ''/'' (replicate (length bs) dotdot @ ts)"
    using rel ne rb rt nd by (auto simp: path_rel_def Let_def split: if_splits)
  have "bs = []"
    using assms(2) has_prefix_dotdot_join r by (cases bs) auto
  with d obtain cs where "path_comps ?b = cs" and "path_comps ?t = cs @ ts"
    using drop_common_eq by fastforce
  moreover have "path_comps ?t \<noteq> path_comps ?b"
    using ne eb path_clean_abs_path(1) [OF rooted] by metis
  ultimately show "strict_prefix (path_comps ?b) (path_comps ?t)"
    by (auto simp: strict_prefix_def)
qed

text \<open>Relative paths of plain components.\<close>

lemma hd_join_plain: "plain_comps cs \<Longrightarrow> \<not> is_rooted (join_with ''/'' cs)"
proof (cases cs)
  case (Cons c rest)
  moreover assume "plain_comps cs"
  ultimately obtain x xs where "c = x # xs" and "x \<noteq> CHR ''/''"
    by (cases c) (auto simp: plain_comp_def)
  with Cons show ?thesis
    by (cases rest) simp_all
qed simp

lemma path_clean_plain:
  assumes "plain_comps cs" and "cs \<noteq> []" and "path_comps p = cs" and "\<not> is_rooted p"
  shows "path_clean p = join_with ''/'' cs"
proof -
  have "clean_comps False (split_on (CHR ''/'') p) = cs"
    unfolding clean_comps_path_comps assms(3) using assms(1) by (simp add: clean_comps_def fold_clean_plain plain_comps_iff)
  with assms(2,4) show ?thesis
    by (simp add: path_clean_def Let_def)
qed

lemma path_clean_Nil: "path_clean [] = dot" and path_clean_root: "path_clean ''/'' = ''/''"
  by (simp_all add: path_clean_def clean_comps_def clean_step_def)

lemma path_dir_join:
  assumes "plain_comps (cs @ [c])"
  shows "path_dir (join_with ''/'' (cs @ [c])) = (if cs = [] then dot else join_with ''/'' cs)"
proof -
  have c: "CHR ''/'' \<notin> set c" and plain: "plain_comps cs"
    using assms by (auto simp: plain_comp_def)
  show ?thesis
  proof (cases "cs = []")
    case True
    have "dropWhile (\<lambda>c. c \<noteq> CHR ''/'') (rev c) = []"
      using c by auto
    with True show ?thesis
      by (simp only: path_dir_def append_Nil join_with.simps rev.simps path_clean_Nil if_True simp_thms)
  next
    case False
    let ?j = "join_with ''/'' cs"
    have "path_comps (?j @ ''/'') = cs"
      using path_comps_append [of ?j "[]"] path_comps_join plain by (simp add: plain_comps_iff)
    moreover have "\<not> is_rooted (?j @ ''/'')"
      using hd_join_plain [OF plain] join_with_Nil_iff [OF plain] False by (cases ?j) auto
    ultimately have "path_clean (?j @ ''/'') = ?j"
      using path_clean_plain plain False by blast
    moreover have "dropWhile (\<lambda>c. c \<noteq> CHR ''/'') (rev c @ CHR ''/'' # rev ?j) = CHR ''/'' # rev ?j"
      using c by (subst dropWhile_append2) auto
    ultimately show ?thesis
      using False by (simp add: path_dir_def join_with_append)
  qed
qed

text \<open>A relative path that stays below the base has the rest of the components.\<close>

lemma path_rel_comps:
  assumes rel: "path_rel base targ = Some r" and nodd: "\<not> has_prefix r ''..''" and "is_rooted targ" and "path_clean targ \<noteq> path_clean base"
  shows "\<exists>ts. ts \<noteq> [] \<and> r = join_with ''/'' ts \<and> path_comps (path_clean targ) = path_comps (path_clean base) @ ts \<and> plain_comps ts"
proof -
  obtain ts where ts: "path_comps (path_clean targ) = path_comps (path_clean base) @ ts" and ne: "ts \<noteq> []"
    using path_rel_below(2) [OF assms] by (auto simp: strict_prefix_def prefix_def)
  have rb: "is_rooted (path_clean base)"
    using path_rel_below(1) [OF assms] is_rooted_path_clean by simp
  moreover have "\<not> is_rooted dot"
    by (simp add: dot_def)
  ultimately have "path_clean base \<noteq> dot"
    by metis
  with rb have "r = join_with ''/'' ts"
    using rel assms(3,4) ts is_rooted_path_clean [of targ] drop_common_append [of "path_comps (path_clean base)" "[]" ts]
    by (simp add: path_rel_def Let_def)
  moreover have "plain_comps ts"
    using path_clean_abs_path(2) [OF assms(3)] ts by simp
  ultimately show ?thesis
    using ts ne by blast
qed

text \<open>The exact test for a path that does not leave the base: neither \<open>..\<close> nor below it.\<close>

lemma path_rel_inside:
  assumes rel: "path_rel base targ = Some r" and nodd: "r \<noteq> ''..''" "\<not> has_prefix r ''../''"
    and "is_rooted targ" and "is_rooted base"
  shows "prefix (path_comps (path_clean base)) (path_comps (path_clean targ))"
proof (cases "path_clean targ = path_clean base")
  case False
  have rb: "is_rooted (path_clean base)" and rt: "is_rooted (path_clean targ)"
    using assms(4,5) by (simp_all add: is_rooted_path_clean)
  have "path_clean base \<noteq> dot"
    using rb by (auto simp: dot_def)
  obtain bs ts where d: "drop_common (path_comps (path_clean base)) (path_comps (path_clean targ)) = (bs, ts)"
    by fastforce
  then have r: "r = join_with ''/'' (replicate (length bs) dotdot @ ts)"
    using rel False rb rt \<open>path_clean base \<noteq> dot\<close> by (auto simp: path_rel_def Let_def split: if_splits)
  have "bs = []"
  proof (cases bs)
    case (Cons b bs')
    then have "r = dotdot \<or> has_prefix r ''../''"
      using r by (cases "replicate (length bs') dotdot @ ts") (auto simp: has_prefix_def dotdot_def)
    with nodd show ?thesis
      by (simp add: dotdot_def)
  qed
  with d show ?thesis
    using drop_common_eq by fastforce
qed simp

end
