(* ===== verification/Restore_Execute.thy ===== *)
theory Restore_Execute
  imports Restore_Plan Go_Path
begin

text \<open>
  Carrying out a restore plan: \<open>src/internal/backups/restore_execute.go\<close>. The three writer
  interfaces of the backup service, the context and the file system are parameters: every call
  takes a world \<open>'w\<close> and returns its error, if any, and the world after it. The mutable result
  of a run (what was applied, the errors, the warnings) is the record \<open>'w run\<close> that the loops pass on.
\<close>

section \<open>Data\<close>

record restore_options =
  ro_DryRun :: bool
  ro_StartPaused :: bool
  ro_SkipHashCheck :: bool
  ro_AutoResumeVerified :: bool
  ro_ExcludeHashes :: "string list"

record restore_error =
  re_Operation :: string
  re_Target :: string
  re_Message :: string

record restore_applied =
  ra_CategoriesCreated :: "string list"
  ra_CategoriesUpdated :: "string list"
  ra_CategoriesDeleted :: "string list"
  ra_TagsCreated :: "string list"
  ra_TagsDeleted :: "string list"
  ra_TorrentsAdded :: "string list"
  ra_TorrentsUpdated :: "string list"
  ra_TorrentsDeleted :: "string list"

definition no_applied :: restore_applied where
  "no_applied = \<lparr>ra_CategoriesCreated = [], ra_CategoriesUpdated = [], ra_CategoriesDeleted = [],
     ra_TagsCreated = [], ra_TagsDeleted = [], ra_TorrentsAdded = [], ra_TorrentsUpdated = [], ra_TorrentsDeleted = []\<rparr>"

record restore_result =
  rr_Mode :: string
  rr_RunID :: int
  rr_InstanceID :: int
  rr_DryRun :: bool
  rr_Plan :: restore_plan
  rr_Applied :: restore_applied
  rr_Warnings :: "string list"
  rr_Errors :: "restore_error list"

type_synonym 'w effect = "'w \<Rightarrow> string option \<times> 'w"

record 'w category_writer =
  CreateCategory :: "int \<Rightarrow> string \<Rightarrow> string \<Rightarrow> 'w effect"
  EditCategory :: "int \<Rightarrow> string \<Rightarrow> string \<Rightarrow> 'w effect"
  RemoveCategories :: "int \<Rightarrow> string list \<Rightarrow> 'w effect"

record 'w tag_writer =
  CreateTags :: "int \<Rightarrow> string list \<Rightarrow> 'w effect"
  DeleteTags :: "int \<Rightarrow> string list \<Rightarrow> 'w effect"

record 'w torrent_writer =
  AddTorrent :: "int \<Rightarrow> string \<Rightarrow> (string, string) gomap \<Rightarrow> 'w effect"
  SetCategory :: "int \<Rightarrow> string list \<Rightarrow> string \<Rightarrow> 'w effect"
  SetTags :: "int \<Rightarrow> string list \<Rightarrow> string \<Rightarrow> 'w effect"
  ResumeWhenComplete :: "int \<Rightarrow> string list \<Rightarrow> 'w \<Rightarrow> 'w"
  BulkAction :: "int \<Rightarrow> string list \<Rightarrow> string \<Rightarrow> 'w effect"

datatype read_error = ErrNotExist string | ErrOther string

fun read_error_msg :: "read_error \<Rightarrow> string" where
  "read_error_msg (ErrNotExist m) = m"
| "read_error_msg (ErrOther m) = m"

text \<open>
  The service with its optional writers. \<open>xs_ctx\<close> is \<open>ctx.Err()\<close>: the context may be cancelled
  between any two calls, so that a check moves the world too.
\<close>

record 'w exec_service =
  xs_planner :: backup_service
  xs_categoryWriter :: "'w category_writer option"
  xs_tagWriter :: "'w tag_writer option"
  xs_torrentWriter :: "'w torrent_writer option"
  xs_DataDir :: string
  xs_cwd :: "string + string"
  xs_ReadFile :: "string \<Rightarrow> read_error + string"
  xs_ctx :: "'w effect"

record 'w run =
  ru_world :: 'w
  ru_applied :: restore_applied
  ru_errors :: "restore_error list"
  ru_warnings :: "string list"
  ru_pendingResume :: "string list"

section \<open>Helpers\<close>

definition buildHashSet :: "string list \<Rightarrow> string goset" where
  "buildHashSet items =
     (if items = [] then []
      else fold (\<lambda>hash acc. let normalized = normalizeLowerTrim hash in
             if normalized = [] then acc else gs_add normalized acc) items [])"

definition shouldSkipTorrent :: "string \<Rightarrow> string goset \<Rightarrow> bool" where
  "shouldSkipTorrent hash exclude \<longleftrightarrow>
     (if length exclude = 0 then False else normalizeLowerTrim hash \<in> set exclude)"

definition appendRestoreError :: "string \<Rightarrow> string \<Rightarrow> string \<Rightarrow> 'w run \<Rightarrow> 'w run" where
  "appendRestoreError op target err st =
     st\<lparr>ru_errors := ru_errors st @ [\<lparr>re_Operation = op, re_Target = target, re_Message = err\<rparr>]\<rparr>"

definition asString :: "diff_value \<Rightarrow> string" where
  "asString v = (case v of DStr s \<Rightarrow> s | DInt i \<Rightarrow> show_int i | DStrs ss \<Rightarrow> ''['' @ join_with '' '' ss @ '']'')"

definition asStringSlice :: "diff_value \<Rightarrow> string list" where
  "asStringSlice v =
     (case v of
        DStrs ss \<Rightarrow> ss
      | DStr s \<Rightarrow> if trim_space s = [] then []
                  else filter (\<lambda>t. t \<noteq> []) (map trim_space (split_on (CHR '','') s))
      | DInt _ \<Rightarrow> [])"

definition path_Abs :: "string + string \<Rightarrow> string \<Rightarrow> string + string" where
  "path_Abs cwd p =
     (if is_rooted p then Inr (path_clean p)
      else (case cwd of Inl err \<Rightarrow> Inl err | Inr d \<Rightarrow> Inr (path_join [d, p])))"

definition resolveBlob :: "string + string \<Rightarrow> (string \<Rightarrow> read_error + string) \<Rightarrow> string \<Rightarrow> string \<Rightarrow> read_error + string" where
  "resolveBlob cwd readFile baseAbs rel =
     (case path_Abs cwd (path_join [baseAbs, rel]) of
        Inl err \<Rightarrow> Inl (ErrOther err)
      | Inr absPath \<Rightarrow>
          if \<not> has_prefix absPath (baseAbs @ ''/'') \<and> absPath \<noteq> baseAbs
          then Inl (ErrOther (''invalid blob path '' @ go_quote rel))
          else readFile absPath)"

definition loadTorrentBlobData :: "('w, 'z) exec_service_scheme \<Rightarrow> string \<Rightarrow> string + string" where
  "loadTorrentBlobData s blobPath =
     (let dataDir = trim_space (xs_DataDir s) in
      if dataDir = [] then Inl ''backup data directory not configured''
      else
        let cleaned = path_clean blobPath;
            cleanRel = (if has_prefix cleaned ''/'' then tl cleaned else cleaned)
        in (case path_Abs (xs_cwd s) dataDir of
          Inl err \<Rightarrow> Inl (''resolve data directory: '' @ err)
        | Inr baseAbs \<Rightarrow>
          (case resolveBlob (xs_cwd s) (xs_ReadFile s) baseAbs cleanRel of
             Inr data \<Rightarrow> Inr data
           | Inl err \<Rightarrow>
               let failed = Inl (''read torrent blob '' @ go_quote blobPath @ '': '' @ read_error_msg err) in
               (case err of
                  ErrOther _ \<Rightarrow> failed
                | ErrNotExist _ \<Rightarrow>
                    (case resolveBlob (xs_cwd s) (xs_ReadFile s) baseAbs (path_join [''backups'', cleanRel]) of
                       Inr data \<Rightarrow> Inr data
                     | Inl _ \<Rightarrow> failed)))))"

section \<open>Loops with a cancellation check\<close>

text \<open>A loop that checks \<open>ctx.Err()\<close> before each body, and a call of a writer.\<close>

definition ctx_check :: "'w effect \<Rightarrow> 'w run \<Rightarrow> string option \<times> 'w run" where
  "ctx_check ctx st = (case ctx (ru_world st) of (e, w) \<Rightarrow> (e, st\<lparr>ru_world := w\<rparr>))"

fun ctx_loop :: "'w effect \<Rightarrow> ('x \<Rightarrow> 'w run \<Rightarrow> 'w run) \<Rightarrow> 'x list \<Rightarrow> 'w run \<Rightarrow> string option \<times> 'w run" where
  "ctx_loop ctx body [] st = (None, st)"
| "ctx_loop ctx body (x # xs) st =
     (case ctx_check ctx st of
        (Some e, st) \<Rightarrow> (Some e, st)
      | (None, st) \<Rightarrow> ctx_loop ctx body xs (body x st))"

definition call :: "'w effect \<Rightarrow> 'w run \<Rightarrow> string option \<times> 'w run" where
  "call op st = (case op (ru_world st) of (e, w) \<Rightarrow> (e, st\<lparr>ru_world := w\<rparr>))"

text \<open>One call whose failure is recorded and whose success is reported.\<close>

definition attempt :: "string \<Rightarrow> 'w effect \<Rightarrow> (string list \<Rightarrow> restore_applied \<Rightarrow> restore_applied) \<Rightarrow> string \<Rightarrow> 'w run \<Rightarrow> 'w run" where
  "attempt opname op report name st =
     (case call op st of
        (Some err, st) \<Rightarrow> appendRestoreError opname name err st
      | (None, st) \<Rightarrow> st\<lparr>ru_applied := report [name] (ru_applied st)\<rparr>)"

text \<open>A batch call, repeated one by one when the batch fails.\<close>

definition batchRetry ::
  "'w effect \<Rightarrow> string \<Rightarrow> (string list \<Rightarrow> 'w effect) \<Rightarrow> (string list \<Rightarrow> restore_applied \<Rightarrow> restore_applied)
    \<Rightarrow> string list \<Rightarrow> 'w run \<Rightarrow> string option \<times> 'w run" where
  "batchRetry ctx opname op report names st =
     (case call (op names) st of
        (Some _, st) \<Rightarrow> ctx_loop ctx (\<lambda>name. attempt opname (op [name]) report name) names st
      | (None, st) \<Rightarrow> (None, st\<lparr>ru_applied := report names (ru_applied st)\<rparr>))"

section \<open>Applying a plan\<close>

definition applyCategoryPlan :: "'w effect \<Rightarrow> 'w category_writer \<Rightarrow> restore_plan \<Rightarrow> 'w run \<Rightarrow> string option \<times> 'w run" where
  "applyCategoryPlan ctx cw plan st =
     (let i = rp_InstanceID plan; cats = rp_Categories plan in
      case ctx_loop ctx (\<lambda>c. attempt ''create_category'' (CreateCategory cw i (cs_Name c) (cs_SavePath c))
             (\<lambda>ns a. a\<lparr>ra_CategoriesCreated := ra_CategoriesCreated a @ ns\<rparr>) (cs_Name c)) (cp_Create cats) st of
        (Some e, st) \<Rightarrow> (Some e, st)
      | (None, st) \<Rightarrow>
     (case ctx_loop ctx (\<lambda>u. attempt ''update_category'' (EditCategory cw i (cu_Name u) (cu_DesiredPath u))
             (\<lambda>ns a. a\<lparr>ra_CategoriesUpdated := ra_CategoriesUpdated a @ ns\<rparr>) (cu_Name u)) (cp_Update cats) st of
        (Some e, st) \<Rightarrow> (Some e, st)
      | (None, st) \<Rightarrow>
          if cp_Delete cats = [] then (None, st)
          else (case ctx_check ctx st of
              (Some e, st) \<Rightarrow> (Some e, st)
            | (None, st) \<Rightarrow> batchRetry ctx ''delete_category'' (RemoveCategories cw i)
                (\<lambda>ns a. a\<lparr>ra_CategoriesDeleted := ra_CategoriesDeleted a @ ns\<rparr>) (cp_Delete cats) st)))"

definition applyTagPlan :: "'w effect \<Rightarrow> 'w tag_writer \<Rightarrow> restore_plan \<Rightarrow> 'w run \<Rightarrow> string option \<times> 'w run" where
  "applyTagPlan ctx tw plan st =
     (let i = rp_InstanceID plan; tags = rp_Tags plan;
          created = (if tp_Create tags = [] then (None, st)
            else (case ctx_check ctx st of
                (Some e, st) \<Rightarrow> (Some e, st)
              | (None, st) \<Rightarrow> batchRetry ctx ''create_tag'' (CreateTags tw i)
                  (\<lambda>ns a. a\<lparr>ra_TagsCreated := ra_TagsCreated a @ ns\<rparr>) (tp_Create tags) st))
      in case created of
        (Some e, st) \<Rightarrow> (Some e, st)
      | (None, st) \<Rightarrow>
          if tp_Delete tags = [] then (None, st)
          else (case ctx_check ctx st of
              (Some e, st) \<Rightarrow> (Some e, st)
            | (None, st) \<Rightarrow> batchRetry ctx ''delete_tag'' (DeleteTags tw i)
                (\<lambda>ns a. a\<lparr>ra_TagsDeleted := ra_TagsDeleted a @ ns\<rparr>) (tp_Delete tags) st))"

definition addOptions :: "restore_options \<Rightarrow> manifest_item \<Rightarrow> (string, string) gomap" where
  "addOptions opts item =
     (let paused = (if ro_StartPaused opts \<or> ro_SkipHashCheck opts then ''true'' else ''false'');
          o0 = gm_put ''stopped'' paused (gm_put ''paused'' paused []);
          o1 = (if ro_SkipHashCheck opts then gm_put ''skip_checking'' ''true'' o0 else o0);
          category = (case mi_Category item of None \<Rightarrow> [] | Some c \<Rightarrow> trim_space c);
          o2 = (if category \<noteq> [] then gm_put ''category'' category o1 else o1)
      in if length (mi_Tags item) > 0 then gm_put ''tags'' (join_with '','' (mi_Tags item)) o2 else o2)"

text \<open>A call whose failure is recorded but does not stop the body.\<close>

definition note_failure :: "string \<Rightarrow> string \<Rightarrow> 'w effect \<Rightarrow> 'w run \<Rightarrow> 'w run" where
  "note_failure opname name op st =
     (case call op st of (Some err, st) \<Rightarrow> appendRestoreError opname name err st | (None, st) \<Rightarrow> st)"

definition addOne ::
  "('w, 'z) exec_service_scheme \<Rightarrow> 'w torrent_writer \<Rightarrow> int \<Rightarrow> string goset \<Rightarrow> restore_options \<Rightarrow> manifest_item \<Rightarrow> 'w run \<Rightarrow> 'w run" where
  "addOne s xw i exclude opts item st =
     (let hash = mi_Hash item; blobPath = trim_space (mi_TorrentBlob item) in
      if shouldSkipTorrent hash exclude then st
      else if blobPath = [] then
        appendRestoreError ''add_torrent'' hash ''missing torrent blob''
          (st\<lparr>ru_warnings := ru_warnings st @ [''Torrent '' @ hash @ '' missing cached blob reference'']\<rparr>)
      else (case loadTorrentBlobData s blobPath of
          Inl err \<Rightarrow> appendRestoreError ''add_torrent'' hash err st
        | Inr payload \<Rightarrow>
       (case call (AddTorrent xw i payload (addOptions opts item)) st of
          (Some err, st) \<Rightarrow> appendRestoreError ''add_torrent'' hash err st
        | (None, st) \<Rightarrow>
            let desiredCategory = normalizeCategory (mi_Category item);
                st = (if desiredCategory \<noteq> []
                      then note_failure ''set_category'' hash (SetCategory xw i [hash] desiredCategory) st else st);
                st = (if length (mi_Tags item) > 0
                      then note_failure ''set_tags'' hash (SetTags xw i [hash] (join_with '','' (mi_Tags item))) st else st);
                st = st\<lparr>ru_applied := (ru_applied st)\<lparr>ra_TorrentsAdded := ra_TorrentsAdded (ru_applied st) @ [hash]\<rparr>\<rparr>
            in if ro_SkipHashCheck opts \<and> ro_AutoResumeVerified opts
               then st\<lparr>ru_pendingResume := ru_pendingResume st @ [hash]\<rparr> else st)))"

definition applyChange :: "'w torrent_writer \<Rightarrow> int \<Rightarrow> string \<Rightarrow> diff_change \<Rightarrow> bool \<times> 'w run \<Rightarrow> bool \<times> 'w run" where
  "applyChange xw i hash change acc =
     (let (applied, st) = acc in
      if \<not> dc_Supported change then
        let message = (if dc_Message change = [] then ''manual intervention required'' else dc_Message change)
        in (applied, st\<lparr>ru_warnings := ru_warnings st @ [hash @ '': '' @ dc_Field change @ '' ('' @ message @ '')'']\<rparr>)
      else if dc_Field change = ''category'' then
        (case call (SetCategory xw i [hash] (trim_space (asString (dc_Desired change)))) st of
           (Some err, st) \<Rightarrow> (applied, appendRestoreError ''set_category'' hash err st)
         | (None, st) \<Rightarrow> (True, st))
      else if dc_Field change = ''tags'' then
        (case call (SetTags xw i [hash] (join_with '','' (asStringSlice (dc_Desired change)))) st of
           (Some err, st) \<Rightarrow> (applied, appendRestoreError ''set_tags'' hash err st)
         | (None, st) \<Rightarrow> (True, st))
      else (applied, st))"

definition updateOne :: "'w torrent_writer \<Rightarrow> int \<Rightarrow> string goset \<Rightarrow> torrent_update \<Rightarrow> 'w run \<Rightarrow> 'w run" where
  "updateOne xw i exclude update st =
     (if shouldSkipTorrent (tu_Hash update) exclude then st
      else (case fold (applyChange xw i (tu_Hash update)) (tu_Changes update) (False, st) of
          (supportedApplied, st) \<Rightarrow>
            if supportedApplied
            then st\<lparr>ru_applied := (ru_applied st)\<lparr>ra_TorrentsUpdated := ra_TorrentsUpdated (ru_applied st) @ [tu_Hash update]\<rparr>\<rparr>
            else st))"

definition applyTorrentPlan ::
  "('w, 'z) exec_service_scheme \<Rightarrow> 'w torrent_writer \<Rightarrow> restore_plan \<Rightarrow> string goset \<Rightarrow> restore_options \<Rightarrow> 'w run
    \<Rightarrow> string option \<times> 'w run" where
  "applyTorrentPlan s xw plan exclude opts st =
     (let i = rp_InstanceID plan; ctx = xs_ctx s; t = rp_Torrents plan in
      case ctx_loop ctx (addOne s xw i exclude opts) (xp_Add t) st of
        (Some e, st) \<Rightarrow> (Some e, st)
      | (None, st) \<Rightarrow>
     (case ctx_loop ctx (updateOne xw i exclude) (xp_Update t) st of
        (Some e, st) \<Rightarrow> (Some e, st)
      | (None, st) \<Rightarrow>
          let st = (if length (ru_pendingResume st) > 0
                    then st\<lparr>ru_world := ResumeWhenComplete xw i (ru_pendingResume st) (ru_world st)\<rparr> else st)
          in if xp_Delete t = [] then (None, st)
             else (case ctx_check ctx st of
                 (Some e, st) \<Rightarrow> (Some e, st)
               | (None, st) \<Rightarrow>
                   let deleteTargets = filter (\<lambda>h. \<not> shouldSkipTorrent h exclude) (xp_Delete t)
                   in if deleteTargets = [] then (None, st)
                      else batchRetry ctx ''delete_torrent'' (\<lambda>hs. BulkAction xw i hs ''delete'')
                             (\<lambda>ns a. a\<lparr>ra_TorrentsDeleted := ra_TorrentsDeleted a @ ns\<rparr>) deleteTargets st)))"

text \<open>
  The result of \<open>ExecuteRestore\<close>: the returned error, the returned result (if any) and the world.
\<close>

definition finish :: "restore_result \<Rightarrow> string option \<times> 'w run \<Rightarrow> string option \<times> restore_result option \<times> 'w" where
  "finish result out =
     (case out of (e, st) \<Rightarrow>
        (e, Some (result\<lparr>rr_Applied := ru_applied st, rr_Errors := ru_errors st, rr_Warnings := ru_warnings st\<rparr>), ru_world st))"

definition applyPlan ::
  "('w, 'z) exec_service_scheme \<Rightarrow> 'w category_writer \<Rightarrow> 'w tag_writer \<Rightarrow> 'w torrent_writer \<Rightarrow> restore_plan
    \<Rightarrow> restore_options \<Rightarrow> 'w \<Rightarrow> string option \<times> 'w run" where
  "applyPlan s cw tw xw plan opts w =
     (let st = \<lparr>ru_world = w, ru_applied = no_applied, ru_errors = [], ru_warnings = [], ru_pendingResume = []\<rparr> in
      case applyCategoryPlan (xs_ctx s) cw plan st of
        (Some e, st) \<Rightarrow> (Some e, st)
      | (None, st) \<Rightarrow>
     (case applyTagPlan (xs_ctx s) tw plan st of
        (Some e, st) \<Rightarrow> (Some e, st)
      | (None, st) \<Rightarrow> applyTorrentPlan s xw plan (buildHashSet (ro_ExcludeHashes opts)) opts st))"

definition ExecuteRestore ::
  "'w exec_service option \<Rightarrow> int \<Rightarrow> string \<Rightarrow> restore_options \<Rightarrow> 'w
    \<Rightarrow> string option \<times> restore_result option \<times> 'w" where
  "ExecuteRestore so runID mode opts w =
     (let planOpts = (if length (ro_ExcludeHashes opts) > 0 then Some (ro_ExcludeHashes opts) else None) in
      case PlanRestoreDiff (map_option xs_planner so) runID mode planOpts of
        Inl err \<Rightarrow> (Some err, None, w)
      | Inr plan \<Rightarrow>
          let result = \<lparr>rr_Mode = rp_Mode plan, rr_RunID = rp_RunID plan, rr_InstanceID = rp_InstanceID plan,
                rr_DryRun = ro_DryRun opts, rr_Plan = plan, rr_Applied = no_applied, rr_Warnings = [], rr_Errors = []\<rparr>
          in if ro_DryRun opts then (None, Some result, w)
             else (case so of
                 None \<Rightarrow> (Some ''sync manager unavailable'', Some result, w)
               | Some s \<Rightarrow>
              (case (xs_categoryWriter s, xs_tagWriter s, xs_torrentWriter s) of
                 (Some cw, Some tw, Some xw) \<Rightarrow> finish result (applyPlan s cw tw xw plan opts w)
               | _ \<Rightarrow> (Some ''sync manager unavailable'', Some result, w))))"

section \<open>Accounting\<close>

text \<open>
  For each kind of action: the targets reported as applied together with the targets of the errors
  recorded for it.
\<close>

definition done_of :: "string \<Rightarrow> restore_applied \<Rightarrow> string list" where
  "done_of op a =
     (if op = ''create_category'' then ra_CategoriesCreated a
      else if op = ''update_category'' then ra_CategoriesUpdated a
      else if op = ''delete_category'' then ra_CategoriesDeleted a
      else if op = ''create_tag'' then ra_TagsCreated a
      else if op = ''delete_tag'' then ra_TagsDeleted a
      else if op = ''add_torrent'' then ra_TorrentsAdded a
      else if op = ''delete_torrent'' then ra_TorrentsDeleted a
      else [])"

definition accounted_ops :: "string set" where
  "accounted_ops = {''create_category'', ''update_category'', ''delete_category'', ''create_tag'', ''delete_tag'',
     ''add_torrent'', ''delete_torrent''}"

definition tally :: "restore_applied \<Rightarrow> restore_error list \<Rightarrow> string \<Rightarrow> string multiset" where
  "tally a errs op =
     (if op \<in> accounted_ops
      then mset (done_of op a) + mset (map re_Target (filter (\<lambda>e. re_Operation e = op) errs)) else {#})"

definition planned :: "restore_plan \<Rightarrow> string \<Rightarrow> string multiset" where
  "planned plan op =
     (if op = ''create_category'' then mset (map cs_Name (cp_Create (rp_Categories plan)))
      else if op = ''update_category'' then mset (map cu_Name (cp_Update (rp_Categories plan)))
      else if op = ''delete_category'' then mset (cp_Delete (rp_Categories plan))
      else if op = ''create_tag'' then mset (tp_Create (rp_Tags plan))
      else if op = ''delete_tag'' then mset (tp_Delete (rp_Tags plan))
      else if op = ''add_torrent'' then mset (map mi_Hash (xp_Add (rp_Torrents plan)))
      else if op = ''delete_torrent'' then mset (xp_Delete (rp_Torrents plan))
      else {#})"

abbreviation acct :: "'w run \<Rightarrow> string \<Rightarrow> string multiset" where
  "acct st \<equiv> tally (ru_applied st) (ru_errors st)"

definition only :: "string \<Rightarrow> string multiset \<Rightarrow> string \<Rightarrow> string multiset" where
  "only op ns = (\<lambda>o'. if o' = op then ns else {#})"

definition grows :: "(string \<Rightarrow> string multiset) \<Rightarrow> 'w run \<Rightarrow> 'w run \<Rightarrow> bool" where
  "grows P st st' \<longleftrightarrow> (\<forall>op. acct st' op = acct st op + P op)"

text \<open>A stage that may be cancelled: it accounts for part of \<open>P\<close>, and for all of it when it completes.\<close>

definition stage :: "(string \<Rightarrow> string multiset) \<Rightarrow> 'w run \<Rightarrow> string option \<times> 'w run \<Rightarrow> bool" where
  "stage P st out \<longleftrightarrow>
     (\<forall>op. acct (snd out) op \<subseteq># acct st op + P op) \<and> (fst out = None \<longrightarrow> grows P st (snd out))"

definition reports :: "string \<Rightarrow> (string list \<Rightarrow> restore_applied \<Rightarrow> restore_applied) \<Rightarrow> bool" where
  "reports opname report \<longleftrightarrow>
     opname \<in> accounted_ops \<and> (\<forall>ns a op. done_of op (report ns a) = (if op = opname then done_of op a @ ns else done_of op a))"

lemma grows_zero: "grows (\<lambda>_. {#}) st st' \<longleftrightarrow> acct st' = acct st"
  by (auto simp: grows_def)

lemma grows_trans: "grows P st st1 \<Longrightarrow> grows Q st1 st2 \<Longrightarrow> grows (\<lambda>op. P op + Q op) st st2"
  by (simp add: grows_def ac_simps)

lemma grows_world [simp]: "grows P (st\<lparr>ru_world := w\<rparr>) st' = grows P st st'" "grows P st (st'\<lparr>ru_world := w\<rparr>) = grows P st st'"
  by (simp_all add: grows_def)

lemma tally_append_error:
  "tally a (errs @ [\<lparr>re_Operation = o', re_Target = n, re_Message = m\<rparr>]) op =
     tally a errs op + (if op = o' \<and> op \<in> accounted_ops then {#n#} else {#})"
  by (auto simp: tally_def)

lemma tally_report: "reports o' report \<Longrightarrow> tally (report ns a) errs op = tally a errs op + only o' (mset ns) op"
  by (simp add: tally_def reports_def only_def)

lemma grows_error:
  "grows (if o' \<in> accounted_ops then only o' {#n#} else (\<lambda>_. {#})) st (appendRestoreError o' n e st)"
  by (auto simp: grows_def appendRestoreError_def tally_append_error only_def)

lemma grows_report: "reports o' report \<Longrightarrow> grows (only o' (mset ns)) st (st\<lparr>ru_applied := report ns (ru_applied st)\<rparr>)"
  by (simp add: grows_def tally_report)

lemma grows_call: "snd (call op st) = st' \<Longrightarrow> acct st' = acct st"
  by (auto simp: call_def split: prod.splits)

lemma grows_start: "acct st' = acct st \<Longrightarrow> grows P st' x = grows P st x"
  by (simp add: grows_def)

lemma grows_attempt: "reports o' report \<Longrightarrow> grows (only o' {#n#}) st (attempt o' op report n st)"
proof (cases "call op st")
  case (Pair r st')
  assume rep: "reports o' report"
  then have "o' \<in> accounted_ops"
    by (simp add: reports_def)
  with Pair show ?thesis
    using grows_error [of o' n st'] grows_report [OF rep, of "[n]" st'] grows_start [OF grows_call [of op st st']]
    by (auto simp: attempt_def split: option.splits)
qed

lemma stage_Nil: "stage (\<lambda>_. {#}) st (None, st)"
  by (simp add: stage_def grows_zero)

lemma stage_mono_start: "acct st' = acct st \<Longrightarrow> stage P st' out = stage P st out"
  by (simp add: stage_def grows_def)

lemma ctx_check_acct: "ctx_check ctx st = (r, st') \<Longrightarrow> acct st' = acct st"
  by (auto simp: ctx_check_def split: prod.splits)

lemma stage_bind:
  assumes "stage P st out" and "\<And>st'. out = (None, st') \<Longrightarrow> stage Q st' (k st')"
  shows "stage (\<lambda>op. P op + Q op) st (case out of (Some e, st') \<Rightarrow> (Some e, st') | (None, st') \<Rightarrow> k st')"
proof (cases out)
  case (Pair r st')
  show ?thesis
  proof (cases r)
    case None
    with Pair assms(2) have q: "stage Q st' (k st')" and p: "grows P st st'"
      using assms(1) by (auto simp: stage_def)
    then show ?thesis
      unfolding Pair None using p by (auto simp: stage_def grows_def ac_simps)
  next
    case (Some e)
    with Pair assms(1) show ?thesis
      by (auto simp: stage_def intro: subset_mset.order_trans)
  qed
qed

lemma stage_check:
  assumes "\<And>st'. ctx_check ctx st = (None, st') \<Longrightarrow> stage Q st' (k st')"
  shows "stage Q st (case ctx_check ctx st of (Some e, st') \<Rightarrow> (Some e, st') | (None, st') \<Rightarrow> k st')"
proof -
  have "stage (\<lambda>_. {#}) st (ctx_check ctx st)"
    using ctx_check_acct [of ctx st] by (cases "ctx_check ctx st") (simp add: stage_def grows_def)
  from stage_bind [OF this assms] show ?thesis
    by simp
qed

lemma stage_loop:
  assumes "\<And>x st. x \<in> set xs \<Longrightarrow> grows (F x) st (body x st)"
  shows "stage (\<lambda>op. \<Sum>x \<leftarrow> xs. F x op) st (ctx_loop ctx body xs st)"
  using assms
proof (induction xs arbitrary: st)
  case (Cons x xs)
  have "stage (\<lambda>op. \<Sum>x \<leftarrow> x # xs. F x op) st' (ctx_loop ctx body xs (body x st'))" for st'
  proof -
    have "stage (\<lambda>op. \<Sum>x \<leftarrow> xs. F x op) (body x st') (ctx_loop ctx body xs (body x st'))"
      using Cons by simp
    moreover have "grows (F x) st' (body x st')"
      using Cons.prems by simp
    ultimately show ?thesis
      by (auto simp: stage_def grows_def ac_simps)
  qed
  then show ?case
    by (simp only: ctx_loop.simps) (rule stage_check)
qed (simp add: stage_Nil)

lemma sum_only: "(\<Sum>x \<leftarrow> xs. only o' {#key x#} op) = only o' (mset (map key xs)) op"
  by (induction xs) (simp_all add: only_def)

lemma stage_batchRetry:
  assumes "reports o' report"
  shows "stage (only o' (mset names)) st (batchRetry ctx o' op report names st)"
proof (cases "call (op names) st")
  case (Pair r st')
  have same: "acct st' = acct st"
    using Pair grows_call [of "op names" st st'] by simp
  show ?thesis
  proof (cases r)
    case None
    with Pair same grows_report [OF assms, of names st'] show ?thesis
      by (simp add: batchRetry_def stage_def grows_def)
  next
    case (Some e)
    have "stage (\<lambda>o2. \<Sum>x \<leftarrow> names. only o' {#x#} o2) st' (ctx_loop ctx (\<lambda>name. attempt o' (op [name]) report name) names st')"
      by (rule stage_loop) (rule grows_attempt [OF assms])
    with Pair Some same show ?thesis
      by (simp add: batchRetry_def stage_mono_start [OF same] sum_only [where key = "\<lambda>x. x", simplified])
  qed
qed

lemma reports_all:
  "reports ''create_category'' (\<lambda>ns a. a\<lparr>ra_CategoriesCreated := ra_CategoriesCreated a @ ns\<rparr>)"
  "reports ''update_category'' (\<lambda>ns a. a\<lparr>ra_CategoriesUpdated := ra_CategoriesUpdated a @ ns\<rparr>)"
  "reports ''delete_category'' (\<lambda>ns a. a\<lparr>ra_CategoriesDeleted := ra_CategoriesDeleted a @ ns\<rparr>)"
  "reports ''create_tag'' (\<lambda>ns a. a\<lparr>ra_TagsCreated := ra_TagsCreated a @ ns\<rparr>)"
  "reports ''delete_tag'' (\<lambda>ns a. a\<lparr>ra_TagsDeleted := ra_TagsDeleted a @ ns\<rparr>)"
  "reports ''add_torrent'' (\<lambda>ns a. a\<lparr>ra_TorrentsAdded := ra_TorrentsAdded a @ ns\<rparr>)"
  "reports ''delete_torrent'' (\<lambda>ns a. a\<lparr>ra_TorrentsDeleted := ra_TorrentsDeleted a @ ns\<rparr>)"
  by (simp_all add: reports_def accounted_ops_def done_of_def)

definition category_part :: "restore_plan \<Rightarrow> string \<Rightarrow> string multiset" where
  "category_part plan op =
     only ''create_category'' (mset (map cs_Name (cp_Create (rp_Categories plan)))) op
     + (only ''update_category'' (mset (map cu_Name (cp_Update (rp_Categories plan)))) op
     + only ''delete_category'' (mset (cp_Delete (rp_Categories plan))) op)"

definition tag_part :: "restore_plan \<Rightarrow> string \<Rightarrow> string multiset" where
  "tag_part plan op = only ''create_tag'' (mset (tp_Create (rp_Tags plan))) op
     + only ''delete_tag'' (mset (tp_Delete (rp_Tags plan))) op"

definition torrent_part :: "restore_plan \<Rightarrow> string \<Rightarrow> string multiset" where
  "torrent_part plan op = only ''add_torrent'' (mset (map mi_Hash (xp_Add (rp_Torrents plan)))) op
     + only ''delete_torrent'' (mset (xp_Delete (rp_Torrents plan))) op"

lemma planned_parts: "planned plan op = category_part plan op + (tag_part plan op + torrent_part plan op)"
  by (simp add: planned_def category_part_def tag_part_def torrent_part_def only_def)

lemma only_empty [simp]: "only o' {#} = (\<lambda>_. {#})"
  by (auto simp: only_def)

lemma stage_only_Nil: "xs = [] \<Longrightarrow> stage (only o' (mset xs)) st (None, st)"
  by (simp add: stage_Nil)

lemma stage_attempts:
  assumes "reports o' report"
  shows "stage (only o' (mset (map key xs))) st (ctx_loop ctx (\<lambda>x. attempt o' (op x) report (key x)) xs st)"
  unfolding sum_only [abs_def, symmetric] by (rule stage_loop) (rule grows_attempt [OF assms])

lemma stage_checked_batch:
  assumes "reports o' report"
  shows "stage (only o' (mset names)) st
    (if names = [] then (None, st)
     else (case ctx_check ctx st of (Some e, st) \<Rightarrow> (Some e, st)
       | (None, st) \<Rightarrow> batchRetry ctx o' op report names st))"
  using stage_check [of ctx st "only o' (mset names)" "batchRetry ctx o' op report names"] stage_batchRetry [OF assms]
  by (auto simp: stage_Nil)

lemma stage_applyCategoryPlan: "stage (category_part plan) st (applyCategoryPlan ctx cw plan st)"
  unfolding category_part_def [abs_def] applyCategoryPlan_def Let_def
  by (intro stage_bind stage_attempts stage_checked_batch reports_all)

lemma stage_applyTagPlan: "stage (tag_part plan) st (applyTagPlan ctx tw plan st)"
  unfolding tag_part_def [abs_def] applyTagPlan_def Let_def
  by (intro stage_bind stage_checked_batch reports_all)

lemma grows_note_failure: "o' \<notin> accounted_ops \<Longrightarrow> acct (note_failure o' n op st) = acct st"
  using grows_call [of op st] by (auto simp: note_failure_def appendRestoreError_def tally_append_error fun_eq_iff split: prod.splits option.splits)

lemma accounted_not [simp]: "''set_category'' \<notin> accounted_ops" "''set_tags'' \<notin> accounted_ops"
  by (simp_all add: accounted_ops_def)

lemma grows_addOne:
  assumes "\<not> shouldSkipTorrent (mi_Hash item) exclude"
  shows "grows (only ''add_torrent'' {#mi_Hash item#}) st (addOne s xw i exclude opts item st)"
proof -
  let ?h = "mi_Hash item"
  have acc: "''add_torrent'' \<in> accounted_ops"
    by (simp add: accounted_ops_def)
  have err: "grows (only ''add_torrent'' {#?h#}) st (appendRestoreError ''add_torrent'' ?h e st')" if "acct st' = acct st" for e st'
    using grows_error [of "''add_torrent''" ?h st' e] acc grows_start [OF that] by simp
  show ?thesis
  proof (cases "trim_space (mi_TorrentBlob item) = []")
    case True
    with assms show ?thesis
      by (simp add: addOne_def Let_def err)
  next
    case False
    show ?thesis
    proof (cases "loadTorrentBlobData s (trim_space (mi_TorrentBlob item))")
      case (Inl e)
      with False assms show ?thesis
        by (simp add: addOne_def Let_def err)
    next
      case (Inr payload)
      obtain r st1 where c: "call (AddTorrent xw i payload (addOptions opts item)) st = (r, st1)"
        by fastforce
      then have same: "acct st1 = acct st"
        using grows_call [of "AddTorrent xw i payload (addOptions opts item)" st st1] by simp
      show ?thesis
      proof (cases r)
        case None
        with c same Inr False assms show ?thesis
          using tally_report [OF reports_all(6), where ns = "[?h]"]
          by (simp add: addOne_def Let_def grows_def grows_note_failure)
      next
        case (Some e)
        with c same Inr False assms show ?thesis
          by (simp add: addOne_def Let_def err)
      qed
    qed
  qed
qed

lemma acct_applyChange: "acct (snd (applyChange xw i h c acc)) = acct (snd acc)"
  by (cases acc)
     (auto simp: applyChange_def call_def appendRestoreError_def tally_append_error fun_eq_iff Let_def
       split: prod.splits option.splits)

lemma acct_fold_applyChange: "acct (snd (fold (applyChange xw i h) cs acc)) = acct (snd acc)"
  by (induction cs arbitrary: acc) (simp_all add: acct_applyChange)

lemma grows_updateOne: "grows (\<lambda>_. {#}) st (updateOne xw i exclude u st)"
proof -
  have upd: "tally (a\<lparr>ra_TorrentsUpdated := x\<rparr>) errs = tally a errs" for a x errs
    by (rule ext) (simp add: tally_def done_of_def)
  show ?thesis
    using acct_fold_applyChange [of xw i "tu_Hash u" "tu_Changes u" "(False, st)"]
    by (auto simp: updateOne_def grows_zero upd split: prod.splits)
qed

lemma stage_delete:
  assumes "acct (f st') = acct st'"
  shows "stage (only ''delete_torrent'' (mset ds)) st'
      (if ds = [] then (None, f st')
       else (case ctx_check ctx (f st') of
           (Some e, st) \<Rightarrow> (Some e, st)
         | (None, st) \<Rightarrow> if ds = [] then (None, st)
             else batchRetry ctx ''delete_torrent'' op
                    (\<lambda>ns a. a\<lparr>ra_TorrentsDeleted := ra_TorrentsDeleted a @ ns\<rparr>) ds st))"
  using stage_checked_batch [OF reports_all(7), of ds "f st'" ctx op] stage_mono_start [OF assms]
  by (cases "ds = []") (auto split: prod.splits option.splits)

lemma stage_applyTorrentPlan:
  assumes "\<And>x. x \<in> set (xp_Add (rp_Torrents plan)) \<Longrightarrow> \<not> shouldSkipTorrent (mi_Hash x) exclude"
    and "\<And>h. h \<in> set (xp_Delete (rp_Torrents plan)) \<Longrightarrow> \<not> shouldSkipTorrent h exclude"
  shows "stage (torrent_part plan) st (applyTorrentPlan s xw plan exclude opts st)"
proof -
  have add: "stage (only ''add_torrent'' (mset (map mi_Hash (xp_Add (rp_Torrents plan))))) st
      (ctx_loop ctx (addOne s xw i exclude opts) (xp_Add (rp_Torrents plan)) st)" for ctx i st
    unfolding sum_only [abs_def, symmetric] by (rule stage_loop) (rule grows_addOne, rule assms(1))
  have upd: "stage (\<lambda>_. {#}) st (ctx_loop ctx (updateOne xw i exclude) us st)" for ctx i us st
    using stage_loop [of us "\<lambda>_ _. {#}", OF grows_updateOne] by (simp add: sum_list_0)
  have del: "filter (\<lambda>h. \<not> shouldSkipTorrent h exclude) (xp_Delete (rp_Torrents plan)) = xp_Delete (rp_Torrents plan)"
    using assms(2) by (auto simp: filter_id_conv)
  have parts: "torrent_part plan = (\<lambda>op. only ''add_torrent'' (mset (map mi_Hash (xp_Add (rp_Torrents plan)))) op
      + ((\<lambda>_. {#}) op + only ''delete_torrent'' (mset (xp_Delete (rp_Torrents plan))) op))"
    by (simp add: torrent_part_def [abs_def])
  show ?thesis
    unfolding parts applyTorrentPlan_def Let_def del
    by (intro stage_bind add upd stage_delete [where f = "\<lambda>st. if 0 < length (ru_pendingResume st)
        then st\<lparr>ru_world := ResumeWhenComplete xw (rp_InstanceID plan) (ru_pendingResume st) (ru_world st)\<rparr> else st"]) simp
qed

lemma shouldSkipTorrent_eq: "shouldSkipTorrent h (buildHashSet hs) \<longleftrightarrow> normalizeLowerTrim h \<in> excluded (Some hs)"
  using set_excludeSet [of hs] by (auto simp: shouldSkipTorrent_def buildHashSet_def excludeSet_def excluded_def)

lemma excluded_planOpts: "excluded (if length hs > 0 then Some hs else None) = excluded (Some hs)"
  by (simp add: excluded_def)

lemma plan_not_skipped:
  assumes "PlanRestoreDiff s run mode (if length hs > 0 then Some hs else None) = Inr plan"
  shows "x \<in> set (xp_Add (rp_Torrents plan)) \<Longrightarrow> \<not> shouldSkipTorrent (mi_Hash x) (buildHashSet hs)"
    and "h \<in> set (xp_Delete (rp_Torrents plan)) \<Longrightarrow> \<not> shouldSkipTorrent h (buildHashSet hs)"
    and "u \<in> set (xp_Update (rp_Torrents plan)) \<Longrightarrow> \<not> shouldSkipTorrent (tu_Hash u) (buildHashSet hs)"
proof -
  from assms obtain p where p: "plan = applyRestorePlanOptions p (if length hs > 0 then Some hs else None)"
    by (rule PlanRestoreDiff_cases)
  show "x \<in> set (xp_Add (rp_Torrents plan)) \<Longrightarrow> \<not> shouldSkipTorrent (mi_Hash x) (buildHashSet hs)"
    "h \<in> set (xp_Delete (rp_Torrents plan)) \<Longrightarrow> \<not> shouldSkipTorrent h (buildHashSet hs)"
    "u \<in> set (xp_Update (rp_Torrents plan)) \<Longrightarrow> \<not> shouldSkipTorrent (tu_Hash u) (buildHashSet hs)"
    unfolding p applyRestorePlanOptions_eq excluded_planOpts shouldSkipTorrent_eq by (simp_all add: Let_def)
qed

text \<open>The runs that get as far as applying a plan.\<close>

lemma ExecuteRestore_run:
  assumes "ExecuteRestore so run mode opts w = (e, Some r, w')" and "\<not> ro_DryRun opts"
  obtains (unavailable) "e = Some ''sync manager unavailable''" "w' = w" "rr_Applied r = no_applied" "rr_Errors r = []"
  | (applied) s cw tw xw st where "so = Some s" "xs_categoryWriter s = Some cw" "xs_tagWriter s = Some tw"
      "xs_torrentWriter s = Some xw"
      "PlanRestoreDiff (Some (xs_planner s)) run mode
         (if length (ro_ExcludeHashes opts) > 0 then Some (ro_ExcludeHashes opts) else None) = Inr (rr_Plan r)"
      "applyPlan s cw tw xw (rr_Plan r) opts w = (e, st)"
      "w' = ru_world st" "rr_Applied r = ru_applied st" "rr_Errors r = ru_errors st" "rr_Warnings r = ru_warnings st"
proof -
  let ?o = "if length (ro_ExcludeHashes opts) > 0 then Some (ro_ExcludeHashes opts) else None"
  from assms obtain plan where plan: "PlanRestoreDiff (map_option xs_planner so) run mode ?o = Inr plan"
    by (auto simp: ExecuteRestore_def Let_def split: sum.splits)
  then obtain s where s: "so = Some s"
    by (cases so) (simp_all add: PlanRestoreDiff_def)
  show thesis
  proof (cases "xs_categoryWriter s = None \<or> xs_tagWriter s = None \<or> xs_torrentWriter s = None")
    case True
    with assms plan s show thesis
      by (auto simp: ExecuteRestore_def Let_def split: option.splits intro: unavailable)
  next
    case False
    then obtain cw tw xw where ws: "xs_categoryWriter s = Some cw" "xs_tagWriter s = Some tw" "xs_torrentWriter s = Some xw"
      by auto
    obtain e1 st where out: "applyPlan s cw tw xw plan opts w = (e1, st)"
      by fastforce
    with assms plan s ws have "rr_Plan r = plan" "e1 = e" "w' = ru_world st" "rr_Applied r = ru_applied st"
      "rr_Errors r = ru_errors st" "rr_Warnings r = ru_warnings st"
      by (auto simp: ExecuteRestore_def Let_def finish_def)
    with plan s ws out show thesis
      by (intro applied) auto
  qed
qed

lemma stage_applyPlan:
  assumes "PlanRestoreDiff srv run mode
      (if length (ro_ExcludeHashes opts) > 0 then Some (ro_ExcludeHashes opts) else None) = Inr plan"
  shows "stage (planned plan) \<lparr>ru_world = w, ru_applied = no_applied, ru_errors = [], ru_warnings = [], ru_pendingResume = []\<rparr>
    (applyPlan s cw tw xw plan opts w)"
  unfolding planned_parts [abs_def] applyPlan_def Let_def
  by (intro stage_bind stage_applyCategoryPlan stage_applyTagPlan stage_applyTorrentPlan)
     (use plan_not_skipped [OF assms] in auto)

section \<open>Updates and what follows an addition\<close>

text \<open>
  The reports of updated torrents, and the errors of the two calls that set a category or tags. An update makes one such call for every
  supported change of it (\<open>asked_changes\<close>); an addition makes up to two after the torrent was added.
\<close>

definition noted :: "restore_applied \<Rightarrow> restore_error list \<Rightarrow> string \<Rightarrow> string multiset" where
  "noted a errs op =
     (if op = ''update_torrent'' then mset (ra_TorrentsUpdated a)
      else if op = ''set_category'' \<or> op = ''set_tags'' then mset (map re_Target (filter (\<lambda>e. re_Operation e = op) errs))
      else {#})"

definition asked_changes :: "torrent_update \<Rightarrow> diff_change list" where
  "asked_changes u = filter (\<lambda>c. dc_Supported c \<and> (dc_Field c = ''category'' \<or> dc_Field c = ''tags'')) (tu_Changes u)"

definition change_op :: "diff_change \<Rightarrow> string" where
  "change_op c = (if dc_Field c = ''category'' then ''set_category'' else ''set_tags'')"

text \<open>What is noted for an update whose changes succeed as \<open>oks\<close> tells, and at most for an addition.\<close>

definition update_noted :: "torrent_update \<Rightarrow> bool list \<Rightarrow> string \<Rightarrow> string multiset" where
  "update_noted u oks op =
     (if op = ''update_torrent'' then (if True \<in> set oks then {#tu_Hash u#} else {#})
      else mset (map (\<lambda>_. tu_Hash u) (filter (\<lambda>(c, ok). \<not> ok \<and> change_op c = op) (zip (asked_changes u) oks))))"

definition add_noted :: "manifest_item \<Rightarrow> string \<Rightarrow> string multiset" where
  "add_noted item op =
     (if op = ''set_category'' \<and> normalizeCategory (mi_Category item) \<noteq> [] \<or> op = ''set_tags'' \<and> mi_Tags item \<noteq> []
      then {#mi_Hash item#} else {#})"

abbreviation noted_in :: "'w run \<Rightarrow> string \<Rightarrow> string multiset" where
  "noted_in st \<equiv> noted (ru_applied st) (ru_errors st)"

lemma notes_call: "call op st = (r, st') \<Longrightarrow> noted_in st' = noted_in st"
  by (auto simp: call_def split: prod.splits)

lemma notes_check: "ctx_check ctx st = (r, st') \<Longrightarrow> noted_in st' = noted_in st"
  by (auto simp: ctx_check_def split: prod.splits)

lemma notes_error: "noted_in (appendRestoreError o' n e st) op = noted_in st op + (if op = o' \<and> (op = ''set_category'' \<or> op = ''set_tags'') then {#n#} else {#})"
  by (auto simp: noted_def appendRestoreError_def)

text \<open>Stages that note nothing: those that neither report updates nor set a category or tags.\<close>

definition unnoted :: "string \<Rightarrow> (string list \<Rightarrow> restore_applied \<Rightarrow> restore_applied) \<Rightarrow> bool" where
  "unnoted o' report \<longleftrightarrow> o' \<noteq> ''set_category'' \<and> o' \<noteq> ''set_tags'' \<and> (\<forall>ns a. ra_TorrentsUpdated (report ns a) = ra_TorrentsUpdated a)"

lemma notes_report: "unnoted o' report \<Longrightarrow> noted_in (st\<lparr>ru_applied := report ns (ru_applied st)\<rparr>) = noted_in st"
  by (rule ext) (simp add: unnoted_def noted_def)

lemma notes_attempt:
  assumes "unnoted o' report"
  shows "noted_in (attempt o' op report n st) = noted_in st"
proof (cases "call op st")
  case (Pair r st')
  with notes_call [OF Pair] notes_report [OF assms, where st = st' and ns = "[n]"] assms show ?thesis
    by (auto simp: attempt_def notes_error unnoted_def split: option.splits)
qed

lemma notes_loop: "(\<And>x st. x \<in> set xs \<Longrightarrow> noted_in (body x st) = noted_in st) \<Longrightarrow> noted_in (snd (ctx_loop ctx body xs st)) = noted_in st"
proof (induction xs arbitrary: st)
  case (Cons x xs)
  obtain r st1 where c: "ctx_check ctx st = (r, st1)"
    by fastforce
  with Cons.IH [of "body x st1"] Cons.prems notes_check [OF c] show ?case
    by (auto split: option.splits)
qed simp

lemma notes_batch:
  assumes "unnoted o' report"
  shows "noted_in (snd (batchRetry ctx o' op report names st)) = noted_in st"
proof (cases "call (op names) st")
  case (Pair r st')
  have "noted_in (snd (ctx_loop ctx (\<lambda>name. attempt o' (op [name]) report name) names st')) = noted_in st'"
    by (rule notes_loop) (rule notes_attempt [OF assms])
  with Pair notes_call [OF Pair] notes_report [OF assms, where st = st' and ns = names] show ?thesis
    by (auto simp: batchRetry_def split: option.splits)
qed

lemma notes_bind:
  assumes "noted_in (snd out) = noted_in st" and "\<And>st'. noted_in (snd (k st')) = noted_in st'"
  shows "noted_in (snd (case out of (Some e, st') \<Rightarrow> (Some e, st') | (None, st') \<Rightarrow> k st')) = noted_in st"
  using assms by (auto split: prod.splits option.splits)

lemma notes_checked: "(\<And>st'. noted_in (snd (k st')) = noted_in st') \<Longrightarrow>
    noted_in (snd (case ctx_check ctx st of (Some e, st') \<Rightarrow> (Some e, st') | (None, st') \<Rightarrow> k st')) = noted_in st"
  by (rule notes_bind) (use notes_check in \<open>metis surj_pair snd_conv\<close>)

lemma notes_if: "(\<not> b \<Longrightarrow> noted_in (snd out) = noted_in st) \<Longrightarrow> noted_in (snd (if b then (None, st) else out)) = noted_in st"
  by simp

lemma unnoted_all:
  "unnoted ''create_category'' (\<lambda>ns a. a\<lparr>ra_CategoriesCreated := ra_CategoriesCreated a @ ns\<rparr>)"
  "unnoted ''update_category'' (\<lambda>ns a. a\<lparr>ra_CategoriesUpdated := ra_CategoriesUpdated a @ ns\<rparr>)"
  "unnoted ''delete_category'' (\<lambda>ns a. a\<lparr>ra_CategoriesDeleted := ra_CategoriesDeleted a @ ns\<rparr>)"
  "unnoted ''create_tag'' (\<lambda>ns a. a\<lparr>ra_TagsCreated := ra_TagsCreated a @ ns\<rparr>)"
  "unnoted ''delete_tag'' (\<lambda>ns a. a\<lparr>ra_TagsDeleted := ra_TagsDeleted a @ ns\<rparr>)"
  "unnoted ''delete_torrent'' (\<lambda>ns a. a\<lparr>ra_TorrentsDeleted := ra_TorrentsDeleted a @ ns\<rparr>)"
  by (simp_all add: unnoted_def)

lemma notes_applyCategoryPlan: "noted_in (snd (applyCategoryPlan ctx cw plan st)) = noted_in st"
  unfolding applyCategoryPlan_def Let_def
  by (intro notes_bind notes_loop notes_attempt notes_if notes_checked notes_batch unnoted_all)

lemma notes_applyTagPlan: "noted_in (snd (applyTagPlan ctx tw plan st)) = noted_in st"
  unfolding applyTagPlan_def Let_def
  by (intro notes_bind notes_if notes_checked notes_batch unnoted_all)

text \<open>Loops that note something: the body notes \<open>G x y\<close> for some \<open>y\<close> that fits the item.\<close>

lemma notes_loop_sum:
  assumes "\<And>x st. x \<in> set xs \<Longrightarrow> \<exists>y. fits x y \<and> (\<forall>op. noted_in (body x st) op = noted_in st op + G x y op)"
    and "ctx_loop ctx body xs st = (e, st')"
  shows "\<exists>ys. length ys \<le> length xs \<and> list_all2 fits (take (length ys) xs) ys \<and> (e = None \<longrightarrow> length ys = length xs) \<and>
    (\<forall>op. noted_in st' op = noted_in st op + (\<Sum>(x, y) \<leftarrow> zip xs ys. G x y op))"
  using assms
proof (induction xs arbitrary: st)
  case (Cons x xs)
  obtain r st1 where c: "ctx_check ctx st = (r, st1)"
    by fastforce
  show ?case
  proof (cases r)
    case (Some e')
    with Cons.prems(2) c notes_check [OF c] show ?thesis
      by (intro exI [of _ "[]"]) auto
  next
    case None
    obtain y where y: "fits x y" "\<forall>op. noted_in (body x st1) op = noted_in st1 op + G x y op"
      using Cons.prems(1) [of x st1] by auto
    have "ctx_loop ctx body xs (body x st1) = (e, st')"
      using Cons.prems(2) c None by simp
    from Cons.IH [OF Cons.prems(1) this] obtain ys where "length ys \<le> length xs" "list_all2 fits (take (length ys) xs) ys"
      "e = None \<longrightarrow> length ys = length xs" "\<forall>op. noted_in st' op = noted_in (body x st1) op + (\<Sum>(x, y) \<leftarrow> zip xs ys. G x y op)"
      by auto
    with y notes_check [OF c] show ?thesis
      by (intro exI [of _ "y # ys"]) (auto simp: ac_simps)
  qed
qed simp

lemma notes_note_failure:
  "\<exists>Q. (\<forall>op. Q op \<subseteq># (if op = o' \<and> (op = ''set_category'' \<or> op = ''set_tags'') then {#n#} else {#})) \<and>
     (\<forall>op. noted_in (note_failure o' n cl st) op = noted_in st op + Q op)"
proof (cases "call cl st")
  case (Pair r st')
  show ?thesis
  proof (cases r)
    case None
    with Pair notes_call [OF Pair] show ?thesis
      by (intro exI [of _ "\<lambda>_. {#}"]) (simp add: note_failure_def)
  next
    case (Some e)
    with Pair notes_call [OF Pair] show ?thesis
      by (intro exI [of _ "\<lambda>op. if op = o' \<and> (op = ''set_category'' \<or> op = ''set_tags'') then {#n#} else {#}"])
         (simp add: note_failure_def notes_error)
  qed
qed

lemma notes_addOne:
  "\<exists>Q. (\<forall>op. Q op \<subseteq># add_noted item op) \<and> (\<forall>op. noted_in (addOne s xw i exclude opts item st) op = noted_in st op + Q op)"
proof (cases "shouldSkipTorrent (mi_Hash item) exclude \<or> trim_space (mi_TorrentBlob item) = []
    \<or> (\<exists>e. loadTorrentBlobData s (trim_space (mi_TorrentBlob item)) = Inl e)")
  case True
  then have "noted_in (addOne s xw i exclude opts item st) = noted_in st"
    by (auto simp: addOne_def Let_def notes_error fun_eq_iff)
  then show ?thesis
    by (intro exI [of _ "\<lambda>_. {#}"]) simp
next
  case False
  then obtain b where b: "loadTorrentBlobData s (trim_space (mi_TorrentBlob item)) = Inr b"
    by (meson sum.exhaust)
  let ?h = "mi_Hash item" and ?c = "normalizeCategory (mi_Category item)"
  obtain r st1 where c: "call (AddTorrent xw i b (addOptions opts item)) st = (r, st1)"
    by fastforce
  show ?thesis
  proof (cases r)
    case (Some e)
    with False b c notes_call [OF c] have "noted_in (addOne s xw i exclude opts item st) = noted_in st"
      by (auto simp: addOne_def Let_def notes_error fun_eq_iff)
    then show ?thesis
      by (intro exI [of _ "\<lambda>_. {#}"]) simp
  next
    case None
    define st2 where "st2 = (if ?c \<noteq> [] then note_failure ''set_category'' ?h (SetCategory xw i [?h] ?c) st1 else st1)"
    define st3 where "st3 = (if mi_Tags item \<noteq> []
      then note_failure ''set_tags'' ?h (SetTags xw i [?h] (join_with '','' (mi_Tags item))) st2 else st2)"
    obtain Q1 where Q1: "\<forall>op. Q1 op \<subseteq># (if op = ''set_category'' \<and> ?c \<noteq> [] then {#?h#} else {#})"
      "\<forall>op. noted_in st2 op = noted_in st1 op + Q1 op"
    proof (cases "?c = []")
      case True
      then show ?thesis
        by (intro that [of "\<lambda>_. {#}"]) (simp_all add: st2_def)
    next
      case False
      obtain Q where Q: "\<forall>op. Q op \<subseteq># (if op = ''set_category'' \<and> (op = ''set_category'' \<or> op = ''set_tags'') then {#?h#} else {#})"
        "\<forall>op. noted_in (note_failure ''set_category'' ?h (SetCategory xw i [?h] ?c) st1) op = noted_in st1 op + Q op"
        using notes_note_failure by blast
      with False show ?thesis
        by (intro that [of Q] allI) (auto simp: st2_def dest!: spec split: if_splits)
    qed
    obtain Q2 where Q2: "\<forall>op. Q2 op \<subseteq># (if op = ''set_tags'' \<and> mi_Tags item \<noteq> [] then {#?h#} else {#})"
      "\<forall>op. noted_in st3 op = noted_in st2 op + Q2 op"
    proof (cases "mi_Tags item = []")
      case True
      then show ?thesis
        by (intro that [of "\<lambda>_. {#}"]) (simp_all add: st3_def)
    next
      case False
      obtain Q where Q: "\<forall>op. Q op \<subseteq># (if op = ''set_tags'' \<and> (op = ''set_category'' \<or> op = ''set_tags'') then {#?h#} else {#})"
        "\<forall>op. noted_in (note_failure ''set_tags'' ?h (SetTags xw i [?h] (join_with '','' (mi_Tags item))) st2) op = noted_in st2 op + Q op"
        using notes_note_failure by blast
      with False show ?thesis
        by (intro that [of Q] allI) (auto simp: st3_def dest!: spec split: if_splits)
    qed
    have "noted (a\<lparr>ra_TorrentsAdded := x\<rparr>) errs = noted a errs" for a x errs
      by (rule ext) (simp add: noted_def)
    then have "noted_in (addOne s xw i exclude opts item st) = noted_in st3"
      using False b c None unfolding st3_def st2_def by (simp add: addOne_def Let_def)
    moreover have "Q1 op + Q2 op \<subseteq># add_noted item op" for op
      using Q1(1) Q2(1) by (cases "op = ''set_category''"; cases "op = ''set_tags''") (auto simp: add_noted_def dest!: spec [of _ op] split: if_splits)
    ultimately show ?thesis
      using Q1(2) Q2(2) notes_call [OF c] by (intro exI [of _ "\<lambda>op. Q1 op + Q2 op"]) (simp add: ac_simps)
  qed
qed

definition asked :: "diff_change \<Rightarrow> bool" where
  "asked c \<longleftrightarrow> dc_Supported c \<and> (dc_Field c = ''category'' \<or> dc_Field c = ''tags'')"

lemma notes_applyChange:
  assumes "applyChange xw i h c (a, st) = (a', st')"
  shows "ra_TorrentsUpdated (ru_applied st') = ra_TorrentsUpdated (ru_applied st) \<and>
    (if asked c then \<exists>ok. a' = (a \<or> ok) \<and> (\<forall>op. noted_in st' op = noted_in st op + (if \<not> ok \<and> change_op c = op then {#h#} else {#}))
     else a' = a \<and> noted_in st' = noted_in st)"
proof (cases "asked c")
  case True
  define cl where "cl = (if dc_Field c = ''category'' then SetCategory xw i [h] (trim_space (asString (dc_Desired c)))
    else SetTags xw i [h] (join_with '','' (asStringSlice (dc_Desired c))))"
  have res: "applyChange xw i h c (a, st) =
      (case call cl st of (Some err, st) \<Rightarrow> (a, appendRestoreError (change_op c) h err st) | (None, st) \<Rightarrow> (True, st))"
    using True by (auto simp: applyChange_def asked_def change_op_def cl_def split: option.split prod.split)
  obtain r st1 where c: "call cl st = (r, st1)"
    by fastforce
  have same: "ru_applied st1 = ru_applied st"
    using c by (auto simp: call_def split: prod.splits)
  have "change_op c = ''set_category'' \<or> change_op c = ''set_tags''"
    by (simp add: change_op_def)
  then have err: "noted_in (appendRestoreError (change_op c) h e st1) op = noted_in st1 op + (if change_op c = op then {#h#} else {#})" for e op
    unfolding notes_error by auto
  show ?thesis
  proof (cases r)
    case None
    then have "a' = True" and "st' = st1"
      using assms res c by simp_all
    with True same notes_call [OF c] show ?thesis
      by (auto intro: exI [of _ True])
  next
    case (Some e)
    then have "a' = a" and st': "st' = appendRestoreError (change_op c) h e st1"
      using assms res c by simp_all
    moreover have "ra_TorrentsUpdated (ru_applied st') = ra_TorrentsUpdated (ru_applied st)"
      by (simp add: st' appendRestoreError_def same)
    moreover have "\<forall>op. noted_in st' op = noted_in st op + (if change_op c = op then {#h#} else {#})"
      unfolding st' err notes_call [OF c] by blast
    ultimately show ?thesis
      using True by (auto intro!: exI [of _ False])
  qed
qed (use assms in \<open>auto simp: applyChange_def asked_def Let_def split: if_splits\<close>)

lemma notes_changes:
  assumes "fold (applyChange xw i h) cs (a, st) = (a', st')"
  shows "ra_TorrentsUpdated (ru_applied st') = ra_TorrentsUpdated (ru_applied st) \<and>
    (\<exists>oks. length oks = length (filter asked cs) \<and> a' = (a \<or> True \<in> set oks) \<and>
       (\<forall>op. noted_in st' op = noted_in st op +
          mset (map (\<lambda>_. h) (filter (\<lambda>(c, ok). \<not> ok \<and> change_op c = op) (zip (filter asked cs) oks)))))"
  using assms
proof (induction cs arbitrary: a st)
  case (Cons c cs)
  obtain a1 st1 where c: "applyChange xw i h c (a, st) = (a1, st1)"
    by fastforce
  note one = notes_applyChange [OF c]
  have "fold (applyChange xw i h) cs (a1, st1) = (a', st')"
    using Cons.prems c by simp
  note rest = Cons.IH [OF this]
  obtain oks where oks: "length oks = length (filter asked cs)" "a' = (a1 \<or> True \<in> set oks)"
    "\<forall>op. noted_in st' op = noted_in st1 op +
       mset (map (\<lambda>_. h) (filter (\<lambda>(c, ok). \<not> ok \<and> change_op c = op) (zip (filter asked cs) oks)))"
    using rest by blast
  show ?case
  proof (cases "asked c")
    case True
    with one obtain ok where "a1 = (a \<or> ok)" "\<forall>op. noted_in st1 op = noted_in st op + (if \<not> ok \<and> change_op c = op then {#h#} else {#})"
      by auto
    with True one oks rest show ?thesis
      by (intro conjI exI [of _ "ok # oks"]) auto
  next
    case False
    with one oks rest show ?thesis
      by (intro conjI exI [of _ oks]) auto
  qed
qed (auto intro: exI [of _ "[]"])

lemma notes_updateOne:
  assumes "\<not> shouldSkipTorrent (tu_Hash u) exclude"
  shows "\<exists>oks. length oks = length (asked_changes u) \<and>
    (\<forall>op. noted_in (updateOne xw i exclude u st) op = noted_in st op + update_noted u oks op)"
proof -
  obtain a' st' where f: "fold (applyChange xw i (tu_Hash u)) (tu_Changes u) (False, st) = (a', st')"
    by fastforce
  have asked: "asked_changes u = filter asked (tu_Changes u)"
    by (simp add: asked_changes_def asked_def [abs_def])
  obtain oks where oks: "length oks = length (asked_changes u)" "a' = (True \<in> set oks)"
    "\<forall>op. noted_in st' op = noted_in st op +
       mset (map (\<lambda>_. tu_Hash u) (filter (\<lambda>(c, ok). \<not> ok \<and> change_op c = op) (zip (asked_changes u) oks)))"
    using notes_changes [OF f] asked by auto
  have "change_op c \<noteq> ''update_torrent''" for c
    by (simp add: change_op_def)
  then have "mset (map (\<lambda>_. tu_Hash u) (filter (\<lambda>(c, ok). \<not> ok \<and> change_op c = ''update_torrent'') (zip (asked_changes u) oks))) = {#}"
    by (simp add: case_prod_beta)
  then have st': "noted_in st' op = (if op = ''update_torrent'' then noted_in st op else noted_in st op +
      mset (map (\<lambda>_. tu_Hash u) (filter (\<lambda>(c, ok). \<not> ok \<and> change_op c = op) (zip (asked_changes u) oks))))" for op
    by (simp only: oks(3) add_0_right split: if_split) simp
  have "updateOne xw i exclude u st = (if a' then st'\<lparr>ru_applied := (ru_applied st')
      \<lparr>ra_TorrentsUpdated := ra_TorrentsUpdated (ru_applied st') @ [tu_Hash u]\<rparr>\<rparr> else st')"
    using assms f by (simp add: updateOne_def)
  then have "noted_in (updateOne xw i exclude u st) op = noted_in st' op + (if op = ''update_torrent'' \<and> a' then {#tu_Hash u#} else {#})" for op
    by (simp add: noted_def)
  then have "noted_in (updateOne xw i exclude u st) op = noted_in st op + update_noted u oks op" for op
    unfolding st' update_noted_def oks(2) [symmetric] by simp
  with oks(1) show ?thesis
    by blast
qed

lemma sum_list_subset: "list_all2 (\<lambda>x Q. \<forall>op. Q op \<subseteq># F x op) xs Qs \<Longrightarrow> (\<Sum>(x, Q) \<leftarrow> zip xs Qs. Q op) \<subseteq># (\<Sum>x \<leftarrow> xs. F x op)"
  by (induction rule: list_all2_induct) (auto intro: subset_mset.add_mono)

text \<open>What a run notes about updates and additions: part of what the additions can, and all that the updates it came to do.\<close>

definition updates_noted :: "restore_plan \<Rightarrow> restore_applied \<Rightarrow> restore_error list \<Rightarrow> bool \<Rightarrow> bool" where
  "updates_noted plan a errs complete \<longleftrightarrow>
     (\<exists>Q oks. (\<forall>op. Q op \<subseteq># (\<Sum>item \<leftarrow> xp_Add (rp_Torrents plan). add_noted item op)) \<and>
        length oks \<le> length (xp_Update (rp_Torrents plan)) \<and> (complete \<longrightarrow> length oks = length (xp_Update (rp_Torrents plan))) \<and>
        list_all2 (\<lambda>u l. length l = length (asked_changes u)) (take (length oks) (xp_Update (rp_Torrents plan))) oks \<and>
        (\<forall>op. noted a errs op = Q op + (\<Sum>(u, l) \<leftarrow> zip (xp_Update (rp_Torrents plan)) oks. update_noted u l op)))"

lemma updates_noted_weaken: "updates_noted plan a errs True \<Longrightarrow> updates_noted plan a errs complete"
  unfolding updates_noted_def by blast

lemma updates_noted_plan:
  assumes "PlanRestoreDiff srv run mode
      (if length (ro_ExcludeHashes opts) > 0 then Some (ro_ExcludeHashes opts) else None) = Inr plan"
    and out: "applyPlan s cw tw xw plan opts w = (e, st)"
  shows "updates_noted plan (ru_applied st) (ru_errors st) (e = None)"
proof -
  let ?st = "\<lparr>ru_world = w, ru_applied = no_applied, ru_errors = [], ru_warnings = [], ru_pendingResume = []\<rparr>"
  let ?ex = "buildHashSet (ro_ExcludeHashes opts)" and ?t = "rp_Torrents plan" and ?i = "rp_InstanceID plan"
  have zero: "noted_in ?st op = {#}" for op
    by (simp add: noted_def no_applied_def)
  have none: "updates_noted plan (ru_applied st) (ru_errors st) False" if "\<forall>op. noted_in st op = {#}" for st :: "'a run"
    unfolding updates_noted_def using that by (intro exI [of _ "\<lambda>_. {#}"] exI [of _ "[]"]) simp
  obtain e1 st1 where s1: "applyCategoryPlan (xs_ctx s) cw plan ?st = (e1, st1)"
    by fastforce
  obtain e2 st2 where s2: "applyTagPlan (xs_ctx s) tw plan st1 = (e2, st2)"
    by fastforce
  obtain e3 st3 where s3: "ctx_loop (xs_ctx s) (addOne s xw ?i ?ex opts) (xp_Add ?t) st2 = (e3, st3)"
    by fastforce
  obtain e4 st4 where s4: "ctx_loop (xs_ctx s) (updateOne xw ?i ?ex) (xp_Update ?t) st3 = (e4, st4)"
    by fastforce
  have n1: "noted_in st1 op = {#}" and n2: "noted_in st2 op = noted_in st1 op" for op
    using notes_applyCategoryPlan [of "xs_ctx s" cw plan ?st] notes_applyTagPlan [of "xs_ctx s" tw plan st1] s1 s2 zero by simp_all
  obtain Qs where Qs: "length Qs \<le> length (xp_Add ?t)" "list_all2 (\<lambda>x Q. \<forall>op. Q op \<subseteq># add_noted x op) (take (length Qs) (xp_Add ?t)) Qs"
      "\<forall>op. noted_in st3 op = noted_in st2 op + (\<Sum>(x, Q) \<leftarrow> zip (xp_Add ?t) Qs. Q op)"
    using notes_loop_sum [OF _ s3, of "\<lambda>x Q. \<forall>op. Q op \<subseteq># add_noted x op" "\<lambda>x Q. Q"] notes_addOne by blast
  define Q where "Q op = (\<Sum>(x, Q) \<leftarrow> zip (xp_Add ?t) Qs. Q op)" for op
  have Q: "Q op \<subseteq># (\<Sum>item \<leftarrow> xp_Add ?t. add_noted item op)" for op
  proof -
    have "zip (xp_Add ?t) Qs = zip (take (length Qs) (xp_Add ?t)) Qs"
      using take_zip [of "length Qs" "xp_Add ?t" Qs] by simp
    then have "Q op \<subseteq># (\<Sum>item \<leftarrow> take (length Qs) (xp_Add ?t). add_noted item op)"
      unfolding Q_def using sum_list_subset [OF Qs(2)] by simp
    also have "\<dots> \<subseteq># (\<Sum>item \<leftarrow> xp_Add ?t. add_noted item op)"
      using append_take_drop_id [of "length Qs" "xp_Add ?t"]
      by (metis map_append mset_subset_eq_add_left sum_list_append)
    finally show ?thesis .
  qed
  obtain oks where oks: "length oks \<le> length (xp_Update ?t)" "e4 = None \<longrightarrow> length oks = length (xp_Update ?t)"
      "list_all2 (\<lambda>u l. length l = length (asked_changes u)) (take (length oks) (xp_Update ?t)) oks"
      "\<forall>op. noted_in st4 op = noted_in st3 op + (\<Sum>(u, l) \<leftarrow> zip (xp_Update ?t) oks. update_noted u l op)"
    using notes_loop_sum [OF _ s4, of "\<lambda>u l. length l = length (asked_changes u)" update_noted]
      notes_updateOne plan_not_skipped(3) [OF assms(1)] by blast
  have n3: "noted_in st3 op = Q op" for op
    using Qs(3) n1 n2 by (simp add: Q_def)
  have after_adds: "updates_noted plan (ru_applied st3) (ru_errors st3) False"
    unfolding updates_noted_def using Q n3 by (intro exI [of _ Q] exI [of _ "[]"]) simp
  have updated: "updates_noted plan (ru_applied st) (ru_errors st) (e4 = None)" if "noted_in st = noted_in st4" for st :: "'a run"
    unfolding updates_noted_def using Q oks n3 that by (intro exI [of _ Q] exI [of _ oks]) simp
  define st5 where "st5 = (if length (ru_pendingResume st4) > 0
    then st4\<lparr>ru_world := ResumeWhenComplete xw ?i (ru_pendingResume st4) (ru_world st4)\<rparr> else st4)"
  have n5: "noted_in st5 = noted_in st4"
    by (simp add: st5_def)
  have "noted_in st = noted_in st4" if "e1 = None" "e2 = None" "e3 = None" "e4 = None"
  proof -
    have rest: "applyPlan s cw tw xw plan opts w = (if xp_Delete ?t = [] then (None, st5) else (case ctx_check (xs_ctx s) st5 of
          (Some e, st) \<Rightarrow> (Some e, st)
        | (None, st) \<Rightarrow>
            if filter (\<lambda>h. \<not> shouldSkipTorrent h ?ex) (xp_Delete ?t) = [] then (None, st)
            else batchRetry (xs_ctx s) ''delete_torrent'' (\<lambda>hs. BulkAction xw ?i hs ''delete'')
                   (\<lambda>ns a. a\<lparr>ra_TorrentsDeleted := ra_TorrentsDeleted a @ ns\<rparr>) (filter (\<lambda>h. \<not> shouldSkipTorrent h ?ex) (xp_Delete ?t)) st))"
      unfolding applyPlan_def applyTorrentPlan_def Let_def st5_def by (simp only: s1 s2 s3 s4 that prod.case option.case)
    have "noted_in (snd (e, st)) = noted_in st5"
      unfolding out [symmetric] rest by (intro notes_if notes_checked notes_batch unnoted_all)
    with n5 show ?thesis
      by simp
  qed
  then have full: ?thesis if "e1 = None" "e2 = None" "e3 = None" "e4 = None"
    using updated [of st] that by (auto intro: updates_noted_weaken)
  have "st = (if e1 \<noteq> None then st1 else if e2 \<noteq> None then st2 else if e3 \<noteq> None then st3 else st4)" "e \<noteq> None"
    if "\<not> (e1 = None \<and> e2 = None \<and> e3 = None \<and> e4 = None)"
    using out s1 s2 s3 s4 that by (auto simp: applyPlan_def applyTorrentPlan_def Let_def split: if_splits option.splits)
  moreover have "updates_noted plan (ru_applied st1) (ru_errors st1) False" "updates_noted plan (ru_applied st2) (ru_errors st2) False"
    "e4 \<noteq> None \<Longrightarrow> updates_noted plan (ru_applied st4) (ru_errors st4) False"
    using none [of st1] none [of st2] updated [of st4] n1 n2 by (cases e4; simp)+
  ultimately show ?thesis
    using full after_adds by (cases e; cases e1; cases e2; cases e3; cases e4) simp_all
qed

section \<open>What a run may touch\<close>

text \<open>
  An interface for reasoning about every call a run makes: a property \<open>P\<close> of the world that the
  calls keep, provided that the hashes they name are allowed.
\<close>

locale guarded_writers =
  fixes P :: "'w \<Rightarrow> bool"
    and allowed :: "string \<Rightarrow> bool"
    and payload_ok :: "string \<Rightarrow> bool"
    and ctx :: "'w effect"
    and cw :: "'w category_writer"
    and tw :: "'w tag_writer"
    and xw :: "'w torrent_writer"
  assumes ctx_keeps: "P w \<Longrightarrow> P (snd (ctx w))"
    and category_keeps: "P w \<Longrightarrow> P (snd (CreateCategory cw i n p w))"
      "P w \<Longrightarrow> P (snd (EditCategory cw i n p w))" "P w \<Longrightarrow> P (snd (RemoveCategories cw i ns w))"
    and tag_keeps: "P w \<Longrightarrow> P (snd (CreateTags tw i ns w))" "P w \<Longrightarrow> P (snd (DeleteTags tw i ns w))"
    and add_keeps: "P w \<Longrightarrow> payload_ok b \<Longrightarrow> P (snd (AddTorrent xw i b os w))"
    and hashes_keep: "P w \<Longrightarrow> \<forall>h \<in> set hs. allowed h \<Longrightarrow> P (snd (SetCategory xw i hs c w))"
      "P w \<Longrightarrow> \<forall>h \<in> set hs. allowed h \<Longrightarrow> P (snd (SetTags xw i hs c w))"
      "P w \<Longrightarrow> \<forall>h \<in> set hs. allowed h \<Longrightarrow> P (ResumeWhenComplete xw i hs w)"
      "P w \<Longrightarrow> \<forall>h \<in> set hs. allowed h \<Longrightarrow> P (snd (BulkAction xw i hs c w))"
begin

definition good :: "'w run \<Rightarrow> bool" where
  "good st \<longleftrightarrow> P (ru_world st) \<and> (\<forall>h \<in> set (ru_pendingResume st). allowed h)"

lemma good_call: "good st \<Longrightarrow> (\<And>w. P w \<Longrightarrow> P (snd (op w))) \<Longrightarrow> good (snd (call op st))"
  by (auto simp: good_def call_def split: prod.splits) (metis snd_conv)

lemma good_simps [simp]:
  "good (appendRestoreError o' n e st) = good st" "good (st\<lparr>ru_applied := a\<rparr>) = good st"
  "good (st\<lparr>ru_warnings := ws\<rparr>) = good st"
  by (simp_all add: good_def appendRestoreError_def)

lemma good_check: "good st \<Longrightarrow> good (snd (ctx_check ctx st))"
  using ctx_keeps [of "ru_world st"] by (auto simp: good_def ctx_check_def split: prod.splits)

lemma good_loop:
  "good st \<Longrightarrow> (\<And>x st. x \<in> set xs \<Longrightarrow> good st \<Longrightarrow> good (body x st)) \<Longrightarrow> good (snd (ctx_loop ctx body xs st))"
proof (induction xs arbitrary: st)
  case (Cons x xs)
  obtain r st1 where c: "ctx_check ctx st = (r, st1)"
    by fastforce
  then have "good st1"
    using good_check [OF Cons.prems(1)] by simp
  with Cons c show ?case
    by (auto split: option.splits)
qed simp

lemma good_attempt: "good st \<Longrightarrow> (\<And>w. P w \<Longrightarrow> P (snd (op w))) \<Longrightarrow> good (attempt o' op rep n st)"
  using good_call [of st op] by (auto simp: attempt_def split: prod.splits option.splits)

lemma good_note: "good st \<Longrightarrow> (\<And>w. P w \<Longrightarrow> P (snd (op w))) \<Longrightarrow> good (note_failure o' n op st)"
  using good_call [of st op] by (auto simp: note_failure_def split: prod.splits option.splits)

lemma good_batch:
  assumes "good st" and "\<And>w ns. set ns \<subseteq> set names \<Longrightarrow> P w \<Longrightarrow> P (snd (op ns w))"
  shows "good (snd (batchRetry ctx o' op rep names st))"
proof -
  obtain r st1 where c: "call (op names) st = (r, st1)"
    by fastforce
  then have "good st1"
    using good_call [OF assms(1), of "op names"] assms(2) [of names] by simp
  then have "good (snd (ctx_loop ctx (\<lambda>name. attempt o' (op [name]) rep name) names st1))"
    using assms(2) by (intro good_loop good_attempt) auto
  with c \<open>good st1\<close> show ?thesis
    by (auto simp: batchRetry_def split: option.splits)
qed

lemma good_bind:
  assumes "good (snd out)" and "\<And>st. good st \<Longrightarrow> good (snd (k st))"
  shows "good (snd (case out of (Some e, st) \<Rightarrow> (Some e, st) | (None, st) \<Rightarrow> k st))"
  using assms by (auto split: prod.splits option.splits)

lemma good_if: "good st \<Longrightarrow> (\<not> b \<Longrightarrow> good (snd out)) \<Longrightarrow> good (snd (if b then (None, st) else out))"
  by simp

lemma good_applyCategoryPlan: "good st \<Longrightarrow> good (snd (applyCategoryPlan ctx cw plan st))"
  unfolding applyCategoryPlan_def Let_def
  by (intro good_bind good_loop good_attempt good_if good_check good_batch category_keeps)

lemma good_applyTagPlan: "good st \<Longrightarrow> good (snd (applyTagPlan ctx tw plan st))"
  unfolding applyTagPlan_def Let_def
  by (intro good_bind good_loop good_attempt good_if good_check good_batch tag_keeps)

lemma good_addOne:
  assumes "good st" and "\<And>b. loadTorrentBlobData s (trim_space (mi_TorrentBlob item)) = Inr b \<Longrightarrow> payload_ok b"
    and "\<not> shouldSkipTorrent (mi_Hash item) exclude \<Longrightarrow> allowed (mi_Hash item)"
  shows "good (addOne s xw i exclude opts item st)"
proof (cases "shouldSkipTorrent (mi_Hash item) exclude \<or> trim_space (mi_TorrentBlob item) = []
    \<or> (\<exists>e. loadTorrentBlobData s (trim_space (mi_TorrentBlob item)) = Inl e)")
  case True
  with assms(1) show ?thesis
    by (auto simp: addOne_def Let_def)
next
  case False
  then obtain b where b: "loadTorrentBlobData s (trim_space (mi_TorrentBlob item)) = Inr b"
    by (meson sum.exhaust)
  have al: "\<forall>h \<in> set [mi_Hash item]. allowed h"
    using False assms(3) by simp
  obtain r st1 where c: "call (AddTorrent xw i b (addOptions opts item)) st = (r, st1)"
    by fastforce
  then have g: "good st1"
    using good_call [OF assms(1), of "AddTorrent xw i b (addOptions opts item)"] add_keeps assms(2) [OF b] by simp
  have cat: "good (note_failure o' n (SetCategory xw i [mi_Hash item] d) st2)" if "good st2" for o' n d st2
    using that al hashes_keep(1) by (intro good_note)
  have tags: "good (note_failure o' n (SetTags xw i [mi_Hash item] d) st2)" if "good st2" for o' n d st2
    using that al hashes_keep(2) by (intro good_note)
  have pend: "good (st2\<lparr>ru_applied := a, ru_pendingResume := ru_pendingResume st2 @ [mi_Hash item]\<rparr>)" if "good st2" for st2 a
    using that al by (auto simp: good_def)
  from False b c g show ?thesis
    by (cases r) (simp_all add: addOne_def Let_def cat tags pend)
qed

lemma good_applyChange:
  "good (snd acc) \<Longrightarrow> allowed h \<Longrightarrow> good (snd (applyChange xw i h c acc))"
  using good_call [of "snd acc" "SetCategory xw i [h] (trim_space (asString (dc_Desired c)))"]
    good_call [of "snd acc" "SetTags xw i [h] (join_with '','' (asStringSlice (dc_Desired c)))"]
    hashes_keep(1,2) [of _ "[h]"]
  by (cases acc) (auto simp: applyChange_def Let_def split: prod.splits option.splits)

lemma good_updateOne:
  assumes "good st" and "\<not> shouldSkipTorrent (tu_Hash u) exclude \<Longrightarrow> allowed (tu_Hash u)"
  shows "good (updateOne xw i exclude u st)"
proof (cases "shouldSkipTorrent (tu_Hash u) exclude")
  case False
  with assms(2) have al: "allowed (tu_Hash u)"
    by simp
  have "good (snd (fold (applyChange xw i (tu_Hash u)) cs acc))" if "good (snd acc)" for cs acc
    using that by (induction cs arbitrary: acc) (simp_all add: good_applyChange al)
  from this [of "(False, st)" "tu_Changes u"] assms(1) False show ?thesis
    by (auto simp: updateOne_def split: prod.splits)
qed (simp add: updateOne_def assms(1))

lemma good_applyTorrentPlan:
  assumes "good st" and "xs_ctx s = ctx"
    and add: "\<And>item b. item \<in> set (xp_Add (rp_Torrents plan)) \<Longrightarrow>
      loadTorrentBlobData s (trim_space (mi_TorrentBlob item)) = Inr b \<Longrightarrow> payload_ok b"
    and hashes: "\<And>h. h \<in> mi_Hash ` set (xp_Add (rp_Torrents plan)) \<union> tu_Hash ` set (xp_Update (rp_Torrents plan))
        \<union> set (xp_Delete (rp_Torrents plan)) \<Longrightarrow> \<not> shouldSkipTorrent h exclude \<Longrightarrow> allowed h"
  shows "good (snd (applyTorrentPlan s xw plan exclude opts st))"
proof -
  let ?ds = "filter (\<lambda>h. \<not> shouldSkipTorrent h exclude) (xp_Delete (rp_Torrents plan))"
  have adds: "good (snd (ctx_loop ctx (addOne s xw i exclude opts) (xp_Add (rp_Torrents plan)) st))" if "good st" for i st
    using that add hashes by (intro good_loop good_addOne) auto
  have upds: "good (snd (ctx_loop ctx (updateOne xw i exclude) (xp_Update (rp_Torrents plan)) st))" if "good st" for i st
    using that hashes by (intro good_loop good_updateOne) auto
  have resume: "good (if 0 < length (ru_pendingResume st)
        then st\<lparr>ru_world := ResumeWhenComplete xw i (ru_pendingResume st) (ru_world st)\<rparr> else st)" if "good st" for i st
    using that hashes_keep(3) by (auto simp: good_def)
  have dels: "good (snd (batchRetry ctx o' (\<lambda>hs. BulkAction xw i hs ''delete'') rep ?ds st))" if "good st" for i o' rep st
  proof (intro good_batch that hashes_keep(4) ballI)
    fix ns h
    assume "set ns \<subseteq> set ?ds" and "h \<in> set ns"
    then show "allowed h"
      using hashes by auto
  qed
  show ?thesis
    unfolding applyTorrentPlan_def Let_def assms(2)
    by (intro good_bind good_if good_check adds upds resume dels assms(1))
qed

lemma good_applyPlan:
  assumes "P w" and "xs_ctx s = ctx"
    and "\<And>item b. item \<in> set (xp_Add (rp_Torrents plan)) \<Longrightarrow>
      loadTorrentBlobData s (trim_space (mi_TorrentBlob item)) = Inr b \<Longrightarrow> payload_ok b"
    and "\<And>h. h \<in> mi_Hash ` set (xp_Add (rp_Torrents plan)) \<union> tu_Hash ` set (xp_Update (rp_Torrents plan))
        \<union> set (xp_Delete (rp_Torrents plan)) \<Longrightarrow> allowed h"
    and "applyPlan s cw tw xw plan opts w = (e, st)"
  shows "P (ru_world st)"
proof -
  have "good (snd (applyPlan s cw tw xw plan opts w))"
    unfolding applyPlan_def Let_def assms(2)
    by (intro good_bind good_applyCategoryPlan good_applyTagPlan good_applyTorrentPlan assms(2-4))
       (auto simp: good_def assms(1))
  with assms(5) show ?thesis
    by (simp add: good_def)
qed

end

text \<open>
  Writers that keep a log next to the world of other writers: the hashes named by each call on
  torrents and the payload of each added torrent.
\<close>

datatype touch = Touched "string list" | Added string

definition logged :: "touch list \<Rightarrow> 'w effect \<Rightarrow> ('w \<times> touch list) effect" where
  "logged t op = (\<lambda>(w, log). case op w of (e, w') \<Rightarrow> (e, (w', log @ t)))"

definition logged_category_writer :: "'w category_writer \<Rightarrow> ('w \<times> touch list) category_writer" where
  "logged_category_writer cw =
     \<lparr>CreateCategory = (\<lambda>i n p. logged [] (CreateCategory cw i n p)),
      EditCategory = (\<lambda>i n p. logged [] (EditCategory cw i n p)),
      RemoveCategories = (\<lambda>i ns. logged [] (RemoveCategories cw i ns))\<rparr>"

definition logged_tag_writer :: "'w tag_writer \<Rightarrow> ('w \<times> touch list) tag_writer" where
  "logged_tag_writer tw =
     \<lparr>CreateTags = (\<lambda>i ns. logged [] (CreateTags tw i ns)), DeleteTags = (\<lambda>i ns. logged [] (DeleteTags tw i ns))\<rparr>"

definition logged_torrent_writer :: "'w torrent_writer \<Rightarrow> ('w \<times> touch list) torrent_writer" where
  "logged_torrent_writer xw =
     \<lparr>AddTorrent = (\<lambda>i b os. logged [Added b] (AddTorrent xw i b os)),
      SetCategory = (\<lambda>i hs c. logged [Touched hs] (SetCategory xw i hs c)),
      SetTags = (\<lambda>i hs c. logged [Touched hs] (SetTags xw i hs c)),
      ResumeWhenComplete = (\<lambda>i hs (w, log). (ResumeWhenComplete xw i hs w, log @ [Touched hs])),
      BulkAction = (\<lambda>i hs a. logged [Touched hs] (BulkAction xw i hs a))\<rparr>"

definition logged_service :: "'w exec_service \<Rightarrow> ('w \<times> touch list) exec_service" where
  "logged_service s =
     \<lparr>xs_planner = xs_planner s, xs_categoryWriter = map_option logged_category_writer (xs_categoryWriter s),
      xs_tagWriter = map_option logged_tag_writer (xs_tagWriter s),
      xs_torrentWriter = map_option logged_torrent_writer (xs_torrentWriter s),
      xs_DataDir = xs_DataDir s, xs_cwd = xs_cwd s, xs_ReadFile = xs_ReadFile s, xs_ctx = logged [] (xs_ctx s)\<rparr>"

definition log_ok :: "(string \<Rightarrow> bool) \<Rightarrow> (string \<Rightarrow> bool) \<Rightarrow> 'w \<times> touch list \<Rightarrow> bool" where
  "log_ok allowed payload_ok wl \<longleftrightarrow>
     (\<forall>t \<in> set (snd wl). case t of Touched hs \<Rightarrow> \<forall>h \<in> set hs. allowed h | Added b \<Rightarrow> payload_ok b)"

lemma log_ok_logged:
  "log_ok allowed payload_ok wl \<Longrightarrow> log_ok allowed payload_ok ((), t) \<Longrightarrow> log_ok allowed payload_ok (snd (logged t op wl))"
  by (cases wl) (auto simp: log_ok_def logged_def split: prod.splits)

interpretation logged: guarded_writers "log_ok allowed payload_ok" allowed payload_ok "logged [] c"
  "logged_category_writer cw" "logged_tag_writer tw" "logged_torrent_writer xw"
  for allowed payload_ok c cw tw xw
  by unfold_locales
     (auto simp: logged_category_writer_def logged_tag_writer_def logged_torrent_writer_def
       intro!: log_ok_logged, auto simp: log_ok_def)

lemma loadTorrentBlobData_logged: "loadTorrentBlobData (logged_service s) p = loadTorrentBlobData s p"
proof -
  have "xs_DataDir (logged_service s) = xs_DataDir s" "xs_cwd (logged_service s) = xs_cwd s"
    "xs_ReadFile (logged_service s) = xs_ReadFile s"
    by (simp_all add: logged_service_def)
  then show ?thesis
    unfolding loadTorrentBlobData_def by (simp only:)
qed

section \<open>Properties of a restore run\<close>

text \<open>
  C6. Nothing is lost in a restore: when a run that was not a dry run returns without an error, every
  planned change of a category or tag, every planned addition and deletion of a torrent is either reported as applied or
  recorded in the errors, exactly once. A planned update of a torrent asks for one call for each of its supported changes (\<open>updates_noted\<close>): each
  fails with an error recorded for the torrent, once, or succeeds, and the update is reported, once, exactly when one of them
  succeeded; so an update can be reported and have an error too. Besides these, only the setting of the category and the tags of an added
  torrent is recorded as an error of that kind, at most once each. When the run is cancelled, what is reported or recorded is part
  of the plan, with no target counted more often than it was planned, and the updates that it came to are accounted for in the same way.
\<close>

theorem ExecuteRestore_accounts:
  assumes "ExecuteRestore so run mode opts w = (e, Some r, w')" and "\<not> ro_DryRun opts"
  shows "(\<forall>op. tally (rr_Applied r) (rr_Errors r) op \<subseteq># planned (rr_Plan r) op)
    \<and> (e = None \<longrightarrow> tally (rr_Applied r) (rr_Errors r) = planned (rr_Plan r))
    \<and> updates_noted (rr_Plan r) (rr_Applied r) (rr_Errors r) (e = None)"
  using assms
proof (cases rule: ExecuteRestore_run)
  case unavailable
  then show ?thesis
    unfolding updates_noted_def
    by (intro conjI exI [of _ "\<lambda>_. {#}"] exI [of _ "[]"]) (simp_all add: tally_def done_of_def no_applied_def noted_def)
next
  case (applied s cw tw xw st)
  have "tally no_applied [] = (\<lambda>_. {#})"
    by (auto simp: tally_def done_of_def no_applied_def)
  with stage_applyPlan [OF applied(5), of w s cw tw xw] updates_noted_plan [OF applied(5,6)] applied(6-10) show ?thesis
    by (auto simp: stage_def grows_def)
qed

text \<open>
  C7. A restore touches only what its plan names: whatever the writers do, every call on torrents made
  by \<open>ExecuteRestore\<close> names hashes of the returned plan, none of them excluded by the caller, and
  every payload it adds was read from the blob of a torrent that the plan adds.
\<close>

theorem ExecuteRestore_touches:
  assumes "ExecuteRestore (Some (logged_service s)) run mode opts (w, []) = (e, Some r, (w', log))"
  shows "log_ok
      (\<lambda>h. normalizeLowerTrim h \<notin> excluded (Some (ro_ExcludeHashes opts))
        \<and> h \<in> mi_Hash ` set (xp_Add (rp_Torrents (rr_Plan r))) \<union> tu_Hash ` set (xp_Update (rp_Torrents (rr_Plan r)))
            \<union> set (xp_Delete (rp_Torrents (rr_Plan r))))
      (\<lambda>b. \<exists>item \<in> set (xp_Add (rp_Torrents (rr_Plan r))).
         loadTorrentBlobData s (trim_space (mi_TorrentBlob item)) = Inr b)
      (w', log)"
    (is "log_ok ?allowed ?payload _")
proof (cases "ro_DryRun opts")
  case True
  with assms show ?thesis
    by (auto simp: ExecuteRestore_def Let_def log_ok_def split: sum.splits)
next
  case False
  from assms False show ?thesis
  proof (cases rule: ExecuteRestore_run)
    case unavailable
    then show ?thesis
      by (simp add: log_ok_def)
  next
    case (applied s' cw' tw' xw' st)
    then obtain cw tw xw where ws: "s' = logged_service s" "cw' = logged_category_writer cw"
      "tw' = logged_tag_writer tw" "xw' = logged_torrent_writer xw"
      by (auto simp: logged_service_def)
    note skip = plan_not_skipped [OF applied(5), unfolded shouldSkipTorrent_eq]
    have "log_ok ?allowed ?payload (ru_world st)"
    proof (rule logged.good_applyPlan)
      show "applyPlan (logged_service s) (logged_category_writer cw) (logged_tag_writer tw)
          (logged_torrent_writer xw) (rr_Plan r) opts (w, []) = (e, st)"
        using applied(6) ws by simp
      show "xs_ctx (logged_service s) = logged [] (xs_ctx s)"
        by (simp add: logged_service_def)
    qed (use skip in \<open>auto simp: log_ok_def loadTorrentBlobData_logged\<close>)
    with applied(7) show ?thesis
      by simp
  qed
qed

text \<open>
  A dry run changes nothing and returns the plan that \<open>PlanRestoreDiff\<close> computes for the same
  exclusions, with nothing reported as applied; a plan that cannot be made is returned as the error
  it is, whatever the options.
\<close>

theorem ExecuteRestore_dry_run:
  assumes "ro_DryRun opts"
  shows "ExecuteRestore so run mode opts w =
    (case PlanRestoreDiff (map_option xs_planner so) run mode (Some (ro_ExcludeHashes opts)) of
       Inl err \<Rightarrow> (Some err, None, w)
     | Inr plan \<Rightarrow> (None, Some \<lparr>rr_Mode = rp_Mode plan, rr_RunID = rp_RunID plan, rr_InstanceID = rp_InstanceID plan,
         rr_DryRun = True, rr_Plan = plan, rr_Applied = no_applied, rr_Warnings = [], rr_Errors = []\<rparr>, w))"
proof -
  have "PlanRestoreDiff so' run mode (Some []) = PlanRestoreDiff so' run mode None" for so'
  proof -
    have "applyRestorePlanOptions p (Some []) = applyRestorePlanOptions p None" for p
      by (simp add: applyRestorePlanOptions_def)
    then show ?thesis
      unfolding PlanRestoreDiff_def by (simp only:)
  qed
  with assms show ?thesis
    by (auto simp: ExecuteRestore_def Let_def split: sum.splits)
qed

text \<open>
  C9. A torrent blob is only ever read from below the configured data directory: whatever the
  recorded blob path is, the result of \<open>loadTorrentBlobData\<close> depends on the file system only at
  absolute, clean paths that are the data directory or lie below it, component by component.
\<close>

theorem loadTorrentBlobData_confined:
  assumes "xs_cwd s = Inr cwd" and "is_rooted cwd"
    and "\<And>p. clean_abs p \<Longrightarrow> below (path_abs cwd (trim_space (xs_DataDir s))) p \<Longrightarrow> xs_ReadFile s p = rd p"
  shows "loadTorrentBlobData s blob = loadTorrentBlobData (s\<lparr>xs_ReadFile := rd\<rparr>) blob"
proof -
  let ?base = "path_abs cwd (trim_space (xs_DataDir s))"
  have base: "path_Abs (xs_cwd s) (trim_space (xs_DataDir s)) = Inr ?base" "clean_abs ?base"
    using assms(1,2) clean_abs_path_abs by (simp_all add: path_Abs_def path_abs_def)
  have same: "resolveBlob (xs_cwd s) (xs_ReadFile s) ?base rel = resolveBlob (xs_cwd s) rd ?base rel" for rel
  proof -
    have "is_rooted (path_join [?base, rel])"
      using base(2) path_join_rooted [of ?base rel] path_comps_clean_rooted(3) by (simp add: clean_abs_def)
    then obtain q where ab: "path_Abs (xs_cwd s) (path_join [?base, rel]) = Inr q" and cl: "clean_abs q"
      by (simp add: path_Abs_def clean_abs_path_clean)
    show ?thesis
      using assms(3) [OF cl] prefix_below [OF cl, of ?base] by (auto simp: resolveBlob_def ab)
  qed
  have "xs_DataDir (s\<lparr>xs_ReadFile := rd\<rparr>) = xs_DataDir s" "xs_cwd (s\<lparr>xs_ReadFile := rd\<rparr>) = xs_cwd s"
    "xs_ReadFile (s\<lparr>xs_ReadFile := rd\<rparr>) = rd"
    by simp_all
  then show ?thesis
    unfolding loadTorrentBlobData_def by (simp only: Let_def base(1) sum.case same)
qed

section \<open>Concrete runs\<close>

text \<open>Writers that count their calls and fail on every third one.\<close>

definition demo_op :: "nat effect" where
  "demo_op n = (if n mod 3 = 2 then Some ''refused'' else None, n + 1)"

definition demo_exec_service :: "nat exec_service" where
  "demo_exec_service =
     \<lparr>xs_planner = demo_service,
      xs_categoryWriter = Some \<lparr>CreateCategory = (\<lambda>_ _ _. demo_op), EditCategory = (\<lambda>_ _ _. demo_op), RemoveCategories = (\<lambda>_ _. demo_op)\<rparr>,
      xs_tagWriter = Some \<lparr>CreateTags = (\<lambda>_ _. demo_op), DeleteTags = (\<lambda>_ _. demo_op)\<rparr>,
      xs_torrentWriter = Some \<lparr>AddTorrent = (\<lambda>_ _ _. demo_op), SetCategory = (\<lambda>_ _ _. demo_op), SetTags = (\<lambda>_ _ _. demo_op),
        ResumeWhenComplete = (\<lambda>_ _ n. n), BulkAction = (\<lambda>_ _ _. demo_op)\<rparr>,
      xs_DataDir = ''/d'', xs_cwd = Inr ''/'', xs_ReadFile = (\<lambda>p. if p = ''/d/b'' then Inr ''aa'' else Inl (ErrNotExist p)),
      xs_ctx = (\<lambda>n. (None, n))\<rparr>"

definition demo_options :: "bool \<Rightarrow> string list \<Rightarrow> restore_options" where
  "demo_options dry ex = \<lparr>ro_DryRun = dry, ro_StartPaused = False, ro_SkipHashCheck = True, ro_AutoResumeVerified = True,
     ro_ExcludeHashes = ex\<rparr>"

theorem ExecuteRestore_accounts_witness:
  "\<exists>r n. ExecuteRestore (Some demo_exec_service) 7 ''complete'' (demo_options False []) 0 = (None, Some r, n)
    \<and> rr_Errors r \<noteq> [] \<and> tally (rr_Applied r) (rr_Errors r) = planned (rr_Plan r)"
proof -
  let ?run = "ExecuteRestore (Some demo_exec_service) 7 ''complete'' (demo_options False []) 0"
  have "case ?run of (None, Some r, _) \<Rightarrow> rr_Errors r \<noteq> [] | _ \<Rightarrow> False"
    by code_simp
  then obtain r n where r: "?run = (None, Some r, n)" "rr_Errors r \<noteq> []"
    by (auto split: prod.splits option.splits)
  moreover have "\<not> ro_DryRun (demo_options False [])"
    by (simp add: demo_options_def)
  ultimately show ?thesis
    using ExecuteRestore_accounts [OF r(1)] by blast
qed

theorem ExecuteRestore_touches_witness:
  "\<exists>e r n log. ExecuteRestore (Some (logged_service demo_exec_service)) 7 ''complete'' (demo_options False [''BB'']) (0, []) = (e, Some r, (n, log))
    \<and> log \<noteq> [] \<and> (\<forall>t \<in> set log. case t of Touched hs \<Rightarrow> \<forall>h \<in> set hs. normalizeLowerTrim h \<noteq> ''bb'' | Added b \<Rightarrow> b = ''aa'')"
proof -
  let ?run = "ExecuteRestore (Some (logged_service demo_exec_service)) 7 ''complete'' (demo_options False [''BB'']) (0, [])"
  have "case ?run of (_, Some r, (_, log)) \<Rightarrow> log \<noteq> [] \<and> map mi_TorrentBlob (xp_Add (rp_Torrents (rr_Plan r))) = [''b''] | _ \<Rightarrow> False"
    by code_simp
  then obtain e r n log where run: "?run = (e, Some r, (n, log))" "log \<noteq> []"
    "map mi_TorrentBlob (xp_Add (rp_Torrents (rr_Plan r))) = [''b'']"
    by (auto split: prod.splits option.splits)
  have ex: "''bb'' \<in> excluded (Some (ro_ExcludeHashes (demo_options False [''BB''])))"
    unfolding set_excludeSet [symmetric] by code_simp
  have "loadTorrentBlobData demo_exec_service (trim_space ''b'') = Inr ''aa''"
    by code_simp
  with ExecuteRestore_touches [OF run(1)] run(3) ex
  have "\<forall>t \<in> set log. case t of Touched hs \<Rightarrow> \<forall>h \<in> set hs. normalizeLowerTrim h \<noteq> ''bb'' | Added b \<Rightarrow> b = ''aa''"
    by (auto simp: log_ok_def split: touch.splits) metis+
  with run show ?thesis
    by blast
qed

theorem ExecuteRestore_dry_run_witness:
  "\<exists>r. ExecuteRestore (Some demo_exec_service) 7 ''complete'' (demo_options True []) 5 = (None, Some r, 5) \<and> rr_Applied r = no_applied"
proof -
  have "case PlanRestoreDiff (map_option xs_planner (Some demo_exec_service)) 7 ''complete'' (Some (ro_ExcludeHashes (demo_options True [])))
      of Inl _ \<Rightarrow> False | Inr _ \<Rightarrow> True"
    by code_simp
  moreover have "ro_DryRun (demo_options True [])"
    by (simp add: demo_options_def)
  ultimately show ?thesis
    using ExecuteRestore_dry_run [of "demo_options True []" "Some demo_exec_service" 7 "''complete''" 5]
    by (auto split: sum.splits)
qed

theorem loadTorrentBlobData_confined_witness:
  "loadTorrentBlobData (demo_exec_service\<lparr>xs_ReadFile := (\<lambda>p. Inr p)\<rparr>) ''../../etc/passwd'' =
   loadTorrentBlobData (demo_exec_service\<lparr>xs_ReadFile := (\<lambda>p. if path_comps p = [] then Inl (ErrOther []) else Inr p)\<rparr>) ''../../etc/passwd''"
proof -
  let ?s = "demo_exec_service\<lparr>xs_ReadFile := (\<lambda>p. Inr p)\<rparr>"
  have cwd: "xs_cwd ?s = Inr ''/''" "is_rooted ''/''" and dir: "path_comps (path_abs ''/'' (trim_space (xs_DataDir ?s))) = [''d'']"
    by code_simp+
  let ?rd = "\<lambda>p. if path_comps p = [] then Inl (ErrOther []) else Inr p"
  have "xs_ReadFile ?s p = ?rd p" if "below (path_abs ''/'' (trim_space (xs_DataDir ?s))) p" for p
    using that dir by (auto simp: below_def)
  then have "loadTorrentBlobData ?s ''../../etc/passwd'' = loadTorrentBlobData (?s\<lparr>xs_ReadFile := ?rd\<rparr>) ''../../etc/passwd''"
    by (intro loadTorrentBlobData_confined [OF cwd])
  then show ?thesis
    by simp
qed

end
