(* ===== verification/Restore_Trace.thy ===== *)
theory Restore_Trace
  imports Restore_Execute
begin

text \<open>
  The calls a restore makes (\<open>src/internal/backups/restore_execute.go\<close>): writers that keep a record of every call and of whether it
  succeeded, next to the world of other writers, and what the record of a complete run looks like.
\<close>

section \<open>Writers that keep a record\<close>

datatype writer_call =
    CreatedCategory string string | EditedCategory string string | RemovedCategories "string list"
  | CreatedTags "string list" | DeletedTags "string list"
  | AddedTorrent string "(string, string) gomap" | CategorySet "string list" string | TagsSet "string list" string
  | ResumeAsked "string list" | BulkActed "string list" string

text \<open>An entry of the record: the instance, the call, and whether it succeeded.\<close>

type_synonym entry = "int \<times> writer_call \<times> bool"

definition recorded :: "int \<Rightarrow> writer_call \<Rightarrow> 'w effect \<Rightarrow> ('w \<times> entry list) effect" where
  "recorded i c op = (\<lambda>(w, log). case op w of (e, w') \<Rightarrow> (e, (w', log @ [(i, c, e = None)])))"

definition recording_category_writer :: "'w category_writer \<Rightarrow> ('w \<times> entry list) category_writer" where
  "recording_category_writer cw =
     \<lparr>CreateCategory = (\<lambda>i n p. recorded i (CreatedCategory n p) (CreateCategory cw i n p)),
      EditCategory = (\<lambda>i n p. recorded i (EditedCategory n p) (EditCategory cw i n p)),
      RemoveCategories = (\<lambda>i ns. recorded i (RemovedCategories ns) (RemoveCategories cw i ns))\<rparr>"

definition recording_tag_writer :: "'w tag_writer \<Rightarrow> ('w \<times> entry list) tag_writer" where
  "recording_tag_writer tw =
     \<lparr>CreateTags = (\<lambda>i ns. recorded i (CreatedTags ns) (CreateTags tw i ns)),
      DeleteTags = (\<lambda>i ns. recorded i (DeletedTags ns) (DeleteTags tw i ns))\<rparr>"

definition recording_torrent_writer :: "'w torrent_writer \<Rightarrow> ('w \<times> entry list) torrent_writer" where
  "recording_torrent_writer xw =
     \<lparr>AddTorrent = (\<lambda>i b os. recorded i (AddedTorrent b os) (AddTorrent xw i b os)),
      SetCategory = (\<lambda>i hs c. recorded i (CategorySet hs c) (SetCategory xw i hs c)),
      SetTags = (\<lambda>i hs t. recorded i (TagsSet hs t) (SetTags xw i hs t)),
      ResumeWhenComplete = (\<lambda>i hs (w, log). (ResumeWhenComplete xw i hs w, log @ [(i, ResumeAsked hs, True)])),
      BulkAction = (\<lambda>i hs a. recorded i (BulkActed hs a) (BulkAction xw i hs a))\<rparr>"

definition recording_service :: "'w exec_service \<Rightarrow> ('w \<times> entry list) exec_service" where
  "recording_service s =
     \<lparr>xs_planner = xs_planner s, xs_categoryWriter = map_option recording_category_writer (xs_categoryWriter s),
      xs_tagWriter = map_option recording_tag_writer (xs_tagWriter s),
      xs_torrentWriter = map_option recording_torrent_writer (xs_torrentWriter s),
      xs_DataDir = xs_DataDir s, xs_cwd = xs_cwd s, xs_ReadFile = xs_ReadFile s,
      xs_ctx = (\<lambda>(w, log). case xs_ctx s w of (e, w') \<Rightarrow> (e, (w', log)))\<rparr>"

lemma loadTorrentBlobData_recording: "loadTorrentBlobData (recording_service s) p = loadTorrentBlobData s p"
proof -
  have "xs_DataDir (recording_service s) = xs_DataDir s" "xs_cwd (recording_service s) = xs_cwd s"
    "xs_ReadFile (recording_service s) = xs_ReadFile s"
    by (simp_all add: recording_service_def)
  then show ?thesis
    unfolding loadTorrentBlobData_def by (simp only:)
qed

section \<open>What the record of a part looks like\<close>

text \<open>Each of the calls once, in order, whatever the answers.\<close>

definition tried_each :: "int \<Rightarrow> writer_call list \<Rightarrow> entry list \<Rightarrow> bool" where
  "tried_each i cs l \<longleftrightarrow> map (\<lambda>(i, c, ok). (i, c)) l = map (Pair i) cs"

fun succeeded :: "entry \<Rightarrow> bool" where
  "succeeded (i, c, ok) = ok"

definition accepted :: "string list \<Rightarrow> entry list \<Rightarrow> string list" where
  "accepted names l = map fst (filter (succeeded \<circ> snd) (zip names l))"

text \<open>One call for all names; only if it fails, one for each of them.\<close>

definition tried_batch :: "int \<Rightarrow> (string list \<Rightarrow> writer_call) \<Rightarrow> string list \<Rightarrow> entry list \<Rightarrow> bool" where
  "tried_batch i f names l \<longleftrightarrow>
     (if names = [] then l = []
      else l = [(i, f names, True)] \<or> (\<exists>l'. l = (i, f names, False) # l' \<and> tried_each i (map (\<lambda>n. f [n]) names) l'))"

definition batch_accepted :: "string list \<Rightarrow> entry list \<Rightarrow> string list" where
  "batch_accepted names l = (case l of [] \<Rightarrow> [] | e # l' \<Rightarrow> if succeeded e then names else accepted names l')"

text \<open>
  An addition: nothing if there is no blob to read; else one call with what was read, and, if that succeeds, the
  category and the tags.
\<close>

definition after_add :: "manifest_item \<Rightarrow> writer_call list" where
  "after_add item =
     (if normalizeCategory (mi_Category item) \<noteq> [] then [CategorySet [mi_Hash item] (normalizeCategory (mi_Category item))] else []) @
     (if mi_Tags item \<noteq> [] then [TagsSet [mi_Hash item] (join_with '','' (mi_Tags item))] else [])"

definition tried_add :: "'w exec_service \<Rightarrow> restore_options \<Rightarrow> int \<Rightarrow> manifest_item \<Rightarrow> entry list \<Rightarrow> bool" where
  "tried_add s opts i item l \<longleftrightarrow>
     (case (if trim_space (mi_TorrentBlob item) = [] then Inl [] else loadTorrentBlobData s (trim_space (mi_TorrentBlob item))) of
        Inl err \<Rightarrow> l = []
      | Inr payload \<Rightarrow>
          l = [(i, AddedTorrent payload (addOptions opts item), False)] \<or>
          (\<exists>l'. l = (i, AddedTorrent payload (addOptions opts item), True) # l' \<and> tried_each i (after_add item) l'))"

definition was_added :: "entry list \<Rightarrow> bool" where
  "was_added l \<longleftrightarrow> l \<noteq> [] \<and> succeeded (hd l)"

definition added_hashes :: "manifest_item list \<Rightarrow> entry list list \<Rightarrow> string list" where
  "added_hashes items ls = map (mi_Hash \<circ> fst) (filter (was_added \<circ> snd) (zip items ls))"

text \<open>An update: one call for each supported change of the category or the tags.\<close>

definition change_call :: "string \<Rightarrow> diff_change \<Rightarrow> writer_call" where
  "change_call h c =
     (if dc_Field c = ''category'' then CategorySet [h] (trim_space (asString (dc_Desired c)))
      else TagsSet [h] (join_with '','' (asStringSlice (dc_Desired c))))"

definition tried_update :: "int \<Rightarrow> torrent_update \<Rightarrow> entry list \<Rightarrow> bool" where
  "tried_update i u l \<longleftrightarrow> tried_each i (map (change_call (tu_Hash u)) (asked_changes u)) l"

definition updated_hashes :: "torrent_update list \<Rightarrow> entry list list \<Rightarrow> string list" where
  "updated_hashes us ls = map (tu_Hash \<circ> fst) (filter (list_ex succeeded \<circ> snd) (zip us ls))"

section \<open>Steps of a run\<close>

text \<open>What a step adds to the record, does to the report, and adds to the torrents to resume.\<close>

definition extends_with ::
  "('w \<times> entry list) run \<Rightarrow> entry list \<Rightarrow> (restore_applied \<Rightarrow> restore_applied) \<Rightarrow> string list \<Rightarrow> ('w \<times> entry list) run \<Rightarrow> bool" where
  "extends_with st l f ps st' \<longleftrightarrow> snd (ru_world st') = snd (ru_world st) @ l \<and> ru_applied st' = f (ru_applied st) \<and>
     ru_pendingResume st' = ru_pendingResume st @ ps"

abbreviation extends :: "('w \<times> entry list) run \<Rightarrow> entry list \<Rightarrow> (restore_applied \<Rightarrow> restore_applied) \<Rightarrow> ('w \<times> entry list) run \<Rightarrow> bool" where
  "extends st l f st' \<equiv> extends_with st l f [] st'"

lemma extends_trans:
  "extends_with st l f ps st1 \<Longrightarrow> extends_with st1 l' g qs st2 \<Longrightarrow> extends_with st (l @ l') (\<lambda>a. g (f a)) (ps @ qs) st2"
  by (simp add: extends_with_def)

lemma extends_call:
  assumes "call (recorded i c op) st = (e, st')"
  shows "extends st [(i, c, e = None)] (\<lambda>a. a) st'"
  using assms by (cases "ru_world st") (auto simp: call_def recorded_def extends_with_def split: prod.splits)

lemma extends_check:
  assumes "ctx_check (xs_ctx (recording_service s)) st = (e, st')"
  shows "extends st [] (\<lambda>a. a) st'"
  using assms by (cases "ru_world st") (auto simp: ctx_check_def recording_service_def extends_with_def split: prod.splits)

text \<open>Reports that add names at the end of a list.\<close>

definition appends :: "(string list \<Rightarrow> restore_applied \<Rightarrow> restore_applied) \<Rightarrow> bool" where
  "appends report \<longleftrightarrow> (\<forall>a. report [] a = a) \<and> (\<forall>ns ms a. report ns (report ms a) = report (ms @ ns) a)"

lemma extends_attempt:
  assumes "appends report"
  shows "\<exists>ok. extends st [(i, c, ok)] (report (if ok then [n] else [])) (attempt o' (recorded i c op) report n st)"
proof (cases "call (recorded i c op) st")
  case (Pair e st')
  have "attempt o' (recorded i c op) report n st = (case e of Some err \<Rightarrow> appendRestoreError o' n err st'
      | None \<Rightarrow> st'\<lparr>ru_applied := report [n] (ru_applied st')\<rparr>)"
    by (simp add: attempt_def Pair)
  then have "extends st' [] (report (if e = None then [n] else [])) (attempt o' (recorded i c op) report n st)"
    using assms by (cases e) (simp_all add: extends_with_def appendRestoreError_def appends_def)
  from extends_trans [OF extends_call [OF Pair] this] show ?thesis
    by (intro exI [of _ "e = None"]) simp
qed

text \<open>Loops: the body adds an entry list that fits the item.\<close>

lemma extends_loop:
  assumes "\<And>x st. x \<in> set xs \<Longrightarrow> \<exists>l. fits x l \<and> extends_with st l (f x l) (p x l) (body x st)"
    and "ctx_loop (xs_ctx (recording_service s)) body xs st = (None, st')"
  shows "\<exists>ls. list_all2 fits xs ls \<and>
    extends_with st (concat ls) (fold (\<lambda>(x, l). f x l) (zip xs ls)) (concat (map (\<lambda>(x, l). p x l) (zip xs ls))) st'"
  using assms
proof (induction xs arbitrary: st)
  case (Cons x xs)
  obtain st1 where c: "ctx_check (xs_ctx (recording_service s)) st = (None, st1)"
    and rest: "ctx_loop (xs_ctx (recording_service s)) body xs (body x st1) = (None, st')"
    using Cons.prems(2) by (auto split: prod.splits option.splits)
  obtain l where l: "fits x l" "extends_with st1 l (f x l) (p x l) (body x st1)"
    using Cons.prems(1) [of x st1] by auto
  from Cons.IH [OF Cons.prems(1) rest] obtain ls where
    ls: "list_all2 fits xs ls" "extends_with (body x st1) (concat ls) (fold (\<lambda>(x, l). f x l) (zip xs ls)) (concat (map (\<lambda>(x, l). p x l) (zip xs ls))) st'"
    by auto
  have "extends_with st (l @ concat ls) (\<lambda>a. fold (\<lambda>(x, l). f x l) (zip xs ls) (f x l a))
      (p x l @ concat (map (\<lambda>(x, l). p x l) (zip xs ls))) st'"
    using extends_trans [OF extends_check [OF c] extends_trans [OF l(2) ls(2)]] by simp
  with l(1) ls(1) show ?case
    by (intro exI [of _ "l # ls"]) (simp add: comp_def)
qed (auto simp: extends_with_def)

lemma no_pending: "concat (map (\<lambda>(x, l). []) ys) = []"
  by (induction ys) auto

lemma extends_attempts:
  assumes rep: "appends report" and loop: "ctx_loop (xs_ctx (recording_service s))
      (\<lambda>x. attempt o' (recorded i (c x) (op x)) report (key x)) xs st = (None, st')"
  shows "\<exists>l. tried_each i (map c xs) l \<and> extends st l (report (accepted (map key xs) l)) st'"
proof -
  obtain ls where ls: "list_all2 (\<lambda>x l. \<exists>ok. l = [(i, c x, ok)]) xs ls"
    "extends st (concat ls) (fold (\<lambda>(x, l). report (if list_ex succeeded l then [key x] else [])) (zip xs ls)) st'"
  proof -
    have "\<exists>l. (\<exists>ok. l = [(i, c x, ok)]) \<and> extends st l (report (if list_ex succeeded l then [key x] else []))
        (attempt o' (recorded i (c x) (op x)) report (key x) st)" for x st
    proof -
      obtain ok where "extends st [(i, c x, ok)] (report (if ok then [key x] else [])) (attempt o' (recorded i (c x) (op x)) report (key x) st)"
        using extends_attempt [OF rep] by blast
      then show ?thesis
        by (intro exI [of _ "[(i, c x, ok)]"]) simp
    qed
    from extends_loop [where f = "\<lambda>x l. report (if list_ex succeeded l then [key x] else [])" and p = "\<lambda>_ _. []", OF this loop] that
    show thesis
      by (auto simp: no_pending)
  qed
  have "tried_each i (map c xs) (concat ls) \<and>
      fold (\<lambda>(x, l). report (if list_ex succeeded l then [key x] else [])) (zip xs ls) a = report (accepted (map key xs) (concat ls)) a" for a
    using ls(1)
  proof (induction xs ls arbitrary: a rule: list_all2_induct)
    case Nil
    with rep show ?case
      by (simp add: tried_each_def accepted_def appends_def)
  next
    case (Cons x xs l ls)
    then obtain ok where "l = [(i, c x, ok)]"
      by blast
    with Cons.IH rep show ?case
      by (auto simp: tried_each_def accepted_def appends_def)
  qed
  with ls(2) show ?thesis
    by (intro exI [of _ "concat ls"]) (auto simp: extends_with_def)
qed

lemma extends_batch:
  assumes rep: "appends report"
    and out: "(if names = [] then (None, st)
      else (case ctx_check (xs_ctx (recording_service s)) st of (Some e, st) \<Rightarrow> (Some e, st)
        | (None, st) \<Rightarrow> batchRetry (xs_ctx (recording_service s)) o' (\<lambda>ns. recorded i (f ns) (op ns)) report names st)) = (None, st')"
  shows "\<exists>l. tried_batch i f names l \<and> extends st l (report (batch_accepted names l)) st'"
proof (cases "names = []")
  case True
  with out rep show ?thesis
    by (auto simp: tried_batch_def batch_accepted_def extends_with_def appends_def)
next
  case False
  obtain st1 where c: "ctx_check (xs_ctx (recording_service s)) st = (None, st1)"
    and b: "batchRetry (xs_ctx (recording_service s)) o' (\<lambda>ns. recorded i (f ns) (op ns)) report names st1 = (None, st')"
    using out False by (auto split: prod.splits option.splits)
  obtain e st2 where cl: "call (recorded i (f names) (op names)) st1 = (e, st2)"
    by fastforce
  have st2: "extends st [(i, f names, e = None)] (\<lambda>a. a) st2"
    using extends_trans [OF extends_check [OF c] extends_call [OF cl]] by simp
  show ?thesis
  proof (cases e)
    case None
    with b cl st2 False show ?thesis
      by (intro exI [of _ "[(i, f names, True)]"]) (auto simp: batchRetry_def tried_batch_def batch_accepted_def extends_with_def)
  next
    case (Some err)
    have "ctx_loop (xs_ctx (recording_service s)) (\<lambda>n. attempt o' (recorded i (f [n]) (op [n])) report n) names st2 = (None, st')"
      using b cl Some by (simp add: batchRetry_def)
    from extends_attempts [where c = "\<lambda>n. f [n]" and op = "\<lambda>n. op [n]" and key = "\<lambda>n. n", OF rep this] obtain l where
      "tried_each i (map (\<lambda>n. f [n]) names) l" "extends st2 l (report (accepted names l)) st'"
      by auto
    with False Some extends_trans [OF st2, of l] show ?thesis
      by (intro exI [of _ "(i, f names, False) # l"]) (auto simp: tried_batch_def batch_accepted_def)
  qed
qed

lemma appends_all:
  "appends (\<lambda>ns a. a\<lparr>ra_CategoriesCreated := ra_CategoriesCreated a @ ns\<rparr>)"
  "appends (\<lambda>ns a. a\<lparr>ra_CategoriesUpdated := ra_CategoriesUpdated a @ ns\<rparr>)"
  "appends (\<lambda>ns a. a\<lparr>ra_CategoriesDeleted := ra_CategoriesDeleted a @ ns\<rparr>)"
  "appends (\<lambda>ns a. a\<lparr>ra_TagsCreated := ra_TagsCreated a @ ns\<rparr>)"
  "appends (\<lambda>ns a. a\<lparr>ra_TagsDeleted := ra_TagsDeleted a @ ns\<rparr>)"
  "appends (\<lambda>ns a. a\<lparr>ra_TorrentsAdded := ra_TorrentsAdded a @ ns\<rparr>)"
  "appends (\<lambda>ns a. a\<lparr>ra_TorrentsUpdated := ra_TorrentsUpdated a @ ns\<rparr>)"
  "appends (\<lambda>ns a. a\<lparr>ra_TorrentsDeleted := ra_TorrentsDeleted a @ ns\<rparr>)"
  by (simp_all add: appends_def)

lemma recording_simps [simp]:
  "CreateCategory (recording_category_writer cw) i n p = recorded i (CreatedCategory n p) (CreateCategory cw i n p)"
  "EditCategory (recording_category_writer cw) i n p = recorded i (EditedCategory n p) (EditCategory cw i n p)"
  "RemoveCategories (recording_category_writer cw) i = (\<lambda>ns. recorded i (RemovedCategories ns) (RemoveCategories cw i ns))"
  "CreateTags (recording_tag_writer tw) i = (\<lambda>ns. recorded i (CreatedTags ns) (CreateTags tw i ns))"
  "DeleteTags (recording_tag_writer tw) i = (\<lambda>ns. recorded i (DeletedTags ns) (DeleteTags tw i ns))"
  "AddTorrent (recording_torrent_writer xw) i b os = recorded i (AddedTorrent b os) (AddTorrent xw i b os)"
  "SetCategory (recording_torrent_writer xw) i hs c = recorded i (CategorySet hs c) (SetCategory xw i hs c)"
  "SetTags (recording_torrent_writer xw) i hs c = recorded i (TagsSet hs c) (SetTags xw i hs c)"
  "BulkAction (recording_torrent_writer xw) i hs c = recorded i (BulkActed hs c) (BulkAction xw i hs c)"
  by (simp_all add: recording_category_writer_def recording_tag_writer_def recording_torrent_writer_def)

text \<open>The parts of a plan.\<close>

definition categories_traced :: "int \<Rightarrow> category_plan \<Rightarrow> entry list \<Rightarrow> entry list \<Rightarrow> entry list \<Rightarrow> bool" where
  "categories_traced i cats l1 l2 l3 \<longleftrightarrow>
     tried_each i (map (\<lambda>c. CreatedCategory (cs_Name c) (cs_SavePath c)) (cp_Create cats)) l1 \<and>
     tried_each i (map (\<lambda>u. EditedCategory (cu_Name u) (cu_DesiredPath u)) (cp_Update cats)) l2 \<and>
     tried_batch i RemovedCategories (cp_Delete cats) l3"

text \<open>Reasoning about what holds if a part completes.\<close>

definition completes :: "('w run \<Rightarrow> bool) \<Rightarrow> string option \<times> 'w run \<Rightarrow> bool" where
  "completes Q out \<longleftrightarrow> (\<forall>st'. out = (None, st') \<longrightarrow> Q st')"

lemma completes_bind:
  assumes "completes P out" and "\<And>st'. P st' \<Longrightarrow> completes Q (k st')"
  shows "completes Q (case out of (Some e, st') \<Rightarrow> (Some e, st') | (None, st') \<Rightarrow> k st')"
  using assms by (cases out) (auto simp: completes_def split: option.splits)

lemma completes_mono: "completes P out \<Longrightarrow> (\<And>st'. P st' \<Longrightarrow> Q st') \<Longrightarrow> completes Q out"
  by (simp add: completes_def)

lemma completes_attempts:
  "appends report \<Longrightarrow> completes (\<lambda>st'. \<exists>l. tried_each i (map c xs) l \<and> extends st l (report (accepted (map key xs) l)) st')
    (ctx_loop (xs_ctx (recording_service s)) (\<lambda>x. attempt o' (recorded i (c x) (op x)) report (key x)) xs st)"
  using extends_attempts unfolding completes_def by blast

lemma completes_batch:
  "appends report \<Longrightarrow> completes (\<lambda>st'. \<exists>l. tried_batch i f names l \<and> extends st l (report (batch_accepted names l)) st')
    (if names = [] then (None, st)
      else (case ctx_check (xs_ctx (recording_service s)) st of (Some e, st) \<Rightarrow> (Some e, st)
        | (None, st) \<Rightarrow> batchRetry (xs_ctx (recording_service s)) o' (\<lambda>ns. recorded i (f ns) (op ns)) report names st))"
  using extends_batch unfolding completes_def by blast

lemma applyCategoryPlan_traced:
  fixes plan defines "cats \<equiv> rp_Categories plan"
  shows "completes (\<lambda>st'. \<exists>l1 l2 l3. categories_traced (rp_InstanceID plan) cats l1 l2 l3 \<and>
      extends st (l1 @ l2 @ l3) (\<lambda>a. a\<lparr>ra_CategoriesCreated := ra_CategoriesCreated a @ accepted (map cs_Name (cp_Create cats)) l1,
        ra_CategoriesUpdated := ra_CategoriesUpdated a @ accepted (map cu_Name (cp_Update cats)) l2,
        ra_CategoriesDeleted := ra_CategoriesDeleted a @ batch_accepted (cp_Delete cats) l3\<rparr>) st')
    (applyCategoryPlan (xs_ctx (recording_service s)) (recording_category_writer cw) plan st)"
  unfolding applyCategoryPlan_def Let_def recording_simps cats_def
  apply (rule completes_bind [OF completes_attempts [OF appends_all(1)]], elim exE conjE)
  apply (rule completes_bind [OF completes_attempts [OF appends_all(2)]], elim exE conjE)
  apply (rule completes_mono [OF completes_batch [OF appends_all(3)]], elim exE conjE)
  subgoal for st1 l1 st2 l2 st3 l3
    using extends_trans [OF _ extends_trans, of st l1 _ _ st1 l2 _ _ st2 l3 _ _ st3]
    by (intro exI [of _ l1] exI [of _ l2] exI [of _ l3]) (simp add: categories_traced_def extends_with_def)
  done

lemma applyTagPlan_traced:
  fixes plan defines "tags \<equiv> rp_Tags plan"
  shows "completes (\<lambda>st'. \<exists>l1 l2. tried_batch (rp_InstanceID plan) CreatedTags (tp_Create tags) l1 \<and>
      tried_batch (rp_InstanceID plan) DeletedTags (tp_Delete tags) l2 \<and>
      extends st (l1 @ l2) (\<lambda>a. a\<lparr>ra_TagsCreated := ra_TagsCreated a @ batch_accepted (tp_Create tags) l1,
        ra_TagsDeleted := ra_TagsDeleted a @ batch_accepted (tp_Delete tags) l2\<rparr>) st')
    (applyTagPlan (xs_ctx (recording_service s)) (recording_tag_writer tw) plan st)"
  unfolding applyTagPlan_def Let_def recording_simps tags_def
  apply (rule completes_bind [OF completes_batch [OF appends_all(4)]], elim exE conjE)
  apply (rule completes_mono [OF completes_batch [OF appends_all(5)]], elim exE conjE)
  subgoal for st1 l1 st2 l2
    by (intro exI [of _ l1] exI [of _ l2]) (simp add: extends_with_def)
  done

section \<open>Torrents\<close>

lemma extends_note:
  "\<exists>ok. extends st [(i, c, ok)] (\<lambda>a. a) (note_failure o' n (recorded i c op) st)"
proof (cases "call (recorded i c op) st")
  case (Pair e st')
  have "extends st' [] (\<lambda>a. a) (note_failure o' n (recorded i c op) st)"
    by (cases e) (simp_all add: note_failure_def Pair extends_with_def appendRestoreError_def)
  from extends_trans [OF extends_call [OF Pair] this] show ?thesis
    by (intro exI [of _ "e = None"]) simp
qed

lemma addOne_traced:
  assumes "\<not> shouldSkipTorrent (mi_Hash item) exclude"
  shows "\<exists>l. tried_add s opts i item l \<and>
    extends_with st l (\<lambda>a. a\<lparr>ra_TorrentsAdded := ra_TorrentsAdded a @ (if was_added l then [mi_Hash item] else [])\<rparr>)
      (if was_added l \<and> ro_SkipHashCheck opts \<and> ro_AutoResumeVerified opts then [mi_Hash item] else [])
      (addOne (recording_service s) (recording_torrent_writer xw) i exclude opts item st)"
proof (cases "if trim_space (mi_TorrentBlob item) = [] then Inl [] else loadTorrentBlobData s (trim_space (mi_TorrentBlob item))")
  case (Inl e)
  with assms show ?thesis
    by (intro exI [of _ "[]"])
       (auto simp: addOne_def Let_def tried_add_def was_added_def extends_with_def appendRestoreError_def loadTorrentBlobData_recording
         split: if_splits)
next
  case (Inr b)
  let ?h = "mi_Hash item" and ?c = "normalizeCategory (mi_Category item)" and ?xw = "recording_torrent_writer xw"
  have blob: "trim_space (mi_TorrentBlob item) \<noteq> []" "loadTorrentBlobData (recording_service s) (trim_space (mi_TorrentBlob item)) = Inr b"
    using Inr by (simp_all add: loadTorrentBlobData_recording split: if_splits)
  obtain e st1 where c: "call (recorded i (AddedTorrent b (addOptions opts item)) (AddTorrent xw i b (addOptions opts item))) st = (e, st1)"
    by fastforce
  note st1 = extends_call [OF c]
  show ?thesis
  proof (cases e)
    case (Some err)
    with assms blob c st1 Inr show ?thesis
      by (intro exI [of _ "[(i, AddedTorrent b (addOptions opts item), False)]"])
         (simp add: addOne_def Let_def tried_add_def was_added_def extends_with_def appendRestoreError_def)
  next
    case None
    define st2 where "st2 = (if ?c \<noteq> [] then note_failure ''set_category'' ?h (SetCategory ?xw i [?h] ?c) st1 else st1)"
    define st3 where "st3 = (if length (mi_Tags item) > 0
      then note_failure ''set_tags'' ?h (SetTags ?xw i [?h] (join_with '','' (mi_Tags item))) st2 else st2)"
    have "\<exists>l. tried_each i (if ?c \<noteq> [] then [CategorySet [?h] ?c] else []) l \<and> extends st1 l (\<lambda>a. a) st2"
      using extends_note [of st1 i "CategorySet [?h] ?c" "''set_category''" ?h "SetCategory xw i [?h] ?c"]
      by (auto simp: st2_def tried_each_def extends_with_def)
    moreover have "\<exists>l. tried_each i (if mi_Tags item \<noteq> [] then [TagsSet [?h] (join_with '','' (mi_Tags item))] else []) l \<and> extends st2 l (\<lambda>a. a) st3"
      using extends_note [of st2 i "TagsSet [?h] (join_with '','' (mi_Tags item))" "''set_tags''" ?h "SetTags xw i [?h] (join_with '','' (mi_Tags item))"]
      by (auto simp: st3_def tried_each_def extends_with_def)
    ultimately obtain l where l: "tried_each i (after_add item) l" "extends st1 l (\<lambda>a. a) st3"
      using extends_trans by (force simp: after_add_def tried_each_def)
    have "addOne (recording_service s) ?xw i exclude opts item st =
        (let st = st3\<lparr>ru_applied := (ru_applied st3)\<lparr>ra_TorrentsAdded := ra_TorrentsAdded (ru_applied st3) @ [?h]\<rparr>\<rparr>
         in if ro_SkipHashCheck opts \<and> ro_AutoResumeVerified opts
            then st\<lparr>ru_pendingResume := ru_pendingResume st @ [?h]\<rparr> else st)"
      unfolding st3_def st2_def using assms blob c None by (simp add: addOne_def Let_def)
    with extends_trans [OF st1 l(2)] None Inr l(1) show ?thesis
      by (intro exI [of _ "(i, AddedTorrent b (addOptions opts item), True) # l"])
         (simp add: tried_add_def was_added_def extends_with_def Let_def)
  qed
qed

lemma applyChange_traced:
  assumes "applyChange (recording_torrent_writer xw) i h c (a, st) = (a', st')"
  shows "if asked c then \<exists>ok. a' = (a \<or> ok) \<and> extends st [(i, change_call h c, ok)] (\<lambda>a. a) st'
    else a' = a \<and> extends st [] (\<lambda>a. a) st'"
proof (cases "asked c")
  case True
  define op where "op = (if dc_Field c = ''category'' then SetCategory xw i [h] (trim_space (asString (dc_Desired c)))
    else SetTags xw i [h] (join_with '','' (asStringSlice (dc_Desired c))))"
  have res: "applyChange (recording_torrent_writer xw) i h c (a, st) =
      (case call (recorded i (change_call h c) op) st of (Some err, st) \<Rightarrow> (a, appendRestoreError (change_op c) h err st) | (None, st) \<Rightarrow> (True, st))"
    using True by (auto simp: applyChange_def asked_def change_op_def op_def change_call_def split: option.split prod.split)
  obtain e st1 where c: "call (recorded i (change_call h c) op) st = (e, st1)"
    by fastforce
  have "a' = (a \<or> e = None) \<and> extends st1 [] (\<lambda>a. a) st'"
    using assms res c by (cases e) (auto simp: extends_with_def appendRestoreError_def)
  with True extends_trans [OF extends_call [OF c], of "[]" "\<lambda>a. a" "[]" st'] show ?thesis
    by auto
qed (use assms in \<open>auto simp: applyChange_def asked_def Let_def extends_with_def split: if_splits\<close>)

lemma changes_traced:
  assumes "fold (applyChange (recording_torrent_writer xw) i h) cs (a, st) = (a', st')"
  shows "\<exists>l. tried_each i (map (change_call h) (filter asked cs)) l \<and> a' = (a \<or> list_ex succeeded l) \<and> extends st l (\<lambda>a. a) st'"
  using assms
proof (induction cs arbitrary: a st)
  case (Cons c cs)
  obtain a1 st1 where c: "applyChange (recording_torrent_writer xw) i h c (a, st) = (a1, st1)"
    by fastforce
  have "fold (applyChange (recording_torrent_writer xw) i h) cs (a1, st1) = (a', st')"
    using Cons.prems c by simp
  from Cons.IH [OF this] obtain l where
    l: "tried_each i (map (change_call h) (filter asked cs)) l" "a' = (a1 \<or> list_ex succeeded l)" "extends st1 l (\<lambda>a. a) st'"
    by blast
  show ?case
  proof (cases "asked c")
    case True
    then obtain ok where ok: "a1 = (a \<or> ok)" "extends st [(i, change_call h c, ok)] (\<lambda>a. a) st1"
      using applyChange_traced [OF c] by auto
    with True l extends_trans [OF ok(2) l(3)] show ?thesis
      by (intro exI [of _ "(i, change_call h c, ok) # l"]) (auto simp: tried_each_def)
  next
    case False
    then have skip: "a1 = a" "extends st [] (\<lambda>a. a) st1"
      using applyChange_traced [OF c] by simp_all
    have "extends st l (\<lambda>a. a) st'"
      using extends_trans [OF skip(2) l(3)] by simp
    with False skip(1) l(1,2) show ?thesis
      by (intro exI [of _ l]) simp
  qed
qed (auto simp: tried_each_def extends_with_def)

lemma updateOne_traced:
  assumes "\<not> shouldSkipTorrent (tu_Hash u) exclude"
  shows "\<exists>l. tried_update i u l \<and>
    extends st l (\<lambda>a. a\<lparr>ra_TorrentsUpdated := ra_TorrentsUpdated a @ (if list_ex succeeded l then [tu_Hash u] else [])\<rparr>)
      (updateOne (recording_torrent_writer xw) i exclude u st)"
proof -
  obtain a' st' where f: "fold (applyChange (recording_torrent_writer xw) i (tu_Hash u)) (tu_Changes u) (False, st) = (a', st')"
    by fastforce
  have "asked_changes u = filter asked (tu_Changes u)"
    by (simp add: asked_changes_def asked_def [abs_def])
  with changes_traced [OF f] obtain l where "tried_update i u l" "a' = list_ex succeeded l" "extends st l (\<lambda>a. a) st'"
    by (auto simp: tried_update_def)
  with assms f show ?thesis
    by (intro exI [of _ l]) (auto simp: updateOne_def extends_with_def)
qed

lemma completes_loop:
  assumes "\<And>x st. x \<in> set xs \<Longrightarrow> \<exists>l. fits x l \<and> extends_with st l (f x l) (p x l) (body x st)"
  shows "completes (\<lambda>st'. \<exists>ls. list_all2 fits xs ls \<and>
      extends_with st (concat ls) (fold (\<lambda>(x, l). f x l) (zip xs ls)) (concat (map (\<lambda>(x, l). p x l) (zip xs ls))) st')
    (ctx_loop (xs_ctx (recording_service s)) body xs st)"
  unfolding completes_def by (intro allI impI) (rule extends_loop [OF assms])

lemma added_fold:
  "fold (\<lambda>(x, l) a. a\<lparr>ra_TorrentsAdded := ra_TorrentsAdded a @ (if was_added l then [mi_Hash x] else [])\<rparr>) xls a =
    a\<lparr>ra_TorrentsAdded := ra_TorrentsAdded a @ map (mi_Hash \<circ> fst) (filter (was_added \<circ> snd) xls)\<rparr>"
  by (induction xls arbitrary: a) auto

lemma updated_fold:
  "fold (\<lambda>(u, l) a. a\<lparr>ra_TorrentsUpdated := ra_TorrentsUpdated a @ (if list_ex succeeded l then [tu_Hash u] else [])\<rparr>) uls a =
    a\<lparr>ra_TorrentsUpdated := ra_TorrentsUpdated a @ map (tu_Hash \<circ> fst) (filter (list_ex succeeded \<circ> snd) uls)\<rparr>"
  by (induction uls arbitrary: a) auto

lemma pending_concat:
  "concat (map (\<lambda>(x, l). if was_added l \<and> b then [mi_Hash x] else []) xls) =
    (if b then map (mi_Hash \<circ> fst) (filter (was_added \<circ> snd) xls) else [])"
  by (cases b; induction xls) (auto simp: comp_def)

definition resume_calls :: "restore_options \<Rightarrow> int \<Rightarrow> string list \<Rightarrow> entry list" where
  "resume_calls opts i hs =
     (if ro_SkipHashCheck opts \<and> ro_AutoResumeVerified opts \<and> hs \<noteq> [] then [(i, ResumeAsked hs, True)] else [])"

lemma torrents_end:
  assumes "length (ru_pendingResume st) > 0 \<Longrightarrow> l0 = [(i, ResumeAsked (ru_pendingResume st), True)]"
    and "length (ru_pendingResume st) = 0 \<Longrightarrow> l0 = []"
    and "filter (\<lambda>h. \<not> shouldSkipTorrent h exclude) ds = ds"
  shows "completes (\<lambda>st'. \<exists>l. tried_batch i (\<lambda>hs. BulkActed hs ''delete'') ds l \<and>
      extends st (l0 @ l) (\<lambda>a. a\<lparr>ra_TorrentsDeleted := ra_TorrentsDeleted a @ batch_accepted ds l\<rparr>) st')
    (if ds = [] then (None, if length (ru_pendingResume st) > 0
          then st\<lparr>ru_world := ResumeWhenComplete (recording_torrent_writer xw) i (ru_pendingResume st) (ru_world st)\<rparr> else st)
     else (case ctx_check (xs_ctx (recording_service s)) (if length (ru_pendingResume st) > 0
          then st\<lparr>ru_world := ResumeWhenComplete (recording_torrent_writer xw) i (ru_pendingResume st) (ru_world st)\<rparr> else st) of
         (Some e, st) \<Rightarrow> (Some e, st)
       | (None, st) \<Rightarrow> if filter (\<lambda>h. \<not> shouldSkipTorrent h exclude) ds = [] then (None, st)
           else batchRetry (xs_ctx (recording_service s)) ''delete_torrent''
             (\<lambda>hs. BulkAction (recording_torrent_writer xw) i hs ''delete'')
             (\<lambda>ns a. a\<lparr>ra_TorrentsDeleted := ra_TorrentsDeleted a @ ns\<rparr>) (filter (\<lambda>h. \<not> shouldSkipTorrent h exclude) ds) st))"
proof -
  define st0 where "st0 = (if length (ru_pendingResume st) > 0
    then st\<lparr>ru_world := ResumeWhenComplete (recording_torrent_writer xw) i (ru_pendingResume st) (ru_world st)\<rparr> else st)"
  have st0: "extends st l0 (\<lambda>a. a) st0"
    using assms(1,2) by (cases "ru_world st") (auto simp: st0_def extends_with_def recording_torrent_writer_def)
  have "completes (\<lambda>st'. \<exists>l. tried_batch i (\<lambda>hs. BulkActed hs ''delete'') ds l \<and>
      extends st0 l (\<lambda>a. a\<lparr>ra_TorrentsDeleted := ra_TorrentsDeleted a @ batch_accepted ds l\<rparr>) st')
    (if ds = [] then (None, st0)
     else (case ctx_check (xs_ctx (recording_service s)) st0 of
         (Some e, st) \<Rightarrow> (Some e, st)
       | (None, st) \<Rightarrow> batchRetry (xs_ctx (recording_service s)) ''delete_torrent''
           (\<lambda>hs. recorded i (BulkActed hs ''delete'') (BulkAction xw i hs ''delete''))
           (\<lambda>ns a. a\<lparr>ra_TorrentsDeleted := ra_TorrentsDeleted a @ ns\<rparr>) ds st))"
    by (rule completes_batch [OF appends_all(8)])
  then have "completes (\<lambda>st'. \<exists>l. tried_batch i (\<lambda>hs. BulkActed hs ''delete'') ds l \<and>
      extends st (l0 @ l) (\<lambda>a. a\<lparr>ra_TorrentsDeleted := ra_TorrentsDeleted a @ batch_accepted ds l\<rparr>) st')
    (if ds = [] then (None, st0)
     else (case ctx_check (xs_ctx (recording_service s)) st0 of
         (Some e, st) \<Rightarrow> (Some e, st)
       | (None, st) \<Rightarrow> batchRetry (xs_ctx (recording_service s)) ''delete_torrent''
           (\<lambda>hs. recorded i (BulkActed hs ''delete'') (BulkAction xw i hs ''delete''))
           (\<lambda>ns a. a\<lparr>ra_TorrentsDeleted := ra_TorrentsDeleted a @ ns\<rparr>) ds st))"
    by (rule completes_mono) (use extends_trans [OF st0] in fastforce)
  note both = this
  show ?thesis
  proof (cases "ds = []")
    case True
    with both show ?thesis
      unfolding assms(3) recording_simps st0_def [symmetric] by simp
  next
    case False
    from both show ?thesis
      unfolding assms(3) recording_simps st0_def [symmetric] if_not_P [OF False] .
  qed
qed

definition torrents_traced ::
  "'w exec_service \<Rightarrow> restore_options \<Rightarrow> int \<Rightarrow> torrent_plan \<Rightarrow> entry list list \<Rightarrow> entry list list \<Rightarrow> entry list \<Rightarrow> bool" where
  "torrents_traced s opts i t adds ups dels \<longleftrightarrow>
     list_all2 (tried_add s opts i) (xp_Add t) adds \<and> list_all2 (tried_update i) (xp_Update t) ups \<and>
     tried_batch i (\<lambda>hs. BulkActed hs ''delete'') (xp_Delete t) dels"

lemma applyTorrentPlan_traced:
  fixes plan defines "t \<equiv> rp_Torrents plan" and "i \<equiv> rp_InstanceID plan"
  assumes "\<And>x. x \<in> set (xp_Add t) \<Longrightarrow> \<not> shouldSkipTorrent (mi_Hash x) exclude"
    and "\<And>u. u \<in> set (xp_Update t) \<Longrightarrow> \<not> shouldSkipTorrent (tu_Hash u) exclude"
    and "\<And>h. h \<in> set (xp_Delete t) \<Longrightarrow> \<not> shouldSkipTorrent h exclude"
    and none: "ru_pendingResume st = []"
  shows "completes (\<lambda>st'. \<exists>adds ups dels. torrents_traced s opts i t adds ups dels \<and>
      snd (ru_world st') = snd (ru_world st) @ concat adds @ concat ups @ resume_calls opts i (added_hashes (xp_Add t) adds) @ dels \<and>
      ru_applied st' = (ru_applied st)\<lparr>ra_TorrentsAdded := ra_TorrentsAdded (ru_applied st) @ added_hashes (xp_Add t) adds,
        ra_TorrentsUpdated := ra_TorrentsUpdated (ru_applied st) @ updated_hashes (xp_Update t) ups,
        ra_TorrentsDeleted := ra_TorrentsDeleted (ru_applied st) @ batch_accepted (xp_Delete t) dels\<rparr>)
    (applyTorrentPlan (recording_service s) (recording_torrent_writer xw) plan exclude opts st)"
proof -
  have del: "filter (\<lambda>h. \<not> shouldSkipTorrent h exclude) (xp_Delete t) = xp_Delete t"
    using assms(5) by (auto simp: filter_id_conv)
  note adds = completes_loop [of "xp_Add t" "tried_add s opts i"
      "\<lambda>x l a. a\<lparr>ra_TorrentsAdded := ra_TorrentsAdded a @ (if was_added l then [mi_Hash x] else [])\<rparr>"
      "\<lambda>x l. if was_added l \<and> ro_SkipHashCheck opts \<and> ro_AutoResumeVerified opts then [mi_Hash x] else []"
      "addOne (recording_service s) (recording_torrent_writer xw) i exclude opts", OF addOne_traced [OF assms(3)],
      unfolded added_fold pending_concat, folded added_hashes_def]
  note ups = completes_loop [of "xp_Update t" "tried_update i"
      "\<lambda>u l a. a\<lparr>ra_TorrentsUpdated := ra_TorrentsUpdated a @ (if list_ex succeeded l then [tu_Hash u] else [])\<rparr>"
      "\<lambda>_ _. []" "updateOne (recording_torrent_writer xw) i exclude", OF updateOne_traced [OF assms(4)],
      unfolded updated_fold no_pending, folded updated_hashes_def]
  show ?thesis
    unfolding applyTorrentPlan_def Let_def t_def [symmetric] i_def [symmetric]
    apply (rule completes_bind [OF adds], assumption, elim exE conjE)
    apply (rule completes_bind [OF ups], assumption, elim exE conjE)
    subgoal for st1 as st2 us
      apply (rule completes_mono [OF torrents_end [of st2 "resume_calls opts i (added_hashes (xp_Add t) as)" i exclude "xp_Delete t", OF _ _ del]])
      subgoal
        using none by (auto simp: extends_with_def resume_calls_def split: if_splits)
      subgoal
        using none by (auto simp: extends_with_def resume_calls_def)
      subgoal for st3
        by (auto simp: extends_with_def torrents_traced_def added_fold updated_fold)
      done
    done
qed

section \<open>The calls of a run\<close>

text \<open>The record of a complete run, part by part, and the report that goes with it.\<close>

definition run_traced :: "'w exec_service \<Rightarrow> restore_options \<Rightarrow> restore_plan \<Rightarrow> entry list \<Rightarrow> restore_applied \<Rightarrow> bool" where
  "run_traced s opts plan log applied \<longleftrightarrow>
     (\<exists>creates edits removals tcreates tdeletes adds ups dels.
        log = creates @ edits @ removals @ tcreates @ tdeletes @ concat adds @ concat ups @
          resume_calls opts (rp_InstanceID plan) (added_hashes (xp_Add (rp_Torrents plan)) adds) @ dels \<and>
        categories_traced (rp_InstanceID plan) (rp_Categories plan) creates edits removals \<and>
        tried_batch (rp_InstanceID plan) CreatedTags (tp_Create (rp_Tags plan)) tcreates \<and>
        tried_batch (rp_InstanceID plan) DeletedTags (tp_Delete (rp_Tags plan)) tdeletes \<and>
        torrents_traced s opts (rp_InstanceID plan) (rp_Torrents plan) adds ups dels \<and>
        applied =
          \<lparr>ra_CategoriesCreated = accepted (map cs_Name (cp_Create (rp_Categories plan))) creates,
           ra_CategoriesUpdated = accepted (map cu_Name (cp_Update (rp_Categories plan))) edits,
           ra_CategoriesDeleted = batch_accepted (cp_Delete (rp_Categories plan)) removals,
           ra_TagsCreated = batch_accepted (tp_Create (rp_Tags plan)) tcreates,
           ra_TagsDeleted = batch_accepted (tp_Delete (rp_Tags plan)) tdeletes,
           ra_TorrentsAdded = added_hashes (xp_Add (rp_Torrents plan)) adds,
           ra_TorrentsUpdated = updated_hashes (xp_Update (rp_Torrents plan)) ups,
           ra_TorrentsDeleted = batch_accepted (xp_Delete (rp_Torrents plan)) dels\<rparr>)"

lemma applyPlan_traced:
  assumes plan: "PlanRestoreDiff srv run mode
      (if length (ro_ExcludeHashes opts) > 0 then Some (ro_ExcludeHashes opts) else None) = Inr plan"
  shows "completes (\<lambda>st'. run_traced s opts plan (snd (ru_world st')) (ru_applied st'))
    (applyPlan (recording_service s) (recording_category_writer cw) (recording_tag_writer tw) (recording_torrent_writer xw) plan opts (w, []))"
  unfolding applyPlan_def Let_def
  apply (rule completes_bind [OF applyCategoryPlan_traced], elim exE conjE)
  apply (rule completes_bind [OF applyTagPlan_traced], elim exE conjE)
  subgoal for st1 l1 l2 l3 st2 l4 l5
    apply (rule completes_mono [OF applyTorrentPlan_traced [where s = s]])
        apply (use plan_not_skipped [OF plan] in \<open>simp_all add: extends_with_def\<close>)
    apply (elim exE conjE)
    subgoal for st3 adds ups dels
      unfolding run_traced_def
      apply (rule exI [of _ l1], rule exI [of _ l2], rule exI [of _ l3], rule exI [of _ l4], rule exI [of _ l5],
          rule exI [of _ adds], rule exI [of _ ups], rule exI [of _ dels])
      apply (simp add: extends_with_def no_applied_def)
      done
    done
  done

text \<open>
  C10. A restore does what its plan says, and reports what was done: whatever the writers answer, a run that was not
  a dry run and returns without an error makes exactly the calls of its plan, in this order. It creates each category and edits each
  category, once; it removes the categories, creates the tags and deletes the tags with one call each, and only if such a call fails, with one for each
  name; it adds each torrent whose blob can be read, with what was read and the options of the run, and sets its category and its
  tags if the addition succeeded; it makes one call for each supported change of an update; it asks once to resume the torrents that were
  added, if the options say so; and it deletes the torrents last, in the same way as it removes the categories. Reported as applied are exactly the
  names and torrents whose call succeeded; of the updates, those with a call that did.
\<close>

theorem ExecuteRestore_calls:
  assumes "ExecuteRestore (Some (recording_service s)) run mode opts (w, []) = (None, Some r, (w', log))" and "\<not> ro_DryRun opts"
  shows "run_traced s opts (rr_Plan r) log (rr_Applied r)"
  using assms
proof (cases rule: ExecuteRestore_run)
  case (applied s' cw' tw' xw' st)
  then obtain cw tw xw where "s' = recording_service s" "cw' = recording_category_writer cw"
    "tw' = recording_tag_writer tw" "xw' = recording_torrent_writer xw"
    by (auto simp: recording_service_def)
  with applyPlan_traced [OF applied(5), of s cw tw xw w] applied(6-8) show ?thesis
    unfolding completes_def by (metis snd_conv)
qed simp

text \<open>Writers that fail on every third call.\<close>

theorem ExecuteRestore_calls_witness:
  "\<exists>r n log. ExecuteRestore (Some (recording_service demo_exec_service)) 7 ''complete'' (demo_options False []) (0, []) = (None, Some r, (n, log)) \<and>
     length log = 10 \<and> list_ex (\<lambda>e. \<not> succeeded e) log \<and> run_traced demo_exec_service (demo_options False []) (rr_Plan r) log (rr_Applied r)"
proof -
  let ?run = "ExecuteRestore (Some (recording_service demo_exec_service)) 7 ''complete'' (demo_options False []) (0, [])"
  have "case ?run of (None, Some r, (_, log)) \<Rightarrow> length log = 10 \<and> list_ex (\<lambda>e. \<not> succeeded e) log | _ \<Rightarrow> False"
    by code_simp
  then obtain r n log where run: "?run = (None, Some r, (n, log))" "length log = 10" "list_ex (\<lambda>e. \<not> succeeded e) log"
    by (auto split: prod.splits option.splits)
  moreover have "\<not> ro_DryRun (demo_options False [])"
    by (simp add: demo_options_def)
  ultimately show ?thesis
    using ExecuteRestore_calls [OF run(1)] by blast
qed

end
