(* ===== verification/Go_Number.thy ===== *)
theory Go_Number
  imports Go_Base
begin

text \<open>
  Numbers of the Go sources beyond integers: the rounding of integers to the 53 bits of a \<open>float64\<close>,
  \<open>float64\<close> values with the operations the code uses, and \<open>strconv.ParseInt\<close> and
  \<open>strconv.ParseFloat\<close>.
\<close>

section \<open>Rounding to 53 bits\<close>

function bitlen :: "int \<Rightarrow> nat" where
  "bitlen n = (if n \<le> 0 then 0 else Suc (bitlen (n div 2)))"
  by auto
termination
  by (relation "measure nat") auto

declare bitlen.simps [simp del]

definition round_half_even :: "int \<Rightarrow> nat \<Rightarrow> int" where
  "round_half_even n s =
     (let q = n div 2 ^ s; r = n mod 2 ^ s in
      if 2 * r > 2 ^ s \<or> (2 * r = 2 ^ s \<and> odd q) then q + 1 else q)"

definition round53 :: "int \<Rightarrow> int" where
  "round53 n = (if bitlen n \<le> 53 then n else round_half_even n (bitlen n - 53) * 2 ^ (bitlen n - 53))"

lemma bitlen_0 [simp]: "n \<le> 0 \<Longrightarrow> bitlen n = 0"
  by (simp add: bitlen.simps)

lemma bitlen_bounds: "n > 0 \<Longrightarrow> 2 ^ (bitlen n - 1) \<le> n \<and> n < 2 ^ bitlen n \<and> bitlen n > 0"
proof (induction n rule: bitlen.induct)
  case (1 n)
  show ?case
  proof (cases "n div 2 = 0")
    case True
    with 1(2) have "n = 1"
      by linarith
    then show ?thesis
      using bitlen.simps [of n] by simp
  next
    case False
    with 1 have IH: "2 ^ (bitlen (n div 2) - 1) \<le> n div 2" "n div 2 < 2 ^ bitlen (n div 2)" "bitlen (n div 2) > 0"
      by auto
    have b: "bitlen n = Suc (bitlen (n div 2))"
      using 1(2) by (simp add: bitlen.simps [of n])
    obtain k where k: "bitlen (n div 2) = Suc k"
      using IH(3) by (cases "bitlen (n div 2)") auto
    have "2 * 2 ^ k \<le> 2 * (n div 2)" "2 * (n div 2) \<le> n" "n < 2 * (n div 2) + 2"
      using IH(1) by (auto simp: k)
    with IH(2) show ?thesis
      by (simp add: b k)
  qed
qed

lemma bitlen_le_iff: "n > 0 \<Longrightarrow> bitlen n \<le> k \<longleftrightarrow> n < 2 ^ k"
proof
  assume n: "n > 0"
  show "n < 2 ^ k" if "bitlen n \<le> k"
    using bitlen_bounds [OF n] power_increasing [OF that, of "2::int"] by linarith
  show "bitlen n \<le> k" if "n < 2 ^ k"
  proof (rule ccontr)
    assume "\<not> bitlen n \<le> k"
    then have "(2::int) ^ k \<le> 2 ^ (bitlen n - 1)"
      by (intro power_increasing) auto
    with bitlen_bounds [OF n] that show False
      by linarith
  qed
qed

lemma round53_exact: "n < 2 ^ 53 \<Longrightarrow> round53 n = n"
  using bitlen_le_iff [of n 53] by (cases "n \<le> 0") (simp_all add: round53_def)

lemma round_half_even_bounds: "n div 2 ^ s \<le> round_half_even n s" "round_half_even n s \<le> n div 2 ^ s + 1"
  by (simp_all add: round_half_even_def Let_def)

lemma round_half_even_mono:
  assumes "n \<le> m"
  shows "round_half_even n s \<le> round_half_even m s"
proof (cases "n div 2 ^ s = m div 2 ^ s")
  case True
  then have "n mod 2 ^ s \<le> m mod 2 ^ s"
    using assms by (metis add_le_cancel_left mult_div_mod_eq)
  with True show ?thesis
    by (auto simp: round_half_even_def Let_def)
next
  case False
  have "n div 2 ^ s \<le> m div 2 ^ s"
    using assms by (intro zdiv_mono1) auto
  with False have "n div 2 ^ s + 1 \<le> m div 2 ^ s"
    by linarith
  then show ?thesis
    using round_half_even_bounds [of n s] round_half_even_bounds [of m s] by linarith
qed

text \<open>A rounded number stays between the powers of two around it.\<close>

lemma round53_range:
  assumes "n > 0"
  shows "2 ^ (bitlen n - 1) \<le> round53 n \<and> round53 n \<le> 2 ^ bitlen n"
proof (cases "bitlen n \<le> 53")
  case True
  with bitlen_bounds [OF assms] show ?thesis
    by (simp add: round53_def)
next
  case False
  define s where "s = bitlen n - 53"
  note b = bitlen_bounds [OF assms]
  from False have s: "bitlen n = 53 + s" "s > 0"
    by (simp_all add: s_def)
  have "2 ^ 52 * 2 ^ s \<le> n" "n < 2 ^ 53 * 2 ^ s"
    using b unfolding s(1) by (simp_all add: power_add)
  moreover have "n div 2 ^ s * 2 ^ s \<le> n" "n < (n div 2 ^ s + 1) * 2 ^ s"
  proof -
    have "(0::int) < 2 ^ s"
      by simp
    then have "0 \<le> n mod 2 ^ s" "n mod 2 ^ s < 2 ^ s"
      by (rule pos_mod_sign, rule pos_mod_bound)
    with div_mult_mod_eq [of n "2 ^ s"] show "n div 2 ^ s * 2 ^ s \<le> n" "n < (n div 2 ^ s + 1) * 2 ^ s"
      unfolding distrib_right by linarith+
  qed
  ultimately have "2 ^ 52 * 2 ^ s < (n div 2 ^ s + 1) * 2 ^ s" "n div 2 ^ s * 2 ^ s < 2 ^ 53 * 2 ^ s"
    by linarith+
  then have "2 ^ 52 \<le> n div 2 ^ s" "n div 2 ^ s < 2 ^ 53"
    by (simp_all only: mult_less_cancel_right_pos zero_less_power zero_less_numeral)
  then have "2 ^ 52 \<le> round_half_even n s" "round_half_even n s \<le> 2 ^ 53"
    using round_half_even_bounds [of n s] by linarith+
  then have "2 ^ 52 * 2 ^ s \<le> round_half_even n s * 2 ^ s" "round_half_even n s * 2 ^ s \<le> 2 ^ 53 * 2 ^ s"
    by simp_all
  moreover have "round53 n = round_half_even n s * 2 ^ s"
    using False by (simp add: round53_def s_def)
  ultimately show ?thesis
    using s by (simp add: power_add)
qed

lemma round53_nonneg: "0 \<le> n \<Longrightarrow> 0 \<le> round53 n"
proof (cases "n = 0")
  case False
  assume "0 \<le> n"
  with False have "2 ^ (bitlen n - 1) \<le> round53 n"
    using round53_range [of n] by simp
  then show ?thesis
    by (meson order_trans zero_le_numeral zero_le_power)
qed (simp add: round53_def)

lemma round53_mono:
  assumes "0 \<le> n" "n \<le> m"
  shows "round53 n \<le> round53 m"
proof (cases "n = 0 \<or> bitlen n = bitlen m")
  case True
  with assms show ?thesis
    using round_half_even_mono [OF assms(2)] round53_nonneg [of m] by (auto simp: round53_def)
next
  case False
  with assms have pos: "n > 0" "m > 0"
    by auto
  have "bitlen n \<le> bitlen m"
    using bitlen_le_iff [OF pos(1)] bitlen_bounds [OF pos(2)] assms by (meson le_less_trans)
  with False have "bitlen n \<le> bitlen m - 1"
    by linarith
  then have "(2::int) ^ bitlen n \<le> 2 ^ (bitlen m - 1)"
    by (rule power_increasing) simp
  with round53_range [OF pos(1)] round53_range [OF pos(2)] show ?thesis
    by linarith
qed

text \<open>Multiplying a representable number by a power of two is exact.\<close>

lemma bitlen_shift: "n > 0 \<Longrightarrow> bitlen (n * 2 ^ k) = bitlen n + k"
proof (induction k)
  case (Suc k)
  have "bitlen (n * 2 ^ Suc k) = Suc (bitlen (n * 2 ^ Suc k div 2))"
    using Suc.prems by (subst bitlen.simps) (simp add: mult_le_0_iff not_le)
  also have "n * 2 ^ Suc k div 2 = n * 2 ^ k"
    by simp
  finally show ?case
    using Suc by simp
qed simp

lemma round53_shift_small:
  assumes "0 \<le> n" "n < 2 ^ 53"
  shows "round53 (n * 2 ^ k) = n * 2 ^ k"
proof (cases "n = 0 \<or> bitlen (n * 2 ^ k) \<le> 53")
  case False
  with assms have n: "n > 0"
    by simp
  define s where "s = bitlen (n * 2 ^ k) - 53"
  have "bitlen n \<le> 53"
    using bitlen_le_iff [OF n] assms by blast
  then have "s \<le> k"
    using bitlen_shift [OF n, of k] by (simp add: s_def)
  then have d: "n * 2 ^ k = n * 2 ^ (k - s) * 2 ^ s"
    by (simp add: power_add [symmetric] mult.assoc)
  have half: "round_half_even (n * 2 ^ k) s = n * 2 ^ (k - s)"
    unfolding d by (simp add: round_half_even_def)
  have "round53 (n * 2 ^ k) = round_half_even (n * 2 ^ k) s * 2 ^ s"
    using False by (simp add: round53_def s_def)
  also have "\<dots> = n * 2 ^ k"
    by (simp only: half d [symmetric])
  finally show ?thesis .
qed (auto simp: round53_def)

section \<open>Values of float64\<close>

text \<open>
  Every finite \<open>float64\<close> is an integer multiple of \<open>2 ^ -1074\<close>; \<open>Fl n\<close> is \<open>n\<close> times that. The two
  zeros are one value here: the code compares, adds, multiplies, and divides by non-zero numbers,
  which does not tell them apart.
\<close>

datatype float64 = Fl int | PosInf | NegInf | NaN

text \<open>The quotient of two integers, rounded to the nearest representable value, ties to even.\<close>

definition round_ratio :: "int \<Rightarrow> int \<Rightarrow> int" where
  "round_ratio n d =
     (let s = bitlen (n div d) - 53; e = d * 2 ^ s; q = n div e; r = n mod e
      in (if 2 * r > e \<or> (2 * r = e \<and> odd q) then q + 1 else q) * 2 ^ s)"

definition fl_of_ratio :: "int \<Rightarrow> int \<Rightarrow> float64" where
  "fl_of_ratio p q =
     (let v = round_ratio (\<bar>p\<bar> * 2 ^ 1074) \<bar>q\<bar> in
      if v \<ge> 2 ^ 2098 then (if sgn p * sgn q > 0 then PosInf else NegInf) else Fl (sgn p * sgn q * v))"

definition fl_of_int :: "int \<Rightarrow> float64" where
  "fl_of_int i = fl_of_ratio i 1"

fun fl_eq :: "float64 \<Rightarrow> float64 \<Rightarrow> bool" where
  "fl_eq NaN _ = False"
| "fl_eq _ NaN = False"
| "fl_eq a b = (a = b)"

fun fl_less :: "float64 \<Rightarrow> float64 \<Rightarrow> bool" where
  "fl_less (Fl a) (Fl b) = (a < b)"
| "fl_less (Fl _) PosInf = True"
| "fl_less NegInf (Fl _) = True"
| "fl_less NegInf PosInf = True"
| "fl_less _ _ = False"

definition fl_le :: "float64 \<Rightarrow> float64 \<Rightarrow> bool" where
  "fl_le a b \<longleftrightarrow> fl_less a b \<or> fl_eq a b"

fun fl_add :: "float64 \<Rightarrow> float64 \<Rightarrow> float64" where
  "fl_add (Fl a) (Fl b) = fl_of_ratio (a + b) (2 ^ 1074)"
| "fl_add NaN _ = NaN"
| "fl_add _ NaN = NaN"
| "fl_add PosInf NegInf = NaN"
| "fl_add NegInf PosInf = NaN"
| "fl_add PosInf _ = PosInf"
| "fl_add _ PosInf = PosInf"
| "fl_add NegInf _ = NegInf"
| "fl_add _ NegInf = NegInf"

definition fl_sign :: "float64 \<Rightarrow> int" where
  "fl_sign a = (case a of Fl n \<Rightarrow> sgn n | PosInf \<Rightarrow> 1 | NegInf \<Rightarrow> - 1 | NaN \<Rightarrow> 0)"

definition fl_mult :: "float64 \<Rightarrow> float64 \<Rightarrow> float64" where
  "fl_mult a b =
     (case (a, b) of
        (Fl m, Fl n) \<Rightarrow> fl_of_ratio (m * n) (2 ^ 2148)
      | _ \<Rightarrow> (let s = fl_sign a * fl_sign b in if s > 0 then PosInf else if s < 0 then NegInf else NaN))"

text \<open>Division by a finite number other than zero.\<close>

definition fl_div :: "float64 \<Rightarrow> int \<Rightarrow> float64" where
  "fl_div a n =
     (case a of Fl m \<Rightarrow> fl_of_ratio m (n * 2 ^ 1074)
      | NaN \<Rightarrow> NaN
      | PosInf \<Rightarrow> if n > 0 then PosInf else NegInf
      | NegInf \<Rightarrow> if n > 0 then NegInf else PosInf)"

text \<open>Comparison of numbers that are not \<open>NaN\<close> is a linear order.\<close>

lemma fl_less_irrefl [simp]: "\<not> fl_less a a"
  by (cases a) auto

lemma fl_less_trans: "fl_less a b \<Longrightarrow> fl_less b c \<Longrightarrow> fl_less a c"
  by (cases a; cases b; cases c) auto

lemma fl_less_asym: "fl_less a b \<Longrightarrow> \<not> fl_less b a"
  by (cases a; cases b) auto

lemma fl_less_total: "a \<noteq> NaN \<Longrightarrow> b \<noteq> NaN \<Longrightarrow> \<not> fl_eq a b \<Longrightarrow> fl_less a b \<or> fl_less b a"
  by (cases a; cases b) auto

lemma fl_eq_iff: "fl_eq a b \<longleftrightarrow> a = b \<and> a \<noteq> NaN"
  by (cases a; cases b) auto

lemma fl_less_NaN [simp]: "\<not> fl_less NaN a" "\<not> fl_less a NaN"
  by (cases a; simp)+

section \<open>Parsing\<close>

definition is_digit :: "char \<Rightarrow> bool" where
  "is_digit c \<longleftrightarrow> 48 \<le> (of_char c :: nat) \<and> (of_char c :: nat) \<le> 57"

definition digit_val :: "char \<Rightarrow> int" where
  "digit_val c = of_char c - 48"

definition digits_val :: "string \<Rightarrow> int" where
  "digits_val s = foldl (\<lambda>n c. 10 * n + digit_val c) 0 s"

definition split_sign :: "string \<Rightarrow> int \<times> string" where
  "split_sign s = (case s of [] \<Rightarrow> (1, [])
     | c # cs \<Rightarrow> if c = CHR ''-'' then (- 1, cs) else if c = CHR ''+'' then (1, cs) else (1, s))"

text \<open>\<open>strconv.ParseInt(s, 10, 64)\<close>; \<open>None\<close> is an error of syntax or range.\<close>

definition ParseInt :: "string \<Rightarrow> int option" where
  "ParseInt s =
     (case split_sign s of (sg, ds) \<Rightarrow>
        if ds \<noteq> [] \<and> list_all is_digit ds \<and> int64 (sg * digits_val ds) then Some (sg * digits_val ds) else None)"

text \<open>
  \<open>strconv.ParseFloat(s, 64)\<close>, for decimal and hexadecimal literals with underscores, infinities and \<open>NaN\<close>.
  \<open>scan_mantissa\<close> returns the mantissa, the number of digits after the point, whether it saw a
  digit, whether it saw an underscore, and the rest.
\<close>

definition hex_val :: "char \<Rightarrow> int option" where
  "hex_val c =
     (let l = lower_char c in
      if is_digit c then Some (digit_val c)
      else if 97 \<le> (of_char l :: nat) \<and> (of_char l :: nat) \<le> 102 then Some (of_char l - 87) else None)"

fun scan_mantissa :: "bool \<Rightarrow> bool \<Rightarrow> int \<times> nat \<times> bool \<times> bool \<Rightarrow> string \<Rightarrow> (int \<times> nat \<times> bool \<times> bool) \<times> string" where
  "scan_mantissa hex dot acc [] = (acc, [])"
| "scan_mantissa hex dot acc (c # cs) =
     (case acc of (m, frac, digs, us) \<Rightarrow>
        if c = CHR ''_'' then scan_mantissa hex dot (m, frac, digs, True) cs
        else if c = CHR ''.'' then (if dot then (acc, c # cs) else scan_mantissa hex True acc cs)
        else (case (if hex then hex_val c else if is_digit c then Some (digit_val c) else None) of
            Some d \<Rightarrow> scan_mantissa hex dot ((if hex then 16 else 10) * m + d, if dot then frac + 1 else frac, True, us) cs
          | None \<Rightarrow> (acc, c # cs)))"

fun scan_exponent :: "nat \<times> bool \<Rightarrow> string \<Rightarrow> (nat \<times> bool) \<times> string" where
  "scan_exponent acc [] = (acc, [])"
| "scan_exponent (e, us) (c # cs) =
     (if c = CHR ''_'' then scan_exponent (e, True) cs
      else if is_digit c then scan_exponent (if e < 10000 then 10 * e + nat (digit_val c) else e, us) cs
      else ((e, us), c # cs))"

text \<open>The last character seen: \<open>0\<close> a digit or base prefix, \<open>1\<close> an underscore, \<open>2\<close> another or none.\<close>

fun underscore_ok :: "bool \<Rightarrow> nat \<Rightarrow> string \<Rightarrow> bool" where
  "underscore_ok hex l [] = (l \<noteq> 1)"
| "underscore_ok hex l (c # cs) =
     (if is_digit c \<or> (hex \<and> hex_val c \<noteq> None) then underscore_ok hex 0 cs
      else if c = CHR ''_'' then l = 0 \<and> underscore_ok hex 1 cs
      else l \<noteq> 1 \<and> underscore_ok hex 2 cs)"

definition special_float :: "string \<Rightarrow> float64 option" where
  "special_float s =
     (case split_sign s of (sg, rest) \<Rightarrow>
        if to_lower rest = ''inf'' \<or> to_lower rest = ''infinity'' then Some (if sg > 0 then PosInf else NegInf)
        else if to_lower s = ''nan'' then Some NaN else None)"

definition ParseFloat :: "string \<Rightarrow> float64 option" where
  "ParseFloat s =
     (case special_float s of Some v \<Rightarrow> Some v | None \<Rightarrow>
      (case split_sign s of (sg, body) \<Rightarrow>
        let hex = (length body > 2 \<and> take 1 body = ''0'' \<and> to_lower (take 1 (drop 1 body)) = ''x'');
            digits = (if hex then drop 2 body else body)
        in case scan_mantissa hex False (0, 0, False, False) digits of ((m, frac, digs, us), rest) \<Rightarrow>
          let marked = (rest \<noteq> [] \<and> lower_char (hd rest) = (if hex then CHR ''p'' else CHR ''e''));
              (esg, ebody) = split_sign (tl rest);
              ((e, us), rest') = (if marked then scan_exponent (0, us) ebody else ((0, us), rest));
              x = esg * int e - (if hex then 4 * int frac else int frac);
              base = (if hex then 2 else 10);
              v = (if x \<ge> 0 then fl_of_ratio (sg * m * base ^ nat x) 1 else fl_of_ratio (sg * m) (base ^ nat (- x)))
          in if digs \<and> (marked \<longrightarrow> ebody \<noteq> [] \<and> is_digit (hd ebody)) \<and> (hex \<longrightarrow> marked) \<and> rest' = []
                \<and> (us \<longrightarrow> underscore_ok hex (if hex then 0 else 2) digits) \<and> v \<noteq> PosInf \<and> v \<noteq> NegInf
             then Some v else None))"

lemma ParseInt_range: "ParseInt s = Some n \<Longrightarrow> int64 n"
  by (auto simp: ParseInt_def split: prod.splits if_splits)

end
