(* ===== verification/Rate_Limiter.thy ===== *)
theory Rate_Limiter
  imports Go_Number
begin

text \<open>
  The rate limiter of the search scheduler (\<open>src/internal/services/jackett/scheduler.go\<close>, first
  part): per-indexer timing, cooldowns with escalation, and the wait it computes. Times are
  nanoseconds since the limiter was made (\<open>time.Since(r.startTime)\<close>), \<open>int64\<close> as in Go; the
  current time is an argument. The map of states has its entries made on first use, as in
  \<open>getStateLocked\<close>, and every operation returns the limiter with that entry in place.
\<close>

section \<open>Priorities and options\<close>

definition RateLimitPriorityInteractive :: string where "RateLimitPriorityInteractive = ''interactive''"
definition RateLimitPriorityRSS :: string where "RateLimitPriorityRSS = ''rss''"
definition RateLimitPriorityCompletion :: string where "RateLimitPriorityCompletion = ''completion''"
definition RateLimitPriorityBackground :: string where "RateLimitPriorityBackground = ''background''"

lemmas rate_priority_defs = RateLimitPriorityInteractive_def RateLimitPriorityRSS_def
  RateLimitPriorityCompletion_def RateLimitPriorityBackground_def

definition Second :: int where "Second = 1000000000"
definition Minute :: int where "Minute = 60 * Second"
definition Hour :: int where "Hour = 60 * Minute"

definition defaultMinRequestInterval :: int where "defaultMinRequestInterval = 60 * Second"

definition escalationPeriods :: "int list" where
  "escalationPeriods = [0, 1 * Minute, 5 * Minute, 15 * Minute, 30 * Minute, 1 * Hour, 3 * Hour, 6 * Hour, 12 * Hour, 24 * Hour]"

record rate_options =
  ro_Priority :: string
  ro_MinInterval :: int
  ro_MaxWait :: int

record rate_state =
  rs_lastStarted :: int
  rs_lastCompleted :: int
  rs_cooldownUntil :: int
  rs_escalationLevel :: nat

record rate_limiter =
  rl_minInterval :: int
  rl_states :: "(int, rate_state) gomap"

section \<open>Scaling an interval by a priority\<close>

text \<open>
  \<open>time.Duration(float64(d) * multiplier)\<close>: both the conversion and the product round to 53 bits
  (ties to even), the conversion back truncates. The multipliers are the \<open>float64\<close> values nearest
  to 0.1, 0.5, 0.7 and 1: \<open>multiplierMantissa\<close> over \<open>2 ^ 55\<close>. Intervals are positive here.
\<close>

definition priorityMultiplier :: "string \<Rightarrow> int option" where
  "priorityMultiplier p =
     (if p = RateLimitPriorityInteractive then Some 3602879701896397
      else if p = RateLimitPriorityRSS then Some (2 ^ 54)
      else if p = RateLimitPriorityCompletion then Some 25220157913274776
      else if p = RateLimitPriorityBackground then Some (2 ^ 55)
      else None)"

definition scaleInterval :: "int \<Rightarrow> int \<Rightarrow> int" where
  "scaleInterval d k = round53 (round53 d * k) div 2 ^ 55"

definition resolveOptions :: "rate_limiter \<Rightarrow> rate_options option \<Rightarrow> rate_options" where
  "resolveOptions r opts =
     (let priority = (case opts of None \<Rightarrow> RateLimitPriorityBackground
            | Some o' \<Rightarrow> if ro_Priority o' \<noteq> [] then ro_Priority o' else RateLimitPriorityBackground);
          interval = (case opts of None \<Rightarrow> rl_minInterval r
            | Some o' \<Rightarrow> if ro_MinInterval o' > 0 then ro_MinInterval o' else rl_minInterval r);
          maxWait = (case opts of None \<Rightarrow> 0 | Some o' \<Rightarrow> if ro_MaxWait o' > 0 then ro_MaxWait o' else 0);
          interval = (if interval \<le> 0 then defaultMinRequestInterval else interval)
      in \<lparr>ro_Priority = priority,
          ro_MinInterval = (case priorityMultiplier priority of None \<Rightarrow> interval | Some k \<Rightarrow> scaleInterval interval k),
          ro_MaxWait = maxWait\<rparr>)"

section \<open>Operations\<close>

definition NewRateLimiter :: "int \<Rightarrow> rate_limiter" where
  "NewRateLimiter minInterval =
     \<lparr>rl_minInterval = (if minInterval \<le> 0 then defaultMinRequestInterval else minInterval), rl_states = []\<rparr>"

definition fresh_state :: rate_state where
  "fresh_state = \<lparr>rs_lastStarted = - 1, rs_lastCompleted = - 1, rs_cooldownUntil = 0, rs_escalationLevel = 0\<rparr>"

definition getStateLocked :: "rate_limiter \<Rightarrow> int \<Rightarrow> rate_state \<times> rate_limiter" where
  "getStateLocked r i =
     (case gm_get (rl_states r) i of
        Some st \<Rightarrow> (st, r)
      | None \<Rightarrow> (fresh_state, r\<lparr>rl_states := gm_put i fresh_state (rl_states r)\<rparr>))"

definition with_state :: "int \<Rightarrow> (rate_state \<Rightarrow> rate_state) \<Rightarrow> rate_limiter \<Rightarrow> rate_limiter" where
  "with_state i f r =
     (case getStateLocked r i of (st, r) \<Rightarrow> r\<lparr>rl_states := gm_put i (f st) (rl_states r)\<rparr>)"

text \<open>A zero \<open>ts\<close> means the current time; otherwise the time stamp counts from the start time.\<close>

definition RecordRequestStart :: "int \<Rightarrow> int option \<Rightarrow> int \<Rightarrow> rate_limiter \<Rightarrow> rate_limiter" where
  "RecordRequestStart i ts now r =
     with_state i (\<lambda>st. st\<lparr>rs_lastStarted := (case ts of None \<Rightarrow> now | Some t \<Rightarrow> t)\<rparr>) r"

definition RecordRequestComplete :: "int \<Rightarrow> int option \<Rightarrow> int \<Rightarrow> rate_limiter \<Rightarrow> rate_limiter" where
  "RecordRequestComplete i ts now r =
     with_state i (\<lambda>st. st\<lparr>rs_lastCompleted := (case ts of None \<Rightarrow> now | Some t \<Rightarrow> t)\<rparr>) r"

definition SetCooldown :: "int \<Rightarrow> int \<Rightarrow> rate_limiter \<Rightarrow> rate_limiter" where
  "SetCooldown i until r =
     with_state i (\<lambda>st. if until > rs_cooldownUntil st then st\<lparr>rs_cooldownUntil := until\<rparr> else st) r"

definition LoadCooldowns :: "(int, int option) gomap \<Rightarrow> rate_limiter \<Rightarrow> rate_limiter" where
  "LoadCooldowns cooldowns r =
     fold (\<lambda>(i, until) r. case until of None \<Rightarrow> r | Some u \<Rightarrow> SetCooldown i u r) cooldowns r"

definition ClearCooldown :: "int \<Rightarrow> rate_limiter \<Rightarrow> rate_limiter" where
  "ClearCooldown i r = with_state i (\<lambda>st. st\<lparr>rs_cooldownUntil := 0\<rparr>) r"

definition RecordFailure :: "int \<Rightarrow> int \<Rightarrow> rate_limiter \<Rightarrow> int \<times> rate_limiter" where
  "RecordFailure i now r =
     (case getStateLocked r i of (st, r) \<Rightarrow>
        let level = (if rs_escalationLevel st < length escalationPeriods - 1
                     then rs_escalationLevel st + 1 else rs_escalationLevel st);
            cooldown = escalationPeriods ! level;
            st = st\<lparr>rs_escalationLevel := level\<rparr>;
            st = (if cooldown > 0 then st\<lparr>rs_cooldownUntil := wrap64 (now + cooldown)\<rparr> else st)
        in (cooldown, r\<lparr>rl_states := gm_put i st (rl_states r)\<rparr>))"

definition RecordSuccess :: "int \<Rightarrow> rate_limiter \<Rightarrow> rate_limiter" where
  "RecordSuccess i r = with_state i (\<lambda>st. st\<lparr>rs_escalationLevel := 0\<rparr>) r"

definition IsInCooldown :: "int \<Rightarrow> int \<Rightarrow> rate_limiter \<Rightarrow> int option \<times> rate_limiter" where
  "IsInCooldown i now r =
     (case getStateLocked r i of (st, r) \<Rightarrow>
        (if rs_cooldownUntil st > 0 \<and> rs_cooldownUntil st > now then Some (rs_cooldownUntil st) else None, r))"

definition GetCooldownIndexers :: "int \<Rightarrow> rate_limiter \<Rightarrow> (int, int) gomap" where
  "GetCooldownIndexers now r =
     fold (\<lambda>(i, st) acc. if rs_cooldownUntil st > 0 \<and> rs_cooldownUntil st > now
             then gm_put i (rs_cooldownUntil st) acc else acc) (rl_states r) []"

definition waitOf :: "rate_state \<Rightarrow> int \<Rightarrow> int \<Rightarrow> int" where
  "waitOf st now minInterval =
     (let wait = (if rs_cooldownUntil st > 0 \<and> rs_cooldownUntil st > now
                  then wrap64 (rs_cooldownUntil st - now) else 0);
          next' = wrap64 (rs_lastCompleted st + minInterval);
          delay = wrap64 (next' - now)
      in if minInterval > 0 \<and> rs_lastCompleted st \<ge> 0 \<and> next' > now \<and> delay > wait then delay else wait)"

definition computeWaitLocked :: "int \<Rightarrow> int \<Rightarrow> int \<Rightarrow> rate_limiter \<Rightarrow> int \<times> rate_limiter" where
  "computeWaitLocked i now minInterval0 r =
     (let minInterval = (if minInterval0 \<le> 0 then rl_minInterval r else minInterval0) in
      case getStateLocked r i of (st, r) \<Rightarrow> (waitOf st now minInterval, r))"

definition NextWait :: "int \<Rightarrow> rate_options option \<Rightarrow> int \<Rightarrow> rate_limiter \<Rightarrow> int \<times> rate_limiter" where
  "NextWait i opts now r = computeWaitLocked i now (ro_MinInterval (resolveOptions r opts)) r"

text \<open>
  \<open>WaitForMinInterval\<close>: the list holds, for each round of its loop, the time at which the lock is
  taken and whether the context is done when the slot is free or while the timer runs.
\<close>

fun WaitForMinInterval :: "int \<Rightarrow> rate_options option \<Rightarrow> (int \<times> string option) list \<Rightarrow> rate_limiter \<Rightarrow> (string option \<times> rate_limiter) option" where
  "WaitForMinInterval i opts [] r = None"
| "WaitForMinInterval i opts ((now, done) # rounds) r =
     (let interval = ro_MinInterval (resolveOptions r opts) in
      case getStateLocked r i of (st, r) \<Rightarrow>
        let next' = wrap64 (rs_lastCompleted st + interval);
            wait = (if interval > 0 \<and> rs_lastCompleted st \<ge> 0 \<and> next' > now then wrap64 (next' - now) else 0)
        in if wait \<le> 0 then
             (case done of
                Some e \<Rightarrow> Some (Some e, r)
              | None \<Rightarrow> Some (None, r\<lparr>rl_states := gm_put i (st\<lparr>rs_lastStarted := now, rs_lastCompleted := now\<rparr>) (rl_states r)\<rparr>))
           else (case done of
                Some e \<Rightarrow> Some (Some e, r)
              | None \<Rightarrow> WaitForMinInterval i opts rounds r))"

section \<open>The states of the limiter\<close>

definition state_of :: "rate_limiter \<Rightarrow> int \<Rightarrow> rate_state" where
  "state_of r i = (case gm_get (rl_states r) i of Some st \<Rightarrow> st | None \<Rightarrow> fresh_state)"

lemma getStateLocked_cases:
  obtains r' where "getStateLocked r i = (state_of r i, r')" "\<And>j. state_of r' j = state_of r j"
    "rl_minInterval r' = rl_minInterval r"
  by (rule that [of "snd (getStateLocked r i)"])
     (auto simp: getStateLocked_def state_of_def split: option.splits)

lemma state_of_put: "state_of (r\<lparr>rl_states := gm_put i st (rl_states r)\<rparr>) j = (if j = i then st else state_of r j)"
  by (simp add: state_of_def)

lemma state_of_with_state: "state_of (with_state i f r) j = (if j = i then f (state_of r i) else state_of r j)"
  by (rule getStateLocked_cases [of r i]) (simp add: with_state_def state_of_put)

lemma rl_minInterval_with_state [simp]: "rl_minInterval (with_state i f r) = rl_minInterval r"
  by (rule getStateLocked_cases [of r i]) (simp add: with_state_def)

lemma NextWait_eq:
  "fst (NextWait i opts now r) = waitOf (state_of r i) now
     (let m = ro_MinInterval (resolveOptions r opts) in if m \<le> 0 then rl_minInterval r else m)"
  "state_of (snd (NextWait i opts now r)) j = state_of r j"
  "rl_minInterval (snd (NextWait i opts now r)) = rl_minInterval r"
  by (rule getStateLocked_cases [of r i], simp add: NextWait_def computeWaitLocked_def Let_def)+

text \<open>
  Times far from the ends of \<open>int64\<close> (a limiter younger than 146 years, intervals and cooldowns
  below that): the additions of the limiter do not wrap.
\<close>

definition sane :: "int \<Rightarrow> bool" where
  "sane t \<longleftrightarrow> - 1 \<le> t \<and> t < 2 ^ 61"

definition sane_state :: "rate_state \<Rightarrow> bool" where
  "sane_state st \<longleftrightarrow> sane (rs_lastCompleted st) \<and> sane (rs_cooldownUntil st) \<and> rs_escalationLevel st < length escalationPeriods"

lemma wrap64_sane: "- (2 ^ 62) \<le> x \<Longrightarrow> x < 2 ^ 62 \<Longrightarrow> wrap64 x = x"
  by (rule wrap64_id) (simp add: int64_def)

lemma waitOf_sane:
  assumes "sane_state st" "sane now" "sane m"
  shows "waitOf st now m = max 0 (max (if rs_cooldownUntil st > 0 then rs_cooldownUntil st - now else 0)
     (if m > 0 \<and> rs_lastCompleted st \<ge> 0 then rs_lastCompleted st + m - now else 0))"
proof -
  have "wrap64 (rs_cooldownUntil st - now) = rs_cooldownUntil st - now"
    "wrap64 (rs_lastCompleted st + m) = rs_lastCompleted st + m"
    "wrap64 (rs_lastCompleted st + m - now) = rs_lastCompleted st + m - now"
    using assms by (auto simp: sane_state_def sane_def intro!: wrap64_sane)
  then show ?thesis
    by (simp add: waitOf_def Let_def max_def)
qed

section \<open>Scaling\<close>

lemma scaleInterval_mono:
  assumes "0 \<le> d" "0 \<le> k" "k \<le> l"
  shows "scaleInterval d k \<le> scaleInterval d l"
  unfolding scaleInterval_def using assms round53_nonneg [OF assms(1)]
  by (intro zdiv_mono1 round53_mono mult_left_mono) auto

lemma scaleInterval_one:
  assumes "0 \<le> d" "d < 2 ^ 53"
  shows "scaleInterval d (2 ^ 55) = d"
  unfolding scaleInterval_def round53_exact [OF assms(2)] round53_shift_small [OF assms] by simp

lemma scaleInterval_nonneg: "0 \<le> d \<Longrightarrow> 0 \<le> k \<Longrightarrow> 0 \<le> scaleInterval d k"
  unfolding scaleInterval_def by (intro pos_imp_zdiv_nonneg_iff [THEN iffD2] round53_nonneg mult_nonneg_nonneg) auto

section \<open>Properties\<close>

text \<open>The interval that applies to a request, and the time from which it may run.\<close>

definition interval_of :: "rate_limiter \<Rightarrow> rate_options option \<Rightarrow> int" where
  "interval_of r opts = (let m = ro_MinInterval (resolveOptions r opts) in if m \<le> 0 then rl_minInterval r else m)"

lemma NextWait_sane:
  assumes "sane_state (state_of r i)" "sane now" "sane (interval_of r opts)"
  shows "fst (NextWait i opts now r) = max 0 (max
     (if rs_cooldownUntil (state_of r i) > 0 then rs_cooldownUntil (state_of r i) - now else 0)
     (if interval_of r opts > 0 \<and> rs_lastCompleted (state_of r i) \<ge> 0
      then rs_lastCompleted (state_of r i) + interval_of r opts - now else 0))"
  unfolding NextWait_eq(1) interval_of_def [symmetric] by (rule waitOf_sane [OF assms])

lemma interval_of_cong:
  assumes "rl_minInterval r' = rl_minInterval r"
  shows "interval_of r' opts = interval_of r opts"
  unfolding interval_of_def resolveOptions_def by (simp only: assms)

lemma wait_arith:
  fixes c e now t :: int and b :: bool
  defines "w \<equiv> \<lambda>x. max 0 (max (if c > 0 then c - x else 0) (if b then e - x else 0))"
  shows "0 \<le> w now" and "w now = 0 \<longleftrightarrow> \<not> (c > 0 \<and> c > now) \<and> \<not> (b \<and> e > now)"
    and "t \<ge> now \<Longrightarrow> w t = 0 \<longleftrightarrow> t \<ge> now + w now"
  by (auto simp: w_def max_def)

text \<open>
  C11. The wait of the rate limiter is exact: for times far from overflow, \<open>NextWait\<close> is never
  negative; it is zero exactly when the cooldown of the indexer is over and the interval of the
  request has passed since the last completed one; and for a limiter left alone, waiting that long is
  enough: at the later time the wait is zero, and at no earlier time it was.
\<close>

theorem NextWait_exact:
  assumes "sane_state (state_of r i)" "sane now" "sane (interval_of r opts)"
  defines "w \<equiv> fst (NextWait i opts now r)"
  shows "0 \<le> w \<and>
    (w = 0 \<longleftrightarrow> \<not> (rs_cooldownUntil (state_of r i) > 0 \<and> rs_cooldownUntil (state_of r i) > now)
      \<and> \<not> (interval_of r opts > 0 \<and> rs_lastCompleted (state_of r i) \<ge> 0
             \<and> rs_lastCompleted (state_of r i) + interval_of r opts > now)) \<and>
    (\<forall>t. sane t \<and> t \<ge> now \<longrightarrow>
       (fst (NextWait i opts t (snd (NextWait i opts now r))) = 0 \<longleftrightarrow> t \<ge> now + w))"
proof -
  have same: "interval_of (snd (NextWait i opts now r)) opts = interval_of r opts"
    by (rule interval_of_cong) (rule NextWait_eq(3))
  have later: "fst (NextWait i opts t (snd (NextWait i opts now r))) = fst (NextWait i opts t r)" for t
    unfolding NextWait_eq(1) interval_of_def [symmetric] same NextWait_eq(2) ..
  let ?st = "state_of r i" and ?m = "interval_of r opts"
  let ?W = "\<lambda>x. max 0 (max (if rs_cooldownUntil ?st > 0 then rs_cooldownUntil ?st - x else 0)
     (if ?m > 0 \<and> rs_lastCompleted ?st \<ge> 0 then rs_lastCompleted ?st + ?m - x else 0))"
  have W: "fst (NextWait i opts t r) = ?W t" if "sane t" for t
    by (rule NextWait_sane [OF assms(1) that assms(3)])
  note ar = wait_arith [where c = "rs_cooldownUntil ?st" and e = "rs_lastCompleted ?st + ?m" and b = "?m > 0 \<and> rs_lastCompleted ?st \<ge> 0"]
  show ?thesis
    unfolding later w_def W [OF assms(2)] using ar(1) [of now] ar(2) [of now] ar(3) [of now] W by auto
qed

definition demo_limiter :: rate_limiter where
  "demo_limiter = RecordRequestComplete 3 None (5 * Second) (SetCooldown 3 (9 * Second) (NewRateLimiter 0))"

theorem NextWait_exact_witness:
  "fst (NextWait 3 None (20 * Second) demo_limiter) = 45 * Second
    \<and> fst (NextWait 3 None (65 * Second) (snd (NextWait 3 None (20 * Second) demo_limiter))) = 0"
proof -
  have s: "sane_state (state_of demo_limiter 3)" "sane (20 * Second)" "sane (interval_of demo_limiter None)" "sane (65 * Second)"
    by code_simp+
  have w: "fst (NextWait 3 None (20 * Second) demo_limiter) = 45 * Second"
    by code_simp
  with NextWait_exact [OF s(1-3)] s(4) show ?thesis
    by (auto simp: Second_def)
qed

text \<open>
  C12. More urgent requests wait less: for an interval below \<open>2 ^ 53\<close> nanoseconds (104 days) the
  interval of an interactive request is at most that of an RSS request, which is at most that of a
  completion request, which is at most that of a background request, which is the configured
  interval itself; a request without options is a background request, and none is negative.
\<close>

theorem resolveOptions_priority_order:
  fixes r :: rate_limiter and base :: rate_options
  assumes "0 < ro_MinInterval base" "ro_MinInterval base < 2 ^ 53"
  defines "interval \<equiv> \<lambda>p. ro_MinInterval (resolveOptions r (Some (base\<lparr>ro_Priority := p\<rparr>)))"
  shows "0 \<le> interval RateLimitPriorityInteractive
    \<and> interval RateLimitPriorityInteractive \<le> interval RateLimitPriorityRSS
    \<and> interval RateLimitPriorityRSS \<le> interval RateLimitPriorityCompletion
    \<and> interval RateLimitPriorityCompletion \<le> interval RateLimitPriorityBackground
    \<and> interval RateLimitPriorityBackground = ro_MinInterval base
    \<and> interval [] = interval RateLimitPriorityBackground"
proof -
  have eq: "interval p = (case priorityMultiplier (if p = [] then RateLimitPriorityBackground else p) of
      None \<Rightarrow> ro_MinInterval base | Some k \<Rightarrow> scaleInterval (ro_MinInterval base) k)" for p
    using assms(1) by (simp add: interval_def resolveOptions_def Let_def)
  have k: "priorityMultiplier RateLimitPriorityInteractive = Some 3602879701896397"
    "priorityMultiplier RateLimitPriorityRSS = Some (2 ^ 54)"
    "priorityMultiplier RateLimitPriorityCompletion = Some 25220157913274776"
    "priorityMultiplier RateLimitPriorityBackground = Some (2 ^ 55)"
    "RateLimitPriorityInteractive \<noteq> []" "RateLimitPriorityRSS \<noteq> []" "RateLimitPriorityCompletion \<noteq> []"
    by (simp_all add: priorityMultiplier_def rate_priority_defs)
  show ?thesis
    using scaleInterval_nonneg [of "ro_MinInterval base" 3602879701896397] scaleInterval_one [of "ro_MinInterval base"]
      scaleInterval_mono [of "ro_MinInterval base" 3602879701896397 "2 ^ 54"]
      scaleInterval_mono [of "ro_MinInterval base" "2 ^ 54" 25220157913274776]
      scaleInterval_mono [of "ro_MinInterval base" 25220157913274776 "2 ^ 55"] assms(1,2)
    by (simp add: eq k)
qed

theorem resolveOptions_priority_order_witness:
  "ro_MinInterval (resolveOptions (NewRateLimiter 0) (Some \<lparr>ro_Priority = RateLimitPriorityRSS, ro_MinInterval = 60 * Second, ro_MaxWait = 0\<rparr>))
     \<le> 42 * Second"
proof -
  let ?b = "\<lparr>ro_Priority = [], ro_MinInterval = 60 * Second, ro_MaxWait = 0\<rparr>"
  have "0 < ro_MinInterval ?b" "ro_MinInterval ?b < 2 ^ 53"
    by (simp_all add: Second_def)
  from resolveOptions_priority_order [OF this, of "NewRateLimiter 0"]
  have "ro_MinInterval (resolveOptions (NewRateLimiter 0) (Some (?b\<lparr>ro_Priority := RateLimitPriorityRSS\<rparr>)))
      \<le> ro_MinInterval (resolveOptions (NewRateLimiter 0) (Some (?b\<lparr>ro_Priority := RateLimitPriorityCompletion\<rparr>)))"
    by blast
  moreover have "ro_MinInterval (resolveOptions (NewRateLimiter 0) (Some (?b\<lparr>ro_Priority := RateLimitPriorityCompletion\<rparr>))) = 42 * Second"
    by code_simp
  ultimately show ?thesis
    by simp
qed

lemma state_of_RecordFailure:
  "state_of (snd (RecordFailure i now r)) j =
     (if j = i then (let st = state_of r i; level = min (length escalationPeriods - 1) (rs_escalationLevel st + 1)
        in st\<lparr>rs_escalationLevel := level, rs_cooldownUntil := wrap64 (now + escalationPeriods ! level)\<rparr>) else state_of r j)"
  "fst (RecordFailure i now r) = escalationPeriods ! min (length escalationPeriods - 1) (rs_escalationLevel (state_of r i) + 1)"
  if "rs_escalationLevel (state_of r i) < length escalationPeriods"
proof -
  have pos: "escalationPeriods ! k > 0" if "0 < k" "k < length escalationPeriods" for k
    using that by (auto simp: escalationPeriods_def Hour_def Minute_def Second_def less_Suc_eq nth_Cons')
  have lv: "(if rs_escalationLevel (state_of r i) < length escalationPeriods - 1
        then rs_escalationLevel (state_of r i) + 1 else rs_escalationLevel (state_of r i)) =
      min (length escalationPeriods - 1) (rs_escalationLevel (state_of r i) + 1)"
    using that by (simp add: escalationPeriods_def)
  have "0 < min (length escalationPeriods - 1) (rs_escalationLevel (state_of r i) + 1)"
    "min (length escalationPeriods - 1) (rs_escalationLevel (state_of r i) + 1) < length escalationPeriods"
    by (simp_all add: escalationPeriods_def)
  note p = pos [OF this]
  show "state_of (snd (RecordFailure i now r)) j =
     (if j = i then (let st = state_of r i; level = min (length escalationPeriods - 1) (rs_escalationLevel st + 1)
        in st\<lparr>rs_escalationLevel := level, rs_cooldownUntil := wrap64 (now + escalationPeriods ! level)\<rparr>) else state_of r j)"
    "fst (RecordFailure i now r) = escalationPeriods ! min (length escalationPeriods - 1) (rs_escalationLevel (state_of r i) + 1)"
    using p unfolding RecordFailure_def
    by (rule_tac [!] getStateLocked_cases [of r i]) (simp_all add: lv state_of_put Let_def del: One_nat_def)
qed

text \<open>
  Backing off: after \<open>n\<close> failures in a row the escalation level is \<open>n\<close>, at most the last level;
  each failure returns the period of the new level and, for times far from overflow, puts the
  indexer in cooldown for exactly that long after it; a success brings the level back to zero and leaves the
  cooldown as it is; no other indexer is affected.
\<close>

theorem RecordFailure_escalates:
  assumes "rs_escalationLevel (state_of r i) < length escalationPeriods" "sane now" "sane t"
  defines "level \<equiv> min (length escalationPeriods - 1) (rs_escalationLevel (state_of r i) + 1)"
  shows "fst (RecordFailure i now r) = escalationPeriods ! level
    \<and> rs_escalationLevel (state_of (snd (RecordFailure i now r)) i) = level
    \<and> (fst (IsInCooldown i t (snd (RecordFailure i now r))) \<noteq> None \<longleftrightarrow>
         now + escalationPeriods ! level > 0 \<and> t < now + escalationPeriods ! level)
    \<and> rs_escalationLevel (state_of (RecordSuccess i r) i) = 0
    \<and> rs_cooldownUntil (state_of (RecordSuccess i r) i) = rs_cooldownUntil (state_of r i)
    \<and> (j \<noteq> i \<longrightarrow> state_of (snd (RecordFailure i now r)) j = state_of r j \<and> state_of (RecordSuccess i r) j = state_of r j)"
proof -
  have cool: "fst (IsInCooldown i t r') \<noteq> None \<longleftrightarrow> rs_cooldownUntil (state_of r' i) > 0 \<and> rs_cooldownUntil (state_of r' i) > t" for r'
    by (rule getStateLocked_cases [of r' i]) (simp add: IsInCooldown_def)
  have "level < length escalationPeriods"
    by (simp add: level_def escalationPeriods_def)
  then have "0 \<le> escalationPeriods ! level \<and> escalationPeriods ! level < 2 ^ 61"
    by (auto simp: escalationPeriods_def Hour_def Minute_def Second_def less_Suc_eq nth_Cons')
  then have "wrap64 (now + escalationPeriods ! level) = now + escalationPeriods ! level"
    using assms(2) by (intro wrap64_sane) (auto simp: sane_def)
  then show ?thesis
    using state_of_RecordFailure [OF assms(1), of now] cool [of "snd (RecordFailure i now r)"]
    by (auto simp: level_def RecordSuccess_def state_of_with_state Let_def)
qed

theorem RecordFailure_escalates_witness:
  "fst (RecordFailure 3 (6 * Second) (snd (RecordFailure 3 (5 * Second) demo_limiter))) = 5 * Minute
    \<and> fst (IsInCooldown 3 (7 * Second) (snd (RecordFailure 3 (6 * Second) (snd (RecordFailure 3 (5 * Second) demo_limiter))))) \<noteq> None"
proof -
  let ?r = "snd (RecordFailure 3 (5 * Second) demo_limiter)"
  have h: "rs_escalationLevel (state_of ?r 3) < length escalationPeriods" "sane (6 * Second)" "sane (7 * Second)"
    "escalationPeriods ! min (length escalationPeriods - 1) (rs_escalationLevel (state_of ?r 3) + 1) = 5 * Minute"
    by code_simp+
  from RecordFailure_escalates [OF h(1-3), of 0] h(4) show ?thesis
    by (auto simp: Minute_def Second_def)
qed

text \<open>
  Reserving a slot: if \<open>WaitForMinInterval\<close> returns without an error, it does so in a round
  whose time is at least the request's interval after the last completed request of the indexer, and
  it leaves that time as the start and completion of a request, so that the next caller waits its own
  interval from there; cooldowns, escalation levels and the other indexers are left alone. If it
  returns an error, nothing has changed.
\<close>

theorem WaitForMinInterval_reserves:
  assumes "WaitForMinInterval i opts rounds r = Some (res, r')"
    and "sane_state (state_of r i)" "sane (ro_MinInterval (resolveOptions r opts))"
    and "\<forall>(now, d) \<in> set rounds. sane now \<and> 0 \<le> now"
  shows "(res = None \<longrightarrow> (\<exists>now. (now, None) \<in> set rounds
            \<and> (ro_MinInterval (resolveOptions r opts) > 0 \<and> rs_lastCompleted (state_of r i) \<ge> 0 \<longrightarrow>
                 rs_lastCompleted (state_of r i) + ro_MinInterval (resolveOptions r opts) \<le> now)
            \<and> state_of r' i = (state_of r i)\<lparr>rs_lastStarted := now, rs_lastCompleted := now\<rparr>))
    \<and> (res \<noteq> None \<longrightarrow> state_of r' i = state_of r i)
    \<and> (j \<noteq> i \<longrightarrow> state_of r' j = state_of r j)"
  using assms
proof (induction rounds arbitrary: r)
  case (Cons round rounds)
  obtain now d where round: "round = (now, d)"
    by fastforce
  obtain r1 where r1: "getStateLocked r i = (state_of r i, r1)" "\<And>j. state_of r1 j = state_of r j"
    "rl_minInterval r1 = rl_minInterval r"
    using getStateLocked_cases [of r i] by metis
  let ?m = "ro_MinInterval (resolveOptions r opts)"
  have m1: "ro_MinInterval (resolveOptions r1 opts) = ?m"
    unfolding resolveOptions_def by (simp only: r1(3))
  have w: "wrap64 (rs_lastCompleted (state_of r i) + ?m) = rs_lastCompleted (state_of r i) + ?m"
    "wrap64 (rs_lastCompleted (state_of r i) + ?m - now) = rs_lastCompleted (state_of r i) + ?m - now"
    using Cons.prems(2-4) round by (auto simp: sane_state_def sane_def intro!: wrap64_sane)
  show ?case
  proof (cases "?m > 0 \<and> rs_lastCompleted (state_of r i) \<ge> 0 \<and> rs_lastCompleted (state_of r i) + ?m > now")
    case True
    show ?thesis
    proof (cases d)
      case None
      with True Cons.prems(1) have "WaitForMinInterval i opts rounds r1 = Some (res, r')"
        by (simp add: round r1(1) w Let_def)
      from Cons.IH [OF this] Cons.prems(2-4) m1 show ?thesis
        by (auto simp: r1(2))
    next
      case (Some e)
      with True Cons.prems(1) have "res = Some e" "r' = r1"
        by (simp_all add: round r1(1) w Let_def)
      then show ?thesis
        using r1(2) by simp
    qed
  next
    case False
    then have step: "(if ?m > 0 \<and> rs_lastCompleted (state_of r i) \<ge> 0 \<and> rs_lastCompleted (state_of r i) + ?m > now
        then wrap64 (wrap64 (rs_lastCompleted (state_of r i) + ?m) - now) else 0) = 0"
      by (rule if_not_P)
    show ?thesis
    proof (cases d)
      case None
      with Cons.prems(1) have "res = None" "r' = r1\<lparr>rl_states := gm_put i ((state_of r i)\<lparr>rs_lastStarted := now, rs_lastCompleted := now\<rparr>) (rl_states r1)\<rparr>"
        by (simp_all add: round r1(1) w Let_def step)
      with None False show ?thesis
        by (auto simp: state_of_put r1(2) round)
    next
      case (Some e)
      with Cons.prems(1) have "res = Some e" "r' = r1"
        by (simp_all add: round r1(1) w Let_def step)
      then show ?thesis
        using r1(2) by simp
    qed
  qed
qed simp

theorem WaitForMinInterval_reserves_witness:
  "\<exists>r'. WaitForMinInterval 3 None [(20 * Second, None), (65 * Second, None)] demo_limiter = Some (None, r')
    \<and> rs_lastCompleted (state_of r' 3) = 65 * Second"
proof -
  let ?w = "WaitForMinInterval 3 None [(20 * Second, None), (65 * Second, None)] demo_limiter"
  have "case ?w of Some (None, r') \<Rightarrow> rs_lastCompleted (state_of r' 3) = 65 * Second | _ \<Rightarrow> False"
    by code_simp
  then obtain r' where r': "?w = Some (None, r')" "rs_lastCompleted (state_of r' 3) = 65 * Second"
    by (auto split: option.splits prod.splits)
  moreover have "sane_state (state_of demo_limiter 3)" "sane (ro_MinInterval (resolveOptions demo_limiter None))"
    "\<forall>(now, d) \<in> set [(20 * Second, None :: string option), (65 * Second, None)]. sane now \<and> 0 \<le> now"
    by code_simp+
  ultimately show ?thesis
    using WaitForMinInterval_reserves [of 3 None _ demo_limiter None r' 0] by blast
qed

end
