(* ===== verification/Task_Heap.thy ===== *)
theory Task_Heap
  imports Go_Base "HOL-Library.Product_Lexorder"
begin

text \<open>
  Go's \<open>container/heap\<close> on a slice, as the search scheduler uses it: \<open>heap.Push\<close> and \<open>heap.Pop\<close> with
  their sifting loops \<open>up\<close> and \<open>down\<close>, on a list for the slice and the heap's \<open>Less\<close>
  as an argument. The scheduler only relies on the contract of a priority queue, which is the locale
  \<open>priority_queue\<close>; the heap is shown to meet it whenever \<open>Less\<close> compares a key.
\<close>

section \<open>The contract of a priority queue\<close>

locale priority_queue =
  fixes key :: "'a \<Rightarrow> 'k::linorder"
    and ok :: "'q \<Rightarrow> bool"
    and content :: "'q \<Rightarrow> 'a multiset"
    and push :: "'a \<Rightarrow> 'q \<Rightarrow> 'q"
    and pop :: "'q \<Rightarrow> 'a \<times> 'q"
    and drain :: "'q \<Rightarrow> 'a list"
  assumes push_ok: "ok q \<Longrightarrow> ok (push x q)"
    and push_content: "ok q \<Longrightarrow> content (push x q) = add_mset x (content q)"
    and pop_ok: "ok q \<Longrightarrow> content q \<noteq> {#} \<Longrightarrow> ok (snd (pop q))"
    and pop_content: "ok q \<Longrightarrow> content q \<noteq> {#} \<Longrightarrow> content q = add_mset (fst (pop q)) (content (snd (pop q)))"
    and pop_least: "ok q \<Longrightarrow> y \<in># content q \<Longrightarrow> key (fst (pop q)) \<le> key y"
    and drain_empty: "ok q \<Longrightarrow> content q = {#} \<Longrightarrow> drain q = []"
    and drain_step: "ok q \<Longrightarrow> content q \<noteq> {#} \<Longrightarrow> drain q = fst (pop q) # drain (snd (pop q))"
begin

lemma drain_sorted_content:
  "ok q \<Longrightarrow> mset (drain q) = content q \<and> sorted (map key (drain q))"
proof (induction "size (content q)" arbitrary: q)
  case 0
  then show ?case
    by (simp add: drain_empty)
next
  case (Suc n)
  then have ne: "content q \<noteq> {#}"
    by auto
  note c = pop_content [OF Suc.prems ne]
  then have "size (content (snd (pop q))) = n"
    using Suc.hyps(2) by (metis size_add_mset nat.inject)
  with Suc.hyps(1) pop_ok [OF Suc.prems ne]
  have IH: "mset (drain (snd (pop q))) = content (snd (pop q))" "sorted (map key (drain (snd (pop q))))"
    by auto
  have "key (fst (pop q)) \<le> key y" if "y \<in> set (drain (snd (pop q)))" for y
    using that pop_least [OF Suc.prems] c IH(1) by (metis insert_iff set_mset_add_mset_insert set_mset_mset)
  with IH c show ?case
    by (simp add: drain_step [OF Suc.prems ne])
qed

lemma drain_content: "ok q \<Longrightarrow> mset (drain q) = content q"
  using drain_sorted_content by blast

lemma drain_sorted: "ok q \<Longrightarrow> sorted (map key (drain q))"
  using drain_sorted_content by blast

lemma push_all: "ok q \<Longrightarrow> ok (fold push xs q) \<and> content (fold push xs q) = mset xs + content q"
  by (induction xs arbitrary: q) (auto simp: push_ok push_content)

end

section \<open>The binary heap\<close>

definition swap :: "nat \<Rightarrow> nat \<Rightarrow> 'a list \<Rightarrow> 'a list" where
  "swap i j h = h[i := h ! j, j := h ! i]"

text \<open>\<open>(j - 1) / 2\<close>, where Go's division gives 0 for \<open>j = 0\<close>.\<close>

definition parent :: "nat \<Rightarrow> nat" where
  "parent k = (k - 1) div 2"

lemma parent_less: "k > 0 \<Longrightarrow> parent k < k"
  by (auto simp: parent_def)

lemma parent_le: "parent k \<le> k"
  by (auto simp: parent_def)

lemma parent_fixed: "parent k = k \<longleftrightarrow> k = 0"
  by (auto simp: parent_def)

function up :: "('a \<Rightarrow> 'a \<Rightarrow> bool) \<Rightarrow> nat \<Rightarrow> 'a list \<Rightarrow> 'a list" where
  "up isLess j h =
     (let i = parent j in
      if i = j \<or> \<not> isLess (h ! j) (h ! i) then h else up isLess i (swap i j h))"
  by auto
termination
  by (relation "measure (\<lambda>(_, j, _). j)") (auto simp: parent_fixed parent_less)

function down :: "('a \<Rightarrow> 'a \<Rightarrow> bool) \<Rightarrow> nat \<Rightarrow> nat \<Rightarrow> 'a list \<Rightarrow> 'a list" where
  "down isLess i n h =
     (let j1 = 2 * i + 1 in
      if j1 \<ge> n then h
      else let j2 = j1 + 1;
               j = (if j2 < n \<and> isLess (h ! j2) (h ! j1) then j2 else j1)
        in if \<not> isLess (h ! j) (h ! i) then h else down isLess j n (swap i j h))"
  by auto
termination
  by (relation "measure (\<lambda>(_, i, n, _). n - i)") (auto simp: Let_def)

declare up.simps [simp del] down.simps [simp del]

definition heap_push :: "('a \<Rightarrow> 'a \<Rightarrow> bool) \<Rightarrow> 'a \<Rightarrow> 'a list \<Rightarrow> 'a list" where
  "heap_push isLess x h = up isLess (length h) (h @ [x])"

definition heap_pop :: "('a \<Rightarrow> 'a \<Rightarrow> bool) \<Rightarrow> 'a list \<Rightarrow> 'a \<times> 'a list" where
  "heap_pop isLess h =
     (let n = length h - 1; h' = down isLess 0 n (swap 0 n h) in (last h', butlast h'))"

section \<open>Sifting\<close>

lemma parent_iff: "k > 0 \<Longrightarrow> parent k = i \<longleftrightarrow> k = 2 * i + 1 \<or> k = 2 * i + 2"
  by (auto simp: parent_def)

text \<open>The heap order of the first \<open>n\<close> places.\<close>

definition heap_at :: "('a \<Rightarrow> 'k::linorder) \<Rightarrow> nat \<Rightarrow> 'a list \<Rightarrow> bool" where
  "heap_at key n h \<longleftrightarrow> (\<forall>k. 0 < k \<and> k < n \<longrightarrow> key (h ! parent k) \<le> key (h ! k))"

lemma length_swap [simp]: "length (swap i j h) = length h"
  by (simp add: swap_def)

lemma mset_swap': "i < length h \<Longrightarrow> j < length h \<Longrightarrow> mset (swap i j h) = mset h"
  unfolding swap_def by (rule mset_swap)

lemma nth_swap:
  "i < length h \<Longrightarrow> j < length h \<Longrightarrow> swap i j h ! k = (if k = i then h ! j else if k = j then h ! i else h ! k)"
  by (auto simp: swap_def nth_list_update)

lemma up_mset_length: "j < length h \<Longrightarrow> mset (up isLess j h) = mset h \<and> length (up isLess j h) = length h"
proof (induction isLess j h rule: up.induct)
  case (1 isLess j h)
  let ?i = "parent j"
  show ?case
  proof (cases "?i = j \<or> \<not> isLess (h ! j) (h ! ?i)")
    case True
    then show ?thesis
      by (simp add: up.simps [of isLess j h])
  next
    case False
    with 1 show ?thesis
      using parent_le [of j] by (simp add: up.simps [of isLess j h] mset_swap' Let_def)
  qed
qed

text \<open>Only place \<open>j\<close> may be smaller than its parent, and then the order holds around it.\<close>

lemma up_heap:
  assumes "j < n" "n \<le> length h"
    and "\<And>k. 0 < k \<Longrightarrow> k < n \<Longrightarrow> k \<noteq> j \<Longrightarrow> key (h ! parent k) \<le> key (h ! k)"
    and "\<And>k. 0 < k \<Longrightarrow> k < n \<Longrightarrow> parent k = j \<Longrightarrow> 0 < j \<Longrightarrow> key (h ! parent j) \<le> key (h ! k)"
  shows "heap_at key n (up (\<lambda>a b. key a < key b) j h)"
  using assms
proof (induction "\<lambda>a b. key a < key b" j h rule: up.induct)
  case (1 j h)
  let ?isLess = "\<lambda>a b. key a < key b" and ?i = "parent j"
  show ?case
  proof (cases "?i = j \<or> \<not> ?isLess (h ! j) (h ! ?i)")
    case True
    then have "j = 0 \<or> key (h ! parent j) \<le> key (h ! j)"
      by (auto simp: parent_fixed)
    with 1(4) have "heap_at key n h"
      unfolding heap_at_def by (metis less_irrefl_nat)
    with True show ?thesis
      by (simp add: up.simps [of ?isLess j h])
  next
    case False
    then have i: "?i < j" and lt: "key (h ! j) < key (h ! ?i)" and j: "0 < j"
      using parent_less [of j] by (auto simp: parent_fixed)
    have sw: "swap ?i j h ! k = (if k = ?i then h ! j else if k = j then h ! ?i else h ! k)" for k
      using i 1(2,3) by (intro nth_swap) auto
    have "heap_at key n (up ?isLess ?i (swap ?i j h))"
    proof (rule 1(1))
      show "\<not> (?i = j \<or> \<not> ?isLess (h ! j) (h ! ?i))"
        by (rule False)
      show "?i < n" "n \<le> length (swap ?i j h)"
        using i 1(2,3) by simp_all
    next
      fix k
      assume k: "0 < k" "k < n" "k \<noteq> ?i"
      show "key (swap ?i j h ! parent k) \<le> key (swap ?i j h ! k)"
      proof (cases "k = j")
        case True
        with i lt show ?thesis
          by (simp add: sw)
      next
        case False
        with k have "key (h ! parent k) \<le> key (h ! k)"
          using 1(4) by simp
        moreover have "key (h ! parent j) \<le> key (h ! k)" if "parent k = j"
          using 1(5) [OF k(1,2) that j] .
        ultimately show ?thesis
          using False k lt by (auto simp: sw)
      qed
    next
      fix k
      assume k: "0 < k" "k < n" "parent k = ?i" "0 < ?i"
      have pi: "key (h ! parent ?i) \<le> key (h ! ?i)"
        using 1(4) [of ?i] k i 1(2) by auto
      have ne: "parent ?i \<noteq> ?i" "parent ?i \<noteq> j"
        using parent_less [of ?i] k(4) i by auto
      show "key (swap ?i j h ! parent ?i) \<le> key (swap ?i j h ! k)"
      proof (cases "k = j")
        case False
        then have "key (h ! ?i) \<le> key (h ! k)"
          using 1(4) [OF k(1,2)] k(3) by simp
        with pi ne False show ?thesis
          using parent_less [OF k(1)] k(3) by (simp add: sw)
      qed (use pi ne in \<open>simp add: sw\<close>)
    qed simp
    with False show ?thesis
      by (simp add: up.simps [of ?isLess j h] Let_def)
  qed
qed

definition least_child :: "('a \<Rightarrow> 'a \<Rightarrow> bool) \<Rightarrow> nat \<Rightarrow> nat \<Rightarrow> 'a list \<Rightarrow> nat" where
  "least_child isLess i n h =
     (if 2 * i + 2 < n \<and> isLess (h ! (2 * i + 2)) (h ! (2 * i + 1)) then 2 * i + 2 else 2 * i + 1)"

lemma down_unfold:
  "down isLess i n h =
     (if 2 * i + 1 \<ge> n then h
      else if \<not> isLess (h ! least_child isLess i n h) (h ! i) then h
      else down isLess (least_child isLess i n h) n (swap i (least_child isLess i n h) h))"
  by (subst down.simps) (simp add: least_child_def Let_def)

lemma least_child_range: "2 * i + 1 < n \<Longrightarrow> i < least_child isLess i n h \<and> least_child isLess i n h < n
    \<and> parent (least_child isLess i n h) = i"
  by (auto simp: least_child_def parent_def)

lemma least_child_key:
  assumes "2 * i + 1 < n" "0 < k" "k < n" "parent k = i"
  shows "key (h ! least_child (\<lambda>a b. key a < key b) i n h) \<le> (key (h ! k) :: 'k::linorder)"
proof -
  have "k = 2 * i + 1 \<or> k = 2 * i + 2"
    using assms(2,4) by (simp add: parent_iff)
  then show ?thesis
    using assms(3) by (auto simp: least_child_def)
qed

lemma down_frame:
  assumes "n \<le> length h"
  shows "mset (down isLess i n h) = mset h \<and> length (down isLess i n h) = length h
    \<and> (\<forall>k. n \<le> k \<and> k < length h \<longrightarrow> down isLess i n h ! k = h ! k)"
  using assms
proof (induction "n - i" arbitrary: i h rule: less_induct)
  case less
  let ?j = "least_child isLess i n h"
  show ?case
  proof (cases "2 * i + 1 \<ge> n \<or> \<not> isLess (h ! ?j) (h ! i)")
    case True
    then show ?thesis
      by (auto simp: down_unfold [of isLess i n h])
  next
    case False
    then have j: "i < ?j" "?j < n"
      using least_child_range [of i n isLess h] by auto
    then have len: "i < length h" "?j < length h"
      using less.prems by auto
    have "mset (down isLess ?j n (swap i ?j h)) = mset (swap i ?j h)
        \<and> length (down isLess ?j n (swap i ?j h)) = length (swap i ?j h)
        \<and> (\<forall>k. n \<le> k \<and> k < length (swap i ?j h) \<longrightarrow> down isLess ?j n (swap i ?j h) ! k = swap i ?j h ! k)"
      by (rule less.hyps) (use j less.prems in auto)
    with False j show ?thesis
      by (auto simp: down_unfold [of isLess i n h] mset_swap' [OF len] nth_swap [OF len])
  qed
qed

lemma down_heap:
  assumes "i < n" "n \<le> length h"
    and "\<And>k. 0 < k \<Longrightarrow> k < n \<Longrightarrow> parent k \<noteq> i \<Longrightarrow> key (h ! parent k) \<le> (key (h ! k) :: 'k::linorder)"
    and "\<And>k. 0 < k \<Longrightarrow> k < n \<Longrightarrow> parent k = i \<Longrightarrow> 0 < i \<Longrightarrow> key (h ! parent i) \<le> key (h ! k)"
  shows "heap_at key n (down (\<lambda>a b. key a < key b) i n h)"
  using assms
proof (induction "n - i" arbitrary: i h rule: less_induct)
  case less
  let ?lt = "\<lambda>a b. key a < key b"
  let ?j = "least_child ?lt i n h"
  show ?case
  proof (cases "2 * i + 1 \<ge> n")
    case True
    then have "parent k \<noteq> i" if "0 < k" "k < n" for k
      using that by (auto simp: parent_iff)
    with less.prems(3) True show ?thesis
      by (auto simp: down_unfold [of ?lt i n h] heap_at_def)
  next
    case False
    then have r: "i < ?j" "?j < n" "parent ?j = i"
      using least_child_range [of i n ?lt h] by auto
    have child: "key (h ! ?j) \<le> key (h ! k)" if "0 < k" "k < n" "parent k = i" for k
      using least_child_key [OF _ that] False by simp
    show ?thesis
    proof (cases "key (h ! ?j) < key (h ! i)")
      case no: False
      have "key (h ! parent k) \<le> key (h ! k)" if "0 < k" "k < n" for k
        using less.prems(3) [OF that] child [OF that] no by (cases "parent k = i") auto
      with no show ?thesis
        by (simp add: down_unfold [of ?lt i n h] heap_at_def)
    next
      case lt: True
      have sw: "swap i ?j h ! k = (if k = i then h ! ?j else if k = ?j then h ! i else h ! k)" for k
        using r less.prems(1,2) by (intro nth_swap) auto
      have "heap_at key n (down ?lt ?j n (swap i ?j h))"
      proof (rule less.hyps)
        show "n - ?j < n - i" "?j < n" "n \<le> length (swap i ?j h)"
          using r less.prems(1,2) by simp_all
      next
        fix k
        assume k: "0 < k" "k < n" "parent k \<noteq> ?j"
        show "key (swap i ?j h ! parent k) \<le> key (swap i ?j h ! k)"
        proof (cases "parent k = i")
          case True
          then have "k \<noteq> i"
            using parent_less [OF k(1)] by auto
          with True lt child [OF k(1,2)] show ?thesis
            by (auto simp: sw)
        next
          case False
          have "key (h ! parent i) \<le> key (h ! ?j)" if "0 < i"
            using less.prems(4) [of ?j] r that by auto
          with False k(3) less.prems(3) [OF k(1,2)] r k(1) show ?thesis
            by (auto simp: sw)
        qed
      next
        fix k
        assume k: "0 < k" "k < n" "parent k = ?j" "0 < ?j"
        have "key (h ! ?j) \<le> key (h ! k)"
          using less.prems(3) [OF k(1,2)] k(3) r by auto
        moreover have "k \<noteq> ?j" "k \<noteq> i"
          using parent_less [OF k(1)] k(3) r by auto
        ultimately show "key (swap i ?j h ! parent ?j) \<le> key (swap i ?j h ! k)"
          using r by (simp add: sw)
      qed
      with False lt show ?thesis
        by (simp add: down_unfold [of ?lt i n h])
    qed
  qed
qed

section \<open>The heap is a priority queue\<close>

lemma heap_root_least: "heap_at key n h \<Longrightarrow> k < n \<Longrightarrow> key (h ! 0) \<le> key (h ! k)"
proof (induction k rule: less_induct)
  case (less k)
  show ?case
  proof (cases "k = 0")
    case False
    then have "parent k < k" "key (h ! parent k) \<le> key (h ! k)"
      using less.prems parent_less [of k] by (auto simp: heap_at_def)
    moreover have "key (h ! 0) \<le> key (h ! parent k)"
      using less.IH [OF \<open>parent k < k\<close> less.prems(1)] less.prems(2) \<open>parent k < k\<close> by simp
    ultimately show ?thesis
      by simp
  qed simp
qed

lemma heap_push_mset: "mset (heap_push isLess x h) = add_mset x (mset h)" "length (heap_push isLess x h) = Suc (length h)"
  using up_mset_length [of "length h" "h @ [x]" isLess] by (simp_all add: heap_push_def)

lemma heap_push_heap:
  fixes key :: "'a \<Rightarrow> 'k::linorder"
  assumes "heap_at key (length h) h"
  shows "heap_at key (length (heap_push (\<lambda>a b. key a < key b) x h)) (heap_push (\<lambda>a b. key a < key b) x h)"
proof -
  have "heap_at key (Suc (length h)) (up (\<lambda>a b. key a < key b) (length h) (h @ [x]))"
  proof (rule up_heap)
    fix k
    assume k: "0 < k" "k < Suc (length h)" "k \<noteq> length h"
    then show "key ((h @ [x]) ! parent k) \<le> key ((h @ [x]) ! k)"
      using assms parent_less [of k] by (auto simp: heap_at_def nth_append)
  next
    fix k
    assume "0 < k" "k < Suc (length h)" "parent k = length h"
    then show "key ((h @ [x]) ! parent (length h)) \<le> key ((h @ [x]) ! k)"
      using parent_less [of k] by simp
  qed simp_all
  then show ?thesis
    by (simp add: heap_push_mset(2)) (simp add: heap_push_def)
qed

lemma heap_pop_spec:
  assumes "heap_at key (length h) h" "h \<noteq> []"
  defines "r \<equiv> heap_pop (\<lambda>a b. key a < (key b :: 'k::linorder)) h"
  shows "fst r = h ! 0" and "mset h = add_mset (fst r) (mset (snd r))"
    and "heap_at key (length (snd r)) (snd r)" and "length (snd r) = length h - 1"
proof -
  let ?lt = "\<lambda>a b. key a < key b"
  obtain m where m: "length h - 1 = m"
    by blast
  let ?n = m
  let ?s = "swap 0 ?n h"
  define d where "d = down ?lt 0 ?n ?s"
  have n: "?n < length h" "0 < length h"
    using assms(2) m by auto
  note fr = down_frame [of ?n ?s ?lt 0, folded d_def]
  have d: "mset d = mset h" "length d = length h" "d ! ?n = h ! 0"
    using fr n nth_swap [OF n(2) n(1), of ?n] by (auto simp: mset_swap')
  then have "d \<noteq> []"
    using n by auto
  then have last: "last d = h ! 0"
    using d m by (simp add: last_conv_nth)
  have r: "r = (last d, butlast d)"
    by (simp only: r_def heap_pop_def Let_def d_def m)
  show "fst r = h ! 0"
    by (simp add: r last)
  have "mset (butlast d @ [last d]) = add_mset (last d) (mset (butlast d))"
    by simp
  then have "mset d = add_mset (last d) (mset (butlast d))"
    using \<open>d \<noteq> []\<close> by simp
  then show "mset h = add_mset (fst r) (mset (snd r))"
    by (simp add: r d(1))
  have len: "length (snd r) = ?n"
    using m by (simp add: r d(2))
  then show "length (snd r) = length h - 1"
    by (simp only: m)
  have heap: "heap_at key ?n d"
  proof (cases "?n = 0")
    case False
    have sw: "?s ! k = (if k = 0 then h ! ?n else if k = ?n then h ! 0 else h ! k)" for k
      using n by (intro nth_swap) auto
    show ?thesis
      unfolding d_def
    proof (rule down_heap)
      fix k
      assume k: "0 < k" "k < ?n" "parent k \<noteq> 0"
      then show "key (?s ! parent k) \<le> key (?s ! k)"
        using assms(1) parent_less [of k] n(1) by (auto simp: sw heap_at_def)
    qed (use False n in auto)
  qed (simp add: heap_at_def)
  show "heap_at key (length (snd r)) (snd r)"
    unfolding heap_at_def
  proof (intro allI impI)
    fix k
    assume k: "0 < k \<and> k < length (snd r)"
    then have "parent k < length (butlast d)" "k < length (butlast d)"
      using parent_less [of k] by (simp_all add: r)
    with k heap len show "key (snd r ! parent k) \<le> key (snd r ! k)"
      by (simp add: r nth_butlast heap_at_def)
  qed
qed

lemma heap_pop_length: "h \<noteq> [] \<Longrightarrow> length (snd (heap_pop isLess h)) = length h - 1"
  using down_frame [of "length h - 1" "swap 0 (length h - 1) h" isLess 0] by (simp add: heap_pop_def Let_def)

text \<open>Popping until the heap is empty.\<close>

function drain_heap :: "('a \<Rightarrow> 'a \<Rightarrow> bool) \<Rightarrow> 'a list \<Rightarrow> 'a list" where
  "drain_heap isLess h =
     (if h = [] then [] else fst (heap_pop isLess h) # drain_heap isLess (snd (heap_pop isLess h)))"
  by auto
termination
  by (relation "measure (\<lambda>(_, h). length h)") (auto simp: heap_pop_length)

declare drain_heap.simps [simp del]

interpretation task_heap: priority_queue key "\<lambda>h. heap_at key (length h) h" mset
  "heap_push (\<lambda>a b. key a < key b)" "heap_pop (\<lambda>a b. key a < key b)" "drain_heap (\<lambda>a b. key a < key b)"
  for key :: "'a \<Rightarrow> 'k::linorder"
proof
  fix h :: "'a list" and x y :: 'a
  let ?lt = "\<lambda>a b. key a < key b"
  assume h: "heap_at key (length h) h"
  then show "heap_at key (length (heap_push ?lt x h)) (heap_push ?lt x h)"
    by (rule heap_push_heap)
  show "mset (heap_push ?lt x h) = add_mset x (mset h)"
    by (rule heap_push_mset(1))
  show "drain_heap ?lt h = []" if "mset h = {#}"
    using that by (simp add: drain_heap.simps)
  show "mset h \<noteq> {#} \<Longrightarrow> heap_at key (length (snd (heap_pop ?lt h))) (snd (heap_pop ?lt h))"
    "mset h \<noteq> {#} \<Longrightarrow> mset h = add_mset (fst (heap_pop ?lt h)) (mset (snd (heap_pop ?lt h)))"
    using heap_pop_spec [OF h] by auto
  show "key (fst (heap_pop ?lt h)) \<le> key y" if "y \<in># mset h"
  proof -
    from that obtain k where "k < length h" "y = h ! k"
      by (auto simp: in_set_conv_nth)
    then show ?thesis
      using heap_root_least [OF h, of k] heap_pop_spec(1) [OF h] by (cases "h = []") auto
  qed
  show "drain_heap ?lt h = fst (heap_pop ?lt h) # drain_heap ?lt (snd (heap_pop ?lt h))" if "mset h \<noteq> {#}"
    using that by (subst drain_heap.simps) simp
qed

end
