(* ===== verification/Search_Scheduler.thy ===== *)
theory Search_Scheduler
  imports Rate_Limiter Task_Heap
begin

text \<open>
  The search scheduler (\<open>src/internal/services/jackett/scheduler.go\<close>, second part). The state behind
  \<open>s.mu\<close> is the record \<open>sched\<close>; besides the fields of \<open>searchScheduler\<close> it has the \<open>Submit\<close> calls
  under way, the workers that are about to release their slot, and the callbacks and activity events
  emitted so far. The goroutines (callers of \<open>Submit\<close>, the loop, the workers, timers and the users of
  the rate limiter) are the rules of the step relation \<open>sched_step\<close>, one atomic section each. What a
  section reads from outside, the clock and \<open>ctx.Err()\<close>, is an argument that the step chooses freely.
\<close>

section \<open>Data\<close>

record indexer =
  ix_ID :: int
  ix_Name :: string

record search_meta =
  sm_categories :: "int list"
  sm_contentType :: string
  sm_searchMode :: string
  sm_rateLimit :: "rate_options option"
  sm_releaseName :: string
  sm_skipHistory :: bool

text \<open>The context of the caller, or the one the scheduler makes for a task, with its timeout.\<close>

datatype ctx = CallerCtx nat | FreshCtx nat int

datatype ctx_err = Canceled | DeadlineExceeded

record callbacks =
  cb_OnComplete :: bool
  cb_OnJobDone :: bool

record worker_task =
  wt_jobID :: nat
  wt_taskID :: nat
  wt_indexer :: indexer
  wt_params :: "(string, string list) gomap"
  wt_meta :: "search_meta option"
  wt_ctx :: ctx
  wt_ctxCancel :: bool
  wt_callbacks :: callbacks
  wt_isRSS :: bool

record task_item =
  ti_task :: worker_task
  ti_priority :: nat
  ti_created :: int
  ti_started :: int

record job_state =
  js_totalTasks :: nat
  js_completedTasks :: nat
  js_callbacks :: callbacks

record wait_error =
  we_IndexerID :: int
  we_IndexerName :: string
  we_Wait :: int
  we_MaxWait :: int
  we_Priority :: string

datatype task_err = ErrCtx ctx_err | ErrRateLimitWait wait_error | ErrExec string

record history_entry =
  he_JobID :: nat
  he_TaskID :: nat
  he_IndexerID :: int
  he_IndexerName :: string
  he_Query :: string
  he_ReleaseName :: string
  he_Params :: "(string, string) gomap"
  he_Categories :: "int list"
  he_ContentType :: string
  he_Priority :: string
  he_SearchMode :: string
  he_Status :: string
  he_ResultCount :: nat
  he_StartedAt :: int
  he_CompletedAt :: int
  he_Error :: "task_err option"

datatype event =
    EvComplete worker_task "string list" "int list" "task_err option"
  | EvJobDone nat
  | EvIndexerActivity
  | EvSearchHistory

record submit_request =
  sr_Indexers :: "indexer option list"
  sr_Params :: "(string, string list) gomap"
  sr_Meta :: "search_meta option"
  sr_Callbacks :: callbacks

text \<open>A call of \<open>Submit\<close> under way: the indexers it has not looked at and the tasks it has made.\<close>

record submit_call =
  su_req :: submit_request
  su_ctx :: nat
  su_job :: nat
  su_rest :: "indexer option list"
  su_tasks :: "worker_task list"
  su_registered :: bool

record sched =
  sc_rateLimiter :: rate_limiter
  sc_taskQueue :: "task_item list"
  sc_pendingRSS :: "int goset"
  sc_workerCap :: nat
  sc_workersInUse :: nat
  sc_inFlight :: "(int, task_item) gomap"
  sc_jobs :: "(nat, job_state) gomap"
  sc_submitCh :: "worker_task list list"
  sc_completeCh :: nat
  sc_stopped :: bool
  sc_jobSeq :: nat
  sc_taskSeq :: nat
  sc_retryTimer :: "int option"
  sc_coalesce :: bool
  sc_recorder :: bool
  sc_history :: "history_entry list"
  sc_events :: "event list"
  sc_submits :: "submit_call list"
  sc_started :: "nat list"
  sc_releasing :: nat

section \<open>Priorities and time limits\<close>

definition rssMaxWait :: int where "rssMaxWait = 15 * Second"
definition completionMaxWait :: int where "completionMaxWait = 30 * Second"
definition backgroundMaxWait :: int where "backgroundMaxWait = 60 * Second"
definition maxRetryTimerInterval :: int where "maxRetryTimerInterval = 15 * Minute"
definition rssExecutionTimeout :: int where "rssExecutionTimeout = 15 * Second"
definition completionExecutionTimeout :: int where "completionExecutionTimeout = 45 * Second"
definition backgroundExecutionTimeout :: int where "backgroundExecutionTimeout = 60 * Second"
definition defaultExecutionTimeout :: int where "defaultExecutionTimeout = 30 * Second"
definition defaultMaxWorkers :: nat where "defaultMaxWorkers = 10"

definition rl_opts :: "search_meta option \<Rightarrow> rate_options option" where
  "rl_opts meta = (case meta of None \<Rightarrow> None | Some m \<Rightarrow> sm_rateLimit m)"

definition jobPriority :: "search_meta option \<Rightarrow> nat" where
  "jobPriority meta =
     (case rl_opts meta of
        Some o' \<Rightarrow>
          if ro_Priority o' = RateLimitPriorityInteractive then 0
          else if ro_Priority o' = RateLimitPriorityRSS then 1
          else if ro_Priority o' = RateLimitPriorityCompletion then 2
          else 3
      | None \<Rightarrow> 3)"

definition getMaxWait :: "worker_task \<Rightarrow> int" where
  "getMaxWait task =
     (case rl_opts (wt_meta task) of
        Some o' \<Rightarrow>
          if ro_MaxWait o' > 0 then ro_MaxWait o'
          else if ro_Priority o' = RateLimitPriorityRSS then rssMaxWait
          else if ro_Priority o' = RateLimitPriorityCompletion then completionMaxWait
          else if ro_Priority o' = RateLimitPriorityBackground then backgroundMaxWait
          else 0
      | None \<Rightarrow> 0)"

definition getExecutionTimeout :: "worker_task \<Rightarrow> int" where
  "getExecutionTimeout task =
     (case rl_opts (wt_meta task) of
        Some o' \<Rightarrow>
          if ro_Priority o' = RateLimitPriorityRSS then rssExecutionTimeout
          else if ro_Priority o' = RateLimitPriorityCompletion then completionExecutionTimeout
          else if ro_Priority o' = RateLimitPriorityBackground then backgroundExecutionTimeout
          else defaultExecutionTimeout
      | None \<Rightarrow> defaultExecutionTimeout)"

definition item_less :: "task_item \<Rightarrow> task_item \<Rightarrow> bool" where
  "item_less a b =
     (if ti_priority a = ti_priority b then ti_created a < ti_created b else ti_priority a < ti_priority b)"

definition item_key :: "task_item \<Rightarrow> nat \<times> int" where
  "item_key a = (ti_priority a, ti_created a)"

lemma item_less_key: "item_less = (\<lambda>a b. item_key a < item_key b)"
  by (intro ext) (auto simp: item_less_def item_key_def less_prod_def')

section \<open>Completion\<close>

definition newSearchScheduler :: "rate_limiter option \<Rightarrow> int \<Rightarrow> bool \<Rightarrow> sched" where
  "newSearchScheduler rl maxWorkers recorder =
     \<lparr>sc_rateLimiter = (case rl of Some r \<Rightarrow> r | None \<Rightarrow> NewRateLimiter defaultMinRequestInterval),
      sc_taskQueue = [], sc_pendingRSS = [],
      sc_workerCap = (if maxWorkers \<le> 0 then defaultMaxWorkers else nat maxWorkers), sc_workersInUse = 0,
      sc_inFlight = [], sc_jobs = [], sc_submitCh = [], sc_completeCh = 0, sc_stopped = False,
      sc_jobSeq = 0, sc_taskSeq = 0, sc_retryTimer = None, sc_coalesce = False, sc_recorder = recorder,
      sc_history = [], sc_events = [], sc_submits = [], sc_started = [], sc_releasing = 0\<rparr>"

definition historyEntry :: "task_item \<Rightarrow> int \<Rightarrow> string list \<Rightarrow> task_err option \<Rightarrow> history_entry" where
  "historyEntry item completedAt results err =
     (let task = ti_task item;
          priority = (case rl_opts (wt_meta task) of None \<Rightarrow> [] | Some o' \<Rightarrow> ro_Priority o')
      in \<lparr>he_JobID = wt_jobID task, he_TaskID = wt_taskID task,
          he_IndexerID = ix_ID (wt_indexer task), he_IndexerName = ix_Name (wt_indexer task),
          he_Query = (case gm_get (wt_params task) ''q'' of Some (v # _) \<Rightarrow> v | _ \<Rightarrow> []),
          he_ReleaseName = (case wt_meta task of None \<Rightarrow> [] | Some m \<Rightarrow> sm_releaseName m),
          he_Params = List.map_filter (\<lambda>(k, v). if k \<noteq> ''apikey'' \<and> v \<noteq> [] then Some (k, hd v) else None) (wt_params task),
          he_Categories = (case wt_meta task of None \<Rightarrow> [] | Some m \<Rightarrow> sm_categories m),
          he_ContentType = (case wt_meta task of None \<Rightarrow> [] | Some m \<Rightarrow> sm_contentType m),
          he_Priority = (if priority = [] then RateLimitPriorityBackground else priority),
          he_SearchMode = (case wt_meta task of None \<Rightarrow> [] | Some m \<Rightarrow> sm_searchMode m),
          he_Status = (case err of None \<Rightarrow> ''success'' | Some (ErrRateLimitWait _) \<Rightarrow> ''rate_limited'' | Some _ \<Rightarrow> ''error''),
          he_ResultCount = length results,
          he_StartedAt = ti_started item, he_CompletedAt = completedAt, he_Error = err\<rparr>)"

definition handleTaskCompleteLocked ::
  "task_item \<Rightarrow> int \<Rightarrow> string list \<Rightarrow> int list \<Rightarrow> task_err option \<Rightarrow> sched \<Rightarrow> bool \<times> sched" where
  "handleTaskCompleteLocked item now results coverage err s =
     (let task = ti_task item;
          s = (if cb_OnComplete (wt_callbacks task)
               then s\<lparr>sc_events := sc_events s @ [EvComplete task results coverage err]\<rparr> else s);
          record_it = (sc_recorder s \<and> (case wt_meta task of None \<Rightarrow> True | Some m \<Rightarrow> \<not> sm_skipHistory m));
          s = (if record_it then s\<lparr>sc_history := sc_history s @ [historyEntry item now results err]\<rparr> else s)
      in (case gm_get (sc_jobs s) (wt_jobID task) of
            None \<Rightarrow> (record_it, s)
          | Some job \<Rightarrow>
              let job = job\<lparr>js_completedTasks := js_completedTasks job + 1\<rparr> in
              if js_completedTasks job \<ge> js_totalTasks job then
                (record_it,
                 s\<lparr>sc_events := sc_events s @ (if cb_OnJobDone (js_callbacks job) then [EvJobDone (wt_jobID task)] else []),
                   sc_jobs := gm_del (wt_jobID task) (sc_jobs s)\<rparr>)
              else (record_it, s\<lparr>sc_jobs := gm_put (wt_jobID task) job (sc_jobs s)\<rparr>)))"

definition clearPending :: "worker_task \<Rightarrow> sched \<Rightarrow> sched" where
  "clearPending task s =
     (if wt_isRSS task then s\<lparr>sc_pendingRSS := filter (\<lambda>i. i \<noteq> ix_ID (wt_indexer task)) (sc_pendingRSS s)\<rparr> else s)"

definition clearPendingRSSLocked :: "worker_task list \<Rightarrow> sched \<Rightarrow> sched" where
  "clearPendingRSSLocked tasks s = fold clearPending tasks s"

section \<open>Submitting\<close>

definition isRSSMeta :: "search_meta option \<Rightarrow> bool" where
  "isRSSMeta meta = (case rl_opts meta of None \<Rightarrow> False | Some o' \<Rightarrow> ro_Priority o' = RateLimitPriorityRSS)"

text \<open>The start of \<open>Submit\<close>: a call without indexers returns at once.\<close>

definition submitStart :: "nat \<Rightarrow> submit_request \<Rightarrow> sched \<Rightarrow> sched" where
  "submitStart ctx req s =
     (if sr_Indexers req = [] then
        s\<lparr>sc_events := sc_events s @ (if cb_OnJobDone (sr_Callbacks req) then [EvJobDone 0] else [])\<rparr>
      else
        s\<lparr>sc_jobSeq := sc_jobSeq s + 1,
          sc_submits := sc_submits s @ [\<lparr>su_req = req, su_ctx = ctx, su_job = sc_jobSeq s + 1,
            su_rest = sr_Indexers req, su_tasks = [], su_registered = False\<rparr>]\<rparr>)"

text \<open>One round of the loop over the indexers, for the \<open>k\<close>-th call under way.\<close>

definition submitIndexer :: "nat \<Rightarrow> sched \<Rightarrow> sched" where
  "submitIndexer k s =
     (let su = sc_submits s ! k; req = su_req su; rest = tl (su_rest su) in
      case hd (su_rest su) of
        None \<Rightarrow> s\<lparr>sc_submits := (sc_submits s)[k := su\<lparr>su_rest := rest\<rparr>]\<rparr>
      | Some idx \<Rightarrow>
          if isRSSMeta (sr_Meta req) \<and> ix_ID idx \<in> set (sc_pendingRSS s)
          then s\<lparr>sc_submits := (sc_submits s)[k := su\<lparr>su_rest := rest\<rparr>]\<rparr>
          else
            let s = (if isRSSMeta (sr_Meta req) then s\<lparr>sc_pendingRSS := gs_add (ix_ID idx) (sc_pendingRSS s)\<rparr> else s);
                task = \<lparr>wt_jobID = su_job su, wt_taskID = sc_taskSeq s + 1, wt_indexer = idx, wt_params = sr_Params req,
                  wt_meta = sr_Meta req, wt_ctx = CallerCtx (su_ctx su), wt_ctxCancel = False,
                  wt_callbacks = sr_Callbacks req, wt_isRSS = isRSSMeta (sr_Meta req)\<rparr>
            in s\<lparr>sc_taskSeq := sc_taskSeq s + 1,
                 sc_submits := (sc_submits s)[k := su\<lparr>su_rest := rest, su_tasks := su_tasks su @ [task]\<rparr>]\<rparr>)"

definition drop_nth :: "nat \<Rightarrow> 'a list \<Rightarrow> 'a list" where
  "drop_nth k xs = take k xs @ drop (k + 1) xs"

text \<open>After the loop: without tasks the job is done, otherwise it is registered.\<close>

definition submitRegister :: "nat \<Rightarrow> sched \<Rightarrow> sched" where
  "submitRegister k s =
     (let su = sc_submits s ! k in
      if su_tasks su = [] then
        s\<lparr>sc_events := sc_events s @ (if cb_OnJobDone (sr_Callbacks (su_req su)) then [EvJobDone (su_job su)] else []),
          sc_submits := drop_nth k (sc_submits s)\<rparr>
      else
        s\<lparr>sc_jobs := gm_put (su_job su) \<lparr>js_totalTasks = length (su_tasks su), js_completedTasks = 0,
            js_callbacks = sr_Callbacks (su_req su)\<rparr> (sc_jobs s),
          sc_submits := (sc_submits s)[k := su\<lparr>su_registered := True\<rparr>]\<rparr>)"

text \<open>The two branches of the final \<open>select\<close>.\<close>

definition submitSend :: "nat \<Rightarrow> sched \<Rightarrow> sched" where
  "submitSend k s =
     s\<lparr>sc_submitCh := sc_submitCh s @ [su_tasks (sc_submits s ! k)], sc_submits := drop_nth k (sc_submits s)\<rparr>"

definition submitAbort :: "nat \<Rightarrow> sched \<Rightarrow> sched" where
  "submitAbort k s =
     (let su = sc_submits s ! k in
      clearPendingRSSLocked (su_tasks su)
        (s\<lparr>sc_jobs := gm_del (su_job su) (sc_jobs s), sc_submits := drop_nth k (sc_submits s)\<rparr>))"

section \<open>Dispatching\<close>

definition enqueueTasks :: "worker_task list \<Rightarrow> (nat \<Rightarrow> int) \<Rightarrow> sched \<Rightarrow> sched" where
  "enqueueTasks tasks now s =
     (let s = s\<lparr>sc_taskQueue := fold (\<lambda>task. heap_push item_less
            \<lparr>ti_task = task, ti_priority = jobPriority (wt_meta task), ti_created = now (wt_taskID task), ti_started = 0\<rparr>) tasks (sc_taskQueue s)\<rparr>
      in if tasks \<noteq> [] then s\<lparr>sc_events := sc_events s @ [EvIndexerActivity]\<rparr> else s)"

text \<open>
  What a dispatch reads from outside: the successive results of \<open>ctx.Err()\<close> for a context, the time at
  which the rate limiter is asked for a task, in the loop and when the timer is set, and \<open>time.Now()\<close>.
\<close>

record dispatch_env =
  de_err :: "ctx \<Rightarrow> nat \<Rightarrow> ctx_err option"
  de_now :: "nat \<Rightarrow> int"
  de_timerNow :: "nat \<Rightarrow> int"
  de_clock :: int

record dispatch_acc =
  da_s :: sched
  da_blocked :: "task_item list"
  da_completed :: bool
  da_recorded :: bool

definition dispatchSkip :: "dispatch_env \<Rightarrow> task_item \<Rightarrow> task_err \<Rightarrow> dispatch_acc \<Rightarrow> dispatch_acc" where
  "dispatchSkip env item err acc =
     (case handleTaskCompleteLocked (item\<lparr>ti_started := de_clock env\<rparr>) (de_clock env) [] [] (Some err) (da_s acc) of
        (recorded, s) \<Rightarrow>
          acc\<lparr>da_s := clearPending (ti_task item) s, da_completed := True, da_recorded := recorded \<or> da_recorded acc\<rparr>)"

definition dispatchItem :: "dispatch_env \<Rightarrow> task_item \<Rightarrow> dispatch_acc \<Rightarrow> dispatch_acc" where
  "dispatchItem env item acc =
     (if de_err env (wt_ctx (ti_task item)) 0 = Some Canceled
      then dispatchSkip env item (ErrCtx Canceled) acc
      else
        let expired = (de_err env (wt_ctx (ti_task item)) 1 = Some DeadlineExceeded \<and> \<not> wt_ctxCancel (ti_task item));
            task = (if expired then (ti_task item)\<lparr>wt_ctx := FreshCtx (wt_taskID (ti_task item)) (getExecutionTimeout (ti_task item)),
                      wt_ctxCancel := True\<rparr> else ti_task item);
            item = item\<lparr>ti_task := task\<rparr>
        in case (if wt_ctxCancel task then de_err env (wt_ctx task) 2 else None) of
             Some e \<Rightarrow> dispatchSkip env item (ErrCtx e) acc
           | None \<Rightarrow>
               let s = da_s acc; i = ix_ID (wt_indexer task) in
               if gm_has (sc_inFlight s) i then acc\<lparr>da_blocked := da_blocked acc @ [item]\<rparr>
               else (case NextWait i (rl_opts (wt_meta task)) (de_now env (wt_taskID task)) (sc_rateLimiter s) of
                  (wait, rl) \<Rightarrow>
                    let s = s\<lparr>sc_rateLimiter := rl\<rparr>; maxWait = getMaxWait task in
                    if maxWait > 0 \<and> wait > maxWait then
                      dispatchSkip env item (ErrRateLimitWait \<lparr>we_IndexerID = i, we_IndexerName = ix_Name (wt_indexer task),
                        we_Wait = wait, we_MaxWait = maxWait,
                        we_Priority = (case rl_opts (wt_meta task) of None \<Rightarrow> [] | Some o' \<Rightarrow> ro_Priority o')\<rparr>) (acc\<lparr>da_s := s\<rparr>)
                    else if wait > 0 then acc\<lparr>da_s := s, da_blocked := da_blocked acc @ [item]\<rparr>
                    else if sc_workersInUse s < sc_workerCap s then
                      acc\<lparr>da_s := s\<lparr>sc_workersInUse := sc_workersInUse s + 1, sc_inFlight := gm_put i item (sc_inFlight s)\<rparr>\<rparr>
                    else acc\<lparr>da_s := s, da_blocked := da_blocked acc @ [item]\<rparr>))"

definition retryWait :: "dispatch_env \<Rightarrow> task_item \<Rightarrow> int \<times> rate_limiter \<Rightarrow> int \<times> rate_limiter" where
  "retryWait env item acc =
     (let (minWait, rl) = acc; task = ti_task item in
      case NextWait (ix_ID (wt_indexer task)) (rl_opts (wt_meta task)) (de_timerNow env (wt_taskID task)) rl of
        (wait, rl) \<Rightarrow> (if wait > 0 \<and> (minWait = 0 \<or> wait < minWait) then wait else minWait, rl))"

definition scheduleRetryTimerLocked :: "dispatch_env \<Rightarrow> sched \<Rightarrow> sched" where
  "scheduleRetryTimerLocked env s =
     (if sc_taskQueue s = [] then s
      else (case fold (retryWait env) (sc_taskQueue s) (0, sc_rateLimiter s) of
          (minWait, rl) \<Rightarrow>
            let s = s\<lparr>sc_rateLimiter := rl\<rparr> in
            if minWait > 0 then s\<lparr>sc_retryTimer := Some (min minWait maxRetryTimerInterval)\<rparr> else s))"

definition dispatchTasks :: "dispatch_env \<Rightarrow> sched \<Rightarrow> sched" where
  "dispatchTasks env s =
     (if sc_taskQueue s = [] then s
      else
        let items = drain_heap item_less (sc_taskQueue s);
            acc = fold (dispatchItem env) items
              \<lparr>da_s = s\<lparr>sc_taskQueue := []\<rparr>, da_blocked = [], da_completed = False, da_recorded = False\<rparr>;
            s = da_s acc;
            s = s\<lparr>sc_taskQueue := fold (heap_push item_less) (da_blocked acc) (sc_taskQueue s)\<rparr>;
            s = scheduleRetryTimerLocked env s
        in s\<lparr>sc_events := sc_events s @ (if da_completed acc then [EvIndexerActivity] else [])
               @ (if da_recorded acc then [EvSearchHistory] else [])\<rparr>)"

section \<open>Workers\<close>

definition executeStart :: "int \<Rightarrow> int \<Rightarrow> sched \<Rightarrow> sched" where
  "executeStart i now s =
     (case gm_get (sc_inFlight s) i of
        None \<Rightarrow> s
      | Some item \<Rightarrow>
          s\<lparr>sc_rateLimiter := RecordRequestStart i None now (sc_rateLimiter s),
            sc_inFlight := gm_put i (item\<lparr>ti_started := now\<rparr>) (sc_inFlight s),
            sc_started := sc_started s @ [wt_taskID (ti_task item)]\<rparr>)"

text \<open>
  The end of \<open>executeTask\<close>, with what the search returned, a recovered panic or the error of its context:
  the request is recorded as complete and, under the lock, the task is completed and leaves \<open>inFlight\<close>.
\<close>

definition executeFinish :: "int \<Rightarrow> int \<Rightarrow> string list \<Rightarrow> int list \<Rightarrow> task_err option \<Rightarrow> sched \<Rightarrow> sched" where
  "executeFinish i now results coverage err s =
     (case gm_get (sc_inFlight s) i of
        None \<Rightarrow> s
      | Some item \<Rightarrow>
          let s = s\<lparr>sc_rateLimiter := RecordRequestComplete i None now (sc_rateLimiter s)\<rparr> in
          (case handleTaskCompleteLocked item now results coverage err s of
             (recorded, s) \<Rightarrow>
               let s = clearPending (ti_task item) (s\<lparr>sc_inFlight := gm_del i (sc_inFlight s)\<rparr>)
               in s\<lparr>sc_releasing := sc_releasing s + 1,
                    sc_started := filter (\<lambda>t. t \<noteq> wt_taskID (ti_task item)) (sc_started s),
                    sc_events := sc_events s @ [EvIndexerActivity] @ (if recorded then [EvSearchHistory] else [])\<rparr>))"

definition notify :: "sched \<Rightarrow> sched" where
  "notify s = s\<lparr>sc_completeCh := min 128 (sc_completeCh s + 1)\<rparr>"

definition releaseWorker :: "sched \<Rightarrow> sched" where
  "releaseWorker s = notify (s\<lparr>sc_releasing := sc_releasing s - 1, sc_workersInUse := sc_workersInUse s - 1\<rparr>)"

section \<open>Status\<close>

record task_status =
  st_JobID :: nat
  st_TaskID :: nat
  st_IndexerID :: int
  st_IndexerName :: string
  st_Priority :: string
  st_CreatedAt :: int
  st_IsRSS :: bool

record job_status =
  jst_JobID :: nat
  jst_TotalTasks :: nat
  jst_CompletedTasks :: nat

record scheduler_status =
  sst_QueuedTasks :: "task_status list"
  sst_InFlightTasks :: "task_status list"
  sst_ActiveJobs :: "job_status list"
  sst_QueueLength :: nat
  sst_WorkerCount :: nat
  sst_WorkersInUse :: nat

definition taskStatus :: "task_item \<Rightarrow> task_status" where
  "taskStatus item =
     (let task = ti_task item in
      \<lparr>st_JobID = wt_jobID task, st_TaskID = wt_taskID task, st_IndexerID = ix_ID (wt_indexer task),
       st_IndexerName = ix_Name (wt_indexer task),
       st_Priority = (case rl_opts (wt_meta task) of None \<Rightarrow> RateLimitPriorityBackground | Some o' \<Rightarrow> ro_Priority o'),
       st_CreatedAt = ti_created item, st_IsRSS = wt_isRSS task\<rparr>)"

definition GetStatus :: "sched \<Rightarrow> scheduler_status" where
  "GetStatus s =
     \<lparr>sst_QueuedTasks = map taskStatus (sc_taskQueue s),
      sst_InFlightTasks = map (\<lambda>(_, item). taskStatus item) (sc_inFlight s),
      sst_ActiveJobs = map (\<lambda>(j, job). \<lparr>jst_JobID = j, jst_TotalTasks = js_totalTasks job, jst_CompletedTasks = js_completedTasks job\<rparr>) (sc_jobs s),
      sst_QueueLength = length (sc_taskQueue s), sst_WorkerCount = sc_workerCap s, sst_WorkersInUse = sc_workersInUse s\<rparr>"

section \<open>Steps\<close>

inductive sched_step :: "sched \<Rightarrow> sched \<Rightarrow> bool" where
  submit: "sched_step s (submitStart ctx req s)"
| indexer: "k < length (sc_submits s) \<Longrightarrow> \<not> su_registered (sc_submits s ! k) \<Longrightarrow> su_rest (sc_submits s ! k) \<noteq> [] \<Longrightarrow>
    sched_step s (submitIndexer k s)"
| register: "k < length (sc_submits s) \<Longrightarrow> \<not> su_registered (sc_submits s ! k) \<Longrightarrow> su_rest (sc_submits s ! k) = [] \<Longrightarrow>
    sched_step s (submitRegister k s)"
| send: "k < length (sc_submits s) \<Longrightarrow> su_registered (sc_submits s ! k) \<Longrightarrow> length (sc_submitCh s) < 128 \<Longrightarrow>
    sched_step s (submitSend k s)"
| abort: "k < length (sc_submits s) \<Longrightarrow> su_registered (sc_submits s ! k) \<Longrightarrow> sched_step s (submitAbort k s)"
| receive: "\<not> sc_stopped s \<Longrightarrow> sc_submitCh s = batch # rest \<Longrightarrow>
    sched_step s (enqueueTasks batch now (s\<lparr>sc_submitCh := rest, sc_coalesce := True\<rparr>))"
| complete: "\<not> sc_stopped s \<Longrightarrow> sc_completeCh s > 0 \<Longrightarrow>
    sched_step s (dispatchTasks env (s\<lparr>sc_completeCh := sc_completeCh s - 1\<rparr>))"
| coalesce: "\<not> sc_stopped s \<Longrightarrow> sc_coalesce s \<Longrightarrow> sched_step s (dispatchTasks env (s\<lparr>sc_coalesce := False\<rparr>))"
| start: "gm_get (sc_inFlight s) i = Some item \<Longrightarrow> wt_taskID (ti_task item) \<notin> set (sc_started s) \<Longrightarrow>
    sched_step s (executeStart i now s)"
| finish: "gm_get (sc_inFlight s) i = Some item \<Longrightarrow> wt_taskID (ti_task item) \<in> set (sc_started s) \<Longrightarrow>
    sched_step s (executeFinish i now results coverage err s)"
| release: "sc_releasing s > 0 \<Longrightarrow> sched_step s (releaseWorker s)"
| timer: "sc_retryTimer s = Some d \<Longrightarrow> sched_step s (notify (s\<lparr>sc_retryTimer := None\<rparr>))"
| stop: "sched_step s (s\<lparr>sc_stopped := True\<rparr>)"
| limiter: "sched_step s (s\<lparr>sc_rateLimiter := rl\<rparr>)"

inductive sched_reachable :: "sched \<Rightarrow> bool" where
  init: "sched_reachable (newSearchScheduler rl maxWorkers recorder)"
| step: "sched_reachable s \<Longrightarrow> sched_step s s' \<Longrightarrow> sched_reachable s'"

section \<open>The ledger of outstanding tasks\<close>

text \<open>
  What identifies a task: its id, its job, its indexer and whether it is an RSS task. The ledger
  relates the tasks that are somewhere in the scheduler to its book-keeping, wherever they are.
\<close>

type_synonym ident = "nat \<times> nat \<times> int \<times> bool"

definition ident :: "worker_task \<Rightarrow> ident" where
  "ident t = (wt_taskID t, wt_jobID t, ix_ID (wt_indexer t), wt_isRSS t)"

abbreviation i_task :: "ident \<Rightarrow> nat" where "i_task \<equiv> fst"
abbreviation i_job :: "ident \<Rightarrow> nat" where "i_job x \<equiv> fst (snd x)"
abbreviation i_ix :: "ident \<Rightarrow> int" where "i_ix x \<equiv> fst (snd (snd x))"
abbreviation i_rss :: "ident \<Rightarrow> bool" where "i_rss x \<equiv> snd (snd (snd x))"

definition uniq :: "'a multiset \<Rightarrow> bool" where
  "uniq M \<longleftrightarrow> (\<forall>x. count M x \<le> 1)"

definition rss_ix :: "ident multiset \<Rightarrow> int multiset" where
  "rss_ix M = image_mset (\<lambda>x. i_ix x) (filter_mset (\<lambda>x. i_rss x) M)"

definition jobcount :: "nat \<Rightarrow> ident multiset \<Rightarrow> nat" where
  "jobcount j M = size (filter_mset (\<lambda>x. i_job x = j) M)"

definition job_dones :: "event list \<Rightarrow> nat list" where
  "job_dones es = List.map_filter (\<lambda>e. case e of EvJobDone j \<Rightarrow> if j > 0 then Some j else None | _ \<Rightarrow> None) es"

definition task_dones :: "event list \<Rightarrow> nat list" where
  "task_dones es = List.map_filter (\<lambda>e. case e of EvComplete t _ _ _ \<Rightarrow> Some (wt_taskID t) | _ \<Rightarrow> None) es"

lemma map_filter_append [simp]: "List.map_filter f (xs @ ys) = List.map_filter f xs @ List.map_filter f ys"
  by (induction xs) auto

lemma dones_append [simp]:
  "job_dones (es @ fs) = job_dones es @ job_dones fs" "task_dones (es @ fs) = task_dones es @ task_dones fs"
  "job_dones [] = []" "task_dones [] = []"
  "job_dones (EvIndexerActivity # es) = job_dones es" "task_dones (EvIndexerActivity # es) = task_dones es"
  "job_dones (EvSearchHistory # es) = job_dones es" "task_dones (EvSearchHistory # es) = task_dones es"
  "job_dones (EvJobDone j # es) = (if j > 0 then [j] else []) @ job_dones es" "task_dones (EvJobDone j # es) = task_dones es"
  "job_dones (EvComplete t r c e # es) = job_dones es" "task_dones (EvComplete t r c e # es) = wt_taskID t # task_dones es"
  by (auto simp: job_dones_def task_dones_def)

lemma uniq_add: "uniq (add_mset x M) \<longleftrightarrow> x \<notin># M \<and> uniq M"
proof
  assume u: "uniq (add_mset x M)"
  have "count M y \<le> 1" for y
    using spec [OF u [unfolded uniq_def], of y] by (auto split: if_splits)
  moreover have "count M x = 0"
    using spec [OF u [unfolded uniq_def], of x] by simp
  ultimately show "x \<notin># M \<and> uniq M"
    by (simp add: uniq_def not_in_iff)
next
  assume "x \<notin># M \<and> uniq M"
  then show "uniq (add_mset x M)"
    by (auto simp: uniq_def not_in_iff)
qed

lemma uniq_empty [simp]: "uniq {#}"
  by (simp add: uniq_def)

lemma uniq_subset: "uniq M \<Longrightarrow> N \<subseteq># M \<Longrightarrow> uniq N"
  unfolding uniq_def by (meson mset_subset_eq_count order_trans)

lemma jobcount_simps [simp]:
  "jobcount j {#} = 0" "jobcount j (add_mset x M) = (if i_job x = j then 1 else 0) + jobcount j M"
  "jobcount j (M + N) = jobcount j M + jobcount j N"
  by (auto simp: jobcount_def)

lemma rss_ix_simps [simp]:
  "rss_ix {#} = {#}" "rss_ix (add_mset x M) = (if i_rss x then {#i_ix x#} else {#}) + rss_ix M"
  "rss_ix (M + N) = rss_ix M + rss_ix N"
  by (auto simp: rss_ix_def)

lemma jobcount_pos: "x \<in># M \<Longrightarrow> i_job x = j \<Longrightarrow> jobcount j M > 0"
  unfolding jobcount_def by (metis (mono_tags, lifting) filter_mset_eq_conv mem_Collect_eq nonempty_has_size set_mset_empty set_mset_filter empty_iff)

record ledger =
  lg_pending :: "int goset"
  lg_jobs :: "(nat, job_state) gomap"
  lg_jobDones :: "nat list"
  lg_taskDones :: "nat list"
  lg_taskSeq :: nat
  lg_jobSeq :: nat
  lg_open :: "nat set"

lemma lg_sel [simp]:
  "lg_pending (l\<lparr>lg_pending := a\<rparr>) = a" "lg_pending (l\<lparr>lg_jobs := b\<rparr>) = lg_pending l" "lg_pending (l\<lparr>lg_jobDones := c\<rparr>) = lg_pending l"
  "lg_pending (l\<lparr>lg_taskDones := c\<rparr>) = lg_pending l" "lg_pending (l\<lparr>lg_taskSeq := n\<rparr>) = lg_pending l"
  "lg_pending (l\<lparr>lg_jobSeq := n\<rparr>) = lg_pending l" "lg_pending (l\<lparr>lg_open := u\<rparr>) = lg_pending l"
  "lg_jobs (l\<lparr>lg_pending := a\<rparr>) = lg_jobs l" "lg_jobs (l\<lparr>lg_jobs := b\<rparr>) = b" "lg_jobs (l\<lparr>lg_jobDones := c\<rparr>) = lg_jobs l"
  "lg_jobs (l\<lparr>lg_taskDones := c\<rparr>) = lg_jobs l" "lg_jobs (l\<lparr>lg_taskSeq := n\<rparr>) = lg_jobs l"
  "lg_jobs (l\<lparr>lg_jobSeq := n\<rparr>) = lg_jobs l" "lg_jobs (l\<lparr>lg_open := u\<rparr>) = lg_jobs l"
  "lg_jobDones (l\<lparr>lg_pending := a\<rparr>) = lg_jobDones l" "lg_jobDones (l\<lparr>lg_jobs := b\<rparr>) = lg_jobDones l" "lg_jobDones (l\<lparr>lg_jobDones := c\<rparr>) = c"
  "lg_jobDones (l\<lparr>lg_taskDones := c\<rparr>) = lg_jobDones l" "lg_jobDones (l\<lparr>lg_taskSeq := n\<rparr>) = lg_jobDones l"
  "lg_jobDones (l\<lparr>lg_jobSeq := n\<rparr>) = lg_jobDones l" "lg_jobDones (l\<lparr>lg_open := u\<rparr>) = lg_jobDones l"
  "lg_taskDones (l\<lparr>lg_pending := a\<rparr>) = lg_taskDones l" "lg_taskDones (l\<lparr>lg_jobs := b\<rparr>) = lg_taskDones l" "lg_taskDones (l\<lparr>lg_jobDones := c\<rparr>) = lg_taskDones l"
  "lg_taskDones (l\<lparr>lg_taskDones := c\<rparr>) = c" "lg_taskDones (l\<lparr>lg_taskSeq := n\<rparr>) = lg_taskDones l"
  "lg_taskDones (l\<lparr>lg_jobSeq := n\<rparr>) = lg_taskDones l" "lg_taskDones (l\<lparr>lg_open := u\<rparr>) = lg_taskDones l"
  "lg_taskSeq (l\<lparr>lg_pending := a\<rparr>) = lg_taskSeq l" "lg_taskSeq (l\<lparr>lg_jobs := b\<rparr>) = lg_taskSeq l" "lg_taskSeq (l\<lparr>lg_jobDones := c\<rparr>) = lg_taskSeq l"
  "lg_taskSeq (l\<lparr>lg_taskDones := c\<rparr>) = lg_taskSeq l" "lg_taskSeq (l\<lparr>lg_taskSeq := n\<rparr>) = n"
  "lg_taskSeq (l\<lparr>lg_jobSeq := n\<rparr>) = lg_taskSeq l" "lg_taskSeq (l\<lparr>lg_open := u\<rparr>) = lg_taskSeq l"
  "lg_jobSeq (l\<lparr>lg_pending := a\<rparr>) = lg_jobSeq l" "lg_jobSeq (l\<lparr>lg_jobs := b\<rparr>) = lg_jobSeq l" "lg_jobSeq (l\<lparr>lg_jobDones := c\<rparr>) = lg_jobSeq l"
  "lg_jobSeq (l\<lparr>lg_taskDones := c\<rparr>) = lg_jobSeq l" "lg_jobSeq (l\<lparr>lg_taskSeq := n\<rparr>) = lg_jobSeq l"
  "lg_jobSeq (l\<lparr>lg_jobSeq := n\<rparr>) = n" "lg_jobSeq (l\<lparr>lg_open := u\<rparr>) = lg_jobSeq l"
  "lg_open (l\<lparr>lg_pending := a\<rparr>) = lg_open l" "lg_open (l\<lparr>lg_jobs := b\<rparr>) = lg_open l" "lg_open (l\<lparr>lg_jobDones := c\<rparr>) = lg_open l"
  "lg_open (l\<lparr>lg_taskDones := c\<rparr>) = lg_open l" "lg_open (l\<lparr>lg_taskSeq := n\<rparr>) = lg_open l"
  "lg_open (l\<lparr>lg_jobSeq := n\<rparr>) = lg_open l" "lg_open (l\<lparr>lg_open := u\<rparr>) = u"
  by simp_all

definition ledger_ok :: "ident multiset \<Rightarrow> ledger \<Rightarrow> bool" where
  "ledger_ok M l \<longleftrightarrow>
     uniq (image_mset i_task M) \<and> (\<forall>x \<in># M. i_task x \<le> lg_taskSeq l)
   \<and> uniq (rss_ix M) \<and> set (lg_pending l) = set_mset (rss_ix M)
   \<and> gm_ok (lg_jobs l)
   \<and> (\<forall>j js. gm_get (lg_jobs l) j = Some js \<longrightarrow>
         js_totalTasks js = js_completedTasks js + jobcount j M \<and> js_completedTasks js < js_totalTasks js \<and> 0 < j \<and> j \<le> lg_jobSeq l)
   \<and> (\<forall>x \<in># M. gm_has (lg_jobs l) (i_job x) \<or> i_job x \<in> lg_open l)
   \<and> (\<forall>j \<in> lg_open l. \<not> gm_has (lg_jobs l) j \<and> 0 < j \<and> j \<le> lg_jobSeq l)
   \<and> distinct (lg_jobDones l)
   \<and> (\<forall>j \<in> set (lg_jobDones l). \<not> gm_has (lg_jobs l) j \<and> j \<notin> lg_open l \<and> jobcount j M = 0 \<and> j \<le> lg_jobSeq l)
   \<and> distinct (lg_taskDones l)
   \<and> (\<forall>t \<in> set (lg_taskDones l). t \<le> lg_taskSeq l \<and> t \<notin># image_mset i_task M)"

lemma ledger_okD:
  assumes "ledger_ok M l"
  shows "uniq (image_mset i_task M)" "x \<in># M \<Longrightarrow> i_task x \<le> lg_taskSeq l"
    "uniq (rss_ix M)" "set (lg_pending l) = set_mset (rss_ix M)" "gm_ok (lg_jobs l)"
    "gm_get (lg_jobs l) j = Some js \<Longrightarrow> js_totalTasks js = js_completedTasks js + jobcount j M"
    "gm_get (lg_jobs l) j = Some js \<Longrightarrow> js_completedTasks js < js_totalTasks js"
    "gm_get (lg_jobs l) j = Some js \<Longrightarrow> 0 < j \<and> j \<le> lg_jobSeq l"
    "x \<in># M \<Longrightarrow> gm_has (lg_jobs l) (i_job x) \<or> i_job x \<in> lg_open l"
    "j \<in> lg_open l \<Longrightarrow> \<not> gm_has (lg_jobs l) j \<and> 0 < j \<and> j \<le> lg_jobSeq l"
    "distinct (lg_jobDones l)"
    "j \<in> set (lg_jobDones l) \<Longrightarrow> \<not> gm_has (lg_jobs l) j \<and> j \<notin> lg_open l \<and> jobcount j M = 0 \<and> j \<le> lg_jobSeq l"
    "distinct (lg_taskDones l)"
    "t \<in> set (lg_taskDones l) \<Longrightarrow> t \<le> lg_taskSeq l \<and> t \<notin># image_mset i_task M"
  using assms unfolding ledger_ok_def by blast+

lemma ledger_okI:
  assumes "uniq (image_mset i_task M)" "\<And>x. x \<in># M \<Longrightarrow> i_task x \<le> lg_taskSeq l"
    "uniq (rss_ix M)" "set (lg_pending l) = set_mset (rss_ix M)" "gm_ok (lg_jobs l)"
    "\<And>j js. gm_get (lg_jobs l) j = Some js \<Longrightarrow>
       js_totalTasks js = js_completedTasks js + jobcount j M \<and> js_completedTasks js < js_totalTasks js \<and> 0 < j \<and> j \<le> lg_jobSeq l"
    "\<And>x. x \<in># M \<Longrightarrow> gm_has (lg_jobs l) (i_job x) \<or> i_job x \<in> lg_open l"
    "\<And>j. j \<in> lg_open l \<Longrightarrow> \<not> gm_has (lg_jobs l) j \<and> 0 < j \<and> j \<le> lg_jobSeq l"
    "distinct (lg_jobDones l)"
    "\<And>j. j \<in> set (lg_jobDones l) \<Longrightarrow> \<not> gm_has (lg_jobs l) j \<and> j \<notin> lg_open l \<and> jobcount j M = 0 \<and> j \<le> lg_jobSeq l"
    "distinct (lg_taskDones l)"
    "\<And>t. t \<in> set (lg_taskDones l) \<Longrightarrow> t \<le> lg_taskSeq l \<and> t \<notin># image_mset i_task M"
  shows "ledger_ok M l"
  using assms unfolding ledger_ok_def by blast

text \<open>A task is completed: the ledger without it, its job counted or finished, its mark removed.\<close>

definition complete_jobs :: "nat \<Rightarrow> (nat, job_state) gomap \<Rightarrow> (nat, job_state) gomap" where
  "complete_jobs j jobs =
     (case gm_get jobs j of
        None \<Rightarrow> jobs
      | Some job \<Rightarrow> if js_completedTasks job + 1 \<ge> js_totalTasks job then gm_del j jobs
          else gm_put j (job\<lparr>js_completedTasks := js_completedTasks job + 1\<rparr>) jobs)"

definition complete_dones :: "nat \<Rightarrow> (nat, job_state) gomap \<Rightarrow> nat list" where
  "complete_dones j jobs =
     (case gm_get jobs j of
        None \<Rightarrow> []
      | Some job \<Rightarrow> if js_completedTasks job + 1 \<ge> js_totalTasks job \<and> cb_OnJobDone (js_callbacks job) then [j] else [])"

lemma ledger_complete:
  assumes ok: "ledger_ok (add_mset x M) l" and x: "i_job x \<notin> lg_open l"
    and td: "set td \<subseteq> {i_task x}" "distinct td"
  shows "ledger_ok M (l\<lparr>lg_pending := (if i_rss x then filter (\<lambda>i. i \<noteq> i_ix x) (lg_pending l) else lg_pending l),
    lg_jobs := complete_jobs (i_job x) (lg_jobs l),
    lg_jobDones := lg_jobDones l @ complete_dones (i_job x) (lg_jobs l),
    lg_taskDones := lg_taskDones l @ td\<rparr>)"
proof -
  note L = ledger_okD [OF ok]
  let ?j = "i_job x"
  obtain job where job: "gm_get (lg_jobs l) ?j = Some job"
    using L(9) [of x] x by (auto simp: gm_has_get)
  have tot: "js_totalTasks job = js_completedTasks job + 1 + jobcount ?j M"
    using L(6) [OF job] by simp
  have last: "js_completedTasks job + 1 \<ge> js_totalTasks job \<longleftrightarrow> jobcount ?j M = 0"
    using tot by simp
  have pend: "set (if i_rss x then filter (\<lambda>i. i \<noteq> i_ix x) (lg_pending l) else lg_pending l) = set_mset (rss_ix M)"
    using L(3,4) by (auto simp: uniq_add)
  have notdone: "?j \<notin> set (lg_jobDones l)"
    using L(12) [of ?j] job by (auto simp: gm_has_get)
  have x_new: "i_task x \<notin># image_mset i_task M" "i_task x \<le> lg_taskSeq l" "i_task x \<notin> set (lg_taskDones l)"
    using L(1) L(2) [of x] L(14) [of "i_task x"] by (auto simp: uniq_add)
  have td_x: "t \<in> set td \<Longrightarrow> t = i_task x" for t
    using td(1) by auto
  have td_d: "distinct (lg_taskDones l @ td)"
    using L(13) td(2) x_new(3) td_x by auto
  have td1: "t \<le> lg_taskSeq l \<and> t \<notin># image_mset i_task M" if "t \<in> set td" for t
    using x_new td_x [OF that] by simp
  have td2: "t \<le> lg_taskSeq l \<and> t \<notin># image_mset i_task M" if "t \<in> set (lg_taskDones l)" for t
    using L(14) [OF that] by simp
  have td_ok: "t \<in> set (lg_taskDones l @ td) \<Longrightarrow> t \<le> lg_taskSeq l \<and> t \<notin># image_mset i_task M" for t
    using td1 [of t] td2 [of t] unfolding set_append Un_iff by blast
  have uM: "uniq (image_mset i_task M)" "uniq (rss_ix M)" "y \<in># M \<Longrightarrow> i_task y \<le> lg_taskSeq l" for y
    using L(1,3) L(2) [of y] by (auto simp: uniq_add split: if_splits)
  have dn: "set (complete_dones ?j (lg_jobs l)) \<subseteq> (if jobcount ?j M = 0 then {?j} else {})" "distinct (complete_dones ?j (lg_jobs l))"
    using job last by (auto simp: complete_dones_def)
  have get: "gm_get (complete_jobs ?j (lg_jobs l)) j = (if j = ?j then
      (if jobcount ?j M = 0 then None else Some (job\<lparr>js_completedTasks := js_completedTasks job + 1\<rparr>)) else gm_get (lg_jobs l) j)" for j
    using job last by (auto simp: complete_jobs_def)
  have gok: "gm_ok (complete_jobs ?j (lg_jobs l))"
    using L(5) by (auto simp: complete_jobs_def split: option.splits)
  have zero: "y \<in># M \<Longrightarrow> i_job y = ?j \<Longrightarrow> jobcount ?j M \<noteq> 0" for y
    using jobcount_pos [of y M ?j] by simp
  have C: "gm_get (complete_jobs ?j (lg_jobs l)) j = Some js \<Longrightarrow>
      js_totalTasks js = js_completedTasks js + jobcount j M \<and> js_completedTasks js < js_totalTasks js \<and> 0 < j \<and> j \<le> lg_jobSeq l" for j js
    using L(6-8) [of j js] L(8) [OF job] tot by (auto simp: get split: if_splits)
  have D: "y \<in># M \<Longrightarrow> gm_has (complete_jobs ?j (lg_jobs l)) (i_job y) \<or> i_job y \<in> lg_open l" for y
    using L(9) [of y] zero [of y] by (auto simp: gm_has_get get)
  have E: "j \<in> lg_open l \<Longrightarrow> \<not> gm_has (complete_jobs ?j (lg_jobs l)) j \<and> 0 < j \<and> j \<le> lg_jobSeq l" for j
    using L(10) [of j] x by (auto simp: gm_has_get get)
  have F: "j \<in> set (lg_jobDones l @ complete_dones ?j (lg_jobs l)) \<Longrightarrow>
      \<not> gm_has (complete_jobs ?j (lg_jobs l)) j \<and> j \<notin> lg_open l \<and> jobcount j M = 0 \<and> j \<le> lg_jobSeq l" for j
    using L(12) [of j] L(8) [OF job] dn(1) x by (auto simp: gm_has_get get split: if_splits)
  have G: "distinct (lg_jobDones l @ complete_dones ?j (lg_jobs l))"
    using L(11) dn notdone by (auto split: if_splits)
  show ?thesis
    by (rule ledger_okI, simp_all only: lg_sel) (fact uM pend gok G td_d | (rule C D E F td_ok, assumption))+
qed

text \<open>A new task of an open job.\<close>

lemma ledger_add:
  assumes ok: "ledger_ok M l" and "j \<in> lg_open l" and "rss \<Longrightarrow> ix \<notin> set (lg_pending l)"
  shows "ledger_ok (add_mset (lg_taskSeq l + 1, j, ix, rss) M)
    (l\<lparr>lg_pending := (if rss then gs_add ix (lg_pending l) else lg_pending l), lg_taskSeq := lg_taskSeq l + 1\<rparr>)"
proof -
  note L = ledger_okD [OF ok]
  have new: "lg_taskSeq l + 1 \<notin># image_mset i_task M"
    using L(2) by fastforce
  have jobs: "gm_get (lg_jobs l) j = None"
    using L(10) [OF assms(2)] by (simp add: gm_has_get)
  have D: "k \<in> set (lg_jobDones l) \<Longrightarrow> k \<noteq> j" for k
    using L(12) [of k] assms(2) by auto
  have T: "t \<in> set (lg_taskDones l) \<Longrightarrow> t \<noteq> lg_taskSeq l + 1 \<and> t \<le> lg_taskSeq l + 1" for t
    using L(14) [of t] by auto
  have S: "x \<in># M \<Longrightarrow> i_task x \<le> lg_taskSeq l + 1" for x
    using L(2) [of x] by simp
  have J: "gm_get (lg_jobs l) k = Some js \<Longrightarrow> k \<noteq> j" for k js
    using jobs by auto
  show ?thesis
    unfolding ledger_ok_def
    using L(1,3-14) assms(2,3) new D T S J jobs by (auto simp: uniq_add)
qed

text \<open>An open job gets registered, or is done because it has no tasks.\<close>

lemma ledger_register:
  assumes ok: "ledger_ok M l" and "j \<in> lg_open l" and "jobcount j M = n" "0 < n"
  shows "ledger_ok M (l\<lparr>lg_jobs := gm_put j \<lparr>js_totalTasks = n, js_completedTasks = 0, js_callbacks = cb\<rparr> (lg_jobs l),
    lg_open := lg_open l - {j}\<rparr>)"
proof -
  note L = ledger_okD [OF ok]
  have D: "k \<in> set (lg_jobDones l) \<Longrightarrow> k \<noteq> j" for k
    using L(12) [of k] assms(2) by auto
  show ?thesis
    unfolding ledger_ok_def
    using L(1-9,11-14) L(10) [OF assms(2)] L(10) assms(3,4) D by (auto simp: gm_has_get)
qed

lemma ledger_empty_job:
  assumes ok: "ledger_ok M l" and "j \<in> lg_open l" and "jobcount j M = 0" and "set jd \<subseteq> {j}" "distinct jd"
  shows "ledger_ok M (l\<lparr>lg_jobDones := lg_jobDones l @ jd, lg_open := lg_open l - {j}\<rparr>)"
proof -
  note L = ledger_okD [OF ok]
  have D: "k \<in> set (lg_jobDones l) \<Longrightarrow> k \<noteq> j" for k
    using L(12) [of k] assms(2) by auto
  have J: "k \<in> set jd \<Longrightarrow> k = j" for k
    using assms(4) by auto
  have O: "x \<in># M \<Longrightarrow> i_job x \<noteq> j" for x
    using jobcount_pos [of x M j] assms(3) by auto
  have DD: "k \<in> set (lg_jobDones l @ jd) \<Longrightarrow>
      \<not> gm_has (lg_jobs l) k \<and> k \<notin> lg_open l - {j} \<and> jobcount k M = 0 \<and> k \<le> lg_jobSeq l" for k
    using L(12) [of k] L(10) [OF assms(2)] assms(3) J [of k] by auto
  have dist: "distinct (lg_jobDones l @ jd)"
    using L(11) assms(5) D J by auto
  show ?thesis
    unfolding ledger_ok_def
    using L(1-9,13,14) L(10) O dist DD by auto
qed

text \<open>A registered job is withdrawn with all its tasks.\<close>

lemma rss_ix_filter: "rss_ix (filter_mset P M) \<subseteq># rss_ix M"
  unfolding rss_ix_def by (intro image_mset_subseteq_mono multiset_filter_mono multiset_filter_subset)

lemma jobcount_filter: "jobcount k (filter_mset (\<lambda>x. i_job x \<noteq> j) M) = (if k = j then 0 else jobcount k M)"
  by (induction M) auto

lemma ledger_abort:
  assumes ok: "ledger_ok M l" and j: "gm_has (lg_jobs l) j"
    and P: "set P = set_mset (rss_ix (filter_mset (\<lambda>x. i_job x \<noteq> j) M))"
  shows "ledger_ok (filter_mset (\<lambda>x. i_job x \<noteq> j) M) (l\<lparr>lg_pending := P, lg_jobs := gm_del j (lg_jobs l)\<rparr>)"
proof -
  note L = ledger_okD [OF ok]
  have u: "uniq (image_mset i_task (filter_mset (\<lambda>x. i_job x \<noteq> j) M))"
    by (rule uniq_subset [OF L(1)]) (intro image_mset_subseteq_mono multiset_filter_subset)
  have r: "uniq (rss_ix (filter_mset (\<lambda>x. i_job x \<noteq> j) M))"
    by (rule uniq_subset [OF L(3)]) (rule rss_ix_filter)
  have nj: "j \<notin> lg_open l"
    using L(10) [of j] j by blast
  have G: "gm_get (gm_del j (lg_jobs l)) k = Some js \<Longrightarrow>
      js_totalTasks js = js_completedTasks js + jobcount k (filter_mset (\<lambda>x. i_job x \<noteq> j) M)
      \<and> js_completedTasks js < js_totalTasks js \<and> 0 < k \<and> k \<le> lg_jobSeq l" for k js
    using L(6-8) [of k js] by (auto simp: jobcount_filter split: if_splits)
  have J: "k \<in> set (lg_jobDones l) \<Longrightarrow> \<not> gm_has (gm_del j (lg_jobs l)) k \<and> k \<notin> lg_open l
      \<and> jobcount k (filter_mset (\<lambda>x. i_job x \<noteq> j) M) = 0 \<and> k \<le> lg_jobSeq l" for k
    using L(12) [of k] by (auto simp: jobcount_filter gm_has_get)
  have T: "t \<in> set (lg_taskDones l) \<Longrightarrow> t \<le> lg_taskSeq l \<and> t \<notin># image_mset i_task (filter_mset (\<lambda>x. i_job x \<noteq> j) M)" for t
    using L(14) [of t] by (metis (no_types, lifting) image_mset_subseteq_mono mset_subset_eqD multiset_filter_subset)
  have S: "x \<in># filter_mset (\<lambda>x. i_job x \<noteq> j) M \<Longrightarrow> i_task x \<le> lg_taskSeq l" for x
    using L(2) [of x] by simp
  have H: "x \<in># filter_mset (\<lambda>x. i_job x \<noteq> j) M \<Longrightarrow> gm_has (gm_del j (lg_jobs l)) (i_job x) \<or> i_job x \<in> lg_open l" for x
    using L(9) [of x] by (simp add: gm_has_get)
  have O: "k \<in> lg_open l \<Longrightarrow> \<not> gm_has (gm_del j (lg_jobs l)) k \<and> 0 < k \<and> k \<le> lg_jobSeq l" for k
    using L(10) [of k] by (simp add: gm_has_get)
  have ok': "gm_ok (gm_del j (lg_jobs l))"
    using L(5) by simp
  show ?thesis
    by (rule ledger_okI, simp_all only: lg_sel) (fact u r P L(11,13) ok' | (rule S G H O J T, assumption))+
qed

lemma ledger_new_job:
  assumes ok: "ledger_ok M l"
  shows "ledger_ok M (l\<lparr>lg_jobSeq := lg_jobSeq l + 1, lg_open := insert (lg_jobSeq l + 1) (lg_open l)\<rparr>)"
proof -
  note L = ledger_okD [OF ok]
  have N: "gm_get (lg_jobs l) (Suc (lg_jobSeq l)) = None"
    using L(8) [of "Suc (lg_jobSeq l)"] by (cases "gm_get (lg_jobs l) (Suc (lg_jobSeq l))") auto
  have D: "k \<in> set (lg_jobDones l) \<Longrightarrow> k \<noteq> Suc (lg_jobSeq l) \<and> k \<le> Suc (lg_jobSeq l)" for k
    using L(12) [of k] by auto
  have G: "gm_get (lg_jobs l) k = Some js \<Longrightarrow> 0 < k \<and> k \<le> Suc (lg_jobSeq l)" for k js
    using L(8) [of k js] by auto
  have O: "k \<in> lg_open l \<Longrightarrow> \<not> gm_has (lg_jobs l) k \<and> 0 < k \<and> k \<le> Suc (lg_jobSeq l)" for k
    using L(10) [of k] by auto
  have X: "x \<in># M \<Longrightarrow> gm_has (lg_jobs l) (i_job x) \<or> i_job x \<in> insert (lg_jobSeq l + 1) (lg_open l)" for x
    using L(9) [of x] by auto
  have O': "k \<in> insert (lg_jobSeq l + 1) (lg_open l) \<Longrightarrow> \<not> gm_has (lg_jobs l) k \<and> 0 < k \<and> k \<le> lg_jobSeq l + 1" for k
    using O [of k] N by (auto simp: gm_has_get)
  have D': "k \<in> set (lg_jobDones l) \<Longrightarrow> \<not> gm_has (lg_jobs l) k \<and> k \<notin> insert (lg_jobSeq l + 1) (lg_open l)
      \<and> jobcount k M = 0 \<and> k \<le> lg_jobSeq l + 1" for k
    using L(12) [of k] D [of k] by auto
  have G': "gm_get (lg_jobs l) k = Some js \<Longrightarrow> js_totalTasks js = js_completedTasks js + jobcount k M
      \<and> js_completedTasks js < js_totalTasks js \<and> 0 < k \<and> k \<le> lg_jobSeq l + 1" for k js
    using G [of k js] L(6,7) [of k js] by auto
  show ?thesis
    by (rule ledger_okI, simp_all only: lg_sel) (fact L(1,3,4,5,11,13) | (rule L(2) G' X O' D' L(14), assumption))+
qed

section \<open>The invariant\<close>

definition open_jobs :: "sched \<Rightarrow> nat set" where
  "open_jobs s = su_job ` {su \<in> set (sc_submits s). \<not> su_registered su}"

definition ledger_of :: "sched \<Rightarrow> ledger" where
  "ledger_of s = \<lparr>lg_pending = sc_pendingRSS s, lg_jobs = sc_jobs s, lg_jobDones = job_dones (sc_events s),
     lg_taskDones = task_dones (sc_events s), lg_taskSeq = sc_taskSeq s, lg_jobSeq = sc_jobSeq s, lg_open = open_jobs s\<rparr>"

definition idents :: "worker_task list \<Rightarrow> ident multiset" where
  "idents ts = mset (map ident ts)"

definition submitting :: "sched \<Rightarrow> ident multiset" where
  "submitting s = idents (concat (map su_tasks (sc_submits s)))"

definition inflight :: "sched \<Rightarrow> ident multiset" where
  "inflight s = idents (map (\<lambda>e. ti_task (snd e)) (sc_inFlight s))"

text \<open>The tasks anywhere but in the queue, and all tasks.\<close>

definition elsewhere :: "sched \<Rightarrow> ident multiset" where
  "elsewhere s = submitting s + idents (concat (sc_submitCh s)) + inflight s"

definition outstanding :: "sched \<Rightarrow> ident multiset" where
  "outstanding s = elsewhere s + idents (map ti_task (sc_taskQueue s))"

definition submits_ok :: "ident multiset \<Rightarrow> sched \<Rightarrow> bool" where
  "submits_ok M s \<longleftrightarrow> distinct (map su_job (sc_submits s)) \<and>
     (\<forall>su \<in> set (sc_submits s). (\<forall>t \<in> set (su_tasks su). wt_jobID t = su_job su) \<and> jobcount (su_job su) M = length (su_tasks su)
        \<and> (su_registered su \<longrightarrow> su_tasks su \<noteq> [] \<and> gm_has (sc_jobs s) (su_job su))
        \<and> su_job su \<le> sc_jobSeq s)"

definition workers_ok :: "sched \<Rightarrow> bool" where
  "workers_ok s \<longleftrightarrow> gm_ok (sc_inFlight s) \<and> (\<forall>(i, it) \<in> set (sc_inFlight s). ix_ID (wt_indexer (ti_task it)) = i)
     \<and> sc_workersInUse s = length (sc_inFlight s) + sc_releasing s \<and> sc_workersInUse s \<le> sc_workerCap s
     \<and> heap_at item_key (length (sc_taskQueue s)) (sc_taskQueue s)"

definition sched_inv :: "sched \<Rightarrow> bool" where
  "sched_inv s \<longleftrightarrow> ledger_ok (outstanding s) (ledger_of s) \<and> submits_ok (outstanding s) s \<and> workers_ok s"

lemma idents_simps [simp]:
  "idents [] = {#}" "idents (t # ts) = add_mset (ident t) (idents ts)" "idents (ts @ us) = idents ts + idents us"
  by (simp_all add: idents_def)

lemma ident_sel [simp]: "i_task (ident t) = wt_taskID t" "i_job (ident t) = wt_jobID t" "i_ix (ident t) = ix_ID (wt_indexer t)"
  "i_rss (ident t) = wt_isRSS t"
  by (simp_all add: ident_def)

lemma jobcount_idents: "\<forall>t \<in> set ts. wt_jobID t = j \<Longrightarrow> jobcount j (idents ts) = length ts"
  by (induction ts) auto

lemma jobcount_concat:
  assumes "x \<in> set xs" "\<forall>t \<in> set (f x). wt_jobID t = j"
  shows "length (f x) \<le> jobcount j (idents (concat (map f xs)))"
  using assms(1)
proof (induction xs)
  case (Cons y ys)
  then show ?case
    using jobcount_idents [OF assms(2)] by auto
qed simp

text \<open>A task outside the calls under way belongs to none of their jobs.\<close>

lemma submits_other_job:
  assumes "submits_ok (add_mset x (submitting s + N)) s" "su \<in> set (sc_submits s)"
  shows "i_job x \<noteq> su_job su"
proof
  assume eq: "i_job x = su_job su"
  from assms have "\<forall>t \<in> set (su_tasks su). wt_jobID t = su_job su"
    and "jobcount (su_job su) (add_mset x (submitting s + N)) = length (su_tasks su)"
    by (auto simp: submits_ok_def)
  then show False
    using jobcount_concat [OF assms(2), of su_tasks "su_job su"] eq by (simp add: submitting_def)
qed

text \<open>Completing a task.\<close>

lemma handle_fields [simp]:
  "sc_rateLimiter (snd (handleTaskCompleteLocked it n r c e s)) = sc_rateLimiter s"
  "sc_taskQueue (snd (handleTaskCompleteLocked it n r c e s)) = sc_taskQueue s"
  "sc_pendingRSS (snd (handleTaskCompleteLocked it n r c e s)) = sc_pendingRSS s"
  "sc_workerCap (snd (handleTaskCompleteLocked it n r c e s)) = sc_workerCap s"
  "sc_workersInUse (snd (handleTaskCompleteLocked it n r c e s)) = sc_workersInUse s"
  "sc_inFlight (snd (handleTaskCompleteLocked it n r c e s)) = sc_inFlight s"
  "sc_submitCh (snd (handleTaskCompleteLocked it n r c e s)) = sc_submitCh s"
  "sc_completeCh (snd (handleTaskCompleteLocked it n r c e s)) = sc_completeCh s"
  "sc_jobSeq (snd (handleTaskCompleteLocked it n r c e s)) = sc_jobSeq s"
  "sc_taskSeq (snd (handleTaskCompleteLocked it n r c e s)) = sc_taskSeq s"
  "sc_submits (snd (handleTaskCompleteLocked it n r c e s)) = sc_submits s"
  "sc_started (snd (handleTaskCompleteLocked it n r c e s)) = sc_started s"
  "sc_releasing (snd (handleTaskCompleteLocked it n r c e s)) = sc_releasing s"
  "sc_retryTimer (snd (handleTaskCompleteLocked it n r c e s)) = sc_retryTimer s"
  "sc_coalesce (snd (handleTaskCompleteLocked it n r c e s)) = sc_coalesce s"
  by (simp_all add: handleTaskCompleteLocked_def Let_def split: option.splits)

lemma handle_jobs: "sc_jobs (snd (handleTaskCompleteLocked it n r c e s)) = complete_jobs (wt_jobID (ti_task it)) (sc_jobs s)"
  by (simp add: handleTaskCompleteLocked_def complete_jobs_def Let_def split: option.splits)

lemma handle_dones:
  "task_dones (sc_events (snd (handleTaskCompleteLocked it n r c e s))) =
     task_dones (sc_events s) @ (if cb_OnComplete (wt_callbacks (ti_task it)) then [wt_taskID (ti_task it)] else [])"
  "wt_jobID (ti_task it) > 0 \<Longrightarrow> job_dones (sc_events (snd (handleTaskCompleteLocked it n r c e s))) =
     job_dones (sc_events s) @ complete_dones (wt_jobID (ti_task it)) (sc_jobs s)"
  by (simp_all add: handleTaskCompleteLocked_def complete_dones_def Let_def split: option.splits)

definition done_task :: "task_item \<Rightarrow> int \<Rightarrow> string list \<Rightarrow> int list \<Rightarrow> task_err option \<Rightarrow> sched \<Rightarrow> sched" where
  "done_task item now results coverage err s = clearPending (ti_task item) (snd (handleTaskCompleteLocked item now results coverage err s))"

lemma clearPending_fields [simp]:
  "sc_rateLimiter (clearPending t s) = sc_rateLimiter s" "sc_taskQueue (clearPending t s) = sc_taskQueue s"
  "sc_workerCap (clearPending t s) = sc_workerCap s" "sc_workersInUse (clearPending t s) = sc_workersInUse s"
  "sc_inFlight (clearPending t s) = sc_inFlight s" "sc_submitCh (clearPending t s) = sc_submitCh s"
  "sc_completeCh (clearPending t s) = sc_completeCh s" "sc_jobSeq (clearPending t s) = sc_jobSeq s"
  "sc_taskSeq (clearPending t s) = sc_taskSeq s" "sc_submits (clearPending t s) = sc_submits s"
  "sc_started (clearPending t s) = sc_started s" "sc_releasing (clearPending t s) = sc_releasing s"
  "sc_jobs (clearPending t s) = sc_jobs s" "sc_events (clearPending t s) = sc_events s"
  "sc_retryTimer (clearPending t s) = sc_retryTimer s" "sc_coalesce (clearPending t s) = sc_coalesce s"
  "sc_pendingRSS (clearPending t s) = (if wt_isRSS t then filter (\<lambda>i. i \<noteq> ix_ID (wt_indexer t)) (sc_pendingRSS s) else sc_pendingRSS s)"
  by (simp_all add: clearPending_def)

lemma done_task_ledger:
  assumes ok: "ledger_ok (add_mset (ident (ti_task it)) M) (ledger_of s)"
    and sub: "submits_ok (add_mset (ident (ti_task it)) M) s" and M: "M = submitting s + N"
  shows "ledger_ok M (ledger_of (done_task it n r c e s))" "submits_ok M (done_task it n r c e s)"
proof -
  let ?t = "ti_task it" and ?td = "if cb_OnComplete (wt_callbacks (ti_task it)) then [wt_taskID (ti_task it)] else []"
  have other: "su \<in> set (sc_submits s) \<Longrightarrow> wt_jobID ?t \<noteq> su_job su" for su
    using submits_other_job [of "ident ?t" s N su] sub M by simp
  then have nopen: "i_job (ident ?t) \<notin> lg_open (ledger_of s)"
    by (auto simp: ledger_of_def open_jobs_def)
  then obtain js where "gm_get (sc_jobs s) (wt_jobID ?t) = Some js"
    using ledger_okD(9) [OF ok, of "ident ?t"] by (auto simp: gm_has_get ledger_of_def)
  then have pos: "wt_jobID ?t > 0"
    using ledger_okD(8) [OF ok, of "wt_jobID ?t"] by (simp add: ledger_of_def)
  have open': "open_jobs (done_task it n r c e s) = open_jobs s"
    by (simp add: open_jobs_def done_task_def)
  have "ledger_of (done_task it n r c e s) = (ledger_of s)\<lparr>lg_pending := (if i_rss (ident ?t)
        then filter (\<lambda>i. i \<noteq> i_ix (ident ?t)) (lg_pending (ledger_of s)) else lg_pending (ledger_of s)),
      lg_jobs := complete_jobs (i_job (ident ?t)) (lg_jobs (ledger_of s)),
      lg_jobDones := lg_jobDones (ledger_of s) @ complete_dones (i_job (ident ?t)) (lg_jobs (ledger_of s)),
      lg_taskDones := lg_taskDones (ledger_of s) @ ?td\<rparr>"
    unfolding ledger_of_def open' by (simp add: done_task_def handle_jobs handle_dones pos)
  moreover have "set ?td \<subseteq> {i_task (ident ?t)}" "distinct ?td"
    by auto
  ultimately show "ledger_ok M (ledger_of (done_task it n r c e s))"
    using ledger_complete [OF ok nopen] by (simp only:)
  have has: "gm_has (complete_jobs (wt_jobID ?t) (sc_jobs s)) j = gm_has (sc_jobs s) j" if "j \<noteq> wt_jobID ?t" for j
    using that by (simp add: complete_jobs_def gm_has_get split: option.splits)
  show "submits_ok M (done_task it n r c e s)"
    using sub other has [OF other [THEN not_sym]] by (auto simp: submits_ok_def done_task_def handle_jobs)
qed

text \<open>Entering, leaving and rewriting an entry of \<open>inFlight\<close>.\<close>

lemma gm_put_fresh: "\<not> gm_has m k \<Longrightarrow> gm_put k v m = m @ [(k, v)]"
  unfolding gm_put_def gm_has_iff by (induction m) auto

lemma gm_put_present:
  assumes "gm_ok m" "gm_get m k = Some v"
  obtains m1 m2 where "m = m1 @ (k, v) # m2" "gm_put k w m = m1 @ (k, w) # m2" "gm_del k m = m1 @ m2" "k \<notin> fst ` set (m1 @ m2)"
  using assms
proof (induction m arbitrary: thesis)
  case (Cons e m)
  obtain a b where e: "e = (a, b)"
    by fastforce
  show ?case
  proof (cases "a = k")
    case True
    with Cons.prems(2,3) e have "b = v" "k \<notin> fst ` set m"
      by (auto simp: gm_ok_def gm_get_def)
    moreover from this(2) have "AList.delete k m = m"
      by (induction m) auto
    ultimately show ?thesis
      using True e by (intro Cons.prems(1) [of "[]" m]) (auto simp: gm_put_def gm_del_def)
  next
    case False
    with Cons.prems(2,3) e have "gm_ok m" "gm_get m k = Some v"
      by (auto simp: gm_ok_def gm_get_def)
    from Cons.IH [OF _ this] obtain m1 m2 where "m = m1 @ (k, v) # m2" "gm_put k w m = m1 @ (k, w) # m2"
      "gm_del k m = m1 @ m2" "k \<notin> fst ` set (m1 @ m2)"
      by blast
    with False e show ?thesis
      by (intro Cons.prems(1) [of "(a, b) # m1" m2]) (auto simp: gm_put_def gm_del_def)
  qed
qed (simp add: gm_get_def)

section \<open>Dispatching keeps the invariant\<close>

definition acc_inv :: "task_item list \<Rightarrow> dispatch_acc \<Rightarrow> bool" where
  "acc_inv items acc \<longleftrightarrow>
     (let s = da_s acc;
          M = elsewhere s + (idents (map ti_task items) + idents (map ti_task (da_blocked acc)))
      in sc_taskQueue s = [] \<and> ledger_ok M (ledger_of s) \<and> submits_ok M s \<and> workers_ok s)"

lemma ident_fresh_ctx [simp]: "ident (t\<lparr>wt_ctx := c, wt_ctxCancel := b\<rparr>) = ident t"
  by (simp add: ident_def)

lemma ledger_of_fields:
  "ledger_of (s\<lparr>sc_rateLimiter := rl\<rparr>) = ledger_of s" "ledger_of (s\<lparr>sc_taskQueue := q\<rparr>) = ledger_of s"
  "ledger_of (s\<lparr>sc_workersInUse := w\<rparr>) = ledger_of s" "ledger_of (s\<lparr>sc_inFlight := f\<rparr>) = ledger_of s"
  "ledger_of (s\<lparr>sc_submitCh := c\<rparr>) = ledger_of s" "ledger_of (s\<lparr>sc_completeCh := n\<rparr>) = ledger_of s"
  "ledger_of (s\<lparr>sc_stopped := b\<rparr>) = ledger_of s" "ledger_of (s\<lparr>sc_retryTimer := t\<rparr>) = ledger_of s"
  "ledger_of (s\<lparr>sc_coalesce := b\<rparr>) = ledger_of s" "ledger_of (s\<lparr>sc_started := st\<rparr>) = ledger_of s"
  "ledger_of (s\<lparr>sc_releasing := w\<rparr>) = ledger_of s"
  by (simp_all add: ledger_of_def open_jobs_def)

lemma submits_ok_fields:
  "submits_ok M (s\<lparr>sc_rateLimiter := rl\<rparr>) = submits_ok M s" "submits_ok M (s\<lparr>sc_taskQueue := q\<rparr>) = submits_ok M s"
  "submits_ok M (s\<lparr>sc_workersInUse := w\<rparr>) = submits_ok M s" "submits_ok M (s\<lparr>sc_inFlight := f\<rparr>) = submits_ok M s"
  "submits_ok M (s\<lparr>sc_submitCh := c\<rparr>) = submits_ok M s" "submits_ok M (s\<lparr>sc_completeCh := n\<rparr>) = submits_ok M s"
  "submits_ok M (s\<lparr>sc_stopped := b\<rparr>) = submits_ok M s" "submits_ok M (s\<lparr>sc_retryTimer := t\<rparr>) = submits_ok M s"
  "submits_ok M (s\<lparr>sc_coalesce := b\<rparr>) = submits_ok M s" "submits_ok M (s\<lparr>sc_started := st\<rparr>) = submits_ok M s"
  "submits_ok M (s\<lparr>sc_releasing := w\<rparr>) = submits_ok M s" "submits_ok M (s\<lparr>sc_events := es\<rparr>) = submits_ok M s"
  by (simp_all add: submits_ok_def)

lemma elsewhere_done [simp]: "elsewhere (done_task it n r c e s) = elsewhere s"
  by (simp add: elsewhere_def submitting_def inflight_def done_task_def)

lemma workers_ok_done [simp]: "workers_ok (done_task it n r c e s) = workers_ok s"
  by (simp add: workers_ok_def done_task_def)

lemma dispatchSkip_inv:
  assumes "acc_inv (item # items) acc"
  shows "acc_inv items (dispatchSkip env item err acc)"
proof -
  let ?it = "item\<lparr>ti_started := de_clock env\<rparr>" and ?s = "da_s acc"
  let ?M = "elsewhere ?s + (idents (map ti_task items) + idents (map ti_task (da_blocked acc)))"
  have eq: "dispatchSkip env item err acc = acc\<lparr>da_s := done_task ?it (de_clock env) [] [] (Some err) ?s,
      da_completed := True, da_recorded := fst (handleTaskCompleteLocked ?it (de_clock env) [] [] (Some err) ?s) \<or> da_recorded acc\<rparr>"
    by (simp add: dispatchSkip_def done_task_def split: prod.splits)
  have inv: "ledger_ok (add_mset (ident (ti_task ?it)) ?M) (ledger_of ?s)" "submits_ok (add_mset (ident (ti_task ?it)) ?M) ?s"
    using assms by (simp_all add: acc_inv_def Let_def)
  have "?M = submitting ?s + (idents (concat (sc_submitCh ?s)) + inflight ?s
      + (idents (map ti_task items) + idents (map ti_task (da_blocked acc))))"
    by (simp add: elsewhere_def)
  from done_task_ledger [OF inv this] assms show ?thesis
    by (simp add: acc_inv_def Let_def eq) (simp add: done_task_def)
qed

lemma acc_inv_block:
  assumes "acc_inv (item # items) acc" and "ident (ti_task item') = ident (ti_task item)"
  shows "acc_inv items (acc\<lparr>da_s := (da_s acc)\<lparr>sc_rateLimiter := rl\<rparr>, da_blocked := da_blocked acc @ [item']\<rparr>)"
  using assms
  by (simp add: acc_inv_def Let_def ledger_of_fields submits_ok_fields elsewhere_def submitting_def inflight_def workers_ok_def heap_at_def)

lemma acc_inv_fields:
  assumes "acc_inv (item # items) acc" and "ident (ti_task item') = ident (ti_task item)"
  shows "acc_inv (item' # items) (acc\<lparr>da_s := (da_s acc)\<lparr>sc_rateLimiter := rl\<rparr>\<rparr>)"
  using assms
  by (simp add: acc_inv_def Let_def ledger_of_fields submits_ok_fields elsewhere_def submitting_def inflight_def workers_ok_def heap_at_def)

lemma acc_inv_launch:
  assumes "acc_inv (item # items) acc" and "\<not> gm_has (sc_inFlight (da_s acc)) (ix_ID (wt_indexer (ti_task item)))"
    and "sc_workersInUse (da_s acc) < sc_workerCap (da_s acc)"
  shows "acc_inv items (acc\<lparr>da_s := (da_s acc)\<lparr>sc_workersInUse := sc_workersInUse (da_s acc) + 1,
    sc_inFlight := gm_put (ix_ID (wt_indexer (ti_task item))) item (sc_inFlight (da_s acc))\<rparr>\<rparr>)"
proof -
  have ok: "gm_ok (gm_put (ix_ID (wt_indexer (ti_task item))) item (sc_inFlight (da_s acc)))"
    using assms(1) by (auto simp: acc_inv_def Let_def workers_ok_def)
  show ?thesis
    using assms ok gm_put_fresh [OF assms(2), of item]
    by (auto simp: acc_inv_def Let_def ledger_of_fields submits_ok_fields elsewhere_def submitting_def inflight_def workers_ok_def ac_simps)
qed

lemma if_split': "(b \<Longrightarrow> P x) \<Longrightarrow> (\<not> b \<Longrightarrow> P y) \<Longrightarrow> P (if b then x else y)"
  by simp

lemma option_split: "(\<And>e. v = Some e \<Longrightarrow> P (f e)) \<Longrightarrow> (v = None \<Longrightarrow> P y) \<Longrightarrow> P (case v of Some e \<Rightarrow> f e | None \<Rightarrow> y)"
  by (cases v) simp_all

lemma limiter_sel:
  "sc_workersInUse (s\<lparr>sc_rateLimiter := rl\<rparr>) = sc_workersInUse s" "sc_workerCap (s\<lparr>sc_rateLimiter := rl\<rparr>) = sc_workerCap s"
  "sc_inFlight (s\<lparr>sc_rateLimiter := rl\<rparr>) = sc_inFlight s"
  by simp_all

lemma dispatchItem_inv:
  assumes "acc_inv (item # items) acc"
  shows "acc_inv items (dispatchItem env item acc)"
proof (cases "de_err env (wt_ctx (ti_task item)) 0 = Some Canceled")
  case True
  with dispatchSkip_inv [OF assms] show ?thesis
    by (simp add: dispatchItem_def)
next
  case False
  define expired where "expired = (de_err env (wt_ctx (ti_task item)) 1 = Some DeadlineExceeded \<and> \<not> wt_ctxCancel (ti_task item))"
  define task where "task = (if expired then (ti_task item)\<lparr>wt_ctx := FreshCtx (wt_taskID (ti_task item)) (getExecutionTimeout (ti_task item)),
      wt_ctxCancel := True\<rparr> else ti_task item)"
  define it where "it = item\<lparr>ti_task := task\<rparr>"
  have id: "ident (ti_task it) = ident (ti_task item)"
    by (simp add: it_def task_def)
  then have acc: "acc_inv (it # items) acc"
    using assms by (simp add: acc_inv_def Let_def)
  obtain wait rl where w: "NextWait (ix_ID (wt_indexer task)) (rl_opts (wt_meta task)) (de_now env (wt_taskID task)) (sc_rateLimiter (da_s acc)) = (wait, rl)"
    by fastforce
  let ?acc = "acc\<lparr>da_s := (da_s acc)\<lparr>sc_rateLimiter := rl\<rparr>\<rparr>"
  have acc': "acc_inv (it # items) ?acc"
    using acc_inv_fields [OF acc refl] .
  have block: "acc_inv items (acc\<lparr>da_s := (da_s acc)\<lparr>sc_rateLimiter := rl\<rparr>, da_blocked := da_blocked acc @ [it]\<rparr>)"
    by (rule acc_inv_block [OF acc refl])
  have block0: "acc_inv items (acc\<lparr>da_blocked := da_blocked acc @ [it]\<rparr>)"
    using acc_inv_block [OF acc refl, of "sc_rateLimiter (da_s acc)"] by simp
  have launch: "acc_inv items (acc\<lparr>da_s := (da_s acc)\<lparr>sc_rateLimiter := rl, sc_workersInUse := sc_workersInUse (da_s acc) + 1,
      sc_inFlight := gm_put (ix_ID (wt_indexer task)) it (sc_inFlight (da_s acc))\<rparr>\<rparr>)"
    if "\<not> gm_has (sc_inFlight (da_s acc)) (ix_ID (wt_indexer task))" "sc_workersInUse (da_s acc) < sc_workerCap (da_s acc)"
    using acc_inv_launch [OF acc'] that by (simp add: it_def)
  have eq: "dispatchItem env item acc = (case (if wt_ctxCancel task then de_err env (wt_ctx task) 2 else None) of
             Some e \<Rightarrow> dispatchSkip env it (ErrCtx e) acc
           | None \<Rightarrow>
               if gm_has (sc_inFlight (da_s acc)) (ix_ID (wt_indexer task)) then acc\<lparr>da_blocked := da_blocked acc @ [it]\<rparr>
               else if getMaxWait task > 0 \<and> wait > getMaxWait task then
                      dispatchSkip env it (ErrRateLimitWait \<lparr>we_IndexerID = ix_ID (wt_indexer task), we_IndexerName = ix_Name (wt_indexer task),
                        we_Wait = wait, we_MaxWait = getMaxWait task,
                        we_Priority = (case rl_opts (wt_meta task) of None \<Rightarrow> [] | Some o' \<Rightarrow> ro_Priority o')\<rparr>) ?acc
               else if wait > 0 then acc\<lparr>da_s := (da_s acc)\<lparr>sc_rateLimiter := rl\<rparr>, da_blocked := da_blocked acc @ [it]\<rparr>
               else if sc_workersInUse (da_s acc) < sc_workerCap (da_s acc) then
                      acc\<lparr>da_s := (da_s acc)\<lparr>sc_rateLimiter := rl, sc_workersInUse := sc_workersInUse (da_s acc) + 1,
                        sc_inFlight := gm_put (ix_ID (wt_indexer task)) it (sc_inFlight (da_s acc))\<rparr>\<rparr>
               else acc\<lparr>da_s := (da_s acc)\<lparr>sc_rateLimiter := rl\<rparr>, da_blocked := da_blocked acc @ [it]\<rparr>)"
    unfolding dispatchItem_def Let_def expired_def [symmetric] task_def [symmetric] it_def [symmetric] if_not_P [OF False] w prod.case limiter_sel
    by (rule refl)
  show ?thesis
    unfolding eq by (intro option_split [where P = "acc_inv items"] if_split' [where P = "acc_inv items"])
      (assumption | rule dispatchSkip_inv [OF acc] dispatchSkip_inv [OF acc'] block block0 launch)+
qed

lemma dispatchItems_inv: "acc_inv items acc \<Longrightarrow> acc_inv [] (fold (dispatchItem env) items acc)"
  by (induction items arbitrary: acc) (simp_all add: dispatchItem_inv)

lemma timer_fields:
  obtains rl t where "scheduleRetryTimerLocked env s = s\<lparr>sc_rateLimiter := rl, sc_retryTimer := t\<rparr>"
proof (cases "sc_taskQueue s = []")
  case True
  have "scheduleRetryTimerLocked env s = s\<lparr>sc_rateLimiter := sc_rateLimiter s, sc_retryTimer := sc_retryTimer s\<rparr>"
    using True by (simp add: scheduleRetryTimerLocked_def)
  with that show thesis .
next
  case False
  obtain w rl where w: "fold (retryWait env) (sc_taskQueue s) (0, sc_rateLimiter s) = (w, rl)"
    by fastforce
  have "scheduleRetryTimerLocked env s = s\<lparr>sc_rateLimiter := rl,
      sc_retryTimer := (if w > 0 then Some (min w maxRetryTimerInterval) else sc_retryTimer s)\<rparr>"
    using False w by (simp add: scheduleRetryTimerLocked_def)
  with that show thesis .
qed

lemma sched_inv_frame:
  assumes "sched_inv s" and "outstanding s' = outstanding s" "ledger_of s' = ledger_of s" "sc_submits s' = sc_submits s"
    "sc_jobs s' = sc_jobs s" "sc_jobSeq s' = sc_jobSeq s" "workers_ok s'"
  shows "sched_inv s'"
  using assms by (simp add: sched_inv_def submits_ok_def)

lemma events_frame:
  "job_dones es = [] \<Longrightarrow> task_dones es = [] \<Longrightarrow> ledger_of (s\<lparr>sc_events := sc_events s @ es\<rparr>) = ledger_of s"
  by (simp add: ledger_of_def open_jobs_def)

lemma dispatchTasks_inv:
  assumes "sched_inv s"
  shows "sched_inv (dispatchTasks env s)"
proof (cases "sc_taskQueue s = []")
  case False
  define items where "items = drain_heap item_less (sc_taskQueue s)"
  define acc where "acc = fold (dispatchItem env) items \<lparr>da_s = s\<lparr>sc_taskQueue := []\<rparr>, da_blocked = [], da_completed = False, da_recorded = False\<rparr>"
  define s1 where "s1 = (da_s acc)\<lparr>sc_taskQueue := fold (heap_push item_less) (da_blocked acc) (sc_taskQueue (da_s acc))\<rparr>"
  have heap: "heap_at item_key (length (sc_taskQueue s)) (sc_taskQueue s)"
    using assms by (simp add: sched_inv_def workers_ok_def)
  have mitems: "mset items = mset (sc_taskQueue s)"
    unfolding items_def item_less_key by (rule task_heap.drain_content [OF heap])
  then have id: "idents (map ti_task items) = idents (map ti_task (sc_taskQueue s))"
    by (simp only: idents_def mset_map)
  have "acc_inv items \<lparr>da_s = s\<lparr>sc_taskQueue := []\<rparr>, da_blocked = [], da_completed = False, da_recorded = False\<rparr>"
    using assms by (simp add: acc_inv_def sched_inv_def Let_def id outstanding_def ledger_of_fields submits_ok_fields
        elsewhere_def submitting_def inflight_def workers_ok_def heap_at_def)
  then have acc: "acc_inv [] acc"
    unfolding acc_def by (rule dispatchItems_inv)
  have empty: "heap_at item_key (length ([] :: task_item list)) []"
    by (simp add: heap_at_def)
  have q: "sc_taskQueue (da_s acc) = []"
    using acc by (simp add: acc_inv_def Let_def)
  have pushed: "heap_at item_key (length (sc_taskQueue s1)) (sc_taskQueue s1)" "mset (sc_taskQueue s1) = mset (da_blocked acc)"
    using task_heap.push_all [OF empty, of "da_blocked acc"] by (simp_all add: s1_def q item_less_key)
  then have id1: "idents (map ti_task (sc_taskQueue s1)) = idents (map ti_task (da_blocked acc))"
    by (simp only: idents_def mset_map)
  have else1: "elsewhere s1 = elsewhere (da_s acc)"
    by (simp add: s1_def elsewhere_def submitting_def inflight_def)
  have inv1: "sched_inv s1"
    using acc pushed(1) by (simp add: sched_inv_def outstanding_def id1 else1 acc_inv_def Let_def)
      (simp add: s1_def ledger_of_fields submits_ok_fields workers_ok_def)
  obtain rl t where t: "scheduleRetryTimerLocked env s1 = s1\<lparr>sc_rateLimiter := rl, sc_retryTimer := t\<rparr>"
    by (rule timer_fields)
  define es where "es = (if da_completed acc then [EvIndexerActivity] else []) @ (if da_recorded acc then [EvSearchHistory] else [])"
  have es: "job_dones es = []" "task_dones es = []"
    by (simp_all add: es_def)
  have led: "ledger_of (s1\<lparr>sc_rateLimiter := rl, sc_retryTimer := t, sc_events := sc_events s1 @ es\<rparr>) = ledger_of s1"
    by (simp add: ledger_of_def open_jobs_def es)
  have "dispatchTasks env s = (scheduleRetryTimerLocked env s1)\<lparr>sc_events := sc_events (scheduleRetryTimerLocked env s1) @ es\<rparr>"
    using False by (simp add: dispatchTasks_def Let_def items_def acc_def s1_def es_def)
  moreover have "sched_inv \<dots>"
    using inv1 unfolding t by (rule sched_inv_frame)
      (use inv1 in \<open>simp_all add: led outstanding_def elsewhere_def submitting_def
        inflight_def workers_ok_def sched_inv_def\<close>)
  ultimately show ?thesis
    by simp
qed (use assms in \<open>simp add: dispatchTasks_def\<close>)

section \<open>Every step keeps the invariant\<close>

lemma split_at:
  assumes "k < length xs"
  obtains A B where "xs = A @ xs ! k # B" "\<And>y. xs[k := y] = A @ y # B" "drop_nth k xs = A @ B"
proof
  show "xs = take k xs @ xs ! k # drop (Suc k) xs"
    using assms by (rule id_take_nth_drop)
  show "xs[k := y] = take k xs @ y # drop (Suc k) xs" for y
    using assms by (rule upd_conv_take_nth_drop)
  show "drop_nth k xs = take k xs @ drop (Suc k) xs"
    by (simp add: drop_nth_def)
qed

lemma open_jobs_set: "open_jobs s = set (map su_job (filter (\<lambda>su. \<not> su_registered su) (sc_submits s)))"
  by (auto simp: open_jobs_def)

lemma newSearchScheduler_inv: "sched_inv (newSearchScheduler rl maxWorkers recorder)"
  by (simp add: sched_inv_def newSearchScheduler_def outstanding_def elsewhere_def submitting_def inflight_def ledger_of_def
      ledger_ok_def submits_ok_def workers_ok_def heap_at_def open_jobs_def gm_ok_def gm_get_def)

lemma submitStart_inv:
  assumes "sched_inv s"
  shows "sched_inv (submitStart ctx req s)"
proof (cases "sr_Indexers req = []")
  case True
  let ?es = "if cb_OnJobDone (sr_Callbacks req) then [EvJobDone 0] else []"
  have "sched_inv (s\<lparr>sc_events := sc_events s @ ?es\<rparr>)"
    by (rule sched_inv_frame [OF assms])
      (use assms in \<open>simp_all add: outstanding_def elsewhere_def submitting_def inflight_def workers_ok_def sched_inv_def
        ledger_of_def open_jobs_def\<close>)
  with True show ?thesis
    by (simp add: submitStart_def)
next
  case False
  define su where "su = \<lparr>su_req = req, su_ctx = ctx, su_job = sc_jobSeq s + 1, su_rest = sr_Indexers req, su_tasks = [], su_registered = False\<rparr>"
  define s' where "s' = s\<lparr>sc_jobSeq := sc_jobSeq s + 1, sc_submits := sc_submits s @ [su]\<rparr>"
  have eq: "submitStart ctx req s = s'"
    using False by (simp add: submitStart_def s'_def su_def)
  have L: "ledger_ok (outstanding s) (ledger_of s)" and S: "submits_ok (outstanding s) s" and W: "workers_ok s"
    using assms by (simp_all add: sched_inv_def)
  have out: "outstanding s' = outstanding s"
    by (simp add: outstanding_def elsewhere_def submitting_def inflight_def s'_def su_def)
  have led: "ledger_of s' = (ledger_of s)\<lparr>lg_jobSeq := lg_jobSeq (ledger_of s) + 1,
      lg_open := insert (lg_jobSeq (ledger_of s) + 1) (lg_open (ledger_of s))\<rparr>"
    by (auto simp: ledger_of_def open_jobs_set s'_def su_def)
  have le: "i_job x \<le> sc_jobSeq s" if "x \<in># outstanding s" for x
    using ledger_okD(9) [OF L that] ledger_okD(10) [OF L, of "i_job x"] ledger_okD(8) [OF L, of "i_job x"]
    by (auto simp: ledger_of_def gm_has_get)
  then have "jobcount (sc_jobSeq s + 1) (outstanding s) = 0"
    by (fastforce simp: jobcount_def)
  moreover have "su \<in> set (sc_submits s) \<Longrightarrow> su_job su \<le> sc_jobSeq s" for su
    using S by (simp add: submits_ok_def)
  ultimately have "submits_ok (outstanding s) s'"
    using S by (fastforce simp: submits_ok_def s'_def su_def)
  moreover have "workers_ok s'"
    using W by (simp add: workers_ok_def s'_def)
  ultimately show ?thesis
    using ledger_new_job [OF L] by (simp only: eq sched_inv_def out led)
qed

lemma submits_open_job:
  assumes "submits_ok M s" "k < length (sc_submits s)" "\<not> su_registered (sc_submits s ! k)"
  shows "su_job (sc_submits s ! k) \<in> open_jobs s"
  using assms(2,3) by (auto simp: open_jobs_def)

lemma submitIndexer_inv:
  assumes "sched_inv s" and k: "k < length (sc_submits s)" "\<not> su_registered (sc_submits s ! k)"
  shows "sched_inv (submitIndexer k s)"
proof -
  have L: "ledger_ok (outstanding s) (ledger_of s)" and S: "submits_ok (outstanding s) s" and W: "workers_ok s"
    using assms(1) by (simp_all add: sched_inv_def)
  define su where "su = sc_submits s ! k"
  obtain A B where AB: "sc_submits s = A @ su # B" "\<And>y. (sc_submits s)[k := y] = A @ y # B"
    using split_at [OF k(1)] unfolding su_def by metis
  have reg: "\<not> su_registered su"
    using k(2) by (simp add: su_def)
  have skip: "sched_inv (s\<lparr>sc_submits := A @ su\<lparr>su_rest := r\<rparr> # B\<rparr>)" for r
  proof -
    let ?s = "s\<lparr>sc_submits := A @ su\<lparr>su_rest := r\<rparr> # B\<rparr>"
    have "outstanding ?s = outstanding s" "ledger_of ?s = ledger_of s"
      by (auto simp: outstanding_def elsewhere_def submitting_def inflight_def ledger_of_def open_jobs_set AB)
    moreover have "submits_ok (outstanding s) ?s" "workers_ok ?s"
      using S W by (auto simp: submits_ok_def workers_ok_def AB)
    ultimately show ?thesis
      using L by (simp only: sched_inv_def)
  qed
  show ?thesis
  proof (cases "hd (su_rest su)")
    case None
    then show ?thesis
      using skip by (simp add: submitIndexer_def Let_def su_def [symmetric] AB(2))
  next
    case (Some idx)
    define rss where "rss = isRSSMeta (sr_Meta (su_req su))"
    show ?thesis
    proof (cases "rss \<and> ix_ID idx \<in> set (sc_pendingRSS s)")
      case True
      then show ?thesis
        using skip Some by (simp add: submitIndexer_def Let_def su_def [symmetric] AB(2) rss_def)
    next
      case False
      define task where "task = \<lparr>wt_jobID = su_job su, wt_taskID = sc_taskSeq s + 1, wt_indexer = idx, wt_params = sr_Params (su_req su),
          wt_meta = sr_Meta (su_req su), wt_ctx = CallerCtx (su_ctx su), wt_ctxCancel = False,
          wt_callbacks = sr_Callbacks (su_req su), wt_isRSS = rss\<rparr>"
      define s' where "s' = s\<lparr>sc_pendingRSS := (if rss then gs_add (ix_ID idx) (sc_pendingRSS s) else sc_pendingRSS s),
          sc_taskSeq := sc_taskSeq s + 1, sc_submits := A @ su\<lparr>su_rest := tl (su_rest su), su_tasks := su_tasks su @ [task]\<rparr> # B\<rparr>"
      have eq: "submitIndexer k s = s'"
        using Some False by (simp add: submitIndexer_def Let_def su_def [symmetric] AB(2) rss_def [symmetric] s'_def task_def)
      have id: "ident task = (sc_taskSeq s + 1, su_job su, ix_ID idx, rss)"
        by (simp add: ident_def task_def)
      have out: "outstanding s' = add_mset (ident task) (outstanding s)"
        by (simp add: outstanding_def elsewhere_def submitting_def inflight_def s'_def AB)
      have led: "ledger_of s' = (ledger_of s)\<lparr>lg_pending := (if rss then gs_add (ix_ID idx) (lg_pending (ledger_of s)) else lg_pending (ledger_of s)),
          lg_taskSeq := lg_taskSeq (ledger_of s) + 1\<rparr>"
        by (auto simp: ledger_of_def open_jobs_set s'_def AB)
      have "su_job su \<in> lg_open (ledger_of s)"
        using submits_open_job [OF S k] by (simp add: ledger_of_def su_def)
      moreover have "rss \<Longrightarrow> ix_ID idx \<notin> set (lg_pending (ledger_of s))"
        using False by (simp add: ledger_of_def)
      ultimately have "ledger_ok (add_mset (lg_taskSeq (ledger_of s) + 1, su_job su, ix_ID idx, rss) (outstanding s)) (ledger_of s')"
        unfolding led by (rule ledger_add [OF L])
      then have "ledger_ok (outstanding s') (ledger_of s')"
        unfolding out id by (simp add: ledger_of_def)
      moreover have "submits_ok (outstanding s') s'"
        unfolding out id using S unfolding submits_ok_def AB(1) s'_def
        by (simp add: reg task_def ball_Un) (metis (no_types, lifting) image_eqI)
      moreover have "workers_ok s'"
        using W by (simp add: workers_ok_def s'_def)
      ultimately show ?thesis
        by (simp only: eq sched_inv_def)
    qed
  qed
qed

lemma submitRegister_inv:
  assumes "sched_inv s" and k: "k < length (sc_submits s)" "\<not> su_registered (sc_submits s ! k)"
  shows "sched_inv (submitRegister k s)"
proof -
  have L: "ledger_ok (outstanding s) (ledger_of s)" and S: "submits_ok (outstanding s) s" and W: "workers_ok s"
    using assms(1) by (simp_all add: sched_inv_def)
  define su where "su = sc_submits s ! k"
  obtain A B where AB: "sc_submits s = A @ su # B" "\<And>y. (sc_submits s)[k := y] = A @ y # B" "drop_nth k (sc_submits s) = A @ B"
    using split_at [OF k(1)] unfolding su_def by metis
  have op: "su_job su \<in> lg_open (ledger_of s)"
    using submits_open_job [OF S k] by (simp add: ledger_of_def su_def)
  have cnt: "jobcount (su_job su) (outstanding s) = length (su_tasks su)"
    using S by (simp add: submits_ok_def AB)
  have others: "su_job su \<noteq> su_job x" if "x \<in> set A \<or> x \<in> set B" for x
    using S that by (auto simp: submits_ok_def AB)
  have reg: "\<not> su_registered su"
    using k(2) by (simp add: su_def)
  have rest_jobs: "set (map su_job (filter (\<lambda>u. \<not> su_registered u) (A @ B)))
      = set (map su_job (filter (\<lambda>u. \<not> su_registered u) (A @ su # B))) - {su_job su}"
    using others by (auto simp: reg image_iff)
  show ?thesis
  proof (cases "su_tasks su = []")
    case True
    let ?es = "if cb_OnJobDone (sr_Callbacks (su_req su)) then [EvJobDone (su_job su)] else []"
    let ?jd = "if cb_OnJobDone (sr_Callbacks (su_req su)) then [su_job su] else []"
    define s' where "s' = s\<lparr>sc_events := sc_events s @ ?es, sc_submits := A @ B\<rparr>"
    have eq: "submitRegister k s = s'"
      using True by (simp add: submitRegister_def Let_def su_def [symmetric] AB(3) s'_def)
    have out: "outstanding s' = outstanding s"
      using True by (simp add: outstanding_def elsewhere_def submitting_def inflight_def s'_def AB(1))
    have pos: "0 < su_job su"
      using ledger_okD(10) [OF L op] by simp
    have led: "ledger_of s' = (ledger_of s)\<lparr>lg_jobDones := lg_jobDones (ledger_of s) @ ?jd, lg_open := lg_open (ledger_of s) - {su_job su}\<rparr>"
      using pos rest_jobs by (simp add: ledger_of_def open_jobs_set s'_def AB(1) del: set_map)
    have "ledger_ok (outstanding s) (ledger_of s')"
      unfolding led by (rule ledger_empty_job [OF L op]) (use cnt True in auto)
    moreover have "submits_ok (outstanding s) s'" "workers_ok s'"
      using S W by (auto simp: submits_ok_def workers_ok_def s'_def AB(1))
    ultimately show ?thesis
      by (simp only: eq sched_inv_def out)
  next
    case False
    define s' where "s' = s\<lparr>sc_jobs := gm_put (su_job su) \<lparr>js_totalTasks = length (su_tasks su), js_completedTasks = 0,
        js_callbacks = sr_Callbacks (su_req su)\<rparr> (sc_jobs s), sc_submits := A @ su\<lparr>su_registered := True\<rparr> # B\<rparr>"
    have eq: "submitRegister k s = s'"
      using False by (simp add: submitRegister_def Let_def su_def [symmetric] AB(2) s'_def)
    have out: "outstanding s' = outstanding s"
      by (simp add: outstanding_def elsewhere_def submitting_def inflight_def s'_def AB(1))
    have led: "ledger_of s' = (ledger_of s)\<lparr>lg_jobs := gm_put (su_job su) \<lparr>js_totalTasks = length (su_tasks su), js_completedTasks = 0,
        js_callbacks = sr_Callbacks (su_req su)\<rparr> (lg_jobs (ledger_of s)), lg_open := lg_open (ledger_of s) - {su_job su}\<rparr>"
      using rest_jobs by (simp add: ledger_of_def open_jobs_set s'_def AB(1) del: set_map)
    have "ledger_ok (outstanding s) (ledger_of s')"
      unfolding led by (rule ledger_register [OF L op cnt]) (use False in simp)
    moreover have "submits_ok (outstanding s) s'" "workers_ok s'"
      using S W others False by (auto simp: submits_ok_def workers_ok_def s'_def AB(1) gm_has_get)
    ultimately show ?thesis
      by (simp only: eq sched_inv_def out)
  qed
qed

lemma submitSend_inv:
  assumes "sched_inv s" and k: "k < length (sc_submits s)" "su_registered (sc_submits s ! k)"
  shows "sched_inv (submitSend k s)"
proof -
  have L: "ledger_ok (outstanding s) (ledger_of s)" and S: "submits_ok (outstanding s) s" and W: "workers_ok s"
    using assms(1) by (simp_all add: sched_inv_def)
  define su where "su = sc_submits s ! k"
  obtain A B where AB: "sc_submits s = A @ su # B" "drop_nth k (sc_submits s) = A @ B"
    using split_at [OF k(1)] unfolding su_def by metis
  have reg: "su_registered su"
    using k(2) by (simp add: su_def)
  have eq: "submitSend k s = s\<lparr>sc_submitCh := sc_submitCh s @ [su_tasks su], sc_submits := A @ B\<rparr>"
    by (simp only: submitSend_def AB(2) su_def)
  have out: "outstanding (submitSend k s) = outstanding s"
    by (simp add: outstanding_def elsewhere_def submitting_def inflight_def eq AB(1))
  have led: "ledger_of (submitSend k s) = ledger_of s"
    by (simp add: ledger_of_def open_jobs_set eq AB(1) reg)
  have "submits_ok (outstanding s) (submitSend k s)" "workers_ok (submitSend k s)"
    using S W by (simp_all add: submits_ok_def workers_ok_def eq AB(1))
  with L show ?thesis
    by (simp only: sched_inv_def out led)
qed

lemma clearPendingRSSLocked_eq:
  "clearPendingRSSLocked ts s =
     s\<lparr>sc_pendingRSS := filter (\<lambda>i. \<not> (\<exists>t \<in> set ts. wt_isRSS t \<and> ix_ID (wt_indexer t) = i)) (sc_pendingRSS s)\<rparr>"
  unfolding clearPendingRSSLocked_def
proof (induction ts arbitrary: s)
  case (Cons t ts)
  have "filter (\<lambda>i. \<not> (\<exists>u \<in> set ts. wt_isRSS u \<and> ix_ID (wt_indexer u) = i)) (sc_pendingRSS (clearPending t s))
      = filter (\<lambda>i. \<not> (\<exists>u \<in> set (t # ts). wt_isRSS u \<and> ix_ID (wt_indexer u) = i)) (sc_pendingRSS s)"
    by (auto intro: filter_cong)
  then show ?case
    unfolding fold_simps comp_def Cons.IH by (simp add: clearPending_def)
qed simp

lemma filter_job_idents: "\<forall>t \<in> set ts. wt_jobID t = j \<Longrightarrow> filter_mset (\<lambda>x. i_job x \<noteq> j) (idents ts) = {#}"
  by (induction ts) simp_all

lemma filter_job_none: "jobcount j M = 0 \<Longrightarrow> filter_mset (\<lambda>x. i_job x \<noteq> j) M = M"
  by (induction M) (auto split: if_splits)

lemma rss_ix_idents: "set_mset (rss_ix (idents ts)) = {ix_ID (wt_indexer t) |t. t \<in> set ts \<and> wt_isRSS t}"
  by (induction ts) auto

lemma uniq_disjoint: "uniq (M + N) \<Longrightarrow> x \<in># M \<Longrightarrow> x \<notin># N"
proof
  assume "uniq (M + N)" "x \<in># M" "x \<in># N"
  then have "count M x > 0" "count N x > 0" "count (M + N) x \<le> 1"
    unfolding uniq_def by (simp, simp, blast)
  then show False
    unfolding plus_multiset.rep_eq by linarith
qed

lemma submitAbort_inv:
  assumes "sched_inv s" and k: "k < length (sc_submits s)" "su_registered (sc_submits s ! k)"
  shows "sched_inv (submitAbort k s)"
proof -
  have L: "ledger_ok (outstanding s) (ledger_of s)" and S: "submits_ok (outstanding s) s" and W: "workers_ok s"
    using assms(1) by (simp_all add: sched_inv_def)
  define su where "su = sc_submits s ! k"
  obtain A B where AB: "sc_submits s = A @ su # B" "drop_nth k (sc_submits s) = A @ B"
    using split_at [OF k(1)] unfolding su_def by metis
  have sreg: "su_registered su"
    using k(2) by (simp add: su_def)
  define s1 where "s1 = s\<lparr>sc_jobs := gm_del (su_job su) (sc_jobs s), sc_submits := A @ B\<rparr>"
  define P where "P = filter (\<lambda>i. \<not> (\<exists>t \<in> set (su_tasks su). wt_isRSS t \<and> ix_ID (wt_indexer t) = i)) (sc_pendingRSS s)"
  define s' where "s' = s1\<lparr>sc_pendingRSS := P\<rparr>"
  have eq: "submitAbort k s = s'"
    by (simp add: submitAbort_def Let_def su_def [symmetric] AB(2) clearPendingRSSLocked_eq s1_def s'_def P_def)
  have tasks: "\<forall>t \<in> set (su_tasks su). wt_jobID t = su_job su" and reg: "gm_has (sc_jobs s) (su_job su)"
    and cnt: "jobcount (su_job su) (outstanding s) = length (su_tasks su)"
    using S sreg by (simp_all add: submits_ok_def AB(1))
  define R where "R = outstanding s'"
  have out: "outstanding s = idents (su_tasks su) + R"
    by (simp add: R_def s'_def s1_def outstanding_def elsewhere_def submitting_def inflight_def AB)
  have R0: "jobcount (su_job su) R = 0"
    using cnt jobcount_idents [OF tasks] by (simp add: out)
  have filt: "filter_mset (\<lambda>x. i_job x \<noteq> su_job su) (outstanding s) = R"
    by (simp add: out filter_job_idents [OF tasks] filter_job_none [OF R0])
  have led: "ledger_of s' = (ledger_of s)\<lparr>lg_pending := P, lg_jobs := gm_del (su_job su) (lg_jobs (ledger_of s))\<rparr>"
    by (simp add: ledger_of_def open_jobs_set s'_def s1_def AB(1) sreg)
  have u: "uniq (rss_ix (idents (su_tasks su)) + rss_ix R)" and p: "set (sc_pendingRSS s) = set_mset (rss_ix (idents (su_tasks su)) + rss_ix R)"
    using ledger_okD(3,4) [OF L] by (simp_all add: out ledger_of_def)
  have "set P = set_mset (rss_ix R)"
    using p uniq_disjoint [OF u] by (auto simp: P_def rss_ix_idents)
  then have "ledger_ok R (ledger_of s')"
    using ledger_abort [OF L, of "su_job su" P] reg unfolding filt led by (simp add: ledger_of_def)
  moreover have "submits_ok R s'"
  proof -
    have ne: "su_job u \<noteq> su_job su" if "u \<in> set A \<union> set B" for u
    proof -
      have "su_job su \<notin> su_job ` set A" "su_job su \<notin> su_job ` set B"
        using S by (auto simp: submits_ok_def AB(1))
      with that show ?thesis
        by (metis UnE image_eqI)
    qed
    have "jobcount (su_job u) R = jobcount (su_job u) (outstanding s)" if "u \<in> set A \<union> set B" for u
      using jobcount_filter [of "su_job u" "su_job su" "outstanding s"] ne [OF that] by (simp add: filt)
    with ne show ?thesis
      using S by (auto simp: submits_ok_def AB s'_def s1_def gm_has_get)
  qed
  moreover have "workers_ok s'"
    using W by (simp add: workers_ok_def s'_def s1_def)
  ultimately show ?thesis
    by (simp only: eq sched_inv_def R_def)
qed

lemma enqueueTasks_inv:
  assumes "sched_inv s" and ch: "sc_submitCh s = batch # rest"
  shows "sched_inv (enqueueTasks batch now (s\<lparr>sc_submitCh := rest, sc_coalesce := True\<rparr>))"
proof -
  define mk where "mk task = \<lparr>ti_task = task, ti_priority = jobPriority (wt_meta task), ti_created = now (wt_taskID task), ti_started = 0\<rparr>" for task
  define es where "es = (if batch \<noteq> [] then [EvIndexerActivity] else [])"
  define q where "q = fold (heap_push item_less) (map mk batch) (sc_taskQueue s)"
  define s' where "s' = s\<lparr>sc_submitCh := rest, sc_coalesce := True, sc_taskQueue := q, sc_events := sc_events s @ es\<rparr>"
  have eq: "enqueueTasks batch now (s\<lparr>sc_submitCh := rest, sc_coalesce := True\<rparr>) = s'"
    by (simp add: enqueueTasks_def s'_def q_def fold_map comp_def mk_def es_def)
  have heap: "heap_at item_key (length (sc_taskQueue s)) (sc_taskQueue s)"
    using assms(1) by (simp add: sched_inv_def workers_ok_def)
  have q: "heap_at item_key (length q) q" "mset q = mset (map mk batch) + mset (sc_taskQueue s)"
    using task_heap.push_all [OF heap] unfolding q_def item_less_key by auto
  have "idents (map ti_task q) = idents batch + idents (map ti_task (sc_taskQueue s))"
    unfolding idents_def mset_map q(2) by (simp add: mk_def image_mset.compositionality comp_def)
  then have out: "outstanding s' = outstanding s"
    by (simp add: outstanding_def elsewhere_def submitting_def inflight_def s'_def ch)
  have "job_dones es = []" "task_dones es = []"
    by (simp_all add: es_def)
  then have led: "ledger_of s' = ledger_of s"
    by (simp add: ledger_of_def open_jobs_def s'_def)
  have "sched_inv s'"
    by (rule sched_inv_frame [OF assms(1) out led]) (use assms(1) q(1) in \<open>simp_all add: s'_def workers_ok_def sched_inv_def\<close>)
  then show ?thesis
    by (simp only: eq)
qed

lemma executeStart_inv:
  assumes "sched_inv s"
  shows "sched_inv (executeStart i now s)"
proof (cases "gm_get (sc_inFlight s) i")
  case (Some item)
  have W: "workers_ok s"
    using assms by (simp add: sched_inv_def)
  then have "gm_ok (sc_inFlight s)"
    by (simp add: workers_ok_def)
  from gm_put_present [OF this Some, of "item\<lparr>ti_started := now\<rparr>"]
  obtain m1 m2 where m: "sc_inFlight s = m1 @ (i, item) # m2"
    "gm_put i (item\<lparr>ti_started := now\<rparr>) (sc_inFlight s) = m1 @ (i, item\<lparr>ti_started := now\<rparr>) # m2"
    by blast
  let ?s = "executeStart i now s"
  have eq: "?s = s\<lparr>sc_rateLimiter := RecordRequestStart i None now (sc_rateLimiter s),
      sc_inFlight := m1 @ (i, item\<lparr>ti_started := now\<rparr>) # m2, sc_started := sc_started s @ [wt_taskID (ti_task item)]\<rparr>"
    by (simp add: executeStart_def Some m(2))
  have "gm_ok (m1 @ (i, item\<lparr>ti_started := now\<rparr>) # m2)"
    using W unfolding workers_ok_def by (simp add: gm_ok_def m(1))
  then have "workers_ok ?s"
    using W unfolding eq by (simp add: workers_ok_def m(1))
  moreover have "outstanding ?s = outstanding s" "ledger_of ?s = ledger_of s"
    unfolding eq by (simp_all add: outstanding_def elsewhere_def submitting_def inflight_def m(1) ledger_of_def open_jobs_def)
  ultimately show ?thesis
    by (intro sched_inv_frame [OF assms]) (simp_all add: eq)
qed (use assms in \<open>simp add: executeStart_def\<close>)

lemma done_task_inFlight:
  "clearPending (ti_task it) ((snd (handleTaskCompleteLocked it n r c e s))\<lparr>sc_inFlight := f\<rparr>) = (done_task it n r c e s)\<lparr>sc_inFlight := f\<rparr>"
  by (simp add: done_task_def clearPending_def)

lemma executeFinish_inv:
  assumes "sched_inv s"
  shows "sched_inv (executeFinish i now results coverage err s)"
proof (cases "gm_get (sc_inFlight s) i")
  case (Some item)
  have L: "ledger_ok (outstanding s) (ledger_of s)" and S: "submits_ok (outstanding s) s" and W: "workers_ok s"
    using assms by (simp_all add: sched_inv_def)
  then have "gm_ok (sc_inFlight s)"
    by (simp add: workers_ok_def)
  from gm_put_present [OF this Some] obtain m1 m2 where m: "sc_inFlight s = m1 @ (i, item) # m2" "gm_del i (sc_inFlight s) = m1 @ m2"
    by metis
  define s1 where "s1 = s\<lparr>sc_rateLimiter := RecordRequestComplete i None now (sc_rateLimiter s)\<rparr>"
  define recorded where "recorded = fst (handleTaskCompleteLocked item now results coverage err s1)"
  define es where "es = [EvIndexerActivity] @ (if recorded then [EvSearchHistory] else [])"
  define t where "t = done_task item now results coverage err s1"
  define s' where "s' = t\<lparr>sc_inFlight := m1 @ m2, sc_releasing := sc_releasing s + 1,
      sc_started := filter (\<lambda>t. t \<noteq> wt_taskID (ti_task item)) (sc_started s), sc_events := sc_events t @ es\<rparr>"
  have fields: "sc_inFlight s1 = sc_inFlight s" "sc_releasing t = sc_releasing s" "sc_started t = sc_started s"
    "sc_taskQueue t = sc_taskQueue s" "sc_workersInUse t = sc_workersInUse s" "sc_workerCap t = sc_workerCap s"
    "sc_submits t = sc_submits s" "sc_submitCh t = sc_submitCh s"
    by (simp_all add: t_def done_task_def s1_def)
  have eq: "executeFinish i now results coverage err s = s'"
    unfolding executeFinish_def Some option.case Let_def s1_def [symmetric] split_beta recorded_def [symmetric] handle_fields fields m(2) done_task_inFlight t_def [symmetric]
    by (simp add: s'_def es_def fields)
  have W': "workers_ok s'"
    using W unfolding workers_ok_def by (simp add: s'_def fields m(1) gm_ok_def)
  define M where "M = outstanding s'"
  have out: "outstanding s = add_mset (ident (ti_task item)) M"
    by (simp add: M_def s'_def outstanding_def elsewhere_def submitting_def inflight_def fields m(1))
  have "M = submitting s1 + (idents (concat (sc_submitCh s)) + idents (map (\<lambda>e. ti_task (snd e)) (m1 @ m2)) + idents (map ti_task (sc_taskQueue s)))"
    by (simp add: M_def s'_def outstanding_def elsewhere_def submitting_def inflight_def fields s1_def)
  note dn = done_task_ledger [OF _ _ this, of item now results coverage err, folded t_def]
  have "ledger_ok M (ledger_of t)" "submits_ok M t"
    using dn L S by (simp_all add: out s1_def ledger_of_fields submits_ok_fields)
  moreover have "ledger_of s' = ledger_of t" "submits_ok M s' = submits_ok M t"
    by (simp_all add: s'_def ledger_of_def open_jobs_def submits_ok_def es_def)
  ultimately show ?thesis
    using W' by (simp only: eq sched_inv_def M_def)
qed (use assms in \<open>simp add: executeFinish_def\<close>)

lemma sched_inv_fields:
  "sched_inv (s\<lparr>sc_completeCh := n\<rparr>) = sched_inv s" "sched_inv (s\<lparr>sc_coalesce := b\<rparr>) = sched_inv s"
  "sched_inv (s\<lparr>sc_retryTimer := t\<rparr>) = sched_inv s" "sched_inv (s\<lparr>sc_stopped := b\<rparr>) = sched_inv s"
  "sched_inv (s\<lparr>sc_rateLimiter := rl\<rparr>) = sched_inv s"
  by (simp_all add: sched_inv_def outstanding_def elsewhere_def submitting_def inflight_def ledger_of_fields submits_ok_fields workers_ok_def)

lemma notify_inv [simp]: "sched_inv (notify s) = sched_inv s"
  by (simp add: notify_def sched_inv_fields)

lemma releaseWorker_inv:
  assumes "sched_inv s" "sc_releasing s > 0"
  shows "sched_inv (releaseWorker s)"
proof -
  have "sched_inv (s\<lparr>sc_releasing := sc_releasing s - 1, sc_workersInUse := sc_workersInUse s - 1\<rparr>)"
    by (rule sched_inv_frame [OF assms(1)])
      (use assms in \<open>auto simp: outstanding_def elsewhere_def submitting_def inflight_def ledger_of_def open_jobs_def sched_inv_def workers_ok_def\<close>)
  then show ?thesis
    by (simp add: releaseWorker_def)
qed

lemma sched_step_inv: "sched_step s s' \<Longrightarrow> sched_inv s \<Longrightarrow> sched_inv s'"
proof (induction rule: sched_step.induct)
  case (complete s env)
  then show ?case
    by (intro dispatchTasks_inv) (simp add: sched_inv_fields)
next
  case (coalesce s env)
  then show ?case
    by (intro dispatchTasks_inv) (simp add: sched_inv_fields)
qed (simp_all add: submitStart_inv submitIndexer_inv submitRegister_inv submitSend_inv submitAbort_inv enqueueTasks_inv
    executeStart_inv executeFinish_inv releaseWorker_inv sched_inv_fields)

lemma sched_reachable_inv: "sched_reachable s \<Longrightarrow> sched_inv s"
  by (induction rule: sched_reachable.induct) (auto intro: newSearchScheduler_inv sched_step_inv)

end
