(* ===== verification/Scheduler_Properties.thy ===== *)
theory Scheduler_Properties
  imports Search_Scheduler
begin

text \<open>
  What the search scheduler guarantees: in every reachable state (the invariant of
  \<open>Search_Scheduler\<close> read off in the terms of the code), for one run of \<open>dispatchTasks\<close>, and for the
  retry timer it leaves behind.
\<close>

section \<open>Reachable states\<close>

lemma reachableD:
  assumes "sched_reachable s"
  shows "ledger_ok (outstanding s) (ledger_of s)" "submits_ok (outstanding s) s" "workers_ok s"
    "heap_at item_key (length (sc_taskQueue s)) (sc_taskQueue s)"
  using sched_reachable_inv [OF assms] by (simp_all add: sched_inv_def workers_ok_def)

lemma ledger_of_sel [simp]:
  "lg_pending (ledger_of s) = sc_pendingRSS s" "lg_jobs (ledger_of s) = sc_jobs s"
  "lg_jobDones (ledger_of s) = job_dones (sc_events s)" "lg_taskDones (ledger_of s) = task_dones (sc_events s)"
  "lg_taskSeq (ledger_of s) = sc_taskSeq s" "lg_jobSeq (ledger_of s) = sc_jobSeq s" "lg_open (ledger_of s) = open_jobs s"
  by (simp_all add: ledger_of_def)

section \<open>One dispatch\<close>

text \<open>The limiter answers the same: the same states and default interval, materialised or not.\<close>

definition rl_eq :: "rate_limiter \<Rightarrow> rate_limiter \<Rightarrow> bool" where
  "rl_eq r r' \<longleftrightarrow> (\<forall>j. state_of r j = state_of r' j) \<and> rl_minInterval r = rl_minInterval r'"

definition wait_at :: "(nat \<Rightarrow> int) \<Rightarrow> rate_limiter \<Rightarrow> worker_task \<Rightarrow> int" where
  "wait_at clock r task = fst (NextWait (ix_ID (wt_indexer task)) (rl_opts (wt_meta task)) (clock (wt_taskID task)) r)"

lemma rl_eq_refl [simp]: "rl_eq r r"
  by (simp add: rl_eq_def)

lemma rl_eq_trans: "rl_eq r r' \<Longrightarrow> rl_eq r' r'' \<Longrightarrow> rl_eq r r''"
  by (simp add: rl_eq_def)

lemma rl_eq_NextWait: "rl_eq r (snd (NextWait i opts now r))"
  by (simp add: rl_eq_def NextWait_eq)

lemma wait_at_cong:
  assumes "rl_eq r r'"
  shows "wait_at clock r' task = wait_at clock r task"
proof -
  have "interval_of r' opts = interval_of r opts" for opts
    using assms by (intro interval_of_cong) (simp add: rl_eq_def)
  then show ?thesis
    using assms unfolding wait_at_def NextWait_eq(1) interval_of_def [symmetric] by (simp add: rl_eq_def)
qed

lemma wait_at_ctx [simp]: "wait_at clock r (task\<lparr>wt_ctx := c, wt_ctxCancel := b\<rparr>) = wait_at clock r task"
  by (simp add: wait_at_def)

text \<open>A task is held back by a request to its indexer or by the rate limiter, not by a lack of workers.\<close>

definition held_back :: "dispatch_env \<Rightarrow> sched \<Rightarrow> task_item \<Rightarrow> bool" where
  "held_back env s a \<longleftrightarrow> gm_has (sc_inFlight s) (ix_ID (wt_indexer (ti_task a))) \<or> wait_at (de_now env) (sc_rateLimiter s) (ti_task a) > 0"

definition launched :: "sched \<Rightarrow> sched \<Rightarrow> task_item \<Rightarrow> bool" where
  "launched s0 s b \<longleftrightarrow> (\<exists>i. (i, b) \<in> set (sc_inFlight s) \<and> (i, b) \<notin> set (sc_inFlight s0))"

definition disp_inv :: "dispatch_env \<Rightarrow> sched \<Rightarrow> task_item list \<Rightarrow> dispatch_acc \<Rightarrow> bool" where
  "disp_inv env s0 items acc \<longleftrightarrow>
     rl_eq (sc_rateLimiter s0) (sc_rateLimiter (da_s acc))
   \<and> (\<forall>a \<in> set (da_blocked acc). held_back env (da_s acc) a \<or> sc_workersInUse (da_s acc) \<ge> sc_workerCap (da_s acc))
   \<and> (\<forall>b. launched s0 (da_s acc) b \<longrightarrow> wait_at (de_now env) (sc_rateLimiter s0) (ti_task b) \<le> 0)
   \<and> (\<forall>a b. launched s0 (da_s acc) b \<and> a \<in> set (da_blocked acc) \<and> item_key a < item_key b \<longrightarrow> held_back env (da_s acc) a)
   \<and> (\<forall>x a. x \<in> set items \<and> a \<in> set (da_blocked acc) \<longrightarrow> item_key a \<le> item_key x)
   \<and> (\<forall>x b. x \<in> set items \<and> launched s0 (da_s acc) b \<longrightarrow> item_key b \<le> item_key x)"

lemma disp_invD:
  assumes "disp_inv env s0 items acc"
  shows "rl_eq (sc_rateLimiter s0) (sc_rateLimiter (da_s acc))"
    "a \<in> set (da_blocked acc) \<Longrightarrow> held_back env (da_s acc) a \<or> sc_workersInUse (da_s acc) \<ge> sc_workerCap (da_s acc)"
    "launched s0 (da_s acc) b \<Longrightarrow> wait_at (de_now env) (sc_rateLimiter s0) (ti_task b) \<le> 0"
    "launched s0 (da_s acc) b \<Longrightarrow> a \<in> set (da_blocked acc) \<Longrightarrow> item_key a < item_key b \<Longrightarrow> held_back env (da_s acc) a"
    "x \<in> set items \<Longrightarrow> a \<in> set (da_blocked acc) \<Longrightarrow> item_key a \<le> item_key x"
    "x \<in> set items \<Longrightarrow> launched s0 (da_s acc) b \<Longrightarrow> item_key b \<le> item_key x"
  using assms unfolding disp_inv_def by blast+

lemma disp_invI:
  assumes "rl_eq (sc_rateLimiter s0) (sc_rateLimiter (da_s acc))"
    "\<And>a. a \<in> set (da_blocked acc) \<Longrightarrow> held_back env (da_s acc) a \<or> sc_workersInUse (da_s acc) \<ge> sc_workerCap (da_s acc)"
    "\<And>b. launched s0 (da_s acc) b \<Longrightarrow> wait_at (de_now env) (sc_rateLimiter s0) (ti_task b) \<le> 0"
    "\<And>a b. launched s0 (da_s acc) b \<Longrightarrow> a \<in> set (da_blocked acc) \<Longrightarrow> item_key a < item_key b \<Longrightarrow> held_back env (da_s acc) a"
    "\<And>x a. x \<in> set items \<Longrightarrow> a \<in> set (da_blocked acc) \<Longrightarrow> item_key a \<le> item_key x"
    "\<And>x b. x \<in> set items \<Longrightarrow> launched s0 (da_s acc) b \<Longrightarrow> item_key b \<le> item_key x"
  shows "disp_inv env s0 items acc"
  using assms unfolding disp_inv_def by blast

lemma disp_inv_skip:
  assumes "disp_inv env s0 (x # items) acc"
  shows "disp_inv env s0 items (dispatchSkip env it err acc)"
proof -
  obtain s' b where eq: "dispatchSkip env it err acc = acc\<lparr>da_s := s', da_completed := True, da_recorded := b\<rparr>"
    and "sc_inFlight s' = sc_inFlight (da_s acc)" "sc_rateLimiter s' = sc_rateLimiter (da_s acc)"
      "sc_workersInUse s' = sc_workersInUse (da_s acc)" "sc_workerCap s' = sc_workerCap (da_s acc)"
    unfolding dispatchSkip_def split_beta by simp
  then have "held_back env s' = held_back env (da_s acc)" "launched s0 s' = launched s0 (da_s acc)"
    "sc_rateLimiter s' = sc_rateLimiter (da_s acc)" "sc_workersInUse s' = sc_workersInUse (da_s acc)" "sc_workerCap s' = sc_workerCap (da_s acc)"
    by (auto simp: held_back_def launched_def fun_eq_iff)
  with assms show ?thesis
    unfolding eq by (simp add: disp_inv_def)
qed

lemma held_back_limiter:
  "rl_eq (sc_rateLimiter s) rl \<Longrightarrow> held_back env (s\<lparr>sc_rateLimiter := rl\<rparr>) a = held_back env s a"
  by (simp add: held_back_def wait_at_cong)

lemma disp_inv_limiter:
  assumes "disp_inv env s0 items acc" "rl_eq (sc_rateLimiter (da_s acc)) rl"
  shows "disp_inv env s0 items (acc\<lparr>da_s := (da_s acc)\<lparr>sc_rateLimiter := rl\<rparr>\<rparr>)"
  using assms rl_eq_trans [of "sc_rateLimiter s0" "sc_rateLimiter (da_s acc)" rl]
  by (simp add: disp_inv_def held_back_limiter launched_def)

lemma disp_inv_block:
  assumes inv: "disp_inv env s0 (x # items) acc" and sorted: "\<forall>y \<in> set items. item_key x \<le> item_key y"
    and key: "item_key it = item_key x"
    and why: "held_back env (da_s acc) it \<or> sc_workersInUse (da_s acc) \<ge> sc_workerCap (da_s acc)"
  shows "disp_inv env s0 items (acc\<lparr>da_blocked := da_blocked acc @ [it]\<rparr>)"
proof (rule disp_invI)
  let ?acc = "acc\<lparr>da_blocked := da_blocked acc @ [it]\<rparr>"
  note D = disp_invD [OF inv]
  show "rl_eq (sc_rateLimiter s0) (sc_rateLimiter (da_s ?acc))"
    using D(1) by simp
  show "held_back env (da_s ?acc) a \<or> sc_workersInUse (da_s ?acc) \<ge> sc_workerCap (da_s ?acc)" if "a \<in> set (da_blocked ?acc)" for a
    using that D(2) [of a] why by auto
  show "wait_at (de_now env) (sc_rateLimiter s0) (ti_task b) \<le> 0" if "launched s0 (da_s ?acc) b" for b
    using that D(3) by simp
  show "held_back env (da_s ?acc) a" if "launched s0 (da_s ?acc) b" "a \<in> set (da_blocked ?acc)" "item_key a < item_key b" for a b
    using that D(4) [of b a] D(6) [of x b] key by (auto simp: not_less [symmetric])
  show "item_key a \<le> item_key y" if "y \<in> set items" "a \<in> set (da_blocked ?acc)" for y a
    using that D(5) [of y a] sorted key by auto
  show "item_key b \<le> item_key y" if "y \<in> set items" "launched s0 (da_s ?acc) b" for y b
    using that D(6) [of y b] by simp
qed

lemma gm_put_set: "\<not> gm_has m k \<Longrightarrow> set (gm_put k v m) = insert (k, v) (set m)"
  by (simp add: gm_put_fresh)

lemma disp_inv_launch:
  assumes inv: "disp_inv env s0 (x # items) acc" and sorted: "\<forall>y \<in> set items. item_key x \<le> item_key y"
    and key: "item_key it = item_key x"
    and fresh: "\<not> gm_has (sc_inFlight (da_s acc)) i" and slot: "sc_workersInUse (da_s acc) < sc_workerCap (da_s acc)"
    and ready: "wait_at (de_now env) (sc_rateLimiter (da_s acc)) (ti_task it) \<le> 0"
  shows "disp_inv env s0 items (acc\<lparr>da_s := (da_s acc)\<lparr>sc_workersInUse := sc_workersInUse (da_s acc) + 1,
    sc_inFlight := gm_put i it (sc_inFlight (da_s acc))\<rparr>\<rparr>)"
proof -
  let ?s = "(da_s acc)\<lparr>sc_workersInUse := sc_workersInUse (da_s acc) + 1, sc_inFlight := gm_put i it (sc_inFlight (da_s acc))\<rparr>"
  let ?acc = "acc\<lparr>da_s := ?s\<rparr>"
  note D = disp_invD [OF inv]
  have blocked: "held_back env ?s a" if "a \<in> set (da_blocked acc)" for a
    using D(2) [OF that] slot by (auto simp: held_back_def gm_has_get)
  have new: "b = it \<or> launched s0 (da_s acc) b" if "launched s0 ?s b" for b
    using that by (auto simp: launched_def gm_put_set [OF fresh])
  have ready0: "wait_at (de_now env) (sc_rateLimiter s0) (ti_task it) \<le> 0"
    using ready wait_at_cong [OF D(1)] by simp
  show ?thesis
  proof (rule disp_invI)
    show "rl_eq (sc_rateLimiter s0) (sc_rateLimiter (da_s ?acc))"
      using D(1) by simp
    show "held_back env (da_s ?acc) a \<or> sc_workersInUse (da_s ?acc) \<ge> sc_workerCap (da_s ?acc)" if "a \<in> set (da_blocked ?acc)" for a
      using that blocked by simp
    show "wait_at (de_now env) (sc_rateLimiter s0) (ti_task b) \<le> 0" if "launched s0 (da_s ?acc) b" for b
      using that new [of b] ready0 D(3) [of b] by auto
    show "held_back env (da_s ?acc) a" if "launched s0 (da_s ?acc) b" "a \<in> set (da_blocked ?acc)" "item_key a < item_key b" for a b
      using that blocked by simp
    show "item_key a \<le> item_key y" if "y \<in> set items" "a \<in> set (da_blocked ?acc)" for y a
      using that D(5) [of y a] by simp
    show "item_key b \<le> item_key y" if "y \<in> set items" "launched s0 (da_s ?acc) b" for y b
      using that new [of b] D(6) [of y b] sorted key by auto
  qed
qed

lemma dispatchItem_disp:
  assumes inv: "disp_inv env s0 (x # items) acc" and sorted: "\<forall>y \<in> set items. item_key x \<le> item_key y"
  shows "disp_inv env s0 items (dispatchItem env x acc)"
proof (cases "de_err env (wt_ctx (ti_task x)) 0 = Some Canceled")
  case True
  with disp_inv_skip [OF inv] show ?thesis
    by (simp add: dispatchItem_def)
next
  case False
  obtain task expired where task: "task = (if expired then (ti_task x)\<lparr>wt_ctx := FreshCtx (wt_taskID (ti_task x)) (getExecutionTimeout (ti_task x)),
      wt_ctxCancel := True\<rparr> else ti_task x)"
    and expired: "expired = (de_err env (wt_ctx (ti_task x)) 1 = Some DeadlineExceeded \<and> \<not> wt_ctxCancel (ti_task x))"
    by blast
  define it where "it = x\<lparr>ti_task := task\<rparr>"
  have key: "item_key it = item_key x"
    by (simp add: it_def item_key_def)
  obtain wait rl where w: "NextWait (ix_ID (wt_indexer task)) (rl_opts (wt_meta task)) (de_now env (wt_taskID task)) (sc_rateLimiter (da_s acc)) = (wait, rl)"
    by fastforce
  have wait: "wait_at (de_now env) (sc_rateLimiter (da_s acc)) (ti_task it) = wait"
    by (simp add: wait_at_def it_def w)
  have rl: "rl_eq (sc_rateLimiter (da_s acc)) rl"
    using rl_eq_NextWait [of "sc_rateLimiter (da_s acc)"] w by (metis snd_conv)
  let ?acc = "acc\<lparr>da_s := (da_s acc)\<lparr>sc_rateLimiter := rl\<rparr>\<rparr>"
  note inv' = disp_inv_limiter [OF inv rl]
  have wait': "wait_at (de_now env) (sc_rateLimiter (da_s ?acc)) (ti_task it) = wait"
    using wait_at_cong [OF rl] wait by simp
  note skip = disp_inv_skip [OF inv] disp_inv_skip [OF inv']
  have busy: "disp_inv env s0 items (acc\<lparr>da_blocked := da_blocked acc @ [it]\<rparr>)"
    if "gm_has (sc_inFlight (da_s acc)) (ix_ID (wt_indexer task))"
    by (rule disp_inv_block [OF inv sorted key]) (use that in \<open>simp add: held_back_def it_def\<close>)
  have block: "disp_inv env s0 items (acc\<lparr>da_s := (da_s acc)\<lparr>sc_rateLimiter := rl\<rparr>, da_blocked := da_blocked acc @ [it]\<rparr>)"
    if "wait > 0 \<or> \<not> sc_workersInUse (da_s acc) < sc_workerCap (da_s acc)"
    using disp_inv_block [OF inv' sorted key] that wait' by (auto simp: held_back_def)
  have launch: "disp_inv env s0 items (acc\<lparr>da_s := (da_s acc)\<lparr>sc_rateLimiter := rl, sc_workersInUse := sc_workersInUse (da_s acc) + 1,
      sc_inFlight := gm_put (ix_ID (wt_indexer task)) it (sc_inFlight (da_s acc))\<rparr>\<rparr>)"
    if "\<not> gm_has (sc_inFlight (da_s acc)) (ix_ID (wt_indexer task))" "sc_workersInUse (da_s acc) < sc_workerCap (da_s acc)" "\<not> wait > 0"
    using disp_inv_launch [OF inv' sorted key] that wait' by simp
  show ?thesis
    unfolding dispatchItem_def Let_def expired [symmetric] task [symmetric] it_def [symmetric] if_not_P [OF False] w prod.case limiter_sel
    by (intro option_split [where P = "disp_inv env s0 items"] if_split' [where P = "disp_inv env s0 items"])
      (assumption | rule skip busy block launch disjI1 disjI2)+
qed

lemma dispatchItems_disp:
  "disp_inv env s0 items acc \<Longrightarrow> sorted (map item_key items) \<Longrightarrow> disp_inv env s0 [] (fold (dispatchItem env) items acc)"
  by (induction items arbitrary: acc) (simp_all add: dispatchItem_disp)

text \<open>The retry timer: the least positive wait of the queue.\<close>

lemma retryWait_step:
  fixes env x
  assumes "rl_eq r0 (snd a)"
  defines "w \<equiv> wait_at (de_timerNow env) r0 (ti_task x)"
  shows "fst (retryWait env x a) = (if w > 0 \<and> (fst a = 0 \<or> w < fst a) then w else fst a)" "rl_eq r0 (snd (retryWait env x a))"
proof -
  obtain m rl where a: "a = (m, rl)"
    by fastforce
  obtain v rl' where v: "NextWait (ix_ID (wt_indexer (ti_task x))) (rl_opts (wt_meta (ti_task x))) (de_timerNow env (wt_taskID (ti_task x))) rl = (v, rl')"
    by fastforce
  have "v = w"
    using wait_at_cong [of r0 rl "de_timerNow env" "ti_task x"] assms(1) v by (simp add: a w_def wait_at_def)
  then show "fst (retryWait env x a) = (if w > 0 \<and> (fst a = 0 \<or> w < fst a) then w else fst a)"
    by (auto simp: retryWait_def a v)
  have "rl_eq rl rl'"
    using rl_eq_NextWait v by (metis snd_conv)
  with assms(1) show "rl_eq r0 (snd (retryWait env x a))"
    using rl_eq_trans by (auto simp: retryWait_def a v)
qed

lemma retryWait_fold:
  assumes "rl_eq r0 (snd a)" "fst a \<ge> 0"
  shows "rl_eq r0 (snd (fold (retryWait env) q a)) \<and> 0 \<le> fst (fold (retryWait env) q a)
    \<and> (fst a > 0 \<longrightarrow> 0 < fst (fold (retryWait env) q a) \<and> fst (fold (retryWait env) q a) \<le> fst a)
    \<and> (\<forall>x \<in> set q. wait_at (de_timerNow env) r0 (ti_task x) > 0 \<longrightarrow>
         0 < fst (fold (retryWait env) q a) \<and> fst (fold (retryWait env) q a) \<le> wait_at (de_timerNow env) r0 (ti_task x))"
  using assms
proof (induction q arbitrary: a)
  case (Cons x q)
  let ?w = "wait_at (de_timerNow env) r0 (ti_task x)"
  note step = retryWait_step [OF Cons.prems(1), where env = env and x = x]
  have nonneg: "fst (retryWait env x a) \<ge> 0"
    using Cons.prems(2) step(1) by simp
  note IH = Cons.IH [OF step(2) nonneg]
  have pos: "fst (retryWait env x a) > 0" "fst (retryWait env x a) \<le> ?w" if "?w > 0"
    using that step(1) Cons.prems(2) by auto
  have pos': "fst (retryWait env x a) > 0" "fst (retryWait env x a) \<le> fst a" if "fst a > 0"
    using that step(1) by auto
  have x: "?w > 0 \<Longrightarrow> 0 < fst (fold (retryWait env) (x # q) a) \<and> fst (fold (retryWait env) (x # q) a) \<le> ?w"
    using IH pos by auto
  have a: "fst a > 0 \<Longrightarrow> 0 < fst (fold (retryWait env) (x # q) a) \<and> fst (fold (retryWait env) (x # q) a) \<le> fst a"
    using IH pos' by auto
  show ?case
    using IH x a by simp
qed simp

lemma timer_spec:
  fixes s env
  defines "s' \<equiv> scheduleRetryTimerLocked env s"
  shows "rl_eq (sc_rateLimiter s) (sc_rateLimiter s')"
    "x \<in> set (sc_taskQueue s) \<Longrightarrow> wait_at (de_timerNow env) (sc_rateLimiter s) (ti_task x) > 0 \<Longrightarrow>
       \<exists>d. sc_retryTimer s' = Some d \<and> 0 < d \<and> d \<le> maxRetryTimerInterval
         \<and> d \<le> wait_at (de_timerNow env) (sc_rateLimiter s) (ti_task x)"
proof -
  obtain w rl where w: "fold (retryWait env) (sc_taskQueue s) (0, sc_rateLimiter s) = (w, rl)"
    by fastforce
  have s': "s' = (if sc_taskQueue s = [] then s else if w > 0 then s\<lparr>sc_rateLimiter := rl, sc_retryTimer := Some (min w maxRetryTimerInterval)\<rparr>
      else s\<lparr>sc_rateLimiter := rl\<rparr>)"
    by (simp add: s'_def scheduleRetryTimerLocked_def w)
  have F: "rl_eq (sc_rateLimiter s) rl \<and> (\<forall>x \<in> set (sc_taskQueue s). wait_at (de_timerNow env) (sc_rateLimiter s) (ti_task x) > 0 \<longrightarrow>
      0 < w \<and> w \<le> wait_at (de_timerNow env) (sc_rateLimiter s) (ti_task x))"
    using retryWait_fold [of "sc_rateLimiter s" "(0, sc_rateLimiter s)" env "sc_taskQueue s"] w by simp
  then show "rl_eq (sc_rateLimiter s) (sc_rateLimiter s')"
    by (simp add: s')
  assume x: "x \<in> set (sc_taskQueue s)" "wait_at (de_timerNow env) (sc_rateLimiter s) (ti_task x) > 0"
  then have "0 < w" "w \<le> wait_at (de_timerNow env) (sc_rateLimiter s) (ti_task x)" "sc_taskQueue s \<noteq> []"
    using F by auto
  moreover have "0 < maxRetryTimerInterval"
    by (simp add: maxRetryTimerInterval_def Minute_def Second_def)
  ultimately show "\<exists>d. sc_retryTimer s' = Some d \<and> 0 < d \<and> d \<le> maxRetryTimerInterval
         \<and> d \<le> wait_at (de_timerNow env) (sc_rateLimiter s) (ti_task x)"
    by (auto simp: s')
qed

text \<open>A dispatch as a whole.\<close>

lemma dispatchTasks_facts:
  fixes s env
  assumes heap: "heap_at item_key (length (sc_taskQueue s)) (sc_taskQueue s)"
  defines "s' \<equiv> dispatchTasks env s"
  shows "rl_eq (sc_rateLimiter s) (sc_rateLimiter s')"
    "sc_taskQueue s \<noteq> [] \<Longrightarrow> a \<in> set (sc_taskQueue s') \<Longrightarrow> held_back env s' a \<or> sc_workersInUse s' \<ge> sc_workerCap s'"
    "launched s s' b \<Longrightarrow> wait_at (de_now env) (sc_rateLimiter s) (ti_task b) \<le> 0"
    "launched s s' b \<Longrightarrow> a \<in> set (sc_taskQueue s') \<Longrightarrow> item_key a < item_key b \<Longrightarrow> held_back env s' a"
    "sc_taskQueue s \<noteq> [] \<Longrightarrow> a \<in> set (sc_taskQueue s') \<Longrightarrow> wait_at (de_timerNow env) (sc_rateLimiter s) (ti_task a) > 0 \<Longrightarrow>
       \<exists>d. sc_retryTimer s' = Some d \<and> 0 < d \<and> d \<le> maxRetryTimerInterval
         \<and> d \<le> wait_at (de_timerNow env) (sc_rateLimiter s) (ti_task a)"
proof -
  define items where "items = drain_heap item_less (sc_taskQueue s)"
  define acc where "acc = fold (dispatchItem env) items \<lparr>da_s = s\<lparr>sc_taskQueue := []\<rparr>, da_blocked = [], da_completed = False, da_recorded = False\<rparr>"
  define s1 where "s1 = (da_s acc)\<lparr>sc_taskQueue := fold (heap_push item_less) (da_blocked acc) (sc_taskQueue (da_s acc))\<rparr>"
  define es where "es = (if da_completed acc then [EvIndexerActivity] else []) @ (if da_recorded acc then [EvSearchHistory] else [])"
  have sorted: "sorted (map item_key items)"
    unfolding items_def item_less_key by (rule task_heap.drain_sorted [OF heap])
  have "disp_inv env s items \<lparr>da_s = s\<lparr>sc_taskQueue := []\<rparr>, da_blocked = [], da_completed = False, da_recorded = False\<rparr>"
    by (simp add: disp_inv_def launched_def)
  then have inv: "disp_inv env s [] acc"
    unfolding acc_def by (rule dispatchItems_disp [OF _ sorted])
  note D = disp_invD [OF inv]
  have T: "s' = (scheduleRetryTimerLocked env s1)\<lparr>sc_events := sc_events (scheduleRetryTimerLocked env s1) @ es\<rparr>" if "sc_taskQueue s \<noteq> []"
    using that by (simp add: s'_def dispatchTasks_def Let_def items_def acc_def s1_def es_def)
  have E: "s' = s" if "sc_taskQueue s = []"
    using that by (simp add: s'_def dispatchTasks_def)
  obtain rl t where t: "scheduleRetryTimerLocked env s1 = s1\<lparr>sc_rateLimiter := rl, sc_retryTimer := t\<rparr>"
    by (rule timer_fields)
  have rl1: "rl_eq (sc_rateLimiter s1) rl"
    using timer_spec(1) [of s1 env] by (simp add: t)
  have rl0: "rl_eq (sc_rateLimiter s) (sc_rateLimiter s1)"
    using D(1) by (simp add: s1_def)
  have q: "set (sc_taskQueue s1) = set (da_blocked acc)" if "sc_taskQueue s \<noteq> []"
  proof -
    have frame: "sc_taskQueue (da_s (fold (dispatchItem env) xs acc)) = sc_taskQueue (da_s acc)" for xs acc
    proof (induction xs arbitrary: acc)
      case (Cons x xs)
      have skip: "sc_taskQueue (da_s (dispatchSkip env it err acc)) = sc_taskQueue (da_s acc)" for it err acc
        unfolding dispatchSkip_def split_beta by simp
      have "sc_taskQueue (da_s (dispatchItem env x acc)) = sc_taskQueue (da_s acc)"
        unfolding dispatchItem_def Let_def split_beta
        by (intro option_split [where P = "\<lambda>acc'. sc_taskQueue (da_s acc') = sc_taskQueue (da_s acc)"]
            if_split' [where P = "\<lambda>acc'. sc_taskQueue (da_s acc') = sc_taskQueue (da_s acc)"]) (simp_all add: skip)
      with Cons show ?case
        by simp
    qed simp
    have "sc_taskQueue (da_s acc) = []"
      by (simp add: acc_def frame)
    then have "mset (sc_taskQueue s1) = mset (da_blocked acc)"
      using task_heap.push_all [of item_key "[]" "da_blocked acc"] by (simp add: s1_def item_less_key heap_at_def)
    then show ?thesis
      by (metis set_mset_mset)
  qed
  show "rl_eq (sc_rateLimiter s) (sc_rateLimiter s')"
    using T E t rl_eq_trans [OF rl0 rl1] by (cases "sc_taskQueue s = []") auto
  have held: "held_back env s' a = held_back env (da_s acc) a" if "sc_taskQueue s \<noteq> []" for a
    using T [OF that] t wait_at_cong [OF rl1] by (simp add: held_back_def s1_def)
  have launch: "launched s s' b \<longleftrightarrow> sc_taskQueue s \<noteq> [] \<and> launched s (da_s acc) b" for b
    using T E t by (cases "sc_taskQueue s = []") (auto simp: launched_def s1_def)
  show "held_back env s' a \<or> sc_workersInUse s' \<ge> sc_workerCap s'" if "sc_taskQueue s \<noteq> []" "a \<in> set (sc_taskQueue s')"
    using D(2) [of a] that T t q held by (auto simp: s1_def)
  show "wait_at (de_now env) (sc_rateLimiter s) (ti_task b) \<le> 0" if "launched s s' b"
    using D(3) that launch by blast
  show "held_back env s' a" if "launched s s' b" "a \<in> set (sc_taskQueue s')" "item_key a < item_key b"
    using D(4) [of b a] that launch T t q held by (auto simp: s1_def)
  show "\<exists>d. sc_retryTimer s' = Some d \<and> 0 < d \<and> d \<le> maxRetryTimerInterval
         \<and> d \<le> wait_at (de_timerNow env) (sc_rateLimiter s) (ti_task a)"
    if "sc_taskQueue s \<noteq> []" "a \<in> set (sc_taskQueue s')" "wait_at (de_timerNow env) (sc_rateLimiter s) (ti_task a) > 0"
  proof -
    have "a \<in> set (sc_taskQueue s1)" "wait_at (de_timerNow env) (sc_rateLimiter s1) (ti_task a) > 0"
      using that T t wait_at_cong [OF rl0] by simp_all
    from timer_spec(2) [OF this] show ?thesis
      using that T wait_at_cong [OF rl0] by simp
  qed
qed

section \<open>A scheduler at work\<close>

text \<open>
  One worker, a limiter that still holds indexer 3 back, and one submitted RSS search; it is queued,
  then dispatched at time \<open>now\<close> with the timer set at time \<open>later\<close>, then indexer 4 answers.
\<close>

definition demo_indexer :: "int \<Rightarrow> indexer" where
  "demo_indexer i = \<lparr>ix_ID = i, ix_Name = ''tracker''\<rparr>"

definition demo_request :: "int list \<Rightarrow> submit_request" where
  "demo_request is =
     \<lparr>sr_Indexers = map (\<lambda>i. Some (demo_indexer i)) is, sr_Params = [],
      sr_Meta = Some \<lparr>sm_categories = [], sm_contentType = [], sm_searchMode = [],
        sm_rateLimit = Some \<lparr>ro_Priority = RateLimitPriorityRSS, ro_MinInterval = 0, ro_MaxWait = 0\<rparr>,
        sm_releaseName = [], sm_skipHistory = False\<rparr>,
      sr_Callbacks = \<lparr>cb_OnComplete = True, cb_OnJobDone = True\<rparr>\<rparr>"

definition demo_env :: "int \<Rightarrow> int \<Rightarrow> dispatch_env" where
  "demo_env now later = \<lparr>de_err = (\<lambda>_ _. None), de_now = (\<lambda>_. now), de_timerNow = (\<lambda>_. later), de_clock = 0\<rparr>"

definition demo_start :: "int list \<Rightarrow> sched" where
  "demo_start is = submitStart 7 (demo_request is) (newSearchScheduler (Some demo_limiter) 1 True)"

definition demo_made :: "int list \<Rightarrow> sched" where
  "demo_made is = fold (\<lambda>_. submitIndexer 0) is (demo_start is)"

definition demo_sent :: "int list \<Rightarrow> sched" where
  "demo_sent is = submitSend 0 (submitRegister 0 (demo_made is))"

definition demo_queued :: "int list \<Rightarrow> sched" where
  "demo_queued is = enqueueTasks (hd (sc_submitCh (demo_sent is))) int ((demo_sent is)\<lparr>sc_submitCh := [], sc_coalesce := True\<rparr>)"

definition demo_dispatched :: "int list \<Rightarrow> int \<Rightarrow> int \<Rightarrow> sched" where
  "demo_dispatched is now later = dispatchTasks (demo_env now later) ((demo_queued is)\<lparr>sc_coalesce := False\<rparr>)"

lemma demo_made_reachable:
  assumes "\<And>n. n < length is \<Longrightarrow> sc_submits (fold (\<lambda>_. submitIndexer 0) (take n is) (demo_start is)) \<noteq> []
      \<and> \<not> su_registered (sc_submits (fold (\<lambda>_. submitIndexer 0) (take n is) (demo_start is)) ! 0)
      \<and> su_rest (sc_submits (fold (\<lambda>_. submitIndexer 0) (take n is) (demo_start is)) ! 0) \<noteq> []"
  shows "sched_reachable (demo_made is)"
proof -
  have "sched_reachable (fold (\<lambda>_. submitIndexer 0) (take n is) (demo_start is))" if "n \<le> length is" for n
    using that
  proof (induction n)
    case 0
    then show ?case
      by (auto simp: demo_start_def intro: sched_reachable.intros sched_step.submit)
  next
    case (Suc n)
    then have "sched_step (fold (\<lambda>_. submitIndexer 0) (take n is) (demo_start is))
        (submitIndexer 0 (fold (\<lambda>_. submitIndexer 0) (take n is) (demo_start is)))"
      using assms [of n] by (intro sched_step.indexer) auto
    with Suc show ?case
      by (auto simp: take_Suc_conv_app_nth intro: sched_reachable.step)
  qed
  from this [of "length is"] show ?thesis
    by (simp add: demo_made_def)
qed

lemma demo_sent_reachable:
  assumes "sched_reachable (demo_made is)"
    and "sc_submits (demo_made is) \<noteq> []" "\<not> su_registered (sc_submits (demo_made is) ! 0)" "su_rest (sc_submits (demo_made is) ! 0) = []"
    and "su_tasks (sc_submits (demo_made is) ! 0) \<noteq> []" "sc_submitCh (demo_made is) = []"
  shows "sched_reachable (demo_sent is)"
proof -
  have "sched_reachable (submitRegister 0 (demo_made is))"
    using assms by (intro sched_reachable.step [OF assms(1) sched_step.register]) auto
  then show ?thesis
    unfolding demo_sent_def by (rule sched_reachable.step, intro sched_step.send) (use assms in \<open>auto simp: submitRegister_def Let_def\<close>)
qed

lemma demo_queued_reachable:
  assumes "sched_reachable (demo_sent is)" and "sc_submitCh (demo_sent is) = [batch]" "\<not> sc_stopped (demo_sent is)"
  shows "sched_reachable (demo_queued is)"
  using sched_reachable.step [OF assms(1) sched_step.receive [OF assms(3,2), of int]] assms(2) by (simp add: demo_queued_def)

lemma demo_dispatched_reachable:
  assumes "sched_reachable (demo_queued is)" "\<not> sc_stopped (demo_queued is)" "sc_coalesce (demo_queued is)"
  shows "sched_reachable (demo_dispatched is now later)"
  unfolding demo_dispatched_def by (rule sched_reachable.step [OF assms(1) sched_step.coalesce [OF assms(2,3)]])

lemma demo3_reachable: "sched_reachable (demo_queued [3, 4, 5])" "sched_reachable (demo_dispatched [3, 4, 5] now later)"
proof -
  have "sched_reachable (demo_made [3, 4, 5])"
  proof (rule demo_made_reachable)
    fix n :: nat
    assume "n < length [3, 4, 5 :: int]"
    then have "n = 0 \<or> n = 1 \<or> n = 2"
      by auto
    moreover have "list_all (\<lambda>n. sc_submits (fold (\<lambda>_. submitIndexer 0) (take n [3, 4, 5]) (demo_start [3, 4, 5])) \<noteq> []
      \<and> \<not> su_registered (sc_submits (fold (\<lambda>_. submitIndexer 0) (take n [3, 4, 5]) (demo_start [3, 4, 5])) ! 0)
      \<and> su_rest (sc_submits (fold (\<lambda>_. submitIndexer 0) (take n [3, 4, 5]) (demo_start [3, 4, 5])) ! 0) \<noteq> []) [0, 1, 2]"
      by code_simp
    ultimately show "sc_submits (fold (\<lambda>_. submitIndexer 0) (take n [3, 4, 5]) (demo_start [3, 4, 5])) \<noteq> []
      \<and> \<not> su_registered (sc_submits (fold (\<lambda>_. submitIndexer 0) (take n [3, 4, 5]) (demo_start [3, 4, 5])) ! 0)
      \<and> su_rest (sc_submits (fold (\<lambda>_. submitIndexer 0) (take n [3, 4, 5]) (demo_start [3, 4, 5])) ! 0) \<noteq> []"
      by auto
  qed
  then have "sched_reachable (demo_sent [3, 4, 5])"
    by (rule demo_sent_reachable) code_simp+
  moreover have "sc_submitCh (demo_sent [3, 4, 5]) = [hd (sc_submitCh (demo_sent [3, 4, 5]))] \<and> \<not> sc_stopped (demo_sent [3, 4, 5])"
    by code_simp
  ultimately show q: "sched_reachable (demo_queued [3, 4, 5])"
    using demo_queued_reachable by blast
  show "sched_reachable (demo_dispatched [3, 4, 5] now later)"
    by (rule demo_dispatched_reachable [OF q]) code_simp+
qed

lemma demo1_reachable: "sched_reachable (demo_queued [3])" "sched_reachable (demo_dispatched [3] now later)"
proof -
  have "sched_reachable (demo_made [3])"
    by (rule demo_made_reachable) (simp, code_simp)
  then have "sched_reachable (demo_sent [3])"
    by (rule demo_sent_reachable) code_simp+
  moreover have "sc_submitCh (demo_sent [3]) = [hd (sc_submitCh (demo_sent [3]))] \<and> \<not> sc_stopped (demo_sent [3])"
    by code_simp
  ultimately show q: "sched_reachable (demo_queued [3])"
    using demo_queued_reachable by blast
  show "sched_reachable (demo_dispatched [3] now later)"
    by (rule demo_dispatched_reachable [OF q]) code_simp+
qed

section \<open>Properties\<close>

text \<open>
  C15. At any time there is at most one request per indexer: in every reachable state the entries of
  \<open>inFlight\<close> have different indexers, each entry runs a task of its own indexer, and the slots of the
  worker pool in use are exactly the tasks in flight and the workers about to release, never more than the pool has.
\<close>

theorem scheduler_one_request_per_indexer:
  assumes "sched_reachable s"
  shows "distinct (map fst (sc_inFlight s)) \<and> (\<forall>(i, item) \<in> set (sc_inFlight s). ix_ID (wt_indexer (ti_task item)) = i)
    \<and> sc_workersInUse s = length (sc_inFlight s) + sc_releasing s \<and> sc_workersInUse s \<le> sc_workerCap s"
  using reachableD(3) [OF assms] by (simp add: workers_ok_def gm_ok_def)

theorem scheduler_one_request_per_indexer_witness:
  "map fst (sc_inFlight (demo_dispatched [3, 4, 5] (20 * Second) (20 * Second))) = [4]
    \<and> sc_workersInUse (demo_dispatched [3, 4, 5] (20 * Second) (20 * Second)) = 1
    \<and> sc_workersInUse (demo_dispatched [3, 4, 5] (20 * Second) (20 * Second)) \<le> sc_workerCap (demo_dispatched [3, 4, 5] (20 * Second) (20 * Second))"
proof -
  have "map fst (sc_inFlight (demo_dispatched [3, 4, 5] (20 * Second) (20 * Second))) = [4]
    \<and> sc_workersInUse (demo_dispatched [3, 4, 5] (20 * Second) (20 * Second)) = 1"
    by code_simp
  with scheduler_one_request_per_indexer [OF demo3_reachable(2) [of "20 * Second" "20 * Second"]] show ?thesis
    by blast
qed

text \<open>
  C16. RSS searches are deduplicated per indexer: in every reachable state an indexer is marked in
  \<open>pendingRSS\<close> exactly when one RSS task for it is somewhere between its submission and its
  completion, and there are never two.
\<close>

lemma count_rss_ix: "count (rss_ix M) i = size {#x \<in># M. i_rss x \<and> i_ix x = i#}"
  by (induction M) auto

theorem scheduler_rss_once:
  assumes "sched_reachable s"
  shows "size {#x \<in># outstanding s. i_rss x \<and> i_ix x = i#} = (if i \<in> set (sc_pendingRSS s) then 1 else 0)"
proof -
  note L = ledger_okD [OF reachableD(1) [OF assms]]
  have "count (rss_ix (outstanding s)) i \<le> 1"
    using L(3) by (simp add: uniq_def)
  moreover have "count (rss_ix (outstanding s)) i > 0 \<longleftrightarrow> i \<in> set (sc_pendingRSS s)"
    using L(4) by simp
  ultimately have "count (rss_ix (outstanding s)) i = (if i \<in> set (sc_pendingRSS s) then 1 else 0)"
    by (cases "count (rss_ix (outstanding s)) i") simp_all
  then show ?thesis
    by (simp only: count_rss_ix)
qed

theorem scheduler_rss_once_witness:
  "size {#x \<in># outstanding (demo_dispatched [3, 4, 5] (20 * Second) (20 * Second)). i_rss x \<and> i_ix x = 4#} = 1
    \<and> size {#x \<in># outstanding (demo_dispatched [3, 4, 5] (20 * Second) (20 * Second)). i_rss x \<and> i_ix x = 6#} = 0"
proof -
  have "4 \<in> set (sc_pendingRSS (demo_dispatched [3, 4, 5] (20 * Second) (20 * Second)))
      \<and> 6 \<notin> set (sc_pendingRSS (demo_dispatched [3, 4, 5] (20 * Second) (20 * Second)))"
    by code_simp
  then show ?thesis
    unfolding scheduler_rss_once [OF demo3_reachable(2)] by simp
qed

text \<open>
  C17. Callbacks run at most once: in every reachable state no task's \<open>OnComplete\<close> and no job's
  \<open>OnJobDone\<close> has been called twice, a task that was reported complete is nowhere in the scheduler
  any more, and neither is any task of a job that was reported done.
\<close>

theorem scheduler_callbacks_once:
  assumes "sched_reachable s"
  shows "distinct (task_dones (sc_events s)) \<and> distinct (job_dones (sc_events s))
    \<and> (\<forall>t \<in> set (task_dones (sc_events s)). \<forall>x \<in># outstanding s. i_task x \<noteq> t)
    \<and> (\<forall>j \<in> set (job_dones (sc_events s)). \<forall>x \<in># outstanding s. i_job x \<noteq> j)"
proof -
  note L = ledger_okD [OF reachableD(1) [OF assms]]
  have "i_task x \<noteq> t" if "t \<in> set (task_dones (sc_events s))" "x \<in># outstanding s" for t x
    using L(14) [of t] that by auto
  moreover have "i_job x \<noteq> j" if "j \<in> set (job_dones (sc_events s))" "x \<in># outstanding s" for j x
    using L(12) [of j] jobcount_pos [OF that(2)] that(1) by auto
  ultimately show ?thesis
    using L(11,13) by simp
qed

theorem scheduler_callbacks_once_witness:
  "task_dones (sc_events (demo_dispatched [3] (2 * Second) (2 * Second))) = [1]
    \<and> job_dones (sc_events (demo_dispatched [3] (2 * Second) (2 * Second))) = [1]
    \<and> 1 \<notin># image_mset i_job (outstanding (demo_dispatched [3] (2 * Second) (2 * Second)))"
proof -
  have "task_dones (sc_events (demo_dispatched [3] (2 * Second) (2 * Second))) = [1]
    \<and> job_dones (sc_events (demo_dispatched [3] (2 * Second) (2 * Second))) = [1]"
    by code_simp
  with scheduler_callbacks_once [OF demo1_reachable(2) [of "2 * Second" "2 * Second"]] show ?thesis
    by fastforce
qed

text \<open>
  C18. No task is lost from its job: in every reachable state a registered job has counted as
  completed all its tasks but those still in the scheduler, of which there is at least one, and every
  task in the scheduler belongs to a registered job or to a \<open>Submit\<close> that is about to register it.
\<close>

theorem scheduler_job_accounts:
  assumes "sched_reachable s"
  shows "(\<forall>j js. gm_get (sc_jobs s) j = Some js \<longrightarrow>
       js_totalTasks js = js_completedTasks js + jobcount j (outstanding s) \<and> jobcount j (outstanding s) > 0)
    \<and> (\<forall>x \<in># outstanding s. gm_has (sc_jobs s) (i_job x)
         \<or> (\<exists>su \<in> set (sc_submits s). \<not> su_registered su \<and> su_job su = i_job x))"
proof -
  note L = ledger_okD [OF reachableD(1) [OF assms]]
  have "js_totalTasks js = js_completedTasks js + jobcount j (outstanding s) \<and> jobcount j (outstanding s) > 0"
    if "gm_get (sc_jobs s) j = Some js" for j js
    using L(6,7) [of j js] that by simp
  moreover have "gm_has (sc_jobs s) (i_job x) \<or> (\<exists>su \<in> set (sc_submits s). \<not> su_registered su \<and> su_job su = i_job x)"
    if "x \<in># outstanding s" for x
    using L(9) [OF that] by (auto simp: open_jobs_def)
  ultimately show ?thesis
    by blast
qed

theorem scheduler_job_accounts_witness:
  "gm_get (sc_jobs (demo_dispatched [3, 4, 5] (2 * Second) (2 * Second))) 1 \<noteq> None
    \<and> js_completedTasks (the (gm_get (sc_jobs (demo_dispatched [3, 4, 5] (2 * Second) (2 * Second))) 1)) = 1
    \<and> jobcount 1 (outstanding (demo_dispatched [3, 4, 5] (2 * Second) (2 * Second))) = 2"
proof -
  have "gm_get (sc_jobs (demo_dispatched [3, 4, 5] (2 * Second) (2 * Second))) 1 \<noteq> None
    \<and> js_completedTasks (the (gm_get (sc_jobs (demo_dispatched [3, 4, 5] (2 * Second) (2 * Second))) 1)) = 1
    \<and> js_totalTasks (the (gm_get (sc_jobs (demo_dispatched [3, 4, 5] (2 * Second) (2 * Second))) 1)) = 3"
    by code_simp
  with scheduler_job_accounts [OF demo3_reachable(2) [of "2 * Second" "2 * Second"]] show ?thesis
    by fastforce
qed

text \<open>
  C19. A job is reported done with its last task and not before: when the worker of indexer \<open>i\<close>
  finishes, in any reachable state and with whatever result, the callback of a job that asked for it
  is called exactly if no other task of the job is left, and exactly then the job is forgotten.
\<close>

theorem job_done_with_last_task:
  fixes s i item now results coverage err
  assumes "sched_reachable s" and item: "gm_get (sc_inFlight s) i = Some item"
  defines "j \<equiv> wt_jobID (ti_task item)" and "s' \<equiv> executeFinish i now results coverage err s"
  shows "\<exists>js. gm_get (sc_jobs s) j = Some js
    \<and> (EvJobDone j \<in> set (sc_events s') \<longleftrightarrow> cb_OnJobDone (js_callbacks js) \<and> jobcount j (outstanding s) = 1)
    \<and> (gm_has (sc_jobs s') j \<longleftrightarrow> jobcount j (outstanding s) > 1)"
proof -
  note L = ledger_okD [OF reachableD(1) [OF assms(1)]] and S = reachableD(2) [OF assms(1)]
  have "(i, item) \<in> set (sc_inFlight s)"
    using item reachableD(3) [OF assms(1)] by (simp add: gm_get_iff workers_ok_def)
  then have "ident (ti_task item) \<in># inflight s"
    by (force simp: inflight_def idents_def)
  then obtain N where out: "outstanding s = add_mset (ident (ti_task item)) (submitting s + N)"
    unfolding outstanding_def elsewhere_def
    by (metis (no_types, lifting) mset_add union_mset_add_mset_left union_mset_add_mset_right add.assoc)
  have mem: "ident (ti_task item) \<in># outstanding s"
    by (simp add: out)
  have "i_job (ident (ti_task item)) \<noteq> su_job su" if "su \<in> set (sc_submits s)" for su
    using submits_other_job [OF S [unfolded out] that] .
  then have "j \<notin> open_jobs s"
    by (auto simp: open_jobs_def j_def)
  then obtain js where js: "gm_get (sc_jobs s) j = Some js"
    using L(9) [OF mem] by (auto simp: gm_has_get j_def)
  have pos: "j > 0"
    using L(8) [of j js] js by simp
  have count: "js_completedTasks js + 1 \<ge> js_totalTasks js \<longleftrightarrow> jobcount j (outstanding s) = 1"
    "jobcount j (outstanding s) > 0"
    using L(6,7) [of j js] js by auto
  have "j \<notin> set (job_dones (sc_events s))"
    using L(12) [of j] js by (auto simp: gm_has_get)
  then have fresh: "EvJobDone j \<notin> set (sc_events s)"
    using pos by (auto simp: job_dones_def set_map_filter split: event.splits if_splits)
  let ?E = "if cb_OnComplete (wt_callbacks (ti_task item)) then [EvComplete (ti_task item) results coverage err] else []"
  let ?t = "s\<lparr>sc_rateLimiter := RecordRequestComplete i None now (sc_rateLimiter s)\<rparr>"
  let ?h = "handleTaskCompleteLocked item now results coverage err ?t"
  have ev: "sc_events (snd ?h) = sc_events s @ ?E @ (if js_completedTasks js + 1 \<ge> js_totalTasks js \<and> cb_OnJobDone (js_callbacks js) then [EvJobDone j] else [])"
    using js by (simp add: handleTaskCompleteLocked_def Let_def j_def)
  have s': "sc_events s' = sc_events (snd ?h) @ [EvIndexerActivity] @ (if fst ?h then [EvSearchHistory] else [])"
    "sc_jobs s' = complete_jobs j (sc_jobs s)"
    unfolding s'_def executeFinish_def item option.case Let_def split_beta
    by (simp_all add: handle_jobs j_def)
  have "EvJobDone j \<in> set (sc_events s') \<longleftrightarrow> cb_OnJobDone (js_callbacks js) \<and> jobcount j (outstanding s) = 1"
    using fresh count(1) by (auto simp: s'(1) ev)
  moreover have "gm_has (sc_jobs s') j \<longleftrightarrow> jobcount j (outstanding s) > 1"
    unfolding s'(2) using js count by (auto simp: complete_jobs_def gm_has_get)
  ultimately show ?thesis
    using js by blast
qed

theorem job_done_with_last_task_witness:
  "\<exists>js. gm_get (sc_jobs (demo_dispatched [3] (40 * Second) (40 * Second))) 1 = Some js
    \<and> (EvJobDone 1 \<in> set (sc_events (executeFinish 3 0 [] [] None (demo_dispatched [3] (40 * Second) (40 * Second))))
         \<longleftrightarrow> cb_OnJobDone (js_callbacks js) \<and> jobcount 1 (outstanding (demo_dispatched [3] (40 * Second) (40 * Second))) = 1)"
proof -
  have "case gm_get (sc_inFlight (demo_dispatched [3] (40 * Second) (40 * Second))) 3 of
      None \<Rightarrow> False | Some item \<Rightarrow> wt_jobID (ti_task item) = 1"
    by code_simp
  then obtain item where i: "gm_get (sc_inFlight (demo_dispatched [3] (40 * Second) (40 * Second))) 3 = Some item" "wt_jobID (ti_task item) = 1"
    by (auto split: option.splits)
  show ?thesis
    using job_done_with_last_task [OF demo1_reachable(2) i(1), of 0 "[]" "[]" None] unfolding i(2) by blast
qed

text \<open>
  C20. A dispatch starts only requests that the rate limiter allows, and never past a more urgent
  one: in every reachable state, each task it puts in flight has no wait at the time the limiter was
  asked, and every task still queued that comes before it (by priority, then age) is kept by a
  request to its own indexer or by its own wait, not by the lack of a worker.
\<close>

theorem dispatchTasks_no_inversion:
  fixes s env
  assumes "sched_reachable s"
  defines "s' \<equiv> dispatchTasks env s"
  shows "\<forall>i b. (i, b) \<in> set (sc_inFlight s') \<and> (i, b) \<notin> set (sc_inFlight s) \<longrightarrow>
    wait_at (de_now env) (sc_rateLimiter s) (ti_task b) \<le> 0
    \<and> (\<forall>a \<in> set (sc_taskQueue s'). item_less a b \<longrightarrow>
         gm_has (sc_inFlight s') (ix_ID (wt_indexer (ti_task a))) \<or> wait_at (de_now env) (sc_rateLimiter s) (ti_task a) > 0)"
proof -
  note F = dispatchTasks_facts [OF reachableD(4) [OF assms(1)], where env = env, folded s'_def]
  have held: "held_back env s' a \<Longrightarrow> gm_has (sc_inFlight s') (ix_ID (wt_indexer (ti_task a)))
      \<or> wait_at (de_now env) (sc_rateLimiter s) (ti_task a) > 0" for a
    unfolding held_back_def wait_at_cong [OF F(1)] .
  show ?thesis
  proof (intro allI impI conjI ballI)
    fix i b assume new: "(i, b) \<in> set (sc_inFlight s') \<and> (i, b) \<notin> set (sc_inFlight s)"
    then have l: "launched s s' b"
      by (auto simp: launched_def)
    then show "wait_at (de_now env) (sc_rateLimiter s) (ti_task b) \<le> 0"
      by (rule F(3))
    fix a assume "a \<in> set (sc_taskQueue s')" "item_less a b"
    then have "held_back env s' a"
      using F(4) [OF l] by (simp add: item_less_key)
    then show "gm_has (sc_inFlight s') (ix_ID (wt_indexer (ti_task a)))
        \<or> wait_at (de_now env) (sc_rateLimiter s) (ti_task a) > 0"
      by (rule held)
  qed
qed

theorem dispatchTasks_no_inversion_witness:
  "\<exists>b. (4, b) \<in> set (sc_inFlight (dispatchTasks (demo_env (20 * Second) (20 * Second)) (demo_queued [3, 4, 5])))
    \<and> wait_at (\<lambda>_. 20 * Second) (sc_rateLimiter (demo_queued [3, 4, 5])) (ti_task b) \<le> 0"
proof -
  have f: "list_ex (\<lambda>(i, b). i = 4) (sc_inFlight (dispatchTasks (demo_env (20 * Second) (20 * Second)) (demo_queued [3, 4, 5])))
      \<and> sc_inFlight (demo_queued [3, 4, 5]) = []"
    by code_simp
  then obtain b where "(4, b) \<in> set (sc_inFlight (dispatchTasks (demo_env (20 * Second) (20 * Second)) (demo_queued [3, 4, 5])))"
    by (auto simp: list_ex_iff)
  with f dispatchTasks_no_inversion [OF demo3_reachable(1), of "demo_env (20 * Second) (20 * Second)"] show ?thesis
    by (auto simp: demo_env_def)
qed

text \<open>
  C21. No task is forgotten: if the clock does not move between the loop of a dispatch and the
  setting of the timer, then after a dispatch in a reachable state every task still queued waits for a
  request to its indexer to end, or for a worker, or the retry timer is armed, at most 15 minutes
  ahead and no later than the task may run.
\<close>

theorem dispatchTasks_progress:
  fixes s env
  assumes "sched_reachable s" and "de_timerNow env = de_now env" and "sc_taskQueue s \<noteq> []"
  defines "s' \<equiv> dispatchTasks env s"
  shows "\<forall>a \<in> set (sc_taskQueue s'). gm_has (sc_inFlight s') (ix_ID (wt_indexer (ti_task a)))
    \<or> sc_workersInUse s' = sc_workerCap s'
    \<or> (\<exists>d. sc_retryTimer s' = Some d \<and> 0 < d \<and> d \<le> 15 * Minute
         \<and> d \<le> wait_at (de_now env) (sc_rateLimiter s) (ti_task a))"
proof
  fix a assume a: "a \<in> set (sc_taskQueue s')"
  note F = dispatchTasks_facts [OF reachableD(4) [OF assms(1)], where env = env, folded s'_def]
  have "workers_ok s'"
    using dispatchTasks_inv [OF sched_reachable_inv [OF assms(1)], of env] by (simp add: sched_inv_def s'_def)
  then have cap: "sc_workersInUse s' \<le> sc_workerCap s'"
    by (simp add: workers_ok_def)
  from F(2) [OF assms(3) a] cap
  consider "gm_has (sc_inFlight s') (ix_ID (wt_indexer (ti_task a)))" | "sc_workersInUse s' = sc_workerCap s'"
    | "wait_at (de_now env) (sc_rateLimiter s) (ti_task a) > 0"
    unfolding held_back_def wait_at_cong [OF F(1)] by fastforce
  then show "gm_has (sc_inFlight s') (ix_ID (wt_indexer (ti_task a))) \<or> sc_workersInUse s' = sc_workerCap s'
    \<or> (\<exists>d. sc_retryTimer s' = Some d \<and> 0 < d \<and> d \<le> 15 * Minute
         \<and> d \<le> wait_at (de_now env) (sc_rateLimiter s) (ti_task a))"
    using F(5) [OF assms(3) a] by cases (auto simp: assms(2) maxRetryTimerInterval_def)
qed

theorem dispatchTasks_progress_witness:
  "\<exists>d. sc_retryTimer (dispatchTasks (demo_env (20 * Second) (20 * Second)) (demo_queued [3])) = Some d \<and> 0 < d \<and> d \<le> 15 * Minute"
proof -
  have f: "sc_taskQueue (demo_queued [3]) \<noteq> [] \<and> sc_taskQueue (dispatchTasks (demo_env (20 * Second) (20 * Second)) (demo_queued [3])) \<noteq> []
      \<and> sc_inFlight (dispatchTasks (demo_env (20 * Second) (20 * Second)) (demo_queued [3])) = []
      \<and> sc_workersInUse (dispatchTasks (demo_env (20 * Second) (20 * Second)) (demo_queued [3])) = 0
      \<and> sc_workerCap (dispatchTasks (demo_env (20 * Second) (20 * Second)) (demo_queued [3])) = 1"
    by code_simp
  then obtain a where "a \<in> set (sc_taskQueue (dispatchTasks (demo_env (20 * Second) (20 * Second)) (demo_queued [3])))"
    by (metis list.set_intros(1) neq_Nil_conv)
  with f dispatchTasks_progress [OF demo1_reachable(1), of "demo_env (20 * Second) (20 * Second)"] show ?thesis
    by (auto simp: demo_env_def gm_has_get gm_get_def)
qed

text \<open>
  With a clock that moves, a wake-up can be lost: there is a reachable state in which a task
  whose wait ends between the loop of \<open>dispatchTasks\<close> and \<open>scheduleRetryTimerLocked\<close> stays queued
  although nothing is in flight, no worker is busy, no timer is armed and no message is on its way, so
  that it runs only if something else is submitted.
\<close>

theorem scheduler_lost_wakeup:
  "\<exists>s. sched_reachable s \<and> sc_taskQueue s \<noteq> [] \<and> sc_inFlight s = [] \<and> sc_workersInUse s = 0 \<and> sc_retryTimer s = None
    \<and> sc_completeCh s = 0 \<and> \<not> sc_coalesce s \<and> sc_submitCh s = [] \<and> sc_submits s = [] \<and> \<not> sc_stopped s"
proof -
  have "sc_taskQueue (demo_dispatched [3] (35 * Second - 1) (35 * Second)) \<noteq> []
      \<and> sc_inFlight (demo_dispatched [3] (35 * Second - 1) (35 * Second)) = []
      \<and> sc_workersInUse (demo_dispatched [3] (35 * Second - 1) (35 * Second)) = 0
      \<and> sc_retryTimer (demo_dispatched [3] (35 * Second - 1) (35 * Second)) = None
      \<and> sc_completeCh (demo_dispatched [3] (35 * Second - 1) (35 * Second)) = 0
      \<and> \<not> sc_coalesce (demo_dispatched [3] (35 * Second - 1) (35 * Second))
      \<and> sc_submitCh (demo_dispatched [3] (35 * Second - 1) (35 * Second)) = []
      \<and> sc_submits (demo_dispatched [3] (35 * Second - 1) (35 * Second)) = []
      \<and> \<not> sc_stopped (demo_dispatched [3] (35 * Second - 1) (35 * Second))"
    by code_simp
  with demo1_reachable(2) show ?thesis
    by blast
qed

end
