(* ===== verification/Automation_Model.thy ===== *)
theory Automation_Model
  imports Go_Number Go_Path
begin

text \<open>
  The data of the automation rules (\<open>src/internal/models/automation.go\<close>): condition trees, actions,
  sorting and grouping configurations and the rules themselves, with the small operations of the
  models package. A \<open>nil\<close> pointer is \<open>None\<close>. \<open>torrent\<close> has the fields of \<open>qbt.Torrent\<close> that the
  automations read; the states of a torrent are the values of the qBittorrent Web API.
\<close>

section \<open>Fields and operators of conditions\<close>

definition FieldName :: string where "FieldName = ''NAME''"
definition FieldHash :: string where "FieldHash = ''HASH''"
definition FieldInfohashV1 :: string where "FieldInfohashV1 = ''INFOHASH_V1''"
definition FieldInfohashV2 :: string where "FieldInfohashV2 = ''INFOHASH_V2''"
definition FieldMagnetURI :: string where "FieldMagnetURI = ''MAGNET_URI''"
definition FieldCategory :: string where "FieldCategory = ''CATEGORY''"
definition FieldTags :: string where "FieldTags = ''TAGS''"
definition FieldSavePath :: string where "FieldSavePath = ''SAVE_PATH''"
definition FieldContentPath :: string where "FieldContentPath = ''CONTENT_PATH''"
definition FieldDownloadPath :: string where "FieldDownloadPath = ''DOWNLOAD_PATH''"
definition FieldCreatedBy :: string where "FieldCreatedBy = ''CREATED_BY''"
definition FieldTrackers :: string where "FieldTrackers = ''TRACKERS''"
definition FieldContentType :: string where "FieldContentType = ''CONTENT_TYPE''"
definition FieldEffectiveName :: string where "FieldEffectiveName = ''EFFECTIVE_NAME''"
definition FieldRlsSource :: string where "FieldRlsSource = ''RLS_SOURCE''"
definition FieldRlsResolution :: string where "FieldRlsResolution = ''RLS_RESOLUTION''"
definition FieldRlsCodec :: string where "FieldRlsCodec = ''RLS_CODEC''"
definition FieldRlsHDR :: string where "FieldRlsHDR = ''RLS_HDR''"
definition FieldRlsAudio :: string where "FieldRlsAudio = ''RLS_AUDIO''"
definition FieldRlsChannels :: string where "FieldRlsChannels = ''RLS_CHANNELS''"
definition FieldRlsGroup :: string where "FieldRlsGroup = ''RLS_GROUP''"
definition FieldState :: string where "FieldState = ''STATE''"
definition FieldTracker :: string where "FieldTracker = ''TRACKER''"
definition FieldComment :: string where "FieldComment = ''COMMENT''"
definition FieldSize :: string where "FieldSize = ''SIZE''"
definition FieldTotalSize :: string where "FieldTotalSize = ''TOTAL_SIZE''"
definition FieldCompleted :: string where "FieldCompleted = ''COMPLETED''"
definition FieldDownloaded :: string where "FieldDownloaded = ''DOWNLOADED''"
definition FieldDownloadedSession :: string where "FieldDownloadedSession = ''DOWNLOADED_SESSION''"
definition FieldUploaded :: string where "FieldUploaded = ''UPLOADED''"
definition FieldUploadedSession :: string where "FieldUploadedSession = ''UPLOADED_SESSION''"
definition FieldAmountLeft :: string where "FieldAmountLeft = ''AMOUNT_LEFT''"
definition FieldFreeSpace :: string where "FieldFreeSpace = ''FREE_SPACE''"
definition FieldAddedOn :: string where "FieldAddedOn = ''ADDED_ON''"
definition FieldCompletionOn :: string where "FieldCompletionOn = ''COMPLETION_ON''"
definition FieldLastActivity :: string where "FieldLastActivity = ''LAST_ACTIVITY''"
definition FieldSeenComplete :: string where "FieldSeenComplete = ''SEEN_COMPLETE''"
definition FieldETA :: string where "FieldETA = ''ETA''"
definition FieldReannounce :: string where "FieldReannounce = ''REANNOUNCE''"
definition FieldSeedingTime :: string where "FieldSeedingTime = ''SEEDING_TIME''"
definition FieldTimeActive :: string where "FieldTimeActive = ''TIME_ACTIVE''"
definition FieldMaxSeedingTime :: string where "FieldMaxSeedingTime = ''MAX_SEEDING_TIME''"
definition FieldMaxInactiveSeedingTime :: string where "FieldMaxInactiveSeedingTime = ''MAX_INACTIVE_SEEDING_TIME''"
definition FieldSeedingTimeLimit :: string where "FieldSeedingTimeLimit = ''SEEDING_TIME_LIMIT''"
definition FieldInactiveSeedingTimeLimit :: string where "FieldInactiveSeedingTimeLimit = ''INACTIVE_SEEDING_TIME_LIMIT''"
definition FieldAddedOnAge :: string where "FieldAddedOnAge = ''ADDED_ON_AGE''"
definition FieldCompletionOnAge :: string where "FieldCompletionOnAge = ''COMPLETION_ON_AGE''"
definition FieldLastActivityAge :: string where "FieldLastActivityAge = ''LAST_ACTIVITY_AGE''"
definition FieldRatio :: string where "FieldRatio = ''RATIO''"
definition FieldRatioLimit :: string where "FieldRatioLimit = ''RATIO_LIMIT''"
definition FieldMaxRatio :: string where "FieldMaxRatio = ''MAX_RATIO''"
definition FieldUploadedOverSize :: string where "FieldUploadedOverSize = ''UPLOADED_OVER_SIZE''"
definition FieldProgress :: string where "FieldProgress = ''PROGRESS''"
definition FieldAvailability :: string where "FieldAvailability = ''AVAILABILITY''"
definition FieldPopularity :: string where "FieldPopularity = ''POPULARITY''"
definition FieldDlSpeed :: string where "FieldDlSpeed = ''DL_SPEED''"
definition FieldUpSpeed :: string where "FieldUpSpeed = ''UP_SPEED''"
definition FieldDlLimit :: string where "FieldDlLimit = ''DL_LIMIT''"
definition FieldUpLimit :: string where "FieldUpLimit = ''UP_LIMIT''"
definition FieldNumSeeds :: string where "FieldNumSeeds = ''NUM_SEEDS''"
definition FieldNumLeechs :: string where "FieldNumLeechs = ''NUM_LEECHS''"
definition FieldNumComplete :: string where "FieldNumComplete = ''NUM_COMPLETE''"
definition FieldNumIncomplete :: string where "FieldNumIncomplete = ''NUM_INCOMPLETE''"
definition FieldTrackersCount :: string where "FieldTrackersCount = ''TRACKERS_COUNT''"
definition FieldPriority :: string where "FieldPriority = ''PRIORITY''"
definition FieldGroupSize :: string where "FieldGroupSize = ''GROUP_SIZE''"
definition FieldPrivate :: string where "FieldPrivate = ''PRIVATE''"
definition FieldAutoManaged :: string where "FieldAutoManaged = ''AUTO_MANAGED''"
definition FieldFirstLastPiecePrio :: string where "FieldFirstLastPiecePrio = ''FIRST_LAST_PIECE_PRIO''"
definition FieldForceStart :: string where "FieldForceStart = ''FORCE_START''"
definition FieldSequentialDownload :: string where "FieldSequentialDownload = ''SEQUENTIAL_DOWNLOAD''"
definition FieldSuperSeeding :: string where "FieldSuperSeeding = ''SUPER_SEEDING''"
definition FieldIsUnregistered :: string where "FieldIsUnregistered = ''IS_UNREGISTERED''"
definition FieldHasMissingFiles :: string where "FieldHasMissingFiles = ''HAS_MISSING_FILES''"
definition FieldIsGrouped :: string where "FieldIsGrouped = ''IS_GROUPED''"
definition FieldExistsOnOtherInstance :: string where "FieldExistsOnOtherInstance = ''EXISTS_ON_OTHER_INSTANCE''"
definition FieldSeedingOnOtherInstance :: string where "FieldSeedingOnOtherInstance = ''SEEDING_ON_OTHER_INSTANCE''"
definition FieldExistsOnSameInstance :: string where "FieldExistsOnSameInstance = ''EXISTS_ON_SAME_INSTANCE''"
definition FieldSeedingOnSameInstance :: string where "FieldSeedingOnSameInstance = ''SEEDING_ON_SAME_INSTANCE''"
definition FieldSystemHour :: string where "FieldSystemHour = ''SYSTEM_HOUR''"
definition FieldSystemMinute :: string where "FieldSystemMinute = ''SYSTEM_MINUTE''"
definition FieldSystemDayOfWeek :: string where "FieldSystemDayOfWeek = ''SYSTEM_DAY_OF_WEEK''"
definition FieldSystemDay :: string where "FieldSystemDay = ''SYSTEM_DAY''"
definition FieldSystemMonth :: string where "FieldSystemMonth = ''SYSTEM_MONTH''"
definition FieldSystemYear :: string where "FieldSystemYear = ''SYSTEM_YEAR''"
definition FieldHardlinkScope :: string where "FieldHardlinkScope = ''HARDLINK_SCOPE''"
definition FieldHardlinkScopeCross :: string where "FieldHardlinkScopeCross = ''HARDLINK_SCOPE_CROSS''"

lemmas field_defs =
  FieldName_def FieldHash_def FieldInfohashV1_def FieldInfohashV2_def FieldMagnetURI_def FieldCategory_def
  FieldTags_def FieldSavePath_def FieldContentPath_def FieldDownloadPath_def FieldCreatedBy_def
  FieldTrackers_def FieldContentType_def FieldEffectiveName_def FieldRlsSource_def FieldRlsResolution_def
  FieldRlsCodec_def FieldRlsHDR_def FieldRlsAudio_def FieldRlsChannels_def FieldRlsGroup_def FieldState_def
  FieldTracker_def FieldComment_def FieldSize_def FieldTotalSize_def FieldCompleted_def FieldDownloaded_def
  FieldDownloadedSession_def FieldUploaded_def FieldUploadedSession_def FieldAmountLeft_def FieldFreeSpace_def
  FieldAddedOn_def FieldCompletionOn_def FieldLastActivity_def FieldSeenComplete_def FieldETA_def
  FieldReannounce_def FieldSeedingTime_def FieldTimeActive_def FieldMaxSeedingTime_def
  FieldMaxInactiveSeedingTime_def FieldSeedingTimeLimit_def FieldInactiveSeedingTimeLimit_def
  FieldAddedOnAge_def FieldCompletionOnAge_def FieldLastActivityAge_def FieldRatio_def FieldRatioLimit_def
  FieldMaxRatio_def FieldUploadedOverSize_def FieldProgress_def FieldAvailability_def FieldPopularity_def
  FieldDlSpeed_def FieldUpSpeed_def FieldDlLimit_def FieldUpLimit_def FieldNumSeeds_def FieldNumLeechs_def
  FieldNumComplete_def FieldNumIncomplete_def FieldTrackersCount_def FieldPriority_def FieldGroupSize_def
  FieldPrivate_def FieldAutoManaged_def FieldFirstLastPiecePrio_def FieldForceStart_def
  FieldSequentialDownload_def FieldSuperSeeding_def FieldIsUnregistered_def FieldHasMissingFiles_def
  FieldIsGrouped_def FieldExistsOnOtherInstance_def FieldSeedingOnOtherInstance_def
  FieldExistsOnSameInstance_def FieldSeedingOnSameInstance_def FieldSystemHour_def FieldSystemMinute_def
  FieldSystemDayOfWeek_def FieldSystemDay_def FieldSystemMonth_def FieldSystemYear_def FieldHardlinkScope_def
  FieldHardlinkScopeCross_def

definition OperatorAnd :: string where "OperatorAnd = ''AND''"
definition OperatorOr :: string where "OperatorOr = ''OR''"
definition OperatorEqual :: string where "OperatorEqual = ''EQUAL''"
definition OperatorNotEqual :: string where "OperatorNotEqual = ''NOT_EQUAL''"
definition OperatorContains :: string where "OperatorContains = ''CONTAINS''"
definition OperatorNotContains :: string where "OperatorNotContains = ''NOT_CONTAINS''"
definition OperatorStartsWith :: string where "OperatorStartsWith = ''STARTS_WITH''"
definition OperatorEndsWith :: string where "OperatorEndsWith = ''ENDS_WITH''"
definition OperatorGreaterThan :: string where "OperatorGreaterThan = ''GREATER_THAN''"
definition OperatorGreaterThanOrEqual :: string where "OperatorGreaterThanOrEqual = ''GREATER_THAN_OR_EQUAL''"
definition OperatorLessThan :: string where "OperatorLessThan = ''LESS_THAN''"
definition OperatorLessThanOrEqual :: string where "OperatorLessThanOrEqual = ''LESS_THAN_OR_EQUAL''"
definition OperatorBetween :: string where "OperatorBetween = ''BETWEEN''"
definition OperatorMatches :: string where "OperatorMatches = ''MATCHES''"
definition OperatorExistsIn :: string where "OperatorExistsIn = ''EXISTS_IN''"
definition OperatorContainsIn :: string where "OperatorContainsIn = ''CONTAINS_IN''"

lemmas operator_defs =
  OperatorAnd_def OperatorOr_def OperatorEqual_def OperatorNotEqual_def OperatorContains_def
  OperatorNotContains_def OperatorStartsWith_def OperatorEndsWith_def OperatorGreaterThan_def
  OperatorGreaterThanOrEqual_def OperatorLessThan_def OperatorLessThanOrEqual_def OperatorBetween_def
  OperatorMatches_def OperatorExistsIn_def OperatorContainsIn_def

definition IsNumeric :: "string \<Rightarrow> bool" where
  "IsNumeric f \<longleftrightarrow> List.member [
     FieldSize, FieldTotalSize, FieldDownloaded, FieldUploaded, FieldAmountLeft, FieldFreeSpace,
     FieldAddedOn, FieldCompletionOn, FieldLastActivity, FieldSeedingTime, FieldTimeActive, FieldAddedOnAge,
     FieldCompletionOnAge, FieldLastActivityAge, FieldRatio, FieldProgress, FieldAvailability, FieldDlSpeed,
     FieldUpSpeed, FieldNumSeeds, FieldNumLeechs, FieldNumComplete, FieldNumIncomplete, FieldTrackersCount,
     FieldSystemHour, FieldSystemMinute, FieldSystemDayOfWeek, FieldSystemDay, FieldSystemMonth,
     FieldSystemYear] f"

definition IsString :: "string \<Rightarrow> bool" where
  "IsString f \<longleftrightarrow> List.member [
     FieldName, FieldCategory, FieldTags, FieldTracker, FieldState, FieldSavePath, FieldContentPath,
     FieldComment] f"

section \<open>Torrents\<close>

record torrent =
  t_Hash :: string
  t_Name :: string
  t_InfohashV1 :: string
  t_InfohashV2 :: string
  t_MagnetURI :: string
  t_Category :: string
  t_Tags :: string
  t_SavePath :: string
  t_ContentPath :: string
  t_DownloadPath :: string
  t_CreatedBy :: string
  t_Comment :: string
  t_State :: string
  t_Tracker :: string
  t_Trackers :: "string list"
  t_Size :: int
  t_TotalSize :: int
  t_Completed :: int
  t_Downloaded :: int
  t_DownloadedSession :: int
  t_Uploaded :: int
  t_UploadedSession :: int
  t_AmountLeft :: int
  t_AddedOn :: int
  t_CompletionOn :: int
  t_LastActivity :: int
  t_SeenComplete :: int
  t_ETA :: int
  t_Reannounce :: int
  t_SeedingTime :: int
  t_TimeActive :: int
  t_MaxSeedingTime :: int
  t_MaxInactiveSeedingTime :: int
  t_SeedingTimeLimit :: int
  t_InactiveSeedingTimeLimit :: int
  t_DlSpeed :: int
  t_UpSpeed :: int
  t_DlLimit :: int
  t_UpLimit :: int
  t_NumSeeds :: int
  t_NumLeechs :: int
  t_NumComplete :: int
  t_NumIncomplete :: int
  t_TrackersCount :: int
  t_Priority :: int
  t_Ratio :: float64
  t_RatioLimit :: float64
  t_MaxRatio :: float64
  t_Progress :: float64
  t_Availability :: float64
  t_Popularity :: float64
  t_Private :: bool
  t_AutoManaged :: bool
  t_FirstLastPiecePrio :: bool
  t_ForceStart :: bool
  t_SequentialDownload :: bool
  t_SuperSeeding :: bool

definition pausedStates :: "string list" where
  "pausedStates = [''pausedDL'', ''pausedUP'', ''stoppedDL'', ''stoppedUP'']"

definition checkingStates :: "string list" where
  "checkingStates = [''checkingDL'', ''checkingUP'', ''checkingResumeData'']"

section \<open>Condition trees\<close>

datatype rule_condition = RuleCondition
  (rc_Field: string) (rc_Operator: string) (rc_GroupID: string) (rc_Value: string)
  (rc_MinValue: "float64 option") (rc_MaxValue: "float64 option")
  (rc_Regex: bool) (rc_Negate: bool) (rc_Conditions: "rule_condition option list")

definition IsGroup :: "rule_condition \<Rightarrow> bool" where
  "IsGroup c \<longleftrightarrow> rc_Conditions c \<noteq> [] \<and> (rc_Operator c = OperatorAnd \<or> rc_Operator c = OperatorOr)"

definition needsRegex :: "rule_condition \<Rightarrow> bool" where
  "needsRegex c \<longleftrightarrow> rc_Regex c \<or> rc_Operator c = OperatorMatches"

text \<open>
  \<open>CompileRegex\<close> with the compiler \<open>regexp.Compile\<close> as an argument: \<open>Inl ()\<close> is its error, otherwise
  the matcher, if one is needed. The cached \<open>Compiled\<close> of the code is this result.
\<close>

definition CompileRegex :: "(string \<Rightarrow> (string \<Rightarrow> bool) option) \<Rightarrow> rule_condition \<Rightarrow> unit + (string \<Rightarrow> bool) option" where
  "CompileRegex compile c =
     (if \<not> needsRegex c then Inr None
      else (case compile (''(?i)'' @ rc_Value c) of None \<Rightarrow> Inl () | Some matches \<Rightarrow> Inr (Some matches)))"

lemma size_conditions [termination_simp]: "size_list (size_option size) (rc_Conditions c) < Suc (size c)"
  by (cases c) simp

fun ConditionUsesField :: "rule_condition option \<Rightarrow> string \<Rightarrow> bool"
  and conditionsUseField :: "rule_condition option list \<Rightarrow> string \<Rightarrow> bool" where
  "ConditionUsesField None field = False"
| "ConditionUsesField (Some c) field = (rc_Field c = field \<or> conditionsUseField (rc_Conditions c) field)"
| "conditionsUseField [] field = False"
| "conditionsUseField (c # cs) field = (ConditionUsesField c field \<or> conditionsUseField cs field)"

section \<open>Actions\<close>

definition DeleteModeNone :: string where "DeleteModeNone = ''none''"
definition DeleteModeKeepFiles :: string where "DeleteModeKeepFiles = ''delete''"
definition DeleteModeWithFiles :: string where "DeleteModeWithFiles = ''deleteWithFiles''"
definition DeleteModeWithFilesPreserveCrossSeeds :: string where
  "DeleteModeWithFilesPreserveCrossSeeds = ''deleteWithFilesPreserveCrossSeeds''"
definition DeleteModeWithFilesIncludeCrossSeeds :: string where
  "DeleteModeWithFilesIncludeCrossSeeds = ''deleteWithFilesIncludeCrossSeeds''"

lemmas delete_mode_defs = DeleteModeNone_def DeleteModeKeepFiles_def DeleteModeWithFiles_def
  DeleteModeWithFilesPreserveCrossSeeds_def DeleteModeWithFilesIncludeCrossSeeds_def

definition TagModeFull :: string where "TagModeFull = ''full''"
definition TagModeAdd :: string where "TagModeAdd = ''add''"
definition TagModeRemove :: string where "TagModeRemove = ''remove''"

record speed_limit_action =
  sl_Enabled :: bool
  sl_UploadKiB :: "int option"
  sl_DownloadKiB :: "int option"
  sl_Condition :: "rule_condition option"

record share_limits_action =
  sh_Enabled :: bool
  sh_RatioLimit :: "float64 option"
  sh_SeedingTimeMinutes :: "int option"
  sh_ShareLimitAction :: "string option"
  sh_ShareLimitsMode :: "string option"
  sh_Condition :: "rule_condition option"

text \<open>Pause, resume, recheck, reannounce and automatic management have the same shape.\<close>

record simple_action =
  sa_Enabled :: bool
  sa_Condition :: "rule_condition option"

record delete_action =
  del_Enabled :: bool
  del_Mode :: string
  del_IncludeHardlinks :: bool
  del_GroupID :: string
  del_Atomic :: string
  del_Condition :: "rule_condition option"

record tag_action =
  tag_Enabled :: bool
  tag_Tags :: "string list"
  tag_Mode :: string
  tag_DeleteFromClient :: bool
  tag_UseTrackerAsTag :: bool
  tag_UseDisplayName :: bool
  tag_Condition :: "rule_condition option"

record category_action =
  cat_Enabled :: bool
  cat_Category :: string
  cat_IncludeCrossSeeds :: bool
  cat_GroupID :: string
  cat_BlockIfCrossSeedInCategories :: "string list"
  cat_Condition :: "rule_condition option"

record move_action =
  mv_Enabled :: bool
  mv_Path :: string
  mv_BlockIfCrossSeed :: bool
  mv_GroupID :: string
  mv_Atomic :: string
  mv_Condition :: "rule_condition option"

record group_definition =
  gd_ID :: string
  gd_Keys :: "string list"
  gd_AmbiguousPolicy :: string
  gd_MinFileOverlapPercent :: int

record grouping_config =
  gc_DefaultGroupID :: string
  gc_Groups :: "group_definition list"

record external_program_action =
  ep_Enabled :: bool
  ep_ProgramID :: int
  ep_Condition :: "rule_condition option"

record export_action =
  ex_Enabled :: bool
  ex_TargetInstanceID :: int
  ex_SavePath :: string
  ex_Category :: string
  ex_Tags :: "string list"
  ex_Paused :: bool
  ex_SkipChecking :: "bool option"
  ex_ContentLayout :: string
  ex_Condition :: "rule_condition option"

definition ExternalProgramAction_Validate :: "external_program_action option \<Rightarrow> bool" where
  "ExternalProgramAction_Validate a = (case a of None \<Rightarrow> True | Some a \<Rightarrow> \<not> (ep_Enabled a \<and> ep_ProgramID a \<le> 0))"

definition SkipCheckingEnabled :: "export_action \<Rightarrow> bool" where
  "SkipCheckingEnabled a = (case ex_SkipChecking a of None \<Rightarrow> True | Some b \<Rightarrow> b)"

definition ExportToInstanceAction_Validate :: "export_action option \<Rightarrow> bool" where
  "ExportToInstanceAction_Validate a = (case a of None \<Rightarrow> True | Some a \<Rightarrow> \<not> (ex_Enabled a \<and> ex_TargetInstanceID a \<le> 0))"

record action_conditions =
  ac_Grouping :: "grouping_config option"
  ac_SpeedLimits :: "speed_limit_action option"
  ac_ShareLimits :: "share_limits_action option"
  ac_Pause :: "simple_action option"
  ac_Resume :: "simple_action option"
  ac_Recheck :: "simple_action option"
  ac_Reannounce :: "simple_action option"
  ac_Delete :: "delete_action option"
  ac_Tag :: "tag_action option"
  ac_Tags :: "tag_action option list"
  ac_Category :: "category_action option"
  ac_Move :: "move_action option"
  ac_ExternalProgram :: "external_program_action option"
  ac_AutoManagement :: "simple_action option"
  ac_ExportToInstance :: "export_action option"

definition TagActions :: "action_conditions option \<Rightarrow> tag_action option list" where
  "TagActions ac =
     (case ac of None \<Rightarrow> []
      | Some ac \<Rightarrow> if ac_Tags ac \<noteq> [] then ac_Tags ac else if ac_Tag ac \<noteq> None then [ac_Tag ac] else [])"

definition IsEmpty :: "action_conditions option \<Rightarrow> bool" where
  "IsEmpty ac =
     (case ac of None \<Rightarrow> True
      | Some a \<Rightarrow> ac_SpeedLimits a = None \<and> ac_ShareLimits a = None \<and> ac_Pause a = None \<and> ac_Resume a = None
          \<and> ac_Recheck a = None \<and> ac_Reannounce a = None \<and> ac_Delete a = None \<and> TagActions ac = []
          \<and> ac_Category a = None \<and> ac_Move a = None \<and> ac_ExternalProgram a = None \<and> ac_AutoManagement a = None
          \<and> ac_ExportToInstance a = None)"

definition Normalize :: "action_conditions \<Rightarrow> action_conditions" where
  "Normalize ac =
     (let tags = (if ac_Tags ac = [] \<and> ac_Tag ac \<noteq> None then [ac_Tag ac] else ac_Tags ac);
          normalized = filter (\<lambda>action. action \<noteq> None) tags;
          ac = ac\<lparr>ac_Tags := normalized\<rparr>
      in if normalized \<noteq> [] then ac\<lparr>ac_Tag := hd normalized\<rparr> else ac)"

section \<open>Sorting\<close>

definition ScoreRuleTypeFieldMultiplier :: string where "ScoreRuleTypeFieldMultiplier = ''field_multiplier''"
definition ScoreRuleTypeConditional :: string where "ScoreRuleTypeConditional = ''conditional''"
definition SortDirectionASC :: string where "SortDirectionASC = ''ASC''"
definition SortDirectionDESC :: string where "SortDirectionDESC = ''DESC''"
definition SortingTypeSimple :: string where "SortingTypeSimple = ''simple''"
definition SortingTypeScore :: string where "SortingTypeScore = ''score''"

lemmas sorting_defs = ScoreRuleTypeFieldMultiplier_def ScoreRuleTypeConditional_def SortDirectionASC_def
  SortDirectionDESC_def SortingTypeSimple_def SortingTypeScore_def

record field_multiplier =
  fm_Field :: string
  fm_Multiplier :: float64

record conditional_score =
  cs_Condition :: "rule_condition option"
  cs_Score :: float64

record score_rule =
  sr_Type :: string
  sr_FieldMultiplier :: "field_multiplier option"
  sr_Conditional :: "conditional_score option"

record sorting_config =
  so_SchemaVersion :: string
  so_Type :: string
  so_Direction :: string
  so_Field :: string
  so_ScoreRules :: "score_rule list"

text \<open>The errors of \<open>SortingConfig.Validate\<close> and of \<open>SortTorrents\<close>.\<close>

datatype sorting_error =
    InvalidSchemaVersion string | DirectionRequired | InvalidDirection string | FieldRequired
  | UnknownSortField string | ScoreRulesRequired | MultiplierMissing nat | MultiplierFieldRequired nat
  | MultiplierNotNumeric string | ConditionalMissing nat | ScoreConditionMissing nat | UnknownScoreRule nat string
  | TypeRequired | UnknownSortingType string

fun validateScoreRules :: "nat \<Rightarrow> score_rule list \<Rightarrow> sorting_error option" where
  "validateScoreRules i [] = None"
| "validateScoreRules i (r # rs) =
     (if sr_Type r = ScoreRuleTypeFieldMultiplier then
        (case sr_FieldMultiplier r of
           None \<Rightarrow> Some (MultiplierMissing i)
         | Some fm \<Rightarrow>
             if fm_Field fm = [] then Some (MultiplierFieldRequired i)
             else if \<not> IsNumeric (fm_Field fm) then Some (MultiplierNotNumeric (fm_Field fm))
             else validateScoreRules (i + 1) rs)
      else if sr_Type r = ScoreRuleTypeConditional then
        (case sr_Conditional r of
           None \<Rightarrow> Some (ConditionalMissing i)
         | Some c \<Rightarrow> if cs_Condition c = None then Some (ScoreConditionMissing i) else validateScoreRules (i + 1) rs)
      else Some (UnknownScoreRule i (sr_Type r)))"

definition SortingConfig_Validate :: "sorting_config option \<Rightarrow> sorting_error option" where
  "SortingConfig_Validate config =
     (case config of None \<Rightarrow> None | Some c \<Rightarrow>
        if so_SchemaVersion c \<noteq> ''1'' then Some (InvalidSchemaVersion (so_SchemaVersion c))
        else if so_Direction c = [] then Some DirectionRequired
        else if so_Direction c \<noteq> SortDirectionASC \<and> so_Direction c \<noteq> SortDirectionDESC then Some (InvalidDirection (so_Direction c))
        else if so_Type c = SortingTypeSimple then
          (if so_Field c = [] then Some FieldRequired
           else if \<not> IsNumeric (so_Field c) \<and> \<not> IsString (so_Field c) then Some (UnknownSortField (so_Field c)) else None)
        else if so_Type c = SortingTypeScore then
          (if so_ScoreRules c = [] then Some ScoreRulesRequired else validateScoreRules 0 (so_ScoreRules c))
        else if so_Type c = [] then Some TypeRequired
        else Some (UnknownSortingType (so_Type c)))"

section \<open>Rules\<close>

definition FreeSpaceSourceQBittorrent :: string where "FreeSpaceSourceQBittorrent = ''qbittorrent''"
definition FreeSpaceSourcePath :: string where "FreeSpaceSourcePath = ''path''"

record free_space_source =
  fs_Type :: string
  fs_Path :: string

record automation =
  au_ID :: int
  au_InstanceID :: int
  au_Name :: string
  au_TrackerPattern :: string
  au_TrackerDomains :: "string list"
  au_Conditions :: "action_conditions option"
  au_FreeSpaceSource :: "free_space_source option"
  au_SortingConfig :: "sorting_config option"
  au_Enabled :: bool
  au_DryRun :: bool
  au_Notify :: bool
  au_SortOrder :: int
  au_IntervalSeconds :: "int option"

definition FreeSpaceSourceKeyQBittorrent :: string where "FreeSpaceSourceKeyQBittorrent = ''qbt''"

definition resolveFreeSpaceSource :: "free_space_source option \<Rightarrow> free_space_source" where
  "resolveFreeSpaceSource src =
     (case src of
        None \<Rightarrow> \<lparr>fs_Type = FreeSpaceSourceQBittorrent, fs_Path = []\<rparr>
      | Some s \<Rightarrow> if fs_Type s = [] then \<lparr>fs_Type = FreeSpaceSourceQBittorrent, fs_Path = []\<rparr> else s)"

definition GetFreeSpaceSourceKey :: "free_space_source option \<Rightarrow> string" where
  "GetFreeSpaceSourceKey src =
     (let resolved = resolveFreeSpaceSource src in
      if fs_Type resolved = FreeSpaceSourcePath then
        (let trimmed = trim_space (fs_Path resolved) in
         if trimmed = [] then FreeSpaceSourceKeyQBittorrent else ''path:'' @ path_clean trimmed)
      else FreeSpaceSourceKeyQBittorrent)"

definition GetFreeSpaceRuleKey :: "automation \<Rightarrow> string" where
  "GetFreeSpaceRuleKey rule = GetFreeSpaceSourceKey (au_FreeSpaceSource rule) @ ''|rule:'' @ show_int (au_ID rule)"

section \<open>Which fields a rule reads\<close>

text \<open>The condition of an action that is configured and enabled.\<close>

definition whenEnabled :: "('a \<Rightarrow> bool) \<Rightarrow> ('a \<Rightarrow> rule_condition option) \<Rightarrow> 'a option \<Rightarrow> rule_condition option" where
  "whenEnabled enabled cond action =
     (case action of None \<Rightarrow> None | Some a \<Rightarrow> if enabled a then cond a else None)"

definition scoreRuleUsesField :: "score_rule \<Rightarrow> string \<Rightarrow> bool" where
  "scoreRuleUsesField rule field \<longleftrightarrow>
     (case sr_FieldMultiplier rule of Some fm \<Rightarrow> fm_Field fm = field | None \<Rightarrow> False)
   \<or> (case sr_Conditional rule of Some c \<Rightarrow> ConditionUsesField (cs_Condition c) field | None \<Rightarrow> False)"

definition sortingConfigUsesField :: "sorting_config option \<Rightarrow> string \<Rightarrow> bool" where
  "sortingConfigUsesField config field =
     (case config of None \<Rightarrow> False | Some c \<Rightarrow>
        if so_Type c = SortingTypeSimple then so_Field c = field
        else if so_Type c \<noteq> SortingTypeScore then False
        else list_ex (\<lambda>r. scoreRuleUsesField r field) (so_ScoreRules c))"

text \<open>All conditions that the actions of a rule evaluate, automatic management whether enabled or not.\<close>

definition actionConditions :: "action_conditions \<Rightarrow> rule_condition option list" where
  "actionConditions ac =
     [whenEnabled sl_Enabled sl_Condition (ac_SpeedLimits ac), whenEnabled sh_Enabled sh_Condition (ac_ShareLimits ac),
      whenEnabled sa_Enabled sa_Condition (ac_Pause ac), whenEnabled sa_Enabled sa_Condition (ac_Resume ac),
      whenEnabled sa_Enabled sa_Condition (ac_Recheck ac), whenEnabled sa_Enabled sa_Condition (ac_Reannounce ac),
      whenEnabled (\<lambda>_. True) sa_Condition (ac_AutoManagement ac), whenEnabled del_Enabled del_Condition (ac_Delete ac),
      whenEnabled cat_Enabled cat_Condition (ac_Category ac), whenEnabled mv_Enabled mv_Condition (ac_Move ac),
      whenEnabled ep_Enabled ep_Condition (ac_ExternalProgram ac), whenEnabled ex_Enabled ex_Condition (ac_ExportToInstance ac)]"

definition actionConditionsUseField :: "action_conditions option \<Rightarrow> string \<Rightarrow> bool" where
  "actionConditionsUseField ac field =
     (case ac of None \<Rightarrow> False | Some a \<Rightarrow>
        list_ex (\<lambda>c. ConditionUsesField c field) (actionConditions a)
      \<or> list_ex (\<lambda>action. ConditionUsesField (whenEnabled tag_Enabled tag_Condition action) field) (TagActions ac))"

definition ruleUsesCondition :: "automation \<Rightarrow> string \<Rightarrow> bool" where
  "ruleUsesCondition rule field \<longleftrightarrow>
     actionConditionsUseField (au_Conditions rule) field \<or> sortingConfigUsesField (au_SortingConfig rule) field"

definition rulesUseCondition :: "automation list \<Rightarrow> string \<Rightarrow> bool" where
  "rulesUseCondition rules field = list_ex (\<lambda>r. ruleUsesCondition r field) rules"

end
