(* ===== verification/Eval_Context.thy ===== *)
theory Eval_Context
  imports Automation_Model
begin

text \<open>
  What the evaluation of conditions reads besides the torrent: the context \<open>EvalContext\<close> of
  \<open>src/internal/services/automations/evaluator.go\<close> with its free-space projections, the index of a
  grouping (\<open>grouping.go\<close>) and the fields derived from the release name (\<open>release_fields.go\<close>). What
  the code takes from other packages is the record \<open>eval_lib\<close>: the regular expressions, the
  splitting of URLs and addresses, the calendar, the release parser of \<open>rls\<close> with its normalisers,
  \<open>strconv.FormatFloat\<close>, the globs of \<open>path.Match\<close> and the templates of move paths.
\<close>

section \<open>The libraries\<close>

record release =
  rel_Title :: string
  rel_Series :: int
  rel_Episode :: int
  rel_Year :: int
  rel_Source :: string
  rel_Resolution :: string
  rel_Codec :: "string list"
  rel_HDR :: "string list"
  rel_Audio :: "string list"
  rel_Channels :: string
  rel_Group :: string

definition emptyRelease :: release where
  "emptyRelease = \<lparr>rel_Title = [], rel_Series = 0, rel_Episode = 0, rel_Year = 0, rel_Source = [], rel_Resolution = [],
     rel_Codec = [], rel_HDR = [], rel_Audio = [], rel_Channels = [], rel_Group = []\<rparr>"

text \<open>The parts of a local time.\<close>

record clock_parts =
  cp_Hour :: int
  cp_Minute :: int
  cp_Weekday :: int
  cp_Day :: int
  cp_Month :: int
  cp_Year :: int

record eval_lib =
  el_regexp :: "string \<Rightarrow> (string \<Rightarrow> bool) option"
  el_urlHostname :: "string \<Rightarrow> string option"
  el_splitHostPort :: "string \<Rightarrow> string option"
  el_isIP :: "string \<Rightarrow> bool"
  el_now :: int
  el_local :: "int \<Rightarrow> clock_parts"
  el_formatFloat :: "float64 \<Rightarrow> string"
  el_parseRelease :: "string \<Rightarrow> release"
  el_contentType :: "release \<Rightarrow> string"
  el_normalizeSource :: "string \<Rightarrow> string"
  el_joinCodecs :: "string list \<Rightarrow> string"
  el_normalizeForMatching :: "string \<Rightarrow> string"
  el_pathMatch :: "string \<Rightarrow> string \<Rightarrow> bool option"
  el_renderPath :: "string \<Rightarrow> (string \<times> string) list \<Rightarrow> (string \<Rightarrow> string) \<Rightarrow> string option"

section \<open>The context\<close>

text \<open>The torrents on one disk location, and the categories by lowercased name.\<close>

record cross_seed_key =
  ck_contentPath :: string
  ck_savePath :: string

record category_entry =
  ce_Hash :: string
  ce_Name :: string
  ce_NormalizedName :: string

record free_space_state =
  fss_FreeSpace :: int
  fss_SpaceToClear :: int
  fss_FilesToClear :: "cross_seed_key goset option"
  fss_HardlinkSignaturesToClear :: "string goset option"

record group_index =
  gi_groupID :: string
  gi_keyByHash :: "(string, string) gomap"
  gi_hashesByKey :: "(string, string list) gomap"
  gi_sizeByHash :: "(string, nat) gomap"
  gi_ambiguousKeys :: "string goset"

record grouping_usage =
  gu_groupIDs :: "string list"
  gu_hasUnscoped :: bool

record eval_ctx =
  ctx_UnregisteredSet :: "string goset option"
  ctx_TrackerDownSet :: "string goset option"
  ctx_TrackerErrorSet :: "string goset option"
  ctx_HardlinkScopeByHash :: "(string, string) gomap option"
  ctx_HardlinkCrossScopeByHash :: "(string, string) gomap option"
  ctx_HasMissingFilesByHash :: "(string, bool) gomap option"
  ctx_InstanceHasLocalAccess :: bool
  ctx_FreeSpace :: int
  ctx_SpaceToClear :: int
  ctx_FilesToClear :: "cross_seed_key goset option"
  ctx_HardlinkSignatureByHash :: "(string, string) gomap option"
  ctx_DeleteSafeHardlinkSignatureByHash :: "(string, string) gomap option"
  ctx_HardlinkSignaturesToClear :: "string goset option"
  ctx_FreeSpaceStates :: "(string, free_space_state option) gomap option"
  ctx_ActiveFreeSpaceSource :: string
  ctx_CategoryIndex :: "(string, (string, string goset) gomap) gomap option"
  ctx_CategoryNames :: "(string, category_entry list) gomap option"
  ctx_NowUnix :: int
  ctx_CrossInstanceHashSet :: "string goset option"
  ctx_CrossInstanceSeedingHashSet :: "string goset option"
  ctx_SameInstanceCrossSeedHashSet :: "string goset option"
  ctx_SameInstanceCrossSeedSeedingHashSet :: "string goset option"
  ctx_TrackerDisplayNameByDomain :: "(string, string) gomap"
  ctx_hasReleaseParser :: bool
  ctx_ActiveRuleID :: int
  ctx_activeGroupIndex :: "group_index option"
  ctx_groupIndexCache :: "(int, (string, group_index) gomap) gomap"
  ctx_groupConditionUsageByRule :: "(int, grouping_usage) gomap"

section \<open>Release fields\<close>

definition parsedTorrentRelease :: "eval_lib \<Rightarrow> torrent \<Rightarrow> eval_ctx option \<Rightarrow> release" where
  "parsedTorrentRelease lib t ctx =
     (case ctx of None \<Rightarrow> emptyRelease
      | Some c \<Rightarrow> if ctx_hasReleaseParser c then el_parseRelease lib (t_Name t) else emptyRelease)"

definition torrentContentType :: "eval_lib \<Rightarrow> torrent \<Rightarrow> eval_ctx option \<Rightarrow> string" where
  "torrentContentType lib t ctx = el_contentType lib (parsedTorrentRelease lib t ctx)"

text \<open>\<open>%02d\<close> of a positive number.\<close>

definition show2 :: "int \<Rightarrow> string" where
  "show2 n = (if n < 10 then ''0'' @ show_int n else show_int n)"

definition torrentEffectiveName :: "eval_lib \<Rightarrow> torrent \<Rightarrow> eval_ctx option \<Rightarrow> string" where
  "torrentEffectiveName lib t ctx =
     (let r = parsedTorrentRelease lib t ctx; title = trim_space (rel_Title r) in
      if title = [] then el_normalizeForMatching lib (t_Name t)
      else
        let base = el_normalizeForMatching lib title;
            base = (if base = [] then to_lower title else base)
        in if rel_Series r > 0 then
             (if rel_Episode r > 0 then base @ ''|s'' @ show2 (rel_Series r) @ ''e'' @ show2 (rel_Episode r)
              else base @ ''|s'' @ show2 (rel_Series r))
           else if rel_Year r > 0 then base @ ''|'' @ show_int (rel_Year r)
           else base)"

definition joinUpperSortedUnique :: "string list \<Rightarrow> string" where
  "joinUpperSortedUnique slice =
     join_with '' '' (sort (fold (\<lambda>s out. let n = to_upper (trim_space s) in
        if n = [] \<or> List.member out n then out else out @ [n]) slice []))"

definition torrentRlsSource :: "eval_lib \<Rightarrow> torrent \<Rightarrow> eval_ctx option \<Rightarrow> string" where
  "torrentRlsSource lib t ctx = el_normalizeSource lib (rel_Source (parsedTorrentRelease lib t ctx))"

definition torrentRlsResolution :: "eval_lib \<Rightarrow> torrent \<Rightarrow> eval_ctx option \<Rightarrow> string" where
  "torrentRlsResolution lib t ctx = to_upper (trim_space (rel_Resolution (parsedTorrentRelease lib t ctx)))"

definition torrentRlsCodec :: "eval_lib \<Rightarrow> torrent \<Rightarrow> eval_ctx option \<Rightarrow> string" where
  "torrentRlsCodec lib t ctx = el_joinCodecs lib (rel_Codec (parsedTorrentRelease lib t ctx))"

definition torrentRlsHDR :: "eval_lib \<Rightarrow> torrent \<Rightarrow> eval_ctx option \<Rightarrow> string" where
  "torrentRlsHDR lib t ctx = joinUpperSortedUnique (rel_HDR (parsedTorrentRelease lib t ctx))"

definition torrentRlsAudio :: "eval_lib \<Rightarrow> torrent \<Rightarrow> eval_ctx option \<Rightarrow> string" where
  "torrentRlsAudio lib t ctx = joinUpperSortedUnique (rel_Audio (parsedTorrentRelease lib t ctx))"

definition torrentRlsChannels :: "eval_lib \<Rightarrow> torrent \<Rightarrow> eval_ctx option \<Rightarrow> string" where
  "torrentRlsChannels lib t ctx = to_upper (trim_space (rel_Channels (parsedTorrentRelease lib t ctx)))"

definition torrentRlsGroup :: "eval_lib \<Rightarrow> torrent \<Rightarrow> eval_ctx option \<Rightarrow> string" where
  "torrentRlsGroup lib t ctx = to_upper (trim_space (rel_Group (parsedTorrentRelease lib t ctx)))"

section \<open>Looking up groups\<close>

definition KeyForHash :: "group_index option \<Rightarrow> string \<Rightarrow> string" where
  "KeyForHash g hash = (case g of None \<Rightarrow> [] | Some g \<Rightarrow> (case gm_get (gi_keyByHash g) hash of None \<Rightarrow> [] | Some k \<Rightarrow> k))"

definition MembersForHash :: "group_index option \<Rightarrow> string \<Rightarrow> string list" where
  "MembersForHash g hash =
     (case g of None \<Rightarrow> [] | Some i \<Rightarrow>
        let key = KeyForHash g hash in
        if key = [] then [] else (case gm_get (gi_hashesByKey i) key of None \<Rightarrow> [] | Some hs \<Rightarrow> hs))"

definition SizeForHash :: "group_index option \<Rightarrow> string \<Rightarrow> nat" where
  "SizeForHash g hash = (case g of None \<Rightarrow> 0 | Some g \<Rightarrow> (case gm_get (gi_sizeByHash g) hash of None \<Rightarrow> 0 | Some n \<Rightarrow> n))"

definition IsAmbiguousForHash :: "group_index option \<Rightarrow> string \<Rightarrow> bool" where
  "IsAmbiguousForHash g hash =
     (case g of None \<Rightarrow> False | Some i \<Rightarrow>
        let key = KeyForHash g hash in key \<noteq> [] \<and> List.member (gi_ambiguousKeys i) key)"

definition lookupGroupIndexForRule :: "eval_ctx option \<Rightarrow> int \<Rightarrow> string \<Rightarrow> group_index option" where
  "lookupGroupIndexForRule ctx ruleID groupID =
     (case ctx of None \<Rightarrow> None | Some c \<Rightarrow>
        if groupID = [] then None
        else (case gm_get (ctx_groupIndexCache c) ruleID of
            None \<Rightarrow> None
          | Some byRule \<Rightarrow>
              let groupID = trim_space groupID in
              (case gm_get byRule groupID of
                 Some idx \<Rightarrow> Some idx
               | None \<Rightarrow> map_option snd (List.find (\<lambda>(i, idx). equal_fold (trim_space i) groupID) byRule))))"

definition resolveConditionGroupIndex :: "rule_condition \<Rightarrow> eval_ctx option \<Rightarrow> group_index option" where
  "resolveConditionGroupIndex cond ctx =
     (case ctx of None \<Rightarrow> None | Some c \<Rightarrow>
        let groupID = trim_space (rc_GroupID cond) in
        if groupID \<noteq> [] then lookupGroupIndexForRule ctx (ctx_ActiveRuleID c) groupID
        else ctx_activeGroupIndex c)"

section \<open>Free-space projections\<close>

definition maxInt64 :: int where "maxInt64 = 2 ^ 63 - 1"

definition PersistFreeSpaceSourceState :: "eval_ctx \<Rightarrow> eval_ctx" where
  "PersistFreeSpaceSourceState c =
     (case ctx_FreeSpaceStates c of
        None \<Rightarrow> c
      | Some states \<Rightarrow>
          if ctx_ActiveFreeSpaceSource c = [] then c
          else (case gm_get states (ctx_ActiveFreeSpaceSource c) of
              Some (Some state) \<Rightarrow>
                c\<lparr>ctx_FreeSpaceStates := Some (gm_put (ctx_ActiveFreeSpaceSource c)
                    (Some (state\<lparr>fss_SpaceToClear := ctx_SpaceToClear c, fss_FilesToClear := ctx_FilesToClear c,
                       fss_HardlinkSignaturesToClear := ctx_HardlinkSignaturesToClear c\<rparr>)) states)\<rparr>
            | _ \<Rightarrow> c))"

definition LoadFreeSpaceSourceState :: "string \<Rightarrow> eval_ctx \<Rightarrow> eval_ctx" where
  "LoadFreeSpaceSourceState sourceKey c =
     (if sourceKey = [] \<or> ctx_FreeSpaceStates c = None \<or> ctx_ActiveFreeSpaceSource c = sourceKey then c
      else
        let c = (if ctx_ActiveFreeSpaceSource c \<noteq> [] then PersistFreeSpaceSourceState c else c) in
        (case gm_get (the (ctx_FreeSpaceStates c)) sourceKey of
           Some (Some state) \<Rightarrow>
             c\<lparr>ctx_FreeSpace := fss_FreeSpace state, ctx_SpaceToClear := fss_SpaceToClear state,
               ctx_FilesToClear := fss_FilesToClear state,
               ctx_HardlinkSignaturesToClear := fss_HardlinkSignaturesToClear state, ctx_ActiveFreeSpaceSource := sourceKey\<rparr>
         | _ \<Rightarrow>
             c\<lparr>ctx_FreeSpace := maxInt64, ctx_SpaceToClear := 0, ctx_FilesToClear := None,
               ctx_HardlinkSignaturesToClear := None, ctx_ActiveFreeSpaceSource := []\<rparr>))"

end
