(* ===== verification/Condition_Eval.thy ===== *)
theory Condition_Eval
  imports Eval_Context
begin

text \<open>
  The evaluation of condition trees on torrents (\<open>src/internal/services/automations/evaluator.go\<close>):
  \<open>EvaluateConditionWithContext\<close> with every field, operator and comparison, the lookups of names in
  categories with the index they use, and the matching of trackers.
\<close>

section \<open>Names and categories\<close>

definition normalizeLower :: "string \<Rightarrow> string" where
  "normalizeLower s = to_lower s"

definition re_space :: "char \<Rightarrow> bool" where
  "re_space c \<longleftrightarrow> is_space c \<and> c \<noteq> CHR 0x0B"

lemma dropWhile_shorter [termination_simp]: "length (dropWhile P xs) < Suc (length xs)"
  by (simp add: less_Suc_eq_le length_dropWhile_le)

fun collapse_spaces :: "string \<Rightarrow> string" where
  "collapse_spaces [] = []"
| "collapse_spaces (c # cs) =
     (if re_space c then CHR '' '' # collapse_spaces (dropWhile re_space cs) else c # collapse_spaces cs)"

definition normalizeName :: "string \<Rightarrow> string" where
  "normalizeName s =
     trim_space (collapse_spaces (map (\<lambda>c. if c = CHR ''.'' \<or> c = CHR ''_'' \<or> c = CHR ''-'' then CHR '' '' else c) (normalizeLower s)))"

definition minContainsNameLength :: nat where "minContainsNameLength = 10"

text \<open>One torrent enters both indices.\<close>

definition indexTorrent :: "torrent \<Rightarrow> (string, (string, string goset) gomap) gomap \<times> (string, category_entry list) gomap
    \<Rightarrow> (string, (string, string goset) gomap) gomap \<times> (string, category_entry list) gomap" where
  "indexTorrent t indices =
     (let (categoryIndex, categoryNames) = indices;
          catKey = normalizeLowerTrim (t_Category t); nameLower = normalizeLower (t_Name t);
          names = (case gm_get categoryIndex catKey of None \<Rightarrow> [] | Some m \<Rightarrow> m);
          hashes = (case gm_get names nameLower of None \<Rightarrow> [] | Some h \<Rightarrow> h);
          entries = (case gm_get categoryNames catKey of None \<Rightarrow> [] | Some es \<Rightarrow> es)
      in (gm_put catKey (gm_put nameLower (gs_add (t_Hash t) hashes) names) categoryIndex,
          gm_put catKey (entries @ [\<lparr>ce_Hash = t_Hash t, ce_Name = nameLower, ce_NormalizedName = normalizeName (t_Name t)\<rparr>]) categoryNames))"

definition BuildCategoryIndex :: "torrent list \<Rightarrow> (string, (string, string goset) gomap) gomap \<times> (string, category_entry list) gomap" where
  "BuildCategoryIndex torrents = fold indexTorrent torrents ([], [])"

definition existsInCategory :: "string \<Rightarrow> string \<Rightarrow> string \<Rightarrow> eval_ctx option \<Rightarrow> bool" where
  "existsInCategory torrentHash torrentName targetCategory ctx =
     (case Option.bind ctx ctx_CategoryIndex of
        None \<Rightarrow> False
      | Some categoryIndex \<Rightarrow>
          let catKey = normalizeLowerTrim targetCategory in
          if targetCategory \<noteq> [] \<and> catKey = [] then False
          else (case gm_get categoryIndex catKey of
              None \<Rightarrow> False
            | Some nameMap \<Rightarrow> (case gm_get nameMap (normalizeLower torrentName) of
                None \<Rightarrow> False
              | Some hashSet \<Rightarrow> list_ex (\<lambda>hash. hash \<noteq> torrentHash) hashSet)))"

definition containsInCategory :: "string \<Rightarrow> string \<Rightarrow> string \<Rightarrow> eval_ctx option \<Rightarrow> bool" where
  "containsInCategory torrentHash torrentName targetCategory ctx =
     (case Option.bind ctx ctx_CategoryNames of
        None \<Rightarrow> False
      | Some categoryNames \<Rightarrow>
          let catKey = normalizeLowerTrim targetCategory; normalizedCurrent = normalizeName torrentName in
          if targetCategory \<noteq> [] \<and> catKey = [] then False
          else if length normalizedCurrent < minContainsNameLength then False
          else (case gm_get categoryNames catKey of
              None \<Rightarrow> False
            | Some entries \<Rightarrow> list_ex (\<lambda>e. ce_Hash e \<noteq> torrentHash \<and> \<not> length (ce_NormalizedName e) < minContainsNameLength
                \<and> (contains_str normalizedCurrent (ce_NormalizedName e) \<or> contains_str (ce_NormalizedName e) normalizedCurrent)) entries))"

section \<open>Comparing strings\<close>

text \<open>\<open>cond.Compiled\<close> when the condition is compared: it is not compiled for the category lookups.\<close>

definition compiledOf :: "eval_lib \<Rightarrow> rule_condition \<Rightarrow> (string \<Rightarrow> bool) option" where
  "compiledOf lib cond =
     (if rc_Operator cond = OperatorExistsIn \<or> rc_Operator cond = OperatorContainsIn then None
      else (case CompileRegex (el_regexp lib) cond of Inl _ \<Rightarrow> None | Inr m \<Rightarrow> m))"

definition negativeOperator :: "string \<Rightarrow> bool" where
  "negativeOperator op \<longleftrightarrow> op = OperatorNotContains \<or> op = OperatorNotEqual"

definition compareString :: "eval_lib \<Rightarrow> string \<Rightarrow> rule_condition \<Rightarrow> bool" where
  "compareString lib value' cond =
     (let op = rc_Operator cond in
      if needsRegex cond then
        (case compiledOf lib cond of None \<Rightarrow> False | Some matches \<Rightarrow> if negativeOperator op then \<not> matches value' else matches value')
      else if op = OperatorEqual then equal_fold value' (rc_Value cond)
      else if op = OperatorNotEqual then \<not> equal_fold value' (rc_Value cond)
      else if op = OperatorContains then contains_str (to_lower value') (to_lower (rc_Value cond))
      else if op = OperatorNotContains then \<not> contains_str (to_lower value') (to_lower (rc_Value cond))
      else if op = OperatorStartsWith then has_prefix (to_lower value') (to_lower (rc_Value cond))
      else if op = OperatorEndsWith then has_suffix (to_lower value') (to_lower (rc_Value cond))
      else False)"

definition splitTags :: "string \<Rightarrow> string list" where
  "splitTags raw = (if trim_space raw = [] then [] else filter (\<lambda>p. p \<noteq> []) (map trim_space (split_on CHR '','' raw)))"

definition anyTagMatches :: "string list \<Rightarrow> string \<Rightarrow> (string \<Rightarrow> string \<Rightarrow> bool) \<Rightarrow> bool" where
  "anyTagMatches tags condValue match = list_ex (\<lambda>tag. match tag condValue) tags"

definition tagContains :: "string \<Rightarrow> string \<Rightarrow> bool" where
  "tagContains tag condValue = contains_str (to_lower tag) condValue"

definition tagStartsWith :: "string \<Rightarrow> string \<Rightarrow> bool" where
  "tagStartsWith tag condValue = has_prefix (to_lower tag) condValue"

definition tagEndsWith :: "string \<Rightarrow> string \<Rightarrow> bool" where
  "tagEndsWith tag condValue = has_suffix (to_lower tag) condValue"

definition compareTags :: "eval_lib \<Rightarrow> string \<Rightarrow> rule_condition \<Rightarrow> bool" where
  "compareTags lib tagsRaw cond =
     (let op = rc_Operator cond; tags = splitTags tagsRaw; condValue = normalizeLowerTrim (rc_Value cond) in
      if needsRegex cond then
        (case compiledOf lib cond of None \<Rightarrow> False | Some matches \<Rightarrow> if negativeOperator op then \<not> matches tagsRaw else matches tagsRaw)
      else if op = OperatorEqual then anyTagMatches tags condValue equal_fold
      else if op = OperatorNotEqual then \<not> anyTagMatches tags condValue equal_fold
      else if op = OperatorContains then anyTagMatches tags condValue tagContains
      else if op = OperatorNotContains then \<not> anyTagMatches tags condValue tagContains
      else if op = OperatorStartsWith then anyTagMatches tags condValue tagStartsWith
      else if op = OperatorEndsWith then anyTagMatches tags condValue tagEndsWith
      else False)"

section \<open>Trackers\<close>

definition trim_set :: "string \<Rightarrow> string \<Rightarrow> string" where
  "trim_set cs s = rev (dropWhile (\<lambda>c. c \<in> set cs) (rev (dropWhile (\<lambda>c. c \<in> set cs) s)))"

definition trim_prefix :: "string \<Rightarrow> string \<Rightarrow> string" where
  "trim_prefix s p = (if has_prefix s p then drop (length p) s else s)"

definition nonempty_host :: "string option \<Rightarrow> string option" where
  "nonempty_host h = (case h of None \<Rightarrow> None | Some s \<Rightarrow> if s = [] then None else Some s)"

definition extractTrackerDomain :: "eval_lib \<Rightarrow> string \<Rightarrow> string" where
  "extractTrackerDomain lib raw =
     (let raw = trim_space raw in
      if raw = [] then []
      else (case nonempty_host (el_urlHostname lib raw) of
          Some h \<Rightarrow> normalizeLower h
        | None \<Rightarrow>
            (case (if contains_str raw ''://'' then None else nonempty_host (el_urlHostname lib (''//'' @ raw))) of
               Some h \<Rightarrow> normalizeLower h
             | None \<Rightarrow>
                 let candidate = takeWhile (\<lambda>c. c \<notin> {CHR ''/'', CHR ''?'', CHR ''#''}) raw;
                     candidate = trim_space (trim_prefix candidate ''//'')
                 in if candidate = [] then []
                    else (case el_splitHostPort lib candidate of
                        Some host \<Rightarrow> normalizeLower (trim_set ''[]'' host)
                      | None \<Rightarrow>
                          if el_isIP lib candidate \<and> CHR '':'' \<in> set candidate then normalizeLower candidate
                          else normalizeLowerTrim (trim_set ''[]'' (takeWhile (\<lambda>c. c \<noteq> CHR '':'') candidate))))))"

definition trackerCandidates :: "eval_lib \<Rightarrow> string \<Rightarrow> eval_ctx option \<Rightarrow> string list" where
  "trackerCandidates lib trackerURL ctx =
     (let raw = trim_space trackerURL; domain = extractTrackerDomain lib raw;
          displayName = (case ctx of None \<Rightarrow> [] | Some c \<Rightarrow>
              if domain = [] then [] else (case gm_get (ctx_TrackerDisplayNameByDomain c) (to_lower domain) of
                None \<Rightarrow> [] | Some name \<Rightarrow> trim_space name))
      in (if raw \<noteq> [] then [raw] else [])
         @ (if domain \<noteq> [] \<and> \<not> equal_fold domain raw then [domain] else [])
         @ (if displayName \<noteq> [] \<and> \<not> equal_fold displayName domain \<and> \<not> equal_fold displayName raw then [displayName] else []))"

text \<open>Duplicates up to case are dropped, the first one stays.\<close>

definition dedupFold :: "string list \<Rightarrow> string list" where
  "dedupFold candidates =
     snd (fold (\<lambda>c (seen, uniq). if List.member seen (to_lower c) then (seen, uniq) else (seen @ [to_lower c], uniq @ [c])) candidates ([], []))"

definition compareStringCandidates :: "eval_lib \<Rightarrow> string list \<Rightarrow> rule_condition \<Rightarrow> bool" where
  "compareStringCandidates lib candidates cond =
     (if candidates = [] then compareString lib [] cond
      else
        let uniq = dedupFold candidates; op = rc_Operator cond in
        if needsRegex cond then
          (case compiledOf lib cond of None \<Rightarrow> False
           | Some matches \<Rightarrow> if negativeOperator op then \<not> list_ex matches uniq else list_ex matches uniq)
        else if op = OperatorNotEqual then \<not> list_ex (\<lambda>c. equal_fold c (rc_Value cond)) uniq
        else if op = OperatorNotContains then \<not> list_ex (\<lambda>c. contains_str (to_lower c) (to_lower (rc_Value cond))) uniq
        else list_ex (\<lambda>c. compareString lib c cond) uniq)"

definition compareTracker :: "eval_lib \<Rightarrow> string \<Rightarrow> rule_condition \<Rightarrow> eval_ctx option \<Rightarrow> bool" where
  "compareTracker lib trackerURL cond ctx = compareStringCandidates lib (trackerCandidates lib trackerURL ctx) cond"

definition compareTrackers :: "eval_lib \<Rightarrow> torrent \<Rightarrow> rule_condition \<Rightarrow> eval_ctx option \<Rightarrow> bool" where
  "compareTrackers lib t cond ctx =
     compareStringCandidates lib (concat (map (\<lambda>url. trackerCandidates lib url ctx) (t_Tracker t # t_Trackers t))) cond"

section \<open>Comparing states, numbers and flags\<close>

definition inSet :: "string goset option \<Rightarrow> string \<Rightarrow> bool" where
  "inSet s x = (case s of None \<Rightarrow> False | Some xs \<Rightarrow> List.member xs x)"

definition downloadingStates :: "string list" where
  "downloadingStates = [''downloading'', ''stalledDL'', ''metaDL'', ''queuedDL'', ''allocating'', ''checkingDL'', ''forcedDL'']"

definition uploadingStates :: "string list" where
  "uploadingStates = [''uploading'', ''stalledUP'', ''queuedUP'', ''checkingUP'', ''forcedUP'']"

definition activeStates :: "string list" where
  "activeStates = [''downloading'', ''uploading'', ''forcedDL'', ''forcedUP'']"

definition matchesStateValue :: "torrent \<Rightarrow> string \<Rightarrow> eval_ctx option \<Rightarrow> bool" where
  "matchesStateValue t value' ctx =
     (let normalized = trim_space value'; v = to_lower normalized; st = t_State t in
      if normalized = [] then False
      else if v = ''completed'' then fl_le (fl_of_int 1) (t_Progress t)
      else if v = ''downloading'' then List.member downloadingStates st
      else if v = ''uploading'' \<or> v = ''seeding'' then List.member uploadingStates st
      else if v = ''paused'' \<or> v = ''stopped'' then List.member pausedStates st
      else if v = ''running'' \<or> v = ''resumed'' then \<not> List.member pausedStates st
      else if v = ''active'' then List.member activeStates st
      else if v = ''inactive'' then \<not> List.member activeStates st
      else if v = ''stalled'' then List.member [''stalledDL'', ''stalledUP''] st
      else if v = ''stalled_uploading'' \<or> v = ''stalled_seeding'' then st = ''stalledUP''
      else if v = ''stalled_downloading'' then st = ''stalledDL''
      else if v = ''checking'' then List.member checkingStates st
      else if v = ''moving'' then st = ''moving''
      else if v = ''errored'' \<or> v = ''error'' then st = ''error'' \<or> st = ''missingFiles''
      else if v = ''missingfiles'' then st = ''missingFiles''
      else if v = ''unregistered'' then inSet (Option.bind ctx ctx_UnregisteredSet) (t_Hash t)
      else if v = ''tracker_down'' then inSet (Option.bind ctx ctx_TrackerDownSet) (t_Hash t)
      else if v = ''tracker_error'' then inSet (Option.bind ctx ctx_TrackerErrorSet) (t_Hash t)
      else equal_fold st normalized)"

definition compareState :: "eval_lib \<Rightarrow> torrent \<Rightarrow> rule_condition \<Rightarrow> eval_ctx option \<Rightarrow> bool" where
  "compareState lib t cond ctx =
     (let matches = matchesStateValue t (rc_Value cond) ctx in
      if rc_Operator cond = OperatorEqual then matches
      else if rc_Operator cond = OperatorNotEqual then \<not> matches
      else compareString lib (t_State t) cond)"

text \<open>The value of a condition: an empty one counts as 0, any other that does not parse fails.\<close>

definition condNumber :: "(string \<Rightarrow> 'a option) \<Rightarrow> 'a \<Rightarrow> string \<Rightarrow> 'a option" where
  "condNumber parse zero v = (case parse v of Some n \<Rightarrow> Some n | None \<Rightarrow> if v = [] then Some zero else None)"

definition compareInt64 :: "int \<Rightarrow> rule_condition \<Rightarrow> bool" where
  "compareInt64 value' cond =
     (case condNumber ParseInt 0 (rc_Value cond) of
        None \<Rightarrow> False
      | Some condValue \<Rightarrow>
          let op = rc_Operator cond in
          if op = OperatorEqual then value' = condValue
          else if op = OperatorNotEqual then value' \<noteq> condValue
          else if op = OperatorGreaterThan then value' > condValue
          else if op = OperatorGreaterThanOrEqual then value' \<ge> condValue
          else if op = OperatorLessThan then value' < condValue
          else if op = OperatorLessThanOrEqual then value' \<le> condValue
          else if op = OperatorBetween then
            (case (rc_MinValue cond, rc_MaxValue cond) of
               (Some lo, Some hi) \<Rightarrow> fl_le lo (fl_of_int value') \<and> fl_le (fl_of_int value') hi
             | _ \<Rightarrow> False)
          else False)"

definition compareFloat64 :: "float64 \<Rightarrow> rule_condition \<Rightarrow> bool" where
  "compareFloat64 value' cond =
     (case condNumber ParseFloat (Fl 0) (rc_Value cond) of
        None \<Rightarrow> False
      | Some condValue \<Rightarrow>
          let op = rc_Operator cond in
          if op = OperatorEqual then fl_eq value' condValue
          else if op = OperatorNotEqual then \<not> fl_eq value' condValue
          else if op = OperatorGreaterThan then fl_less condValue value'
          else if op = OperatorGreaterThanOrEqual then fl_le condValue value'
          else if op = OperatorLessThan then fl_less value' condValue
          else if op = OperatorLessThanOrEqual then fl_le value' condValue
          else if op = OperatorBetween then
            (case (rc_MinValue cond, rc_MaxValue cond) of
               (Some lo, Some hi) \<Rightarrow> fl_le lo value' \<and> fl_le value' hi
             | _ \<Rightarrow> False)
          else False)"

definition normalizeProgressValue :: "float64 \<Rightarrow> float64" where
  "normalizeProgressValue v =
     (let v = (if fl_less (fl_of_int 1) v then fl_div v 100 else v) in
      if fl_less v (fl_of_int 0) then fl_of_int 0 else if fl_less (fl_of_int 1) v then fl_of_int 1 else v)"

definition normalizeProgressCondition :: "eval_lib \<Rightarrow> rule_condition \<Rightarrow> rule_condition" where
  "normalizeProgressCondition lib c =
     RuleCondition (rc_Field c) (rc_Operator c) (rc_GroupID c)
       (if rc_Value c = [] then [] else (case ParseFloat (rc_Value c) of
          None \<Rightarrow> rc_Value c | Some v \<Rightarrow> el_formatFloat lib (normalizeProgressValue v)))
       (map_option normalizeProgressValue (rc_MinValue c)) (map_option normalizeProgressValue (rc_MaxValue c))
       (rc_Regex c) (rc_Negate c) (rc_Conditions c)"

definition compareBool :: "bool \<Rightarrow> rule_condition \<Rightarrow> bool" where
  "compareBool value' cond =
     (let condValue = (to_lower (rc_Value cond) = ''true'' \<or> rc_Value cond = ''1'') in
      if rc_Operator cond = OperatorEqual then value' = condValue
      else if rc_Operator cond = OperatorNotEqual then value' \<noteq> condValue
      else False)"

definition compareHardlinkScope :: "string \<Rightarrow> rule_condition \<Rightarrow> bool" where
  "compareHardlinkScope value' cond =
     (if rc_Operator cond = OperatorEqual then equal_fold value' (rc_Value cond)
      else if rc_Operator cond = OperatorNotEqual then \<not> equal_fold value' (rc_Value cond)
      else False)"

definition nowUnix :: "eval_lib \<Rightarrow> eval_ctx option \<Rightarrow> int" where
  "nowUnix lib ctx = (case ctx of None \<Rightarrow> el_now lib | Some c \<Rightarrow> if ctx_NowUnix c > 0 then ctx_NowUnix c else el_now lib)"

definition evaluateTime :: "eval_lib \<Rightarrow> eval_ctx option \<Rightarrow> clock_parts" where
  "evaluateTime lib ctx = el_local lib (nowUnix lib ctx)"

definition compareAge :: "eval_lib \<Rightarrow> int \<Rightarrow> rule_condition \<Rightarrow> eval_ctx option \<Rightarrow> bool" where
  "compareAge lib timestamp cond ctx = compareInt64 (max (wrap64 (nowUnix lib ctx - timestamp)) 0) cond"

definition compareAgeIfSet :: "eval_lib \<Rightarrow> int \<Rightarrow> rule_condition \<Rightarrow> eval_ctx option \<Rightarrow> bool" where
  "compareAgeIfSet lib timestamp cond ctx = (timestamp > 0 \<and> compareAge lib timestamp cond ctx)"

section \<open>Leaves\<close>

text \<open>The fields by kind: what \<open>evaluateLeaf\<close> compares as a string, an age, an \<open>int64\<close>, a \<open>float64\<close> or a flag.\<close>

definition stringField :: "eval_lib \<Rightarrow> torrent \<Rightarrow> eval_ctx option \<Rightarrow> string \<Rightarrow> string option" where
  "stringField lib t ctx = map_of
     [(FieldName, t_Name t), (FieldHash, t_Hash t), (FieldInfohashV1, t_InfohashV1 t), (FieldInfohashV2, t_InfohashV2 t),
      (FieldMagnetURI, t_MagnetURI t), (FieldCategory, t_Category t), (FieldSavePath, t_SavePath t),
      (FieldContentPath, t_ContentPath t), (FieldDownloadPath, t_DownloadPath t), (FieldCreatedBy, t_CreatedBy t),
      (FieldContentType, torrentContentType lib t ctx), (FieldEffectiveName, torrentEffectiveName lib t ctx),
      (FieldRlsSource, torrentRlsSource lib t ctx), (FieldRlsResolution, torrentRlsResolution lib t ctx),
      (FieldRlsCodec, torrentRlsCodec lib t ctx), (FieldRlsHDR, torrentRlsHDR lib t ctx),
      (FieldRlsAudio, torrentRlsAudio lib t ctx), (FieldRlsChannels, torrentRlsChannels lib t ctx),
      (FieldRlsGroup, torrentRlsGroup lib t ctx), (FieldComment, t_Comment t)]"

definition ageField :: "torrent \<Rightarrow> string \<Rightarrow> int option" where
  "ageField t = map_of
     [(FieldAddedOn, t_AddedOn t), (FieldCompletionOn, t_CompletionOn t), (FieldLastActivity, t_LastActivity t),
      (FieldSeenComplete, t_SeenComplete t), (FieldAddedOnAge, t_AddedOn t), (FieldCompletionOnAge, t_CompletionOn t),
      (FieldLastActivityAge, t_LastActivity t)]"

definition intField :: "eval_lib \<Rightarrow> torrent \<Rightarrow> rule_condition \<Rightarrow> eval_ctx option \<Rightarrow> string \<Rightarrow> int option" where
  "intField lib t cond ctx = map_of
     [(FieldSize, t_Size t), (FieldTotalSize, t_TotalSize t), (FieldCompleted, t_Completed t), (FieldDownloaded, t_Downloaded t),
      (FieldDownloadedSession, t_DownloadedSession t), (FieldUploaded, t_Uploaded t), (FieldUploadedSession, t_UploadedSession t),
      (FieldAmountLeft, t_AmountLeft t), (FieldETA, t_ETA t), (FieldReannounce, t_Reannounce t),
      (FieldSeedingTime, t_SeedingTime t), (FieldTimeActive, t_TimeActive t), (FieldMaxSeedingTime, t_MaxSeedingTime t),
      (FieldMaxInactiveSeedingTime, t_MaxInactiveSeedingTime t), (FieldSeedingTimeLimit, t_SeedingTimeLimit t),
      (FieldInactiveSeedingTimeLimit, t_InactiveSeedingTimeLimit t), (FieldDlSpeed, t_DlSpeed t), (FieldUpSpeed, t_UpSpeed t),
      (FieldDlLimit, t_DlLimit t), (FieldUpLimit, t_UpLimit t), (FieldNumSeeds, t_NumSeeds t), (FieldNumLeechs, t_NumLeechs t),
      (FieldNumComplete, t_NumComplete t), (FieldNumIncomplete, t_NumIncomplete t), (FieldTrackersCount, t_TrackersCount t),
      (FieldPriority, t_Priority t),
      (FieldGroupSize, int (SizeForHash (resolveConditionGroupIndex cond ctx) (t_Hash t))),
      (FieldSystemHour, cp_Hour (evaluateTime lib ctx)), (FieldSystemMinute, cp_Minute (evaluateTime lib ctx)),
      (FieldSystemDayOfWeek, cp_Weekday (evaluateTime lib ctx)), (FieldSystemDay, cp_Day (evaluateTime lib ctx)),
      (FieldSystemMonth, cp_Month (evaluateTime lib ctx)), (FieldSystemYear, cp_Year (evaluateTime lib ctx))]"

definition floatField :: "torrent \<Rightarrow> string \<Rightarrow> float64 option" where
  "floatField t = map_of
     [(FieldRatio, t_Ratio t), (FieldRatioLimit, t_RatioLimit t), (FieldMaxRatio, t_MaxRatio t),
      (FieldAvailability, t_Availability t), (FieldPopularity, t_Popularity t)]"

definition boolField :: "torrent \<Rightarrow> rule_condition \<Rightarrow> eval_ctx option \<Rightarrow> string \<Rightarrow> bool option" where
  "boolField t cond ctx = map_of
     [(FieldPrivate, t_Private t), (FieldAutoManaged, t_AutoManaged t), (FieldFirstLastPiecePrio, t_FirstLastPiecePrio t),
      (FieldForceStart, t_ForceStart t), (FieldSequentialDownload, t_SequentialDownload t), (FieldSuperSeeding, t_SuperSeeding t),
      (FieldIsUnregistered, inSet (Option.bind ctx ctx_UnregisteredSet) (t_Hash t)),
      (FieldIsGrouped, SizeForHash (resolveConditionGroupIndex cond ctx) (t_Hash t) > 1),
      (FieldExistsOnOtherInstance, inSet (Option.bind ctx ctx_CrossInstanceHashSet) (t_Hash t)),
      (FieldSeedingOnOtherInstance, inSet (Option.bind ctx ctx_CrossInstanceSeedingHashSet) (t_Hash t)),
      (FieldExistsOnSameInstance, inSet (Option.bind ctx ctx_SameInstanceCrossSeedHashSet) (t_Hash t)),
      (FieldSeedingOnSameInstance, inSet (Option.bind ctx ctx_SameInstanceCrossSeedSeedingHashSet) (t_Hash t))]"

text \<open>A value by hash that is only known on instances with local access, and not for every torrent.\<close>

definition localValue :: "(eval_ctx \<Rightarrow> (string, 'a) gomap option) \<Rightarrow> torrent \<Rightarrow> eval_ctx option \<Rightarrow> 'a option" where
  "localValue sel t ctx =
     (case ctx of None \<Rightarrow> None | Some c \<Rightarrow>
        if \<not> ctx_InstanceHasLocalAccess c then None
        else (case sel c of None \<Rightarrow> None | Some m \<Rightarrow> gm_get m (t_Hash t)))"

definition evaluateLeaf :: "eval_lib \<Rightarrow> rule_condition \<Rightarrow> torrent \<Rightarrow> eval_ctx option \<Rightarrow> bool" where
  "evaluateLeaf lib cond t ctx =
     (let f = rc_Field cond in
      if f = FieldName \<and> rc_Operator cond = OperatorExistsIn then existsInCategory (t_Hash t) (t_Name t) (rc_Value cond) ctx
      else if f = FieldName \<and> rc_Operator cond = OperatorContainsIn then containsInCategory (t_Hash t) (t_Name t) (rc_Value cond) ctx
      else if f = FieldTags then compareTags lib (t_Tags t) cond
      else if f = FieldState then compareState lib t cond ctx
      else if f = FieldTracker then compareTracker lib (t_Tracker t) cond ctx
      else if f = FieldTrackers then compareTrackers lib t cond ctx
      else if f = FieldFreeSpace then
        (case ctx of None \<Rightarrow> False | Some c \<Rightarrow> compareInt64 (wrap64 (ctx_FreeSpace c + ctx_SpaceToClear c)) cond)
      else if f = FieldUploadedOverSize then
        t_TotalSize t \<noteq> 0 \<and> compareFloat64 (case (fl_of_int (t_Uploaded t), fl_of_int (t_TotalSize t)) of
            (Fl a, Fl b) \<Rightarrow> fl_of_ratio a b | _ \<Rightarrow> NaN) cond
      else if f = FieldProgress then compareFloat64 (t_Progress t) (normalizeProgressCondition lib cond)
      else if f = FieldHardlinkScope then
        (case localValue ctx_HardlinkScopeByHash t ctx of None \<Rightarrow> False | Some scope \<Rightarrow> compareHardlinkScope scope cond)
      else if f = FieldHardlinkScopeCross then
        (case localValue ctx_HardlinkCrossScopeByHash t ctx of None \<Rightarrow> False | Some scope \<Rightarrow> compareHardlinkScope scope cond)
      else if f = FieldHasMissingFiles then
        (case localValue ctx_HasMissingFilesByHash t ctx of None \<Rightarrow> False | Some hasMissing \<Rightarrow> compareBool hasMissing cond)
      else (case stringField lib t ctx f of Some v \<Rightarrow> compareString lib v cond | None \<Rightarrow>
           (case ageField t f of Some ts \<Rightarrow> compareAgeIfSet lib ts cond ctx | None \<Rightarrow>
           (case intField lib t cond ctx f of Some n \<Rightarrow> compareInt64 n cond | None \<Rightarrow>
           (case floatField t f of Some v \<Rightarrow> compareFloat64 v cond | None \<Rightarrow>
           (case boolField t cond ctx f of Some b \<Rightarrow> compareBool b cond | None \<Rightarrow> False))))))"

section \<open>Trees\<close>

definition maxConditionDepth :: nat where "maxConditionDepth = 20"

definition regexFails :: "eval_lib \<Rightarrow> rule_condition \<Rightarrow> bool" where
  "regexFails lib cond \<longleftrightarrow>
     rc_Operator cond \<noteq> OperatorExistsIn \<and> rc_Operator cond \<noteq> OperatorContainsIn \<and> needsRegex cond
   \<and> isl (CompileRegex (el_regexp lib) cond)"

fun EvaluateConditionWithContext :: "eval_lib \<Rightarrow> rule_condition option \<Rightarrow> torrent \<Rightarrow> eval_ctx option \<Rightarrow> nat \<Rightarrow> bool"
  and evaluateAny :: "eval_lib \<Rightarrow> rule_condition option list \<Rightarrow> torrent \<Rightarrow> eval_ctx option \<Rightarrow> nat \<Rightarrow> bool"
  and evaluateAll :: "eval_lib \<Rightarrow> rule_condition option list \<Rightarrow> torrent \<Rightarrow> eval_ctx option \<Rightarrow> nat \<Rightarrow> bool" where
  "EvaluateConditionWithContext lib None t ctx depth = False"
| "EvaluateConditionWithContext lib (Some cond) t ctx depth =
     (if depth > maxConditionDepth then False
      else if regexFails lib cond then False
      else
        let result = (if IsGroup cond then
              (if rc_Operator cond = OperatorOr then evaluateAny lib (rc_Conditions cond) t ctx (depth + 1)
               else evaluateAll lib (rc_Conditions cond) t ctx (depth + 1))
            else evaluateLeaf lib cond t ctx)
        in if rc_Negate cond then \<not> result else result)"
| "evaluateAny lib [] t ctx depth = False"
| "evaluateAny lib (c # cs) t ctx depth = (EvaluateConditionWithContext lib c t ctx depth \<or> evaluateAny lib cs t ctx depth)"
| "evaluateAll lib [] t ctx depth = True"
| "evaluateAll lib (c # cs) t ctx depth = (EvaluateConditionWithContext lib c t ctx depth \<and> evaluateAll lib cs t ctx depth)"

lemma evaluateAny_ex: "evaluateAny lib cs t ctx d \<longleftrightarrow> (\<exists>c \<in> set cs. EvaluateConditionWithContext lib c t ctx d)"
  by (induction cs) auto

lemma evaluateAll_all: "evaluateAll lib cs t ctx d \<longleftrightarrow> (\<forall>c \<in> set cs. EvaluateConditionWithContext lib c t ctx d)"
  by (induction cs) auto

end
