(* ===== verification/Condition_Properties.thy ===== *)
theory Condition_Properties
  imports Condition_Eval
begin

text \<open>
  Properties of the evaluation of conditions: what a tree means, that the category indices answer
  like a search through all torrents, that the order and the duplicates of tracker candidates do not
  matter, how comparisons behave on values that do not parse, and how free-space projections survive
  the switch between rules.
\<close>

section \<open>What a tree means\<close>

text \<open>The height of a tree, and whether all its nodes are present and their patterns compile.\<close>

fun height :: "rule_condition option \<Rightarrow> nat" and heights :: "rule_condition option list \<Rightarrow> nat" where
  "height None = 0"
| "height (Some c) = Suc (heights (rc_Conditions c))"
| "heights [] = 0"
| "heights (c # cs) = max (height c) (heights cs)"

fun well_formed :: "eval_lib \<Rightarrow> rule_condition option \<Rightarrow> bool"
  and well_formeds :: "eval_lib \<Rightarrow> rule_condition option list \<Rightarrow> bool" where
  "well_formed lib None = False"
| "well_formed lib (Some c) = (\<not> regexFails lib c \<and> well_formeds lib (rc_Conditions c))"
| "well_formeds lib [] = True"
| "well_formeds lib (c # cs) = (well_formed lib c \<and> well_formeds lib cs)"

text \<open>The truth value of a tree over the truth values of its leaves.\<close>

fun denotes :: "(rule_condition \<Rightarrow> bool) \<Rightarrow> rule_condition option \<Rightarrow> bool"
  and denotes_list :: "(rule_condition \<Rightarrow> bool) \<Rightarrow> rule_condition option list \<Rightarrow> bool list" where
  "denotes leaf None = False"
| "denotes leaf (Some c) =
     (rc_Negate c \<noteq> (if \<not> IsGroup c then leaf c
        else if rc_Operator c = OperatorOr then True \<in> set (denotes_list leaf (rc_Conditions c))
        else False \<notin> set (denotes_list leaf (rc_Conditions c))))"
| "denotes_list leaf [] = []"
| "denotes_list leaf (c # cs) = denotes leaf c # denotes_list leaf cs"

lemma evaluate_denotes:
  "well_formed lib c \<Longrightarrow> height c + d \<le> Suc maxConditionDepth \<Longrightarrow>
     EvaluateConditionWithContext lib c t ctx d = denotes (\<lambda>l. evaluateLeaf lib l t ctx) c"
  "well_formeds lib cs \<Longrightarrow> heights cs + d \<le> Suc maxConditionDepth \<Longrightarrow>
     (evaluateAny lib cs t ctx d \<longleftrightarrow> True \<in> set (denotes_list (\<lambda>l. evaluateLeaf lib l t ctx) cs))
   \<and> (evaluateAll lib cs t ctx d \<longleftrightarrow> False \<notin> set (denotes_list (\<lambda>l. evaluateLeaf lib l t ctx) cs))"
proof (induction lib c and lib cs arbitrary: d and d rule: well_formed_well_formeds.induct)
  case (2 lib c)
  then have "d \<le> maxConditionDepth" "\<not> regexFails lib c"
    by simp_all
  with 2 show ?case
    by auto
qed auto

text \<open>
  C23. The meaning of a condition: for a tree of at most 21 levels without missing nodes and with
  patterns that compile, evaluation is the Boolean value of the tree: a group is the conjunction or
  disjunction of its children, a leaf its comparison, and \<open>Negate\<close> the complement. The order of the
  children, the short cuts and the depth counter do not matter.
\<close>

theorem EvaluateCondition_denotes:
  assumes "well_formed lib c" "height c \<le> 21"
  shows "EvaluateConditionWithContext lib c t ctx 0 = denotes (\<lambda>l. evaluateLeaf lib l t ctx) c"
  using evaluate_denotes(1) [OF assms(1), of 0] assms(2) by (simp add: maxConditionDepth_def)

definition demo_lib :: eval_lib where
  "demo_lib = \<lparr>el_regexp = (\<lambda>p. if p = ''(?i)('' then None else Some (\<lambda>s. contains_str (to_lower s) (to_lower (drop 4 p)))),
     el_urlHostname = (\<lambda>u. if has_prefix u ''http://'' then Some (takeWhile (\<lambda>c. c \<noteq> CHR ''/'') (drop 7 u)) else None),
     el_splitHostPort = (\<lambda>_. None), el_isIP = (\<lambda>_. False), el_now = 1000,
     el_local = (\<lambda>_. \<lparr>cp_Hour = 12, cp_Minute = 30, cp_Weekday = 1, cp_Day = 2, cp_Month = 3, cp_Year = 2026\<rparr>),
     el_formatFloat = (\<lambda>_. []), el_parseRelease = (\<lambda>_. emptyRelease), el_contentType = (\<lambda>_. ''unknown''),
     el_normalizeSource = (\<lambda>s. s), el_joinCodecs = concat, el_normalizeForMatching = to_lower,
     el_pathMatch = (\<lambda>p s. Some (p = s)), el_renderPath = (\<lambda>p d sanitize. Some p)\<rparr>"

definition sample_torrent :: "string \<Rightarrow> string \<Rightarrow> string \<Rightarrow> torrent" where
  "sample_torrent hash name category =
     \<lparr>t_Hash = hash, t_Name = name, t_InfohashV1 = hash, t_InfohashV2 = [], t_MagnetURI = [], t_Category = category,
      t_Tags = ''a, b'', t_SavePath = ''/d'', t_ContentPath = ''/d/'' @ name, t_DownloadPath = [], t_CreatedBy = [],
      t_Comment = [], t_State = ''uploading'', t_Tracker = ''http://tracker.org/announce'', t_Trackers = [],
      t_Size = 100, t_TotalSize = 100, t_Completed = 100, t_Downloaded = 100, t_DownloadedSession = 0, t_Uploaded = 50,
      t_UploadedSession = 0, t_AmountLeft = 0, t_AddedOn = 10, t_CompletionOn = 20, t_LastActivity = 30, t_SeenComplete = 0,
      t_ETA = 0, t_Reannounce = 0, t_SeedingTime = 500, t_TimeActive = 600, t_MaxSeedingTime = - 1,
      t_MaxInactiveSeedingTime = - 1, t_SeedingTimeLimit = - 2, t_InactiveSeedingTimeLimit = - 2, t_DlSpeed = 0, t_UpSpeed = 5,
      t_DlLimit = 0, t_UpLimit = 0, t_NumSeeds = 3, t_NumLeechs = 4, t_NumComplete = 5, t_NumIncomplete = 6,
      t_TrackersCount = 1, t_Priority = 0, t_Ratio = Fl 0, t_RatioLimit = Fl 0, t_MaxRatio = Fl 0, t_Progress = Fl 0,
      t_Availability = Fl 0, t_Popularity = Fl 0, t_Private = True, t_AutoManaged = False, t_FirstLastPiecePrio = False,
      t_ForceStart = False, t_SequentialDownload = False, t_SuperSeeding = False\<rparr>"

definition demo_leaf :: "string \<Rightarrow> string \<Rightarrow> string \<Rightarrow> bool \<Rightarrow> rule_condition" where
  "demo_leaf field op v negate = RuleCondition field op [] v None None False negate []"

definition demo_tree :: rule_condition where
  "demo_tree = RuleCondition [] OperatorAnd [] [] None None False False
     [Some (demo_leaf FieldCategory OperatorEqual ''TV'' False), Some (demo_leaf FieldSeedingTime OperatorLessThan ''60'' True)]"

theorem EvaluateCondition_denotes_witness:
  "EvaluateConditionWithContext demo_lib (Some demo_tree) (sample_torrent ''h'' ''Show'' ''tv'') None 0
     = denotes (\<lambda>l. evaluateLeaf demo_lib l (sample_torrent ''h'' ''Show'' ''tv'') None) (Some demo_tree)
   \<and> EvaluateConditionWithContext demo_lib (Some demo_tree) (sample_torrent ''h'' ''Show'' ''tv'') None 0"
proof -
  have "well_formed demo_lib (Some demo_tree)" "height (Some demo_tree) \<le> 21"
    "EvaluateConditionWithContext demo_lib (Some demo_tree) (sample_torrent ''h'' ''Show'' ''tv'') None 0"
    by code_simp+
  with EvaluateCondition_denotes [of demo_lib "Some demo_tree"] show ?thesis
    by blast
qed

text \<open>
  Unknown is not kept unknown: where the hardlink scope or the missing files of a torrent are
  not known, because the instance has no local access or nothing was computed, the plain condition
  does not match, but the same condition with \<open>Negate\<close> matches, whatever it compares with.
\<close>

theorem negated_unknown_matches:
  assumes "rc_Field c \<in> {FieldHardlinkScope, FieldHardlinkScopeCross, FieldHasMissingFiles}" "rc_Conditions c = []"
    "\<not> needsRegex c" "ctx = None \<or> \<not> ctx_InstanceHasLocalAccess (the ctx)"
  shows "EvaluateConditionWithContext lib (Some c) t ctx 0 = rc_Negate c"
proof -
  have unknown: "localValue sel t ctx = None" for sel :: "eval_ctx \<Rightarrow> (string, 'a) gomap option"
    using assms(4) by (auto simp: localValue_def split: option.splits)
  have "\<not> evaluateLeaf lib c t ctx"
    using assms(1) unfolding evaluateLeaf_def Let_def by (auto simp: unknown field_defs)
  moreover have "\<not> IsGroup c" "\<not> regexFails lib c"
    using assms(2,3) by (simp_all add: IsGroup_def regexFails_def)
  ultimately show ?thesis
    by (simp add: maxConditionDepth_def)
qed

theorem negated_unknown_matches_witness:
  "EvaluateConditionWithContext demo_lib (Some (demo_leaf FieldHardlinkScope OperatorEqual ''outside_qbittorrent'' True))
     (sample_torrent ''h'' ''Show'' ''tv'') None 0"
proof -
  have "rc_Field (demo_leaf FieldHardlinkScope OperatorEqual ''outside_qbittorrent'' True)
      \<in> {FieldHardlinkScope, FieldHardlinkScopeCross, FieldHasMissingFiles}"
    "rc_Conditions (demo_leaf FieldHardlinkScope OperatorEqual ''outside_qbittorrent'' True) = []"
    "\<not> needsRegex (demo_leaf FieldHardlinkScope OperatorEqual ''outside_qbittorrent'' True)"
    "rc_Negate (demo_leaf FieldHardlinkScope OperatorEqual ''outside_qbittorrent'' True)"
    by (simp_all add: demo_leaf_def needsRegex_def operator_defs)
  with negated_unknown_matches [OF this(1-3), of None demo_lib] show ?thesis
    by blast
qed

section \<open>Categories\<close>

text \<open>The hashes and entries an index holds, empty where it has no key.\<close>

definition hashesAt :: "(string, (string, string goset) gomap) gomap \<Rightarrow> string \<Rightarrow> string \<Rightarrow> string goset" where
  "hashesAt idx k n = (case gm_get idx k of None \<Rightarrow> [] | Some m \<Rightarrow> (case gm_get m n of None \<Rightarrow> [] | Some hs \<Rightarrow> hs))"

definition entriesAt :: "(string, category_entry list) gomap \<Rightarrow> string \<Rightarrow> category_entry list" where
  "entriesAt idx k = (case gm_get idx k of None \<Rightarrow> [] | Some es \<Rightarrow> es)"

lemma indexTorrent_at:
  "set (hashesAt (fst (indexTorrent t i)) k n) = set (hashesAt (fst i) k n) \<union>
     (if normalizeLowerTrim (t_Category t) = k \<and> normalizeLower (t_Name t) = n then {t_Hash t} else {})"
  "set (entriesAt (snd (indexTorrent t i)) k) = set (entriesAt (snd i) k) \<union>
     (if normalizeLowerTrim (t_Category t) = k then {\<lparr>ce_Hash = t_Hash t, ce_Name = normalizeLower (t_Name t), ce_NormalizedName = normalizeName (t_Name t)\<rparr>} else {})"
  unfolding indexTorrent_def Let_def split_beta
  by (auto simp: hashesAt_def entriesAt_def split: option.splits)

lemma BuildCategoryIndex_at:
  "set (hashesAt (fst (BuildCategoryIndex ts)) k n) =
     t_Hash ` {t \<in> set ts. normalizeLowerTrim (t_Category t) = k \<and> normalizeLower (t_Name t) = n}"
  "set (entriesAt (snd (BuildCategoryIndex ts)) k) =
     (\<lambda>t. \<lparr>ce_Hash = t_Hash t, ce_Name = normalizeLower (t_Name t), ce_NormalizedName = normalizeName (t_Name t)\<rparr>) `
       {t \<in> set ts. normalizeLowerTrim (t_Category t) = k}"
proof -
  have "set (hashesAt (fst (fold indexTorrent ts i)) k n) = set (hashesAt (fst i) k n) \<union>
      t_Hash ` {t \<in> set ts. normalizeLowerTrim (t_Category t) = k \<and> normalizeLower (t_Name t) = n}" for i
    by (induction ts arbitrary: i) (auto simp: indexTorrent_at)
  moreover have "set (entriesAt (snd (fold indexTorrent ts i)) k) = set (entriesAt (snd i) k) \<union>
      (\<lambda>t. \<lparr>ce_Hash = t_Hash t, ce_Name = normalizeLower (t_Name t), ce_NormalizedName = normalizeName (t_Name t)\<rparr>) `
       {t \<in> set ts. normalizeLowerTrim (t_Category t) = k}" for i
    by (induction ts arbitrary: i) (auto simp: indexTorrent_at)
  ultimately show "set (hashesAt (fst (BuildCategoryIndex ts)) k n) =
     t_Hash ` {t \<in> set ts. normalizeLowerTrim (t_Category t) = k \<and> normalizeLower (t_Name t) = n}"
    "set (entriesAt (snd (BuildCategoryIndex ts)) k) =
     (\<lambda>t. \<lparr>ce_Hash = t_Hash t, ce_Name = normalizeLower (t_Name t), ce_NormalizedName = normalizeName (t_Name t)\<rparr>) `
       {t \<in> set ts. normalizeLowerTrim (t_Category t) = k}"
    unfolding BuildCategoryIndex_def by (simp_all add: hashesAt_def entriesAt_def)
qed

text \<open>
  C25. The category lookups are exact: with the indices built from a list of torrents, EXISTS_IN holds
  exactly if another torrent of the category has the same name up to case, and CONTAINS_IN exactly if
  both the torrent and another one of the category have normalised names of at least 10 bytes of which
  one contains the other; a category of blanks only matches nothing.
\<close>

theorem category_lookup_exact:
  assumes "ctx_CategoryIndex c = Some (fst (BuildCategoryIndex ts))" "ctx_CategoryNames c = Some (snd (BuildCategoryIndex ts))"
  shows "(existsInCategory h n cat (Some c) \<longleftrightarrow> (cat = [] \<or> normalizeLowerTrim cat \<noteq> []) \<and>
       (\<exists>t \<in> set ts. t_Hash t \<noteq> h \<and> normalizeLowerTrim (t_Category t) = normalizeLowerTrim cat \<and> equal_fold (t_Name t) n))
   \<and> (containsInCategory h n cat (Some c) \<longleftrightarrow> (cat = [] \<or> normalizeLowerTrim cat \<noteq> []) \<and> 10 \<le> length (normalizeName n) \<and>
       (\<exists>t \<in> set ts. t_Hash t \<noteq> h \<and> normalizeLowerTrim (t_Category t) = normalizeLowerTrim cat \<and> 10 \<le> length (normalizeName (t_Name t))
          \<and> (sublist (normalizeName (t_Name t)) (normalizeName n) \<or> sublist (normalizeName n) (normalizeName (t_Name t)))))"
proof -
  have "existsInCategory h n cat (Some c) \<longleftrightarrow> (cat = [] \<or> normalizeLowerTrim cat \<noteq> []) \<and>
      (\<exists>x \<in> set (hashesAt (fst (BuildCategoryIndex ts)) (normalizeLowerTrim cat) (normalizeLower n)). x \<noteq> h)"
    by (auto simp: existsInCategory_def assms(1) hashesAt_def list_ex_iff Let_def split: option.splits)
  moreover have "containsInCategory h n cat (Some c) \<longleftrightarrow> (cat = [] \<or> normalizeLowerTrim cat \<noteq> []) \<and> 10 \<le> length (normalizeName n) \<and>
      (\<exists>e \<in> set (entriesAt (snd (BuildCategoryIndex ts)) (normalizeLowerTrim cat)). ce_Hash e \<noteq> h \<and> 10 \<le> length (ce_NormalizedName e)
         \<and> (sublist (ce_NormalizedName e) (normalizeName n) \<or> sublist (normalizeName n) (ce_NormalizedName e)))"
    by (auto simp: containsInCategory_def assms(2) entriesAt_def list_ex_iff Let_def contains_str_iff minContainsNameLength_def
        not_less split: option.splits)
  ultimately show ?thesis
    unfolding BuildCategoryIndex_at by (auto simp: normalizeLower_def equal_fold_def)
qed


definition empty_ctx :: eval_ctx where
  "empty_ctx = \<lparr>ctx_UnregisteredSet = None, ctx_TrackerDownSet = None, ctx_TrackerErrorSet = None,
     ctx_HardlinkScopeByHash = None, ctx_HardlinkCrossScopeByHash = None, ctx_HasMissingFilesByHash = None,
     ctx_InstanceHasLocalAccess = False, ctx_FreeSpace = 0, ctx_SpaceToClear = 0, ctx_FilesToClear = None,
     ctx_HardlinkSignatureByHash = None, ctx_DeleteSafeHardlinkSignatureByHash = None,
     ctx_HardlinkSignaturesToClear = None, ctx_FreeSpaceStates = None, ctx_ActiveFreeSpaceSource = [],
     ctx_CategoryIndex = None, ctx_CategoryNames = None, ctx_NowUnix = 0, ctx_CrossInstanceHashSet = None,
     ctx_CrossInstanceSeedingHashSet = None, ctx_SameInstanceCrossSeedHashSet = None,
     ctx_SameInstanceCrossSeedSeedingHashSet = None, ctx_TrackerDisplayNameByDomain = [],
     ctx_hasReleaseParser = False, ctx_ActiveRuleID = 0, ctx_activeGroupIndex = None, ctx_groupIndexCache = [],
     ctx_groupConditionUsageByRule = []\<rparr>"

definition demo_torrents :: "torrent list" where
  "demo_torrents = [sample_torrent ''h1'' ''The.Big.Show.S01'' ''tv'', sample_torrent ''h2'' ''the big show'' ''TV '']"

definition demo_index_ctx :: eval_ctx where
  "demo_index_ctx = empty_ctx\<lparr>ctx_CategoryIndex := Some (fst (BuildCategoryIndex demo_torrents)),
     ctx_CategoryNames := Some (snd (BuildCategoryIndex demo_torrents))\<rparr>"

theorem category_lookup_exact_witness:
  "existsInCategory ''h0'' ''THE BIG SHOW'' ''tv'' (Some demo_index_ctx)
   \<and> \<not> existsInCategory ''h2'' ''THE BIG SHOW'' ''tv'' (Some demo_index_ctx)
   \<and> containsInCategory ''h2'' ''THE BIG SHOW'' ''tv'' (Some demo_index_ctx)"
proof -
  have index: "ctx_CategoryIndex demo_index_ctx = Some (fst (BuildCategoryIndex demo_torrents))"
    "ctx_CategoryNames demo_index_ctx = Some (snd (BuildCategoryIndex demo_torrents))"
    by (simp_all add: demo_index_ctx_def)
  have torrents: "set demo_torrents = {sample_torrent ''h1'' ''The.Big.Show.S01'' ''tv'', sample_torrent ''h2'' ''the big show'' ''TV ''}"
    by (simp add: demo_torrents_def)
  have names: "normalizeLowerTrim ''tv'' = ''tv''" "normalizeLowerTrim ''TV '' = ''tv''"
    "equal_fold ''the big show'' ''THE BIG SHOW''" "\<not> equal_fold ''The.Big.Show.S01'' ''THE BIG SHOW''"
    "normalizeName ''THE BIG SHOW'' = ''the big show''" "normalizeName ''The.Big.Show.S01'' = ''the big show s01''"
    by code_simp+
  have "sublist ''the big show'' ''the big show s01''"
    by (simp add: contains_str_iff [symmetric])
  then show ?thesis
    using category_lookup_exact [OF index, of "''h0''" "''THE BIG SHOW''" "''tv''"]
      category_lookup_exact [OF index, of "''h2''" "''THE BIG SHOW''" "''tv''"]
    unfolding torrents by (auto simp: sample_torrent_def names)
qed

section \<open>Tracker candidates\<close>

lemma dedupFold_set:
  "to_lower ` set (dedupFold cs) = to_lower ` set cs \<and> set (dedupFold cs) \<subseteq> set cs"
proof -
  define step where "step = (\<lambda>c (seen, uniq). if List.member seen (to_lower c) then (seen, uniq) else (seen @ [to_lower c], uniq @ [c]))"
  have "set seen = to_lower ` set uniq \<Longrightarrow> (case fold step cs (seen, uniq) of (seen', uniq') \<Rightarrow>
      set seen' = to_lower ` set uniq' \<and> set seen' = set seen \<union> to_lower ` set cs \<and> set uniq' \<subseteq> set uniq \<union> set cs)" for seen uniq
  proof (induction cs arbitrary: seen uniq)
    case (Cons c cs)
    show ?case
    proof (cases "to_lower c \<in> set seen")
      case True
      then have "fold step (c # cs) (seen, uniq) = fold step cs (seen, uniq)"
        by (simp add: step_def )
      with Cons.IH [OF Cons.prems] True show ?thesis
        by (auto split: prod.splits)
    next
      case False
      then have "fold step (c # cs) (seen, uniq) = fold step cs (seen @ [to_lower c], uniq @ [c])"
        by (simp add: step_def )
      with Cons.IH [of "seen @ [to_lower c]" "uniq @ [c]"] Cons.prems show ?thesis
        by (auto split: prod.splits)
    qed
  qed simp
  from this [of "[]" "[]"] show ?thesis
    unfolding dedupFold_def step_def [symmetric] by (auto split: prod.splits)
qed

lemma ex_dedupFold:
  assumes "\<And>s t. to_lower s = to_lower t \<Longrightarrow> P s = P t"
  shows "(\<exists>c \<in> set (dedupFold cs). P c) \<longleftrightarrow> (\<exists>c \<in> set cs. P c)"
proof
  assume "\<exists>c \<in> set cs. P c"
  then obtain c where c: "c \<in> set cs" "P c" ..
  then have "to_lower c \<in> to_lower ` set (dedupFold cs)"
    using dedupFold_set [of cs] by simp
  then obtain d where "d \<in> set (dedupFold cs)" "to_lower d = to_lower c"
    by auto
  with c(2) show "\<exists>c \<in> set (dedupFold cs). P c"
    using assms by blast
qed (use dedupFold_set [of cs] in blast)

text \<open>The pattern of the condition, compiled with \<open>(?i)\<close>, does not tell case variants apart.\<close>

definition ignores_case :: "eval_lib \<Rightarrow> rule_condition \<Rightarrow> bool" where
  "ignores_case lib cond \<longleftrightarrow>
     (\<forall>m s t. el_regexp lib (''(?i)'' @ rc_Value cond) = Some m \<longrightarrow> to_lower s = to_lower t \<longrightarrow> m s = m t)"

lemma compareString_fold:
  assumes "ignores_case lib cond" "to_lower s = to_lower t"
  shows "compareString lib s cond = compareString lib t cond"
proof -
  have "(case compiledOf lib cond of None \<Rightarrow> False | Some m \<Rightarrow> P (m s)) = (case compiledOf lib cond of None \<Rightarrow> False | Some m \<Rightarrow> P (m t))" for P
  proof (cases "compiledOf lib cond")
    case (Some m)
    then have "el_regexp lib (''(?i)'' @ rc_Value cond) = Some m"
      by (auto simp: compiledOf_def CompileRegex_def split: if_splits option.splits)
    with assms have "m s = m t"
      unfolding ignores_case_def by blast
    with Some show ?thesis
      by simp
  qed simp
  from this [of "\<lambda>b. if negativeOperator (rc_Operator cond) then \<not> b else b"] have
    "(case compiledOf lib cond of None \<Rightarrow> False | Some m \<Rightarrow> if negativeOperator (rc_Operator cond) then \<not> m s else m s)
     = (case compiledOf lib cond of None \<Rightarrow> False | Some m \<Rightarrow> if negativeOperator (rc_Operator cond) then \<not> m t else m t)" .
  then show ?thesis
    unfolding compareString_def Let_def equal_fold_def assms(2) by (simp only:)
qed

text \<open>
  Candidates of a tracker: a condition on a tracker holds of its candidates (the URL, its domain,
  the display name) if it holds of one of them, and for the negative operators, NOT_CONTAINS and
  NOT_EQUAL, if it holds of all of them; the order of the candidates and the removal of the case
  variants among them change nothing, as long as the pattern of the condition ignores case.
\<close>

theorem compareStringCandidates_any_all:
  assumes "ignores_case lib cond" "candidates \<noteq> []"
  shows "compareStringCandidates lib candidates cond \<longleftrightarrow>
    (if negativeOperator (rc_Operator cond) then (\<forall>c \<in> set candidates. compareString lib c cond)
     else (\<exists>c \<in> set candidates. compareString lib c cond))"
proof -
  note same = compareString_fold [OF assms(1)]
  have fold: "(\<exists>c \<in> set (dedupFold candidates). compareString lib c cond) \<longleftrightarrow> (\<exists>c \<in> set candidates. compareString lib c cond)"
    by (rule ex_dedupFold) (rule same)
  have fold': "(\<exists>c \<in> set (dedupFold candidates). \<not> compareString lib c cond) \<longleftrightarrow> (\<exists>c \<in> set candidates. \<not> compareString lib c cond)"
    by (rule ex_dedupFold) (use same in blast)
  have "dedupFold candidates \<noteq> []"
    using dedupFold_set [of candidates] assms(2) by auto
  then have ne: "set (dedupFold candidates) \<noteq> {}"
    by simp
  have "compareStringCandidates lib candidates cond \<longleftrightarrow>
    (if negativeOperator (rc_Operator cond) then \<not> (\<exists>c \<in> set (dedupFold candidates). \<not> compareString lib c cond)
     else (\<exists>c \<in> set (dedupFold candidates). compareString lib c cond))"
  proof (cases "needsRegex cond")
    case True
    with assms(2) ne show ?thesis
      by (cases "compiledOf lib cond") (auto simp: compareStringCandidates_def compareString_def Let_def list_ex_iff)
  next
    case False
    with assms(2) show ?thesis
      by (auto simp: compareStringCandidates_def compareString_def Let_def list_ex_iff negativeOperator_def operator_defs)
  qed
  then show ?thesis
    by (simp add: fold fold')
qed
theorem compareStringCandidates_any_all_witness:
  "\<not> compareStringCandidates demo_lib [''http://A.org/x'', ''a.org'', ''A.ORG''] (demo_leaf FieldTracker OperatorNotContains ''a.org'' False)
   \<and> compareString demo_lib ''http://A.org/x'' (demo_leaf FieldTracker OperatorNotContains ''b'' False)
   \<and> compareStringCandidates demo_lib [''http://A.org/x'', ''a.org''] (demo_leaf FieldTracker OperatorNotContains ''b'' False)"
proof -
  have ignores: "ignores_case demo_lib c" for c
    unfolding ignores_case_def by (auto simp: demo_lib_def split: if_splits)
  have "negativeOperator (rc_Operator (demo_leaf FieldTracker OperatorNotContains v False))" for v
    by (simp add: demo_leaf_def negativeOperator_def)
  moreover have "\<not> compareString demo_lib ''a.org'' (demo_leaf FieldTracker OperatorNotContains ''a.org'' False)"
    "compareString demo_lib ''http://A.org/x'' (demo_leaf FieldTracker OperatorNotContains ''b'' False)"
    "compareString demo_lib ''a.org'' (demo_leaf FieldTracker OperatorNotContains ''b'' False)"
    by code_simp+
  ultimately show ?thesis
    using compareStringCandidates_any_all [OF ignores, of "[''http://A.org/x'', ''a.org'', ''A.ORG'']"]
      compareStringCandidates_any_all [OF ignores, of "[''http://A.org/x'', ''a.org'']"] by simp
qed

section \<open>Free-space projections\<close>

text \<open>The projection of a source: the one the context works on, or the one put aside in \<open>FreeSpaceStates\<close>.\<close>

definition projectionOf :: "eval_ctx \<Rightarrow> string \<Rightarrow> free_space_state option" where
  "projectionOf c k =
     (if k = ctx_ActiveFreeSpaceSource c then
        (if k = [] then None
         else Some \<lparr>fss_FreeSpace = ctx_FreeSpace c, fss_SpaceToClear = ctx_SpaceToClear c, fss_FilesToClear = ctx_FilesToClear c,
                fss_HardlinkSignaturesToClear = ctx_HardlinkSignaturesToClear c\<rparr>)
      else Option.bind (ctx_FreeSpaceStates c) (\<lambda>m. Option.bind (gm_get m k) id))"

text \<open>The active source has a state, and its free space is the one the context works with.\<close>

definition sources_ok :: "eval_ctx \<Rightarrow> bool" where
  "sources_ok c \<longleftrightarrow> (\<exists>m. ctx_FreeSpaceStates c = Some m \<and> gm_get m [] = None \<and> (ctx_ActiveFreeSpaceSource c = [] \<or>
     (\<exists>s. gm_get m (ctx_ActiveFreeSpaceSource c) = Some (Some s) \<and> fss_FreeSpace s = ctx_FreeSpace c)))"

text \<open>
  C27. Switching sources loses nothing: loading the projection of a source makes it the active one and
  leaves the projection of every source as it was, those of the source left and of the one entered
  included; a source without a state is not entered, and free space then counts as unlimited.
\<close>

theorem LoadFreeSpaceSourceState_projections:
  assumes "sources_ok c" "k \<noteq> []"
  shows "sources_ok (LoadFreeSpaceSourceState k c)
    \<and> projectionOf (LoadFreeSpaceSourceState k c) = projectionOf c
    \<and> (if projectionOf c k = None
       then ctx_ActiveFreeSpaceSource (LoadFreeSpaceSourceState k c) = [] \<and> ctx_FreeSpace (LoadFreeSpaceSourceState k c) = maxInt64
       else ctx_ActiveFreeSpaceSource (LoadFreeSpaceSourceState k c) = k)"
proof -
  obtain m where m: "ctx_FreeSpaceStates c = Some m" "gm_get m [] = None"
     "ctx_ActiveFreeSpaceSource c = [] \<or> (\<exists>s. gm_get m (ctx_ActiveFreeSpaceSource c) = Some (Some s) \<and> fss_FreeSpace s = ctx_FreeSpace c)"
    using assms(1) unfolding sources_ok_def by blast
  note defs = sources_ok_def projectionOf_def LoadFreeSpaceSourceState_def PersistFreeSpaceSourceState_def Let_def
  have "sources_ok (LoadFreeSpaceSourceState k c)"
    using assms(2) m unfolding defs by (auto split: option.splits)
  moreover have "projectionOf (LoadFreeSpaceSourceState k c) j = projectionOf c j" for j
    using assms(2) m unfolding defs by (auto split: option.splits)
  moreover have "ctx_ActiveFreeSpaceSource (LoadFreeSpaceSourceState k c) = (if projectionOf c k = None then [] else k)"
    "projectionOf c k = None \<Longrightarrow> ctx_FreeSpace (LoadFreeSpaceSourceState k c) = maxInt64"
    using assms(2) m unfolding defs by (auto split: option.splits)
  ultimately show ?thesis
    by (auto simp: fun_eq_iff)
qed

definition demo_sources_ctx :: eval_ctx where
  "demo_sources_ctx = empty_ctx\<lparr>ctx_ActiveFreeSpaceSource := ''a'', ctx_FreeSpace := 5, ctx_SpaceToClear := 7,
     ctx_FreeSpaceStates := Some [(''a'', Some \<lparr>fss_FreeSpace = 5, fss_SpaceToClear = 0, fss_FilesToClear = None, fss_HardlinkSignaturesToClear = None\<rparr>),
       (''b'', Some \<lparr>fss_FreeSpace = 9, fss_SpaceToClear = 1, fss_FilesToClear = None, fss_HardlinkSignaturesToClear = None\<rparr>)]\<rparr>"

theorem LoadFreeSpaceSourceState_projections_witness:
  "map_option fss_SpaceToClear (projectionOf (LoadFreeSpaceSourceState ''b'' demo_sources_ctx) ''a'') = Some 7
   \<and> ctx_ActiveFreeSpaceSource (LoadFreeSpaceSourceState ''b'' demo_sources_ctx) = ''b''"
proof -
  have "sources_ok demo_sources_ctx" "projectionOf demo_sources_ctx ''b'' \<noteq> None"
    "map_option fss_SpaceToClear (projectionOf demo_sources_ctx ''a'') = Some 7"
    by (simp_all add: sources_ok_def projectionOf_def demo_sources_ctx_def empty_ctx_def gm_get_def)
  with LoadFreeSpaceSourceState_projections [of demo_sources_ctx "''b''"] show ?thesis
    by simp
qed

end
