(* ===== verification/Torrent_Index.thy ===== *)
theory Torrent_Index
  imports Condition_Eval
begin

text \<open>
  What the rules of automations look up about torrents: normalised paths and the indices of torrents
  that share them, the domains of their trackers and the patterns rules match them with
  (\<open>src/internal/services/automations/service.go\<close>, \<open>normalizers.go\<close>, and \<open>ExtractDomainFromURL\<close> of
  \<open>src/internal/qbittorrent/sync_manager.go\<close>). The caches of the normalisers and of the domains hold
  results of pure functions and are left out.
\<close>

section \<open>Paths\<close>

definition trim_suffix :: "string \<Rightarrow> string \<Rightarrow> string" where
  "trim_suffix s p = (if has_suffix s p then take (length s - length p) s else s)"

definition normalizePath :: "string \<Rightarrow> string" where
  "normalizePath p =
     (if p = [] then [] else trim_suffix (map (\<lambda>c. if c = CHR 0x5C then CHR ''/'' else c) (to_lower p)) ''/'')"

definition makeCrossSeedKey :: "torrent \<Rightarrow> cross_seed_key option" where
  "makeCrossSeedKey t =
     (let contentPath = normalizePath (t_ContentPath t); savePath = normalizePath (t_SavePath t) in
      if contentPath = [] \<or> savePath = [] then None
      else Some \<lparr>ck_contentPath = contentPath, ck_savePath = savePath\<rparr>)"

definition buildCrossSeedIndex :: "torrent list \<Rightarrow> (cross_seed_key, torrent list) gomap" where
  "buildCrossSeedIndex torrents = group_by makeCrossSeedKey (\<lambda>t. t) torrents"

definition buildContentPathIndex :: "torrent list \<Rightarrow> (string, torrent list) gomap" where
  "buildContentPathIndex torrents =
     group_by (\<lambda>t. let p = normalizePath (t_ContentPath t) in if p = [] then None else Some p) (\<lambda>t. t) torrents"

definition findCrossSeedGroup :: "torrent \<Rightarrow> (string, torrent list) gomap \<Rightarrow> torrent list" where
  "findCrossSeedGroup target idx =
     (let p = normalizePath (t_ContentPath target) in
      if p = [] then [] else (case gm_get idx p of None \<Rightarrow> [] | Some found \<Rightarrow> found))"

definition detectCrossSeeds :: "torrent \<Rightarrow> (string, torrent list) gomap \<Rightarrow> bool" where
  "detectCrossSeeds target idx =
     (let p = normalizePath (t_ContentPath target) in
      p \<noteq> [] \<and> list_ex (\<lambda>other. t_Hash other \<noteq> t_Hash target) (case gm_get idx p of None \<Rightarrow> [] | Some found \<Rightarrow> found))"

definition isContentPathAmbiguous :: "torrent \<Rightarrow> bool" where
  "isContentPathAmbiguous t \<longleftrightarrow> normalizePath (t_ContentPath t) = normalizePath (t_SavePath t)"

definition deleteFreesSpace :: "string \<Rightarrow> torrent \<Rightarrow> (string, torrent list) gomap \<Rightarrow> bool" where
  "deleteFreesSpace mode t cpIndex =
     (if mode = DeleteModeKeepFiles \<or> mode = DeleteModeNone \<or> mode = [] then False
      else if mode = DeleteModeWithFilesPreserveCrossSeeds then \<not> detectCrossSeeds t cpIndex
      else if mode = DeleteModeWithFiles \<or> mode = DeleteModeWithFilesIncludeCrossSeeds then True
      else False)"

section \<open>Domains of trackers\<close>

definition isPseudoTrackerLabel :: "string \<Rightarrow> bool" where
  "isPseudoTrackerLabel value' =
     (let normalized = trim_space (trim_set ''*'' (to_lower (trim_space value')));
          normalized = (if has_prefix normalized ''['' \<and> has_suffix normalized '']''
             then trim_space (trim_suffix (trim_prefix normalized ''['') '']'') else normalized)
      in List.member [''dht'', ''pex'', ''lsd''] normalized)"

definition unknownDomain :: string where "unknownDomain = ''Unknown''"

text \<open>The third strategy of \<open>ExtractDomainFromURL\<close>: the text up to a path, without the port.\<close>

definition manualDomain :: "eval_lib \<Rightarrow> string \<Rightarrow> string" where
  "manualDomain lib urlStr =
     (let candidate = takeWhile (\<lambda>c. c \<notin> {CHR ''/'', CHR ''?'', CHR ''#''}) urlStr;
          candidate = trim_space (trim_prefix candidate ''//'')
      in if candidate = [] then unknownDomain
         else (case el_splitHostPort lib candidate of
             Some host \<Rightarrow> host
           | None \<Rightarrow>
               if el_isIP lib candidate \<and> CHR '':'' \<in> set candidate then candidate
               else (let candidate = takeWhile (\<lambda>c. c \<noteq> CHR '':'') candidate in
                     if candidate = [] then unknownDomain else candidate)))"

definition ExtractDomainFromURL :: "eval_lib \<Rightarrow> string \<Rightarrow> string" where
  "ExtractDomainFromURL lib urlStr =
     (let urlStr = trim_space urlStr in
      if urlStr = [] then []
      else if isPseudoTrackerLabel urlStr then []
      else
        let domain = (case nonempty_host (el_urlHostname lib urlStr) of Some h \<Rightarrow> h | None \<Rightarrow> unknownDomain);
            domain = (if domain = unknownDomain \<and> \<not> contains_str urlStr ''://''
               then (case nonempty_host (el_urlHostname lib (''//'' @ urlStr)) of Some h \<Rightarrow> h | None \<Rightarrow> unknownDomain)
               else domain);
            domain = (if domain = unknownDomain then manualDomain lib urlStr else domain)
        in if domain \<noteq> unknownDomain
           then (let domain = to_lower (trim_set ''[]'' domain) in if isPseudoTrackerLabel domain then [] else domain)
           else unknownDomain)"

definition host_char :: "char \<Rightarrow> bool" where
  "host_char c =
     (let n = (of_char c :: nat) in
      n \<in> {48..57} \<or> n \<in> {65..90} \<or> n \<in> {97..122} \<or> List.member ''.-'' c)"

definition sanitizeTrackerHost :: "string \<Rightarrow> string" where
  "sanitizeTrackerHost urlOrHost =
     (let clean = trim_space urlOrHost in
      if clean = [] then []
      else if contains_str clean ''://'' then []
      else filter host_char (hd (split_on CHR '':'' (hd (split_on CHR ''/'' clean)))))"

definition trackerDomain :: "eval_lib \<Rightarrow> string \<Rightarrow> string option" where
  "trackerDomain lib url =
     (if url = [] then None
      else let domain = ExtractDomainFromURL lib url in
        if domain = [] \<or> domain = unknownDomain then None else Some domain)"

definition collectTrackerDomains :: "eval_lib \<Rightarrow> torrent \<Rightarrow> string list" where
  "collectTrackerDomains lib t =
     (let domainSet = fold gs_add (List.map_filter (trackerDomain lib) (t_Tracker t # t_Trackers t)) [];
          domainSet = (if domainSet = [] \<and> t_Tracker t \<noteq> [] then
              (let domain = sanitizeTrackerHost (t_Tracker t) in if domain = [] then [] else [domain]) else domainSet)
      in sort domainSet)"

section \<open>Patterns for trackers\<close>

text \<open>\<open>strings.FieldsFunc\<close>: the non-empty pieces between separators.\<close>

definition tokens_of :: "string \<Rightarrow> string list" where
  "tokens_of pattern = filter (\<lambda>w. w \<noteq> [])
     (split_on CHR '','' (map (\<lambda>c. if c = CHR '';'' \<or> c = CHR ''|'' then CHR '','' else c) pattern))"

definition includeTokens :: "string list \<Rightarrow> string list" where
  "includeTokens tokens = filter (\<lambda>w. w \<noteq> [] \<and> \<not> has_prefix w ''!'') (map normalizeLowerTrim tokens)"

definition excludeTokens :: "string list \<Rightarrow> string list" where
  "excludeTokens tokens = filter (\<lambda>w. w \<noteq> [])
     (map (\<lambda>w. normalizeLowerTrim (drop 1 w)) (filter (\<lambda>w. has_prefix w ''!'') (map normalizeLowerTrim tokens)))"

definition matchesToken :: "eval_lib \<Rightarrow> string list \<Rightarrow> string \<Rightarrow> bool" where
  "matchesToken lib domains token =
     list_ex (\<lambda>domain. let d = normalizeLower domain in
       if CHR ''*'' \<in> set token \<or> CHR ''?'' \<in> set token then el_pathMatch lib token d = Some True
       else d = token \<or> has_prefix token ''.'' \<and> has_suffix d token) domains"

definition matchesTracker :: "eval_lib \<Rightarrow> string \<Rightarrow> string list \<Rightarrow> bool" where
  "matchesTracker lib pattern domains =
     (if pattern = ''*'' then True
      else if pattern = [] then False
      else
        let tokens = tokens_of pattern in
        if list_ex (matchesToken lib domains) (excludeTokens tokens) then False
        else if includeTokens tokens = [] then excludeTokens tokens \<noteq> []
        else list_ex (matchesToken lib domains) (includeTokens tokens))"

end
