(* ===== verification/Torrent_Grouping.thy ===== *)
theory Torrent_Grouping
  imports Torrent_Index Condition_Properties
begin

text \<open>
  The groups of torrents that GROUP_SIZE and IS_GROUPED refer to
  (\<open>src/internal/services/automations/grouping.go\<close>): which groups the conditions of a rule use, their
  definitions, the index of a group over all torrents, and the activation of a rule, which builds and
  caches the indices its conditions need. The caches are fields of the context, a missing entry is a
  map without the key.
\<close>

section \<open>Groups a rule uses\<close>

definition GroupCrossSeedContentPath :: string where "GroupCrossSeedContentPath = ''cross_seed_content_path''"
definition GroupCrossSeedContentSavePath :: string where "GroupCrossSeedContentSavePath = ''cross_seed_content_save_path''"
definition GroupReleaseItem :: string where "GroupReleaseItem = ''release_item''"
definition GroupTrackerReleaseItem :: string where "GroupTrackerReleaseItem = ''tracker_release_item''"
definition GroupHardlinkSignature :: string where "GroupHardlinkSignature = ''hardlink_signature''"

lemmas group_id_defs = GroupCrossSeedContentPath_def GroupCrossSeedContentSavePath_def GroupReleaseItem_def
  GroupTrackerReleaseItem_def GroupHardlinkSignature_def

definition groupAmbiguousVerifyOverlap :: string where "groupAmbiguousVerifyOverlap = ''verify_overlap''"

text \<open>\<open>sortingConfigConditionTrees\<close> and \<open>conditionTreesForRule\<close>.\<close>

definition sortingConfigConditionTrees :: "sorting_config option \<Rightarrow> rule_condition option list" where
  "sortingConfigConditionTrees config =
     (case config of None \<Rightarrow> []
      | Some c \<Rightarrow> if so_Type c \<noteq> SortingTypeScore then []
          else List.map_filter (\<lambda>r. map_option cs_Condition (sr_Conditional r)) (so_ScoreRules c))"

definition conditionTreesForRule :: "automation \<Rightarrow> rule_condition option list" where
  "conditionTreesForRule rule =
     sortingConfigConditionTrees (au_SortingConfig rule) @
     (case au_Conditions rule of None \<Rightarrow> []
      | Some ac \<Rightarrow>
          [whenEnabled sl_Enabled sl_Condition (ac_SpeedLimits ac), whenEnabled sh_Enabled sh_Condition (ac_ShareLimits ac),
           whenEnabled sa_Enabled sa_Condition (ac_Pause ac), whenEnabled sa_Enabled sa_Condition (ac_Resume ac),
           whenEnabled sa_Enabled sa_Condition (ac_Recheck ac), whenEnabled sa_Enabled sa_Condition (ac_Reannounce ac),
           whenEnabled del_Enabled del_Condition (ac_Delete ac), whenEnabled cat_Enabled cat_Condition (ac_Category ac),
           whenEnabled mv_Enabled mv_Condition (ac_Move ac), whenEnabled ep_Enabled ep_Condition (ac_ExternalProgram ac)]
          @ map (whenEnabled tag_Enabled tag_Condition) (TagActions (Some ac)))"

definition appendUniqueGroupID :: "string list \<Rightarrow> string \<Rightarrow> string list" where
  "appendUniqueGroupID groupIDs groupID =
     (let groupID = trim_space groupID in
      if groupID = [] then groupIDs
      else if list_ex (\<lambda>existing. equal_fold (trim_space existing) groupID) groupIDs then groupIDs
      else groupIDs @ [groupID])"

definition noteGroupUse :: "rule_condition \<Rightarrow> grouping_usage \<Rightarrow> grouping_usage" where
  "noteGroupUse cond usage =
     (if rc_Field cond = FieldGroupSize \<or> rc_Field cond = FieldIsGrouped then
        (let groupID = trim_space (rc_GroupID cond) in
         if groupID = [] then usage\<lparr>gu_hasUnscoped := True\<rparr>
         else usage\<lparr>gu_groupIDs := appendUniqueGroupID (gu_groupIDs usage) groupID\<rparr>)
      else usage)"

fun collectGroupingConditionUsage :: "rule_condition option \<Rightarrow> grouping_usage \<Rightarrow> grouping_usage"
  and collectGroupingUsages :: "rule_condition option list \<Rightarrow> grouping_usage \<Rightarrow> grouping_usage" where
  "collectGroupingConditionUsage None usage = usage"
| "collectGroupingConditionUsage (Some cond) usage = collectGroupingUsages (rc_Conditions cond) (noteGroupUse cond usage)"
| "collectGroupingUsages [] usage = usage"
| "collectGroupingUsages (c # cs) usage = collectGroupingUsages cs (collectGroupingConditionUsage c usage)"

definition computeGroupingUsage :: "automation \<Rightarrow> grouping_usage" where
  "computeGroupingUsage rule =
     fold collectGroupingConditionUsage (conditionTreesForRule rule) \<lparr>gu_groupIDs = [], gu_hasUnscoped = False\<rparr>"

definition getOrComputeGroupingConditionUsage :: "automation \<Rightarrow> eval_ctx \<Rightarrow> grouping_usage \<times> eval_ctx" where
  "getOrComputeGroupingConditionUsage rule c =
     (case gm_get (ctx_groupConditionUsageByRule c) (au_ID rule) of
        Some cached \<Rightarrow> (cached, c)
      | None \<Rightarrow>
          let usage = computeGroupingUsage rule in
          (usage, c\<lparr>ctx_groupConditionUsageByRule := gm_put (au_ID rule) usage (ctx_groupConditionUsageByRule c)\<rparr>))"

section \<open>Definitions of groups\<close>

definition findGroupDefinition :: "grouping_config \<Rightarrow> string \<Rightarrow> group_definition option" where
  "findGroupDefinition cfg i =
     (if i = [] then None else List.find (\<lambda>g. equal_fold (trim_space (gd_ID g)) i) (gc_Groups cfg))"

definition builtinGroupDefinition :: "string \<Rightarrow> group_definition option" where
  "builtinGroupDefinition i =
     (if i = GroupCrossSeedContentPath then
        Some \<lparr>gd_ID = i, gd_Keys = [''contentPath''], gd_AmbiguousPolicy = groupAmbiguousVerifyOverlap, gd_MinFileOverlapPercent = 90\<rparr>
      else if i = GroupCrossSeedContentSavePath then
        Some \<lparr>gd_ID = i, gd_Keys = [''contentPath'', ''savePath''], gd_AmbiguousPolicy = groupAmbiguousVerifyOverlap,
          gd_MinFileOverlapPercent = 90\<rparr>
      else if i = GroupReleaseItem then
        Some \<lparr>gd_ID = i, gd_Keys = [''contentType'', ''effectiveName''], gd_AmbiguousPolicy = [], gd_MinFileOverlapPercent = 0\<rparr>
      else if i = GroupTrackerReleaseItem then
        Some \<lparr>gd_ID = i, gd_Keys = [''tracker'', ''contentType'', ''effectiveName''], gd_AmbiguousPolicy = [],
          gd_MinFileOverlapPercent = 0\<rparr>
      else if i = GroupHardlinkSignature then
        Some \<lparr>gd_ID = i, gd_Keys = [''hardlinkSignature''], gd_AmbiguousPolicy = [], gd_MinFileOverlapPercent = 0\<rparr>
      else None)"

definition groupDefinitionFor :: "automation \<Rightarrow> string \<Rightarrow> group_definition option" where
  "groupDefinitionFor rule i =
     (case Option.bind (au_Conditions rule) ac_Grouping of
        None \<Rightarrow> builtinGroupDefinition i
      | Some cfg \<Rightarrow> (case findGroupDefinition cfg i of Some d \<Rightarrow> Some d | None \<Rightarrow> builtinGroupDefinition i))"

section \<open>Keys and indices\<close>

text \<open>
  One part of a key; \<open>None\<close> where the torrent has no value. The flag \<open>sm\<close> says whether there is a
  sync manager, which the domains of trackers need.
\<close>

definition nonEmpty :: "string \<Rightarrow> string option" where
  "nonEmpty v = (if v = [] then None else Some v)"

definition groupKeyPart :: "eval_lib \<Rightarrow> bool \<Rightarrow> eval_ctx option \<Rightarrow> torrent \<Rightarrow> string \<Rightarrow> string option" where
  "groupKeyPart lib sm ctx t k =
     (if k = ''contentPath'' then nonEmpty (normalizePath (t_ContentPath t))
      else if k = ''savePath'' then nonEmpty (normalizePath (t_SavePath t))
      else if k = ''effectiveName'' then map_option to_lower (nonEmpty (trim_space (torrentEffectiveName lib t ctx)))
      else if k = ''contentType'' then map_option to_lower (nonEmpty (trim_space (torrentContentType lib t ctx)))
      else if k = ''tracker'' then
        (if \<not> sm then None
         else (case collectTrackerDomains lib t of [] \<Rightarrow> None | d # _ \<Rightarrow> Some (to_lower d)))
      else if k = ''rlsSource'' then map_option to_lower (nonEmpty (trim_space (torrentRlsSource lib t ctx)))
      else if k = ''rlsResolution'' then map_option to_lower (nonEmpty (trim_space (torrentRlsResolution lib t ctx)))
      else if k = ''rlsCodec'' then map_option to_lower (nonEmpty (trim_space (torrentRlsCodec lib t ctx)))
      else if k = ''rlsHDR'' then map_option to_lower (nonEmpty (trim_space (torrentRlsHDR lib t ctx)))
      else if k = ''rlsAudio'' then map_option to_lower (nonEmpty (trim_space (torrentRlsAudio lib t ctx)))
      else if k = ''rlsChannels'' then map_option to_lower (nonEmpty (trim_space (torrentRlsChannels lib t ctx)))
      else if k = ''rlsGroup'' then map_option to_lower (nonEmpty (trim_space (torrentRlsGroup lib t ctx)))
      else if k = ''hardlinkSignature'' then
        (case Option.bind ctx ctx_HardlinkSignatureByHash of
           None \<Rightarrow> None
         | Some sigs \<Rightarrow> nonEmpty (trim_space (case gm_get sigs (t_Hash t) of None \<Rightarrow> [] | Some s \<Rightarrow> s)))
      else None)"

definition buildGroupKey :: "eval_lib \<Rightarrow> bool \<Rightarrow> eval_ctx option \<Rightarrow> string list \<Rightarrow> torrent \<Rightarrow> string option" where
  "buildGroupKey lib sm ctx keys t =
     (if keys = [] then None else map_option (join_with ''|'') (those (map (groupKeyPart lib sm ctx t) keys)))"

text \<open>The key a torrent is filed under: an empty one does not count.\<close>

definition groupKeyOf :: "eval_lib \<Rightarrow> bool \<Rightarrow> eval_ctx option \<Rightarrow> string list \<Rightarrow> torrent \<Rightarrow> string option" where
  "groupKeyOf lib sm ctx keys t = Option.bind (buildGroupKey lib sm ctx keys t) nonEmpty"

definition buildGroupIndex :: "eval_lib \<Rightarrow> bool \<Rightarrow> eval_ctx option \<Rightarrow> string \<Rightarrow> group_definition \<Rightarrow> torrent list \<Rightarrow> group_index" where
  "buildGroupIndex lib sm ctx groupID def torrents =
     (let keyOf = groupKeyOf lib sm ctx (gd_Keys def);
          keyByHash = fold (\<lambda>t m. case keyOf t of None \<Rightarrow> m | Some key \<Rightarrow> gm_put (t_Hash t) key m) torrents [];
          hashesByKey = map (\<lambda>(key, hashes). (key, sort hashes)) (group_by keyOf t_Hash torrents);
          ambiguousKeys = fold (\<lambda>t s. case keyOf t of None \<Rightarrow> s | Some key \<Rightarrow>
            if List.member (gd_Keys def) ''contentPath'' \<and> normalizePath (t_ContentPath t) = normalizePath (t_SavePath t)
            then gs_add key s else s) torrents [];
          sizeByHash = fold (\<lambda>(key, hashes) m. fold (\<lambda>h. gm_put h (length hashes)) hashes m) hashesByKey []
      in \<lparr>gi_groupID = groupID, gi_keyByHash = keyByHash, gi_hashesByKey = hashesByKey, gi_sizeByHash = sizeByHash,
          gi_ambiguousKeys = ambiguousKeys\<rparr>)"

section \<open>Activating a rule\<close>

definition ruleIndices :: "eval_ctx \<Rightarrow> int \<Rightarrow> (string, group_index) gomap" where
  "ruleIndices c ruleID = (case gm_get (ctx_groupIndexCache c) ruleID of None \<Rightarrow> [] | Some m \<Rightarrow> m)"

definition getOrBuildGroupIndexForRule ::
    "eval_lib \<Rightarrow> bool \<Rightarrow> automation \<Rightarrow> torrent list \<Rightarrow> string \<Rightarrow> eval_ctx \<Rightarrow> group_index option \<times> eval_ctx" where
  "getOrBuildGroupIndexForRule lib sm rule torrents groupID c =
     (if groupID = [] then (None, c)
      else
        let byRule = ruleIndices c (au_ID rule);
            c = c\<lparr>ctx_groupIndexCache := gm_put (au_ID rule) byRule (ctx_groupIndexCache c)\<rparr>
        in (case gm_get byRule groupID of
              Some cached \<Rightarrow> (Some cached, c)
            | None \<Rightarrow> (case groupDefinitionFor rule groupID of
                None \<Rightarrow> (None, c)
              | Some d \<Rightarrow>
                  let idx = buildGroupIndex lib sm (Some c) groupID d torrents in
                  (Some idx, c\<lparr>ctx_groupIndexCache :=
                     gm_put (au_ID rule) (gm_put groupID idx byRule) (ctx_groupIndexCache c)\<rparr>))))"

definition defaultGroupIDFor :: "action_conditions \<Rightarrow> grouping_usage \<Rightarrow> string" where
  "defaultGroupIDFor ac usage =
     (let defaultGroupID = (case ac_Grouping ac of None \<Rightarrow> [] | Some g \<Rightarrow> trim_space (gc_DefaultGroupID g)) in
      if defaultGroupID = [] \<and> gu_hasUnscoped usage then GroupCrossSeedContentSavePath else defaultGroupID)"

definition activateRuleGrouping :: "eval_lib \<Rightarrow> bool \<Rightarrow> automation \<Rightarrow> torrent list \<Rightarrow> eval_ctx \<Rightarrow> eval_ctx" where
  "activateRuleGrouping lib sm rule torrents c =
     (let c = c\<lparr>ctx_ActiveRuleID := 0, ctx_activeGroupIndex := None\<rparr> in
      case au_Conditions rule of
        None \<Rightarrow> c
      | Some ac \<Rightarrow>
          let c = c\<lparr>ctx_ActiveRuleID := au_ID rule\<rparr>;
              (usage, c) = getOrComputeGroupingConditionUsage rule c;
              defaultGroupID = defaultGroupIDFor ac usage;
              groupIDs = (if defaultGroupID \<noteq> [] then appendUniqueGroupID (gu_groupIDs usage) defaultGroupID else gu_groupIDs usage);
              c = fold (\<lambda>groupID c. snd (getOrBuildGroupIndexForRule lib sm rule torrents groupID c)) groupIDs c
          in if defaultGroupID \<noteq> []
             then c\<lparr>ctx_activeGroupIndex := lookupGroupIndexForRule (Some c) (au_ID rule) defaultGroupID\<rparr> else c)"

end
