(* ===== verification/Grouping_Properties.thy ===== *)
theory Grouping_Properties
  imports Torrent_Grouping
begin

text \<open>
  Properties of groups: an index partitions the torrents by their key, activating a rule makes every
  group its conditions use available, and a gap the code has there.
\<close>

section \<open>An index partitions the torrents\<close>

lemma groupKeyOf_ne: "groupKeyOf lib sm ctx keys t = Some k \<Longrightarrow> k \<noteq> []"
  by (auto simp: groupKeyOf_def nonEmpty_def bind_eq_Some_conv split: if_splits)

lemma inj_hash: "distinct (map t_Hash ts) \<Longrightarrow> t \<in> set ts \<Longrightarrow> u \<in> set ts \<Longrightarrow> t_Hash t = t_Hash u \<longleftrightarrow> t = u"
  by (auto simp: distinct_map dest: inj_onD)

lemma gm_get_keys:
  "distinct (map t_Hash ts) \<Longrightarrow> t \<in> set ts \<Longrightarrow>
     gm_get (fold (\<lambda>t m. case f t of None \<Rightarrow> m | Some key \<Rightarrow> gm_put (t_Hash t) key m) ts m) (t_Hash t)
     = (case f t of None \<Rightarrow> gm_get m (t_Hash t) | Some key \<Rightarrow> Some key)"
proof (induction ts rule: rev_induct)
  case (snoc u ts)
  show ?case
  proof (cases "t \<in> set ts")
    case True
    with snoc.prems have "t_Hash u \<noteq> t_Hash t"
      by auto
    with snoc True show ?thesis
      by (auto split: option.split)
  next
    case False
    with snoc.prems have u: "u = t" "t_Hash t \<notin> t_Hash ` set ts"
      by auto
    have "gm_get (fold (\<lambda>t m. case f t of None \<Rightarrow> m | Some key \<Rightarrow> gm_put (t_Hash t) key m) xs m) h = gm_get m h"
      if "h \<notin> t_Hash ` set xs" for xs h m
      using that by (induction xs arbitrary: m) (auto split: option.split)
    with u show ?thesis
      by (auto split: option.split)
  qed
qed simp

lemma gm_get_sizes:
  fixes h :: 'k
  assumes "\<And>k hs. (k, hs) \<in> set entries \<Longrightarrow> h \<in> set hs \<Longrightarrow> length hs = n"
  shows "gm_get (fold (\<lambda>(key, hashes) m. fold (\<lambda>h. gm_put h (length hashes)) hashes m) entries m) h
    = (if \<exists>(k, hs) \<in> set entries. h \<in> set hs then Some n else gm_get m h)"
  using assms
proof (induction entries arbitrary: m)
  case (Cons e entries)
  obtain k hs where e: "e = (k, hs)"
    by fastforce
  have one: "gm_get (fold (\<lambda>h. gm_put h v) xs m) h = (if h \<in> set xs then Some v else gm_get m h)" for xs :: "'k list" and v :: nat and m
    by (induction xs arbitrary: m) auto
  have IH: "gm_get (fold (\<lambda>(key, hashes) m. fold (\<lambda>h. gm_put h (length hashes)) hashes m) entries m') h
      = (if \<exists>(k, hs) \<in> set entries. h \<in> set hs then Some n else gm_get m' h)" for m'
    using Cons.prems by (intro Cons.IH) auto
  from Cons.prems [of k hs] show ?case
    by (auto simp: e IH one)
qed simp

lemma ambiguous_set:
  "set (fold (\<lambda>t s. case f t of None \<Rightarrow> s | Some key \<Rightarrow> if P t then gs_add key s else s) ts s)
     = set s \<union> {k. \<exists>t \<in> set ts. f t = Some k \<and> P t}"
  by (induction ts arbitrary: s) (auto split: option.splits)

text \<open>
  C28. A group index partitions the torrents: torrents are in one group exactly if they have the same
  non-empty key, the members are listed by hash in order, the size is their number, a torrent without
  a key has size 0, and a group over content paths is ambiguous exactly if one of its torrents has
  its content directly in its save path.
\<close>

theorem buildGroupIndex_partition:
  assumes "distinct (map t_Hash ts)" "t \<in> set ts"
  shows "MembersForHash (Some (buildGroupIndex lib sm ctx i d ts)) (t_Hash t) =
      sort (map t_Hash (filter (\<lambda>u. groupKeyOf lib sm ctx (gd_Keys d) t \<noteq> None
         \<and> groupKeyOf lib sm ctx (gd_Keys d) u = groupKeyOf lib sm ctx (gd_Keys d) t) ts))
    \<and> SizeForHash (Some (buildGroupIndex lib sm ctx i d ts)) (t_Hash t)
      = length (MembersForHash (Some (buildGroupIndex lib sm ctx i d ts)) (t_Hash t))
    \<and> (IsAmbiguousForHash (Some (buildGroupIndex lib sm ctx i d ts)) (t_Hash t) \<longleftrightarrow>
        ''contentPath'' \<in> set (gd_Keys d) \<and> groupKeyOf lib sm ctx (gd_Keys d) t \<noteq> None
      \<and> (\<exists>u \<in> set ts. groupKeyOf lib sm ctx (gd_Keys d) u = groupKeyOf lib sm ctx (gd_Keys d) t \<and> isContentPathAmbiguous u))"
proof -
  define f where "f = groupKeyOf lib sm ctx (gd_Keys d)"
  define idx where "idx = buildGroupIndex lib sm ctx i d ts"
  define entries where "entries = map (\<lambda>(key, hashes). (key, sort hashes)) (group_by f t_Hash ts)"
  have ne: "f t = Some k \<Longrightarrow> k \<noteq> []" for k t
    unfolding f_def by (rule groupKeyOf_ne)
  have entry: "gm_get entries k = (if \<exists>x \<in> set ts. f x = Some k then Some (sort (map t_Hash (filter (\<lambda>x. f x = Some k) ts))) else None)" for k
    using gm_get_group_by [of f t_Hash ts k] by (simp add: entries_def gm_get_def map_of_map split: if_splits)
  have ok: "gm_ok entries"
    using gm_ok_group_by [of f t_Hash ts] by (simp add: entries_def gm_ok_def o_def split_def)
  have in_entry: "(k, hs) \<in> set entries \<Longrightarrow> t_Hash t \<in> set hs \<Longrightarrow> f t = Some k \<and> hs = sort (map t_Hash (filter (\<lambda>x. f x = Some k) ts))" for k hs
    using inj_hash [OF assms(1,2), symmetric] by (fastforce simp: gm_get_iff [OF ok, symmetric] entry split: if_splits)
  have key: "KeyForHash (Some idx) (t_Hash t) = (case f t of None \<Rightarrow> [] | Some k \<Rightarrow> k)"
    using gm_get_keys [OF assms, of f "[]"] by (simp add: KeyForHash_def idx_def buildGroupIndex_def f_def Let_def split: option.split)
  have byKey: "gi_hashesByKey idx = entries"
    by (simp add: idx_def buildGroupIndex_def f_def entries_def Let_def)
  have members: "MembersForHash (Some idx) (t_Hash t) = (case f t of None \<Rightarrow> [] | Some k \<Rightarrow> sort (map t_Hash (filter (\<lambda>x. f x = Some k) ts)))"
    using assms(2) ne [of t] by (auto simp: MembersForHash_def key Let_def byKey entry split: option.splits)
  have "gi_sizeByHash idx = fold (\<lambda>(key, hashes) m. fold (\<lambda>h. gm_put h (length hashes)) hashes m) entries []"
    by (simp add: idx_def buildGroupIndex_def f_def entries_def Let_def)
  moreover have "length hs = length (MembersForHash (Some idx) (t_Hash t))" if "(k, hs) \<in> set entries" "t_Hash t \<in> set hs" for k hs
    using in_entry [OF that] members by simp
  moreover have "(\<exists>(k, hs) \<in> set entries. t_Hash t \<in> set hs) \<longleftrightarrow> f t \<noteq> None"
  proof
    assume "f t \<noteq> None"
    then obtain k where k: "f t = Some k"
      by blast
    with assms(2) entry [of k] have "(k, sort (map t_Hash (filter (\<lambda>x. f x = Some k) ts))) \<in> set entries"
      by (auto simp: gm_get_iff [OF ok, symmetric])
    with assms(2) k show "\<exists>(k, hs) \<in> set entries. t_Hash t \<in> set hs"
      by (intro bexI) auto
  qed (use in_entry in blast)
  ultimately have "SizeForHash (Some idx) (t_Hash t) = length (MembersForHash (Some idx) (t_Hash t))"
    by (subst SizeForHash_def) (auto simp: gm_get_sizes members)
  moreover have "set (gi_ambiguousKeys idx) = {k. \<exists>u \<in> set ts. f u = Some k \<and> ''contentPath'' \<in> set (gd_Keys d) \<and> isContentPathAmbiguous u}"
    unfolding idx_def buildGroupIndex_def Let_def f_def [symmetric] group_index.simps ambiguous_set by (auto simp: isContentPathAmbiguous_def)
  then have "IsAmbiguousForHash (Some idx) (t_Hash t) \<longleftrightarrow> ''contentPath'' \<in> set (gd_Keys d) \<and> f t \<noteq> None
      \<and> (\<exists>u \<in> set ts. f u = f t \<and> isContentPathAmbiguous u)"
    using ne [of t] by (auto simp: IsAmbiguousForHash_def key Let_def split: option.splits)
  moreover have "MembersForHash (Some idx) (t_Hash t) = sort (map t_Hash (filter (\<lambda>u. f t \<noteq> None \<and> f u = f t) ts))"
    using members by (auto split: option.splits)
  ultimately show ?thesis
    unfolding f_def idx_def by blast
qed

definition demo_member :: "string \<Rightarrow> torrent" where
  "demo_member hash = (sample_torrent hash ''Show'' ''tv'')\<lparr>t_ContentPath := ''/d/Show'', t_SavePath := ''/d/''\<rparr>"

theorem buildGroupIndex_partition_witness:
  "MembersForHash (Some (buildGroupIndex demo_lib True None ''g''
      \<lparr>gd_ID = ''g'', gd_Keys = [''contentPath''], gd_AmbiguousPolicy = [], gd_MinFileOverlapPercent = 0\<rparr>
      [demo_member ''b'', demo_member ''a'', (demo_member ''c'')\<lparr>t_ContentPath := []\<rparr>])) ''b'' = [''a'', ''b'']"
proof -
  have hash: "t_Hash (demo_member h) = h" for h
    by (simp add: demo_member_def sample_torrent_def)
  have "distinct (map t_Hash [demo_member ''b'', demo_member ''a'', (demo_member ''c'')\<lparr>t_ContentPath := []\<rparr>])"
    by (simp add: hash)
  moreover have "groupKeyOf demo_lib True None [''contentPath''] (demo_member ''b'') = Some ''/d/show''"
    "groupKeyOf demo_lib True None [''contentPath''] (demo_member ''a'') = Some ''/d/show''"
    "groupKeyOf demo_lib True None [''contentPath''] ((demo_member ''c'')\<lparr>t_ContentPath := []\<rparr>) = None"
    by code_simp+
  moreover have "sort [''b'', ''a''] = [''a'', ''b'']"
    by code_simp
  ultimately show ?thesis
    using buildGroupIndex_partition [of "[demo_member ''b'', demo_member ''a'', (demo_member ''c'')\<lparr>t_ContentPath := []\<rparr>]" "demo_member ''b''"
        demo_lib True None "''g''" "\<lparr>gd_ID = ''g'', gd_Keys = [''contentPath''], gd_AmbiguousPolicy = [], gd_MinFileOverlapPercent = 0\<rparr>"]
    by (simp add: hash)
qed

section \<open>Activation\<close>

text \<open>All nodes of condition trees, and those that refer to a group.\<close>

fun nodes :: "rule_condition option \<Rightarrow> rule_condition list" and nodess :: "rule_condition option list \<Rightarrow> rule_condition list" where
  "nodes None = []"
| "nodes (Some c) = c # nodess (rc_Conditions c)"
| "nodess [] = []"
| "nodess (c # cs) = nodes c @ nodess cs"

definition groupNodes :: "rule_condition option list \<Rightarrow> rule_condition list" where
  "groupNodes trees = filter (\<lambda>c. rc_Field c = FieldGroupSize \<or> rc_Field c = FieldIsGrouped) (nodess trees)"

lemma collect_nodes:
  "collectGroupingConditionUsage c u = fold noteGroupUse (nodes c) u"
  "collectGroupingUsages cs u = fold noteGroupUse (nodess cs) u"
  by (induction c u and cs u rule: collectGroupingConditionUsage_collectGroupingUsages.induct) auto

lemma computeGroupingUsage_nodes:
  "computeGroupingUsage rule = fold noteGroupUse (groupNodes (conditionTreesForRule rule)) \<lparr>gu_groupIDs = [], gu_hasUnscoped = False\<rparr>"
proof -
  have "fold collectGroupingConditionUsage cs u = fold noteGroupUse (nodess cs) u" for cs u
    by (induction cs arbitrary: u) (simp_all add: collect_nodes)
  moreover have "fold noteGroupUse (filter (\<lambda>c. rc_Field c = FieldGroupSize \<or> rc_Field c = FieldIsGrouped) ns) u = fold noteGroupUse ns u" for ns u
    by (induction ns arbitrary: u) (auto simp: noteGroupUse_def)
  ultimately show ?thesis
    by (simp add: computeGroupingUsage_def groupNodes_def)
qed

lemma appendUnique_props:
  assumes "\<forall>g \<in> set gs. trim_space g = g \<and> g \<noteq> []"
  shows "\<forall>g \<in> set (appendUniqueGroupID gs i). trim_space g = g \<and> g \<noteq> []"
    and "set gs \<subseteq> set (appendUniqueGroupID gs i)"
    and "set (appendUniqueGroupID gs i) \<subseteq> insert (trim_space i) (set gs)"
    and "trim_space i \<noteq> [] \<Longrightarrow> \<exists>g \<in> set (appendUniqueGroupID gs i). equal_fold g (trim_space i)"
proof -
  show "\<exists>g \<in> set (appendUniqueGroupID gs i). equal_fold g (trim_space i)" if "trim_space i \<noteq> []"
  proof (cases "list_ex (\<lambda>g. equal_fold (trim_space g) (trim_space i)) gs")
    case True
    then obtain g where "g \<in> set gs" "equal_fold (trim_space g) (trim_space i)"
      by (auto simp: list_ex_iff)
    with assms True that show ?thesis
      by (auto simp: appendUniqueGroupID_def Let_def)
  next
    case False
    with that show ?thesis
      by (simp add: appendUniqueGroupID_def Let_def)
  qed
qed (use assms in \<open>auto simp: appendUniqueGroupID_def Let_def\<close>)

lemma usage_props:
  assumes "\<forall>n \<in> set ns. rc_Field n = FieldGroupSize \<or> rc_Field n = FieldIsGrouped"
  defines "u \<equiv> fold noteGroupUse ns \<lparr>gu_groupIDs = [], gu_hasUnscoped = False\<rparr>"
  shows "gu_hasUnscoped u \<longleftrightarrow> (\<exists>n \<in> set ns. trim_space (rc_GroupID n) = [])"
    and "\<forall>g \<in> set (gu_groupIDs u). trim_space g = g \<and> g \<noteq> [] \<and> (\<exists>n \<in> set ns. g = trim_space (rc_GroupID n))"
    and "\<forall>n \<in> set ns. trim_space (rc_GroupID n) \<noteq> [] \<longrightarrow> (\<exists>g \<in> set (gu_groupIDs u). equal_fold g (trim_space (rc_GroupID n)))"
proof -
  have "(gu_hasUnscoped u \<longleftrightarrow> (\<exists>n \<in> set ns. trim_space (rc_GroupID n) = []))
    \<and> (\<forall>g \<in> set (gu_groupIDs u). trim_space g = g \<and> g \<noteq> [] \<and> (\<exists>n \<in> set ns. g = trim_space (rc_GroupID n)))
    \<and> (\<forall>n \<in> set ns. trim_space (rc_GroupID n) \<noteq> [] \<longrightarrow> (\<exists>g \<in> set (gu_groupIDs u). equal_fold g (trim_space (rc_GroupID n))))"
    using assms(1) unfolding u_def
  proof (induction ns rule: rev_induct)
    case (snoc n ns)
    define v where "v = fold noteGroupUse ns \<lparr>gu_groupIDs = [], gu_hasUnscoped = False\<rparr>"
    from snoc have IH: "gu_hasUnscoped v \<longleftrightarrow> (\<exists>n \<in> set ns. trim_space (rc_GroupID n) = [])"
      "\<forall>g \<in> set (gu_groupIDs v). trim_space g = g \<and> g \<noteq> [] \<and> (\<exists>n \<in> set ns. g = trim_space (rc_GroupID n))"
      "\<forall>n \<in> set ns. trim_space (rc_GroupID n) \<noteq> [] \<longrightarrow> (\<exists>g \<in> set (gu_groupIDs v). equal_fold g (trim_space (rc_GroupID n)))"
      by (auto simp: v_def)
    have step: "fold noteGroupUse (ns @ [n]) \<lparr>gu_groupIDs = [], gu_hasUnscoped = False\<rparr> = noteGroupUse n v"
      by (simp add: v_def)
    have field: "rc_Field n = FieldGroupSize \<or> rc_Field n = FieldIsGrouped"
      using snoc.prems by simp
    show ?case
    proof (cases "trim_space (rc_GroupID n) = []")
      case True
      with field IH show ?thesis
        unfolding step by (auto simp: noteGroupUse_def)
    next
      case False
      have ids: "\<forall>g \<in> set (gu_groupIDs v). trim_space g = g \<and> g \<noteq> []"
        using IH(2) by blast
      note add = appendUnique_props [OF ids, of "trim_space (rc_GroupID n)", unfolded trim_space_idem]
      have "noteGroupUse n v = v\<lparr>gu_groupIDs := appendUniqueGroupID (gu_groupIDs v) (trim_space (rc_GroupID n))\<rparr>"
        using field False by (auto simp: noteGroupUse_def Let_def)
      then have new: "gu_hasUnscoped (noteGroupUse n v) = gu_hasUnscoped v"
        "gu_groupIDs (noteGroupUse n v) = appendUniqueGroupID (gu_groupIDs v) (trim_space (rc_GroupID n))"
        by simp_all
      have "gu_hasUnscoped v \<longleftrightarrow> (\<exists>n' \<in> set (ns @ [n]). trim_space (rc_GroupID n') = [])"
        using IH(1) False by simp
      moreover have "\<exists>n' \<in> set (ns @ [n]). g = trim_space (rc_GroupID n')"
        if "g \<in> set (appendUniqueGroupID (gu_groupIDs v) (trim_space (rc_GroupID n)))" for g
        using that add(3) IH(2) by auto
      moreover have "\<exists>g \<in> set (appendUniqueGroupID (gu_groupIDs v) (trim_space (rc_GroupID n))). equal_fold g (trim_space (rc_GroupID n'))"
        if "n' \<in> set (ns @ [n])" "trim_space (rc_GroupID n') \<noteq> []" for n'
      proof (cases "n' = n")
        case False
        with that IH(3) obtain g where "g \<in> set (gu_groupIDs v)" "equal_fold g (trim_space (rc_GroupID n'))"
          by auto
        with add(2) show ?thesis
          by blast
      qed (use add(4) [OF False] in simp)
      ultimately show ?thesis
        unfolding step new using add(1) by blast
    qed
  qed simp
  then show "gu_hasUnscoped u \<longleftrightarrow> (\<exists>n \<in> set ns. trim_space (rc_GroupID n) = [])"
    and "\<forall>g \<in> set (gu_groupIDs u). trim_space g = g \<and> g \<noteq> [] \<and> (\<exists>n \<in> set ns. g = trim_space (rc_GroupID n))"
    and "\<forall>n \<in> set ns. trim_space (rc_GroupID n) \<noteq> [] \<longrightarrow> (\<exists>g \<in> set (gu_groupIDs u). equal_fold g (trim_space (rc_GroupID n)))"
    by blast+
qed

text \<open>What the cache of a rule holds: an index for each id, built from its definition.\<close>

definition goodIndex :: "eval_lib \<Rightarrow> bool \<Rightarrow> automation \<Rightarrow> torrent list \<Rightarrow> eval_ctx \<Rightarrow> string \<Rightarrow> group_index \<Rightarrow> bool" where
  "goodIndex lib sm rule ts c i idx \<longleftrightarrow>
     trim_space i = i \<and> (\<exists>d. groupDefinitionFor rule i = Some d \<and> idx = buildGroupIndex lib sm (Some c) i d ts)"

lemma groupKeyPart_cong:
  assumes "ctx_hasReleaseParser c = ctx_hasReleaseParser c0" "ctx_HardlinkSignatureByHash c = ctx_HardlinkSignatureByHash c0"
  shows "groupKeyPart lib sm (Some c) = groupKeyPart lib sm (Some c0)"
proof -
  have "parsedTorrentRelease lib t (Some c) = parsedTorrentRelease lib t (Some c0)" for t
    using assms(1) by (simp add: parsedTorrentRelease_def)
  then show ?thesis
    using assms(2) by (intro ext) (simp add: groupKeyPart_def torrentContentType_def torrentEffectiveName_def torrentRlsSource_def
      torrentRlsResolution_def torrentRlsCodec_def torrentRlsHDR_def torrentRlsAudio_def torrentRlsChannels_def torrentRlsGroup_def)
qed

lemma buildGroupIndex_cong:
  assumes "ctx_hasReleaseParser c = ctx_hasReleaseParser c0" "ctx_HardlinkSignatureByHash c = ctx_HardlinkSignatureByHash c0"
  shows "buildGroupIndex lib sm (Some c) = buildGroupIndex lib sm (Some c0)"
proof -
  have "groupKeyOf lib sm (Some c) = groupKeyOf lib sm (Some c0)"
    using groupKeyPart_cong [OF assms] by (intro ext) (simp add: groupKeyOf_def buildGroupKey_def)
  then show ?thesis
    by (intro ext) (simp add: buildGroupIndex_def)
qed

definition cacheInv :: "eval_lib \<Rightarrow> bool \<Rightarrow> automation \<Rightarrow> torrent list \<Rightarrow> eval_ctx \<Rightarrow> eval_ctx \<Rightarrow> bool" where
  "cacheInv lib sm rule ts c0 c \<longleftrightarrow>
     ctx_hasReleaseParser c = ctx_hasReleaseParser c0 \<and> ctx_HardlinkSignatureByHash c = ctx_HardlinkSignatureByHash c0
   \<and> ctx_ActiveRuleID c = au_ID rule \<and> gm_ok (ruleIndices c (au_ID rule))
   \<and> (\<forall>i idx. gm_get (ruleIndices c (au_ID rule)) i = Some idx \<longrightarrow> goodIndex lib sm rule ts c0 i idx)"

lemma build_step:
  assumes "cacheInv lib sm rule ts c0 c" "trim_space g = g" "g \<noteq> []"
  defines "c' \<equiv> snd (getOrBuildGroupIndexForRule lib sm rule ts g c)"
  shows "cacheInv lib sm rule ts c0 c'"
    and "gm_get (ruleIndices c (au_ID rule)) j \<noteq> None \<Longrightarrow> gm_get (ruleIndices c' (au_ID rule)) j \<noteq> None"
    and "groupDefinitionFor rule g \<noteq> None \<Longrightarrow> gm_get (ruleIndices c' (au_ID rule)) g \<noteq> None"
proof -
  have build: "buildGroupIndex lib sm (Some (c\<lparr>ctx_groupIndexCache := m\<rparr>)) = buildGroupIndex lib sm (Some c0)" for m
    using assms(1) by (intro buildGroupIndex_cong) (simp_all add: cacheInv_def)
  show "cacheInv lib sm rule ts c0 c'"
    using assms(1-3) unfolding c'_def getOrBuildGroupIndexForRule_def Let_def build
    by (auto simp: cacheInv_def ruleIndices_def goodIndex_def split: option.splits)
  show "gm_get (ruleIndices c (au_ID rule)) j \<noteq> None \<Longrightarrow> gm_get (ruleIndices c' (au_ID rule)) j \<noteq> None"
    using assms(3) unfolding c'_def getOrBuildGroupIndexForRule_def Let_def by (auto simp: ruleIndices_def split: option.splits)
  show "groupDefinitionFor rule g \<noteq> None \<Longrightarrow> gm_get (ruleIndices c' (au_ID rule)) g \<noteq> None"
    using assms(3) unfolding c'_def getOrBuildGroupIndexForRule_def Let_def by (auto simp: ruleIndices_def split: option.splits)
qed

lemma build_fold:
  assumes "cacheInv lib sm rule ts c0 c" "\<forall>g \<in> set gs. trim_space g = g \<and> g \<noteq> []"
  defines "c' \<equiv> fold (\<lambda>g c. snd (getOrBuildGroupIndexForRule lib sm rule ts g c)) gs c"
  shows "cacheInv lib sm rule ts c0 c'"
    and "\<forall>g \<in> set gs. groupDefinitionFor rule g \<noteq> None \<longrightarrow> gm_get (ruleIndices c' (au_ID rule)) g \<noteq> None"
proof -
  have "cacheInv lib sm rule ts c0 c'
    \<and> (\<forall>j. gm_get (ruleIndices c (au_ID rule)) j \<noteq> None \<longrightarrow> gm_get (ruleIndices c' (au_ID rule)) j \<noteq> None)
    \<and> (\<forall>g \<in> set gs. groupDefinitionFor rule g \<noteq> None \<longrightarrow> gm_get (ruleIndices c' (au_ID rule)) g \<noteq> None)"
    using assms(1,2) unfolding c'_def
  proof (induction gs arbitrary: c)
    case (Cons g gs)
    define d where "d = snd (getOrBuildGroupIndexForRule lib sm rule ts g c)"
    from Cons.prems have g: "trim_space g = g" "g \<noteq> []"
      by simp_all
    note step = build_step [OF Cons.prems(1) g, folded d_def]
    have "fold (\<lambda>g c. snd (getOrBuildGroupIndexForRule lib sm rule ts g c)) (g # gs) c
        = fold (\<lambda>g c. snd (getOrBuildGroupIndexForRule lib sm rule ts g c)) gs d"
      by (simp add: d_def)
    with Cons.IH [OF step(1)] Cons.prems(2) step(2,3) show ?case
      by (metis list.set_intros(2) set_ConsD)
  qed simp
  then show "cacheInv lib sm rule ts c0 c'"
    and "\<forall>g \<in> set gs. groupDefinitionFor rule g \<noteq> None \<longrightarrow> gm_get (ruleIndices c' (au_ID rule)) g \<noteq> None"
    by blast+
qed

lemma lookup_good:
  assumes "cacheInv lib sm rule ts c0 c" "gm_get (ruleIndices c (au_ID rule)) g \<noteq> None" "equal_fold g i" "trim_space i = i" "i \<noteq> []"
  shows "\<exists>idx j. lookupGroupIndexForRule (Some c) (au_ID rule) i = Some idx \<and> equal_fold j i \<and> goodIndex lib sm rule ts c0 j idx"
proof -
  obtain byRule where byRule: "gm_get (ctx_groupIndexCache c) (au_ID rule) = Some byRule" "ruleIndices c (au_ID rule) = byRule"
    using assms(2) by (auto simp: ruleIndices_def split: option.splits)
  have good: "goodIndex lib sm rule ts c0 j idx" if "gm_get byRule j = Some idx" for j idx
    using assms(1) that byRule(2) by (simp add: cacheInv_def)
  have ok: "gm_ok byRule"
    using assms(1) byRule(2) by (simp add: cacheInv_def)
  show ?thesis
  proof (cases "gm_get byRule i")
    case (Some idx)
    then show ?thesis
      using assms(4,5) byRule(1) good [OF Some] by (auto simp: lookupGroupIndexForRule_def Let_def intro!: exI [of _ i])
  next
    case None
    define P where "P = (\<lambda>(j, idx :: group_index). equal_fold (trim_space j) i)"
    obtain idx where g: "(g, idx) \<in> set byRule" "trim_space g = g"
      using assms(2) good byRule(2) by (auto simp: gm_get_iff [OF ok, symmetric] goodIndex_def)
    then have "List.find P byRule \<noteq> None"
      using assms(3) by (auto simp: find_None_iff P_def)
    then obtain j idx where find: "List.find P byRule = Some (j, idx)"
      by auto
    then have "(j, idx) \<in> set byRule" "equal_fold (trim_space j) i"
      by (auto simp: find_Some_iff P_def dest: nth_mem)
    then show ?thesis
      using assms(4,5) byRule(1) good [of j idx] None find
      by (auto simp: lookupGroupIndexForRule_def Let_def P_def gm_get_iff [OF ok, symmetric] goodIndex_def)
  qed
qed

text \<open>The group a condition refers to: the named one, or the default of the rule.\<close>

definition groupIDOf :: "automation \<Rightarrow> rule_condition \<Rightarrow> string" where
  "groupIDOf rule n =
     (if trim_space (rc_GroupID n) \<noteq> [] then trim_space (rc_GroupID n)
      else (case Option.bind (au_Conditions rule) ac_Grouping of
          None \<Rightarrow> GroupCrossSeedContentSavePath
        | Some g \<Rightarrow> if trim_space (gc_DefaultGroupID g) = [] then GroupCrossSeedContentSavePath else trim_space (gc_DefaultGroupID g)))"

lemma trim_default: "trim_space GroupCrossSeedContentSavePath = GroupCrossSeedContentSavePath"
  by code_simp

lemma groupIDOf_ok: "trim_space (groupIDOf rule n) = groupIDOf rule n \<and> groupIDOf rule n \<noteq> []"
  using trim_default by (simp add: groupIDOf_def group_id_defs split: option.split)

text \<open>
  C29. Activating a rule makes its groups available: at the first activation of a rule, every GROUP_SIZE
  or IS_GROUPED condition in the trees the code looks at gets an index over all torrents, built from
  the definition of a group with the id of the condition up to case, or of the default group where it
  names none, as long as these groups have definitions.
\<close>

theorem activateRuleGrouping_available:
  assumes "au_Conditions rule = Some ac" "gm_get (ctx_groupConditionUsageByRule c) (au_ID rule) = None"
    "gm_get (ctx_groupIndexCache c) (au_ID rule) = None"
    "\<forall>m \<in> set (groupNodes (conditionTreesForRule rule)). groupDefinitionFor rule (groupIDOf rule m) \<noteq> None"
    "n \<in> set (groupNodes (conditionTreesForRule rule))"
  shows "\<exists>j d. equal_fold j (groupIDOf rule n) \<and> groupDefinitionFor rule j = Some d
    \<and> resolveConditionGroupIndex n (Some (activateRuleGrouping lib sm rule ts c)) = Some (buildGroupIndex lib sm (Some c) j d ts)"
proof -
  let ?ns = "groupNodes (conditionTreesForRule rule)"
  define u where "u = computeGroupingUsage rule"
  have fields: "\<forall>n \<in> set ?ns. rc_Field n = FieldGroupSize \<or> rc_Field n = FieldIsGrouped"
    by (simp add: groupNodes_def)
  note usage = usage_props [OF fields, folded computeGroupingUsage_nodes, folded u_def]
  define dflt where "dflt = defaultGroupIDFor ac u"
  have dflt: "trim_space dflt = dflt"
    using trim_default by (simp add: dflt_def defaultGroupIDFor_def Let_def split: option.split)
  define gs where "gs = (if dflt \<noteq> [] then appendUniqueGroupID (gu_groupIDs u) dflt else gu_groupIDs u)"
  have ids: "\<forall>g \<in> set (gu_groupIDs u). trim_space g = g \<and> g \<noteq> []"
    using usage(2) by blast
  note add = appendUnique_props [OF ids, of dflt, unfolded dflt]
  have gs: "\<forall>g \<in> set gs. trim_space g = g \<and> g \<noteq> []" "set (gu_groupIDs u) \<subseteq> set gs"
    using add(1,2) ids by (auto simp: gs_def)
  define c1 where "c1 = c\<lparr>ctx_activeGroupIndex := None, ctx_ActiveRuleID := au_ID rule,
      ctx_groupConditionUsageByRule := gm_put (au_ID rule) u (ctx_groupConditionUsageByRule c)\<rparr>"
  define c2 where "c2 = fold (\<lambda>g c. snd (getOrBuildGroupIndexForRule lib sm rule ts g c)) gs c1"
  have act: "activateRuleGrouping lib sm rule ts c =
      (if dflt \<noteq> [] then c2\<lparr>ctx_activeGroupIndex := lookupGroupIndexForRule (Some c2) (au_ID rule) dflt\<rparr> else c2)"
    using assms(1,2) by (simp add: activateRuleGrouping_def Let_def getOrComputeGroupingConditionUsage_def c2_def c1_def gs_def dflt_def u_def)
  have "cacheInv lib sm rule ts c c1"
    using assms(3) by (simp add: cacheInv_def c1_def ruleIndices_def)
  note built = build_fold [OF this gs(1), folded c2_def]
  have active: "ctx_ActiveRuleID c2 = au_ID rule"
    using built(1) by (simp add: cacheInv_def)
  have named: "groupDefinitionFor rule g \<noteq> None" if "g \<in> set (gu_groupIDs u)" for g
  proof -
    from that usage(2) obtain m where "m \<in> set ?ns" "g = trim_space (rc_GroupID m)" "g \<noteq> []"
      by blast
    with assms(4) show ?thesis
      by (auto simp: groupIDOf_def)
  qed
  have "\<exists>g \<in> set gs. equal_fold g (groupIDOf rule n) \<and> groupDefinitionFor rule g \<noteq> None
    \<and> (trim_space (rc_GroupID n) = [] \<longrightarrow> dflt = groupIDOf rule n)"
  proof (cases "trim_space (rc_GroupID n) = []")
    case True
    with assms(5) usage(1) have "gu_hasUnscoped u"
      by blast
    with True assms(1) have eq: "dflt = groupIDOf rule n"
      by (simp add: dflt_def defaultGroupIDFor_def groupIDOf_def Let_def split: option.split)
    then have "dflt \<noteq> []"
      using groupIDOf_ok by simp
    with add(4) obtain g where g: "g \<in> set gs" "equal_fold g dflt"
      by (auto simp: gs_def)
    with add(3) \<open>dflt \<noteq> []\<close> have "g = dflt \<or> g \<in> set (gu_groupIDs u)"
      by (auto simp: gs_def)
    with named assms(4,5) eq g show ?thesis
      by metis
  next
    case False
    with assms(5) usage(3) obtain g where "g \<in> set (gu_groupIDs u)" "equal_fold g (groupIDOf rule n)"
      by (auto simp: groupIDOf_def)
    with False gs(2) named show ?thesis
      by blast
  qed
  then obtain g where g: "g \<in> set gs" "equal_fold g (groupIDOf rule n)" "groupDefinitionFor rule g \<noteq> None"
    "trim_space (rc_GroupID n) = [] \<longrightarrow> dflt = groupIDOf rule n"
    by blast
  then have "gm_get (ruleIndices c2 (au_ID rule)) g \<noteq> None"
    using built(2) by blast
  from lookup_good [OF built(1) this g(2)] groupIDOf_ok obtain idx j where idx:
    "lookupGroupIndexForRule (Some c2) (au_ID rule) (groupIDOf rule n) = Some idx" "equal_fold j (groupIDOf rule n)"
    "goodIndex lib sm rule ts c j idx"
    by metis
  have "lookupGroupIndexForRule (Some (c2\<lparr>ctx_activeGroupIndex := a\<rparr>)) r i = lookupGroupIndexForRule (Some c2) r i" for a r i
    by (simp add: lookupGroupIndexForRule_def)
  then have "resolveConditionGroupIndex n (Some (activateRuleGrouping lib sm rule ts c)) = Some idx"
    using idx(1) g(4) active groupIDOf_ok [of rule n] by (auto simp: act resolveConditionGroupIndex_def Let_def groupIDOf_def)
  with idx show ?thesis
    by (auto simp: goodIndex_def)
qed
definition demo_group_leaf :: rule_condition where
  "demo_group_leaf = demo_leaf FieldGroupSize OperatorGreaterThanOrEqual ''2'' False"

definition demo_actions :: "simple_action option \<Rightarrow> simple_action option \<Rightarrow> action_conditions" where
  "demo_actions pause autoManagement =
     \<lparr>ac_Grouping = None, ac_SpeedLimits = None, ac_ShareLimits = None, ac_Pause = pause, ac_Resume = None, ac_Recheck = None,
      ac_Reannounce = None, ac_Delete = None, ac_Tag = None, ac_Tags = [], ac_Category = None, ac_Move = None,
      ac_ExternalProgram = None, ac_AutoManagement = autoManagement, ac_ExportToInstance = None\<rparr>"

definition demo_rule :: "action_conditions \<Rightarrow> automation" where
  "demo_rule ac = \<lparr>au_ID = 7, au_InstanceID = 1, au_Name = ''rule'', au_TrackerPattern = ''*'', au_TrackerDomains = [],
     au_Conditions = Some ac, au_FreeSpaceSource = None, au_SortingConfig = None, au_Enabled = True, au_DryRun = False,
     au_Notify = False, au_SortOrder = 0, au_IntervalSeconds = None\<rparr>"

definition demo_pause_rule :: automation where
  "demo_pause_rule = demo_rule (demo_actions (Some \<lparr>sa_Enabled = True, sa_Condition = Some demo_group_leaf\<rparr>) None)"

theorem activateRuleGrouping_available_witness:
  "resolveConditionGroupIndex demo_group_leaf
     (Some (activateRuleGrouping demo_lib True demo_pause_rule [demo_member ''a'', demo_member ''b''] empty_ctx)) \<noteq> None"
proof -
  have nodes: "groupNodes (conditionTreesForRule demo_pause_rule) = [demo_group_leaf]"
    by code_simp
  have "groupDefinitionFor demo_pause_rule (groupIDOf demo_pause_rule demo_group_leaf) \<noteq> None"
    by code_simp
  moreover have "au_Conditions demo_pause_rule = Some (demo_actions (Some \<lparr>sa_Enabled = True, sa_Condition = Some demo_group_leaf\<rparr>) None)"
    by (simp add: demo_pause_rule_def demo_rule_def)
  ultimately show ?thesis
    using activateRuleGrouping_available [of demo_pause_rule _ empty_ctx demo_group_leaf demo_lib True "[demo_member ''a'', demo_member ''b'']"]
    by (auto simp: nodes empty_ctx_def)
qed

text \<open>
  A gap: the trees the code looks at leave out the conditions of automatic management and of the
  export to another instance. For a rule that uses groups only there and sets no default group, such a
  condition sees no index, so the group of every torrent has size 0.
\<close>

theorem activateRuleGrouping_gap:
  assumes "au_Conditions rule = Some ac" "gm_get (ctx_groupConditionUsageByRule c) (au_ID rule) = None"
    "groupNodes (conditionTreesForRule rule) = []"
    "case ac_Grouping ac of None \<Rightarrow> True | Some g \<Rightarrow> trim_space (gc_DefaultGroupID g) = []"
    "trim_space (rc_GroupID n) = []"
  shows "SizeForHash (resolveConditionGroupIndex n (Some (activateRuleGrouping lib sm rule ts c))) h = 0"
proof -
  have "computeGroupingUsage rule = \<lparr>gu_groupIDs = [], gu_hasUnscoped = False\<rparr>"
    by (simp add: computeGroupingUsage_nodes assms(3))
  then have "activateRuleGrouping lib sm rule ts c = c\<lparr>ctx_ActiveRuleID := au_ID rule, ctx_activeGroupIndex := None,
      ctx_groupConditionUsageByRule := gm_put (au_ID rule) \<lparr>gu_groupIDs = [], gu_hasUnscoped = False\<rparr> (ctx_groupConditionUsageByRule c)\<rparr>"
    using assms(1,2,4) by (simp add: activateRuleGrouping_def getOrComputeGroupingConditionUsage_def defaultGroupIDFor_def Let_def split: option.splits)
  then show ?thesis
    using assms(5) by (simp add: resolveConditionGroupIndex_def SizeForHash_def)
qed

definition demo_manage_rule :: automation where
  "demo_manage_rule = demo_rule (demo_actions None (Some \<lparr>sa_Enabled = True, sa_Condition = Some demo_group_leaf\<rparr>))"

theorem activateRuleGrouping_gap_witness:
  "SizeForHash (resolveConditionGroupIndex demo_group_leaf
     (Some (activateRuleGrouping demo_lib True demo_manage_rule [demo_member ''a'', demo_member ''b''] empty_ctx))) ''a'' = 0
   \<and> SizeForHash (resolveConditionGroupIndex demo_group_leaf
     (Some (activateRuleGrouping demo_lib True demo_pause_rule [demo_member ''a'', demo_member ''b''] empty_ctx))) ''a'' = 2
   \<and> ruleUsesCondition demo_manage_rule FieldGroupSize"
proof -
  have "groupNodes (conditionTreesForRule demo_manage_rule) = []"
    by code_simp
  moreover have "trim_space (rc_GroupID demo_group_leaf) = []"
    by code_simp
  moreover have "SizeForHash (resolveConditionGroupIndex demo_group_leaf
     (Some (activateRuleGrouping demo_lib True demo_pause_rule [demo_member ''a'', demo_member ''b''] empty_ctx))) ''a'' = 2"
    by code_simp
  moreover have "ruleUsesCondition demo_manage_rule FieldGroupSize"
    by code_simp
  ultimately show ?thesis
    using activateRuleGrouping_gap [of demo_manage_rule "demo_actions None (Some \<lparr>sa_Enabled = True, sa_Condition = Some demo_group_leaf\<rparr>)"
        empty_ctx demo_group_leaf demo_lib True "[demo_member ''a'', demo_member ''b'']" "''a''"]
    by (simp add: demo_manage_rule_def demo_rule_def demo_actions_def empty_ctx_def)
qed

end
