(* ===== verification/Path_Segments.thy ===== *)
theory Path_Segments
  imports Go_Base
begin

text \<open>
  Names made safe as path segments (\<open>src/pkg/pathutil/sanitize.go\<close>), which move paths and isolation
  folders are built from: no separator, no character Windows refuses, no reserved device name.
\<close>

definition trim_right :: "string \<Rightarrow> string \<Rightarrow> string" where
  "trim_right cs s = rev (dropWhile (\<lambda>c. c \<in> set cs) (rev s))"

definition windowsReservedNames :: "string list" where
  "windowsReservedNames =
     [''CON'', ''PRN'', ''AUX'', ''NUL'',
      ''COM1'', ''COM2'', ''COM3'', ''COM4'', ''COM5'', ''COM6'', ''COM7'', ''COM8'', ''COM9'',
      ''LPT1'', ''LPT2'', ''LPT3'', ''LPT4'', ''LPT5'', ''LPT6'', ''LPT7'', ''LPT8'', ''LPT9'']"

definition illegal_char :: "char \<Rightarrow> bool" where
  "illegal_char c \<longleftrightarrow> List.member [CHR ''<'', CHR ''>'', CHR '':'', CHR 0x22, CHR ''/'', CHR 0x5C, CHR ''|'', CHR ''?'', CHR ''*''] c"

definition control_char :: "char \<Rightarrow> bool" where
  "control_char c \<longleftrightarrow> (of_char c :: nat) \<le> 31"

text \<open>The part of a name before its first dot, if the dot is not its first character.\<close>

definition baseName :: "string \<Rightarrow> string" where
  "baseName s = (let b = takeWhile (\<lambda>c. c \<noteq> CHR ''.'') s in if b = [] then s else b)"

definition SanitizePathSegment :: "string \<Rightarrow> string" where
  "SanitizePathSegment name =
     (if name = [] then ''_''
      else
        let result = filter (\<lambda>c. \<not> illegal_char c) name;
            result = filter (\<lambda>c. \<not> control_char c) result;
            result = trim_right ''. '' result
        in if result = [] then ''_''
           else if List.member windowsReservedNames (baseName (to_upper result)) then CHR ''_'' # result
           else result)"

definition maxNameLen :: nat where "maxNameLen = 80"

definition IsolationFolderName :: "string \<Rightarrow> string \<Rightarrow> string" where
  "IsolationFolderName infohash name =
     (let sanitizedName = SanitizePathSegment name;
          sanitizedName = (if length sanitizedName > maxNameLen then trim_right ''. '' (take maxNameLen sanitizedName) else sanitizedName);
          shortHash = (if length infohash \<ge> 8 then to_lower (take 8 infohash)
             else if infohash \<noteq> [] then to_lower infohash else [])
      in if shortHash = [] then sanitizedName else sanitizedName @ ''--'' @ shortHash)"

section \<open>Properties\<close>

lemma trim_right_props:
  "set (trim_right cs s) \<subseteq> set s" "trim_right cs s \<noteq> [] \<Longrightarrow> List.last (trim_right cs s) \<notin> set cs"
  "length (trim_right cs s) \<le> length s"
proof -
  show "set (trim_right cs s) \<subseteq> set s"
    by (auto simp: trim_right_def dest: set_dropWhileD)
  show "List.last (trim_right cs s) \<notin> set cs" if "trim_right cs s \<noteq> []"
    using that hd_dropWhile [of "\<lambda>c. c \<in> set cs" "rev s"] by (simp add: trim_right_def last_rev)
  show "length (trim_right cs s) \<le> length s"
    using length_dropWhile_le [of _ "rev s"] by (simp add: trim_right_def)
qed

definition safe_char :: "char \<Rightarrow> bool" where
  "safe_char c \<longleftrightarrow> \<not> illegal_char c \<and> \<not> control_char c"

lemma upper_underscore: "baseName (to_upper (CHR ''_'' # s)) = CHR ''_'' # takeWhile (\<lambda>c. c \<noteq> CHR ''.'') (to_upper s)"
proof -
  have "upper_char CHR ''_'' = CHR ''_''"
    by code_simp
  then show ?thesis
    by (simp add: baseName_def to_upper_def Let_def)
qed

text \<open>
  C36. Names become safe path segments: whatever the name, the sanitised one is not empty, has no path
  separator, no character Windows forbids and no control character, does not end in a dot or a blank,
  so it is neither ``.'' nor ``..'', and its part before the first dot is no reserved device name.
\<close>

theorem SanitizePathSegment_safe:
  "SanitizePathSegment name \<noteq> [] \<and> list_all safe_char (SanitizePathSegment name)
   \<and> \<not> List.member [CHR ''.'', CHR '' '', CHR ''/'', CHR 0x5C] (List.last (SanitizePathSegment name))
   \<and> \<not> List.member windowsReservedNames (baseName (to_upper (SanitizePathSegment name)))"
proof -
  define r where "r = trim_right ''. '' (filter (\<lambda>c. \<not> control_char c) (filter (\<lambda>c. \<not> illegal_char c) name))"
  have underscore: "safe_char CHR ''_''" "\<not> List.member windowsReservedNames (baseName (to_upper ''_''))"
    by code_simp+
  have safe: "list_all safe_char r"
    using trim_right_props(1) by (fastforce simp: r_def safe_char_def list_all_iff)
  have last: "r \<noteq> [] \<Longrightarrow> \<not> List.member [CHR ''.'', CHR '' '', CHR ''/'', CHR 0x5C] (List.last r)"
  proof -
    assume "r \<noteq> []"
    then have "List.last r \<notin> set ''. ''"
      unfolding r_def by (rule trim_right_props(2))
    moreover from \<open>r \<noteq> []\<close> have "safe_char (List.last r)"
      using safe by (simp add: list_all_iff)
    ultimately have "List.last r \<notin> set ''. ''" "safe_char (List.last r)" .
    then show ?thesis
      by (auto simp: safe_char_def illegal_char_def)
  qed
  have reserved: "\<not> List.member windowsReservedNames (baseName (to_upper (CHR ''_'' # r)))"
    unfolding upper_underscore by (simp add: windowsReservedNames_def)
  have "SanitizePathSegment name = (if name = [] \<or> r = [] then ''_'' else
      if List.member windowsReservedNames (baseName (to_upper r)) then CHR ''_'' # r else r)"
    by (simp add: SanitizePathSegment_def Let_def r_def)
  then show ?thesis
    using underscore safe last reserved by auto
qed

lemma IsolationFolderName_length: "length (IsolationFolderName h n) \<le> 90"
  using trim_right_props(3) [of "''. ''" "take maxNameLen (SanitizePathSegment n)"]
  by (auto simp: IsolationFolderName_def Let_def to_lower_def maxNameLen_def)

end
