(* ===== verification/Rule_Processor.thy ===== *)
theory Rule_Processor
  imports Torrent_Grouping Path_Segments
begin

text \<open>
  Applying rules to torrents (\<open>src/internal/services/automations/processor.go\<close>): what every action of a
  rule adds to the desired state of a torrent, in the order of the code, the loop over rules and
  torrents, the projection of freed space, and the order in which torrents are processed. Desired
  state, context and statistics, which the code changes through pointers, are passed on; an action
  returns them changed.
\<close>

section \<open>State\<close>

record rule_ref =
  rr_id :: int
  rr_name :: string

definition noRule :: rule_ref where "noRule = \<lparr>rr_id = 0, rr_name = []\<rparr>"

definition refOf :: "automation \<Rightarrow> rule_ref" where
  "refOf rule = \<lparr>rr_id = au_ID rule, rr_name = au_Name rule\<rparr>"

record desired_state =
  ds_hash :: string
  ds_name :: string
  ds_trackerDomains :: "string list"
  ds_uploadLimitKiB :: "int option"
  ds_downloadLimitKiB :: "int option"
  ds_uploadRule :: rule_ref
  ds_downloadRule :: rule_ref
  ds_ratioLimit :: "float64 option"
  ds_seedingMinutes :: "int option"
  ds_shareLimitAction :: string
  ds_shareLimitsMode :: string
  ds_ratioRule :: rule_ref
  ds_seedingRule :: rule_ref
  ds_shareActionRule :: rule_ref
  ds_shareModeRule :: rule_ref
  ds_shouldPause :: bool
  ds_pauseRule :: rule_ref
  ds_shouldResume :: bool
  ds_resumeRule :: rule_ref
  ds_shouldRecheck :: bool
  ds_recheckRule :: rule_ref
  ds_shouldReannounce :: bool
  ds_reannounceRule :: rule_ref
  ds_shouldAutoManage :: bool
  ds_autoManageValue :: bool
  ds_autoManageRule :: rule_ref
  ds_currentTags :: "string goset"
  ds_tagActions :: "(string, string) gomap"
  ds_tagRuleByTag :: "(string, rule_ref) gomap"
  ds_category :: "string option"
  ds_categoryGroupID :: string
  ds_categoryRuleID :: int
  ds_categoryIncludeCrossSeeds :: bool
  ds_categoryRule :: rule_ref
  ds_shouldDelete :: bool
  ds_deleteMode :: string
  ds_deleteIncludeHardlinks :: bool
  ds_deleteGroupID :: string
  ds_deleteAtomic :: string
  ds_deleteRuleID :: int
  ds_deleteRuleName :: string
  ds_deleteReason :: string
  ds_shouldMove :: bool
  ds_movePath :: string
  ds_moveGroupID :: string
  ds_moveAtomic :: string
  ds_moveBlockIfCrossSeed :: bool
  ds_moveCondition :: "rule_condition option"
  ds_moveRuleID :: int
  ds_moveRuleName :: string
  ds_moveRule :: rule_ref
  ds_externalProgramID :: "int option"
  ds_programRuleID :: int
  ds_programRuleName :: string
  ds_exportToInstance :: "export_action option"
  ds_exportToInstanceRuleID :: int
  ds_exportToInstanceRuleName :: string

record rule_run_stats =
  st_MatchedTrackers :: nat
  st_SpeedApplied :: nat
  st_SpeedConditionNotMet :: nat
  st_ShareApplied :: nat
  st_ShareConditionNotMet :: nat
  st_PauseApplied :: nat
  st_PauseConditionNotMet :: nat
  st_ResumeApplied :: nat
  st_ResumeConditionNotMet :: nat
  st_RecheckApplied :: nat
  st_RecheckConditionNotMet :: nat
  st_ReannounceApplied :: nat
  st_ReannounceConditionNotMet :: nat
  st_AutoManageApplied :: nat
  st_AutoManageConditionNotMet :: nat
  st_TagConditionMet :: nat
  st_TagConditionNotMet :: nat
  st_TagSkippedMissingUnregisteredSet :: nat
  st_CategoryApplied :: nat
  st_CategoryConditionNotMetOrBlocked :: nat
  st_DeleteApplied :: nat
  st_DeleteConditionNotMet :: nat
  st_MoveApplied :: nat
  st_MoveConditionNotMet :: nat
  st_MoveAlreadyAtDestination :: nat
  st_MoveBlockedByCrossSeed :: nat
  st_ExternalProgramApplied :: nat
  st_ExternalProgramConditionNotMet :: nat
  st_ExportToInstanceApplied :: nat
  st_ExportToInstanceConditionNotMet :: nat

definition noStats :: rule_run_stats where
  "noStats = \<lparr>st_MatchedTrackers = 0, st_SpeedApplied = 0, st_SpeedConditionNotMet = 0, st_ShareApplied = 0,
     st_ShareConditionNotMet = 0, st_PauseApplied = 0, st_PauseConditionNotMet = 0, st_ResumeApplied = 0,
     st_ResumeConditionNotMet = 0, st_RecheckApplied = 0, st_RecheckConditionNotMet = 0, st_ReannounceApplied = 0,
     st_ReannounceConditionNotMet = 0, st_AutoManageApplied = 0, st_AutoManageConditionNotMet = 0,
     st_TagConditionMet = 0, st_TagConditionNotMet = 0, st_TagSkippedMissingUnregisteredSet = 0, st_CategoryApplied
     = 0, st_CategoryConditionNotMetOrBlocked = 0, st_DeleteApplied = 0, st_DeleteConditionNotMet = 0,
     st_MoveApplied = 0, st_MoveConditionNotMet = 0, st_MoveAlreadyAtDestination = 0, st_MoveBlockedByCrossSeed =
     0, st_ExternalProgramApplied = 0, st_ExternalProgramConditionNotMet = 0, st_ExportToInstanceApplied = 0,
     st_ExportToInstanceConditionNotMet = 0\<rparr>"

text \<open>Counting, where there are statistics: \<open>count st_X_update\<close> is \<open>stats.X++\<close>.\<close>

definition count :: "((nat \<Rightarrow> nat) \<Rightarrow> rule_run_stats \<Rightarrow> rule_run_stats) \<Rightarrow> rule_run_stats option \<Rightarrow> rule_run_stats option" where
  "count upd stats = map_option (upd Suc) stats"

definition totalApplied :: "rule_run_stats option \<Rightarrow> nat" where
  "totalApplied stats =
     (case stats of None \<Rightarrow> 0
      | Some s \<Rightarrow> st_SpeedApplied s + st_ShareApplied s + st_PauseApplied s + st_ResumeApplied s + st_RecheckApplied s
          + st_ReannounceApplied s + st_AutoManageApplied s + st_TagConditionMet s + st_CategoryApplied s + st_DeleteApplied s
          + st_MoveApplied s + st_ExternalProgramApplied s + st_ExportToInstanceApplied s)"

definition getOrCreateRuleStats :: "automation \<Rightarrow> (int, rule_run_stats) gomap option \<Rightarrow> rule_run_stats option" where
  "getOrCreateRuleStats rule m =
     map_option (\<lambda>m. case gm_get m (au_ID rule) of Some s \<Rightarrow> s | None \<Rightarrow> noStats) m"

definition parseTorrentTags :: "string \<Rightarrow> string goset" where
  "parseTorrentTags tags = fold gs_add (filter (\<lambda>w. w \<noteq> []) (map trim_space (split_on CHR '','' tags))) []"

definition initialState :: "torrent \<Rightarrow> desired_state" where
  "initialState t = \<lparr>ds_hash = t_Hash t, ds_name = t_Name t, ds_trackerDomains = [], ds_uploadLimitKiB = None, ds_downloadLimitKiB
     = None, ds_uploadRule = noRule, ds_downloadRule = noRule, ds_ratioLimit = None, ds_seedingMinutes = None,
     ds_shareLimitAction = [], ds_shareLimitsMode = [], ds_ratioRule = noRule, ds_seedingRule = noRule,
     ds_shareActionRule = noRule, ds_shareModeRule = noRule, ds_shouldPause = False, ds_pauseRule = noRule,
     ds_shouldResume = False, ds_resumeRule = noRule, ds_shouldRecheck = False, ds_recheckRule = noRule,
     ds_shouldReannounce = False, ds_reannounceRule = noRule, ds_shouldAutoManage = False, ds_autoManageValue =
     False, ds_autoManageRule = noRule, ds_currentTags = parseTorrentTags (t_Tags t), ds_tagActions = [],
     ds_tagRuleByTag = [], ds_category = None, ds_categoryGroupID = [], ds_categoryRuleID = 0,
     ds_categoryIncludeCrossSeeds = False, ds_categoryRule = noRule, ds_shouldDelete = False, ds_deleteMode = [],
     ds_deleteIncludeHardlinks = False, ds_deleteGroupID = [], ds_deleteAtomic = [], ds_deleteRuleID = 0,
     ds_deleteRuleName = [], ds_deleteReason = [], ds_shouldMove = False, ds_movePath = [], ds_moveGroupID = [],
     ds_moveAtomic = [], ds_moveBlockIfCrossSeed = False, ds_moveCondition = None, ds_moveRuleID = 0,
     ds_moveRuleName = [], ds_moveRule = noRule, ds_externalProgramID = None, ds_programRuleID = 0,
     ds_programRuleName = [], ds_exportToInstance = None, ds_exportToInstanceRuleID = 0,
     ds_exportToInstanceRuleName = []\<rparr>"

text \<open>A condition that is not configured always holds.\<close>

definition applies :: "eval_lib \<Rightarrow> rule_condition option \<Rightarrow> torrent \<Rightarrow> eval_ctx option \<Rightarrow> bool" where
  "applies lib cond t ctx \<longleftrightarrow> cond = None \<or> EvaluateConditionWithContext lib cond t ctx 0"

section \<open>Actions on one torrent\<close>

type_synonym outcome = "desired_state \<times> rule_run_stats option"

definition applySpeedLimits :: "eval_lib \<Rightarrow> automation \<Rightarrow> action_conditions \<Rightarrow> torrent \<Rightarrow> eval_ctx option \<Rightarrow> outcome \<Rightarrow> outcome" where
  "applySpeedLimits lib rule ac t ctx out =
     (case ac_SpeedLimits ac of None \<Rightarrow> out | Some a \<Rightarrow>
        let (state, stats) = out in
        if \<not> sl_Enabled a then (state, stats)
        else if applies lib (sl_Condition a) t ctx then
          (let state = (if sl_UploadKiB a \<noteq> None then state\<lparr>ds_uploadLimitKiB := sl_UploadKiB a, ds_uploadRule := refOf rule\<rparr> else state);
               state = (if sl_DownloadKiB a \<noteq> None then state\<lparr>ds_downloadLimitKiB := sl_DownloadKiB a, ds_downloadRule := refOf rule\<rparr> else state)
           in (state, count st_SpeedApplied_update stats))
        else (state, count st_SpeedConditionNotMet_update stats))"

definition applyShareLimits :: "eval_lib \<Rightarrow> automation \<Rightarrow> action_conditions \<Rightarrow> torrent \<Rightarrow> eval_ctx option \<Rightarrow> outcome \<Rightarrow> outcome" where
  "applyShareLimits lib rule ac t ctx out =
     (case ac_ShareLimits ac of None \<Rightarrow> out | Some a \<Rightarrow>
        let (state, stats) = out in
        if \<not> sh_Enabled a then (state, stats)
        else if applies lib (sh_Condition a) t ctx then
          (let state = (if sh_RatioLimit a \<noteq> None then state\<lparr>ds_ratioLimit := sh_RatioLimit a, ds_ratioRule := refOf rule\<rparr> else state);
               state = (if sh_SeedingTimeMinutes a \<noteq> None
                  then state\<lparr>ds_seedingMinutes := sh_SeedingTimeMinutes a, ds_seedingRule := refOf rule\<rparr> else state);
               state = (case sh_ShareLimitAction a of None \<Rightarrow> state
                  | Some v \<Rightarrow> state\<lparr>ds_shareLimitAction := v, ds_shareActionRule := refOf rule\<rparr>);
               state = (case sh_ShareLimitsMode a of None \<Rightarrow> state
                  | Some v \<Rightarrow> state\<lparr>ds_shareLimitsMode := v, ds_shareModeRule := refOf rule\<rparr>)
           in (state, count st_ShareApplied_update stats))
        else (state, count st_ShareConditionNotMet_update stats))"

definition applyPause :: "eval_lib \<Rightarrow> automation \<Rightarrow> action_conditions \<Rightarrow> torrent \<Rightarrow> eval_ctx option \<Rightarrow> outcome \<Rightarrow> outcome" where
  "applyPause lib rule ac t ctx out =
     (case ac_Pause ac of None \<Rightarrow> out | Some a \<Rightarrow>
        let (state, stats) = out in
        if \<not> sa_Enabled a then (state, stats)
        else if applies lib (sa_Condition a) t ctx then
          (if \<not> List.member pausedStates (t_State t)
           then state\<lparr>ds_shouldPause := True, ds_shouldResume := False, ds_pauseRule := refOf rule, ds_resumeRule := noRule\<rparr>
           else state, count st_PauseApplied_update stats)
        else (state, count st_PauseConditionNotMet_update stats))"

definition applyResume :: "eval_lib \<Rightarrow> automation \<Rightarrow> action_conditions \<Rightarrow> torrent \<Rightarrow> eval_ctx option \<Rightarrow> outcome \<Rightarrow> outcome" where
  "applyResume lib rule ac t ctx out =
     (case ac_Resume ac of None \<Rightarrow> out | Some a \<Rightarrow>
        let (state, stats) = out in
        if \<not> sa_Enabled a then (state, stats)
        else if applies lib (sa_Condition a) t ctx then
          (if List.member pausedStates (t_State t)
           then state\<lparr>ds_shouldResume := True, ds_shouldPause := False, ds_resumeRule := refOf rule, ds_pauseRule := noRule\<rparr>
           else state, count st_ResumeApplied_update stats)
        else (state, count st_ResumeConditionNotMet_update stats))"

definition applyRecheck :: "eval_lib \<Rightarrow> automation \<Rightarrow> action_conditions \<Rightarrow> torrent \<Rightarrow> eval_ctx option \<Rightarrow> outcome \<Rightarrow> outcome" where
  "applyRecheck lib rule ac t ctx out =
     (case ac_Recheck ac of None \<Rightarrow> out | Some a \<Rightarrow>
        let (state, stats) = out in
        if \<not> sa_Enabled a then (state, stats)
        else if applies lib (sa_Condition a) t ctx then
          (if \<not> List.member checkingStates (t_State t) then state\<lparr>ds_shouldRecheck := True, ds_recheckRule := refOf rule\<rparr> else state,
           count st_RecheckApplied_update stats)
        else (state, count st_RecheckConditionNotMet_update stats))"

definition applyReannounce :: "eval_lib \<Rightarrow> automation \<Rightarrow> action_conditions \<Rightarrow> torrent \<Rightarrow> eval_ctx option \<Rightarrow> outcome \<Rightarrow> outcome" where
  "applyReannounce lib rule ac t ctx out =
     (case ac_Reannounce ac of None \<Rightarrow> out | Some a \<Rightarrow>
        let (state, stats) = out in
        if \<not> sa_Enabled a then (state, stats)
        else if applies lib (sa_Condition a) t ctx then
          (state\<lparr>ds_shouldReannounce := True, ds_reannounceRule := refOf rule\<rparr>, count st_ReannounceApplied_update stats)
        else (state, count st_ReannounceConditionNotMet_update stats))"

definition applyAutoManagement :: "eval_lib \<Rightarrow> automation \<Rightarrow> action_conditions \<Rightarrow> torrent \<Rightarrow> eval_ctx option \<Rightarrow> outcome \<Rightarrow> outcome" where
  "applyAutoManagement lib rule ac t ctx out =
     (case ac_AutoManagement ac of None \<Rightarrow> out | Some a \<Rightarrow>
        let (state, stats) = out in
        if applies lib (sa_Condition a) t ctx then
          (state\<lparr>ds_autoManageValue := sa_Enabled a, ds_autoManageRule := refOf rule,
             ds_shouldAutoManage := (t_AutoManaged t \<noteq> sa_Enabled a)\<rparr>, count st_AutoManageApplied_update stats)
        else (state, count st_AutoManageConditionNotMet_update stats))"

section \<open>Tags\<close>

definition getTrackerDisplayName :: "string list \<Rightarrow> eval_ctx option \<Rightarrow> string option" where
  "getTrackerDisplayName domains ctx =
     (case ctx of None \<Rightarrow> None
      | Some c \<Rightarrow> (case List.find (\<lambda>d. gm_get (ctx_TrackerDisplayNameByDomain c) (to_lower d) \<noteq> None) domains of
          None \<Rightarrow> None | Some d \<Rightarrow> gm_get (ctx_TrackerDisplayNameByDomain c) (to_lower d)))"

definition selectTrackerTag :: "string list \<Rightarrow> bool \<Rightarrow> eval_ctx option \<Rightarrow> string" where
  "selectTrackerTag domains useDisplayName ctx =
     (case domains of [] \<Rightarrow> []
      | d # _ \<Rightarrow> if useDisplayName then (case getTrackerDisplayName domains ctx of Some displayName \<Rightarrow> displayName | None \<Rightarrow> d) else d)"

definition SanitizeCommaSeparatedStringSlice :: "string list \<Rightarrow> string list" where
  "SanitizeCommaSeparatedStringSlice values =
     fold (\<lambda>part result. let trimmed = trim_space part; lower = normalizeLowerTrim trimmed in
         if trimmed = [] \<or> List.member result lower then result else result @ [lower])
       (concat (map (split_on CHR '','') values)) []"

definition shouldResetTagActionInClient :: "tag_action \<Rightarrow> bool" where
  "shouldResetTagActionInClient a =
     (if \<not> tag_Enabled a \<or> tag_UseTrackerAsTag a then False
      else if SanitizeCommaSeparatedStringSlice (tag_Tags a) = [] then False
      else tag_DeleteFromClient a)"

definition tagAdd :: string where "tagAdd = ''add''"
definition tagRemove :: string where "tagRemove = ''remove''"

definition tagsToManage :: "tag_action \<Rightarrow> desired_state \<Rightarrow> eval_ctx option \<Rightarrow> string list" where
  "tagsToManage a state ctx =
     (if tag_UseTrackerAsTag a \<and> ds_trackerDomains state \<noteq> [] then
        (let tag = selectTrackerTag (ds_trackerDomains state) (tag_UseDisplayName a) ctx in if tag \<noteq> [] then [tag] else [])
      else tag_Tags a)"

text \<open>One managed tag: whether the torrent has it counts the pending changes of earlier rules.\<close>

definition manageTag :: "rule_ref \<Rightarrow> string \<Rightarrow> bool \<Rightarrow> bool \<Rightarrow> string \<Rightarrow> desired_state \<Rightarrow> desired_state" where
  "manageTag ref mode resetFromClient matches tag state =
     (let hasTag = (if resetFromClient then False else List.member (ds_currentTags state) tag);
          hasTag = (case gm_get (ds_tagActions state) tag of Some pending \<Rightarrow> pending = tagAdd | None \<Rightarrow> hasTag);
          setAction = (\<lambda>v. state\<lparr>ds_tagActions := gm_put tag v (ds_tagActions state), ds_tagRuleByTag := gm_put tag ref (ds_tagRuleByTag state)\<rparr>)
      in if mode = TagModeAdd then (if \<not> hasTag \<and> matches then setAction tagAdd else state)
         else if mode = TagModeRemove then (if hasTag \<and> matches then setAction tagRemove else state)
         else if \<not> hasTag \<and> matches then setAction tagAdd
         else if hasTag \<and> \<not> matches then setAction tagRemove
         else state)"

definition processTagAction ::
    "eval_lib \<Rightarrow> automation \<Rightarrow> tag_action \<Rightarrow> torrent \<Rightarrow> eval_ctx option \<Rightarrow> desired_state \<Rightarrow> bool \<times> desired_state" where
  "processTagAction lib rule a t ctx state =
     (let mode = (if tag_Mode a = [] then TagModeFull else tag_Mode a);
          matches = applies lib (tag_Condition a) t ctx
      in (matches, fold (manageTag (refOf rule) mode (shouldResetTagActionInClient a) matches) (tagsToManage a state ctx) state))"

definition applyTagAction ::
    "eval_lib \<Rightarrow> automation \<Rightarrow> torrent \<Rightarrow> eval_ctx option \<Rightarrow> tag_action option \<Rightarrow> outcome \<Rightarrow> outcome" where
  "applyTagAction lib rule t ctx action out =
     (case action of None \<Rightarrow> out | Some a \<Rightarrow>
        let (state, stats) = out in
        if \<not> tag_Enabled a \<or> tag_Tags a = [] \<and> \<not> tag_UseTrackerAsTag a then (state, stats)
        else if ConditionUsesField (tag_Condition a) FieldIsUnregistered \<and> Option.bind ctx ctx_UnregisteredSet = None
          then (state, count st_TagSkippedMissingUnregisteredSet_update stats)
        else (let (matches, state) = processTagAction lib rule a t ctx state in
          (state, count (if matches then st_TagConditionMet_update else st_TagConditionNotMet_update) stats)))"

definition applyTags :: "eval_lib \<Rightarrow> automation \<Rightarrow> action_conditions \<Rightarrow> torrent \<Rightarrow> eval_ctx option \<Rightarrow> outcome \<Rightarrow> outcome" where
  "applyTags lib rule ac t ctx out = fold (applyTagAction lib rule t ctx) (TagActions (Some ac)) out"

section \<open>Category, programs, exports\<close>

definition containsStringFold :: "string list \<Rightarrow> string \<Rightarrow> bool" where
  "containsStringFold list candidate \<longleftrightarrow> candidate \<noteq> [] \<and> list_ex (\<lambda>item. equal_fold (trim_space item) candidate) list"

text \<open>The other torrents at the place of a torrent, empty where it has no place.\<close>

definition othersAtPlace :: "torrent \<Rightarrow> (cross_seed_key, torrent list) gomap \<Rightarrow> torrent list" where
  "othersAtPlace t crossSeedIndex =
     (case makeCrossSeedKey t of None \<Rightarrow> []
      | Some key \<Rightarrow> filter (\<lambda>other. t_Hash other \<noteq> t_Hash t) (case gm_get crossSeedIndex key of None \<Rightarrow> [] | Some found \<Rightarrow> found))"

definition shouldBlockCategoryChangeForCrossSeeds :: "torrent \<Rightarrow> string list \<Rightarrow> (cross_seed_key, torrent list) gomap \<Rightarrow> bool" where
  "shouldBlockCategoryChangeForCrossSeeds t protectedCategories crossSeedIndex =
     (protectedCategories \<noteq> []
      \<and> list_ex (\<lambda>other. containsStringFold protectedCategories (t_Category other)) (othersAtPlace t crossSeedIndex))"

definition applyCategory :: "eval_lib \<Rightarrow> automation \<Rightarrow> action_conditions \<Rightarrow> torrent \<Rightarrow> eval_ctx option
    \<Rightarrow> (cross_seed_key, torrent list) gomap \<Rightarrow> outcome \<Rightarrow> outcome" where
  "applyCategory lib rule ac t ctx crossSeedIndex out =
     (case ac_Category ac of None \<Rightarrow> out | Some a \<Rightarrow>
        let (state, stats) = out in
        if \<not> cat_Enabled a \<or> cat_Category a = [] then (state, stats)
        else if applies lib (cat_Condition a) t ctx
          \<and> \<not> shouldBlockCategoryChangeForCrossSeeds t (cat_BlockIfCrossSeedInCategories a) crossSeedIndex then
          (let groupID = trim_space (cat_GroupID a);
               groupID = (if groupID = [] \<and> cat_IncludeCrossSeeds a then GroupCrossSeedContentSavePath else groupID)
           in (state\<lparr>ds_category := Some (cat_Category a), ds_categoryRuleID := au_ID rule,
                 ds_categoryIncludeCrossSeeds := cat_IncludeCrossSeeds a, ds_categoryRule := refOf rule,
                 ds_categoryGroupID := groupID\<rparr>, count st_CategoryApplied_update stats))
        else (state, count st_CategoryConditionNotMetOrBlocked_update stats))"

definition applyExternalProgram :: "eval_lib \<Rightarrow> automation \<Rightarrow> action_conditions \<Rightarrow> torrent \<Rightarrow> eval_ctx option \<Rightarrow> outcome \<Rightarrow> outcome" where
  "applyExternalProgram lib rule ac t ctx out =
     (case ac_ExternalProgram ac of None \<Rightarrow> out | Some a \<Rightarrow>
        let (state, stats) = out in
        if \<not> ep_Enabled a \<or> \<not> ep_ProgramID a > 0 then (state, stats)
        else if applies lib (ep_Condition a) t ctx then
          (state\<lparr>ds_externalProgramID := Some (ep_ProgramID a), ds_programRuleID := au_ID rule, ds_programRuleName := au_Name rule\<rparr>,
           count st_ExternalProgramApplied_update stats)
        else (state, count st_ExternalProgramConditionNotMet_update stats))"

definition applyExport :: "eval_lib \<Rightarrow> automation \<Rightarrow> action_conditions \<Rightarrow> torrent \<Rightarrow> eval_ctx option \<Rightarrow> outcome \<Rightarrow> outcome" where
  "applyExport lib rule ac t ctx out =
     (case ac_ExportToInstance ac of None \<Rightarrow> out | Some a \<Rightarrow>
        let (state, stats) = out in
        if \<not> ex_Enabled a \<or> \<not> ex_TargetInstanceID a > 0 then (state, stats)
        else if applies lib (ex_Condition a) t ctx then
          (state\<lparr>ds_exportToInstance := Some a, ds_exportToInstanceRuleID := au_ID rule, ds_exportToInstanceRuleName := au_Name rule\<rparr>,
           count st_ExportToInstanceApplied_update stats)
        else (state, count st_ExportToInstanceConditionNotMet_update stats))"

section \<open>Delete\<close>

definition updateCumulativeFreeSpaceCleared ::
    "torrent \<Rightarrow> string \<Rightarrow> (string, torrent list) gomap \<Rightarrow> eval_ctx \<Rightarrow> eval_ctx" where
  "updateCumulativeFreeSpaceCleared t deleteMode cpIndex c =
     (case ctx_FilesToClear c of None \<Rightarrow> c
      | Some files \<Rightarrow>
          if \<not> deleteFreesSpace deleteMode t cpIndex then c
          else
            let counted = c\<lparr>ctx_SpaceToClear := wrap64 (ctx_SpaceToClear c + t_Size t)\<rparr>;
                byKey = (case makeCrossSeedKey t of
                    None \<Rightarrow> counted
                  | Some key \<Rightarrow> if List.member files key then c else counted\<lparr>ctx_FilesToClear := Some (gs_add key files)\<rparr>)
            in if deleteMode = DeleteModeWithFilesIncludeCrossSeeds then
                 (case (ctx_DeleteSafeHardlinkSignatureByHash c, ctx_HardlinkSignaturesToClear c) of
                    (Some sigs, Some seen) \<Rightarrow>
                      (case gm_get sigs (t_Hash t) of
                         Some sig \<Rightarrow>
                           if sig = [] then byKey
                           else if List.member seen sig then c
                           else counted\<lparr>ctx_HardlinkSignaturesToClear := Some (gs_add sig seen)\<rparr>
                       | None \<Rightarrow> byKey)
                  | _ \<Rightarrow> byKey)
               else byKey)"

definition markDeleted :: "automation \<Rightarrow> delete_action \<Rightarrow> desired_state \<Rightarrow> desired_state" where
  "markDeleted rule a state =
     state\<lparr>ds_shouldDelete := True, ds_deleteMode := (if del_Mode a = [] then DeleteModeKeepFiles else del_Mode a),
       ds_deleteIncludeHardlinks := del_IncludeHardlinks a, ds_deleteGroupID := trim_space (del_GroupID a),
       ds_deleteAtomic := trim_space (del_Atomic a), ds_deleteRuleID := au_ID rule, ds_deleteRuleName := au_Name rule,
       ds_deleteReason := ''condition matched''\<rparr>"

definition applyDelete :: "eval_lib \<Rightarrow> automation \<Rightarrow> action_conditions \<Rightarrow> torrent \<Rightarrow> (string, torrent list) gomap
    \<Rightarrow> eval_ctx option \<times> outcome \<Rightarrow> eval_ctx option \<times> outcome" where
  "applyDelete lib rule ac t cpIndex out =
     (case ac_Delete ac of None \<Rightarrow> out | Some a \<Rightarrow>
        let (ctx, state, stats) = out in
        if \<not> del_Enabled a then (ctx, state, stats)
        else if del_Condition a = None then (ctx, state, count st_DeleteConditionNotMet_update stats)
        else if EvaluateConditionWithContext lib (del_Condition a) t ctx 0 then
          (let state = markDeleted rule a state;
               ctx = (if ConditionUsesField (del_Condition a) FieldFreeSpace
                  then map_option (updateCumulativeFreeSpaceCleared t (ds_deleteMode state) cpIndex) ctx else ctx)
           in (ctx, state, count st_DeleteApplied_update stats))
        else (ctx, state, count st_DeleteConditionNotMet_update stats))"

section \<open>Move\<close>

definition shouldBlockMoveForCrossSeeds :: "eval_lib \<Rightarrow> torrent \<Rightarrow> move_action \<Rightarrow> (cross_seed_key, torrent list) gomap \<Rightarrow> eval_ctx option \<Rightarrow> bool" where
  "shouldBlockMoveForCrossSeeds lib t a crossSeedIndex ctx =
     (mv_BlockIfCrossSeed a \<and> mv_Condition a \<noteq> None
      \<and> list_ex (\<lambda>other. \<not> EvaluateConditionWithContext lib (mv_Condition a) other ctx 0) (othersAtPlace t crossSeedIndex))"

definition inSavePath :: "torrent \<Rightarrow> string \<Rightarrow> bool" where
  "inSavePath t savePath \<longleftrightarrow> normalizePath (t_SavePath t) = normalizePath savePath"

definition resolveMovePath :: "eval_lib \<Rightarrow> string \<Rightarrow> torrent \<Rightarrow> desired_state \<Rightarrow> eval_ctx option \<Rightarrow> string option" where
  "resolveMovePath lib path t state ctx =
     (case el_renderPath lib path
        [(''Name'', t_Name t), (''Hash'', t_Hash t), (''Category'', t_Category t),
         (''IsolationFolderName'', IsolationFolderName (t_Hash t) (t_Name t)),
         (''Tracker'', selectTrackerTag (ds_trackerDomains state) True ctx)] SanitizePathSegment of
        None \<Rightarrow> None
      | Some s \<Rightarrow> let resolvedPath = trim_space s in if resolvedPath = [] then None else Some resolvedPath)"

definition evaluateMoveAction :: "eval_lib \<Rightarrow> automation \<Rightarrow> move_action \<Rightarrow> torrent \<Rightarrow> eval_ctx option
    \<Rightarrow> (cross_seed_key, torrent list) gomap \<Rightarrow> outcome \<Rightarrow> outcome" where
  "evaluateMoveAction lib rule a t ctx crossSeedIndex out =
     (let (state, stats) = out in
      case resolveMovePath lib (mv_Path a) t state ctx of
        None \<Rightarrow> (state, count st_MoveConditionNotMet_update stats)
      | Some resolvedPath \<Rightarrow>
          let conditionMet = applies lib (mv_Condition a) t ctx;
              alreadyAtDest = inSavePath t resolvedPath;
              blocked = (trim_space (mv_GroupID a) = [] \<and> shouldBlockMoveForCrossSeeds lib t a crossSeedIndex ctx)
          in if conditionMet \<and> \<not> alreadyAtDest \<and> \<not> blocked then
               (state\<lparr>ds_shouldMove := True, ds_movePath := resolvedPath, ds_moveGroupID := trim_space (mv_GroupID a),
                  ds_moveAtomic := trim_space (mv_Atomic a), ds_moveBlockIfCrossSeed := mv_BlockIfCrossSeed a,
                  ds_moveCondition := mv_Condition a, ds_moveRuleID := au_ID rule, ds_moveRuleName := au_Name rule,
                  ds_moveRule := refOf rule\<rparr>, count st_MoveApplied_update stats)
             else if \<not> conditionMet then (state, count st_MoveConditionNotMet_update stats)
             else if alreadyAtDest then (state, count st_MoveAlreadyAtDestination_update stats)
             else (state, count st_MoveBlockedByCrossSeed_update stats))"

definition applyMove :: "eval_lib \<Rightarrow> automation \<Rightarrow> action_conditions \<Rightarrow> torrent \<Rightarrow> eval_ctx option
    \<Rightarrow> (cross_seed_key, torrent list) gomap \<Rightarrow> outcome \<Rightarrow> outcome" where
  "applyMove lib rule ac t ctx crossSeedIndex out =
     (case ac_Move ac of None \<Rightarrow> out | Some a \<Rightarrow>
        if mv_Enabled a \<and> \<not> ds_shouldMove (fst out) then evaluateMoveAction lib rule a t ctx crossSeedIndex out else out)"

section \<open>Rules and torrents\<close>

text \<open>What stays the same while torrents are processed: libraries, sync manager, all torrents and their indices.\<close>

record batch =
  ba_lib :: eval_lib
  ba_sm :: bool
  ba_torrents :: "torrent list"
  ba_crossSeedIndex :: "(cross_seed_key, torrent list) gomap"
  ba_cpIndex :: "(string, torrent list) gomap"

definition processRuleForTorrent :: "batch \<Rightarrow> automation \<Rightarrow> torrent \<Rightarrow> eval_ctx option \<times> outcome \<Rightarrow> eval_ctx option \<times> outcome" where
  "processRuleForTorrent b rule t acc =
     (case au_Conditions rule of None \<Rightarrow> acc
      | Some ac \<Rightarrow>
          let (ctx, out) = acc; lib = ba_lib b;
              ctx = (if rulesUseCondition [rule] FieldFreeSpace then map_option (LoadFreeSpaceSourceState (GetFreeSpaceRuleKey rule)) ctx else ctx);
              ctx = map_option (activateRuleGrouping lib (ba_sm b) rule (ba_torrents b)) ctx;
              out = applySpeedLimits lib rule ac t ctx out;
              out = applyShareLimits lib rule ac t ctx out;
              out = applyPause lib rule ac t ctx out;
              out = applyResume lib rule ac t ctx out;
              out = applyRecheck lib rule ac t ctx out;
              out = applyReannounce lib rule ac t ctx out;
              out = applyAutoManagement lib rule ac t ctx out;
              out = applyTags lib rule ac t ctx out;
              out = applyCategory lib rule ac t ctx (ba_crossSeedIndex b) out;
              out = applyExternalProgram lib rule ac t ctx out;
              out = applyExport lib rule ac t ctx out;
              (ctx, out) = applyDelete lib rule ac t (ba_cpIndex b) (ctx, out)
          in (ctx, applyMove lib rule ac t ctx (ba_crossSeedIndex b) out))"

definition selectMatchingRules :: "eval_lib \<Rightarrow> torrent \<Rightarrow> automation list \<Rightarrow> automation list" where
  "selectMatchingRules lib t rules =
     (let trackerDomains = collectTrackerDomains lib t in
      filter (\<lambda>rule. au_Enabled rule \<and> matchesTracker lib (au_TrackerPattern rule) trackerDomains) rules)"

definition hasActions :: "desired_state \<Rightarrow> bool" where
  "hasActions state \<longleftrightarrow>
     ds_uploadLimitKiB state \<noteq> None \<or> ds_downloadLimitKiB state \<noteq> None \<or> ds_ratioLimit state \<noteq> None
   \<or> ds_seedingMinutes state \<noteq> None \<or> ds_shouldPause state \<or> ds_shouldResume state \<or> ds_shouldRecheck state
   \<or> ds_shouldReannounce state \<or> ds_shouldAutoManage state \<or> ds_tagActions state \<noteq> [] \<or> ds_category state \<noteq> None
   \<or> ds_shouldDelete state \<or> ds_shouldMove state \<or> ds_externalProgramID state \<noteq> None \<or> ds_exportToInstance state \<noteq> None"

type_synonym rule_tally = "(int, rule_run_stats) gomap option"

text \<open>One rule with its statistics; the rules of a torrent up to the first that deletes it.\<close>

definition processRule :: "batch \<Rightarrow> torrent \<Rightarrow> automation \<Rightarrow> desired_state \<times> eval_ctx option \<times> rule_tally \<Rightarrow> desired_state \<times> eval_ctx option \<times> rule_tally" where
  "processRule b t rule acc =
     (let (state, ctx, stats) = acc;
          ruleStats = count st_MatchedTrackers_update (getOrCreateRuleStats rule stats);
          (ctx, state, ruleStats) = processRuleForTorrent b rule t (ctx, state, ruleStats)
      in (state, ctx, case ruleStats of None \<Rightarrow> stats | Some s \<Rightarrow> map_option (gm_put (au_ID rule) s) stats))"

fun processRules :: "batch \<Rightarrow> torrent \<Rightarrow> automation list \<Rightarrow> desired_state \<times> eval_ctx option \<times> rule_tally \<Rightarrow> desired_state \<times> eval_ctx option \<times> rule_tally" where
  "processRules b t [] acc = acc"
| "processRules b t (rule # rules) acc = (if ds_shouldDelete (fst acc) then acc else processRules b t rules (processRule b t rule acc))"

type_synonym run_state = "(string, desired_state) gomap \<times> eval_ctx option \<times> rule_tally"

definition processTorrent :: "batch \<Rightarrow> (string \<Rightarrow> bool) \<Rightarrow> automation list \<Rightarrow> torrent \<Rightarrow> run_state \<Rightarrow> run_state" where
  "processTorrent b skipCheck rules t acc =
     (let (states, ctx, stats) = acc in
      if skipCheck (t_Hash t) then acc
      else
        let matchingRules = selectMatchingRules (ba_lib b) t rules in
        if matchingRules = [] then acc
        else
          let existing = gm_get states (t_Hash t);
              state = (case existing of Some s \<Rightarrow> s | None \<Rightarrow> initialState t);
              state = state\<lparr>ds_trackerDomains := collectTrackerDomains (ba_lib b) t\<rparr>;
              (state, ctx, stats) = processRules b t matchingRules (state, ctx, stats)
          in (if hasActions state \<or> existing \<noteq> None then gm_put (t_Hash t) state states else states, ctx, stats))"

definition processTorrents :: "eval_lib \<Rightarrow> bool \<Rightarrow> torrent list \<Rightarrow> automation list \<Rightarrow> (string \<Rightarrow> bool) \<Rightarrow> run_state \<Rightarrow> run_state" where
  "processTorrents lib sm torrents rules skipCheck acc =
     (let b = \<lparr>ba_lib = lib, ba_sm = sm, ba_torrents = torrents, ba_crossSeedIndex = buildCrossSeedIndex torrents,
            ba_cpIndex = buildContentPathIndex torrents\<rparr>;
          (states, ctx, stats) = fold (processTorrent b skipCheck rules) torrents acc
      in (states, map_option PersistFreeSpaceSourceState ctx, stats))"

end
