(* ===== verification/Processor_Properties.thy ===== *)
theory Processor_Properties
  imports Rule_Processor Grouping_Properties
begin

text \<open>
  Properties of the processing of rules: what a desired state may contain, when a torrent may be
  deleted, what a tag action achieves, how freed space is counted, and an action that gets lost.
\<close>

section \<open>What actions leave alone\<close>

named_theorems frame \<open>fields of the desired state that an action does not change\<close>

lemma manageTag_frame:
  "ds_shouldDelete (manageTag ref mode reset matches tag s) = ds_shouldDelete s"
  "ds_deleteMode (manageTag ref mode reset matches tag s) = ds_deleteMode s"
  "ds_deleteRuleID (manageTag ref mode reset matches tag s) = ds_deleteRuleID s"
  "ds_shouldPause (manageTag ref mode reset matches tag s) = ds_shouldPause s"
  "ds_shouldResume (manageTag ref mode reset matches tag s) = ds_shouldResume s"
  "ds_shouldRecheck (manageTag ref mode reset matches tag s) = ds_shouldRecheck s"
  "ds_shouldAutoManage (manageTag ref mode reset matches tag s) = ds_shouldAutoManage s"
  "ds_autoManageValue (manageTag ref mode reset matches tag s) = ds_autoManageValue s"
  "ds_currentTags (manageTag ref mode reset matches tag s) = ds_currentTags s"
  "ds_trackerDomains (manageTag ref mode reset matches tag s) = ds_trackerDomains s"
  by (simp_all add: manageTag_def Let_def)

lemma fold_manageTag_frame:
  "ds_shouldDelete (fold (manageTag ref mode reset matches) tags s) = ds_shouldDelete s"
  "ds_deleteMode (fold (manageTag ref mode reset matches) tags s) = ds_deleteMode s"
  "ds_deleteRuleID (fold (manageTag ref mode reset matches) tags s) = ds_deleteRuleID s"
  "ds_shouldPause (fold (manageTag ref mode reset matches) tags s) = ds_shouldPause s"
  "ds_shouldResume (fold (manageTag ref mode reset matches) tags s) = ds_shouldResume s"
  "ds_shouldRecheck (fold (manageTag ref mode reset matches) tags s) = ds_shouldRecheck s"
  "ds_shouldAutoManage (fold (manageTag ref mode reset matches) tags s) = ds_shouldAutoManage s"
  "ds_autoManageValue (fold (manageTag ref mode reset matches) tags s) = ds_autoManageValue s"
  "ds_currentTags (fold (manageTag ref mode reset matches) tags s) = ds_currentTags s"
  "ds_trackerDomains (fold (manageTag ref mode reset matches) tags s) = ds_trackerDomains s"
  by (induction tags arbitrary: s) (simp_all add: manageTag_frame)

lemma applyTagAction_frame:
  "ds_shouldDelete (fst (applyTagAction lib rule t ctx a out)) = ds_shouldDelete (fst out)"
  "ds_deleteMode (fst (applyTagAction lib rule t ctx a out)) = ds_deleteMode (fst out)"
  "ds_deleteRuleID (fst (applyTagAction lib rule t ctx a out)) = ds_deleteRuleID (fst out)"
  "ds_shouldPause (fst (applyTagAction lib rule t ctx a out)) = ds_shouldPause (fst out)"
  "ds_shouldResume (fst (applyTagAction lib rule t ctx a out)) = ds_shouldResume (fst out)"
  "ds_shouldRecheck (fst (applyTagAction lib rule t ctx a out)) = ds_shouldRecheck (fst out)"
  "ds_shouldAutoManage (fst (applyTagAction lib rule t ctx a out)) = ds_shouldAutoManage (fst out)"
  "ds_autoManageValue (fst (applyTagAction lib rule t ctx a out)) = ds_autoManageValue (fst out)"
  by (cases out; cases a; simp add: applyTagAction_def processTagAction_def Let_def fold_manageTag_frame)+

lemma applySpeedLimits_frame [frame]:
  "ds_shouldDelete (fst (applySpeedLimits lib rule ac t ctx out)) = ds_shouldDelete (fst out)"
  "ds_deleteMode (fst (applySpeedLimits lib rule ac t ctx out)) = ds_deleteMode (fst out)"
  "ds_deleteRuleID (fst (applySpeedLimits lib rule ac t ctx out)) = ds_deleteRuleID (fst out)"
  "ds_shouldPause (fst (applySpeedLimits lib rule ac t ctx out)) = ds_shouldPause (fst out)"
  "ds_shouldResume (fst (applySpeedLimits lib rule ac t ctx out)) = ds_shouldResume (fst out)"
  "ds_shouldRecheck (fst (applySpeedLimits lib rule ac t ctx out)) = ds_shouldRecheck (fst out)"
  "ds_shouldAutoManage (fst (applySpeedLimits lib rule ac t ctx out)) = ds_shouldAutoManage (fst out)"
  "ds_autoManageValue (fst (applySpeedLimits lib rule ac t ctx out)) = ds_autoManageValue (fst out)"
  "ds_tagActions (fst (applySpeedLimits lib rule ac t ctx out)) = ds_tagActions (fst out)"
  by (cases out; simp add: applySpeedLimits_def Let_def split: option.split)+

lemma applyShareLimits_frame [frame]:
  "ds_shouldDelete (fst (applyShareLimits lib rule ac t ctx out)) = ds_shouldDelete (fst out)"
  "ds_deleteMode (fst (applyShareLimits lib rule ac t ctx out)) = ds_deleteMode (fst out)"
  "ds_deleteRuleID (fst (applyShareLimits lib rule ac t ctx out)) = ds_deleteRuleID (fst out)"
  "ds_shouldPause (fst (applyShareLimits lib rule ac t ctx out)) = ds_shouldPause (fst out)"
  "ds_shouldResume (fst (applyShareLimits lib rule ac t ctx out)) = ds_shouldResume (fst out)"
  "ds_shouldRecheck (fst (applyShareLimits lib rule ac t ctx out)) = ds_shouldRecheck (fst out)"
  "ds_shouldAutoManage (fst (applyShareLimits lib rule ac t ctx out)) = ds_shouldAutoManage (fst out)"
  "ds_autoManageValue (fst (applyShareLimits lib rule ac t ctx out)) = ds_autoManageValue (fst out)"
  "ds_tagActions (fst (applyShareLimits lib rule ac t ctx out)) = ds_tagActions (fst out)"
  by (cases out; simp add: applyShareLimits_def Let_def split: option.split)+

lemma applyPause_frame [frame]:
  "ds_shouldDelete (fst (applyPause lib rule ac t ctx out)) = ds_shouldDelete (fst out)"
  "ds_deleteMode (fst (applyPause lib rule ac t ctx out)) = ds_deleteMode (fst out)"
  "ds_deleteRuleID (fst (applyPause lib rule ac t ctx out)) = ds_deleteRuleID (fst out)"
  "ds_shouldRecheck (fst (applyPause lib rule ac t ctx out)) = ds_shouldRecheck (fst out)"
  "ds_shouldAutoManage (fst (applyPause lib rule ac t ctx out)) = ds_shouldAutoManage (fst out)"
  "ds_autoManageValue (fst (applyPause lib rule ac t ctx out)) = ds_autoManageValue (fst out)"
  "ds_tagActions (fst (applyPause lib rule ac t ctx out)) = ds_tagActions (fst out)"
  by (cases out; simp add: applyPause_def Let_def split: option.split)+

lemma applyResume_frame [frame]:
  "ds_shouldDelete (fst (applyResume lib rule ac t ctx out)) = ds_shouldDelete (fst out)"
  "ds_deleteMode (fst (applyResume lib rule ac t ctx out)) = ds_deleteMode (fst out)"
  "ds_deleteRuleID (fst (applyResume lib rule ac t ctx out)) = ds_deleteRuleID (fst out)"
  "ds_shouldRecheck (fst (applyResume lib rule ac t ctx out)) = ds_shouldRecheck (fst out)"
  "ds_shouldAutoManage (fst (applyResume lib rule ac t ctx out)) = ds_shouldAutoManage (fst out)"
  "ds_autoManageValue (fst (applyResume lib rule ac t ctx out)) = ds_autoManageValue (fst out)"
  "ds_tagActions (fst (applyResume lib rule ac t ctx out)) = ds_tagActions (fst out)"
  by (cases out; simp add: applyResume_def Let_def split: option.split)+

lemma applyRecheck_frame [frame]:
  "ds_shouldDelete (fst (applyRecheck lib rule ac t ctx out)) = ds_shouldDelete (fst out)"
  "ds_deleteMode (fst (applyRecheck lib rule ac t ctx out)) = ds_deleteMode (fst out)"
  "ds_deleteRuleID (fst (applyRecheck lib rule ac t ctx out)) = ds_deleteRuleID (fst out)"
  "ds_shouldPause (fst (applyRecheck lib rule ac t ctx out)) = ds_shouldPause (fst out)"
  "ds_shouldResume (fst (applyRecheck lib rule ac t ctx out)) = ds_shouldResume (fst out)"
  "ds_shouldAutoManage (fst (applyRecheck lib rule ac t ctx out)) = ds_shouldAutoManage (fst out)"
  "ds_autoManageValue (fst (applyRecheck lib rule ac t ctx out)) = ds_autoManageValue (fst out)"
  "ds_tagActions (fst (applyRecheck lib rule ac t ctx out)) = ds_tagActions (fst out)"
  by (cases out; simp add: applyRecheck_def Let_def split: option.split)+

lemma applyReannounce_frame [frame]:
  "ds_shouldDelete (fst (applyReannounce lib rule ac t ctx out)) = ds_shouldDelete (fst out)"
  "ds_deleteMode (fst (applyReannounce lib rule ac t ctx out)) = ds_deleteMode (fst out)"
  "ds_deleteRuleID (fst (applyReannounce lib rule ac t ctx out)) = ds_deleteRuleID (fst out)"
  "ds_shouldPause (fst (applyReannounce lib rule ac t ctx out)) = ds_shouldPause (fst out)"
  "ds_shouldResume (fst (applyReannounce lib rule ac t ctx out)) = ds_shouldResume (fst out)"
  "ds_shouldRecheck (fst (applyReannounce lib rule ac t ctx out)) = ds_shouldRecheck (fst out)"
  "ds_shouldAutoManage (fst (applyReannounce lib rule ac t ctx out)) = ds_shouldAutoManage (fst out)"
  "ds_autoManageValue (fst (applyReannounce lib rule ac t ctx out)) = ds_autoManageValue (fst out)"
  "ds_tagActions (fst (applyReannounce lib rule ac t ctx out)) = ds_tagActions (fst out)"
  by (cases out; simp add: applyReannounce_def Let_def split: option.split)+

lemma applyAutoManagement_frame [frame]:
  "ds_shouldDelete (fst (applyAutoManagement lib rule ac t ctx out)) = ds_shouldDelete (fst out)"
  "ds_deleteMode (fst (applyAutoManagement lib rule ac t ctx out)) = ds_deleteMode (fst out)"
  "ds_deleteRuleID (fst (applyAutoManagement lib rule ac t ctx out)) = ds_deleteRuleID (fst out)"
  "ds_shouldPause (fst (applyAutoManagement lib rule ac t ctx out)) = ds_shouldPause (fst out)"
  "ds_shouldResume (fst (applyAutoManagement lib rule ac t ctx out)) = ds_shouldResume (fst out)"
  "ds_shouldRecheck (fst (applyAutoManagement lib rule ac t ctx out)) = ds_shouldRecheck (fst out)"
  "ds_tagActions (fst (applyAutoManagement lib rule ac t ctx out)) = ds_tagActions (fst out)"
  by (cases out; simp add: applyAutoManagement_def Let_def split: option.split)+

lemma fold_applyTagAction_frame:
  "ds_shouldDelete (fst (fold (applyTagAction lib rule t ctx) actions out)) = ds_shouldDelete (fst out)"
  "ds_deleteMode (fst (fold (applyTagAction lib rule t ctx) actions out)) = ds_deleteMode (fst out)"
  "ds_deleteRuleID (fst (fold (applyTagAction lib rule t ctx) actions out)) = ds_deleteRuleID (fst out)"
  "ds_shouldPause (fst (fold (applyTagAction lib rule t ctx) actions out)) = ds_shouldPause (fst out)"
  "ds_shouldResume (fst (fold (applyTagAction lib rule t ctx) actions out)) = ds_shouldResume (fst out)"
  "ds_shouldRecheck (fst (fold (applyTagAction lib rule t ctx) actions out)) = ds_shouldRecheck (fst out)"
  "ds_shouldAutoManage (fst (fold (applyTagAction lib rule t ctx) actions out)) = ds_shouldAutoManage (fst out)"
  "ds_autoManageValue (fst (fold (applyTagAction lib rule t ctx) actions out)) = ds_autoManageValue (fst out)"
  by (induction actions arbitrary: out) (simp_all add: applyTagAction_frame)

lemma applyTags_frame [frame]:
  "ds_shouldDelete (fst (applyTags lib rule ac t ctx out)) = ds_shouldDelete (fst out)"
  "ds_deleteMode (fst (applyTags lib rule ac t ctx out)) = ds_deleteMode (fst out)"
  "ds_deleteRuleID (fst (applyTags lib rule ac t ctx out)) = ds_deleteRuleID (fst out)"
  "ds_shouldPause (fst (applyTags lib rule ac t ctx out)) = ds_shouldPause (fst out)"
  "ds_shouldResume (fst (applyTags lib rule ac t ctx out)) = ds_shouldResume (fst out)"
  "ds_shouldRecheck (fst (applyTags lib rule ac t ctx out)) = ds_shouldRecheck (fst out)"
  "ds_shouldAutoManage (fst (applyTags lib rule ac t ctx out)) = ds_shouldAutoManage (fst out)"
  "ds_autoManageValue (fst (applyTags lib rule ac t ctx out)) = ds_autoManageValue (fst out)"
  unfolding applyTags_def by (rule fold_applyTagAction_frame)+

lemma applyCategory_frame [frame]:
  "ds_shouldDelete (fst (applyCategory lib rule ac t ctx idx out)) = ds_shouldDelete (fst out)"
  "ds_deleteMode (fst (applyCategory lib rule ac t ctx idx out)) = ds_deleteMode (fst out)"
  "ds_deleteRuleID (fst (applyCategory lib rule ac t ctx idx out)) = ds_deleteRuleID (fst out)"
  "ds_shouldPause (fst (applyCategory lib rule ac t ctx idx out)) = ds_shouldPause (fst out)"
  "ds_shouldResume (fst (applyCategory lib rule ac t ctx idx out)) = ds_shouldResume (fst out)"
  "ds_shouldRecheck (fst (applyCategory lib rule ac t ctx idx out)) = ds_shouldRecheck (fst out)"
  "ds_shouldAutoManage (fst (applyCategory lib rule ac t ctx idx out)) = ds_shouldAutoManage (fst out)"
  "ds_autoManageValue (fst (applyCategory lib rule ac t ctx idx out)) = ds_autoManageValue (fst out)"
  "ds_tagActions (fst (applyCategory lib rule ac t ctx idx out)) = ds_tagActions (fst out)"
  by (cases out; simp add: applyCategory_def Let_def split: option.split)+

lemma applyExternalProgram_frame [frame]:
  "ds_shouldDelete (fst (applyExternalProgram lib rule ac t ctx out)) = ds_shouldDelete (fst out)"
  "ds_deleteMode (fst (applyExternalProgram lib rule ac t ctx out)) = ds_deleteMode (fst out)"
  "ds_deleteRuleID (fst (applyExternalProgram lib rule ac t ctx out)) = ds_deleteRuleID (fst out)"
  "ds_shouldPause (fst (applyExternalProgram lib rule ac t ctx out)) = ds_shouldPause (fst out)"
  "ds_shouldResume (fst (applyExternalProgram lib rule ac t ctx out)) = ds_shouldResume (fst out)"
  "ds_shouldRecheck (fst (applyExternalProgram lib rule ac t ctx out)) = ds_shouldRecheck (fst out)"
  "ds_shouldAutoManage (fst (applyExternalProgram lib rule ac t ctx out)) = ds_shouldAutoManage (fst out)"
  "ds_autoManageValue (fst (applyExternalProgram lib rule ac t ctx out)) = ds_autoManageValue (fst out)"
  "ds_tagActions (fst (applyExternalProgram lib rule ac t ctx out)) = ds_tagActions (fst out)"
  by (cases out; simp add: applyExternalProgram_def Let_def split: option.split)+

lemma applyExport_frame [frame]:
  "ds_shouldDelete (fst (applyExport lib rule ac t ctx out)) = ds_shouldDelete (fst out)"
  "ds_deleteMode (fst (applyExport lib rule ac t ctx out)) = ds_deleteMode (fst out)"
  "ds_deleteRuleID (fst (applyExport lib rule ac t ctx out)) = ds_deleteRuleID (fst out)"
  "ds_shouldPause (fst (applyExport lib rule ac t ctx out)) = ds_shouldPause (fst out)"
  "ds_shouldResume (fst (applyExport lib rule ac t ctx out)) = ds_shouldResume (fst out)"
  "ds_shouldRecheck (fst (applyExport lib rule ac t ctx out)) = ds_shouldRecheck (fst out)"
  "ds_shouldAutoManage (fst (applyExport lib rule ac t ctx out)) = ds_shouldAutoManage (fst out)"
  "ds_autoManageValue (fst (applyExport lib rule ac t ctx out)) = ds_autoManageValue (fst out)"
  "ds_tagActions (fst (applyExport lib rule ac t ctx out)) = ds_tagActions (fst out)"
  by (cases out; simp add: applyExport_def Let_def split: option.split)+

lemma applyMove_frame [frame]:
  "ds_shouldDelete (fst (applyMove lib rule ac t ctx idx out)) = ds_shouldDelete (fst out)"
  "ds_deleteMode (fst (applyMove lib rule ac t ctx idx out)) = ds_deleteMode (fst out)"
  "ds_deleteRuleID (fst (applyMove lib rule ac t ctx idx out)) = ds_deleteRuleID (fst out)"
  "ds_shouldPause (fst (applyMove lib rule ac t ctx idx out)) = ds_shouldPause (fst out)"
  "ds_shouldResume (fst (applyMove lib rule ac t ctx idx out)) = ds_shouldResume (fst out)"
  "ds_shouldRecheck (fst (applyMove lib rule ac t ctx idx out)) = ds_shouldRecheck (fst out)"
  "ds_shouldAutoManage (fst (applyMove lib rule ac t ctx idx out)) = ds_shouldAutoManage (fst out)"
  "ds_autoManageValue (fst (applyMove lib rule ac t ctx idx out)) = ds_autoManageValue (fst out)"
  "ds_tagActions (fst (applyMove lib rule ac t ctx idx out)) = ds_tagActions (fst out)"
  by (cases out; simp add: applyMove_def evaluateMoveAction_def Let_def split: option.split)+


section \<open>What holds of every desired state\<close>

text \<open>
  A property of a torrent and its desired state that holds initially and is kept by every rule that
  applies to the torrent holds of every state a run returns.
\<close>

lemma processRules_invariant:
  assumes "\<And>rule ctx state stats. rule \<in> set rules \<Longrightarrow> P state \<Longrightarrow> \<not> ds_shouldDelete state \<Longrightarrow>
      P (fst (snd (processRuleForTorrent b rule t (ctx, state, stats))))"
    and "P (fst acc)"
  shows "P (fst (processRules b t rules acc))"
  using assms
proof (induction rules arbitrary: acc)
  case (Cons rule rules)
  obtain state ctx stats where acc: "acc = (state, ctx, stats)"
    using prod_cases3 by blast
  have "P (fst (processRule b t rule acc))" if "\<not> ds_shouldDelete state"
    using Cons.prems(1) [of rule state ctx "count st_MatchedTrackers_update (getOrCreateRuleStats rule stats)"] Cons.prems(2) that
    by (simp add: processRule_def acc Let_def split_beta)
  with Cons show ?case
    by (auto simp: acc)
qed simp

lemma processTorrents_invariant:
  assumes "distinct (map t_Hash ts)"
    and init: "\<And>t. t \<in> set ts \<Longrightarrow> P t ((initialState t)\<lparr>ds_trackerDomains := collectTrackerDomains lib t\<rparr>)"
    and step: "\<And>t rule b ctx state stats. t \<in> set ts \<Longrightarrow> ba_lib b = lib \<Longrightarrow> rule \<in> set (selectMatchingRules lib t rules) \<Longrightarrow> P t state \<Longrightarrow>
      \<not> ds_shouldDelete state \<Longrightarrow> P t (fst (snd (processRuleForTorrent b rule t (ctx, state, stats))))"
    and result: "gm_get (fst (processTorrents lib sm ts rules skip ([], ctx, stats))) h = Some state"
  shows "\<exists>t \<in> set ts. t_Hash t = h \<and> P t state"
proof -
  define b where "b = \<lparr>ba_lib = lib, ba_sm = sm, ba_torrents = ts, ba_crossSeedIndex = buildCrossSeedIndex ts,
      ba_cpIndex = buildContentPathIndex ts\<rparr>"
  have "(\<forall>h state. gm_get (fst (fold (processTorrent b skip rules) us ([], ctx, stats))) h = Some state \<longrightarrow>
      (\<exists>t \<in> set us. t_Hash t = h \<and> P t state))" if "set us \<subseteq> set ts" "distinct (map t_Hash us)" for us
    using that
  proof (induction us rule: rev_induct)
    case (snoc u us)
    define acc where "acc = fold (processTorrent b skip rules) us ([], ctx, stats)"
    obtain states ctx' stats' where acc': "acc = (states, ctx', stats')"
      using prod_cases3 by blast
    have IH: "gm_get states h = Some state \<Longrightarrow> \<exists>t \<in> set us. t_Hash t = h \<and> P t state" for h state
      using snoc acc' by (auto simp: acc_def)
    have "t_Hash u \<notin> t_Hash ` set us"
      using snoc.prems(2) by simp
    then have new: "gm_get states (t_Hash u) = None"
      using IH by (metis imageI not_None_eq)
    define s0 where "s0 = (initialState u)\<lparr>ds_trackerDomains := collectTrackerDomains lib u\<rparr>"
    define r where "r = processRules b u (selectMatchingRules lib u rules) (s0, ctx', stats')"
    have u: "u \<in> set ts" "ba_lib b = lib"
      using snoc.prems(1) by (simp_all add: b_def)
    have "P u (fst r)"
      unfolding r_def
    proof (rule processRules_invariant)
      show "P u (fst (s0, ctx', stats'))"
        using init [OF u(1)] by (simp add: s0_def)
    qed (rule step [OF u])
    moreover have "fst (processTorrent b skip rules u acc) = states \<or> fst (processTorrent b skip rules u acc) = gm_put (t_Hash u) (fst r) states"
      using new by (auto simp: processTorrent_def acc' Let_def r_def s0_def b_def split: prod.split)
    ultimately show ?case
      using IH by (fastforce simp: acc_def [symmetric] split: if_splits)
  qed simp
  moreover have "fst (processTorrents lib sm ts rules skip ([], ctx, stats)) = fst (fold (processTorrent b skip rules) ts ([], ctx, stats))"
    by (simp add: processTorrents_def b_def Let_def split_beta)
  ultimately show ?thesis
    using assms(1) result by auto
qed


lemma applyDelete_cases:
  "fst (snd (applyDelete lib rule ac t idx (ctx, out))) = fst out
   \<or> (\<exists>a. ac_Delete ac = Some a \<and> del_Enabled a \<and> del_Condition a \<noteq> None
        \<and> EvaluateConditionWithContext lib (del_Condition a) t ctx 0
        \<and> fst (snd (applyDelete lib rule ac t idx (ctx, out))) = markDeleted rule a (fst out))"
  by (cases out; cases "ac_Delete ac") (auto simp: applyDelete_def Let_def)

text \<open>The state an action list leaves, up to the deletion.\<close>

definition beforeDelete :: "batch \<Rightarrow> automation \<Rightarrow> action_conditions \<Rightarrow> torrent \<Rightarrow> eval_ctx option \<Rightarrow> outcome \<Rightarrow> outcome" where
  "beforeDelete b rule ac t ctx out =
     (let lib = ba_lib b in
      applyExport lib rule ac t ctx (applyExternalProgram lib rule ac t ctx (applyCategory lib rule ac t ctx (ba_crossSeedIndex b)
        (applyTags lib rule ac t ctx (applyAutoManagement lib rule ac t ctx (applyReannounce lib rule ac t ctx
          (applyRecheck lib rule ac t ctx (applyResume lib rule ac t ctx (applyPause lib rule ac t ctx
            (applyShareLimits lib rule ac t ctx (applySpeedLimits lib rule ac t ctx out)))))))))))"

lemma processRuleForTorrent_split:
  "\<exists>ctx'. processRuleForTorrent b rule t (ctx, out) =
     (case au_Conditions rule of None \<Rightarrow> (ctx, out)
      | Some ac \<Rightarrow> (let r = applyDelete (ba_lib b) rule ac t (ba_cpIndex b) (ctx', beforeDelete b rule ac t ctx' out) in
          (fst r, applyMove (ba_lib b) rule ac t (fst r) (ba_crossSeedIndex b) (snd r))))"
  by (cases "au_Conditions rule") (auto simp: processRuleForTorrent_def beforeDelete_def Let_def split_beta)

lemma processRuleForTorrent_states:
  assumes "\<And>ac ctx. au_Conditions rule = Some ac \<Longrightarrow> Q (fst (beforeDelete b rule ac t ctx out))"
    and "\<And>ac a ctx. au_Conditions rule = Some ac \<Longrightarrow> ac_Delete ac = Some a \<Longrightarrow> del_Enabled a \<Longrightarrow> del_Condition a \<noteq> None \<Longrightarrow>
      EvaluateConditionWithContext (ba_lib b) (del_Condition a) t ctx 0 \<Longrightarrow> Q (markDeleted rule a (fst (beforeDelete b rule ac t ctx out)))"
    and "\<And>ac ctx out. Q (fst out) \<Longrightarrow> Q (fst (applyMove (ba_lib b) rule ac t ctx (ba_crossSeedIndex b) out))"
    and "Q (fst out)"
  shows "Q (fst (snd (processRuleForTorrent b rule t (ctx, out))))"
proof (cases "au_Conditions rule")
  case None
  with assms(4) show ?thesis
    by (simp add: processRuleForTorrent_def)
next
  case (Some ac)
  obtain ctx' where split: "processRuleForTorrent b rule t (ctx, out) =
      (let r = applyDelete (ba_lib b) rule ac t (ba_cpIndex b) (ctx', beforeDelete b rule ac t ctx' out) in
          (fst r, applyMove (ba_lib b) rule ac t (fst r) (ba_crossSeedIndex b) (snd r)))"
    using processRuleForTorrent_split [of b rule t ctx out] Some by auto
  have "Q (fst (snd (applyDelete (ba_lib b) rule ac t (ba_cpIndex b) (ctx', beforeDelete b rule ac t ctx' out))))"
    using applyDelete_cases [of "ba_lib b" rule ac t "ba_cpIndex b" ctx' "beforeDelete b rule ac t ctx' out"] assms(1,2) [OF Some]
    by metis
  then show ?thesis
    using assms(3) unfolding split Let_def snd_conv by blast
qed

text \<open>
  C31. Nothing is deleted without a reason: a run marks a torrent for deletion only if it has an enabled
  rule whose pattern matches the trackers of the torrent and which has an enabled delete action with an
  explicit condition that held of the torrent; mode and rule of the deletion are those of that action,
  and the mode is never empty.
\<close>

theorem processTorrents_delete_justified:
  assumes "distinct (map t_Hash ts)"
    "gm_get (fst (processTorrents lib sm ts rules skip ([], ctx, stats))) h = Some state" "ds_shouldDelete state"
  shows "\<exists>t \<in> set ts. \<exists>rule \<in> set rules. \<exists>ac a ctx'. t_Hash t = h
    \<and> au_Enabled rule \<and> matchesTracker lib (au_TrackerPattern rule) (collectTrackerDomains lib t)
    \<and> au_Conditions rule = Some ac \<and> ac_Delete ac = Some a \<and> del_Enabled a \<and> del_Condition a \<noteq> None
    \<and> EvaluateConditionWithContext lib (del_Condition a) t ctx' 0 \<and> ds_deleteRuleID state = au_ID rule
    \<and> ds_deleteMode state = (if del_Mode a = [] then DeleteModeKeepFiles else del_Mode a)"
proof -
  define P where "P = (\<lambda>t (state :: desired_state). ds_shouldDelete state \<longrightarrow> (\<exists>rule \<in> set (selectMatchingRules lib t rules). \<exists>ac a ctx'.
      au_Conditions rule = Some ac \<and> ac_Delete ac = Some a \<and> del_Enabled a \<and> del_Condition a \<noteq> None
    \<and> EvaluateConditionWithContext lib (del_Condition a) t ctx' 0 \<and> ds_deleteRuleID state = au_ID rule
    \<and> ds_deleteMode state = (if del_Mode a = [] then DeleteModeKeepFiles else del_Mode a)))"
  have "\<exists>t \<in> set ts. t_Hash t = h \<and> P t state"
  proof (rule processTorrents_invariant [OF assms(1) _ _ assms(2)])
    fix t rule and b :: batch and ctx and state :: desired_state and stats
    assume rule: "ba_lib b = lib" "rule \<in> set (selectMatchingRules lib t rules)" and kept: "\<not> ds_shouldDelete state"
    show "P t (fst (snd (processRuleForTorrent b rule t (ctx, state, stats))))"
    proof (rule processRuleForTorrent_states)
      show "P t (fst (beforeDelete b rule ac t ctx (state, stats)))" for ac ctx
        using kept by (simp add: P_def beforeDelete_def Let_def frame)
      show "P t (fst (applyMove (ba_lib b) rule ac t ctx (ba_crossSeedIndex b) out))" if "P t (fst out)" for ac ctx out
        using that unfolding P_def by (simp only: frame)
    qed (use kept rule in \<open>auto simp: P_def markDeleted_def\<close>)
  qed (simp_all add: P_def initialState_def)
  moreover have "rule \<in> set rules \<and> au_Enabled rule \<and> matchesTracker lib (au_TrackerPattern rule) (collectTrackerDomains lib t)"
    if "rule \<in> set (selectMatchingRules lib t rules)" for t rule
    using that by (simp add: selectMatchingRules_def Let_def)
  ultimately show ?thesis
    using assms(3) unfolding P_def by blast
qed

definition demo_run :: "automation list \<Rightarrow> run_state" where
  "demo_run rules = processTorrents demo_lib True [demo_member ''a'', demo_member ''b''] rules (\<lambda>_. False) ([], None, Some [])"

lemma demo_members: "distinct (map t_Hash [demo_member ''a'', demo_member ''b''])"
  by (simp add: demo_member_def sample_torrent_def)

definition demo_delete_rule :: automation where
  "demo_delete_rule = demo_rule ((demo_actions None None)\<lparr>ac_Delete := Some \<lparr>del_Enabled = True, del_Mode = [], del_IncludeHardlinks = False,
     del_GroupID = [], del_Atomic = [], del_Condition = Some (demo_leaf FieldHash OperatorEqual ''A'' False)\<rparr>\<rparr>)"

theorem processTorrents_delete_justified_witness:
  "ds_shouldDelete (the (gm_get (fst (demo_run [demo_delete_rule])) ''a'')) \<and> ds_deleteRuleID (the (gm_get (fst (demo_run [demo_delete_rule])) ''a'')) = 7
   \<and> gm_get (fst (demo_run [demo_delete_rule])) ''b'' = None"
proof -
  have some: "gm_get (fst (demo_run [demo_delete_rule])) ''a'' \<noteq> None" "gm_get (fst (demo_run [demo_delete_rule])) ''b'' = None"
    by code_simp+
  have "ds_shouldDelete (the (gm_get (fst (demo_run [demo_delete_rule])) ''a''))"
    by code_simp
  moreover have "gm_get (fst (demo_run [demo_delete_rule])) ''a'' = Some (the (gm_get (fst (demo_run [demo_delete_rule])) ''a''))"
    using some(1) by auto
  moreover have "au_ID demo_delete_rule = 7"
    by (simp add: demo_delete_rule_def demo_rule_def)
  ultimately show ?thesis
    using processTorrents_delete_justified [OF demo_members, of demo_lib True "[demo_delete_rule]" "\<lambda>_. False" None "Some []" "''a''"] some(2)
    unfolding demo_run_def by auto
qed

text \<open>Switches that fit the state of the torrent, and tag actions of the two kinds.\<close>

definition consistent :: "torrent \<Rightarrow> desired_state \<Rightarrow> bool" where
  "consistent t s \<longleftrightarrow>
     (ds_shouldPause s \<longrightarrow> \<not> List.member pausedStates (t_State t)) \<and> (ds_shouldResume s \<longrightarrow> List.member pausedStates (t_State t))
   \<and> (ds_shouldRecheck s \<longrightarrow> \<not> List.member checkingStates (t_State t))
   \<and> (ds_shouldAutoManage s \<longrightarrow> ds_autoManageValue s \<noteq> t_AutoManaged t)
   \<and> (\<forall>tag a. gm_get (ds_tagActions s) tag = Some a \<longrightarrow> a = tagAdd \<or> a = tagRemove)"

lemma consistent_manageTag: "consistent t s \<Longrightarrow> consistent t (manageTag ref mode reset matches tag s)"
  unfolding consistent_def manageTag_frame by (auto simp: manageTag_def Let_def)

lemma consistent_applyTagAction: "consistent t (fst out) \<Longrightarrow> consistent t (fst (applyTagAction lib rule t ctx a out))"
proof -
  have "consistent t s \<Longrightarrow> consistent t (fold (manageTag ref mode reset matches) tags s)" for ref mode reset matches tags s
    by (induction tags arbitrary: s) (simp_all add: consistent_manageTag)
  then show "consistent t (fst out) \<Longrightarrow> consistent t (fst (applyTagAction lib rule t ctx a out))"
    by (cases out; cases a) (simp_all add: applyTagAction_def processTagAction_def Let_def)
qed

lemma consistent_applyTags: "consistent t (fst out) \<Longrightarrow> consistent t (fst (applyTags lib rule ac t ctx out))"
proof -
  have "consistent t (fst out) \<Longrightarrow> consistent t (fst (fold (applyTagAction lib rule t ctx) actions out))" for actions out
    by (induction actions arbitrary: out) (simp_all add: consistent_applyTagAction)
  then show "consistent t (fst out) \<Longrightarrow> consistent t (fst (applyTags lib rule ac t ctx out))"
    by (simp add: applyTags_def)
qed

lemma consistent_switches:
  "consistent t (fst out) \<Longrightarrow> consistent t (fst (applyPause lib rule ac t ctx out))"
  "consistent t (fst out) \<Longrightarrow> consistent t (fst (applyResume lib rule ac t ctx out))"
  "consistent t (fst out) \<Longrightarrow> consistent t (fst (applyRecheck lib rule ac t ctx out))"
  "consistent t (fst out) \<Longrightarrow> consistent t (fst (applyAutoManagement lib rule ac t ctx out))"
  by (cases out; auto simp: consistent_def applyPause_def applyResume_def applyRecheck_def applyAutoManagement_def Let_def split: option.split)+

lemma consistent_others:
  "consistent t (fst out) \<Longrightarrow> consistent t (fst (applySpeedLimits lib rule ac t ctx out))"
  "consistent t (fst out) \<Longrightarrow> consistent t (fst (applyShareLimits lib rule ac t ctx out))"
  "consistent t (fst out) \<Longrightarrow> consistent t (fst (applyReannounce lib rule ac t ctx out))"
  "consistent t (fst out) \<Longrightarrow> consistent t (fst (applyCategory lib rule ac t ctx idx out))"
  "consistent t (fst out) \<Longrightarrow> consistent t (fst (applyExternalProgram lib rule ac t ctx out))"
  "consistent t (fst out) \<Longrightarrow> consistent t (fst (applyExport lib rule ac t ctx out))"
  "consistent t (fst out) \<Longrightarrow> consistent t (fst (applyMove lib rule ac t ctx idx out))"
  unfolding consistent_def by (simp_all only: frame)

lemma consistent_beforeDelete: "consistent t (fst out) \<Longrightarrow> consistent t (fst (beforeDelete b rule ac t ctx out))"
  unfolding beforeDelete_def Let_def by (intro consistent_switches consistent_others consistent_applyTags)

text \<open>
  C32. Desired states are consistent: a run never asks to pause and to resume the same torrent, pauses
  only torrents that are not paused, resumes only paused ones, does not recheck a torrent that is being
  checked, changes automatic management only to another value, and every tag action adds or removes.
\<close>

theorem processTorrents_consistent:
  assumes "distinct (map t_Hash ts)"
    "gm_get (fst (processTorrents lib sm ts rules skip ([], ctx, stats))) h = Some state"
  shows "\<exists>t \<in> set ts. t_Hash t = h \<and> \<not> (ds_shouldPause state \<and> ds_shouldResume state)
    \<and> (ds_shouldPause state \<longrightarrow> \<not> List.member pausedStates (t_State t)) \<and> (ds_shouldResume state \<longrightarrow> List.member pausedStates (t_State t))
    \<and> (ds_shouldRecheck state \<longrightarrow> \<not> List.member checkingStates (t_State t))
    \<and> (ds_shouldAutoManage state \<longrightarrow> ds_autoManageValue state \<noteq> t_AutoManaged t)
    \<and> (\<forall>tag a. gm_get (ds_tagActions state) tag = Some a \<longrightarrow> a = tagAdd \<or> a = tagRemove)"
proof -
  have "\<exists>t \<in> set ts. t_Hash t = h \<and> consistent t state"
  proof (rule processTorrents_invariant [OF assms(1) _ _ assms(2)])
    fix t rule and b :: batch and ctx and state :: desired_state and stats
    assume ok: "consistent t state"
    show "consistent t (fst (snd (processRuleForTorrent b rule t (ctx, state, stats))))"
    proof (rule processRuleForTorrent_states)
      show "consistent t (fst (beforeDelete b rule ac t ctx (state, stats)))" for ac ctx
        using ok by (simp add: consistent_beforeDelete)
      then show "consistent t (markDeleted rule a (fst (beforeDelete b rule ac t ctx (state, stats))))" for ac a ctx
        by (simp add: consistent_def markDeleted_def)
    qed (use ok in \<open>simp_all add: consistent_others\<close>)
  qed (simp add: consistent_def initialState_def)
  then show ?thesis
    unfolding consistent_def by blast
qed

definition demo_both_rule :: automation where
  "demo_both_rule = demo_rule ((demo_actions (Some \<lparr>sa_Enabled = True, sa_Condition = None\<rparr>) (Some \<lparr>sa_Enabled = True, sa_Condition = None\<rparr>))
     \<lparr>ac_Resume := Some \<lparr>sa_Enabled = True, sa_Condition = None\<rparr>\<rparr>)"

theorem processTorrents_consistent_witness:
  "ds_shouldPause (the (gm_get (fst (demo_run [demo_both_rule])) ''a'')) \<and> \<not> ds_shouldResume (the (gm_get (fst (demo_run [demo_both_rule])) ''a''))"
proof -
  have "gm_get (fst (demo_run [demo_both_rule])) ''a'' \<noteq> None"
    by code_simp
  then have "gm_get (fst (demo_run [demo_both_rule])) ''a'' = Some (the (gm_get (fst (demo_run [demo_both_rule])) ''a''))"
    by auto
  moreover have "ds_shouldPause (the (gm_get (fst (demo_run [demo_both_rule])) ''a''))"
    by code_simp
  ultimately show ?thesis
    using processTorrents_consistent [OF demo_members, of demo_lib True "[demo_both_rule]" "\<lambda>_. False" None "Some []" "''a''"]
    unfolding demo_run_def by blast
qed

section \<open>Tags\<close>

text \<open>Whether the torrent will have a tag after the pending actions.\<close>

definition willHave :: "desired_state \<Rightarrow> string \<Rightarrow> bool" where
  "willHave s tag = (case gm_get (ds_tagActions s) tag of Some a \<Rightarrow> a = tagAdd | None \<Rightarrow> List.member (ds_currentTags s) tag)"

definition tagGoal :: "string \<Rightarrow> bool \<Rightarrow> bool \<Rightarrow> bool" where
  "tagGoal mode matches before =
     (if mode = TagModeAdd then before \<or> matches else if mode = TagModeRemove then before \<and> \<not> matches else matches)"

lemma tag_actions_ne: "tagAdd \<noteq> tagRemove" "tagRemove \<noteq> tagAdd"
  by (simp_all add: tagAdd_def tagRemove_def)

lemma willHave_manageTag:
  "willHave (manageTag ref mode False matches tag s) x = (if x = tag then tagGoal mode matches (willHave s tag) else willHave s x)"
  by (auto simp: willHave_def manageTag_def tagGoal_def Let_def tag_actions_ne split: option.split)

lemma tagGoal_idem: "tagGoal mode matches (tagGoal mode matches before) = tagGoal mode matches before"
  by (simp add: tagGoal_def)

lemma willHave_fold:
  "willHave (fold (manageTag ref mode False matches) tags s) x = (if x \<in> set tags then tagGoal mode matches (willHave s x) else willHave s x)"
  by (induction tags arbitrary: s) (auto simp: willHave_manageTag tagGoal_idem)

lemma add_reset:
  assumes "mode \<noteq> TagModeRemove"
  shows "x \<in> set tags \<or> gm_get (ds_tagActions s) x = Some tagAdd \<Longrightarrow>
    gm_get (ds_tagActions (fold (manageTag ref mode True True) tags s)) x = Some tagAdd"
  using assms by (induction tags arbitrary: s) (auto simp: manageTag_def Let_def split: option.splits)

text \<open>
  C33. What a tag action achieves: where tags are not first deleted in the client, the torrent will have
  a managed tag exactly if the condition holds (full mode, also for unknown modes), if it had it or the
  condition holds (add), if it had it and the condition does not hold (remove), counting the pending
  changes of earlier rules; other tags stay. Where tags are first deleted in the client, every managed
  tag of a match is added again in full and add mode, also if the torrent has it now.
\<close>

theorem processTagAction_effect:
  assumes "processTagAction lib rule a t ctx s = (matches, s')" "tagMode = (if tag_Mode a = [] then TagModeFull else tag_Mode a)"
  shows "(shouldResetTagActionInClient a \<or> willHave s' x =
      (if x \<in> set (tagsToManage a s ctx) then tagGoal tagMode matches (willHave s x) else willHave s x))
    \<and> (\<not> shouldResetTagActionInClient a \<or> \<not> matches \<or> tagMode = TagModeRemove \<or> x \<notin> set (tagsToManage a s ctx)
      \<or> gm_get (ds_tagActions s') x = Some tagAdd)"
proof -
  have "s' = fold (manageTag (refOf rule) tagMode (shouldResetTagActionInClient a) matches) (tagsToManage a s ctx) s"
    using assms by (auto simp: processTagAction_def Let_def)
  then show ?thesis
    using add_reset [of tagMode x "tagsToManage a s ctx" s "refOf rule"] by (auto simp: willHave_fold)
qed

definition demo_tag_action :: tag_action where
  "demo_tag_action = \<lparr>tag_Enabled = True, tag_Tags = [''a'', ''c''], tag_Mode = [], tag_DeleteFromClient = False, tag_UseTrackerAsTag = False,
     tag_UseDisplayName = False, tag_Condition = Some (demo_leaf FieldCategory OperatorEqual ''movies'' False)\<rparr>"

theorem processTagAction_effect_witness:
  "willHave (initialState (demo_member ''h'')) ''a''
   \<and> \<not> willHave (snd (processTagAction demo_lib demo_both_rule demo_tag_action (demo_member ''h'') None (initialState (demo_member ''h'')))) ''a''"
proof -
  have "processTagAction demo_lib demo_both_rule demo_tag_action (demo_member ''h'') None (initialState (demo_member ''h''))
      = (False, snd (processTagAction demo_lib demo_both_rule demo_tag_action (demo_member ''h'') None (initialState (demo_member ''h''))))"
  proof -
    have "\<not> fst (processTagAction demo_lib demo_both_rule demo_tag_action (demo_member ''h'') None (initialState (demo_member ''h'')))"
      by code_simp
    then show ?thesis
      by (cases "processTagAction demo_lib demo_both_rule demo_tag_action (demo_member ''h'') None (initialState (demo_member ''h''))") simp
  qed
  moreover have "\<not> shouldResetTagActionInClient demo_tag_action" "''a'' \<in> set (tagsToManage demo_tag_action (initialState (demo_member ''h'')) None)"
    "willHave (initialState (demo_member ''h'')) ''a''"
    by code_simp+
  moreover have "\<not> tagGoal TagModeFull False before" for before
    by (simp add: tagGoal_def TagModeFull_def TagModeAdd_def TagModeRemove_def)
  moreover have "tag_Mode demo_tag_action = []"
    by (simp add: demo_tag_action_def)
  ultimately show ?thesis
    using processTagAction_effect [of demo_lib demo_both_rule demo_tag_action "demo_member ''h''" None "initialState (demo_member ''h'')" False _ TagModeFull "''a''"]
    by auto
qed

section \<open>Freed space\<close>

text \<open>The places whose files a list of deletions frees.\<close>

definition freedPlaces :: "string \<Rightarrow> (string, torrent list) gomap \<Rightarrow> torrent list \<Rightarrow> cross_seed_key set" where
  "freedPlaces mode idx ts = set (List.map_filter makeCrossSeedKey (filter (\<lambda>t. deleteFreesSpace mode t idx) ts))"

lemma update_space:
  assumes "mode \<noteq> DeleteModeWithFilesIncludeCrossSeeds \<or> ctx_DeleteSafeHardlinkSignatureByHash c = None" "ctx_FilesToClear c = Some F"
  shows "updateCumulativeFreeSpaceCleared t mode idx c =
    (if \<not> deleteFreesSpace mode t idx then c
     else (case makeCrossSeedKey t of None \<Rightarrow> c\<lparr>ctx_SpaceToClear := wrap64 (ctx_SpaceToClear c + t_Size t)\<rparr>
       | Some k \<Rightarrow> if k \<in> set F then c else c\<lparr>ctx_SpaceToClear := wrap64 (ctx_SpaceToClear c + t_Size t), ctx_FilesToClear := Some (gs_add k F)\<rparr>))"
  using assms by (auto simp: updateCumulativeFreeSpaceCleared_def Let_def split: option.split)

text \<open>
  C34. Freed space is counted once per place: over any sequence of deletions, with cross-seeds of one
  place of the same size, the projection grows by the size of every place that is freed and was not
  counted before, once each whatever the order, and by the sizes of the freed torrents that have no
  place; deletions that keep files add nothing. (The mode that includes cross-seeds is covered where
  hardlink signatures are not computed.)
\<close>

theorem freed_space_counted_once:
  assumes "mode \<noteq> DeleteModeWithFilesIncludeCrossSeeds \<or> ctx_DeleteSafeHardlinkSignatureByHash c = None"
    "ctx_FilesToClear c = Some F" "int64 (ctx_SpaceToClear c)"
    "\<forall>t \<in> set ts. \<forall>k. makeCrossSeedKey t = Some k \<longrightarrow> t_Size t = sz k"
  shows "ctx_SpaceToClear (fold (\<lambda>t. updateCumulativeFreeSpaceCleared t mode idx) ts c) =
    wrap64 (ctx_SpaceToClear c + (\<Sum>k \<in> freedPlaces mode idx ts - set F. sz k)
      + (\<Sum>t \<leftarrow> filter (\<lambda>t. deleteFreesSpace mode t idx \<and> makeCrossSeedKey t = None) ts. t_Size t))"
  using assms
proof (induction ts arbitrary: c F)
  case (Cons t ts)
  define d where "d = updateCumulativeFreeSpaceCleared t mode idx c"
  note step = update_space [OF Cons.prems(1,2), of t idx, folded d_def]
  have fin: "finite (freedPlaces mode idx ts)"
    by (simp add: freedPlaces_def)
  have same: "mode \<noteq> DeleteModeWithFilesIncludeCrossSeeds \<or> ctx_DeleteSafeHardlinkSignatureByHash d = None" "int64 (ctx_SpaceToClear d)"
    using Cons.prems(1,3) by (auto simp: step split: option.split)
  have sz: "\<forall>t \<in> set ts. \<forall>k. makeCrossSeedKey t = Some k \<longrightarrow> t_Size t = sz k"
    using Cons.prems(4) by simp
  have fold: "fold (\<lambda>t. updateCumulativeFreeSpaceCleared t mode idx) (t # ts) c = fold (\<lambda>t. updateCumulativeFreeSpaceCleared t mode idx) ts d"
    by (simp add: d_def)
  note IH = Cons.IH [OF same(1) _ same(2) sz, folded fold]
  consider (kept) "\<not> deleteFreesSpace mode t idx" | (nowhere) "deleteFreesSpace mode t idx" "makeCrossSeedKey t = None"
    | (counted) k where "deleteFreesSpace mode t idx" "makeCrossSeedKey t = Some k" "k \<in> set F"
    | (fresh) k where "deleteFreesSpace mode t idx" "makeCrossSeedKey t = Some k" "k \<notin> set F"
    by (cases "makeCrossSeedKey t") blast+
  then show ?case
  proof cases
    case kept
    then have "d = c" "freedPlaces mode idx (t # ts) = freedPlaces mode idx ts"
      by (simp_all add: step freedPlaces_def)
    with IH Cons.prems(2) kept show ?thesis
      by simp
  next
    case nowhere
    then have d: "d = c\<lparr>ctx_SpaceToClear := wrap64 (ctx_SpaceToClear c + t_Size t)\<rparr>" "freedPlaces mode idx (t # ts) = freedPlaces mode idx ts"
      by (simp_all add: step freedPlaces_def)
    have "ctx_FilesToClear d = Some F"
      using Cons.prems(2) d(1) by simp
    from IH [OF this] nowhere d show ?thesis
      by (simp add: wrap64_add add.assoc add.left_commute)
  next
    case counted
    then have "d = c" "freedPlaces mode idx (t # ts) - set F = freedPlaces mode idx ts - set F"
      by (auto simp: step freedPlaces_def)
    with IH Cons.prems(2) counted show ?thesis
      by simp
  next
    case fresh
    then have d: "d = c\<lparr>ctx_SpaceToClear := wrap64 (ctx_SpaceToClear c + sz k), ctx_FilesToClear := Some (gs_add k F)\<rparr>"
      using Cons.prems(4) by (simp add: step)
    have "freedPlaces mode idx (t # ts) - set F = insert k (freedPlaces mode idx ts - set (gs_add k F))"
      using fresh by (auto simp: freedPlaces_def)
    then have sum: "(\<Sum>k \<in> freedPlaces mode idx (t # ts) - set F. sz k) = sz k + (\<Sum>k \<in> freedPlaces mode idx ts - set (gs_add k F). sz k)"
      using fin by simp
    have "ctx_FilesToClear d = Some (gs_add k F)"
      using d by simp
    from IH [OF this] fresh sum d show ?thesis
      by (simp add: wrap64_add add.assoc add.left_commute)
  qed
qed (simp add: freedPlaces_def)

definition demo_space_ctx :: eval_ctx where
  "demo_space_ctx = empty_ctx\<lparr>ctx_FilesToClear := Some []\<rparr>"

theorem freed_space_counted_once_witness:
  "ctx_SpaceToClear (fold (\<lambda>t. updateCumulativeFreeSpaceCleared t DeleteModeWithFiles [])
     [demo_member ''a'', demo_member ''b'', (demo_member ''c'')\<lparr>t_SavePath := ''/e''\<rparr>] demo_space_ctx) = 200"
proof -
  let ?ts = "[demo_member ''a'', demo_member ''b'', (demo_member ''c'')\<lparr>t_SavePath := ''/e''\<rparr>]"
  let ?d = "\<lparr>ck_contentPath = ''/d/show'', ck_savePath = ''/d''\<rparr>" and ?e = "\<lparr>ck_contentPath = ''/d/show'', ck_savePath = ''/e''\<rparr>"
  have keys: "makeCrossSeedKey (demo_member ''a'') = Some ?d" "makeCrossSeedKey (demo_member ''b'') = Some ?d"
    "makeCrossSeedKey ((demo_member ''c'')\<lparr>t_SavePath := ''/e''\<rparr>) = Some ?e"
    by code_simp+
  have frees: "deleteFreesSpace DeleteModeWithFiles t idx" for t idx
    by (simp add: deleteFreesSpace_def delete_mode_defs)
  have places: "freedPlaces DeleteModeWithFiles [] ?ts = {?d, ?e}"
    by (simp add: freedPlaces_def frees keys)
  have size: "t_Size (demo_member h) = 100" for h
    by (simp add: demo_member_def sample_torrent_def)
  have "DeleteModeWithFiles \<noteq> DeleteModeWithFilesIncludeCrossSeeds"
    by (simp add: delete_mode_defs)
  moreover have "ctx_FilesToClear demo_space_ctx = Some []" "ctx_SpaceToClear demo_space_ctx = 0"
    by (simp_all add: demo_space_ctx_def empty_ctx_def)
  moreover have "\<forall>t \<in> set ?ts. \<forall>k. makeCrossSeedKey t = Some k \<longrightarrow> t_Size t = (\<lambda>_. 100) k"
    by (simp add: size)
  moreover have "int64 0" "int64 200"
    by (simp_all add: int64_def)
  ultimately show ?thesis
    using freed_space_counted_once [of DeleteModeWithFiles demo_space_ctx "[]" ?ts "\<lambda>_. 100" "[]"]
    by (simp add: places frees keys)
qed

section \<open>A lost action\<close>

definition demo_share_rule :: automation where
  "demo_share_rule = demo_rule ((demo_actions None None)\<lparr>ac_ShareLimits := Some \<lparr>sh_Enabled = True, sh_RatioLimit = None,
     sh_SeedingTimeMinutes = None, sh_ShareLimitAction = Some ''Stop'', sh_ShareLimitsMode = None, sh_Condition = None\<rparr>\<rparr>)"

text \<open>
  A lost action: for a rule that only sets what happens at the share limits (\<open>shareLimitAction\<close>), a
  run counts the action as applied to both torrents but returns no desired state for them, since
  \<open>hasActions\<close> does not look at it, so it is never sent to the client.
\<close>

theorem share_limit_action_lost:
  "fst (demo_run [demo_share_rule]) = []
   \<and> map_option (\<lambda>m. map_option st_ShareApplied (gm_get m 7)) (snd (snd (demo_run [demo_share_rule]))) = Some (Some 2)"
  by code_simp

end
