(* ===== verification/Torrent_Sort.thy ===== *)
theory Torrent_Sort
  imports Condition_Properties
begin

text \<open>
  The order in which torrents are processed (\<open>SortTorrents\<close> of
  \<open>src/internal/services/automations/processor.go\<close>): by a numeric or a string field, by a score of
  weighted fields and conditions, or by age, and by hash where these are equal. \<open>sort.Slice\<close> leaves
  the order of equal elements open; the model inserts, and the property below shows that there is no
  choice: any arrangement in order is the same.
\<close>

section \<open>Values\<close>

definition getNowUnix :: "eval_lib \<Rightarrow> eval_ctx option \<Rightarrow> int" where
  "getNowUnix lib ctx = (case ctx of None \<Rightarrow> el_now lib | Some c \<Rightarrow> if ctx_NowUnix c \<noteq> 0 then ctx_NowUnix c else el_now lib)"

definition getAgeFieldValue :: "eval_lib \<Rightarrow> eval_ctx option \<Rightarrow> string \<Rightarrow> torrent \<Rightarrow> float64" where
  "getAgeFieldValue lib ctx field t =
     (case map_of [(FieldAddedOnAge, t_AddedOn t), (FieldCompletionOnAge, t_CompletionOn t), (FieldLastActivityAge, t_LastActivity t)] field of
        None \<Rightarrow> Fl 0
      | Some ts \<Rightarrow> if ts \<le> 0 then Fl 0 else fl_of_int (wrap64 (getNowUnix lib ctx - ts)))"

definition positive :: "int \<Rightarrow> int" where
  "positive n = (if n \<le> 0 then 0 else n)"

text \<open>The fields that are integers, and the rest.\<close>

definition intFieldValue :: "eval_lib \<Rightarrow> torrent \<Rightarrow> eval_ctx option \<Rightarrow> string \<Rightarrow> int option" where
  "intFieldValue lib t ctx = map_of
     [(FieldSize, t_Size t), (FieldTotalSize, t_TotalSize t), (FieldDownloaded, t_Downloaded t), (FieldUploaded, t_Uploaded t),
      (FieldAmountLeft, t_AmountLeft t), (FieldFreeSpace, case ctx of None \<Rightarrow> 0 | Some c \<Rightarrow> positive (ctx_FreeSpace c)),
      (FieldAddedOn, positive (t_AddedOn t)), (FieldCompletionOn, positive (t_CompletionOn t)),
      (FieldLastActivity, positive (t_LastActivity t)), (FieldSeedingTime, positive (t_SeedingTime t)),
      (FieldTimeActive, positive (t_TimeActive t)), (FieldDlSpeed, t_DlSpeed t), (FieldUpSpeed, t_UpSpeed t),
      (FieldNumSeeds, t_NumSeeds t), (FieldNumLeechs, t_NumLeechs t), (FieldNumComplete, t_NumComplete t),
      (FieldNumIncomplete, t_NumIncomplete t), (FieldTrackersCount, t_TrackersCount t),
      (FieldSystemHour, cp_Hour (evaluateTime lib ctx)), (FieldSystemMinute, cp_Minute (evaluateTime lib ctx)),
      (FieldSystemDayOfWeek, cp_Weekday (evaluateTime lib ctx)), (FieldSystemDay, cp_Day (evaluateTime lib ctx)),
      (FieldSystemMonth, cp_Month (evaluateTime lib ctx)), (FieldSystemYear, cp_Year (evaluateTime lib ctx))]"

definition getNumericFieldValue :: "eval_lib \<Rightarrow> torrent \<Rightarrow> string \<Rightarrow> eval_ctx option \<Rightarrow> float64" where
  "getNumericFieldValue lib t field ctx =
     (case intFieldValue lib t ctx field of
        Some n \<Rightarrow> fl_of_int n
      | None \<Rightarrow>
          if field = FieldRatio then t_Ratio t
          else if field = FieldProgress then fl_mult (t_Progress t) (fl_of_int 100)
          else if field = FieldAvailability then t_Availability t
          else getAgeFieldValue lib ctx field t)"

definition extractStringValue :: "torrent \<Rightarrow> string \<Rightarrow> string option" where
  "extractStringValue t = map_of
     [(FieldName, to_lower (t_Name t)), (FieldCategory, to_lower (t_Category t)), (FieldTags, to_lower (t_Tags t)),
      (FieldTracker, to_lower (t_Tracker t)), (FieldState, to_lower (t_State t)), (FieldSavePath, to_lower (t_SavePath t)),
      (FieldContentPath, to_lower (t_ContentPath t)), (FieldComment, to_lower (t_Comment t))]"

section \<open>Scores\<close>

definition addScore :: "eval_lib \<Rightarrow> torrent \<Rightarrow> eval_ctx option \<Rightarrow> score_rule \<Rightarrow> float64 \<Rightarrow> float64" where
  "addScore lib t ctx rule points =
     (if sr_Type rule = ScoreRuleTypeFieldMultiplier then
        (case sr_FieldMultiplier rule of None \<Rightarrow> points
         | Some fm \<Rightarrow> if fm_Field fm = [] then points
             else fl_add points (fl_mult (getNumericFieldValue lib t (fm_Field fm) ctx) (fm_Multiplier fm)))
      else if sr_Type rule = ScoreRuleTypeConditional then
        (case sr_Conditional rule of None \<Rightarrow> points
         | Some c \<Rightarrow> if cs_Condition c \<noteq> None \<and> EvaluateConditionWithContext lib (cs_Condition c) t ctx 0
             then fl_add points (cs_Score c) else points)
      else points)"

definition CalculateScore :: "eval_lib \<Rightarrow> torrent \<Rightarrow> sorting_config option \<Rightarrow> eval_ctx option \<Rightarrow> float64" where
  "CalculateScore lib t config ctx =
     (case config of None \<Rightarrow> Fl 0 | Some c \<Rightarrow> fold (addScore lib t ctx) (so_ScoreRules c) (Fl 0))"

section \<open>The order\<close>

definition compareTorrents :: "eval_lib \<Rightarrow> sorting_config option \<Rightarrow> (string, float64) gomap \<Rightarrow> eval_ctx option \<Rightarrow> torrent \<Rightarrow> torrent \<Rightarrow> bool" where
  "compareTorrents lib config scores ctx t1 t2 =
     (let byHash = t_Hash t1 < t_Hash t2;
          byAge = (if t_AddedOn t1 \<noteq> t_AddedOn t2 then t_AddedOn t1 < t_AddedOn t2 else byHash)
      in case config of
           None \<Rightarrow> byAge
         | Some c \<Rightarrow>
             let asc = (so_Direction c = SortDirectionASC);
                 byNumber = (\<lambda>v1 v2. if \<not> fl_eq v1 v2 then (if asc then fl_less v1 v2 else fl_less v2 v1) else byHash)
             in if so_Type c = SortingTypeSimple then
                  (if IsNumeric (so_Field c)
                   then byNumber (getNumericFieldValue lib t1 (so_Field c) ctx) (getNumericFieldValue lib t2 (so_Field c) ctx)
                   else
                     let v1 = (case extractStringValue t1 (so_Field c) of None \<Rightarrow> [] | Some v \<Rightarrow> v);
                         v2 = (case extractStringValue t2 (so_Field c) of None \<Rightarrow> [] | Some v \<Rightarrow> v)
                     in if v1 \<noteq> v2 then (if asc then v1 < v2 else v2 < v1) else byHash)
                else if so_Type c = SortingTypeScore then
                  byNumber (case gm_get scores (t_Hash t1) of None \<Rightarrow> Fl 0 | Some s \<Rightarrow> s)
                    (case gm_get scores (t_Hash t2) of None \<Rightarrow> Fl 0 | Some s \<Rightarrow> s)
                else byAge)"

fun checkScoreRules :: "nat \<Rightarrow> score_rule list \<Rightarrow> sorting_error option" where
  "checkScoreRules i [] = None"
| "checkScoreRules i (r # rs) =
     (if sr_Type r = ScoreRuleTypeFieldMultiplier then
        (case sr_FieldMultiplier r of None \<Rightarrow> Some (MultiplierMissing i)
         | Some fm \<Rightarrow> if \<not> IsNumeric (fm_Field fm) then Some (MultiplierNotNumeric (fm_Field fm)) else checkScoreRules (i + 1) rs)
      else if sr_Type r = ScoreRuleTypeConditional then
        (case sr_Conditional r of None \<Rightarrow> Some (ConditionalMissing i)
         | Some c \<Rightarrow> if cs_Condition c = None then Some (ScoreConditionMissing i) else checkScoreRules (i + 1) rs)
      else Some (UnknownScoreRule i (sr_Type r)))"

definition checkSortingConfig :: "sorting_config option \<Rightarrow> sorting_error option" where
  "checkSortingConfig config =
     (case config of None \<Rightarrow> None | Some c \<Rightarrow>
        if so_SchemaVersion c \<noteq> ''1'' then Some (InvalidSchemaVersion (so_SchemaVersion c))
        else if so_Direction c \<noteq> SortDirectionASC \<and> so_Direction c \<noteq> SortDirectionDESC then Some (InvalidDirection (so_Direction c))
        else if so_Type c = SortingTypeSimple then
          (if \<not> IsNumeric (so_Field c) \<and> \<not> IsString (so_Field c) then Some (UnknownSortField (so_Field c)) else None)
        else if so_Type c = SortingTypeScore then
          (if so_ScoreRules c = [] then Some ScoreRulesRequired else checkScoreRules 0 (so_ScoreRules c))
        else Some (UnknownSortingType (so_Type c)))"

fun insert_before :: "('a \<Rightarrow> 'a \<Rightarrow> bool) \<Rightarrow> 'a \<Rightarrow> 'a list \<Rightarrow> 'a list" where
  "insert_before lt x [] = [x]"
| "insert_before lt x (y # ys) = (if lt y x then y # insert_before lt x ys else x # y # ys)"

definition sort_slice :: "('a \<Rightarrow> 'a \<Rightarrow> bool) \<Rightarrow> 'a list \<Rightarrow> 'a list" where
  "sort_slice lt xs = foldr (insert_before lt) xs []"

definition scoresOf :: "eval_lib \<Rightarrow> sorting_config option \<Rightarrow> eval_ctx option \<Rightarrow> torrent list \<Rightarrow> (string, float64) gomap" where
  "scoresOf lib config ctx torrents =
     (case config of None \<Rightarrow> []
      | Some c \<Rightarrow> if so_Type c = SortingTypeScore
          then fold (\<lambda>t. gm_put (t_Hash t) (CalculateScore lib t config ctx)) torrents [] else [])"

definition SortTorrents :: "eval_lib \<Rightarrow> torrent list \<Rightarrow> sorting_config option \<Rightarrow> eval_ctx option \<Rightarrow> sorting_error + torrent list" where
  "SortTorrents lib torrents config ctx =
     (case checkSortingConfig config of
        Some e \<Rightarrow> Inl e
      | None \<Rightarrow> Inr (sort_slice (compareTorrents lib config (scoresOf lib config ctx torrents) ctx) torrents))"

section \<open>Sorting by a strict linear order\<close>

definition strict_on :: "'a set \<Rightarrow> ('a \<Rightarrow> 'a \<Rightarrow> bool) \<Rightarrow> bool" where
  "strict_on A lt \<longleftrightarrow> (\<forall>x \<in> A. \<forall>y \<in> A. (lt x y \<longrightarrow> \<not> lt y x) \<and> (x \<noteq> y \<longrightarrow> lt x y \<or> lt y x) \<and> (\<forall>z \<in> A. lt x y \<longrightarrow> lt y z \<longrightarrow> lt x z))"

lemma strict_onD:
  assumes "strict_on A lt" "x \<in> A" "y \<in> A"
  shows "lt x y \<Longrightarrow> \<not> lt y x" "x \<noteq> y \<Longrightarrow> lt x y \<or> lt y x" "z \<in> A \<Longrightarrow> lt x y \<Longrightarrow> lt y z \<Longrightarrow> lt x z"
  using assms unfolding strict_on_def by blast+

text \<open>First by a key, then by a value that is different for all elements.\<close>

lemma strict_on_key:
  assumes less: "strict_on (k ` A) r" and inj: "inj_on h A"
    and lt: "\<And>x y. x \<in> A \<Longrightarrow> y \<in> A \<Longrightarrow> lt x y = (if k x \<noteq> k y then r (k x) (k y) else (h x :: 'h :: linorder) < h y)"
  shows "strict_on A lt"
  unfolding strict_on_def
proof (intro ballI conjI impI)
  fix x y z
  assume A: "x \<in> A" "y \<in> A"
  note D = strict_onD [OF less imageI imageI]
  show "\<not> lt y x" if "lt x y"
    using that D(1) [OF A] by (auto simp: lt A split: if_splits)
  show "lt x y \<or> lt y x" if "x \<noteq> y"
  proof -
    have "h x \<noteq> h y"
      using that inj A by (auto dest: inj_onD)
    then show ?thesis
      using D(2) [OF A] by (auto simp: lt A)
  qed
  show "lt x z" if "z \<in> A" "lt x y" "lt y z"
    using that D(1) [OF A] D(3) [OF A imageI [OF that(1)]] by (auto simp: lt A split: if_splits)
qed

lemma strict_on_converse: "strict_on A r \<Longrightarrow> strict_on A (\<lambda>x y. r y x)"
  unfolding strict_on_def by blast

lemma strict_on_less: "strict_on A ((<) :: 'a :: linorder \<Rightarrow> 'a \<Rightarrow> bool)"
  unfolding strict_on_def by auto

lemma strict_on_fl_less: "NaN \<notin> A \<Longrightarrow> strict_on A fl_less"
  unfolding strict_on_def using fl_less_asym fl_less_trans fl_less_total fl_eq_iff by metis

lemma insert_before_props:
  "mset (insert_before lt x ys) = mset (x # ys)"
  "strict_on A lt \<Longrightarrow> x \<in> A \<Longrightarrow> set ys \<subseteq> A \<Longrightarrow> x \<notin> set ys \<Longrightarrow> sorted_wrt lt ys \<Longrightarrow> sorted_wrt lt (insert_before lt x ys)"
proof -
  show mset: "mset (insert_before lt x ys) = mset (x # ys)" for ys
    by (induction ys) auto
  then have set: "set (insert_before lt x ys) = insert x (set ys)" for ys
    by (metis list.simps(15) set_mset_mset)
  show "strict_on A lt \<Longrightarrow> x \<in> A \<Longrightarrow> set ys \<subseteq> A \<Longrightarrow> x \<notin> set ys \<Longrightarrow> sorted_wrt lt ys \<Longrightarrow> sorted_wrt lt (insert_before lt x ys)"
  proof (induction ys)
    case (Cons y ys)
    show ?case
    proof (cases "lt y x")
      case True
      with Cons show ?thesis
        by (auto simp: set)
    next
      case False
      with Cons.prems have "lt x y"
        using strict_onD(2) [of A lt x y] by auto
      moreover have "lt x z" if "z \<in> set ys" for z
        using that Cons.prems strict_onD(3) [of A lt x y z] \<open>lt x y\<close> by auto
      ultimately show ?thesis
        using False Cons.prems(5) by simp
    qed
  qed simp
qed

lemma sort_slice_props:
  assumes "strict_on (set xs) lt" "distinct xs"
  shows "mset (sort_slice lt xs) = mset xs" "sorted_wrt lt (sort_slice lt xs)"
proof -
  have "mset (sort_slice lt ys) = mset ys \<and> sorted_wrt lt (sort_slice lt ys)" if "set ys \<subseteq> set xs" "distinct ys" for ys
    using that
  proof (induction ys)
    case (Cons y ys)
    then have IH: "mset (sort_slice lt ys) = mset ys" "sorted_wrt lt (sort_slice lt ys)"
      by simp_all
    then have "set (sort_slice lt ys) = set ys"
      by (metis set_mset_mset)
    with Cons.prems IH insert_before_props(1) [of lt y "sort_slice lt ys"] insert_before_props(2) [of "set xs" lt y "sort_slice lt ys"] assms(1) show ?case
      by (auto simp: sort_slice_def)
  qed (simp add: sort_slice_def)
  from this [of xs] assms(2) show "mset (sort_slice lt xs) = mset xs" "sorted_wrt lt (sort_slice lt xs)"
    by simp_all
qed

lemma sort_slice_unique:
  assumes "strict_on (set xs) lt" "distinct xs" "mset ys = mset xs" "sorted_wrt (\<lambda>a b. \<not> lt b a) ys"
  shows "ys = sort_slice lt xs"
proof -
  have unique: "us = vs" if "mset us = mset vs" "sorted_wrt (\<lambda>a b. \<not> lt b a) us" "sorted_wrt lt vs" "distinct us" "set us \<subseteq> set xs" for us vs
    using that
  proof (induction us arbitrary: vs)
    case (Cons u us)
    then obtain v vs' where vs: "vs = v # vs'"
      by (cases vs) auto
    have sets: "set vs = insert u (set us)"
      using Cons.prems(1) by (metis list.simps(15) set_mset_mset)
    have "u = v"
    proof (rule ccontr)
      assume "u \<noteq> v"
      then have "u \<in> set vs'" "v \<in> set us"
        using sets vs by auto
      then have "lt v u" "\<not> lt v u"
        using Cons.prems(2,3) vs by auto
      then show False
        by simp
    qed
    with Cons vs show ?case
      by simp
  qed simp
  have "distinct ys" "set ys = set xs"
    using assms(2,3) by (metis distinct_count_atmost_1 set_mset_mset mset_eq_imp_distinct_iff)+
  with assms sort_slice_props [OF assms(1,2)] show ?thesis
    by (intro unique) simp_all
qed

text \<open>The number a configuration sorts by, \<open>0\<close> where it sorts by something else.\<close>

definition numericKey :: "eval_lib \<Rightarrow> sorting_config option \<Rightarrow> eval_ctx option \<Rightarrow> torrent \<Rightarrow> float64" where
  "numericKey lib config ctx t =
     (case config of None \<Rightarrow> Fl 0
      | Some c \<Rightarrow> if so_Type c = SortingTypeSimple \<and> IsNumeric (so_Field c) then getNumericFieldValue lib t (so_Field c) ctx
          else if so_Type c = SortingTypeScore then CalculateScore lib t config ctx else Fl 0)"

lemma scoresOf_get:
  assumes "config = Some c" "so_Type c = SortingTypeScore" "distinct (map t_Hash ts)" "t \<in> set ts"
  shows "gm_get (scoresOf lib config ctx ts) (t_Hash t) = Some (CalculateScore lib t config ctx)"
proof -
  have "gm_get (fold (\<lambda>t. gm_put (t_Hash t) (f t)) ts m) (t_Hash t) = Some (f t)" for f and m :: "(string, float64) gomap"
    using assms(3,4) by (induction ts rule: rev_induct) (auto simp: image_iff)
  then show ?thesis
    using assms(1,2) by (simp add: scoresOf_def)
qed

lemma compareTorrents_strict:
  assumes "distinct (map t_Hash ts)" "\<forall>t \<in> set ts. numericKey lib config ctx t \<noteq> NaN"
  shows "strict_on (set ts) (compareTorrents lib config (scoresOf lib config ctx ts) ctx)"
proof -
  note def = compareTorrents_def Let_def
  have inj: "inj_on t_Hash (set ts)"
    using assms(1) by (simp add: distinct_map)
  have age: "strict_on (set ts) (compareTorrents lib config (scoresOf lib config ctx ts) ctx)"
    if "\<And>x y. compareTorrents lib config (scoresOf lib config ctx ts) ctx x y =
        (if t_AddedOn x \<noteq> t_AddedOn y then t_AddedOn x < t_AddedOn y else t_Hash x < t_Hash y)"
    using that by (intro strict_on_key [where k = t_AddedOn, OF strict_on_less inj])
  show ?thesis
  proof (cases config)
    case None
    then show ?thesis
      by (intro age) (simp add: def)
  next
    case (Some c)
    define asc where "asc \<longleftrightarrow> so_Direction c = SortDirectionASC"
    have nan: "NaN \<notin> numericKey lib config ctx ` set ts"
      using assms(2) by (metis imageE)
    define num where "num = (\<lambda>v1 v2. if asc then fl_less v1 v2 else fl_less v2 v1)"
    have num: "strict_on (numericKey lib config ctx ` set ts) num"
      using strict_on_fl_less [OF nan] strict_on_converse [OF strict_on_fl_less [OF nan]] by (cases asc) (simp_all add: num_def)
    have eq: "x \<in> set ts \<Longrightarrow> y \<in> set ts \<Longrightarrow> fl_eq (numericKey lib config ctx x) (numericKey lib config ctx y)
        \<longleftrightarrow> numericKey lib config ctx x = numericKey lib config ctx y" for x y
      using assms(2) by (auto simp: fl_eq_iff)
    consider (number) "so_Type c = SortingTypeSimple" "IsNumeric (so_Field c)" | (textual) "so_Type c = SortingTypeSimple" "\<not> IsNumeric (so_Field c)"
      | (score) "so_Type c \<noteq> SortingTypeSimple" "so_Type c = SortingTypeScore" | (other) "so_Type c \<noteq> SortingTypeSimple" "so_Type c \<noteq> SortingTypeScore"
      by blast
    then show ?thesis
    proof cases
      case number
      then have cmp: "compareTorrents lib config S ctx x y = (if \<not> fl_eq (numericKey lib config ctx x) (numericKey lib config ctx y)
          then num (numericKey lib config ctx x) (numericKey lib config ctx y) else t_Hash x < t_Hash y)" for S x y
        by (simp add: def numericKey_def num_def asc_def Some)
      show ?thesis
        by (rule strict_on_key [OF num inj]) (simp add: cmp eq)
    next
      case textual
      define k where "k = (\<lambda>t. case extractStringValue t (so_Field c) of None \<Rightarrow> [] | Some v \<Rightarrow> v)"
      define r :: "string \<Rightarrow> string \<Rightarrow> bool" where "r = (if asc then (<) else (\<lambda>x y. y < x))"
      have "strict_on (k ` set ts) r"
        unfolding r_def by (cases asc) (simp_all add: strict_on_less strict_on_converse [OF strict_on_less])
      then show ?thesis
        by (rule strict_on_key [OF _ inj]) (use textual in \<open>simp add: def k_def r_def asc_def Some\<close>)
    next
      case score
      have get: "x \<in> set ts \<Longrightarrow> gm_get (scoresOf lib config ctx ts) (t_Hash x) = Some (numericKey lib config ctx x)" for x
        using scoresOf_get [OF Some score(2) assms(1), of x lib ctx] score by (simp add: numericKey_def Some)
      have cmp: "compareTorrents lib config (scoresOf lib config ctx ts) ctx x y = (if \<not> fl_eq (numericKey lib config ctx x) (numericKey lib config ctx y)
          then num (numericKey lib config ctx x) (numericKey lib config ctx y) else t_Hash x < t_Hash y)" if "x \<in> set ts" "y \<in> set ts" for x y
        using score get [OF that(1), unfolded Some] get [OF that(2), unfolded Some] by (simp add: def num_def asc_def Some)
      show ?thesis
        by (rule strict_on_key [OF num inj]) (simp add: cmp eq)
    next
      case other
      then show ?thesis
        by (intro age) (simp add: def Some)
    qed
  qed
qed

text \<open>
  C35. Sorting is complete and leaves no choice: with a valid configuration, different hashes and no
  score or value that is not a number, \<open>SortTorrents\<close> returns the same torrents in strictly increasing
  order, and every arrangement of them without inversions is the one returned, so the unstable
  \<open>sort.Slice\<close> cannot return anything else.
\<close>

theorem SortTorrents_unique:
  assumes "checkSortingConfig config = None" "distinct (map t_Hash ts)" "\<forall>t \<in> set ts. numericKey lib config ctx t \<noteq> NaN"
  shows "\<exists>ys. SortTorrents lib ts config ctx = Inr ys \<and> mset ys = mset ts
    \<and> sorted_wrt (compareTorrents lib config (scoresOf lib config ctx ts) ctx) ys
    \<and> (\<forall>zs. mset zs = mset ts \<and> sorted_wrt (\<lambda>a b. \<not> compareTorrents lib config (scoresOf lib config ctx ts) ctx b a) zs \<longrightarrow> zs = ys)"
proof -
  note strict = compareTorrents_strict [OF assms(2,3)]
  have "distinct ts"
    using assms(2) by (simp add: distinct_map)
  show ?thesis
    using sort_slice_props [OF strict \<open>distinct ts\<close>] sort_slice_unique [OF strict \<open>distinct ts\<close>]
    unfolding SortTorrents_def assms(1) option.case by blast
qed

theorem SortTorrents_unique_witness:
  "\<exists>ys. SortTorrents demo_lib [sample_torrent ''b'' ''x'' ''tv'', sample_torrent ''a'' ''y'' ''tv''] None None = Inr ys \<and> length ys = 2"
proof -
  define ts where "ts = [sample_torrent ''b'' ''x'' ''tv'', sample_torrent ''a'' ''y'' ''tv'']"
  have "checkSortingConfig None = None" "distinct (map t_Hash ts)"
    by (simp_all add: checkSortingConfig_def ts_def sample_torrent_def)
  moreover have "\<forall>t \<in> set ts. numericKey demo_lib None None t \<noteq> NaN"
    by (simp add: numericKey_def)
  ultimately obtain ys where "SortTorrents demo_lib ts None None = Inr ys" "mset ys = mset ts"
    using SortTorrents_unique [of None ts demo_lib None] by blast
  moreover have "length ts = 2"
    by (simp add: ts_def)
  ultimately show ?thesis
    unfolding ts_def [symmetric] by (metis size_mset)
qed

end
