(* ===== verification/Go_Utf8.thy ===== *)
theory Go_Utf8
  imports Go_Base
begin

text \<open>
  UTF-8 as package \<open>utf8\<close> and the \<open>range\<close> loop over a string read it: which byte strings are valid, and
  the pieces of a string that are one rune each.
\<close>

section \<open>Valid strings\<close>

text \<open>\<open>utf8.ValidString\<close>.\<close>

definition byte_in :: "nat \<Rightarrow> nat \<Rightarrow> char \<Rightarrow> bool" where
  "byte_in lo hi c \<longleftrightarrow> lo \<le> of_char c \<and> (of_char c :: nat) \<le> hi"

text \<open>Number of continuation bytes after a leading byte, and the bounds of the first of them.\<close>

definition utf8_lead :: "char \<Rightarrow> (nat \<times> nat \<times> nat) option" where
  "utf8_lead c =
     (if byte_in 0 127 c then Some (0, 128, 191)
      else if byte_in 194 223 c then Some (1, 128, 191)
      else if byte_in 224 224 c then Some (2, 160, 191)
      else if byte_in 237 237 c then Some (2, 128, 159)
      else if byte_in 224 239 c then Some (2, 128, 191)
      else if byte_in 240 240 c then Some (3, 144, 191)
      else if byte_in 244 244 c then Some (3, 128, 143)
      else if byte_in 240 244 c then Some (3, 128, 191)
      else None)"

fun utf8_valid :: "string \<Rightarrow> bool" where
  "utf8_valid [] = True"
| "utf8_valid (c # cs) =
     (case utf8_lead c of
        None \<Rightarrow> False
      | Some (k, lo, hi) \<Rightarrow>
          k \<le> length cs \<and> list_all (byte_in 128 191) (take k cs) \<and> (k > 0 \<longrightarrow> byte_in lo hi (hd cs)) \<and>
          utf8_valid (drop k cs))"

text \<open>For evaluation: an ASCII character needs no look at what follows.\<close>

lemma byte_in_ascii: "byte_in 0 127 (Char b0 b1 b2 b3 b4 b5 b6 b7) \<longleftrightarrow> \<not> b7"
  by (cases b0; cases b1; cases b2; cases b3; cases b4; cases b5; cases b6; cases b7)
     (simp_all add: byte_in_def of_char_def)

lemma utf8_valid_code [code]:
  "utf8_valid [] = True"
  "utf8_valid (Char b0 b1 b2 b3 b4 b5 b6 b7 # cs) =
     (if \<not> b7 then utf8_valid cs
      else case utf8_lead (Char b0 b1 b2 b3 b4 b5 b6 b7) of
        None \<Rightarrow> False
      | Some (k, lo, hi) \<Rightarrow>
          k \<le> length cs \<and> list_all (byte_in 128 191) (take k cs) \<and> (k > 0 \<longrightarrow> byte_in lo hi (hd cs)) \<and>
          utf8_valid (drop k cs))"
  by (simp_all add: utf8_lead_def byte_in_ascii)

section \<open>Runes\<close>

text \<open>
  The bytes of the runes of a string, in order. A byte that starts no valid sequence is a piece of its
  own; the loop gives it as \<open>U+FFFD\<close>.
\<close>

fun utf8_runes :: "string \<Rightarrow> string list" where
  "utf8_runes [] = []"
| "utf8_runes (c # cs) =
     (case utf8_lead c of
        None \<Rightarrow> [c] # utf8_runes cs
      | Some (k, lo, hi) \<Rightarrow>
          if k \<le> length cs \<and> list_all (byte_in 128 191) (take k cs) \<and> (k > 0 \<longrightarrow> byte_in lo hi (hd cs))
          then (c # take k cs) # utf8_runes (drop k cs)
          else [c] # utf8_runes cs)"

lemma utf8_runes_code [code]:
  "utf8_runes [] = []"
  "utf8_runes (Char b0 b1 b2 b3 b4 b5 b6 b7 # cs) =
     (if \<not> b7 then [Char b0 b1 b2 b3 b4 b5 b6 b7] # utf8_runes cs
      else case utf8_lead (Char b0 b1 b2 b3 b4 b5 b6 b7) of
        None \<Rightarrow> [Char b0 b1 b2 b3 b4 b5 b6 b7] # utf8_runes cs
      | Some (k, lo, hi) \<Rightarrow>
          if k \<le> length cs \<and> list_all (byte_in 128 191) (take k cs) \<and> (k > 0 \<longrightarrow> byte_in lo hi (hd cs))
          then (Char b0 b1 b2 b3 b4 b5 b6 b7 # take k cs) # utf8_runes (drop k cs)
          else [Char b0 b1 b2 b3 b4 b5 b6 b7] # utf8_runes cs)"
  by (simp_all add: utf8_lead_def byte_in_ascii)

text \<open>Splitting loses nothing.\<close>

lemma concat_utf8_runes [simp]: "concat (utf8_runes s) = s"
  by (induction s rule: utf8_runes.induct) (auto split: option.split prod.split)

end
