(* ===== verification/Orphan_Paths.thy ===== *)
theory Orphan_Paths
  imports Go_Path Go_Utf8
begin

text \<open>
  Paths of the orphan scan (\<open>filemap.go\<close> and the path tests of \<open>walker.go\<close> and \<open>service.go\<close> in
  \<open>src/internal/services/orphanscan\<close>), on Unix: normalised paths, the map of the files that
  belong to torrents, and ignored paths. Unicode normalisation (\<open>golang.org/x/text\<close>) is a
  parameter, with its documented laws in \<open>nfc_laws\<close>.
\<close>

section \<open>Normalised paths\<close>

record unicode_norm =
  isNormalNFC :: "string \<Rightarrow> bool"
  toNFC :: "string \<Rightarrow> string"

definition normalizePath :: "unicode_norm \<Rightarrow> string \<Rightarrow> string" where
  "normalizePath u path =
     (let p = path_clean path in
      if \<not> utf8_valid p then p
      else if \<not> isNormalNFC u p then toNFC u p
      else p)"

definition canonicalizeHash :: "string \<Rightarrow> string" where
  "canonicalizeHash hash = to_lower (trim_space hash)"

section \<open>The files of the torrents\<close>

record torrent_file_map =
  tfm_paths :: "string goset"
  tfm_dirs :: "string goset"

definition newTorrentFileMap :: torrent_file_map where
  "newTorrentFileMap = \<lparr>tfm_paths = [], tfm_dirs = []\<rparr>"

text \<open>The loop of \<open>Add\<close> over the ancestors of a path; a loop that does not end has the value \<open>None\<close>.\<close>

partial_function (option) addDirs :: "string \<Rightarrow> string goset \<Rightarrow> string goset option" where
  "addDirs dir dirs =
     (if dir = dot \<or> dir = ''/'' then Some dirs
      else let dirs' = gs_add dir dirs; parent = path_dir dir in
        if parent = dir then Some dirs' else addDirs parent dirs')"

declare addDirs.simps [code]

definition tfm_add :: "unicode_norm \<Rightarrow> string \<Rightarrow> torrent_file_map \<Rightarrow> torrent_file_map option" where
  "tfm_add u path m =
     (let n = normalizePath u path in
      case addDirs (path_dir n) (tfm_dirs m) of
        None \<Rightarrow> None
      | Some dirs \<Rightarrow> Some (m\<lparr>tfm_paths := gs_add n (tfm_paths m), tfm_dirs := dirs\<rparr>))"

definition tfm_has :: "torrent_file_map \<Rightarrow> string \<Rightarrow> bool" where
  "tfm_has m path \<longleftrightarrow> path \<in> set (tfm_paths m)"

definition tfm_hasAnyInDir :: "torrent_file_map \<Rightarrow> string \<Rightarrow> bool" where
  "tfm_hasAnyInDir m dirPath \<longleftrightarrow> dirPath \<in> set (tfm_dirs m)"

definition tfm_len :: "torrent_file_map \<Rightarrow> nat" where
  "tfm_len m = length (tfm_paths m)"

definition tfm_mergeFrom :: "torrent_file_map \<Rightarrow> torrent_file_map option \<Rightarrow> torrent_file_map \<times> nat" where
  "tfm_mergeFrom m other =
     (case other of
        None \<Rightarrow> (m, 0)
      | Some x \<Rightarrow>
          (case fold (\<lambda>p (paths, added). if p \<in> set paths then (paths, added) else (paths @ [p], added + 1))
                  (tfm_paths x) (tfm_paths m, 0) of
             (paths, added) \<Rightarrow>
               (m\<lparr>tfm_paths := paths, tfm_dirs := fold gs_add (tfm_dirs x) (tfm_dirs m)\<rparr>, added)))"

section \<open>Ignored paths\<close>

definition isPathUnderNormalized :: "string \<Rightarrow> string \<Rightarrow> bool" where
  "isPathUnderNormalized child parent \<longleftrightarrow>
     child \<noteq> parent \<and> has_prefix child parent \<and> length child \<noteq> length parent \<and>
     child ! length parent = CHR ''/''"

text \<open>The boundary-safe prefix test both functions below contain.\<close>

definition prefixAtBoundary :: "string \<Rightarrow> string \<Rightarrow> bool" where
  "prefixAtBoundary path pre \<longleftrightarrow>
     has_prefix path pre \<and> length path > length pre \<and> path ! length pre = CHR ''/''"

definition isIgnoredPath :: "unicode_norm \<Rightarrow> string \<Rightarrow> string list \<Rightarrow> bool" where
  "isIgnoredPath u path ignorePaths =
     (let normPath = normalizePath u path in
      list_ex (\<lambda>pre. let normPrefix = normalizePath u pre in
        normPath = normPrefix \<or> prefixAtBoundary normPath normPrefix) ignorePaths)"

definition isPathProtectedByIgnorePaths :: "unicode_norm \<Rightarrow> string \<Rightarrow> string list \<Rightarrow> bool" where
  "isPathProtectedByIgnorePaths u path ignorePaths \<longleftrightarrow>
     isIgnoredPath u path ignorePaths \<or>
     (let normPath = normalizePath u path in
      list_ex (\<lambda>ignorePath. let normIgnore = normalizePath u ignorePath in
        normIgnore \<noteq> normPath \<and> prefixAtBoundary normIgnore normPath) ignorePaths)"

text \<open>The error names the first path that is not absolute.\<close>

fun normalizeIgnorePaths :: "unicode_norm \<Rightarrow> string list \<Rightarrow> string + string list" where
  "normalizeIgnorePaths u [] = Inr []"
| "normalizeIgnorePaths u (p # ps) =
     (let cleaned = path_clean p in
      if \<not> is_rooted cleaned then Inl p
      else (case normalizeIgnorePaths u ps of
              Inl e \<Rightarrow> Inl e
            | Inr r \<Rightarrow> Inr (normalizePath u cleaned # r)))"

section \<open>Laws of the normal form\<close>

text \<open>
  What the documentation of \<open>norm.NFC\<close> states, on valid strings: \<open>IsNormalString\<close> recognises the
  fixed points, the normal form is a fixed point, and since the separator and the dot take part in no
  composition and no character normalises to them, a path is normalised component by component.
\<close>

definition nfc_laws :: "unicode_norm \<Rightarrow> bool" where
  "nfc_laws u \<longleftrightarrow>
     (\<forall>s. utf8_valid s \<longrightarrow> isNormalNFC u s \<longrightarrow> toNFC u s = s) \<and>
     (\<forall>s. utf8_valid s \<longrightarrow> utf8_valid (toNFC u s) \<and> toNFC u (toNFC u s) = toNFC u s) \<and>
     (\<forall>c. utf8_valid c \<longrightarrow> plain_comp c \<longrightarrow> plain_comp (toNFC u c)) \<and>
     (\<forall>cs. plain_comps cs \<longrightarrow> list_all utf8_valid cs \<longrightarrow> toNFC u (abs_path cs) = abs_path (map (toNFC u) cs))"

text \<open>On ASCII text the normal form changes nothing.\<close>

definition ascii_norm :: unicode_norm where
  "ascii_norm = \<lparr>isNormalNFC = (\<lambda>s. True), toNFC = (\<lambda>s. s)\<rparr>"

lemma nfc_laws_ascii [simp]: "nfc_laws ascii_norm"
  by (simp add: nfc_laws_def ascii_norm_def)

lemma normalizePath_ascii [simp]: "normalizePath ascii_norm p = path_clean p"
  by (simp add: normalizePath_def ascii_norm_def Let_def)

lemma byte_in_sep [simp]: "byte_in lo hi (CHR ''/'') \<longleftrightarrow> lo \<le> 47 \<and> 47 \<le> hi"
  by (simp add: byte_in_def)

lemma utf8_valid_sep: "utf8_valid (a @ CHR ''/'' # b) \<longleftrightarrow> utf8_valid a \<and> utf8_valid b"
proof (induction a rule: utf8_valid.induct)
  case 1
  show ?case
    by (simp add: utf8_lead_def)
next
  case (2 c cs)
  show ?case
  proof (cases "utf8_lead c")
    case (Some l)
    obtain k lo hi where l: "l = (k, lo, hi)"
      using prod_cases3 by blast
    show ?thesis
    proof (cases "k \<le> length cs")
      case True
      then have "k > 0 \<longrightarrow> hd (cs @ CHR ''/'' # b) = hd cs"
        by (cases cs) auto
      with 2 [OF Some, unfolded l, OF refl refl] True Some l show ?thesis
        by auto
    next
      case False
      then have "CHR ''/'' \<in> set (take k (cs @ CHR ''/'' # b))"
        by (cases "k - length cs") auto
      then have "\<not> list_all (byte_in 128 191) (take k (cs @ CHR ''/'' # b))"
        by (force simp: list_all_iff)
      with False Some l show ?thesis
        by (simp del: take_append list_all_append)
    qed
  qed simp
qed

lemma utf8_valid_join: "utf8_valid (join_with ''/'' cs) \<longleftrightarrow> list_all utf8_valid cs"
  by (induction "''/'' :: string" cs rule: join_with.induct) (simp_all add: utf8_valid_sep)

lemma utf8_valid_abs_path: "utf8_valid (abs_path cs) \<longleftrightarrow> list_all utf8_valid cs"
  using utf8_valid_sep [of "[]" "join_with ''/'' cs"] by (simp add: abs_path_def utf8_valid_join)

text \<open>Components of the normal form: the path cleaned, each component normalised if all are valid.\<close>

definition norm_comps :: "unicode_norm \<Rightarrow> string list \<Rightarrow> string list" where
  "norm_comps u cs = (if list_all utf8_valid cs then map (toNFC u) cs else cs)"

lemma plain_norm_comps: "nfc_laws u \<Longrightarrow> plain_comps cs \<Longrightarrow> plain_comps (norm_comps u cs)"
  by (auto simp: nfc_laws_def norm_comps_def plain_comps_iff list_all_iff)

lemma norm_comps_idem: "nfc_laws u \<Longrightarrow> norm_comps u (norm_comps u cs) = norm_comps u cs"
  by (auto simp: nfc_laws_def norm_comps_def list_all_iff)

lemma length_norm_comps [simp]: "length (norm_comps u cs) = length cs"
  by (simp add: norm_comps_def)

lemma norm_comps_Nil_iff [simp]: "norm_comps u cs = [] \<longleftrightarrow> cs = []"
  by (simp add: norm_comps_def)

lemma normalizePath_abs_path:
  assumes "nfc_laws u" and cs: "plain_comps cs"
  shows "normalizePath u (abs_path cs) = abs_path (norm_comps u cs)"
  using assms unfolding normalizePath_def nfc_laws_def norm_comps_def
  by (simp add: utf8_valid_abs_path Let_def) (metis utf8_valid_abs_path)

lemma normalizePath_rooted:
  assumes "nfc_laws u" and "is_rooted p"
  shows "normalizePath u p = abs_path (norm_comps u (path_comps (path_clean p)))"
proof -
  have "normalizePath u p = normalizePath u (path_clean p)"
    using assms(2) by (simp add: normalizePath_def path_clean_idem)
  then show ?thesis
    using normalizePath_abs_path [OF assms(1) path_clean_abs_path(2) [OF assms(2)]]
      path_clean_abs_path(1) [OF assms(2)] by metis
qed

lemma canonical_normalizePath: "nfc_laws u \<Longrightarrow> is_rooted p \<Longrightarrow> canonical (normalizePath u p)"
  by (simp add: normalizePath_rooted path_clean_abs_path(2) plain_norm_comps)

lemma normalizePath_idem:
  "nfc_laws u \<Longrightarrow> is_rooted p \<Longrightarrow> normalizePath u (normalizePath u p) = normalizePath u p"
  by (simp add: normalizePath_rooted normalizePath_abs_path path_clean_abs_path(2) plain_norm_comps norm_comps_idem)

section \<open>Prefix tests compare components\<close>

lemma prefixAtBoundary_alt: "prefixAtBoundary p q \<longleftrightarrow> has_prefix p (q @ ''/'')"
proof
  assume *: "prefixAtBoundary p q"
  then obtain r where r: "p = q @ r"
    by (auto simp: prefixAtBoundary_def has_prefix_def prefix_def)
  with * have "r \<noteq> []" and "hd r = CHR ''/''"
    by (auto simp: prefixAtBoundary_def nth_append hd_conv_nth)
  with r show "has_prefix p (q @ ''/'')"
    by (cases r) (auto simp: has_prefix_def prefix_def)
qed (auto simp: prefixAtBoundary_def has_prefix_def prefix_def nth_append)

lemma isPathUnderNormalized_alt: "isPathUnderNormalized p q \<longleftrightarrow> prefixAtBoundary p q"
  by (auto simp: isPathUnderNormalized_def prefixAtBoundary_def has_prefix_def prefix_def)

text \<open>
  On canonical paths the test holds exactly below the directory, with one exception: nothing counts
  as below the root directory, whose path ends in the separator already.
\<close>

lemma prefixAtBoundary_abs_path:
  assumes "plain_comps as" and "plain_comps bs"
  shows "prefixAtBoundary (abs_path bs) (abs_path as) \<longleftrightarrow> as \<noteq> [] \<and> strict_prefix as bs"
proof (cases "as = []")
  case True
  have "\<not> has_prefix (abs_path bs) (''/'' @ ''/'')"
  proof
    assume "has_prefix (abs_path bs) (''/'' @ ''/'')"
    then obtain r where r: "join_with ''/'' bs = CHR ''/'' # r"
      by (auto simp: abs_path_def has_prefix_def prefix_def)
    with assms(2) show False
      by (cases bs rule: remdups_adj.cases) (auto simp: plain_comp_def append_eq_Cons_conv Cons_eq_append_conv)
  qed
  with True show ?thesis
    by (simp add: prefixAtBoundary_alt abs_path_def)
next
  case False
  with assms show ?thesis
    by (simp add: prefixAtBoundary_alt abs_path_prefix_sep)
qed

text \<open>Ignored paths and protected paths, in terms of components of the normal forms.\<close>

definition ncomps :: "unicode_norm \<Rightarrow> string \<Rightarrow> string list" where
  "ncomps u p = norm_comps u (path_comps (path_clean p))"

lemma plain_ncomps: "nfc_laws u \<Longrightarrow> is_rooted p \<Longrightarrow> plain_comps (ncomps u p)"
  by (simp add: ncomps_def path_clean_abs_path(2) plain_norm_comps)

lemma normalizePath_ncomps: "nfc_laws u \<Longrightarrow> is_rooted p \<Longrightarrow> normalizePath u p = abs_path (ncomps u p)"
  by (simp add: ncomps_def normalizePath_rooted)

lemma isIgnoredPath_iff:
  assumes "nfc_laws u" and "is_rooted p" and "\<forall>g \<in> set igs. is_rooted g"
  shows "isIgnoredPath u p igs \<longleftrightarrow>
    (\<exists>g \<in> set igs. ncomps u g = ncomps u p \<or> ncomps u g \<noteq> [] \<and> strict_prefix (ncomps u g) (ncomps u p))"
proof -
  have "normalizePath u p = normalizePath u g \<or> prefixAtBoundary (normalizePath u p) (normalizePath u g) \<longleftrightarrow>
      ncomps u g = ncomps u p \<or> ncomps u g \<noteq> [] \<and> strict_prefix (ncomps u g) (ncomps u p)"
    if "g \<in> set igs" for g
    using assms that
    by (auto simp: normalizePath_ncomps plain_ncomps abs_path_inject prefixAtBoundary_abs_path)
  then show ?thesis
    by (auto simp: isIgnoredPath_def Let_def list_ex_iff)
qed

lemma isPathProtectedByIgnorePaths_iff:
  assumes "nfc_laws u" and "is_rooted p" and "\<forall>g \<in> set igs. is_rooted g"
  shows "isPathProtectedByIgnorePaths u p igs \<longleftrightarrow>
    (\<exists>g \<in> set igs. ncomps u g = ncomps u p \<or> ncomps u g \<noteq> [] \<and> strict_prefix (ncomps u g) (ncomps u p) \<or>
      ncomps u p \<noteq> [] \<and> strict_prefix (ncomps u p) (ncomps u g))"
proof -
  have "normalizePath u g \<noteq> normalizePath u p \<and> prefixAtBoundary (normalizePath u g) (normalizePath u p) \<longleftrightarrow>
      ncomps u p \<noteq> [] \<and> strict_prefix (ncomps u p) (ncomps u g)"
    if "g \<in> set igs" for g
    using assms that
    by (auto simp: normalizePath_ncomps plain_ncomps abs_path_inject prefixAtBoundary_abs_path)
  then have "isPathProtectedByIgnorePaths u p igs \<longleftrightarrow> isIgnoredPath u p igs \<or>
      (\<exists>g \<in> set igs. ncomps u p \<noteq> [] \<and> strict_prefix (ncomps u p) (ncomps u g))"
    by (auto simp: isPathProtectedByIgnorePaths_def Let_def list_ex_iff)
  then show ?thesis
    unfolding isIgnoredPath_iff [OF assms] by blast
qed

text \<open>
  If a path is not protected, then nothing at or below it is at or below an ignored directory other
  than the root, as long as the paths are valid strings.
\<close>

lemma unprotected_below:
  assumes "nfc_laws u" and "is_rooted p" and igs: "\<forall>g \<in> set igs. is_rooted g"
    and free: "\<not> isPathProtectedByIgnorePaths u p igs"
    and ne: "path_comps (path_clean p) \<noteq> []" and cs: "prefix (path_comps (path_clean p)) cs" and valid: "list_all utf8_valid cs"
    and g: "g \<in> set igs" "ncomps u g \<noteq> []"
  shows "\<not> prefix (ncomps u g) (norm_comps u cs)"
proof
  assume below: "prefix (ncomps u g) (norm_comps u cs)"
  have "list_all utf8_valid (path_comps (path_clean p))"
    using cs valid by (auto simp: prefix_def)
  then have "prefix (ncomps u p) (norm_comps u cs)"
    using cs valid by (auto simp: ncomps_def norm_comps_def prefix_def)
  with below have "prefix (ncomps u g) (ncomps u p) \<or> prefix (ncomps u p) (ncomps u g)"
    using prefix_same_cases by blast
  moreover have "ncomps u p \<noteq> []"
    using ne by (simp add: ncomps_def)
  ultimately show False
    using free g unfolding isPathProtectedByIgnorePaths_iff [OF assms(1-3)] strict_prefix_def by metis
qed

section \<open>The map of files\<close>

lemma path_dir_abs_path:
  assumes "plain_comps cs"
  shows "path_dir (abs_path cs) = abs_path (butlast cs)"
proof (cases cs rule: rev_cases)
  case Nil
  then show ?thesis
    by (simp add: path_dir_def abs_path_def path_clean_def is_rooted_def has_prefix_def clean_comps_def clean_step_def)
next
  case (snoc ds c)
  have c: "CHR ''/'' \<notin> set c" and plain: "plain_comps ds"
    using assms snoc by (auto simp: plain_comp_def)
  obtain b where b: "abs_path cs = b @ ''/'' @ c" and db: "path_clean (b @ ''/'') = abs_path ds"
  proof (cases "ds = []")
    case True
    with snoc that [of "[]"] plain show ?thesis
      by (simp add: abs_path_def path_clean_def is_rooted_def has_prefix_def clean_comps_def clean_step_def)
  next
    case False
    have "path_comps (abs_path ds @ ''/'') = ds"
      using path_comps_append [of "abs_path ds" "[]"] plain by simp
    moreover have r: "is_rooted (abs_path ds @ ''/'')"
      by (simp add: abs_path_def)
    ultimately have "path_comps (path_clean (abs_path ds @ ''/'')) = ds"
      using plain by (simp only: path_comps_clean_rooted(1) clean_comps_path_comps)
        (simp add: clean_comps_def fold_clean_plain plain_comps_iff)
    then have "path_clean (abs_path ds @ ''/'') = abs_path ds"
      using path_clean_abs_path(1) [OF r] by metis
    with False snoc that [of "abs_path ds"] show ?thesis
      by (simp add: abs_path_append)
  qed
  have "dropWhile (\<lambda>c. c \<noteq> CHR ''/'') (rev c @ CHR ''/'' # rev b) = CHR ''/'' # rev b"
    using c by (subst dropWhile_append2) auto
  with b db snoc show ?thesis
    by (simp add: path_dir_def)
qed

text \<open>The directories strictly between the root directory and a path.\<close>

definition ancestors :: "string list \<Rightarrow> string set" where
  "ancestors cs = {abs_path ds | ds. ds \<noteq> [] \<and> strict_prefix ds cs}"

lemma abs_path_ne_dot: "abs_path cs \<noteq> dot"
  by (simp add: abs_path_def dot_def)

lemma prefix_snoc_iff: "prefix ds (cs @ [c]) \<longleftrightarrow> prefix ds cs \<or> ds = cs @ [c]"
  by auto

lemma addDirs_result:
  "plain_comps cs \<Longrightarrow>
    \<exists>dirs'. addDirs (abs_path cs) dirs = Some dirs' \<and> (distinct dirs \<longrightarrow> distinct dirs') \<and>
      set dirs' = {abs_path ds | ds. ds \<noteq> [] \<and> prefix ds cs} \<union> set dirs"
proof (induction cs arbitrary: dirs rule: rev_induct)
  case Nil
  show ?case
    by (subst addDirs.simps) (simp add: abs_path_def)
next
  case (snoc c cs)
  let ?d = "abs_path (cs @ [c])"
  have ne: "?d \<noteq> ''/''" and ne': "abs_path cs \<noteq> ?d"
    using snoc.prems abs_path_root [of "cs @ [c]"] abs_path_inject [of cs "cs @ [c]"] by auto
  have unfold: "addDirs ?d dirs = addDirs (abs_path cs) (gs_add ?d dirs)"
    using snoc.prems ne ne' by (subst addDirs.simps) (simp add: Let_def path_dir_abs_path abs_path_ne_dot)
  from snoc.IH [of "gs_add ?d dirs"] snoc.prems obtain dirs' where
    r: "addDirs (abs_path cs) (gs_add ?d dirs) = Some dirs'" and
    dist: "distinct (gs_add ?d dirs) \<longrightarrow> distinct dirs'" and
    s: "set dirs' = {abs_path ds | ds. ds \<noteq> [] \<and> prefix ds cs} \<union> set (gs_add ?d dirs)"
    by auto
  have "{abs_path ds | ds. ds \<noteq> [] \<and> prefix ds (cs @ [c])} =
      insert ?d {abs_path ds | ds. ds \<noteq> [] \<and> prefix ds cs}"
    unfolding prefix_snoc_iff by auto
  with unfold r dist s show ?case
    by auto
qed

text \<open>Well-formed maps: sets of canonical paths, and exactly their ancestors.\<close>

definition tfm_wf :: "torrent_file_map \<Rightarrow> bool" where
  "tfm_wf m \<longleftrightarrow> distinct (tfm_paths m) \<and> distinct (tfm_dirs m) \<and> (\<forall>p \<in> set (tfm_paths m). canonical p) \<and>
     set (tfm_dirs m) = (\<Union>p \<in> set (tfm_paths m). ancestors (path_comps p))"

lemma tfm_wf_new: "tfm_wf newTorrentFileMap"
  by (simp add: tfm_wf_def newTorrentFileMap_def)

lemma strict_prefix_butlast: "cs \<noteq> [] \<Longrightarrow> strict_prefix ds cs \<longleftrightarrow> prefix ds (butlast cs)"
  by (cases cs rule: rev_cases) (auto simp: strict_prefix_def)

lemma tfm_add_result:
  assumes "nfc_laws u" and "is_rooted p"
  shows "\<exists>m'. tfm_add u p m = Some m' \<and> set (tfm_paths m') = insert (normalizePath u p) (set (tfm_paths m)) \<and>
    set (tfm_dirs m') = ancestors (ncomps u p) \<union> set (tfm_dirs m) \<and> (tfm_wf m \<longrightarrow> tfm_wf m')"
proof -
  let ?cs = "ncomps u p"
  have plain: "plain_comps ?cs"
    using assms plain_ncomps by blast
  then have "plain_comps (butlast ?cs)"
    by (meson plain_comps_prefix prefixeq_butlast)
  from addDirs_result [OF this, of "tfm_dirs m"] obtain dirs' where
    r: "addDirs (abs_path (butlast ?cs)) (tfm_dirs m) = Some dirs'" and
    dist: "distinct (tfm_dirs m) \<longrightarrow> distinct dirs'" and
    s: "set dirs' = {abs_path ds | ds. ds \<noteq> [] \<and> prefix ds (butlast ?cs)} \<union> set (tfm_dirs m)"
    by auto
  have anc: "{abs_path ds | ds. ds \<noteq> [] \<and> prefix ds (butlast ?cs)} = ancestors ?cs"
    unfolding ancestors_def by (cases "?cs = []") (auto simp: strict_prefix_butlast)
  have n: "normalizePath u p = abs_path ?cs"
    using assms normalizePath_ncomps by blast
  show ?thesis
    using r dist s plain unfolding anc
    by (auto simp: tfm_add_def Let_def n path_dir_abs_path tfm_wf_def)
qed

text \<open>
  The loop ends for every string: \<open>Dir\<close> of anything but the root directory is the dot or shorter.
\<close>

definition comps_size :: "string list \<Rightarrow> nat" where
  "comps_size cs = sum_list (map (\<lambda>c. length c + 1) cs)"

lemma comps_size_simps [simp]:
  "comps_size [] = 0" "comps_size (c # cs) = length c + 1 + comps_size cs"
  "comps_size (as @ bs) = comps_size as + comps_size bs" "comps_size (rev cs) = comps_size cs"
  by (simp_all add: comps_size_def sum_list_rev flip: rev_map)

lemma comps_size_clean_step:
  "comps_size (clean_step r c st) \<le> comps_size st + (if c = [] then 0 else length c + 1)"
  by (auto simp: clean_step_def split: list.splits)

lemma comps_size_fold_clean:
  "comps_size (fold (clean_step r) cs st) \<le> comps_size st + comps_size (filter (\<lambda>c. c \<noteq> []) cs)"
proof (induction cs arbitrary: st)
  case (Cons c cs)
  from Cons.IH [of "clean_step r c st"] comps_size_clean_step [of r c st] show ?case
    by (simp split: if_splits)
qed simp

lemma comps_size_split: "comps_size (split_on sep s) = length s + 1"
  by (induction s) (auto split: list.splits)

lemma length_join: "cs \<noteq> [] \<Longrightarrow> length (join_with ''/'' cs) + 1 = comps_size cs"
  by (induction "''/'' :: string" cs rule: join_with.induct) auto

lemma comps_size_path_comps: "comps_size (path_comps s) \<le> length s + 1"
proof -
  have "comps_size (filter (\<lambda>c. c \<noteq> []) cs) \<le> comps_size cs" for cs :: "string list"
    by (induction cs) auto
  then show ?thesis
    using comps_size_split [of "CHR ''/''" s] by (metis path_comps_def)
qed

lemma length_path_clean_sep:
  assumes "s \<noteq> []"
  shows "length (path_clean (s @ ''/'')) \<le> length s"
proof -
  let ?p = "s @ ''/''"
  have comps: "path_comps ?p = path_comps s"
    using path_comps_append [of s "[]"] by simp
  have size: "comps_size (clean_comps r (split_on (CHR ''/'') ?p)) \<le> comps_size (path_comps s)" for r
  proof -
    have "filter (\<lambda>c. c \<noteq> []) (path_comps s) = path_comps s"
      by (simp add: path_comps_def)
    then show ?thesis
      using comps_size_fold_clean [of r "path_comps s" "[]"]
      unfolding clean_comps_path_comps comps by (simp add: clean_comps_def)
  qed
  show ?thesis
  proof (cases "is_rooted s")
    case True
    then obtain s' where s: "s = CHR ''/'' # s'"
      by (cases s) auto
    then have "comps_size (path_comps s) \<le> length s"
      using comps_size_path_comps [of s'] by simp
    then show ?thesis
      using size [of True] length_join [of "clean_comps True (split_on (CHR ''/'') ?p)"] True s
      by (cases "clean_comps True (split_on (CHR ''/'') ?p) = []") (auto simp: path_clean_def Let_def)
  next
    case False
    with assms have "\<not> is_rooted ?p"
      by (cases s) auto
    then show ?thesis
      using size [of False] comps_size_path_comps [of s] assms
        length_join [of "clean_comps False (split_on (CHR ''/'') ?p)"]
      by (cases s) (auto simp: path_clean_def Let_def dot_def)
  qed
qed

lemma path_dir_shrinks: "path_dir p = dot \<or> path_dir p = ''/'' \<or> length (path_dir p) < length p"
proof -
  let ?d = "dropWhile (\<lambda>c. c \<noteq> CHR ''/'') (rev p)"
  show ?thesis
  proof (cases ?d)
    case Nil
    then show ?thesis
      by (simp only: path_dir_def path_clean_Nil rev.simps simp_thms)
  next
    case (Cons c r)
    have c: "c = CHR ''/''"
      using Cons hd_dropWhile [of "\<lambda>c. c \<noteq> CHR ''/''" "rev p"] by auto
    have len: "Suc (length r) \<le> length p"
      using Cons length_dropWhile_le [of "\<lambda>c. c \<noteq> CHR ''/''" "rev p"] by simp
    show ?thesis
    proof (cases "r = []")
      case True
      with Cons c show ?thesis
        by (simp only: path_dir_def path_clean_root rev.simps append_Nil simp_thms)
    next
      case False
      with Cons c len length_path_clean_sep [of "rev r"] show ?thesis
        by (simp add: path_dir_def)
    qed
  qed
qed

lemma addDirs_terminates: "addDirs dir dirs \<noteq> None"
proof (induction "length dir" arbitrary: dir dirs rule: less_induct)
  case less
  have stop: "addDirs d ds \<noteq> None" if "d = dot \<or> d = ''/''" for d ds
    using that by (subst addDirs.simps) simp
  have "addDirs (path_dir dir) ds \<noteq> None" for ds
    using path_dir_shrinks [of dir] less stop by blast
  then show ?case
    by (subst addDirs.simps) (simp add: Let_def)
qed

text \<open>A loop of steps that may fail to return.\<close>

fun opt_fold :: "('a \<Rightarrow> 's \<Rightarrow> 's option) \<Rightarrow> 'a list \<Rightarrow> 's \<Rightarrow> 's option" where
  "opt_fold f [] s = Some s"
| "opt_fold f (x # xs) s = (case f x s of None \<Rightarrow> None | Some s' \<Rightarrow> opt_fold f xs s')"

lemma tfm_merge_result:
  assumes "tfm_mergeFrom m (Some x) = (m', n)"
  shows "set (tfm_paths m') = set (tfm_paths m) \<union> set (tfm_paths x)"
    and "set (tfm_dirs m') = set (tfm_dirs m) \<union> set (tfm_dirs x)"
    and "distinct (tfm_paths m) \<Longrightarrow> distinct (tfm_paths m') \<and> n = card (set (tfm_paths x) - set (tfm_paths m))"
    and "distinct (tfm_dirs m) \<Longrightarrow> distinct (tfm_dirs m')"
proof -
  let ?step = "\<lambda>p (paths, added). if p \<in> set paths then (paths, added) else (paths @ [p], added + (1 :: nat))"
  have loop: "fold ?step ps (qs, k) = (rs, n') \<Longrightarrow> set rs = set qs \<union> set ps \<and>
      (distinct qs \<longrightarrow> distinct rs) \<and> n' = k + card (set ps - set qs)" for ps qs rs k n'
  proof (induction ps arbitrary: qs k)
    case (Cons p ps)
    show ?case
    proof (cases "p \<in> set qs")
      case True
      with Cons.IH [of qs k] Cons.prems show ?thesis
        by (simp add: insert_Diff_if insert_absorb)
    next
      case False
      have *: "insert p (set ps) - set qs = insert p (set ps - insert p (set qs))"
        using False by blast
      from Cons.IH [of "qs @ [p]" "k + 1"] Cons.prems False show ?thesis
        by (simp add: * )
    qed
  qed simp
  obtain rs where rs: "fold ?step (tfm_paths x) (tfm_paths m, 0) = (rs, n)"
      and m': "m' = m\<lparr>tfm_paths := rs, tfm_dirs := fold gs_add (tfm_dirs x) (tfm_dirs m)\<rparr>"
    using assms by (auto simp: tfm_mergeFrom_def split: prod.splits)
  show "set (tfm_paths m') = set (tfm_paths m) \<union> set (tfm_paths x)"
    and "set (tfm_dirs m') = set (tfm_dirs m) \<union> set (tfm_dirs x)"
    and "distinct (tfm_paths m) \<Longrightarrow> distinct (tfm_paths m') \<and> n = card (set (tfm_paths x) - set (tfm_paths m))"
    and "distinct (tfm_dirs m) \<Longrightarrow> distinct (tfm_dirs m')"
    using loop [OF rs] m' by (auto simp: set_fold_gs_add distinct_fold_gs_add)
qed

section \<open>The interface of the map\<close>

text \<open>
  What the scan and the deletion rely on: a set of normalised paths that grows by additions and
  unions, membership, and whether a directory has a member below it. The normaliser is an argument
  of \<open>add\<close>; \<open>lawful\<close> says which normalisers the laws hold for.
\<close>

locale owned_files =
  fixes lawful :: "'u \<Rightarrow> bool" and norm :: "'u \<Rightarrow> string \<Rightarrow> string"
    and wf :: "'m \<Rightarrow> bool" and owned :: "'m \<Rightarrow> string set" and nothing :: 'm
    and add :: "'u \<Rightarrow> string \<Rightarrow> 'm \<Rightarrow> 'm option" and union :: "'m \<Rightarrow> 'm \<Rightarrow> 'm"
    and has :: "'m \<Rightarrow> string \<Rightarrow> bool" and anyIn :: "'m \<Rightarrow> string \<Rightarrow> bool"
  assumes nothing_law: "wf nothing" "owned nothing = {}"
    and add_law: "lawful u \<Longrightarrow> is_rooted p \<Longrightarrow>
      \<exists>m'. add u p m = Some m' \<and> owned m' = insert (norm u p) (owned m) \<and> (wf m \<longrightarrow> wf m')"
    and union_law: "owned (union m x) = owned m \<union> owned x" "wf m \<Longrightarrow> wf x \<Longrightarrow> wf (union m x)"
    and has_law: "has m p \<longleftrightarrow> p \<in> owned m"
    and anyIn_law: "wf m \<Longrightarrow> anyIn m d \<longleftrightarrow> (\<exists>p \<in> owned m. d \<in> ancestors (path_comps p))"
begin

text \<open>Adding a list of absolute paths returns a map that has them all, in normal form.\<close>

lemma add_all:
  "lawful u \<Longrightarrow> list_all is_rooted ps \<Longrightarrow>
    \<exists>m'. opt_fold (add u) ps m = Some m' \<and> owned m' = norm u ` set ps \<union> owned m \<and> (wf m \<longrightarrow> wf m')"
proof (induction ps arbitrary: m)
  case (Cons p ps)
  from add_law [of u p m] Cons.prems obtain m1 where "add u p m = Some m1"
      and "owned m1 = insert (norm u p) (owned m)" and "wf m \<longrightarrow> wf m1"
    by (simp, blast)
  moreover from this Cons.IH [of m1] Cons.prems obtain m' where "opt_fold (add u) ps m1 = Some m'"
      and "owned m' = norm u ` set ps \<union> owned m1" and "wf m1 \<longrightarrow> wf m'"
    by (simp, blast)
  ultimately show ?case
    by (intro exI [of _ m']) simp
qed simp

lemma union_owned: "has (union m x) p \<longleftrightarrow> has m p \<or> has x p"
  by (simp add: has_law union_law(1))

lemma anyIn_union: "wf m \<Longrightarrow> wf x \<Longrightarrow> anyIn (union m x) d \<longleftrightarrow> anyIn m d \<or> anyIn x d"
  by (auto simp: anyIn_law union_law)

text \<open>A directory without owned files below it holds no owned path.\<close>

lemma not_anyIn_disjoint:
  assumes "wf m" and "\<not> anyIn m (abs_path ds)" and "ds \<noteq> []" and "strict_prefix ds cs" and "plain_comps cs"
  shows "\<not> has m (abs_path cs)"
proof
  assume "has m (abs_path cs)"
  then have "abs_path cs \<in> owned m"
    by (simp add: has_law)
  moreover have "abs_path ds \<in> ancestors (path_comps (abs_path cs))"
    using assms by (auto simp: ancestors_def)
  ultimately show False
    using assms anyIn_law by blast
qed

end

definition tfm_union :: "torrent_file_map \<Rightarrow> torrent_file_map \<Rightarrow> torrent_file_map" where
  "tfm_union m x = fst (tfm_mergeFrom m (Some x))"

lemma tfm_union_result:
  "set (tfm_paths (tfm_union m x)) = set (tfm_paths m) \<union> set (tfm_paths x)"
  "tfm_wf m \<Longrightarrow> tfm_wf x \<Longrightarrow> tfm_wf (tfm_union m x)"
proof -
  obtain m' n where r: "tfm_mergeFrom m (Some x) = (m', n)"
    by fastforce
  then have u: "tfm_union m x = m'"
    by (simp add: tfm_union_def)
  show "set (tfm_paths (tfm_union m x)) = set (tfm_paths m) \<union> set (tfm_paths x)"
    using tfm_merge_result(1) [OF r] u by simp
  show "tfm_wf m \<Longrightarrow> tfm_wf x \<Longrightarrow> tfm_wf (tfm_union m x)"
    unfolding u tfm_wf_def using tfm_merge_result [OF r] by auto
qed

interpretation files: owned_files nfc_laws normalizePath tfm_wf "\<lambda>m. set (tfm_paths m)" newTorrentFileMap
  tfm_add tfm_union tfm_has tfm_hasAnyInDir
proof
  fix u p and m :: torrent_file_map
  assume "nfc_laws u" and "is_rooted p"
  then show "\<exists>m'. tfm_add u p m = Some m' \<and> set (tfm_paths m') = insert (normalizePath u p) (set (tfm_paths m)) \<and>
      (tfm_wf m \<longrightarrow> tfm_wf m')"
    using tfm_add_result by blast
next
  show "tfm_wf newTorrentFileMap"
    by (rule tfm_wf_new)
next
  fix m x
  show "tfm_wf m \<Longrightarrow> tfm_wf x \<Longrightarrow> tfm_wf (tfm_union m x)"
    by (rule tfm_union_result(2))
next
  fix m d
  show "tfm_wf m \<Longrightarrow> tfm_hasAnyInDir m d \<longleftrightarrow> (\<exists>p \<in> set (tfm_paths m). d \<in> ancestors (path_comps p))"
    by (simp add: tfm_hasAnyInDir_def tfm_wf_def)
qed (simp_all add: newTorrentFileMap_def tfm_union_result(1) tfm_has_def)

section \<open>Adding a path\<close>

text \<open>
  C38. \<open>TorrentFileMap.Add\<close> returns for every string, absolute or not, and adds exactly the normalised
  path to the files; for an absolute path it keeps the map well-formed and makes \<open>HasAnyInDir\<close> answer
  yes for exactly the directories it answered yes for before and the proper ancestors of the path.
\<close>

theorem tfm_add_terminates:
  "\<exists>m'. tfm_add u p m = Some m' \<and>
     (\<forall>q. tfm_has m' q \<longleftrightarrow> q = normalizePath u p \<or> tfm_has m q) \<and>
     (nfc_laws u \<and> is_rooted p \<and> tfm_wf m \<longrightarrow>
        tfm_wf m' \<and>
        (\<forall>d. tfm_hasAnyInDir m' d \<longleftrightarrow> tfm_hasAnyInDir m d \<or>
           (\<exists>ds. d = abs_path ds \<and> ds \<noteq> [] \<and> strict_prefix ds (path_comps (normalizePath u p)))))"
proof -
  obtain dirs where dirs: "addDirs (path_dir (normalizePath u p)) (tfm_dirs m) = Some dirs"
    using addDirs_terminates by fast
  let ?m' = "m\<lparr>tfm_paths := gs_add (normalizePath u p) (tfm_paths m), tfm_dirs := dirs\<rparr>"
  have r: "tfm_add u p m = Some ?m'"
    by (simp add: tfm_add_def dirs)
  have "tfm_wf ?m'" and "\<forall>d. tfm_hasAnyInDir ?m' d \<longleftrightarrow> tfm_hasAnyInDir m d \<or>
      (\<exists>ds. d = abs_path ds \<and> ds \<noteq> [] \<and> strict_prefix ds (path_comps (normalizePath u p)))"
    if "nfc_laws u" and "is_rooted p" and "tfm_wf m"
  proof -
    have anc: "set dirs = ancestors (ncomps u p) \<union> set (tfm_dirs m)" and wf: "tfm_wf ?m'"
      using tfm_add_result [OF that(1,2), of m] r that(3) by auto
    have n: "path_comps (normalizePath u p) = ncomps u p"
      using plain_ncomps [OF that(1,2)] by (simp add: normalizePath_ncomps [OF that(1,2)])
    show "tfm_wf ?m'"
      by (rule wf)
    show "\<forall>d. tfm_hasAnyInDir ?m' d \<longleftrightarrow> tfm_hasAnyInDir m d \<or>
        (\<exists>ds. d = abs_path ds \<and> ds \<noteq> [] \<and> strict_prefix ds (path_comps (normalizePath u p)))"
      unfolding n using anc by (auto simp: tfm_hasAnyInDir_def ancestors_def)
  qed
  moreover have "\<forall>q. tfm_has ?m' q \<longleftrightarrow> q = normalizePath u p \<or> tfm_has m q"
    by (simp add: tfm_has_def)
  ultimately show ?thesis
    using r by (intro exI [of _ ?m']) blast
qed

theorem tfm_add_terminates_witness:
  "\<exists>m'. tfm_add ascii_norm ''/data/./show//e1.mkv'' newTorrentFileMap = Some m' \<and>
     tfm_wf m' \<and> tfm_hasAnyInDir m' ''/data/show''"
proof -
  let ?p = "''/data/./show//e1.mkv''" and ?cs = "[''data'', ''show'', ''e1.mkv'']"
  have clean: "path_clean ?p = abs_path ?cs" and plain: "plain_comps ?cs" and dir: "''/data/show'' = abs_path [''data'', ''show'']"
    by code_simp+
  have pc: "path_comps (normalizePath ascii_norm ?p) = ?cs"
    unfolding normalizePath_ascii clean by (rule path_comps_abs_path [OF plain])
  have "[''data'', ''show''] \<noteq> []" and "strict_prefix [''data'', ''show''] ?cs" and "is_rooted ?p"
    by (simp_all add: strict_prefix_def)
  then show ?thesis
    using tfm_add_terminates [of ascii_norm ?p newTorrentFileMap, unfolded pc] tfm_wf_new nfc_laws_ascii dir
    by blast
qed

end
