(* ===== verification/Orphan_Sources.thy ===== *)
theory Orphan_Sources
  imports Orphan_Paths
begin

text \<open>
  Where an orphan scan looks and which files it must leave alone (\<open>service.go\<close>, lines 106-207, 745-773
  and 1088-1459, in \<open>src/internal/services/orphanscan\<close>): scan roots and the map of files from the
  torrents of an instance, readiness, and the merge with other instances on the same file system.
  What the clients and the store answer is data (\<open>instance_io\<close>, \<open>other_instance\<close>).
\<close>

section \<open>Torrents, roots\<close>

text \<open>The fields of \<open>qbt.Torrent\<close> the scan reads. A file is its name.\<close>

record scan_torrent =
  sct_Hash :: string
  sct_State :: string
  sct_SavePath :: string
  sct_ContentPath :: string

definition isTransientTorrentState :: "string \<Rightarrow> bool" where
  "isTransientTorrentState state \<longleftrightarrow>
     state \<in> {''metaDL'', ''checkingResumeData'', ''checkingDL'', ''checkingUP'', ''allocating'', ''moving''}"

definition addAbsoluteScanRoot :: "string \<Rightarrow> string goset \<Rightarrow> string goset" where
  "addAbsoluteScanRoot root roots =
     (let r = path_clean root in if r = [] \<or> \<not> is_rooted r then roots else gs_add r roots)"

definition scanRootsFromTorrents :: "scan_torrent list \<Rightarrow> string list" where
  "scanRootsFromTorrents ts =
     fold (\<lambda>t roots. addAbsoluteScanRoot (sct_ContentPath t) (addAbsoluteScanRoot (sct_SavePath t) roots)) ts []"

definition scanRootsOverlap :: "unicode_norm \<Rightarrow> string list \<Rightarrow> string list \<Rightarrow> bool" where
  "scanRootsOverlap u as bs \<longleftrightarrow>
     list_ex (\<lambda>ra. let na = normalizePath u ra in na \<noteq> [] \<and>
       list_ex (\<lambda>rb. let nb = normalizePath u rb in nb \<noteq> [] \<and>
         (na = nb \<or> isPathUnderNormalized na nb \<or> isPathUnderNormalized nb na)) bs) as"

definition sortedRoots :: "string goset \<Rightarrow> string list" where
  "sortedRoots roots = sort roots"

definition mergeRootLists :: "string list list \<Rightarrow> string list" where
  "mergeRootLists rootLists = sortedRoots (fold (\<lambda>r acc. gs_add (path_clean r) acc) (concat rootLists) [])"

definition isSameOrDescendantPath :: "unicode_norm \<Rightarrow> string \<Rightarrow> string \<Rightarrow> bool" where
  "isSameOrDescendantPath u path base =
     (let nPath = normalizePath u path; nBase = normalizePath u base in
      nPath = nBase \<or> isPathUnderNormalized nPath nBase)"

definition filterCoveredRoots :: "unicode_norm \<Rightarrow> string list \<Rightarrow> string list \<Rightarrow> string list" where
  "filterCoveredRoots u scanRoots skippedRoots =
     map path_clean (filter (\<lambda>root. \<not> list_ex (isSameOrDescendantPath u root) skippedRoots) scanRoots)"

text \<open>\<open>findScanRoot\<close>: the longest root (as written) at or above a path; empty if there is none.\<close>

definition findScanRoot :: "unicode_norm \<Rightarrow> string \<Rightarrow> string list \<Rightarrow> string" where
  "findScanRoot u path scanRoots =
     (let nPath = normalizePath u path in
      fold (\<lambda>root longest.
        let nRoot = normalizePath u root in
        if length nPath < length nRoot \<or> take (length nRoot) nPath \<noteq> nRoot then longest
        else if length nPath > length nRoot \<and> nPath ! length nRoot \<noteq> CHR ''/'' then longest
        else if length root > length longest then root else longest) scanRoots [])"

section \<open>The place of the content\<close>

definition backslash_to_slash :: "string \<Rightarrow> string" where
  "backslash_to_slash s = map (\<lambda>c. if c = CHR 0x5C then CHR ''/'' else c) s"

definition trimSuffix :: "string \<Rightarrow> string \<Rightarrow> string" where
  "trimSuffix s t = (if has_suffix s t then take (length s - length t) s else s)"

text \<open>The loop carries the root folder seen so far; \<open>None\<close> is the early return of the empty string.\<close>

fun rootFolderLoop :: "string list \<Rightarrow> string \<Rightarrow> string" where
  "rootFolderLoop [] rootFolder = rootFolder"
| "rootFolderLoop (f # fs) rootFolder =
     (let parts = split_on (CHR ''/'') (path_clean (backslash_to_slash f)) in
      if length parts \<le> 1 then []
      else if rootFolder = [] then rootFolderLoop fs (hd parts)
      else if rootFolder \<noteq> hd parts then []
      else rootFolderLoop fs rootFolder)"

definition torrentRootFolder :: "string list \<Rightarrow> string" where
  "torrentRootFolder files = rootFolderLoop files []"

definition actualSavePath :: "string \<Rightarrow> string \<Rightarrow> string list \<Rightarrow> string" where
  "actualSavePath savePath0 contentPath0 files =
     (let savePath = path_clean savePath0; contentPath = path_clean contentPath0 in
      if contentPath = [] \<or> \<not> is_rooted contentPath \<or> files = [] then []
      else if savePath \<noteq> [] \<and> is_rooted savePath \<and> contentPath = savePath then savePath
      else
        let first = path_clean (hd files);
            viaFile = (let a = trimSuffix contentPath (''/'' @ first) in
                       if a = [] \<or> a = contentPath then path_dir contentPath else a);
            actual =
              (if length files = 1 then viaFile
               else
                 let rootFolder = torrentRootFolder files in
                 if rootFolder = [] then contentPath
                 else
                   let a = trimSuffix contentPath (''/'' @ rootFolder) in
                   if a = [] \<or> a = contentPath then viaFile else a)
        in if actual = [] \<or> \<not> is_rooted actual then [] else path_clean actual)"

section \<open>The map of an instance\<close>

record file_map_result =
  fmr_fileMap :: torrent_file_map
  fmr_scanRoots :: "string list"
  fmr_skippedRoots :: "string list"
  fmr_torrentCount :: nat

record build_state =
  bs_map :: torrent_file_map
  bs_roots :: "string goset"
  bs_skipped :: "string goset"
  bs_missing :: nat

definition addFiles :: "unicode_norm \<Rightarrow> string \<Rightarrow> string list \<Rightarrow> torrent_file_map \<Rightarrow> torrent_file_map option" where
  "addFiles u base files m = opt_fold (\<lambda>f m. tfm_add u (normalizePath u (path_join [base, f])) m) files m"

definition addTorrent :: "unicode_norm \<Rightarrow> (string, string list) gomap \<Rightarrow> scan_torrent \<Rightarrow> build_state \<Rightarrow> build_state option" where
  "addTorrent u filesByHash t st =
     (let savePath = path_clean (sct_SavePath t);
          hasAbs = (savePath \<noteq> [] \<and> is_rooted savePath);
          files = (case gm_get filesByHash (canonicalizeHash (sct_Hash t)) of None \<Rightarrow> [] | Some fs \<Rightarrow> fs)
      in if files = [] then
           (if isTransientTorrentState (sct_State t)
            then Some (if hasAbs then st\<lparr>bs_skipped := gs_add savePath (bs_skipped st)\<rparr> else st)
            else Some (st\<lparr>bs_missing := bs_missing st + 1\<rparr>))
         else if \<not> hasAbs then Some st
         else
           (case addFiles u savePath files (bs_map st) of
              None \<Rightarrow> None
            | Some m1 \<Rightarrow>
                let st1 = st\<lparr>bs_map := m1, bs_roots := gs_add savePath (bs_roots st)\<rparr>;
                    actual = actualSavePath savePath (sct_ContentPath t) files
                in if actual \<noteq> [] \<and> actual \<noteq> savePath then
                     (case addFiles u actual files m1 of
                        None \<Rightarrow> None
                      | Some m2 \<Rightarrow> Some (st1\<lparr>bs_map := m2, bs_roots := gs_add actual (bs_roots st1)\<rparr>))
                   else Some st1))"

text \<open>Errors of building a map, one per error the code makes.\<close>

datatype scan_error =
    ClientUnavailable | ClientUnhealthy | WaitingForSync | SyncStale
  | TorrentsFailed | FilesFailed | PartialData nat
  | InstancesFailed | RootsUnknown int scan_error | RootsUnconfirmed int scan_error | OverlapUnavailable int scan_error

definition buildFileMapFromTorrents ::
  "unicode_norm \<Rightarrow> scan_torrent list \<Rightarrow> (string, string list) gomap \<Rightarrow> (scan_error + file_map_result) option" where
  "buildFileMapFromTorrents u ts filesByHash =
     (case opt_fold (addTorrent u filesByHash) ts
             \<lparr>bs_map = newTorrentFileMap, bs_roots = [], bs_skipped = [], bs_missing = 0\<rparr> of
        None \<Rightarrow> None
      | Some st \<Rightarrow>
          Some (if bs_missing st > 0 then Inl (PartialData (bs_missing st))
                else let skipped = sortedRoots (bs_skipped st) in
                  Inr \<lparr>fmr_fileMap = bs_map st,
                       fmr_scanRoots = filterCoveredRoots u (sortedRoots (bs_roots st)) skipped,
                       fmr_skippedRoots = skipped, fmr_torrentCount = length ts\<rparr>))"

section \<open>Readiness and other instances\<close>

text \<open>Times are nanoseconds; a zero time is \<open>None\<close>. What a client and its torrents answer in one attempt.\<close>

record scan_client =
  scl_healthy :: bool
  scl_lastSync :: "int option"

record instance_io =
  iio_client :: "scan_client option"
  iio_torrents :: "scan_torrent list option"
  iio_files :: "(string, string list) gomap option"

definition MaxSyncAge :: int where "MaxSyncAge = 2 * 60 * 1000000000"

definition checkReadinessGates :: "int \<Rightarrow> scan_client \<Rightarrow> scan_error option" where
  "checkReadinessGates now client =
     (if \<not> scl_healthy client then Some ClientUnhealthy
      else case scl_lastSync client of
        None \<Rightarrow> Some WaitingForSync
      | Some last_sync \<Rightarrow> if now - last_sync > MaxSyncAge then Some SyncStale else None)"

definition readyTorrents :: "int \<Rightarrow> instance_io \<Rightarrow> scan_error + scan_torrent list" where
  "readyTorrents now io =
     (case iio_client io of
        None \<Rightarrow> Inl ClientUnavailable
      | Some client \<Rightarrow>
          (case checkReadinessGates now client of
             Some e \<Rightarrow> Inl e
           | None \<Rightarrow> (case iio_torrents io of None \<Rightarrow> Inl TorrentsFailed | Some ts \<Rightarrow> Inr ts)))"

definition buildInstanceScanRoots :: "int \<Rightarrow> instance_io \<Rightarrow> scan_error + string list" where
  "buildInstanceScanRoots now io = map_sum id scanRootsFromTorrents (readyTorrents now io)"

definition buildInstanceFileMap :: "unicode_norm \<Rightarrow> int \<Rightarrow> instance_io \<Rightarrow> (scan_error + file_map_result) option" where
  "buildInstanceFileMap u now io =
     (case readyTorrents now io of
        Inl e \<Rightarrow> Some (Inl e)
      | Inr ts \<Rightarrow>
          (case iio_files io of
             None \<Rightarrow> Some (Inl FilesFailed)
           | Some files \<Rightarrow> buildFileMapFromTorrents u ts files))"

text \<open>
  Another instance: its identity and flags, what its client answers for the first look at its roots,
  for the confirmation and for its files, and the scan paths of its last completed run.
\<close>

record other_instance =
  oin_ID :: int
  oin_active :: bool
  oin_local :: bool
  oin_roots_io :: instance_io
  oin_confirm_io :: instance_io
  oin_files_io :: instance_io
  oin_lastPaths :: "string list option"

definition instanceScanRootsForOverlap :: "int \<Rightarrow> other_instance \<Rightarrow> scan_error + string list" where
  "instanceScanRootsForOverlap now inst =
     (case buildInstanceScanRoots now (oin_roots_io inst) of
        Inr roots \<Rightarrow> Inr roots
      | Inl e \<Rightarrow>
          (case oin_lastPaths inst of
             None \<Rightarrow> Inl e
           | Some paths \<Rightarrow> if paths = [] then Inl e else Inr paths))"

definition getOtherLocalInstances :: "int \<Rightarrow> other_instance list option \<Rightarrow> scan_error + other_instance list" where
  "getOtherLocalInstances exclude insts =
     (case insts of
        None \<Rightarrow> Inl InstancesFailed
      | Some is \<Rightarrow> Inr (filter (\<lambda>i. oin_ID i \<noteq> exclude \<and> oin_active i \<and> oin_local i) is))"

text \<open>Whether an instance has to be merged: its roots overlap, or the confirmed ones do.\<close>

definition needsMerge :: "unicode_norm \<Rightarrow> int \<Rightarrow> string list \<Rightarrow> other_instance \<Rightarrow> scan_error + bool" where
  "needsMerge u now scanRoots inst =
     (case instanceScanRootsForOverlap now inst of
        Inl e \<Rightarrow> Inl (RootsUnknown (oin_ID inst) e)
      | Inr roots \<Rightarrow>
          if scanRootsOverlap u scanRoots roots then Inr True
          else (case buildInstanceScanRoots now (oin_confirm_io inst) of
                  Inl e \<Rightarrow> Inl (RootsUnconfirmed (oin_ID inst) e)
                | Inr confirmed \<Rightarrow> Inr (scanRootsOverlap u scanRoots confirmed)))"

definition mergeInstance :: "unicode_norm \<Rightarrow> file_map_result \<Rightarrow> file_map_result \<Rightarrow> file_map_result" where
  "mergeInstance u result other =
     (let skipped = mergeRootLists [fmr_skippedRoots result, fmr_skippedRoots other] in
      result\<lparr>fmr_fileMap := fst (tfm_mergeFrom (fmr_fileMap result) (Some (fmr_fileMap other))),
             fmr_skippedRoots := skipped,
             fmr_scanRoots := filterCoveredRoots u (fmr_scanRoots result) skipped\<rparr>)"

fun mergeInstances :: "unicode_norm \<Rightarrow> int \<Rightarrow> other_instance list \<Rightarrow> file_map_result \<Rightarrow> (scan_error + file_map_result) option" where
  "mergeInstances u now [] result = Some (Inr result)"
| "mergeInstances u now (inst # insts) result =
     (case needsMerge u now (fmr_scanRoots result) inst of
        Inl e \<Rightarrow> Some (Inl e)
      | Inr False \<Rightarrow> mergeInstances u now insts result
      | Inr True \<Rightarrow>
          (case buildInstanceFileMap u now (oin_files_io inst) of
             None \<Rightarrow> None
           | Some (Inl e) \<Rightarrow> Some (Inl (OverlapUnavailable (oin_ID inst) e))
           | Some (Inr other) \<Rightarrow> mergeInstances u now insts (mergeInstance u result other)))"

definition buildFileMap ::
  "unicode_norm \<Rightarrow> int \<Rightarrow> int \<Rightarrow> instance_io \<Rightarrow> other_instance list option \<Rightarrow> (scan_error + file_map_result) option" where
  "buildFileMap u now instanceID io insts =
     (case buildInstanceFileMap u now io of
        None \<Rightarrow> None
      | Some (Inl e) \<Rightarrow> Some (Inl e)
      | Some (Inr result) \<Rightarrow>
          (case getOtherLocalInstances instanceID insts of
             Inl e \<Rightarrow> Some (Inl e)
           | Inr others \<Rightarrow> mergeInstances u now others result))"

section \<open>What the map contains\<close>

lemma opt_fold_map: "opt_fold (\<lambda>x. f (g x)) xs s = opt_fold f (map g xs) s"
  by (induction xs arbitrary: s) (simp_all split: option.split)

lemma opt_fold_covers:
  assumes step: "\<And>x s. \<exists>s'. f x s = Some s' \<and> Q x s' \<and> R s s'"
    and refl: "\<And>s. R s s" and trans: "\<And>s t v. R s t \<Longrightarrow> R t v \<Longrightarrow> R s v"
    and mono: "\<And>x s s'. Q x s \<Longrightarrow> R s s' \<Longrightarrow> Q x s'"
  shows "\<exists>s'. opt_fold f xs s = Some s' \<and> R s s' \<and> (\<forall>x \<in> set xs. Q x s')"
proof (induction xs arbitrary: s)
  case (Cons x xs)
  obtain s1 where 1: "f x s = Some s1" "Q x s1" "R s s1"
    using step by blast
  obtain s2 where 2: "opt_fold f xs s1 = Some s2" "R s1 s2" "\<forall>x \<in> set xs. Q x s2"
    using Cons.IH by blast
  with 1 trans mono have "R s s2" and "Q x s2"
    by blast+
  with 1 2 show ?case
    by simp
qed (simp add: refl)

definition filePath :: "unicode_norm \<Rightarrow> string \<Rightarrow> string \<Rightarrow> string" where
  "filePath u base f = normalizePath u (path_join [base, f])"

lemma addFiles_result:
  assumes "nfc_laws u" and "is_rooted base"
  shows "\<exists>m'. addFiles u base files m = Some m' \<and>
    set (tfm_paths m') = filePath u base ` set files \<union> set (tfm_paths m) \<and> (tfm_wf m \<longrightarrow> tfm_wf m')"
proof -
  have rooted: "is_rooted (path_join [base, f])" for f
    using path_join_rooted [OF assms(2)] is_rooted_path_clean by simp
  then have "list_all is_rooted (map (\<lambda>f. filePath u base f) files)"
    using canonical_normalizePath [OF assms(1)] canonical_comps(3) by (auto simp: list_all_iff filePath_def)
  moreover have "normalizePath u (filePath u base f) = filePath u base f" for f
    using rooted assms(1) normalizePath_idem by (simp add: filePath_def)
  ultimately show ?thesis
    using files.add_all [of u "map (filePath u base) files" m] assms(1)
    by (simp add: addFiles_def opt_fold_map image_image flip: filePath_def)
qed

text \<open>The files of a torrent, and what the map must have of it.\<close>

definition filesOf :: "(string, string list) gomap \<Rightarrow> scan_torrent \<Rightarrow> string list" where
  "filesOf filesByHash t = (case gm_get filesByHash (canonicalizeHash (sct_Hash t)) of None \<Rightarrow> [] | Some fs \<Rightarrow> fs)"

definition torrentCovered :: "unicode_norm \<Rightarrow> (string, string list) gomap \<Rightarrow> scan_torrent \<Rightarrow> build_state \<Rightarrow> bool" where
  "torrentCovered u fbh t st \<longleftrightarrow>
     (let save = path_clean (sct_SavePath t); files = filesOf fbh t;
          actual = actualSavePath save (sct_ContentPath t) files in
      if files = [] then isTransientTorrentState (sct_State t) \<and> is_rooted save \<longrightarrow> save \<in> set (bs_skipped st)
      else is_rooted save \<longrightarrow>
        save \<in> set (bs_roots st) \<and> (\<forall>f \<in> set files. tfm_has (bs_map st) (filePath u save f)) \<and>
        (actual \<noteq> [] \<longrightarrow> actual \<in> set (bs_roots st) \<and> (\<forall>f \<in> set files. tfm_has (bs_map st) (filePath u actual f))))"

definition build_grows :: "build_state \<Rightarrow> build_state \<Rightarrow> bool" where
  "build_grows st st' \<longleftrightarrow> set (tfm_paths (bs_map st)) \<subseteq> set (tfm_paths (bs_map st')) \<and>
     set (bs_roots st) \<subseteq> set (bs_roots st') \<and> set (bs_skipped st) \<subseteq> set (bs_skipped st') \<and>
     (tfm_wf (bs_map st) \<longrightarrow> tfm_wf (bs_map st')) \<and>
     (list_all is_rooted (bs_roots st @ bs_skipped st) \<longrightarrow> list_all is_rooted (bs_roots st' @ bs_skipped st'))"

lemma build_grows_refl: "build_grows st st"
  by (simp add: build_grows_def)

lemma build_grows_trans: "build_grows s t \<Longrightarrow> build_grows t v \<Longrightarrow> build_grows s v"
  unfolding build_grows_def by blast

lemma torrentCovered_mono: "torrentCovered u fbh t st \<Longrightarrow> build_grows st st' \<Longrightarrow> torrentCovered u fbh t st'"
  by (auto simp: torrentCovered_def build_grows_def Let_def tfm_has_def split: if_splits)

lemma actualSavePath_rooted: "actualSavePath s c fs \<noteq> [] \<Longrightarrow> is_rooted (actualSavePath s c fs)"
  by (auto simp: actualSavePath_def Let_def is_rooted_path_clean split: if_splits)

lemma addTorrent_step:
  assumes "nfc_laws u"
  shows "\<exists>st'. addTorrent u fbh t st = Some st' \<and> torrentCovered u fbh t st' \<and> build_grows st st'"
proof -
  let ?save = "path_clean (sct_SavePath t)" and ?files = "filesOf fbh t"
  let ?actual = "actualSavePath ?save (sct_ContentPath t) ?files"
  have fold_files: "(case gm_get fbh (canonicalizeHash (sct_Hash t)) of None \<Rightarrow> [] | Some fs \<Rightarrow> fs) = ?files"
    by (simp add: filesOf_def)
  show ?thesis
  proof (cases "?files = [] \<or> \<not> is_rooted ?save")
    case True
    then show ?thesis
      by (auto simp: addTorrent_def fold_files Let_def torrentCovered_def build_grows_def list_all_iff)
  next
    case False
    then have save: "is_rooted ?save" and ne: "?files \<noteq> []" "?save \<noteq> []"
      by auto
    obtain m1 where m1: "addFiles u ?save ?files (bs_map st) = Some m1"
        "set (tfm_paths m1) = filePath u ?save ` set ?files \<union> set (tfm_paths (bs_map st))"
        "tfm_wf (bs_map st) \<longrightarrow> tfm_wf m1"
      using addFiles_result [OF assms save] by metis
    show ?thesis
    proof (cases "?actual \<noteq> [] \<and> ?actual \<noteq> ?save")
      case True
      then have act: "is_rooted ?actual"
        using actualSavePath_rooted by blast
      obtain m2 where m2: "addFiles u ?actual ?files m1 = Some m2"
          "set (tfm_paths m2) = filePath u ?actual ` set ?files \<union> set (tfm_paths m1)" "tfm_wf m1 \<longrightarrow> tfm_wf m2"
        using addFiles_result [OF assms act] by metis
      with True m1 save act ne show ?thesis
        by (auto simp: addTorrent_def fold_files Let_def torrentCovered_def build_grows_def list_all_iff tfm_has_def)
    next
      case False
      with m1 save ne show ?thesis
        by (auto simp: addTorrent_def fold_files Let_def torrentCovered_def build_grows_def list_all_iff tfm_has_def)
    qed
  qed
qed

text \<open>Torrents that should have files but do not.\<close>

definition missingFiles :: "(string, string list) gomap \<Rightarrow> scan_torrent \<Rightarrow> bool" where
  "missingFiles fbh t \<longleftrightarrow> filesOf fbh t = [] \<and> \<not> isTransientTorrentState (sct_State t)"

lemma addTorrent_missing:
  "addTorrent u fbh t st = Some st' \<Longrightarrow> bs_missing st' = bs_missing st + (if missingFiles fbh t then 1 else 0)"
  by (auto simp: addTorrent_def missingFiles_def filesOf_def Let_def split: if_splits option.splits)

lemma addTorrents_missing:
  "opt_fold (addTorrent u fbh) ts st = Some st' \<Longrightarrow> bs_missing st' = bs_missing st + length (filter (missingFiles fbh) ts)"
proof (induction ts arbitrary: st)
  case (Cons t ts)
  then show ?case
    using addTorrent_missing by (fastforce split: option.splits)
qed simp

section \<open>What a result guarantees\<close>

definition coversTorrent :: "unicode_norm \<Rightarrow> (string, string list) gomap \<Rightarrow> file_map_result \<Rightarrow> scan_torrent \<Rightarrow> bool" where
  "coversTorrent u fbh r t \<longleftrightarrow>
     (let save = path_clean (sct_SavePath t); files = filesOf fbh t;
          actual = actualSavePath save (sct_ContentPath t) files in
      if files = [] then isTransientTorrentState (sct_State t) \<and> (is_rooted save \<longrightarrow> save \<in> set (fmr_skippedRoots r))
      else is_rooted save \<longrightarrow> (\<forall>f \<in> set files. tfm_has (fmr_fileMap r) (filePath u save f) \<and>
        (actual \<noteq> [] \<longrightarrow> tfm_has (fmr_fileMap r) (filePath u actual f))))"

definition resultOk :: "unicode_norm \<Rightarrow> file_map_result \<Rightarrow> bool" where
  "resultOk u r \<longleftrightarrow> tfm_wf (fmr_fileMap r) \<and>
     list_all is_rooted (fmr_scanRoots r) \<and>
     (\<forall>root \<in> set (fmr_scanRoots r). \<forall>s \<in> set (fmr_skippedRoots r). \<not> isSameOrDescendantPath u root s)"

lemma normalizePath_clean [simp]: "is_rooted p \<Longrightarrow> normalizePath u (path_clean p) = normalizePath u p"
  by (simp add: normalizePath_def path_clean_idem)

lemma filterCovered_roots:
  assumes "list_all is_rooted roots"
  shows "list_all is_rooted (filterCoveredRoots u roots skipped)"
    and "normalizePath u ` set (filterCoveredRoots u roots skipped) \<subseteq> normalizePath u ` set roots"
    and "root \<in> set (filterCoveredRoots u roots skipped) \<Longrightarrow> s \<in> set skipped \<Longrightarrow> \<not> isSameOrDescendantPath u root s"
proof -
  show "list_all is_rooted (filterCoveredRoots u roots skipped)"
    using assms by (auto simp: filterCoveredRoots_def list_all_iff is_rooted_path_clean)
  show "normalizePath u ` set (filterCoveredRoots u roots skipped) \<subseteq> normalizePath u ` set roots"
    using assms by (force simp: filterCoveredRoots_def list_all_iff)
  show "root \<in> set (filterCoveredRoots u roots skipped) \<Longrightarrow> s \<in> set skipped \<Longrightarrow> \<not> isSameOrDescendantPath u root s"
    using assms by (auto simp: filterCoveredRoots_def list_all_iff list_ex_iff isSameOrDescendantPath_def)
qed

lemma buildFileMapFromTorrents_result:
  assumes u: "nfc_laws u"
  shows "\<exists>x. buildFileMapFromTorrents u ts fbh = Some x \<and>
    (case x of
       Inl e \<Rightarrow> e = PartialData (length (filter (missingFiles fbh) ts))
     | Inr r \<Rightarrow> resultOk u r \<and> (\<forall>t \<in> set ts. coversTorrent u fbh r t))"
proof -
  let ?s0 = "\<lparr>bs_map = newTorrentFileMap, bs_roots = [], bs_skipped = [], bs_missing = 0\<rparr>"
  have "\<exists>st. opt_fold (addTorrent u fbh) ts ?s0 = Some st \<and> build_grows ?s0 st \<and> (\<forall>t \<in> set ts. torrentCovered u fbh t st)"
    by (rule opt_fold_covers [OF addTorrent_step [OF u] build_grows_refl build_grows_trans torrentCovered_mono])
  then obtain st where st: "opt_fold (addTorrent u fbh) ts ?s0 = Some st" and grows: "build_grows ?s0 st"
      and cov: "\<forall>t \<in> set ts. torrentCovered u fbh t st"
    by blast
  have miss: "bs_missing st = length (filter (missingFiles fbh) ts)"
    using addTorrents_missing [OF st] by simp
  have wf: "tfm_wf (bs_map st)" and rooted: "list_all is_rooted (sortedRoots (bs_roots st))"
    using grows by (simp_all add: build_grows_def tfm_wf_new sortedRoots_def list_all_iff)
  let ?r = "\<lparr>fmr_fileMap = bs_map st, fmr_scanRoots = filterCoveredRoots u (sortedRoots (bs_roots st)) (sortedRoots (bs_skipped st)),
    fmr_skippedRoots = sortedRoots (bs_skipped st), fmr_torrentCount = length ts\<rparr>"
  have "resultOk u ?r"
    using wf filterCovered_roots [OF rooted] by (simp add: resultOk_def)
  moreover have "coversTorrent u fbh ?r t" if "t \<in> set ts" "bs_missing st = 0" for t
  proof -
    have "\<not> missingFiles fbh t"
      using that miss by (auto simp: filter_empty_conv)
    then show ?thesis
      using cov that(1) by (auto simp: torrentCovered_def coversTorrent_def missingFiles_def Let_def sortedRoots_def split: if_splits)
  qed
  ultimately show ?thesis
    using st miss by (simp add: buildFileMapFromTorrents_def Let_def)
qed

lemma coversTorrent_merge:
  assumes "coversTorrent u fbh r t \<or> coversTorrent u fbh other t"
  shows "coversTorrent u fbh (mergeInstance u r other) t"
proof -
  have skipped: "set (fmr_skippedRoots (mergeInstance u r other)) = path_clean ` (set (fmr_skippedRoots r) \<union> set (fmr_skippedRoots other))"
    using set_fold_gs_add [of "map path_clean (fmr_skippedRoots r @ fmr_skippedRoots other)" "[]"]
    by (simp add: mergeInstance_def mergeRootLists_def sortedRoots_def Let_def fold_map comp_def image_Un)
  have paths: "set (tfm_paths (fmr_fileMap (mergeInstance u r other))) =
      set (tfm_paths (fmr_fileMap r)) \<union> set (tfm_paths (fmr_fileMap other))"
    using tfm_union_result(1) by (simp add: mergeInstance_def Let_def tfm_union_def)
  have save: "path_clean (path_clean (sct_SavePath t)) = path_clean (sct_SavePath t)" if "is_rooted (path_clean (sct_SavePath t))"
    using that is_rooted_path_clean path_clean_idem by blast
  show ?thesis
    using assms save by (auto simp: coversTorrent_def Let_def tfm_has_def skipped paths split: if_splits) (metis UnI1 UnI2 image_eqI)+
qed

lemma resultOk_merge:
  assumes "resultOk u r" and "tfm_wf (fmr_fileMap other)"
  shows "resultOk u (mergeInstance u r other)"
    and "normalizePath u ` set (fmr_scanRoots (mergeInstance u r other)) \<subseteq> normalizePath u ` set (fmr_scanRoots r)"
proof -
  have "tfm_wf (fmr_fileMap (mergeInstance u r other))"
    using assms tfm_union_result(2) by (simp add: mergeInstance_def Let_def tfm_union_def resultOk_def)
  moreover have rooted: "list_all is_rooted (fmr_scanRoots r)"
    using assms(1) by (simp add: resultOk_def)
  ultimately show "resultOk u (mergeInstance u r other)"
    using filterCovered_roots(1,3) [OF rooted] by (simp add: resultOk_def mergeInstance_def Let_def)
  show "normalizePath u ` set (fmr_scanRoots (mergeInstance u r other)) \<subseteq> normalizePath u ` set (fmr_scanRoots r)"
    using filterCovered_roots(2) [OF rooted] by (simp add: mergeInstance_def Let_def)
qed

lemma scanRootsOverlap_mono:
  assumes "normalizePath u ` set as \<subseteq> normalizePath u ` set as'" and "\<not> scanRootsOverlap u as' bs"
  shows "\<not> scanRootsOverlap u as bs"
proof
  assume "scanRootsOverlap u as bs"
  then obtain a b where a: "a \<in> set as" and b: "b \<in> set bs" and n: "normalizePath u a \<noteq> []" "normalizePath u b \<noteq> []"
      "normalizePath u a = normalizePath u b \<or> isPathUnderNormalized (normalizePath u a) (normalizePath u b) \<or>
       isPathUnderNormalized (normalizePath u b) (normalizePath u a)"
    by (auto simp: scanRootsOverlap_def Let_def list_ex_iff)
  from a assms(1) obtain a' where "a' \<in> set as'" and "normalizePath u a' = normalizePath u a"
    by (metis imageE image_eqI subsetD)
  with b n have "scanRootsOverlap u as' bs"
    unfolding scanRootsOverlap_def Let_def list_ex_iff by metis
  with assms(2) show False
    by simp
qed

section \<open>All instances\<close>

definition instanceCovered :: "unicode_norm \<Rightarrow> instance_io \<Rightarrow> file_map_result \<Rightarrow> bool" where
  "instanceCovered u io r \<longleftrightarrow>
     (\<exists>ts fbh. iio_torrents io = Some ts \<and> iio_files io = Some fbh \<and> (\<forall>t \<in> set ts. coversTorrent u fbh r t))"

lemma buildInstanceFileMap_result:
  assumes u: "nfc_laws u"
  shows "\<exists>x. buildInstanceFileMap u now io = Some x \<and>
    (\<forall>r. x = Inr r \<longrightarrow> resultOk u r \<and> instanceCovered u io r)"
proof (cases "readyTorrents now io")
  case (Inr ts)
  then have ts: "iio_torrents io = Some ts"
    by (auto simp: readyTorrents_def split: option.splits)
  show ?thesis
  proof (cases "iio_files io")
    case (Some fbh)
    with Inr ts buildFileMapFromTorrents_result [OF u, of ts fbh] show ?thesis
      by (auto simp: buildInstanceFileMap_def instanceCovered_def)
  qed (simp add: buildInstanceFileMap_def Inr)
qed (simp add: buildInstanceFileMap_def)

text \<open>Another instance is safe: its torrents are in the map, or its confirmed roots are elsewhere.\<close>

definition otherSafe :: "unicode_norm \<Rightarrow> int \<Rightarrow> file_map_result \<Rightarrow> other_instance \<Rightarrow> bool" where
  "otherSafe u now r inst \<longleftrightarrow> instanceCovered u (oin_files_io inst) r \<or>
     (\<exists>roots. buildInstanceScanRoots now (oin_confirm_io inst) = Inr roots \<and> \<not> scanRootsOverlap u (fmr_scanRoots r) roots)"

definition resultGrows :: "unicode_norm \<Rightarrow> file_map_result \<Rightarrow> file_map_result \<Rightarrow> bool" where
  "resultGrows u r r' \<longleftrightarrow> (\<forall>fbh t. coversTorrent u fbh r t \<longrightarrow> coversTorrent u fbh r' t) \<and>
     normalizePath u ` set (fmr_scanRoots r') \<subseteq> normalizePath u ` set (fmr_scanRoots r)"

lemma resultGrows_refl [simp]: "resultGrows u r r"
  by (simp add: resultGrows_def)

lemma resultGrows_trans: "resultGrows u r s \<Longrightarrow> resultGrows u s v \<Longrightarrow> resultGrows u r v"
  unfolding resultGrows_def by blast

lemma coversTorrent_grows: "resultGrows u r r' \<Longrightarrow> coversTorrent u fbh r t \<Longrightarrow> coversTorrent u fbh r' t"
  by (simp add: resultGrows_def)

lemma instanceCovered_grows: "instanceCovered u io r \<Longrightarrow> resultGrows u r r' \<Longrightarrow> instanceCovered u io r'"
  unfolding instanceCovered_def using coversTorrent_grows by metis

lemma resultGrows_roots:
  "resultGrows u r r' \<Longrightarrow> normalizePath u ` set (fmr_scanRoots r') \<subseteq> normalizePath u ` set (fmr_scanRoots r)"
  by (simp add: resultGrows_def)

lemma otherSafe_grows: "otherSafe u now r inst \<Longrightarrow> resultGrows u r r' \<Longrightarrow> otherSafe u now r' inst"
  unfolding otherSafe_def using instanceCovered_grows scanRootsOverlap_mono resultGrows_roots by metis

lemma mergeInstances_result:
  assumes u: "nfc_laws u"
  shows "resultOk u r0 \<Longrightarrow> \<exists>x. mergeInstances u now insts r0 = Some x \<and>
    (\<forall>r. x = Inr r \<longrightarrow> resultOk u r \<and> resultGrows u r0 r \<and> (\<forall>inst \<in> set insts. otherSafe u now r inst))"
proof (induction insts arbitrary: r0)
  case (Cons inst insts)
  show ?case
  proof (cases "needsMerge u now (fmr_scanRoots r0) inst")
    case (Inl e)
    then show ?thesis
      by simp
  next
    case (Inr merge)
    show ?thesis
    proof (cases merge)
      case False
      then have "otherSafe u now r0 inst"
        using Inr by (auto simp: needsMerge_def otherSafe_def split: sum.splits if_splits)
      then have safe: "otherSafe u now r inst" if "resultGrows u r0 r" for r
        using that otherSafe_grows by blast
      obtain y where y: "mergeInstances u now insts r0 = Some y"
          and yr: "\<And>r. y = Inr r \<Longrightarrow> resultOk u r \<and> resultGrows u r0 r \<and> (\<forall>inst \<in> set insts. otherSafe u now r inst)"
        using Cons.IH [OF Cons.prems] by blast
      have "mergeInstances u now (inst # insts) r0 = Some y"
        using Inr False y by simp
      moreover have "resultOk u r \<and> resultGrows u r0 r \<and> (\<forall>inst \<in> set (inst # insts). otherSafe u now r inst)"
        if "y = Inr r" for r
        using yr [OF that] safe by simp
      ultimately show ?thesis
        by blast
    next
      case True
      obtain x where x: "buildInstanceFileMap u now (oin_files_io inst) = Some x"
          and ok: "\<forall>r. x = Inr r \<longrightarrow> resultOk u r \<and> instanceCovered u (oin_files_io inst) r"
        using buildInstanceFileMap_result [OF u] by blast
      show ?thesis
      proof (cases x)
        case (Inl e)
        with True x \<open>needsMerge u now (fmr_scanRoots r0) inst = Inr merge\<close> show ?thesis
          by simp
      next
        case other: (Inr other)
        let ?m = "mergeInstance u r0 other"
        have wf: "tfm_wf (fmr_fileMap other)" and cov: "instanceCovered u (oin_files_io inst) other"
          using ok other by (auto simp: resultOk_def)
        have m: "resultOk u ?m" and grows: "resultGrows u r0 ?m"
          using resultOk_merge [OF Cons.prems wf] coversTorrent_merge by (auto simp: resultGrows_def)
        have "otherSafe u now ?m inst"
          using cov coversTorrent_merge by (fastforce simp: otherSafe_def instanceCovered_def)
        then have safe: "otherSafe u now r inst" if "resultGrows u ?m r" for r
          using that otherSafe_grows by blast
        obtain y where y: "mergeInstances u now insts ?m = Some y"
            and yr: "\<And>r. y = Inr r \<Longrightarrow> resultOk u r \<and> resultGrows u ?m r \<and> (\<forall>inst \<in> set insts. otherSafe u now r inst)"
          using Cons.IH [OF m] by blast
        have "mergeInstances u now (inst # insts) r0 = Some y"
          using Inr True x other y by simp
        moreover have "resultOk u r \<and> resultGrows u r0 r \<and> (\<forall>inst \<in> set (inst # insts). otherSafe u now r inst)"
          if "y = Inr r" for r
          using yr [OF that] safe grows resultGrows_trans [OF grows] by simp
        ultimately show ?thesis
          by blast
      qed
    qed
  qed
qed simp

lemma buildFileMap_result:
  assumes "nfc_laws u"
  shows "\<exists>x. buildFileMap u now instanceID io insts = Some x \<and>
    (\<forall>r. x = Inr r \<longrightarrow>
       resultOk u r \<and> instanceCovered u io r \<and>
       (\<exists>is. insts = Some is \<and>
          (\<forall>inst \<in> set is. oin_ID inst \<noteq> instanceID \<and> oin_active inst \<and> oin_local inst \<longrightarrow> otherSafe u now r inst)))"
proof -
  obtain x where x: "buildInstanceFileMap u now io = Some x"
      and ok: "\<forall>r. x = Inr r \<longrightarrow> resultOk u r \<and> instanceCovered u io r"
    using buildInstanceFileMap_result [OF assms] by blast
  show ?thesis
  proof (cases x)
    case (Inl e)
    with x show ?thesis
      by (simp add: buildFileMap_def)
  next
    case (Inr r0)
    show ?thesis
    proof (cases insts)
      case None
      with x Inr show ?thesis
        by (simp add: buildFileMap_def getOtherLocalInstances_def)
    next
      case (Some is')
      let ?others = "filter (\<lambda>i. oin_ID i \<noteq> instanceID \<and> oin_active i \<and> oin_local i) is'"
      obtain y where y: "mergeInstances u now ?others r0 = Some y"
          and yr: "\<forall>r. y = Inr r \<longrightarrow> resultOk u r \<and> resultGrows u r0 r \<and> (\<forall>inst \<in> set ?others. otherSafe u now r inst)"
        using mergeInstances_result [OF assms] ok Inr by blast
      have "buildFileMap u now instanceID io insts = Some y"
        using x Inr Some y by (simp add: buildFileMap_def getOtherLocalInstances_def)
      moreover have "instanceCovered u io r" if "y = Inr r" for r
        using yr ok Inr instanceCovered_grows that by blast
      ultimately show ?thesis
        using yr Some by (intro exI [of _ y]) simp
    qed
  qed
qed

text \<open>
  C39. Building the file map always returns, and a result without error leaves no file unaccounted:
  every torrent of the instance and of every other active instance on the same file system has all its
  files in the map (below its save path and below the place of its content) or, while its client still
  prepares it, its save path among the skipped roots; the only exception are instances whose confirmed
  roots do not overlap the scan roots. No scan root lies at or below a skipped root, and the map is
  well-formed.
\<close>

theorem buildFileMap_complete:
  assumes "nfc_laws u"
  shows "\<exists>x. buildFileMap u now instanceID io insts = Some x \<and>
    (\<forall>r. x = Inr r \<longrightarrow>
       resultOk u r \<and> instanceCovered u io r \<and>
       (\<exists>is. insts = Some is \<and>
          (\<forall>inst \<in> set is. oin_ID inst \<noteq> instanceID \<and> oin_active inst \<and> oin_local inst \<longrightarrow> otherSafe u now r inst)))"
  by (rule buildFileMap_result [OF assms])

text \<open>Two clients that share \<open>/data\<close>; the first one is still checking a torrent.\<close>

definition demo_client :: scan_client where
  "demo_client = \<lparr>scl_healthy = True, scl_lastSync = Some 0\<rparr>"

definition demo_io :: instance_io where
  "demo_io = \<lparr>iio_client = Some demo_client,
     iio_torrents = Some
       [\<lparr>sct_Hash = '' AB'', sct_State = ''uploading'', sct_SavePath = ''/data/tv/'', sct_ContentPath = ''/data/tv/show''\<rparr>,
        \<lparr>sct_Hash = ''cd'', sct_State = ''checkingDL'', sct_SavePath = ''/data/new'', sct_ContentPath = []\<rparr>],
     iio_files = Some [(''ab'', [''show/e1.mkv'', ''show/e2.mkv''])]\<rparr>"

definition demo_other :: other_instance where
  "demo_other =
     (let io = \<lparr>iio_client = Some demo_client,
        iio_torrents = Some
          [\<lparr>sct_Hash = ''ef'', sct_State = ''stalledUP'', sct_SavePath = ''/data'', sct_ContentPath = ''/data/x.iso''\<rparr>],
        iio_files = Some [(''ef'', [''x.iso''])]\<rparr> in
      \<lparr>oin_ID = 2, oin_active = True, oin_local = True, oin_roots_io = io, oin_confirm_io = io, oin_files_io = io,
       oin_lastPaths = None\<rparr>)"

theorem buildFileMap_complete_witness:
  "\<exists>r. buildFileMap ascii_norm 5 1 demo_io (Some [demo_other]) = Some (Inr r) \<and>
     resultOk ascii_norm r \<and> instanceCovered ascii_norm demo_io r \<and> otherSafe ascii_norm 5 r demo_other"
proof -
  have "case buildFileMap ascii_norm 5 1 demo_io (Some [demo_other]) of Some (Inr r) \<Rightarrow> True | _ \<Rightarrow> False"
    by code_simp
  then obtain r where r: "buildFileMap ascii_norm 5 1 demo_io (Some [demo_other]) = Some (Inr r)"
    by (auto split: option.splits sum.splits)
  moreover have "oin_ID demo_other \<noteq> 1 \<and> oin_active demo_other \<and> oin_local demo_other"
    by (simp add: demo_other_def Let_def)
  ultimately show ?thesis
    using buildFileMap_complete [OF nfc_laws_ascii, of 5 1 demo_io "Some [demo_other]"] by auto
qed

end
