(* ===== verification/Go_Files.thy ===== *)
theory Go_Files
  imports Go_Path
begin

text \<open>
  The file system as the sources use it through Go's \<open>os\<close> and \<open>io/fs\<close>: a tree of files, symbolic
  links and directories, with \<open>Lstat\<close>, \<open>Remove\<close>, \<open>RemoveAll\<close>, \<open>ReadDir\<close> and \<open>filepath.WalkDir\<close>
  as functions on it. A record \<open>fs_env\<close> stands for what the tree does not determine: which place
  the kernel reaches for a path (links among its directories are followed), and which calls fail.
\<close>

section \<open>The tree\<close>

text \<open>What \<open>FileInfo\<close> tells of a file: size, modification time, device and inode, number of links.\<close>

record file_meta =
  m_size :: int
  m_time :: int
  m_inode :: "nat \<times> nat"
  m_nlink :: nat

datatype fs_node = FFile file_meta | FLink file_meta | FDir "(string \<times> fs_node) list"

datatype os_error = NotExist | Permission | ReadOnlyFS | NotEmpty | OtherError

fun is_dir :: "fs_node \<Rightarrow> bool" where
  "is_dir (FDir _) = True"
| "is_dir _ = False"

fun is_link :: "fs_node \<Rightarrow> bool" where
  "is_link (FLink _) = True"
| "is_link _ = False"

fun fs_at :: "fs_node \<Rightarrow> string list \<Rightarrow> fs_node option" where
  "fs_at n [] = Some n"
| "fs_at (FDir es) (c # cs) = (case map_of es c of None \<Rightarrow> None | Some n \<Rightarrow> fs_at n cs)"
| "fs_at _ (c # cs) = None"

text \<open>Entries of a directory have different, plain names.\<close>

fun fs_wf :: "fs_node \<Rightarrow> bool" where
  "fs_wf (FDir es) \<longleftrightarrow> distinct (map fst es) \<and> list_all (\<lambda>(c, n). plain_comp c \<and> fs_wf n) es"
| "fs_wf _ \<longleftrightarrow> True"

text \<open>Removal of every entry that is doomed, of a directory only when nothing is left in it.\<close>

fun prune :: "(string list \<Rightarrow> bool) \<Rightarrow> string list \<Rightarrow> fs_node \<Rightarrow> fs_node option"
  and prune_entries :: "(string list \<Rightarrow> bool) \<Rightarrow> string list \<Rightarrow> (string \<times> fs_node) list \<Rightarrow> (string \<times> fs_node) list" where
  "prune doomed here (FDir es) =
     (let es' = prune_entries doomed here es in if es' = [] \<and> doomed here then None else Some (FDir es'))"
| "prune doomed here (FFile m) = (if doomed here then None else Some (FFile m))"
| "prune doomed here (FLink m) = (if doomed here then None else Some (FLink m))"
| "prune_entries doomed here [] = []"
| "prune_entries doomed here ((c, n) # es) =
     (case prune doomed (here @ [c]) n of
        None \<Rightarrow> prune_entries doomed here es
      | Some n' \<Rightarrow> (c, n') # prune_entries doomed here es)"

definition fs_prune :: "(string list \<Rightarrow> bool) \<Rightarrow> fs_node \<Rightarrow> fs_node" where
  "fs_prune doomed fs = (case prune doomed [] fs of None \<Rightarrow> FDir [] | Some fs' \<Rightarrow> fs')"

section \<open>Calls of the operating system\<close>

text \<open>
  The error for a path that leads nowhere: \<open>ENOTDIR\<close>, which Go does not count as missing, if
  something on the way is not a directory.
\<close>

definition missing_error :: "fs_node \<Rightarrow> string list \<Rightarrow> os_error" where
  "missing_error fs cs =
     (if list_ex (\<lambda>n. case fs_at fs (take n cs) of None \<Rightarrow> False | Some m \<Rightarrow> \<not> is_dir m) [0..<length cs]
      then OtherError else NotExist)"

record fs_env =
  os_phys :: "string \<Rightarrow> string list"
  os_lstat_err :: "string \<Rightarrow> os_error option"
  os_info_err :: "string \<Rightarrow> bool"
  os_read_err :: "string \<Rightarrow> (nat \<times> os_error) option"
  os_stuck :: "string list \<Rightarrow> os_error option"
  os_rest_err :: "string \<Rightarrow> os_error"

definition os_lstat :: "fs_env \<Rightarrow> fs_node \<Rightarrow> string \<Rightarrow> os_error + fs_node" where
  "os_lstat env fs p =
     (case os_lstat_err env p of
        Some e \<Rightarrow> Inl e
      | None \<Rightarrow> (case fs_at fs (os_phys env p) of None \<Rightarrow> Inl (missing_error fs (os_phys env p)) | Some n \<Rightarrow> Inr n))"

text \<open>\<open>os.Remove\<close>: a file, a link or an empty directory.\<close>

definition os_remove :: "fs_env \<Rightarrow> fs_node \<Rightarrow> string \<Rightarrow> fs_node \<times> os_error option" where
  "os_remove env fs p =
     (let here = os_phys env p in
      case fs_at fs here of
        None \<Rightarrow> (fs, Some (missing_error fs here))
      | Some n \<Rightarrow>
          (case os_stuck env here of
             Some e \<Rightarrow> (fs, Some e)
           | None \<Rightarrow>
               if is_dir n \<and> n \<noteq> FDir [] then (fs, Some NotEmpty)
               else (fs_prune (\<lambda>q. q = here) fs, None)))"

text \<open>\<open>os.RemoveAll\<close> removes what it can; a path that does not exist is no error.\<close>

definition os_remove_all :: "fs_env \<Rightarrow> fs_node \<Rightarrow> string \<Rightarrow> fs_node \<times> os_error option" where
  "os_remove_all env fs p =
     (let here = os_phys env p in
      case fs_at fs here of
        None \<Rightarrow> (fs, if missing_error fs here = NotExist then None else Some (missing_error fs here))
      | Some n \<Rightarrow>
          (let fs' = fs_prune (\<lambda>q. prefix here q \<and> os_stuck env q = None) fs in
           (fs', if fs_at fs' here = None then None else Some (os_rest_err env p))))"

definition os_read_dir :: "fs_env \<Rightarrow> fs_node \<Rightarrow> string \<Rightarrow> os_error + (string \<times> fs_node) list" where
  "os_read_dir env fs p =
     (case os_read_err env p of
        Some (k, e) \<Rightarrow> Inl e
      | None \<Rightarrow>
          (case fs_at fs (os_phys env p) of
             None \<Rightarrow> Inl (missing_error fs (os_phys env p))
           | Some (FDir es) \<Rightarrow> Inr es
           | Some _ \<Rightarrow> Inl OtherError))"

section \<open>Walking a tree\<close>

text \<open>
  \<open>filepath.WalkDir\<close>. The callback gets the path, the entry (none if the root cannot be read) and
  an error, and answers with what a Go callback can return: nil, \<open>SkipDir\<close>, \<open>SkipAll\<close> or an error.
\<close>

datatype 'e walk_result = WalkOk | SkipDir | SkipAll | WalkErr 'e

type_synonym ('e, 's) walk_fn =
  "string \<Rightarrow> (string \<times> fs_node) option \<Rightarrow> os_error option \<Rightarrow> 's \<Rightarrow> 'e walk_result \<times> 's"

definition skipped :: "'e walk_result \<Rightarrow> 'e walk_result" where
  "skipped r = (case r of SkipDir \<Rightarrow> WalkOk | _ \<Rightarrow> r)"

fun walk_node :: "fs_env \<Rightarrow> ('e, 's) walk_fn \<Rightarrow> string \<Rightarrow> string \<Rightarrow> fs_node \<Rightarrow> 's \<Rightarrow> 'e walk_result \<times> 's"
  and walk_entries :: "fs_env \<Rightarrow> ('e, 's) walk_fn \<Rightarrow> string \<Rightarrow> nat \<Rightarrow> (string \<times> fs_node) list \<Rightarrow> 's \<Rightarrow> 'e walk_result \<times> 's" where
  "walk_node env f path name (FFile m) st = f path (Some (name, FFile m)) None st"
| "walk_node env f path name (FLink m) st = f path (Some (name, FLink m)) None st"
| "walk_node env f path name (FDir es) st =
     (case f path (Some (name, FDir es)) None st of (r, st1) \<Rightarrow>
      if r \<noteq> WalkOk then (skipped r, st1)
      else
        (case os_read_err env path of
           None \<Rightarrow> walk_entries env f path (length es) es st1
         | Some (k, e) \<Rightarrow>
             (case f path (Some (name, FDir es)) (Some e) st1 of (r2, st2) \<Rightarrow>
              if r2 \<noteq> WalkOk then (skipped r2, st2) else walk_entries env f path k es st2)))"
| "walk_entries env f path k [] st = (WalkOk, st)"
| "walk_entries env f path k ((c, n) # es) st =
     (if k = 0 then (WalkOk, st)
      else (case walk_node env f (path_join [path, c]) c n st of (r, st1) \<Rightarrow>
        (case r of
           WalkOk \<Rightarrow> walk_entries env f path (k - 1) es st1
         | SkipDir \<Rightarrow> (WalkOk, st1)
         | _ \<Rightarrow> (r, st1))))"

definition walk_dir :: "fs_env \<Rightarrow> fs_node \<Rightarrow> ('e, 's) walk_fn \<Rightarrow> string \<Rightarrow> 's \<Rightarrow> 'e walk_result \<times> 's" where
  "walk_dir env fs f root st =
     (case (case os_lstat env fs root of
              Inl e \<Rightarrow> f root None (Some e) st
            | Inr n \<Rightarrow> walk_node env f root (path_base root) n st) of
        (SkipDir, st') \<Rightarrow> (WalkOk, st')
      | (SkipAll, st') \<Rightarrow> (WalkOk, st')
      | res \<Rightarrow> res)"

section \<open>What removals leave\<close>

lemma map_of_prune_entries:
  "distinct (map fst es) \<Longrightarrow>
    map_of (prune_entries d here es) c = Option.bind (map_of es c) (prune d (here @ [c]))"
proof (induction es)
  case (Cons e es)
  obtain x n where e: "e = (x, n)"
    by fastforce
  with Cons.prems have "map_of es x = None"
    by (simp add: map_of_eq_None_iff)
  with Cons e show ?case
    by (auto split: option.splits)
qed simp

definition same_kind :: "fs_node \<Rightarrow> fs_node \<Rightarrow> bool" where
  "same_kind m n \<longleftrightarrow> (if is_dir n then is_dir m else m = n)"

lemma same_kind_refl [simp]: "same_kind n n"
  by (simp add: same_kind_def)

lemma same_kind_trans: "same_kind l m \<Longrightarrow> same_kind m n \<Longrightarrow> same_kind l n"
  by (auto simp: same_kind_def split: if_splits)

lemma prune_Some_dir: "prune d here (FDir es) = Some m \<Longrightarrow> m = FDir (prune_entries d here es)"
  by (auto simp: Let_def split: if_splits)

lemma prune_kind: "prune d here n = Some m \<Longrightarrow> same_kind m n"
  by (cases n) (auto simp: same_kind_def Let_def split: if_splits)

text \<open>What is found after a removal was there before; what is gone was doomed.\<close>

lemma fs_at_prune:
  assumes "fs_wf n" and "prune d here n = Some n'" and "fs_at n' cs = Some m'"
  shows "\<exists>m. fs_at n cs = Some m \<and> same_kind m' m"
  using assms
proof (induction cs arbitrary: n here n')
  case Nil
  then show ?case
    using prune_kind by simp
next
  case (Cons c cs)
  show ?case
  proof (cases n)
    case (FDir es)
    then have n': "n' = FDir (prune_entries d here es)" and dist: "distinct (map fst es)"
      using Cons.prems prune_Some_dir by auto
    with Cons.prems(3) obtain k' where "map_of (prune_entries d here es) c = Some k'"
        and at: "fs_at k' cs = Some m'"
      by (auto split: option.splits)
    then obtain k where k: "map_of es c = Some k" and p: "prune d (here @ [c]) k = Some k'"
      using map_of_prune_entries [OF dist] by (auto simp: bind_eq_Some_conv)
    have "fs_wf k"
      using Cons.prems(1) FDir map_of_SomeD [OF k] by (auto simp: list_all_iff)
    from Cons.IH [OF this p at] FDir k show ?thesis
      by simp
  qed (use Cons.prems in \<open>auto simp: Let_def split: if_splits\<close>)
qed

lemma prune_None: "prune d here n = None \<Longrightarrow> d here"
  by (cases n) (auto simp: Let_def split: if_splits)

lemma prune_gone:
  assumes "fs_wf n" and "fs_at n cs = Some m"
    and "case prune d here n of None \<Rightarrow> True | Some n' \<Rightarrow> fs_at n' cs = None"
  shows "d (here @ cs)"
  using assms
proof (induction cs arbitrary: n here)
  case Nil
  then show ?case
    using prune_None by (auto split: option.splits)
next
  case (Cons c cs)
  then obtain es k where n: "n = FDir es" and k: "map_of es c = Some k" and at: "fs_at k cs = Some m"
    by (cases n) (auto split: option.splits)
  have wf: "fs_wf k" and dist: "distinct (map fst es)"
    using Cons.prems(1) n map_of_SomeD [OF k] by (auto simp: list_all_iff)
  have kept: "map_of (prune_entries d here es) c = prune d (here @ [c]) k"
    using map_of_prune_entries [OF dist] k by simp
  have "case prune d (here @ [c]) k of None \<Rightarrow> True | Some n' \<Rightarrow> fs_at n' cs = None"
  proof (cases "prune d (here @ [c]) k")
    case (Some k')
    then have "prune_entries d here es \<noteq> []"
      using kept by auto
    then have "prune d here n = Some (FDir (prune_entries d here es))"
      using n by (simp add: Let_def)
    with Cons.prems(3) kept Some show ?thesis
      by simp
  qed simp
  from Cons.IH [OF wf at this] show ?case
    by simp
qed

lemma fst_prune_entries: "fst ` set (prune_entries d here es) \<subseteq> fst ` set es"
proof (induction es)
  case (Cons e es)
  then show ?case
    by (cases e) (simp split: option.splits, blast)
qed simp

lemma distinct_prune_entries: "distinct (map fst es) \<Longrightarrow> distinct (map fst (prune_entries d here es))"
proof (induction es)
  case (Cons e es)
  then have "fst e \<notin> fst ` set es" and "distinct (map fst (prune_entries d here es))"
    by simp_all
  moreover from this have "fst e \<notin> fst ` set (prune_entries d here es)"
    using fst_prune_entries [of d here es] by blast
  ultimately show ?case
    by (cases e) (simp split: option.splits)
qed simp

lemma fs_wf_prune:
  "fs_wf n \<Longrightarrow> prune d here n = Some n' \<Longrightarrow> fs_wf n'"
  "list_all (\<lambda>(c, n). plain_comp c \<and> fs_wf n) es \<Longrightarrow>
    list_all (\<lambda>(c, n). plain_comp c \<and> fs_wf n) (prune_entries d here es)"
proof (induction d here n and d here es arbitrary: n' and rule: prune_prune_entries.induct)
  case (1 d here es)
  then show ?case
    using distinct_prune_entries by (auto simp: Let_def split: if_splits)
qed (auto simp: Let_def split: if_splits option.splits)

text \<open>\<open>fs'\<close> comes from \<open>fs\<close> by removing entries.\<close>

definition fs_shrinks :: "fs_node \<Rightarrow> fs_node \<Rightarrow> bool" where
  "fs_shrinks fs' fs \<longleftrightarrow>
     (\<forall>cs m'. fs_at fs' cs = Some m' \<longrightarrow> (\<exists>m. fs_at fs cs = Some m \<and> same_kind m' m)) \<and> (fs_wf fs \<longrightarrow> fs_wf fs')"

lemma fs_shrinks_refl [simp]: "fs_shrinks fs fs"
  by (auto simp: fs_shrinks_def)

lemma fs_shrinks_trans: "fs_shrinks fs2 fs1 \<Longrightarrow> fs_shrinks fs1 fs0 \<Longrightarrow> fs_shrinks fs2 fs0"
  unfolding fs_shrinks_def using same_kind_trans by meson

lemma fs_shrinks_at:
  "fs_shrinks fs' fs \<Longrightarrow> fs_at fs' cs = Some m' \<Longrightarrow> \<exists>m. fs_at fs cs = Some m \<and> same_kind m' m"
  by (simp add: fs_shrinks_def)

lemma fs_shrinks_wf: "fs_shrinks fs' fs \<Longrightarrow> fs_wf fs \<Longrightarrow> fs_wf fs'"
  by (simp add: fs_shrinks_def)

lemma fs_prune_shrinks:
  assumes "fs_wf fs" and "\<not> d []"
  shows "fs_shrinks (fs_prune d fs) fs"
proof -
  obtain fs' where "prune d [] fs = Some fs'"
    using prune_None [of d "[]" fs] assms(2) by (cases "prune d [] fs") auto
  with assms show ?thesis
    using fs_at_prune fs_wf_prune(1) by (auto simp: fs_shrinks_def fs_prune_def)
qed

lemma fs_prune_gone:
  assumes "fs_wf fs" and "\<not> d []" and "fs_at fs cs = Some m" and "fs_at (fs_prune d fs) cs = None"
  shows "d cs"
proof -
  obtain fs' where "prune d [] fs = Some fs'"
    using prune_None [of d "[]" fs] assms(2) by (cases "prune d [] fs") auto
  with prune_gone [of fs cs m d "[]"] assms show ?thesis
    by (simp add: fs_prune_def)
qed

text \<open>
  What a call removes: entries at one place or below it. Removals compose, so a bound on what each
  step of a loop removes bounds what the loop removes.
\<close>

definition removes :: "fs_node \<Rightarrow> fs_node \<Rightarrow> (string list \<Rightarrow> fs_node \<Rightarrow> bool) \<Rightarrow> bool" where
  "removes fs fs' P \<longleftrightarrow> fs_shrinks fs' fs \<and> (\<forall>cs m. fs_at fs cs = Some m \<and> fs_at fs' cs = None \<longrightarrow> P cs m)"

lemma removes_refl [simp]: "removes fs fs P"
  by (auto simp: removes_def)

lemma removesD: "removes fs fs' P \<Longrightarrow> fs_at fs cs = Some m \<Longrightarrow> fs_at fs' cs = None \<Longrightarrow> P cs m"
  by (simp add: removes_def)

lemma removes_shrinks: "removes fs fs' P \<Longrightarrow> fs_shrinks fs' fs"
  by (simp add: removes_def)

lemma removes_mono: "removes fs fs' P \<Longrightarrow> (\<And>cs m. P cs m \<Longrightarrow> Q cs m) \<Longrightarrow> removes fs fs' Q"
  by (auto simp: removes_def)

lemma removes_mono_at:
  "removes fs fs' P \<Longrightarrow> (\<And>cs m. fs_at fs cs = Some m \<Longrightarrow> P cs m \<Longrightarrow> Q cs m) \<Longrightarrow> removes fs fs' Q"
  by (simp add: removes_def)

lemma removes_trans:
  assumes "removes fs fs1 P" and "removes fs1 fs2 P" and kind: "\<And>cs m m'. same_kind m' m \<Longrightarrow> P cs m' \<Longrightarrow> P cs m"
  shows "removes fs fs2 P"
  unfolding removes_def
proof (intro conjI allI impI)
  show "fs_shrinks fs2 fs"
    using assms fs_shrinks_trans removes_shrinks by blast
  fix cs m
  assume gone: "fs_at fs cs = Some m \<and> fs_at fs2 cs = None"
  show "P cs m"
  proof (cases "fs_at fs1 cs")
    case None
    with gone assms(1) show ?thesis
      using removesD by blast
  next
    case (Some m1)
    then have "same_kind m1 m"
      using fs_shrinks_at [OF removes_shrinks [OF assms(1)] Some] gone by simp
    moreover have "P cs m1"
      using Some gone assms(2) removesD by blast
    ultimately show ?thesis
      using kind by blast
  qed
qed

lemma fs_prune_removes:
  assumes "fs_wf fs" and "\<not> d []"
  shows "removes fs (fs_prune d fs) (\<lambda>cs m. d cs)"
  unfolding removes_def using assms fs_prune_shrinks fs_prune_gone by blast

lemma os_remove_removes:
  assumes "fs_wf fs" and "os_phys env p \<noteq> []" and "os_remove env fs p = (fs', r)"
  shows "removes fs fs' (\<lambda>cs m. cs = os_phys env p)"
proof (cases "fs' = fs")
  case False
  then have "fs' = fs_prune (\<lambda>q. q = os_phys env p) fs"
    using assms(3) by (auto simp: os_remove_def Let_def split: option.splits if_splits)
  with assms(1,2) show ?thesis
    using fs_prune_removes [of fs "\<lambda>q. q = os_phys env p"] by simp
qed simp

lemma os_remove_all_removes:
  assumes "fs_wf fs" and "os_phys env p \<noteq> []" and "os_remove_all env fs p = (fs', r)"
  shows "removes fs fs' (\<lambda>cs m. prefix (os_phys env p) cs)"
proof (cases "fs' = fs")
  case False
  let ?d = "\<lambda>q. prefix (os_phys env p) q \<and> os_stuck env q = None"
  have "fs' = fs_prune ?d fs"
    using assms(3) False by (auto simp: os_remove_all_def Let_def split: option.splits)
  with assms(1,2) have "removes fs fs' (\<lambda>cs m. ?d cs)"
    using fs_prune_removes [of fs ?d] by simp
  then show ?thesis
    by (rule removes_mono) simp
qed simp

text \<open>What \<open>os.Remove\<close> and \<open>os.RemoveAll\<close> report as removed is gone.\<close>

lemma prune_doomed:
  assumes "fs_wf n" and "fs_at n cs = Some m" and "is_dir m \<Longrightarrow> m = FDir []" and "d (here @ cs)" and "prune d here n = Some n'"
  shows "fs_at n' cs = None"
  using assms
proof (induction cs arbitrary: n here n')
  case Nil
  then show ?case
    by (cases n) auto
next
  case (Cons c cs)
  then obtain es k where n: "n = FDir es" and k: "map_of es c = Some k" and at: "fs_at k cs = Some m"
    by (cases n) (auto split: option.splits)
  have wf: "fs_wf k" and dist: "distinct (map fst es)"
    using Cons.prems(1) n map_of_SomeD [OF k] by (auto simp: list_all_iff)
  have "n' = FDir (prune_entries d here es)" and "map_of (prune_entries d here es) c = prune d (here @ [c]) k"
    using Cons.prems(5) n prune_Some_dir map_of_prune_entries [OF dist] k by auto
  with Cons.IH [OF wf at Cons.prems(3), of "here @ [c]"] Cons.prems(4) show ?case
    by (auto split: option.split)
qed

lemma os_remove_gone:
  assumes "fs_wf fs" and "os_phys env p \<noteq> []" and "os_remove env fs p = (fs', None)"
  shows "fs_at fs (os_phys env p) \<noteq> None \<and> fs_at fs' (os_phys env p) = None"
proof -
  let ?d = "\<lambda>q. q = os_phys env p"
  obtain m where m: "fs_at fs (os_phys env p) = Some m" "is_dir m \<Longrightarrow> m = FDir []" and fs': "fs' = fs_prune ?d fs"
    using assms(3) by (auto simp: os_remove_def Let_def split: option.splits if_splits)
  have "fs_at n' (os_phys env p) = None" if "prune ?d [] fs = Some n'" for n'
    using prune_doomed [OF assms(1) m(1) m(2) _ that] by simp
  with m(1) fs' assms(2) show ?thesis
    by (cases "os_phys env p") (auto simp: fs_prune_def split: option.split)
qed

text \<open>Everything on the way to a place is a directory, as far as it exists.\<close>

definition parents_dirs :: "fs_node \<Rightarrow> string list \<Rightarrow> bool" where
  "parents_dirs fs cs \<longleftrightarrow> (\<forall>ds m. strict_prefix ds cs \<longrightarrow> fs_at fs ds = Some m \<longrightarrow> is_dir m)"

lemma fs_at_append: "fs_at fs (as @ bs) = Option.bind (fs_at fs as) (\<lambda>n. fs_at n bs)"
  by (induction fs as rule: fs_at.induct) (auto split: option.splits)

lemma parents_dirs_at: "fs_at fs cs = Some n \<Longrightarrow> parents_dirs fs cs"
proof (unfold parents_dirs_def, intro allI impI)
  fix ds m
  assume cs: "fs_at fs cs = Some n" and "strict_prefix ds cs" and ds: "fs_at fs ds = Some m"
  then obtain c rest where "cs = ds @ c # rest"
    using strict_prefixE' by blast
  with cs ds have "fs_at m (c # rest) = Some n"
    by (simp add: fs_at_append)
  then show "is_dir m"
    by (cases m) auto
qed

lemma parents_dirs_shrinks: "fs_shrinks fs' fs \<Longrightarrow> parents_dirs fs cs \<Longrightarrow> parents_dirs fs' cs"
proof (unfold parents_dirs_def, intro allI impI)
  fix ds m'
  assume shr: "fs_shrinks fs' fs" and dirs: "\<forall>ds m. strict_prefix ds cs \<longrightarrow> fs_at fs ds = Some m \<longrightarrow> is_dir m"
    and ds: "strict_prefix ds cs" and at: "fs_at fs' ds = Some m'"
  obtain m where "fs_at fs ds = Some m" and "same_kind m' m"
    using fs_shrinks_at [OF shr at] by blast
  with dirs ds show "is_dir m'"
    by (auto simp: same_kind_def split: if_splits)
qed

lemma parents_dirs_missing: "missing_error fs cs = NotExist \<Longrightarrow> parents_dirs fs cs"
proof (unfold parents_dirs_def, intro allI impI)
  fix ds m
  assume miss: "missing_error fs cs = NotExist" and ds: "strict_prefix ds cs" and at: "fs_at fs ds = Some m"
  obtain c rest where cs: "cs = ds @ c # rest"
    using ds strict_prefixE' by blast
  show "is_dir m"
  proof (rule ccontr)
    assume "\<not> is_dir m"
    with at cs have "case fs_at fs (take (length ds) cs) of None \<Rightarrow> False | Some m \<Rightarrow> \<not> is_dir m"
      by simp
    moreover have "length ds \<in> set [0..<length cs]"
      using cs by simp
    ultimately have "missing_error fs cs = OtherError"
      unfolding missing_error_def list_ex_iff by metis
    with miss show False
      by simp
  qed
qed

lemma fs_wf_at: "fs_wf fs \<Longrightarrow> fs_at fs cs = Some n \<Longrightarrow> fs_wf n \<and> plain_comps cs"
proof (induction fs cs rule: fs_at.induct)
  case (2 es c cs)
  then obtain k where k: "map_of es c = Some k" and "fs_at k cs = Some n"
    by (auto split: option.splits)
  with 2 map_of_SomeD [OF k] show ?case
    by (auto simp: list_all_iff)
qed auto

section \<open>What a walk visits\<close>

lemma path_join_clean:
  assumes "is_rooted p" and "plain_comp c"
  shows "path_join [p, c] = abs_path (path_comps (path_clean p) @ [c])"
proof -
  have r: "is_rooted (p @ ''/'' @ c)"
    using assms(1) by (rule path_join_rooted)
  have "path_comps (p @ ''/'' @ c) = path_comps p @ path_comps c"
    using path_comps_append [of p c] by simp
  also have "path_comps c = [c]"
    using path_comps_join [of "[c]"] assms(2) by simp
  finally have "path_comps (path_clean (p @ ''/'' @ c)) = clean_comps True (path_comps p @ [c])"
    using path_comps_clean_rooted(1) [OF r] clean_comps_path_comps by metis
  also have "\<dots> = clean_comps True (path_comps p) @ [c]"
    using assms(2) by (simp add: clean_comps_def clean_step_plain)
  also have "clean_comps True (path_comps p) = path_comps (path_clean p)"
    using path_comps_clean_rooted(1) [OF assms(1)] clean_comps_path_comps by metis
  finally show ?thesis
    using path_clean_abs_path(1) [OF r] path_join_rooted(1) [OF assms(1)] by metis
qed

lemma path_join_clean_comps:
  assumes "is_rooted p" and "plain_comp c"
  shows "is_rooted (path_join [p, c])" and "path_comps (path_clean (path_join [p, c])) = path_comps (path_clean p) @ [c]"
proof -
  have plain: "plain_comps (path_comps (path_clean p) @ [c])"
    using assms path_clean_abs_path(2) by simp
  show "is_rooted (path_join [p, c])"
    by (simp add: path_join_clean [OF assms])
  show "path_comps (path_clean (path_join [p, c])) = path_comps (path_clean p) @ [c]"
    unfolding path_join_clean [OF assms] path_clean_abs_path_id [OF plain] by (rule path_comps_abs_path [OF plain])
qed

lemma walk_entries_no_SkipDir: "fst (walk_entries env f path k es st) \<noteq> SkipDir"
  by (induction es arbitrary: k st) (auto split: if_splits walk_result.splits prod.splits)

lemma walk_node_SkipDir:
  "(\<And>p d e st. fst (f p d e st) \<noteq> SkipDir) \<Longrightarrow> fst (walk_node env f path name n st) \<noteq> SkipDir"
  by (cases n) (auto simp: skipped_def walk_entries_no_SkipDir split: walk_result.splits option.splits prod.splits)

lemma walk_node_SkipAll:
  assumes "\<And>p d e st. fst (f p d e st) \<noteq> SkipAll"
  shows "fst (walk_node env f path name n st) \<noteq> SkipAll"
proof (induction n arbitrary: path name st)
  case (FDir es)
  have "fst (walk_entries env f path k es' st') \<noteq> SkipAll" if "set es' \<subseteq> set es" for path k es' st'
    using that
  proof (induction es' arbitrary: k st')
    case (Cons e es')
    obtain c n where e: "e = (c, n)"
      by fastforce
    with Cons.prems FDir.IH [of e n "path_join [path, c]" c st'] Cons.IH show ?case
      by (auto split: walk_result.splits prod.splits if_splits)
  qed simp
  then show ?case
    using assms by (auto simp: skipped_def split: walk_result.splits option.splits prod.splits) (metis fst_conv)+
qed (use assms in simp_all)

text \<open>
  A callback that keeps no state and never skips: if the walk reports no error, the callback
  answered nil for every entry of the tree.
\<close>

lemma walk_covers:
  fixes g :: "string \<Rightarrow> (string \<times> fs_node) option \<Rightarrow> os_error option \<Rightarrow> 'e walk_result"
  assumes noskip: "\<And>p d e. g p d e \<noteq> SkipDir"
    and reads: "\<And>p d r. os_read_err env p = Some r \<Longrightarrow> g p (Some d) (Some (snd r)) \<noteq> WalkOk"
  shows "fst (walk_node env (\<lambda>p d e (st :: unit). (g p d e, st)) p name n st) = WalkOk \<Longrightarrow>
      fs_wf n \<Longrightarrow> is_rooted p \<Longrightarrow> fs_at n cs = Some m \<Longrightarrow>
      \<exists>q name'. is_rooted q \<and> path_comps (path_clean q) = path_comps (path_clean p) @ cs \<and> g q (Some (name', m)) None = WalkOk"
proof (induction n arbitrary: p name st cs m)
  case (FDir es)
  let ?f = "\<lambda>p d e (st :: unit). (g p d e, st)"
  have entries: "fst (walk_entries env ?f p k es' st') = WalkOk \<Longrightarrow> length es' \<le> k \<Longrightarrow> set es' \<subseteq> set es \<Longrightarrow>
      list_all (\<lambda>(c, n). plain_comp c \<and> fs_wf n) es' \<Longrightarrow> map_of es' c = Some k' \<Longrightarrow> fs_at k' cs' = Some m \<Longrightarrow>
      \<exists>q name'. is_rooted q \<and> path_comps (path_clean q) = path_comps (path_clean p) @ c # cs' \<and>
        g q (Some (name', m)) None = WalkOk" for k es' st' c k' cs'
  proof (induction es' arbitrary: k st')
    case (Cons e es')
    obtain c0 n0 where e: "e = (c0, n0)"
      by fastforce
    with Cons.prems have plain: "plain_comp c0" and wf: "fs_wf n0" and k: "k \<noteq> 0" and mem: "(c0, n0) \<in> set es"
      by auto
    have "fst (walk_node env ?f (path_join [p, c0]) c0 n0 st') \<noteq> SkipDir"
      by (rule walk_node_SkipDir) (simp add: noskip)
    then have here: "fst (walk_node env ?f (path_join [p, c0]) c0 n0 st') = WalkOk"
      and rest: "fst (walk_entries env ?f p (k - 1) es' ()) = WalkOk"
      using Cons.prems(1) e k by (auto split: prod.splits walk_result.splits)
    show ?case
    proof (cases "c = c0")
      case True
      then have "k' = n0"
        using Cons.prems(5) e by simp
      with FDir.IH [OF mem, of n0 "path_join [p, c0]" c0 st' cs' m] here wf Cons.prems(6) True
        path_join_clean_comps [OF FDir.prems(3) plain]
      show ?thesis
        by simp
    next
      case False
      with Cons.IH [of "k - 1" "()"] rest Cons.prems e k show ?thesis
        by auto
    qed
  qed simp
  have first: "g p (Some (name, FDir es)) None = WalkOk"
    using FDir.prems(1) noskip by (auto simp: skipped_def split: walk_result.splits if_splits)
  have walked: "fst (walk_entries env ?f p (length es) es st) = WalkOk"
  proof (cases "os_read_err env p")
    case None
    with FDir.prems(1) first show ?thesis
      by simp
  next
    case (Some r)
    obtain k e where "r = (k, e)"
      by fastforce
    with Some FDir.prems(1) first reads [OF Some] noskip show ?thesis
      by (auto simp: skipped_def split: walk_result.splits if_splits)
  qed
  show ?case
  proof (cases cs)
    case Nil
    with first FDir.prems show ?thesis
      by auto
  next
    case (Cons c cs')
    with FDir.prems obtain k' where "map_of es c = Some k'" and "fs_at k' cs' = Some m"
      by (auto split: option.splits)
    with entries [OF walked] FDir.prems(2) Cons show ?thesis
      by simp
  qed
next
  case (FFile meta)
  then show ?case
    by (cases cs) auto
next
  case (FLink meta)
  then show ?case
    by (cases cs) auto
qed

text \<open>
  A property of the state that every call of the callback on an entry of the tree keeps holds after
  the walk. The callback sees each entry under a path that cleans to the place of the entry.
\<close>

lemma walk_node_inv:
  assumes step: "\<And>q name m st e cs. is_rooted q \<Longrightarrow> path_comps (path_clean q) = path_comps (path_clean p) @ cs \<Longrightarrow>
      fs_at n cs = Some m \<Longrightarrow> P st \<Longrightarrow> P (snd (f q (Some (name, m)) e st))"
  shows "fs_wf n \<Longrightarrow> is_rooted p \<Longrightarrow> P st \<Longrightarrow> P (snd (walk_node env f p name n st))"
  using step
proof (induction n arbitrary: p name st)
  case (FDir es)
  have here: "P (snd (f p (Some (name, FDir es)) e st))" if "P st" for name e st
    using FDir.prems(4) [of p "[]" "FDir es" st name e] FDir.prems(2) that by simp
  have entries: "list_all (\<lambda>(c, n). plain_comp c \<and> fs_wf n) es' \<Longrightarrow> distinct (map fst es') \<Longrightarrow>
      (\<And>c n. (c, n) \<in> set es' \<Longrightarrow> map_of es c = Some n) \<Longrightarrow> P st \<Longrightarrow> P (snd (walk_entries env f p k es' st))" for k es' st
  proof (induction es' arbitrary: k st)
    case (Cons e es')
    obtain c n where e: "e = (c, n)"
      by fastforce
    have mem: "map_of es c = Some n" and plain: "plain_comp c" and wf: "fs_wf n"
      using Cons.prems e by auto
    note j = path_join_clean_comps [OF FDir.prems(2) plain]
    have n: "n \<in> Basic_BNFs.snds (c, n)"
      by simp
    have "P (snd (walk_node env f (path_join [p, c]) c n st))"
    proof (rule FDir.IH [OF map_of_SomeD [OF mem] n wf j(1) Cons.prems(4)])
      fix q name m st e cs
      assume "is_rooted q" and "path_comps (path_clean q) = path_comps (path_clean (path_join [p, c])) @ cs"
        and "fs_at n cs = Some m" and "P st"
      then show "P (snd (f q (Some (name, m)) e st))"
        using FDir.prems(4) [of q "c # cs" m st name e] mem j(2) by simp
    qed
    with Cons.IH Cons.prems e show ?case
      by (auto split: prod.splits walk_result.splits)
  qed simp
  have mem: "map_of es c = Some n" if "(c, n) \<in> set es" for c n
    using FDir.prems(1) that by simp
  show ?case
    using here [OF FDir.prems(3)] here entries [OF _ _ mem] FDir.prems(1)
    by (auto split: prod.splits option.splits) (metis snd_conv)+
next
  case (FFile m)
  then show ?case
    using FFile.prems(4) [of p "[]" "FFile m" st name None] by simp
next
  case (FLink m)
  then show ?case
    using FLink.prems(4) [of p "[]" "FLink m" st name None] by simp
qed

lemma walk_dir_inv:
  assumes step: "\<And>q name m st e cs. is_rooted q \<Longrightarrow> path_comps (path_clean q) = path_comps (path_clean root) @ cs \<Longrightarrow>
      fs_at fs (os_phys env root @ cs) = Some m \<Longrightarrow> P st \<Longrightarrow> P (snd (f q (Some (name, m)) e st))"
    and miss: "\<And>e. P (snd (f root None (Some e) st))" and wf: "fs_wf fs" and root: "is_rooted root" and P: "P st"
  shows "P (snd (walk_dir env fs f root st))"
proof -
  have "P (snd (case os_lstat env fs root of Inl e \<Rightarrow> f root None (Some e) st | Inr n \<Rightarrow> walk_node env f root (path_base root) n st))"
  proof (cases "os_lstat env fs root")
    case (Inr n)
    then have n: "fs_at fs (os_phys env root) = Some n"
      by (auto simp: os_lstat_def split: option.splits)
    have "P (snd (walk_node env f root (path_base root) n st))"
    proof (rule walk_node_inv [where P = P])
      show "fs_wf n" and "is_rooted root" and "P st"
        using fs_wf_at [OF wf n] root P by simp_all
    next
      fix q name m st e cs
      assume "is_rooted q" and "path_comps (path_clean q) = path_comps (path_clean root) @ cs"
        and "fs_at n cs = Some m" and "P st"
      then show "P (snd (f q (Some (name, m)) e st))"
        using step n by (simp add: fs_at_append)
    qed
    with Inr show ?thesis
      by simp
  qed (simp add: miss)
  then show ?thesis
    by (auto simp: walk_dir_def split: prod.splits walk_result.splits)
qed

end
