(* ===== verification/Orphan_Delete.thy ===== *)
theory Orphan_Delete
  imports Orphan_Sources Go_Files
begin

text \<open>
  Deletion of orphans (\<open>delete.go\<close> and \<open>executeDeletion\<close> of \<open>service.go\<close> in
  \<open>src/internal/services/orphanscan\<close>): the checks before a file, a link or a directory is removed, the
  loop over the files of a run, the clean-up of empty directories and the outcome. The file system is
  the tree of \<open>Go_Files\<close>; other programs do not change it between a check and the removal.
\<close>

section \<open>One target\<close>

datatype delete_disposition = Deleted | SkippedInUse | SkippedMissing | SkippedIgnored

datatype delete_error = NonAbsolute | TargetIsRoot | EscapesRoot | DirectoryAsFile | OsFailed os_error

definition validateDeleteTarget :: "string \<Rightarrow> string \<Rightarrow> delete_error option" where
  "validateDeleteTarget scanRoot target =
     (if \<not> is_rooted target then Some NonAbsolute
      else if path_clean target = path_clean scanRoot then Some TargetIsRoot
      else case path_rel scanRoot target of
        None \<Rightarrow> Some EscapesRoot
      | Some rel \<Rightarrow> if has_prefix rel ''..'' then Some EscapesRoot else None)"

text \<open>A removal answers with a disposition; a missing target is no failure.\<close>

definition removal_result :: "fs_node \<times> os_error option \<Rightarrow> (delete_error + delete_disposition) \<times> fs_node" where
  "removal_result r =
     (case r of
        (fs, None) \<Rightarrow> (Inr Deleted, fs)
      | (fs, Some e) \<Rightarrow> (if e = NotExist then Inr SkippedMissing else Inl (OsFailed e), fs))"

text \<open>\<open>safeDeleteFile\<close> repeats the three checks of \<open>validateDeleteTarget\<close> in the same order.\<close>

definition safeDeleteFile ::
  "unicode_norm \<Rightarrow> fs_env \<Rightarrow> string \<Rightarrow> string \<Rightarrow> torrent_file_map \<Rightarrow> fs_node \<Rightarrow> (delete_error + delete_disposition) \<times> fs_node" where
  "safeDeleteFile u env scanRoot target tfm fs =
     (case validateDeleteTarget scanRoot target of
        Some e \<Rightarrow> (Inl e, fs)
      | None \<Rightarrow>
          if tfm_has tfm (normalizePath u target) then (Inr SkippedInUse, fs)
          else (case os_lstat env fs target of
                  Inl e \<Rightarrow> (if e = NotExist then Inr SkippedMissing else Inl (OsFailed e), fs)
                | Inr info \<Rightarrow>
                    if is_dir info then (Inl DirectoryAsFile, fs)
                    else removal_result (os_remove env fs target)))"

text \<open>Errors of the walk through a directory.\<close>

datatype in_use_error = ErrInUse | WalkFailed os_error

definition checkFileInUse :: "unicode_norm \<Rightarrow> torrent_file_map \<Rightarrow> string \<Rightarrow> in_use_error walk_result" where
  "checkFileInUse u tfm path = (if tfm_has tfm (normalizePath u path) then WalkErr ErrInUse else WalkOk)"

definition checkEntry :: "unicode_norm \<Rightarrow> torrent_file_map \<Rightarrow> string \<Rightarrow> (string \<times> fs_node) option \<Rightarrow> os_error option \<Rightarrow> in_use_error walk_result" where
  "checkEntry u tfm p d walkErr =
     (case walkErr of
        Some e \<Rightarrow> if e = NotExist then WalkOk else WalkErr (WalkFailed e)
      | None \<Rightarrow>
          (case d of
             Some (name, n) \<Rightarrow> if is_dir n then WalkOk else checkFileInUse u tfm p
           | None \<Rightarrow> WalkOk))"

definition checkDirContainsInUseFile :: "unicode_norm \<Rightarrow> fs_env \<Rightarrow> fs_node \<Rightarrow> string \<Rightarrow> torrent_file_map \<Rightarrow> in_use_error option" where
  "checkDirContainsInUseFile u env fs target tfm =
     (case fst (walk_dir env fs (\<lambda>p d e (st :: unit). (checkEntry u tfm p d e, st)) target ()) of
        WalkErr e \<Rightarrow> Some e
      | _ \<Rightarrow> None)"

definition safeDeleteSymlink ::
  "unicode_norm \<Rightarrow> fs_env \<Rightarrow> string \<Rightarrow> torrent_file_map \<Rightarrow> fs_node \<Rightarrow> (delete_error + delete_disposition) \<times> fs_node" where
  "safeDeleteSymlink u env target tfm fs =
     (if tfm_has tfm (normalizePath u target) then (Inr SkippedInUse, fs)
      else removal_result (os_remove env fs target))"

definition safeDeleteDirectory ::
  "unicode_norm \<Rightarrow> fs_env \<Rightarrow> string \<Rightarrow> torrent_file_map \<Rightarrow> fs_node \<Rightarrow> (delete_error + delete_disposition) \<times> fs_node" where
  "safeDeleteDirectory u env target tfm fs =
     (case checkDirContainsInUseFile u env fs target tfm of
        Some ErrInUse \<Rightarrow> (Inr SkippedInUse, fs)
      | Some (WalkFailed e) \<Rightarrow> (Inl (OsFailed e), fs)
      | None \<Rightarrow> removal_result (os_remove_all env fs target))"

definition safeDeleteTarget ::
  "unicode_norm \<Rightarrow> fs_env \<Rightarrow> string \<Rightarrow> string \<Rightarrow> torrent_file_map \<Rightarrow> string list \<Rightarrow> fs_node \<Rightarrow>
    (delete_error + delete_disposition) \<times> fs_node" where
  "safeDeleteTarget u env scanRoot target tfm ignorePaths fs =
     (case validateDeleteTarget scanRoot target of
        Some e \<Rightarrow> (Inl e, fs)
      | None \<Rightarrow>
          if ignorePaths \<noteq> [] \<and> isPathProtectedByIgnorePaths u target ignorePaths then (Inr SkippedIgnored, fs)
          else (case os_lstat env fs target of
                  Inl e \<Rightarrow> (if e = NotExist then Inr SkippedMissing else Inl (OsFailed e), fs)
                | Inr info \<Rightarrow>
                    if is_link info then safeDeleteSymlink u env target tfm fs
                    else if \<not> is_dir info then safeDeleteFile u env scanRoot target tfm fs
                    else safeDeleteDirectory u env target tfm fs))"

definition safeDeleteEmptyDir :: "fs_env \<Rightarrow> string \<Rightarrow> string \<Rightarrow> fs_node \<Rightarrow> delete_error option \<times> fs_node" where
  "safeDeleteEmptyDir env scanRoot target fs =
     (case validateDeleteTarget scanRoot target of
        Some e \<Rightarrow> (Some e, fs)
      | None \<Rightarrow>
          (case os_remove env fs target of
             (fs', None) \<Rightarrow> (None, fs')
           | (fs', Some e) \<Rightarrow> (if e = NotExist then None else Some (OsFailed e), fs')))"

section \<open>Directories to clean up\<close>

partial_function (option) climbDirs :: "unicode_norm \<Rightarrow> string \<Rightarrow> string list \<Rightarrow> string \<Rightarrow> string goset \<Rightarrow> string goset option" where
  "climbDirs u scanRoot ignorePaths dir candidates =
     (if dir = scanRoot then Some candidates
      else if dir = dot \<or> dir = ''/'' then Some candidates
      else if isIgnoredPath u dir ignorePaths then Some candidates
      else let cands = gs_add dir candidates; parent = path_dir dir in
        if parent = dir then Some cands else climbDirs u scanRoot ignorePaths parent cands)"

declare climbDirs.simps [code]

definition collectDirs :: "unicode_norm \<Rightarrow> string list \<Rightarrow> string list \<Rightarrow> string \<Rightarrow> string goset \<Rightarrow> string goset option" where
  "collectDirs u scanRoots ignorePaths file candidates =
     (let scanRoot = findScanRoot u file scanRoots in
      if scanRoot = [] then Some candidates
      else climbDirs u (path_clean scanRoot) ignorePaths (path_clean (path_dir file)) candidates)"

definition collectCandidateDirsForCleanup :: "unicode_norm \<Rightarrow> string list \<Rightarrow> string list \<Rightarrow> string list \<Rightarrow> string list option" where
  "collectCandidateDirsForCleanup u files scanRoots ignorePaths =
     map_option (sort_key (\<lambda>d. - int (length d))) (opt_fold (collectDirs u scanRoots ignorePaths) files [])"

section \<open>A run\<close>

record orphan_file =
  of_ID :: int
  of_FilePath :: string
  of_FileSize :: int

datatype file_status = FsDeleted | FsSkippedInUse | FsSkippedMissing | FsSkippedIgnored | FsNoScanRoot | FsFailed delete_error

record deletion_state =
  dls_fs :: fs_node
  dls_statuses :: "(int \<times> file_status) list"
  dls_filesDeleted :: nat
  dls_bytes :: int
  dls_paths :: "string list"
  dls_failed :: nat
  dls_readOnly :: bool
  dls_permission :: bool

text \<open>One file of the loop of \<open>executeDeletion\<close>.\<close>

definition deleteFile ::
  "unicode_norm \<Rightarrow> fs_env \<Rightarrow> string list \<Rightarrow> torrent_file_map \<Rightarrow> string list \<Rightarrow> orphan_file \<Rightarrow> deletion_state \<Rightarrow> deletion_state" where
  "deleteFile u env scanPaths tfm ignorePaths f st =
     (let note = (\<lambda>s st. st\<lparr>dls_statuses := dls_statuses st @ [(of_ID f, s)]\<rparr>);
          scanRoot = findScanRoot u (of_FilePath f) scanPaths in
      if scanRoot = [] then (note FsNoScanRoot st)\<lparr>dls_failed := dls_failed st + 1\<rparr>
      else case safeDeleteTarget u env scanRoot (of_FilePath f) tfm ignorePaths (dls_fs st) of
        (Inl e, fs) \<Rightarrow>
          (note (FsFailed e) st)\<lparr>dls_fs := fs, dls_failed := dls_failed st + 1,
             dls_readOnly := dls_readOnly st \<or> e = OsFailed ReadOnlyFS,
             dls_permission := dls_permission st \<or> e = OsFailed Permission\<rparr>
      | (Inr SkippedInUse, fs) \<Rightarrow> (note FsSkippedInUse st)\<lparr>dls_fs := fs\<rparr>
      | (Inr SkippedMissing, fs) \<Rightarrow> (note FsSkippedMissing st)\<lparr>dls_fs := fs, dls_paths := dls_paths st @ [of_FilePath f]\<rparr>
      | (Inr SkippedIgnored, fs) \<Rightarrow> (note FsSkippedIgnored st)\<lparr>dls_fs := fs\<rparr>
      | (Inr Deleted, fs) \<Rightarrow>
          (note FsDeleted st)\<lparr>dls_fs := fs, dls_filesDeleted := dls_filesDeleted st + 1,
             dls_bytes := wrap64 (dls_bytes st + of_FileSize f), dls_paths := dls_paths st @ [of_FilePath f]\<rparr>)"

text \<open>\<open>canceled n\<close>: the context is cancelled before the \<open>n\<close>-th check of the run.\<close>

fun deleteFiles ::
  "unicode_norm \<Rightarrow> fs_env \<Rightarrow> string list \<Rightarrow> torrent_file_map \<Rightarrow> string list \<Rightarrow> (nat \<Rightarrow> bool) \<Rightarrow> nat \<Rightarrow> orphan_file list \<Rightarrow>
    deletion_state \<Rightarrow> nat \<times> deletion_state" where
  "deleteFiles u env scanPaths tfm ignorePaths canceled n [] st = (n, st)"
| "deleteFiles u env scanPaths tfm ignorePaths canceled n (f # fs) st =
     (if canceled n then (n, st)
      else deleteFiles u env scanPaths tfm ignorePaths canceled (n + 1) fs (deleteFile u env scanPaths tfm ignorePaths f st))"

fun cleanupDirs ::
  "unicode_norm \<Rightarrow> fs_env \<Rightarrow> string list \<Rightarrow> (nat \<Rightarrow> bool) \<Rightarrow> nat \<Rightarrow> string list \<Rightarrow> fs_node \<Rightarrow> nat \<Rightarrow> fs_node \<times> nat" where
  "cleanupDirs u env scanPaths canceled n [] fs folders = (fs, folders)"
| "cleanupDirs u env scanPaths canceled n (dir # dirs) fs folders =
     (if canceled n then (fs, folders)
      else let scanRoot = findScanRoot u dir scanPaths in
        if scanRoot = [] then cleanupDirs u env scanPaths canceled (n + 1) dirs fs folders
        else case safeDeleteEmptyDir env scanRoot dir fs of (err, fs') \<Rightarrow>
          cleanupDirs u env scanPaths canceled (n + 1) dirs fs' (if err = None then folders + 1 else folders))"

datatype failure_kind = ReadOnlyFailure | PermissionFailure | OtherFailure

datatype deletion_outcome =
    RunFailed nat failure_kind
  | RunCompleted nat nat int "(nat \<times> failure_kind) option"

definition failureKind :: "deletion_state \<Rightarrow> failure_kind" where
  "failureKind st = (if dls_readOnly st then ReadOnlyFailure else if dls_permission st then PermissionFailure else OtherFailure)"

definition deletionOutcome :: "deletion_state \<Rightarrow> nat \<Rightarrow> deletion_outcome" where
  "deletionOutcome st folders =
     (if dls_failed st > 0 \<and> dls_filesDeleted st = 0 then RunFailed (dls_failed st) (failureKind st)
      else RunCompleted (dls_filesDeleted st) folders (dls_bytes st)
        (if dls_failed st > 0 then Some (dls_failed st, failureKind st) else None))"

text \<open>The ignore paths of a deletion: the settings, unnormalised if they are invalid. Nothing else.\<close>

definition deletionIgnorePaths :: "unicode_norm \<Rightarrow> string list option \<Rightarrow> string list" where
  "deletionIgnorePaths u settings =
     (case settings of
        None \<Rightarrow> []
      | Some ps \<Rightarrow> (case normalizeIgnorePaths u ps of Inl e \<Rightarrow> ps | Inr r \<Rightarrow> r))"

definition runDeletion ::
  "unicode_norm \<Rightarrow> fs_env \<Rightarrow> string list \<Rightarrow> torrent_file_map \<Rightarrow> string list option \<Rightarrow> (nat \<Rightarrow> bool) \<Rightarrow> orphan_file list \<Rightarrow>
    fs_node \<Rightarrow> (deletion_outcome \<times> deletion_state \<times> fs_node) option" where
  "runDeletion u env scanPaths tfm settings canceled files fs =
     (let ignorePaths = deletionIgnorePaths u settings in
      case deleteFiles u env scanPaths tfm ignorePaths canceled 0 files
             \<lparr>dls_fs = fs, dls_statuses = [], dls_filesDeleted = 0, dls_bytes = 0, dls_paths = [], dls_failed = 0,
              dls_readOnly = False, dls_permission = False\<rparr> of (n, st) \<Rightarrow>
        (case collectCandidateDirsForCleanup u (dls_paths st) scanPaths ignorePaths of
           None \<Rightarrow> None
         | Some dirs \<Rightarrow>
             (case cleanupDirs u env scanPaths canceled n dirs (dls_fs st) 0 of
                (fs', folders) \<Rightarrow> Some (deletionOutcome st folders, st, fs'))))"

text \<open>\<open>executeDeletion\<close>: a fresh map of the files in use, then the loop over the files of the run.\<close>

datatype deletion_result = MapFailed scan_error | DeletionDone deletion_outcome deletion_state

definition executeDeletion ::
  "unicode_norm \<Rightarrow> fs_env \<Rightarrow> int \<Rightarrow> int \<Rightarrow> instance_io \<Rightarrow> other_instance list option \<Rightarrow> string list option \<Rightarrow>
    string list \<Rightarrow> (nat \<Rightarrow> bool) \<Rightarrow> orphan_file list \<Rightarrow> fs_node \<Rightarrow> (deletion_result \<times> fs_node) option" where
  "executeDeletion u env now instanceID io insts settings scanPaths canceled files fs =
     (case buildFileMap u now instanceID io insts of
        None \<Rightarrow> None
      | Some (Inl e) \<Rightarrow> Some (MapFailed e, fs)
      | Some (Inr r) \<Rightarrow>
          (case runDeletion u env scanPaths (fmr_fileMap r) settings canceled files fs of
             None \<Rightarrow> None
           | Some (outcome, st, fs') \<Rightarrow> Some (DeletionDone outcome st, fs')))"

section \<open>What one target may remove\<close>

text \<open>
  An environment without surprises: no directory on the way to a path is a symbolic link, and what
  exists is not reported missing.
\<close>

definition honest_env :: "fs_env \<Rightarrow> bool" where
  "honest_env env \<longleftrightarrow> (\<forall>p. is_rooted p \<longrightarrow> os_phys env p = path_comps (path_clean p)) \<and>
     (\<forall>p k. os_read_err env p \<noteq> Some (k, NotExist)) \<and> (\<forall>p. os_lstat_err env p \<noteq> Some NotExist) \<and>
     (\<forall>cs. os_stuck env cs \<noteq> Some NotExist) \<and> (\<forall>p. os_rest_err env p \<noteq> NotExist)"

text \<open>
  The entry at \<open>cs\<close> may go: it was asked for, or lies in what was, or is a folder that leads there; it is below a root, not a file in use,
  not at or below an ignored directory.
\<close>

definition deletable ::
  "unicode_norm \<Rightarrow> string list \<Rightarrow> torrent_file_map \<Rightarrow> string list \<Rightarrow> string list \<Rightarrow> string list \<Rightarrow> fs_node \<Rightarrow> bool" where
  "deletable u roots tfm igs targets cs m \<longleftrightarrow>
     (\<exists>p \<in> set targets. prefix (path_comps (path_clean p)) cs \<or> is_dir m \<and> strict_prefix cs (path_comps (path_clean p))) \<and>
     (\<exists>root \<in> set roots. is_rooted root \<and> strict_prefix (path_comps (path_clean root)) cs) \<and>
     (\<not> is_dir m \<longrightarrow> \<not> tfm_has tfm (normalizePath u (abs_path cs))) \<and>
     (list_all utf8_valid cs \<longrightarrow> (\<forall>g \<in> set igs. ncomps u g \<noteq> [] \<longrightarrow> \<not> prefix (ncomps u g) (norm_comps u cs)))"

lemma deletable_kind: "same_kind m' m \<Longrightarrow> deletable u roots tfm igs targets cs m' \<Longrightarrow> deletable u roots tfm igs targets cs m"
  by (auto simp: deletable_def same_kind_def split: if_splits)

lemma validateDeleteTarget_None:
  assumes "validateDeleteTarget root target = None"
  shows "is_rooted target" and "is_rooted root"
    and "strict_prefix (path_comps (path_clean root)) (path_comps (path_clean target))"
proof -
  obtain rel where "is_rooted target" and "path_clean target \<noteq> path_clean root"
      and "path_rel root target = Some rel" and "\<not> has_prefix rel ''..''"
    using assms by (auto simp: validateDeleteTarget_def split: if_splits option.splits)
  then show "is_rooted target" and "is_rooted root"
    and "strict_prefix (path_comps (path_clean root)) (path_comps (path_clean target))"
    using path_rel_below by blast+
qed

lemma normalizePath_comps:
  assumes "is_rooted p" and "is_rooted q" and "path_comps (path_clean p) = path_comps (path_clean q)"
  shows "normalizePath u p = normalizePath u q"
  using path_clean_abs_path(1) [OF assms(1)] path_clean_abs_path(1) [OF assms(2)] assms(3)
  by (simp add: normalizePath_def)

lemma checkDir_covers:
  assumes "honest_env env" and "checkDirContainsInUseFile u env fs target tfm = None"
    and "is_rooted target" and "fs_wf n" and lstat: "os_lstat env fs target = Inr n" and "fs_at n cs = Some m" and "\<not> is_dir m"
  shows "\<exists>q. is_rooted q \<and> path_comps (path_clean q) = path_comps (path_clean target) @ cs \<and> \<not> tfm_has tfm (normalizePath u q)"
proof -
  let ?g = "checkEntry u tfm"
  have noskip: "?g p d e \<noteq> SkipDir" and noall: "?g p d e \<noteq> SkipAll" for p d e
    by (auto simp: checkEntry_def checkFileInUse_def split: option.splits)
  have reads: "?g p (Some d) (Some (snd r)) \<noteq> WalkOk" if "os_read_err env p = Some r" for p d r
    using assms(1) that by (cases r) (auto simp: checkEntry_def honest_env_def)
  have "fst (walk_node env (\<lambda>p d e (st :: unit). (?g p d e, st)) target (path_base target) n ()) \<noteq> SkipDir"
    by (rule walk_node_SkipDir) (simp add: noskip)
  moreover have "fst (walk_node env (\<lambda>p d e (st :: unit). (?g p d e, st)) target (path_base target) n ()) \<noteq> SkipAll"
    by (rule walk_node_SkipAll) (simp add: noall)
  ultimately have "fst (walk_node env (\<lambda>p d e (st :: unit). (?g p d e, st)) target (path_base target) n ()) = WalkOk"
    using assms(2) lstat by (auto simp: checkDirContainsInUseFile_def walk_dir_def split: walk_result.splits prod.splits)
  from walk_covers [where g = ?g and env = env, OF noskip reads this assms(4,3,6)] assms(7) show ?thesis
    by (auto simp: checkEntry_def checkFileInUse_def split: if_splits)
qed

lemma removal_fs: "snd (removal_result r) = fst r"
  by (cases r) (auto simp: removal_result_def split: option.splits)

text \<open>The core of safety: whatever the outcome, one target removes only what may go.\<close>

lemma safeDeleteTarget_removes:
  assumes u: "nfc_laws u" and env: "honest_env env" and wf: "fs_wf fs" and igs: "\<forall>g \<in> set igs. is_rooted g"
    and res: "safeDeleteTarget u env root target tfm igs fs = (r, fs')"
  shows "removes fs fs' (deletable u [root] tfm igs [target])"
proof (cases "fs' = fs")
  case False
  let ?T = "path_comps (path_clean target)"
  have valid: "validateDeleteTarget root target = None"
    and unprot: "\<not> isPathProtectedByIgnorePaths u target igs"
    using res False
    by (auto simp: safeDeleteTarget_def isPathProtectedByIgnorePaths_def isIgnoredPath_def Let_def split: option.splits if_splits)
  note rooted = validateDeleteTarget_None(1,2) [OF valid] and below = validateDeleteTarget_None(3) [OF valid]
  have phys: "os_phys env target = ?T"
    using env rooted by (simp add: honest_env_def)
  have ne: "?T \<noteq> []"
    using below by (auto simp: strict_prefix_def)
  obtain info where lstat: "os_lstat env fs target = Inr info"
    using res False valid by (auto simp: safeDeleteTarget_def split: option.splits if_splits sum.splits)
  then have info: "fs_at fs ?T = Some info"
    by (auto simp: os_lstat_def phys split: option.splits)
  have wfi: "fs_wf info"
    using fs_wf_at [OF wf info] by simp
  have may_go: "deletable u [root] tfm igs [target] (?T @ cs) m"
    if "fs_at fs (?T @ cs) = Some m" and "\<not> is_dir m \<longrightarrow> \<not> tfm_has tfm (normalizePath u (abs_path (?T @ cs)))" for cs m
  proof -
    have "\<not> prefix (ncomps u g) (norm_comps u (?T @ cs))"
      if "list_all utf8_valid (?T @ cs)" "g \<in> set igs" "ncomps u g \<noteq> []" for g
      using unprotected_below [OF u rooted(1) igs unprot ne _ that(1,2,3)] by simp
    moreover have "strict_prefix (path_comps (path_clean root)) (?T @ cs)"
      by (rule prefix_order.less_le_trans [OF below]) simp
    ultimately show ?thesis
      using that(2) rooted by (simp add: deletable_def)
  qed
  have norm_T: "normalizePath u (abs_path ?T) = normalizePath u target"
    using path_clean_abs_path(1) [OF rooted(1)] normalizePath_clean [OF rooted(1)] by metis
  have single: "removes fs fs'' (deletable u [root] tfm igs [target])"
    if free: "\<not> tfm_has tfm (normalizePath u target)" and rm: "snd (removal_result (os_remove env fs target)) = fs''" for fs''
  proof -
    obtain e where "os_remove env fs target = (fs'', e)"
      using rm removal_fs by (metis surj_pair fst_conv)
    from os_remove_removes [OF wf _ this] have rem: "removes fs fs'' (\<lambda>cs m. cs = ?T)"
      using phys ne by simp
    have "deletable u [root] tfm igs [target] cs m" if "fs_at fs cs = Some m" and "cs = ?T" for cs m
      using may_go [of "[]" m] that free norm_T by simp
    with rem show ?thesis
      by (rule removes_mono_at)
  qed
  show ?thesis
  proof (cases "is_dir info")
    case False
    then have *: "is_link info \<Longrightarrow> safeDeleteSymlink u env target tfm fs = (r, fs')"
        "\<not> is_link info \<Longrightarrow> safeDeleteFile u env root target tfm fs = (r, fs')"
      using res valid unprot lstat by (auto simp: safeDeleteTarget_def split: if_splits)
    have "snd (removal_result (os_remove env fs target)) = fs' \<and> \<not> tfm_has tfm (normalizePath u target)"
      using * \<open>fs' \<noteq> fs\<close> valid lstat False
      by (cases "is_link info") (auto simp: safeDeleteSymlink_def safeDeleteFile_def split: if_splits)
    then show ?thesis
      using single by blast
  next
    case True
    then have "\<not> is_link info"
      by (cases info) auto
    then have "safeDeleteDirectory u env target tfm fs = (r, fs')"
      using True res valid unprot lstat by (auto simp: safeDeleteTarget_def split: if_splits)
    then have check: "checkDirContainsInUseFile u env fs target tfm = None"
      and "snd (removal_result (os_remove_all env fs target)) = fs'"
      using \<open>fs' \<noteq> fs\<close> by (auto simp: safeDeleteDirectory_def split: option.splits in_use_error.splits)
    then obtain e where "os_remove_all env fs target = (fs', e)"
      using removal_fs by (metis surj_pair fst_conv)
    from os_remove_all_removes [OF wf _ this] have rem: "removes fs fs' (\<lambda>cs m. prefix ?T cs)"
      using phys ne by simp
    have "deletable u [root] tfm igs [target] (?T @ cs) m" if at: "fs_at fs (?T @ cs) = Some m" for cs m
    proof (rule may_go [OF at], rule impI)
      assume "\<not> is_dir m"
      moreover have "fs_at info cs = Some m"
        using at info by (simp add: fs_at_append)
      ultimately obtain q where "is_rooted q" and "path_comps (path_clean q) = ?T @ cs" and "\<not> tfm_has tfm (normalizePath u q)"
        using checkDir_covers [OF env check rooted(1) wfi lstat] by blast
      moreover have "plain_comps (?T @ cs)"
        using fs_wf_at [OF wf at] by simp
      ultimately show "\<not> tfm_has tfm (normalizePath u (abs_path (?T @ cs)))"
        using normalizePath_comps [of q "abs_path (?T @ cs)" u] by simp
    qed
    then show ?thesis
      by (intro removes_mono_at [OF rem]) (auto simp: prefix_def)
  qed
qed simp

lemma safeDeleteTarget_gone:
  assumes env: "honest_env env"
    and res: "safeDeleteTarget u env root target tfm igs fs = (Inr d, fs')" and d: "d = Deleted \<or> d = SkippedMissing"
  shows "is_rooted target" and "parents_dirs fs (path_comps (path_clean target))"
proof -
  have "validateDeleteTarget root target = None"
    using res d by (auto simp: safeDeleteTarget_def split: option.splits)
  note rooted = validateDeleteTarget_None(1) [OF this]
  then show "is_rooted target" .
  have phys: "os_phys env target = path_comps (path_clean target)"
    using env rooted by (simp add: honest_env_def)
  show "parents_dirs fs (path_comps (path_clean target))"
  proof (cases "os_lstat env fs target")
    case (Inl e)
    with res d have "e = NotExist"
      by (auto simp: safeDeleteTarget_def split: option.splits if_splits)
    with Inl env show ?thesis
      by (auto simp: os_lstat_def phys honest_env_def intro: parents_dirs_missing split: option.splits)
  next
    case (Inr n)
    then have "fs_at fs (path_comps (path_clean target)) = Some n"
      by (auto simp: os_lstat_def phys split: option.splits)
    then show ?thesis
      by (rule parents_dirs_at)
  qed
qed

text \<open>What is reported as deleted was there and is gone; the other answers without an error leave everything in place.\<close>

lemma safeDeleteTarget_reports:
  assumes env: "honest_env env" and wf: "fs_wf fs"
    and res: "safeDeleteTarget u env root target tfm igs fs = (Inr d, fs')"
  shows "if d = Deleted then fs_at fs (path_comps (path_clean target)) \<noteq> None \<and> fs_at fs' (path_comps (path_clean target)) = None
    else fs' = fs \<and> (d = SkippedMissing \<longrightarrow> fs_at fs (path_comps (path_clean target)) = None)"
proof -
  let ?T = "path_comps (path_clean target)"
  have valid: "validateDeleteTarget root target = None"
    using res by (auto simp: safeDeleteTarget_def split: option.splits)
  note rooted = validateDeleteTarget_None(1) [OF valid]
  have phys: "os_phys env target = ?T"
    using env rooted by (simp add: honest_env_def)
  have ne: "?T \<noteq> []"
    using validateDeleteTarget_None(3) [OF valid] by (auto simp: strict_prefix_def)
  show ?thesis
  proof (cases "isPathProtectedByIgnorePaths u target igs")
    case True
    with res valid show ?thesis
      by (auto simp: safeDeleteTarget_def isPathProtectedByIgnorePaths_def isIgnoredPath_def Let_def split: if_splits)
  next
    case unprot: False
    show ?thesis
    proof (cases "os_lstat env fs target")
      case (Inl e)
      with res valid unprot have "d = SkippedMissing" "fs' = fs" "e = NotExist"
        by (auto simp: safeDeleteTarget_def split: if_splits)
      with Inl env show ?thesis
        by (auto simp: os_lstat_def phys honest_env_def split: option.splits)
    next
      case (Inr info)
      then have at: "fs_at fs ?T = Some info"
        by (auto simp: os_lstat_def phys split: option.splits)
      have "removal_result (os_remove env fs target) = (Inr d, fs') \<Longrightarrow> d = Deleted \<and> fs_at fs' ?T = None"
        using os_remove_gone [OF wf, of env target] at env ne
        by (auto simp: removal_result_def os_remove_def honest_env_def phys Let_def split: prod.splits option.splits if_splits)
      moreover have "removal_result (os_remove_all env fs target) = (Inr d, fs') \<Longrightarrow> d = Deleted \<and> fs_at fs' ?T = None"
        using at env by (auto simp: removal_result_def os_remove_all_def honest_env_def phys Let_def split: prod.splits option.splits if_splits)
      ultimately show ?thesis
        using res valid unprot Inr at
        by (auto simp: safeDeleteTarget_def safeDeleteSymlink_def safeDeleteFile_def safeDeleteDirectory_def
            split: if_splits option.splits in_use_error.splits)
    qed
  qed
qed

section \<open>What a run may remove\<close>

lemma findScanRoot_mem: "findScanRoot u p roots = [] \<or> findScanRoot u p roots \<in> set roots"
proof -
  have "fold (\<lambda>root longest. if A root then longest else if B root then longest
      else if length root > length longest then root else longest) roots acc \<in> insert acc (set roots)" for A B acc
    by (induction roots arbitrary: acc) (auto split: if_splits)
  from this [of "\<lambda>root. length (normalizePath u p) < length (normalizePath u root) \<or>
      take (length (normalizePath u root)) (normalizePath u p) \<noteq> normalizePath u root"
      "\<lambda>root. length (normalizePath u p) > length (normalizePath u root) \<and>
      normalizePath u p ! length (normalizePath u root) \<noteq> CHR ''/''" "[]"] show ?thesis
    by (auto simp: findScanRoot_def Let_def)
qed

lemma deletable_mono:
  "deletable u [r] tfm igs ts cs m \<Longrightarrow> r \<in> set roots \<Longrightarrow> set ts \<subseteq> set targets \<Longrightarrow> deletable u roots tfm igs targets cs m"
  by (auto simp: deletable_def)

definition deletion_inv ::
  "unicode_norm \<Rightarrow> string list \<Rightarrow> torrent_file_map \<Rightarrow> string list \<Rightarrow> string list \<Rightarrow> fs_node \<Rightarrow> deletion_state \<Rightarrow> bool" where
  "deletion_inv u roots tfm igs targets fs st \<longleftrightarrow> removes fs (dls_fs st) (deletable u roots tfm igs targets) \<and>
     (\<forall>p \<in> set (dls_paths st). is_rooted p \<and> parents_dirs (dls_fs st) (path_comps (path_clean p)))"

lemma deleteFile_inv:
  assumes u: "nfc_laws u" and env: "honest_env env" and wf: "fs_wf fs" and igs: "\<forall>g \<in> set igs. is_rooted g"
    and asked: "of_FilePath f \<in> set targets" and inv: "deletion_inv u roots tfm igs targets fs st"
  shows "deletion_inv u roots tfm igs targets fs (deleteFile u env roots tfm igs f st)"
proof (cases "findScanRoot u (of_FilePath f) roots = []")
  case True
  with inv show ?thesis
    by (simp add: deleteFile_def deletion_inv_def Let_def)
next
  case False
  let ?root = "findScanRoot u (of_FilePath f) roots"
  obtain r fs' where res: "safeDeleteTarget u env ?root (of_FilePath f) tfm igs (dls_fs st) = (r, fs')"
    by fastforce
  have rem0: "removes fs (dls_fs st) (deletable u roots tfm igs targets)"
    using inv by (simp add: deletion_inv_def)
  then have wf': "fs_wf (dls_fs st)"
    using fs_shrinks_wf [OF removes_shrinks wf] by blast
  have rem1: "removes (dls_fs st) fs' (deletable u roots tfm igs targets)"
    using safeDeleteTarget_removes [OF u env wf' igs res] findScanRoot_mem [of u "of_FilePath f" roots] False asked
    by (elim removes_mono) (auto intro: deletable_mono)
  have rem: "removes fs fs' (deletable u roots tfm igs targets)"
    by (rule removes_trans [OF rem0 rem1 deletable_kind])
  have old: "\<forall>p \<in> set (dls_paths st). is_rooted p \<and> parents_dirs fs' (path_comps (path_clean p))"
    using inv parents_dirs_shrinks [OF removes_shrinks [OF rem1]] by (simp add: deletion_inv_def)
  have new: "is_rooted (of_FilePath f) \<and> parents_dirs fs' (path_comps (path_clean (of_FilePath f)))"
    if "r = Inr d" and "d = Deleted \<or> d = SkippedMissing" for d
    using safeDeleteTarget_gone [OF env] res that parents_dirs_shrinks [OF removes_shrinks [OF rem1]] by blast
  show ?thesis
  proof (cases r)
    case (Inl e)
    with False res rem old show ?thesis
      by (simp add: deleteFile_def Let_def deletion_inv_def)
  next
    case (Inr d)
    with False res rem old new show ?thesis
      by (cases d) (simp_all add: deleteFile_def Let_def deletion_inv_def)
  qed
qed

lemma deleteFiles_inv:
  assumes "nfc_laws u" and "honest_env env" and "fs_wf fs" and "\<forall>g \<in> set igs. is_rooted g"
  shows "of_FilePath ` set files \<subseteq> set targets \<Longrightarrow> deletion_inv u roots tfm igs targets fs st \<Longrightarrow>
    deletion_inv u roots tfm igs targets fs (snd (deleteFiles u env roots tfm igs canceled n files st))"
proof (induction files arbitrary: n st)
  case (Cons f files)
  have "of_FilePath f \<in> set targets"
    using Cons.prems(1) by simp
  from Cons.IH [OF _ deleteFile_inv [OF assms this Cons.prems(2)]] Cons.prems show ?case
    by simp
qed simp

section \<open>What a run reports\<close>

fun failed_status :: "file_status \<Rightarrow> bool" where
  "failed_status FsNoScanRoot = True"
| "failed_status (FsFailed e) = True"
| "failed_status s = False"

text \<open>
  The books of a run that came to the files \<open>seen\<close>, from the file system \<open>fs\<close> to \<open>fs'\<close>: one status for each of them, in order; what
  is called deleted was there and is gone, what is called missing is not there; and the counters are those of the statuses.
\<close>

definition deleted_files :: "orphan_file list \<Rightarrow> deletion_state \<Rightarrow> orphan_file list" where
  "deleted_files seen st = map fst (filter (\<lambda>(f, s). s = FsDeleted) (zip seen (map snd (dls_statuses st))))"

definition books_right :: "fs_node \<Rightarrow> fs_node \<Rightarrow> orphan_file list \<Rightarrow> deletion_state \<Rightarrow> bool" where
  "books_right fs fs' seen st \<longleftrightarrow>
     map fst (dls_statuses st) = map of_ID seen \<and>
     (\<forall>(f, s) \<in> set (zip seen (map snd (dls_statuses st))).
        (s = FsDeleted \<longrightarrow> fs_at fs (path_comps (path_clean (of_FilePath f))) \<noteq> None) \<and>
        (s = FsDeleted \<or> s = FsSkippedMissing \<longrightarrow> fs_at fs' (path_comps (path_clean (of_FilePath f))) = None)) \<and>
     dls_filesDeleted st = length (deleted_files seen st) \<and>
     dls_bytes st = wrap64 (sum_list (map of_FileSize (deleted_files seen st))) \<and>
     dls_failed st = length (filter failed_status (map snd (dls_statuses st)))"

lemma books_right_later:
  assumes "fs_shrinks fs'' fs'" and "books_right fs fs' seen st"
  shows "books_right fs fs'' seen st"
proof -
  have "fs_at fs'' cs = None" if "fs_at fs' cs = None" for cs
    using fs_shrinks_at [OF assms(1), of cs] that by (cases "fs_at fs'' cs") auto
  with assms(2) show ?thesis
    unfolding books_right_def by (auto simp: case_prod_beta)
qed

text \<open>One more file, with its status.\<close>

lemma books_right_snoc:
  assumes books: "books_right fs (dls_fs st) seen st" and "fs_shrinks (dls_fs st') (dls_fs st)"
    and "dls_statuses st' = dls_statuses st @ [(of_ID f, s)]"
    and "s = FsDeleted \<Longrightarrow> fs_at fs (path_comps (path_clean (of_FilePath f))) \<noteq> None"
    and "s = FsDeleted \<or> s = FsSkippedMissing \<Longrightarrow> fs_at (dls_fs st') (path_comps (path_clean (of_FilePath f))) = None"
    and "dls_filesDeleted st' = dls_filesDeleted st + (if s = FsDeleted then 1 else 0)"
    and "dls_bytes st' = (if s = FsDeleted then wrap64 (dls_bytes st + of_FileSize f) else dls_bytes st)"
    and "dls_failed st' = dls_failed st + (if failed_status s then 1 else 0)"
  shows "books_right fs (dls_fs st') (seen @ [f]) st'"
proof -
  have later: "books_right fs (dls_fs st') seen st"
    by (rule books_right_later [OF assms(2) books])
  have "length (dls_statuses st) = length seen"
    using books unfolding books_right_def by (metis length_map)
  then have "deleted_files (seen @ [f]) st' = deleted_files seen st @ (if s = FsDeleted then [f] else [])"
    and "zip (seen @ [f]) (map snd (dls_statuses st')) = zip seen (map snd (dls_statuses st)) @ [(f, s)]"
    using assms(3) by (simp_all add: deleted_files_def)
  with later assms(3-) show ?thesis
    by (auto simp: books_right_def wrap64_add)
qed

lemma deleteFile_books:
  assumes u: "nfc_laws u" and env: "honest_env env" and wf: "fs_wf fs" and igs: "\<forall>g \<in> set igs. is_rooted g"
    and shr: "fs_shrinks (dls_fs st) fs" and books: "books_right fs (dls_fs st) seen st"
  shows "books_right fs (dls_fs (deleteFile u env roots tfm igs f st)) (seen @ [f]) (deleteFile u env roots tfm igs f st) \<and>
    fs_shrinks (dls_fs (deleteFile u env roots tfm igs f st)) fs"
proof -
  let ?st' = "deleteFile u env roots tfm igs f st" and ?root = "findScanRoot u (of_FilePath f) roots"
  obtain r fs' where res: "safeDeleteTarget u env ?root (of_FilePath f) tfm igs (dls_fs st) = (r, fs')"
    by fastforce
  have wf': "fs_wf (dls_fs st)"
    using fs_shrinks_wf [OF shr wf] .
  have shr': "fs_shrinks fs' (dls_fs st)"
    using removes_shrinks [OF safeDeleteTarget_removes [OF u env wf' igs res]] .
  have was: "fs_at fs cs \<noteq> None" if "fs_at (dls_fs st) cs \<noteq> None" for cs
    using fs_shrinks_at [OF shr] that by (cases "fs_at (dls_fs st) cs") fastforce+
  note snoc = books_right_snoc [OF books]
  show ?thesis
  proof (cases "?root = []")
    case True
    then show ?thesis
      using snoc [of ?st' f FsNoScanRoot] shr by (simp add: deleteFile_def Let_def)
  next
    case root: False
    show ?thesis
    proof (cases r)
      case (Inl e)
      then show ?thesis
        using snoc [of ?st' f "FsFailed e"] root res shr' fs_shrinks_trans [OF shr' shr] by (simp add: deleteFile_def Let_def)
    next
      case (Inr d)
      note reports = safeDeleteTarget_reports [OF env wf' res [unfolded Inr]]
      show ?thesis
        using snoc [of ?st' f FsDeleted] snoc [of ?st' f FsSkippedInUse] snoc [of ?st' f FsSkippedMissing] snoc [of ?st' f FsSkippedIgnored]
          root res Inr shr' fs_shrinks_trans [OF shr' shr] reports was
        by (cases d) (simp_all add: deleteFile_def Let_def)
    qed
  qed
qed

lemma deleteFiles_books:
  assumes "nfc_laws u" and "honest_env env" and "fs_wf fs" and "\<forall>g \<in> set igs. is_rooted g"
    and "fs_shrinks (dls_fs st) fs" and "books_right fs (dls_fs st) seen st"
    and "deleteFiles u env roots tfm igs canceled n files st = (n', st')"
  shows "\<exists>k \<le> length files. (k < length files \<longrightarrow> canceled (n + k)) \<and> books_right fs (dls_fs st') (seen @ take k files) st'"
  using assms(5-)
proof (induction files arbitrary: n st seen)
  case (Cons f files)
  show ?case
  proof (cases "canceled n")
    case False
    with Cons.prems have "deleteFiles u env roots tfm igs canceled (n + 1) files (deleteFile u env roots tfm igs f st) = (n', st')"
      by simp
    from Cons.IH [OF _ _ this] deleteFile_books [OF assms(1-4) Cons.prems(1,2)] obtain k where
      "k \<le> length files" "k < length files \<longrightarrow> canceled (n + 1 + k)" "books_right fs (dls_fs st') ((seen @ [f]) @ take k files) st'"
      by blast
    then show ?thesis
      by (intro exI [of _ "Suc k"]) simp
  qed (use Cons.prems in auto)
qed simp

section \<open>What the clean-up may remove\<close>

lemma climbDirs_terminates: "climbDirs u root igs dir cands \<noteq> None"
proof (induction "length dir" arbitrary: dir cands rule: less_induct)
  case less
  have stop: "climbDirs u root igs d cs \<noteq> None" if "d = dot \<or> d = ''/''" for d cs
    using that by (subst climbDirs.simps) simp
  have "climbDirs u root igs (path_dir dir) cs \<noteq> None" for cs
    using path_dir_shrinks [of dir] less stop by blast
  then show ?case
    by (subst climbDirs.simps) (simp add: Let_def)
qed

lemma climbDirs_sound:
  "plain_comps cs \<Longrightarrow> climbDirs u root igs (abs_path cs) cands = Some cands' \<Longrightarrow> d \<in> set cands' \<Longrightarrow>
    d \<in> set cands \<or> (\<exists>ds. d = abs_path ds \<and> ds \<noteq> [] \<and> prefix ds cs \<and> \<not> isIgnoredPath u d igs)"
proof (induction cs arbitrary: cands rule: rev_induct)
  case Nil
  then show ?case
    by (subst (asm) climbDirs.simps) (auto simp: abs_path_def split: if_splits)
next
  case (snoc c cs)
  let ?d = "abs_path (cs @ [c])"
  show ?case
  proof (cases "?d = root \<or> ?d = ''/'' \<or> isIgnoredPath u ?d igs")
    case True
    with snoc.prems show ?thesis
      by (subst (asm) climbDirs.simps) (auto simp: abs_path_ne_dot split: if_splits)
  next
    case False
    have ne: "abs_path cs \<noteq> ?d"
      using snoc.prems(1) abs_path_inject [of cs "cs @ [c]"] by simp
    from snoc.prems False ne have "climbDirs u root igs (abs_path cs) (gs_add ?d cands) = Some cands'"
      by (subst (asm) climbDirs.simps) (simp add: abs_path_ne_dot path_dir_abs_path Let_def)
    from snoc.IH [OF _ this snoc.prems(3)] snoc.prems(1) False show ?thesis
      by auto
  qed
qed

text \<open>A candidate: above a file that was asked for, not ignored, and a directory as far as it still exists.\<close>

definition candidate_dir :: "unicode_norm \<Rightarrow> string list \<Rightarrow> string list \<Rightarrow> fs_node \<Rightarrow> string \<Rightarrow> bool" where
  "candidate_dir u igs targets fs d \<longleftrightarrow>
     (\<exists>ds. d = abs_path ds \<and> plain_comps ds \<and> ds \<noteq> [] \<and> (\<exists>p \<in> set targets. strict_prefix ds (path_comps (path_clean p))) \<and>
        \<not> isIgnoredPath u d igs \<and> (\<forall>m. fs_at fs ds = Some m \<longrightarrow> is_dir m))"

lemma candidate_dir_shrinks:
  assumes "fs_shrinks fs' fs" and "candidate_dir u igs targets fs d"
  shows "candidate_dir u igs targets fs' d"
proof -
  obtain ds where "d = abs_path ds" "plain_comps ds" "ds \<noteq> []" "\<not> isIgnoredPath u d igs"
        "\<exists>p \<in> set targets. strict_prefix ds (path_comps (path_clean p))"
      and dirs: "\<And>m. fs_at fs ds = Some m \<Longrightarrow> is_dir m"
    using assms(2) by (auto simp: candidate_dir_def)
  moreover have "is_dir m'" if "fs_at fs' ds = Some m'" for m'
    using fs_shrinks_at [OF assms(1) that] dirs by (auto simp: same_kind_def split: if_splits)
  ultimately show ?thesis
    by (auto simp: candidate_dir_def)
qed

lemma collectDirs_sound:
  assumes p: "canonical p" "p \<in> set targets" and dirs: "parents_dirs fs (path_comps (path_clean p))"
    and res: "collectDirs u roots igs p cands = Some cands'" and d: "d \<in> set cands'"
  shows "d \<in> set cands \<or> candidate_dir u igs targets fs d"
proof (cases "findScanRoot u p roots = []")
  case True
  with res d show ?thesis
    by (simp add: collectDirs_def)
next
  case False
  obtain cs where cs: "p = abs_path cs" and plain: "plain_comps cs"
    using p(1) by (auto simp: canonical_def)
  have plain': "plain_comps (butlast cs)"
    using plain plain_comps_prefix prefixeq_butlast by blast
  have "climbDirs u (path_clean (findScanRoot u p roots)) igs (abs_path (butlast cs)) cands = Some cands'"
    using res False by (simp add: collectDirs_def Let_def cs path_dir_abs_path [OF plain] plain')
  from climbDirs_sound [OF plain' this d] show ?thesis
  proof
    assume "\<exists>ds. d = abs_path ds \<and> ds \<noteq> [] \<and> prefix ds (butlast cs) \<and> \<not> isIgnoredPath u d igs"
    then obtain ds where ds: "d = abs_path ds" "ds \<noteq> []" "prefix ds (butlast cs)" "\<not> isIgnoredPath u d igs"
      by blast
    then have "strict_prefix ds cs"
      by (cases "cs = []") (simp_all add: strict_prefix_butlast)
    moreover have "path_comps (path_clean p) = cs"
      using plain by (simp add: cs)
    moreover have "plain_comps ds"
      using ds(3) plain' plain_comps_prefix by blast
    ultimately show ?thesis
      using dirs ds(1,2,4) p(2) unfolding candidate_dir_def parents_dirs_def by metis
  qed simp
qed

lemma collectCandidateDirs_sound:
  assumes "\<forall>p \<in> set files. canonical p \<and> p \<in> set targets \<and> parents_dirs fs (path_comps (path_clean p))"
  shows "\<exists>dirs. collectCandidateDirsForCleanup u files roots igs = Some dirs \<and> (\<forall>d \<in> set dirs. candidate_dir u igs targets fs d)"
proof -
  have "\<exists>cands'. opt_fold (collectDirs u roots igs) files cands = Some cands' \<and>
      (\<forall>d \<in> set cands'. d \<in> set cands \<or> candidate_dir u igs targets fs d)" for cands
    using assms
  proof (induction files arbitrary: cands)
    case (Cons p files)
    obtain c1 where c1: "collectDirs u roots igs p cands = Some c1"
      using climbDirs_terminates by (fastforce simp: collectDirs_def Let_def)
    have "\<forall>d \<in> set c1. d \<in> set cands \<or> candidate_dir u igs targets fs d"
      using collectDirs_sound [OF _ _ _ c1] Cons.prems by simp
    with Cons.IH [of c1] Cons.prems c1 show ?case
      by fastforce
  qed simp
  from this [of "[]"] show ?thesis
    by (auto simp: collectCandidateDirsForCleanup_def)
qed

lemma safeDeleteEmptyDir_removes:
  assumes u: "nfc_laws u" and env: "honest_env env" and wf: "fs_wf fs" and igs: "\<forall>g \<in> set igs. is_rooted g"
    and cand: "candidate_dir u igs targets fs d" and res: "safeDeleteEmptyDir env root d fs = (r, fs')"
  shows "removes fs fs' (deletable u [root] tfm igs targets)"
proof (cases "fs' = fs")
  case False
  obtain ds where d: "d = abs_path ds" and plain: "plain_comps ds" and ne: "ds \<noteq> []"
      and ign: "\<not> isIgnoredPath u d igs" and dirs: "\<And>m. fs_at fs ds = Some m \<Longrightarrow> is_dir m"
      and asked: "\<exists>p \<in> set targets. strict_prefix ds (path_comps (path_clean p))"
    using cand by (auto simp: candidate_dir_def)
  have valid: "validateDeleteTarget root d = None"
    using res False by (auto simp: safeDeleteEmptyDir_def split: option.splits)
  have comps: "path_comps (path_clean d) = ds"
    using plain by (simp add: d)
  have phys: "os_phys env d = ds"
    using env comps by (simp add: honest_env_def d)
  have "\<exists>e. os_remove env fs d = (fs', e)"
    using res valid False by (auto simp: safeDeleteEmptyDir_def split: option.splits prod.splits)
  then obtain e where "os_remove env fs d = (fs', e)" ..
  from os_remove_removes [OF wf _ this] have rem: "removes fs fs' (\<lambda>cs m. cs = ds)"
    using ne by (simp add: phys)
  have "\<not> prefix (ncomps u g) (norm_comps u ds)" if "g \<in> set igs" "ncomps u g \<noteq> []" for g
    using ign that isIgnoredPath_iff [OF u _ igs, of d]
    by (auto simp: ncomps_def comps d plain strict_prefix_def)
  then have "deletable u [root] tfm igs targets ds m" if "fs_at fs ds = Some m" for m
    using that asked dirs validateDeleteTarget_None(2,3) [OF valid] by (simp add: deletable_def comps) blast
  then show ?thesis
    by (intro removes_mono_at [OF rem]) simp
qed simp

lemma cleanupDirs_removes:
  assumes u: "nfc_laws u" and env: "honest_env env" and wf0: "fs_wf fs0" and igs: "\<forall>g \<in> set igs. is_rooted g"
  shows "removes fs0 fs (deletable u roots tfm igs targets) \<Longrightarrow> \<forall>d \<in> set dirs. candidate_dir u igs targets fs d \<Longrightarrow>
    removes fs0 (fst (cleanupDirs u env roots canceled n dirs fs k)) (deletable u roots tfm igs targets)"
proof (induction dirs arbitrary: n fs k)
  case (Cons d dirs)
  show ?case
  proof (cases "canceled n \<or> findScanRoot u d roots = []")
    case True
    with Cons.prems show ?thesis
      using Cons.IH [of fs "n + 1" k] by (auto simp: Let_def)
  next
    case False
    obtain e fs1 where res: "safeDeleteEmptyDir env (findScanRoot u d roots) d fs = (e, fs1)"
      by fastforce
    have wf: "fs_wf fs"
      using Cons.prems(1) fs_shrinks_wf [OF removes_shrinks wf0] by blast
    have "removes fs fs1 (deletable u [findScanRoot u d roots] tfm igs targets)"
      using safeDeleteEmptyDir_removes [OF u env wf igs _ res] Cons.prems(2) by simp
    then have step: "removes fs fs1 (deletable u roots tfm igs targets)"
      using findScanRoot_mem [of u d roots] False by (elim removes_mono) (auto intro: deletable_mono)
    have "removes fs0 fs1 (deletable u roots tfm igs targets)"
      by (rule removes_trans [OF Cons.prems(1) step deletable_kind])
    moreover have "\<forall>d \<in> set dirs. candidate_dir u igs targets fs1 d"
      using Cons.prems(2) candidate_dir_shrinks [OF removes_shrinks [OF step]] by simp
    ultimately show ?thesis
      using Cons.IH [of fs1] False res by (simp add: Let_def)
  qed
qed simp

section \<open>Safety of a deletion\<close>

lemma deleteFile_paths: "set (dls_paths (deleteFile u env roots tfm igs f st)) \<subseteq> insert (of_FilePath f) (set (dls_paths st))"
  by (auto simp: deleteFile_def Let_def split: prod.splits sum.splits delete_disposition.splits)

lemma deleteFiles_paths:
  "set (dls_paths (snd (deleteFiles u env roots tfm igs canceled n files st))) \<subseteq> of_FilePath ` set files \<union> set (dls_paths st)"
proof (induction files arbitrary: n st)
  case (Cons f files)
  from Cons.IH [of "n + 1" "deleteFile u env roots tfm igs f st"] deleteFile_paths [of u env roots tfm igs f st]
  show ?case
    by auto
qed simp

lemma normalizeIgnorePaths_rooted: "normalizeIgnorePaths u ps = Inr qs \<Longrightarrow> list_all is_rooted ps"
  by (induction ps arbitrary: qs) (auto simp: Let_def is_rooted_path_clean split: if_splits sum.splits)

lemma runDeletion_removes:
  assumes u: "nfc_laws u" and env: "honest_env env" and wf: "fs_wf fs"
    and igs: "\<forall>g \<in> set (deletionIgnorePaths u settings). is_rooted g"
    and files: "\<forall>f \<in> set files. canonical (of_FilePath f)"
  shows "\<exists>outcome st fs'. runDeletion u env roots tfm settings canceled files fs = Some (outcome, st, fs') \<and>
    removes fs fs' (deletable u roots tfm (deletionIgnorePaths u settings) (map of_FilePath files)) \<and>
    (\<exists>k \<le> length files. (k < length files \<longrightarrow> canceled k) \<and> books_right fs fs' (take k files) st) \<and>
    (\<exists>folders. outcome = deletionOutcome st folders)"
proof -
  let ?igs = "deletionIgnorePaths u settings" and ?ts = "map of_FilePath files"
  let ?st0 = "\<lparr>dls_fs = fs, dls_statuses = [], dls_filesDeleted = 0, dls_bytes = 0, dls_paths = [], dls_failed = 0,
    dls_readOnly = False, dls_permission = False\<rparr>"
  obtain n st where st: "deleteFiles u env roots tfm ?igs canceled 0 files ?st0 = (n, st)"
    by fastforce
  have inv0: "deletion_inv u roots tfm ?igs ?ts fs ?st0"
    by (simp add: deletion_inv_def)
  have inv: "deletion_inv u roots tfm ?igs ?ts fs st"
    using deleteFiles_inv [OF u env wf igs _ inv0, of files canceled 0] st by simp
  have "\<forall>p \<in> set (dls_paths st). canonical p \<and> p \<in> set ?ts \<and> parents_dirs (dls_fs st) (path_comps (path_clean p))"
    using deleteFiles_paths [of u env roots tfm ?igs canceled 0 files ?st0] st inv files by (auto simp: deletion_inv_def)
  from collectCandidateDirs_sound [OF this, of u roots ?igs] obtain dirs where
    dirs: "collectCandidateDirsForCleanup u (dls_paths st) roots ?igs = Some dirs"
      "\<forall>d \<in> set dirs. candidate_dir u ?igs ?ts (dls_fs st) d"
    by blast
  obtain fs' k where c: "cleanupDirs u env roots canceled n dirs (dls_fs st) 0 = (fs', k)"
    by fastforce
  have rem: "removes fs (dls_fs st) (deletable u roots tfm ?igs ?ts)"
    using inv by (simp add: deletion_inv_def)
  have "removes (dls_fs st) fs' (deletable u roots tfm ?igs ?ts)"
    using cleanupDirs_removes [OF u env fs_shrinks_wf [OF removes_shrinks [OF rem] wf] igs removes_refl dirs(2), where roots = roots and tfm = tfm and canceled = canceled and n = n and k = 0] c
    by simp
  note later = books_right_later [OF removes_shrinks [OF this]] and all = removes_trans [OF rem this deletable_kind]
  have "books_right fs fs [] ?st0"
    by (simp add: books_right_def deleted_files_def wrap64_def)
  then obtain k where "k \<le> length files" "k < length files \<longrightarrow> canceled k" "books_right fs (dls_fs st) (take k files) st"
    using deleteFiles_books [OF u env wf igs, of ?st0 "[]", OF _ _ st] by auto
  with later all show ?thesis
    using st dirs(1) c by (auto simp: runDeletion_def)
qed

lemma ncomps_normalizePath:
  assumes "nfc_laws u" and "is_rooted p"
  shows "ncomps u (normalizePath u p) = ncomps u p"
  using assms plain_ncomps [OF assms] norm_comps_idem [OF assms(1)]
  by (simp add: ncomps_def normalizePath_rooted plain_norm_comps path_clean_abs_path(2))

lemma normalizeIgnorePaths_mem:
  "normalizeIgnorePaths u ps = Inr qs \<Longrightarrow> qs = map (\<lambda>p. normalizePath u (path_clean p)) ps"
  by (induction ps arbitrary: qs) (auto simp: Let_def split: if_splits sum.splits)

lemma deletionIgnorePaths_absolute:
  assumes "nfc_laws u" and "list_all is_rooted ps"
  shows "\<forall>g \<in> set (deletionIgnorePaths u (Some ps)). is_rooted g"
    and "g \<in> set ps \<Longrightarrow> \<exists>g' \<in> set (deletionIgnorePaths u (Some ps)). ncomps u g' = ncomps u g"
proof -
  have rooted: "is_rooted p" if "p \<in> set ps" for p
    using assms(2) that by (simp add: list_all_iff)
  show "\<forall>g \<in> set (deletionIgnorePaths u (Some ps)). is_rooted g"
    using rooted canonical_comps(3) [OF canonical_normalizePath [OF assms(1)]] normalizeIgnorePaths_mem
    by (force simp: deletionIgnorePaths_def split: sum.splits)
  show "\<exists>g' \<in> set (deletionIgnorePaths u (Some ps)). ncomps u g' = ncomps u g" if "g \<in> set ps"
  proof (cases "normalizeIgnorePaths u ps")
    case (Inl e)
    with that show ?thesis
      by (auto simp: deletionIgnorePaths_def)
  next
    case (Inr qs)
    then have "normalizePath u (path_clean g) \<in> set (deletionIgnorePaths u (Some ps))"
      using that normalizeIgnorePaths_mem [OF Inr] by (simp add: deletionIgnorePaths_def)
    moreover have "ncomps u (normalizePath u (path_clean g)) = ncomps u g"
      using ncomps_normalizePath [OF assms(1)] rooted [OF that] by simp
    ultimately show ?thesis
      by blast
  qed
qed

text \<open>The entry is a file of the run, lies in one, or is a folder that leads to one.\<close>

definition demanded :: "orphan_file list \<Rightarrow> string list \<Rightarrow> fs_node \<Rightarrow> bool" where
  "demanded files cs m \<longleftrightarrow>
     (\<exists>f \<in> set files. prefix (path_comps (path_clean (of_FilePath f))) cs \<or>
        is_dir m \<and> strict_prefix cs (path_comps (path_clean (of_FilePath f))))"

definition outcome_right :: "deletion_state \<Rightarrow> deletion_outcome \<Rightarrow> bool" where
  "outcome_right st outcome \<longleftrightarrow>
     (case outcome of
        RunFailed failed kind \<Rightarrow> dls_filesDeleted st = 0 \<and> failed > 0 \<and> failed = dls_failed st
      | RunCompleted deleted folders bytes warning \<Rightarrow>
          (dls_failed st > 0 \<longrightarrow> deleted > 0) \<and> deleted = dls_filesDeleted st \<and> bytes = dls_bytes st \<and>
          map_option fst warning = (if dls_failed st > 0 then Some (dls_failed st) else None))"

lemma deletionOutcome_right: "outcome_right st (deletionOutcome st folders)"
  by (auto simp: outcome_right_def deletionOutcome_def)

text \<open>
  C5. Carrying out a deletion returns and only removes entries. Every entry it removes lies
  strictly below a scan path of the run; is a file of the run, lies in one that is a directory, or is a folder that leads to one; is not a
  file in the fresh map of files in use --- in particular no file of a torrent of the instance whose client lists its files (a torrent
  that is skipped for want of a list of files is not covered, see \<open>deletion_forgets_skipped_roots\<close>) ---, and neither is an ignored directory
  of the settings nor lies below one (the root directory, which the code cannot ignore, apart). What is recorded is what happened: the files come to
  a status each, in order, up to the first one before which the run was cancelled; a file that is called deleted was there and is gone, one
  that is called missing is not there; the numbers of files deleted and failed and the bytes freed are those of the statuses; and the run
  counts as failed exactly when something failed and nothing was deleted.
\<close>

theorem executeDeletion_safe:
  assumes u: "nfc_laws u" and env: "honest_env env" and wf: "fs_wf fs"
    and igs: "list_all is_rooted ps" and files: "\<forall>f \<in> set files. canonical (of_FilePath f)"
  shows "\<exists>result fs'. executeDeletion u env now instanceID io insts (Some ps) scanPaths canceled files fs = Some (result, fs') \<and>
    fs_shrinks fs' fs \<and>
    (\<forall>cs m. fs_at fs cs = Some m \<and> fs_at fs' cs = None \<longrightarrow>
       (\<exists>root \<in> set scanPaths. is_rooted root \<and> strict_prefix (path_comps (path_clean root)) cs) \<and>
       demanded files cs m \<and>
       (\<exists>r. buildFileMap u now instanceID io insts = Some (Inr r) \<and>
          (\<not> is_dir m \<longrightarrow> \<not> tfm_has (fmr_fileMap r) (normalizePath u (abs_path cs)))) \<and>
       (\<forall>ts fbh t f. \<not> is_dir m \<and> iio_torrents io = Some ts \<and> iio_files io = Some fbh \<and> t \<in> set ts \<and>
          f \<in> set (filesOf fbh t) \<and> is_rooted (path_clean (sct_SavePath t)) \<longrightarrow>
          normalizePath u (abs_path cs) \<noteq> filePath u (path_clean (sct_SavePath t)) f) \<and>
       (\<forall>g \<in> set ps. list_all utf8_valid cs \<and> ncomps u g \<noteq> [] \<longrightarrow> \<not> prefix (ncomps u g) (norm_comps u cs))) \<and>
    (\<forall>outcome st. result = DeletionDone outcome st \<longrightarrow> outcome_right st outcome \<and>
       (\<exists>k \<le> length files. (k < length files \<longrightarrow> canceled k) \<and> books_right fs fs' (take k files) st))"
proof -
  obtain x where x: "buildFileMap u now instanceID io insts = Some x"
      and cov: "\<And>r. x = Inr r \<Longrightarrow> instanceCovered u io r"
    using buildFileMap_result [OF u, of now instanceID io insts] by blast
  show ?thesis
  proof (cases x)
    case (Inl e)
    with x show ?thesis
      by (intro exI [of _ "MapFailed e"] exI [of _ fs]) (simp add: executeDeletion_def)
  next
    case (Inr r)
    let ?igs = "deletionIgnorePaths u (Some ps)"
    obtain outcome st fs' where run: "runDeletion u env scanPaths (fmr_fileMap r) (Some ps) canceled files fs = Some (outcome, st, fs')"
        and rem: "removes fs fs' (deletable u scanPaths (fmr_fileMap r) ?igs (map of_FilePath files))"
        and books: "\<exists>k \<le> length files. (k < length files \<longrightarrow> canceled k) \<and> books_right fs fs' (take k files) st"
        and outcome: "outcome_right st outcome"
      using runDeletion_removes [OF u env wf deletionIgnorePaths_absolute(1) [OF u igs] files, where roots = scanPaths and tfm = "fmr_fileMap r" and canceled = canceled] deletionOutcome_right
      by (elim exE conjE) blast
    have exec: "executeDeletion u env now instanceID io insts (Some ps) scanPaths canceled files fs =
        Some (DeletionDone outcome st, fs')"
      using x Inr run by (simp add: executeDeletion_def)
    have seeded: "tfm_has (fmr_fileMap r) (filePath u (path_clean (sct_SavePath t)) f)"
      if "iio_torrents io = Some ts" "iio_files io = Some fbh" "t \<in> set ts" "f \<in> set (filesOf fbh t)"
        "is_rooted (path_clean (sct_SavePath t))" for ts fbh t f
      using cov [OF Inr] that by (auto simp: instanceCovered_def coversTorrent_def Let_def split: if_splits)
    have safe: "deletable u scanPaths (fmr_fileMap r) ?igs (map of_FilePath files) cs m" if "fs_at fs cs = Some m" "fs_at fs' cs = None" for cs m
      using removesD [OF rem that] .
    show ?thesis
    proof (intro exI [of _ "DeletionDone outcome st"] exI [of _ fs'] conjI allI impI exec removes_shrinks [OF rem])
      fix cs m assume gone: "fs_at fs cs = Some m \<and> fs_at fs' cs = None"
      note d = safe [OF conjunct1 [OF gone] conjunct2 [OF gone]]
      show "\<exists>root \<in> set scanPaths. is_rooted root \<and> strict_prefix (path_comps (path_clean root)) cs"
        using d by (simp add: deletable_def)
      show "demanded files cs m"
        using d by (auto simp: deletable_def demanded_def)
      show "\<exists>r. buildFileMap u now instanceID io insts = Some (Inr r) \<and>
          (\<not> is_dir m \<longrightarrow> \<not> tfm_has (fmr_fileMap r) (normalizePath u (abs_path cs)))"
        using d x Inr by (simp add: deletable_def)
      show "\<forall>g \<in> set ps. list_all utf8_valid cs \<and> ncomps u g \<noteq> [] \<longrightarrow> \<not> prefix (ncomps u g) (norm_comps u cs)"
        using d deletionIgnorePaths_absolute(2) [OF u igs] by (fastforce simp: deletable_def)
    next
      fix cs m ts fbh t f
      assume gone: "fs_at fs cs = Some m \<and> fs_at fs' cs = None"
        and t: "\<not> is_dir m \<and> iio_torrents io = Some ts \<and> iio_files io = Some fbh \<and> t \<in> set ts \<and>
          f \<in> set (filesOf fbh t) \<and> is_rooted (path_clean (sct_SavePath t))"
      then show "normalizePath u (abs_path cs) \<noteq> filePath u (path_clean (sct_SavePath t)) f"
        using safe [of cs m] seeded by (metis deletable_def)
    qed (use books outcome in auto)
  qed
qed

section \<open>A concrete run\<close>

definition demo_env :: fs_env where
  "demo_env = \<lparr>os_phys = (\<lambda>p. path_comps (path_clean p)), os_lstat_err = (\<lambda>p. None), os_info_err = (\<lambda>p. False),
     os_read_err = (\<lambda>p. None), os_stuck = (\<lambda>cs. None), os_rest_err = (\<lambda>p. OtherError)\<rparr>"

lemma honest_demo_env: "honest_env demo_env"
  by (simp add: honest_env_def demo_env_def)

definition demo_file :: fs_node where
  "demo_file = FFile \<lparr>m_size = 7, m_time = 1, m_inode = (1, 1), m_nlink = 1\<rparr>"

definition demo_fs :: fs_node where
  "demo_fs = FDir [(''data'', FDir
     [(''new'', FDir [(''y.mkv'', demo_file)]),
      (''tv'', FDir [(''old'', FDir [(''a.nfo'', demo_file)]), (''show'', FDir [(''e1.mkv'', demo_file)])])])]"

text \<open>Nothing is listed twice, and only \<open>/data/keep\<close> is ignored.\<close>

definition demo_deletion :: "string list \<Rightarrow> (deletion_result \<times> fs_node) option" where
  "demo_deletion paths =
     executeDeletion ascii_norm demo_env 5 1 demo_io (Some [demo_other]) (Some [''/data/keep'']) [''/data/tv'', ''/data'']
       (\<lambda>n. False) (map (\<lambda>p. \<lparr>of_ID = 1, of_FilePath = p, of_FileSize = 7\<rparr>) paths) demo_fs"

theorem executeDeletion_safe_witness:
  "\<exists>result fs'. demo_deletion [''/data/tv/old/a.nfo'', ''/data/tv/show/e1.mkv''] = Some (result, fs') \<and>
     fs_at fs' [''data'', ''tv'', ''old''] = None \<and> fs_at fs' [''data'', ''tv'', ''show'', ''e1.mkv''] \<noteq> None \<and>
     fs_shrinks fs' demo_fs"
proof -
  let ?files = "map (\<lambda>p. \<lparr>of_ID = 1, of_FilePath = p, of_FileSize = 7\<rparr>) [''/data/tv/old/a.nfo'', ''/data/tv/show/e1.mkv'']"
  have wf: "fs_wf demo_fs" and igs: "list_all is_rooted [''/data/keep'']"
    by code_simp+
  have "canonical (abs_path [''data'', ''tv'', ''old'', ''a.nfo''])" and "canonical (abs_path [''data'', ''tv'', ''show'', ''e1.mkv''])"
    by (rule canonical_abs_path, code_simp)+
  then have files: "\<forall>f \<in> set ?files. canonical (of_FilePath f)"
    by (simp add: abs_path_def)
  obtain result fs' where run: "demo_deletion [''/data/tv/old/a.nfo'', ''/data/tv/show/e1.mkv''] = Some (result, fs')"
      and shr: "fs_shrinks fs' demo_fs"
    unfolding demo_deletion_def
    using executeDeletion_safe [OF nfc_laws_ascii honest_demo_env wf igs files, of 5 1 demo_io "Some [demo_other]"
        "[''/data/tv'', ''/data'']" "\<lambda>n. False"] by blast
  have "case demo_deletion [''/data/tv/old/a.nfo'', ''/data/tv/show/e1.mkv''] of
      Some (result, fs') \<Rightarrow> fs_at fs' [''data'', ''tv'', ''old''] = None \<and> fs_at fs' [''data'', ''tv'', ''show'', ''e1.mkv''] \<noteq> None
    | None \<Rightarrow> False"
    by code_simp
  with run shr show ?thesis
    by simp
qed

text \<open>
  What the guarantee does not cover: a torrent whose client is still checking it and does not list its
  files. The scan ignores its save path; the fresh map of the deletion reports the path as skipped too,
  but the deletion does not look at it, and a file of that torrent is removed.
\<close>

lemma deletion_forgets_skipped_roots:
  "case buildFileMap ascii_norm 5 1 demo_io (Some [demo_other]) of
     Some (Inr r) \<Rightarrow> fmr_skippedRoots r = [''/data/new'']
   | _ \<Rightarrow> False"
  "case demo_deletion [''/data/new/y.mkv''] of
     Some (result, fs') \<Rightarrow> fs_at demo_fs [''data'', ''new'', ''y.mkv''] \<noteq> None \<and> fs_at fs' [''data'', ''new'', ''y.mkv''] = None
   | None \<Rightarrow> False"
  by code_simp+

text \<open>An ignore path that names the root directory protects nothing.\<close>

lemma root_is_never_ignored: "\<not> isIgnoredPath ascii_norm ''/data/x.mkv'' [''/'']"
  by code_simp

end
