(* ===== verification/Orphan_Walk.thy ===== *)
theory Orphan_Walk
  imports Orphan_Delete
begin

text \<open>
  The scan for orphans (\<open>walker.go\<close> in \<open>src/internal/services/orphanscan\<close>): a walk of a scan root that
  collects what belongs to no torrent. Files below a disc layout (\<open>BDMV\<close>, \<open>VIDEO_TS\<close>) are grouped into
  one unit, the disc folder. Times are nanoseconds; the walker reads the file system twice, in the walk
  and to look into the parent of a disc.
\<close>

section \<open>Names that are left alone\<close>

definition discLayoutMarkers :: "string list" where
  "discLayoutMarkers = [''BDMV'', ''VIDEO_TS'']"

definition ignoredOrphanFileNames :: "string list" where
  "ignoredOrphanFileNames = [''.DS_Store'', ''.directory'', ''desktop.ini'', ''Thumbs.db'']"

definition ignoredOrphanFileNamePrefixes :: "string list" where
  "ignoredOrphanFileNamePrefixes = [''.fuse'', ''.goutputstream-'', ''.nfs'', ''._'', ''.#'', ''~$'']"

definition ignoredOrphanFileNameSuffixes :: "string list" where
  "ignoredOrphanFileNameSuffixes = [''.parts'', ''.!qB'']"

definition ignoredOrphanDirNames :: "string list" where
  "ignoredOrphanDirNames =
     [''.AppleDB'', ''.AppleDouble'', ''.TemporaryItems'', ''.Trashes'', ''.Recycle.Bin'', ''.recycle'', ''.snapshot'',
      ''.snapshots'', ''.zfs'', ''@eaDir'', ''$RECYCLE.BIN'', ''#recycle'', ''lost+found'', ''System Volume Information'']"

definition ignoredOrphanDirNamePrefixes :: "string list" where
  "ignoredOrphanDirNamePrefixes = [''.Trash-'', ''..'']"

definition hasPrefixFold :: "string \<Rightarrow> string \<Rightarrow> bool" where
  "hasPrefixFold s pre \<longleftrightarrow> length pre \<le> length s \<and> equal_fold (take (length pre) s) pre"

definition hasSuffixFold :: "string \<Rightarrow> string \<Rightarrow> bool" where
  "hasSuffixFold s suf \<longleftrightarrow> length suf \<le> length s \<and> equal_fold (drop (length s - length suf) s) suf"

definition isIgnoredOrphanFileName :: "string \<Rightarrow> bool" where
  "isIgnoredOrphanFileName name \<longleftrightarrow>
     list_ex (equal_fold name) ignoredOrphanFileNames \<or>
     list_ex (hasPrefixFold name) ignoredOrphanFileNamePrefixes \<or>
     list_ex (hasSuffixFold name) ignoredOrphanFileNameSuffixes"

definition isIgnoredOrphanDirName :: "string \<Rightarrow> bool" where
  "isIgnoredOrphanDirName name \<longleftrightarrow>
     list_ex (equal_fold name) ignoredOrphanDirNames \<or> list_ex (hasPrefixFold name) ignoredOrphanDirNamePrefixes"

section \<open>Disc units\<close>

record disc_decision =
  dd_chosenUnit :: string
  dd_disableGrouping :: bool

text \<open>\<open>findDiscMarker\<close>: index, segment as on disk, segment in upper case.\<close>

fun findDiscMarker :: "nat \<Rightarrow> string list \<Rightarrow> (nat \<times> string \<times> string) option" where
  "findDiscMarker i [] = None"
| "findDiscMarker i (seg # segs) =
     (if to_upper seg \<in> set discLayoutMarkers then Some (i, seg, to_upper seg) else findDiscMarker (i + 1) segs)"

definition buildDiscCandidatePaths :: "string \<Rightarrow> string list \<Rightarrow> nat \<Rightarrow> string \<Rightarrow> string \<times> string" where
  "buildDiscCandidatePaths root segments markerIndex markerSegment =
     (let joined = path_join (take markerIndex segments);
          atRoot = (markerIndex = 0 \<or> joined = dot \<or> joined = []);
          unitRel = (if atRoot then markerSegment else joined);
          markerRel = (if atRoot then markerSegment else path_join [unitRel, markerSegment])
      in (path_clean (path_join [root, unitRel]), path_clean (path_join [root, markerRel])))"

definition discRootAllowedFiles :: "string list" where
  "discRootAllowedFiles = [''DESKTOP.INI'', ''THUMBS.DB'', ''.DS_STORE'']"

definition discAllowedDirs :: "string \<Rightarrow> string list" where
  "discAllowedDirs marker =
     (let m = to_upper marker in
      if m = ''BDMV'' then [''BDMV'', ''CERTIFICATE'']
      else if m = ''VIDEO_TS'' then [''VIDEO_TS'', ''AUDIO_TS'']
      else [m])"

definition discParentIsPureDiscRoot :: "fs_env \<Rightarrow> fs_node \<Rightarrow> string \<Rightarrow> string \<Rightarrow> bool" where
  "discParentIsPureDiscRoot env fs parentAbs marker =
     (case os_read_dir env fs parentAbs of
        Inl e \<Rightarrow> False
      | Inr entries \<Rightarrow>
          list_all (\<lambda>(name, n). if is_dir n then to_upper name \<in> set (discAllowedDirs marker)
            else to_upper name \<in> set discRootAllowedFiles) entries)"

definition discParentIsSafeDiscRoot ::
  "unicode_norm \<Rightarrow> fs_env \<Rightarrow> fs_node \<Rightarrow> string \<Rightarrow> string \<Rightarrow> torrent_file_map option \<Rightarrow> bool" where
  "discParentIsSafeDiscRoot u env fs parentAbs marker tfm =
     (case tfm of
        None \<Rightarrow> discParentIsPureDiscRoot env fs parentAbs marker
      | Some m \<Rightarrow>
          (case os_read_dir env fs parentAbs of
             Inl e \<Rightarrow> False
           | Inr entries \<Rightarrow>
               list_all (\<lambda>(name, n).
                 let full = normalizePath u (path_join [parentAbs, name]) in
                 if is_dir n then to_upper name \<in> set (discAllowedDirs marker) \<or> \<not> tfm_hasAnyInDir m full
                 else to_upper name \<in> set discRootAllowedFiles \<or> \<not> tfm_has m full) entries))"

definition chooseDiscUnit ::
  "unicode_norm \<Rightarrow> fs_env \<Rightarrow> fs_node \<Rightarrow> string \<Rightarrow> string \<Rightarrow> string \<Rightarrow> torrent_file_map option \<Rightarrow> string list \<Rightarrow> disc_decision" where
  "chooseDiscUnit u env fs candidateAbs markerAbs markerUpper tfm ignorePaths =
     (let parentProtected = (ignorePaths \<noteq> [] \<and> isPathProtectedByIgnorePaths u candidateAbs ignorePaths);
          markerProtected = (ignorePaths \<noteq> [] \<and> isPathProtectedByIgnorePaths u markerAbs ignorePaths)
      in if parentProtected \<and> markerProtected then \<lparr>dd_chosenUnit = [], dd_disableGrouping = True\<rparr>
         else if parentProtected then \<lparr>dd_chosenUnit = markerAbs, dd_disableGrouping = False\<rparr>
         else if markerProtected then \<lparr>dd_chosenUnit = [], dd_disableGrouping = True\<rparr>
         else if discParentIsSafeDiscRoot u env fs candidateAbs markerUpper tfm
           then \<lparr>dd_chosenUnit = candidateAbs, dd_disableGrouping = False\<rparr>
         else \<lparr>dd_chosenUnit = markerAbs, dd_disableGrouping = False\<rparr>)"

definition discRelativeSegments :: "string \<Rightarrow> string \<Rightarrow> string list option" where
  "discRelativeSegments root path =
     (case path_rel root path of
        None \<Rightarrow> None
      | Some rel \<Rightarrow>
          if has_prefix rel ''..'' then None
          else let relDir = path_dir rel in
            if relDir = dot then None else Some (split_on (CHR ''/'') relDir))"

type_synonym disc_cache = "(string, disc_decision) gomap"

definition discUnitFromParentMarker ::
  "unicode_norm \<Rightarrow> fs_env \<Rightarrow> fs_node \<Rightarrow> string \<Rightarrow> string \<Rightarrow> string \<Rightarrow> string \<Rightarrow> torrent_file_map option \<Rightarrow> string list \<Rightarrow>
    disc_cache \<Rightarrow> (string \<times> bool) \<times> disc_cache" where
  "discUnitFromParentMarker u env fs originalPath candidateAbs markerAbs markerUpper tfm ignorePaths cache =
     (let key = normalizePath u candidateAbs @ ''|'' @ markerUpper;
          answer = (\<lambda>d. if dd_disableGrouping d then (originalPath, False) else (dd_chosenUnit d, True))
      in case gm_get cache key of
           Some d \<Rightarrow> (answer d, cache)
         | None \<Rightarrow>
             let d = chooseDiscUnit u env fs candidateAbs markerAbs markerUpper tfm ignorePaths
             in (answer d, gm_put key d cache))"

text \<open>The unit of a file, and whether it is a disc.\<close>

definition discOrphanUnit ::
  "unicode_norm \<Rightarrow> fs_env \<Rightarrow> fs_node \<Rightarrow> string \<Rightarrow> string \<Rightarrow> torrent_file_map option \<Rightarrow> string list \<Rightarrow>
    disc_cache \<Rightarrow> (string \<times> bool) \<times> disc_cache" where
  "discOrphanUnit u env fs scanRoot file tfm ignorePaths cache =
     (let root = path_clean scanRoot; path = path_clean file in
      case discRelativeSegments root path of
        None \<Rightarrow> ((path, False), cache)
      | Some segments \<Rightarrow>
          (case findDiscMarker 0 segments of
             None \<Rightarrow> ((path, False), cache)
           | Some (markerIndex, markerSegment, markerUpper) \<Rightarrow>
               (case buildDiscCandidatePaths root segments markerIndex markerSegment of
                  (candidateAbs, markerAbs) \<Rightarrow>
                    if candidateAbs = root then ((markerAbs, True), cache)
                    else if markerIndex > 0 then
                      discUnitFromParentMarker u env fs path candidateAbs markerAbs markerUpper tfm ignorePaths cache
                    else if ignorePaths \<noteq> [] \<and> isPathProtectedByIgnorePaths u markerAbs ignorePaths
                    then ((path, False), cache)
                    else ((markerAbs, True), cache))))"

section \<open>The walker\<close>

record orphan_entry =
  oe_Path :: string
  oe_Size :: int
  oe_ModifiedAt :: "int option"

record scan_config =
  scf_root :: string
  scf_tfm :: torrent_file_map
  scf_ignore :: "string list"
  scf_grace :: int
  scf_maxFiles :: int
  scf_filter :: "(string \<Rightarrow> bool \<Rightarrow> bool) option"
  scf_now :: int
  scf_canceled :: "nat \<Rightarrow> bool"

record scan_state =
  sw_orphans :: "(string, orphan_entry) gomap"
  sw_inUse :: "string goset"
  sw_cache :: disc_cache
  sw_discPaths :: "string goset"
  sw_inodes :: "(nat \<times> nat) goset"
  sw_truncated :: bool
  sw_calls :: nat

definition newScanState :: scan_state where
  "newScanState = \<lparr>sw_orphans = [], sw_inUse = [], sw_cache = [], sw_discPaths = [], sw_inodes = [],
     sw_truncated = False, sw_calls = 0\<rparr>"

datatype scan_walk_error = WalkCanceled | WalkOs os_error

text \<open>A file with several links is never a duplicate; the first sight of an inode is remembered.\<close>

definition shouldSkipDuplicate :: "file_meta \<Rightarrow> scan_state \<Rightarrow> bool \<times> scan_state" where
  "shouldSkipDuplicate info st =
     (if m_nlink info > 1 then (False, st)
      else if m_inode info \<in> set (sw_inodes st) then (True, st)
      else (False, st\<lparr>sw_inodes := gs_add (m_inode info) (sw_inodes st)\<rparr>))"

definition markInUse :: "string \<Rightarrow> bool \<Rightarrow> scan_state \<Rightarrow> scan_state" where
  "markInUse unitPath isDiscUnit st =
     (if \<not> isDiscUnit then st
      else st\<lparr>sw_inUse := gs_add unitPath (sw_inUse st), sw_orphans := gm_del unitPath (sw_orphans st)\<rparr>)"

definition laterTime :: "int \<Rightarrow> int option \<Rightarrow> int option" where
  "laterTime t old = (case old of None \<Rightarrow> Some t | Some o' \<Rightarrow> if t > o' then Some t else Some o')"

definition addOrUpdateUnit :: "int \<Rightarrow> string \<Rightarrow> file_meta \<Rightarrow> scan_state \<Rightarrow> scan_walk_error walk_result \<times> scan_state" where
  "addOrUpdateUnit maxFiles unitPath info st =
     (let add = (\<lambda>e. (WalkOk, st\<lparr>sw_orphans := gm_put unitPath
            (e\<lparr>oe_Size := wrap64 (oe_Size e + m_size info), oe_ModifiedAt := laterTime (m_time info) (oe_ModifiedAt e)\<rparr>)
            (sw_orphans st)\<rparr>))
      in case gm_get (sw_orphans st) unitPath of
           Some e \<Rightarrow> add e
         | None \<Rightarrow>
             if maxFiles > 0 \<and> int (length (sw_orphans st)) \<ge> maxFiles then (SkipAll, st\<lparr>sw_truncated := True\<rparr>)
             else add \<lparr>oe_Path = unitPath, oe_Size = 0, oe_ModifiedAt = None\<rparr>)"

definition handleDir :: "unicode_norm \<Rightarrow> scan_config \<Rightarrow> string \<Rightarrow> string \<Rightarrow> scan_walk_error walk_result" where
  "handleDir u cfg path name =
     (if isIgnoredPath u path (scf_ignore cfg) \<or> isIgnoredOrphanDirName name then SkipDir else WalkOk)"

definition handleFile ::
  "unicode_norm \<Rightarrow> fs_env \<Rightarrow> fs_node \<Rightarrow> scan_config \<Rightarrow> string \<Rightarrow> string \<Rightarrow> file_meta \<Rightarrow> scan_state \<Rightarrow>
    scan_walk_error walk_result \<times> scan_state" where
  "handleFile u env fs cfg path name info st0 =
     (if isIgnoredPath u path (scf_ignore cfg) then (WalkOk, st0)
      else case discOrphanUnit u env fs (scf_root cfg) path (Some (scf_tfm cfg)) (scf_ignore cfg) (sw_cache st0) of
        ((unitPath, isDiscUnit), cache) \<Rightarrow>
          let st = st0\<lparr>sw_cache := cache\<rparr> in
          if tfm_has (scf_tfm cfg) (normalizePath u path) then
            let st1 = markInUse unitPath isDiscUnit st in
            (WalkOk, if os_info_err env path then st1 else snd (shouldSkipDuplicate info st1))
          else if isIgnoredOrphanFileName name then (WalkOk, st)
          else if os_info_err env path then (WalkOk, st)
          else if scf_now cfg - m_time info < scf_grace cfg then (WalkOk, st)
          else case shouldSkipDuplicate info st of
            (True, st1) \<Rightarrow> (WalkOk, st1)
          | (False, st1) \<Rightarrow>
              if isDiscUnit \<and> unitPath \<in> set (sw_inUse st1) then (WalkOk, st1)
              else let st2 = (if isDiscUnit then st1\<lparr>sw_discPaths := gs_add unitPath (sw_discPaths st1)\<rparr> else st1) in
                if (case scf_filter cfg of None \<Rightarrow> False | Some keep \<Rightarrow> \<not> keep unitPath isDiscUnit) then (WalkOk, st2)
                else addOrUpdateUnit (scf_maxFiles cfg) unitPath info st2)"

definition walkStep :: "unicode_norm \<Rightarrow> fs_env \<Rightarrow> fs_node \<Rightarrow> scan_config \<Rightarrow> (scan_walk_error, scan_state) walk_fn" where
  "walkStep u env fs cfg path d walkErr st0 =
     (let st = st0\<lparr>sw_calls := sw_calls st0 + 1\<rparr> in
      if scf_canceled cfg (sw_calls st0) then (WalkErr WalkCanceled, st)
      else case walkErr of
        Some e \<Rightarrow> (if e = Permission then WalkOk else WalkErr (WalkOs e), st)
      | None \<Rightarrow>
          (case d of
             None \<Rightarrow> (WalkOk, st)
           | Some (name, FLink info) \<Rightarrow> (WalkOk, st)
           | Some (name, FDir es) \<Rightarrow> (handleDir u cfg path name, st)
           | Some (name, FFile info) \<Rightarrow> handleFile u env fs cfg path name info st))"

section \<open>Merging what lies in a disc\<close>

definition containingDiscUnit :: "string \<Rightarrow> (string, string) gomap \<Rightarrow> string option" where
  "containingDiscUnit normUnit discRoots =
     map_option snd (List.find (\<lambda>(normDisc, du). normUnit \<noteq> normDisc \<and> isPathUnderNormalized normUnit normDisc) discRoots)"

definition mergeIntoDiscUnit :: "string \<Rightarrow> string \<Rightarrow> orphan_entry \<Rightarrow> (string, orphan_entry) gomap \<Rightarrow> (string, orphan_entry) gomap" where
  "mergeIntoDiscUnit unit_path discUnitPath entry orphans =
     gm_del unit_path
       (case gm_get orphans discUnitPath of
          None \<Rightarrow> orphans
        | Some d \<Rightarrow>
            gm_put discUnitPath
              (d\<lparr>oe_Size := wrap64 (oe_Size d + oe_Size entry),
                 oe_ModifiedAt := (case oe_ModifiedAt entry of None \<Rightarrow> oe_ModifiedAt d | Some t \<Rightarrow> laterTime t (oe_ModifiedAt d))\<rparr>)
              orphans)"

text \<open>The loop visits the units it started with, except those it removed before it came to them.\<close>

definition mergeSuppressedUnits :: "unicode_norm \<Rightarrow> scan_state \<Rightarrow> (string, orphan_entry) gomap" where
  "mergeSuppressedUnits u st =
     (if sw_discPaths st = [] then sw_orphans st
      else
        let discRoots = fold (\<lambda>du m. gm_put (normalizePath u du) du m) (sw_discPaths st) [] in
        fold (\<lambda>unit_path orphans.
          case gm_get orphans unit_path of
            None \<Rightarrow> orphans
          | Some entry \<Rightarrow>
              (case containingDiscUnit (normalizePath u unit_path) discRoots of
                 None \<Rightarrow> orphans
               | Some du \<Rightarrow> mergeIntoDiscUnit unit_path du entry orphans)) (map fst (sw_orphans st)) (sw_orphans st))"

definition orphansOf :: "unicode_norm \<Rightarrow> scan_state \<Rightarrow> orphan_entry list" where
  "orphansOf u st = map snd (mergeSuppressedUnits u st)"

definition walkScanRoot ::
  "unicode_norm \<Rightarrow> fs_env \<Rightarrow> fs_node \<Rightarrow> scan_config \<Rightarrow> orphan_entry list \<times> bool \<times> scan_walk_error option" where
  "walkScanRoot u env fs cfg =
     (case walk_dir env fs (walkStep u env fs cfg) (scf_root cfg) newScanState of
        (r, st) \<Rightarrow> (orphansOf u st, sw_truncated st, (case r of WalkErr e \<Rightarrow> Some e | _ \<Rightarrow> None)))"

section \<open>Across roots\<close>

definition dedupeStep :: "unicode_norm \<Rightarrow> orphan_entry \<Rightarrow> (string, orphan_entry) gomap \<Rightarrow> (string, orphan_entry) gomap" where
  "dedupeStep u o' byPath =
     (let key = normalizePath u (oe_Path o') in
      case gm_get byPath key of
        None \<Rightarrow> gm_put key o' byPath
      | Some e \<Rightarrow>
          gm_put key
            (e\<lparr>oe_Size := (if oe_Size o' > oe_Size e then oe_Size o' else oe_Size e),
               oe_ModifiedAt := (case oe_ModifiedAt o' of None \<Rightarrow> oe_ModifiedAt e | Some t \<Rightarrow> laterTime t (oe_ModifiedAt e))\<rparr>)
            byPath)"

definition dedupeOrphans :: "unicode_norm \<Rightarrow> orphan_entry list \<Rightarrow> orphan_entry list" where
  "dedupeOrphans u os = (if length os \<le> 1 then os else map snd (fold (dedupeStep u) os []))"

section \<open>Where units lie\<close>

lemma findDiscMarker_at:
  "findDiscMarker k segs = Some (i, seg, up) \<Longrightarrow>
    k \<le> i \<and> i - k < length segs \<and> seg = segs ! (i - k) \<and> up = to_upper seg \<and> up \<in> set discLayoutMarkers"
  by (induction k segs rule: findDiscMarker.induct) (auto split: if_splits simp: nth_Cons')

lemma path_join_plain: "plain_comps cs \<Longrightarrow> cs \<noteq> [] \<Longrightarrow> path_join cs = join_with ''/'' cs"
  by (cases cs) (auto simp: path_join_def plain_comp_def path_clean_plain path_comps_join plain_comps_iff hd_join_plain)

lemma path_join_abs_rel:
  assumes "plain_comps rs" and "plain_comps cs" and "cs \<noteq> []"
  shows "path_join [abs_path rs, join_with ''/'' cs] = abs_path (rs @ cs)"
proof -
  have "path_comps (path_join [abs_path rs, join_with ''/'' cs]) = rs @ cs"
    using join_plain_comps [of "abs_path rs" "join_with ''/'' cs"] assms path_comps_join [of cs]
    by (simp add: clean_abs_def plain_comps_iff)
  moreover have "canonical (path_join [abs_path rs, join_with ''/'' cs])"
    using path_join_rooted [of "abs_path rs"] path_clean_canonical by simp
  ultimately show ?thesis
    using canonical_comps(1) by metis
qed

lemma discRelativeSegments_comps:
  assumes rooted: "is_rooted path" and segs: "discRelativeSegments (abs_path rs) path = Some segs" and rs: "plain_comps rs"
    and clean: "path_clean path = path"
  shows "\<exists>c. path_comps path = rs @ segs @ [c] \<and> segs \<noteq> [] \<and> plain_comps (segs @ [c])"
proof -
  obtain r where r: "path_rel (abs_path rs) path = Some r" and nodd: "\<not> has_prefix r ''..''"
      and dir: "path_dir r \<noteq> dot" and split: "segs = split_on (CHR ''/'') (path_dir r)"
    using segs by (auto simp: discRelativeSegments_def Let_def split: option.splits if_splits)
  have "path_clean path \<noteq> path_clean (abs_path rs)"
  proof
    assume "path_clean path = path_clean (abs_path rs)"
    then have "r = dot"
      using r by (simp add: path_rel_def Let_def)
    with dir show False
      by (simp add: path_dir_def dot_def path_clean_def clean_comps_def clean_step_def)
  qed
  from path_rel_comps [OF r nodd rooted this] obtain ts where
    ts: "ts \<noteq> []" "r = join_with ''/'' ts" "path_comps path = rs @ ts" "plain_comps ts"
    using rs clean by auto
  then obtain us c where us: "ts = us @ [c]"
    by (metis rev_exhaust)
  with ts dir path_dir_join [of us c] have "us \<noteq> []" and d: "path_dir r = join_with ''/'' us"
    by (auto split: if_splits)
  then have "segs = us"
    using split ts(4) us split_on_join [of us "CHR ''/''"] by (auto simp: plain_comps_iff plain_comp_def)
  with ts us \<open>us \<noteq> []\<close> show ?thesis
    by auto
qed

lemma path_join_rel:
  assumes "plain_comps us" and "us \<noteq> []" and "plain_comp c"
  shows "path_join [join_with ''/'' us, c] = join_with ''/'' (us @ [c])"
proof -
  let ?j = "join_with ''/'' us"
  have ne: "?j \<noteq> []"
    using join_with_Nil_iff assms by blast
  have "path_comps (?j @ ''/'' @ c) = us @ [c]"
    using path_comps_append [of ?j c] path_comps_join [of us] path_comps_join [of "[c]"] assms by (simp add: plain_comps_iff)
  moreover have "\<not> is_rooted (?j @ ''/'' @ c)"
    using hd_join_plain [OF assms(1)] ne by (cases ?j) auto
  ultimately have "path_clean (?j @ ''/'' @ c) = join_with ''/'' (us @ [c])"
    using path_clean_plain [of "us @ [c]"] assms by simp
  with ne show ?thesis
    by (simp add: path_join_def)
qed

text \<open>Candidate and marker are the folders above the file that the marker's index names.\<close>

lemma buildDiscCandidatePaths_comps:
  assumes "plain_comps rs" and "plain_comps segs" and "i < length segs"
  shows "buildDiscCandidatePaths (abs_path rs) segs i (segs ! i) =
    (abs_path (rs @ take (max 1 i) segs), abs_path (rs @ take (i + 1) segs))"
proof -
  have seg: "plain_comp (segs ! i)" and take_ok: "plain_comps (take n segs)" for n
    using assms(2,3) plain_comps_prefix [OF take_is_prefix assms(2)] by (simp_all add: plain_comps_iff)
  have take_Suc: "take (i + 1) segs = take i segs @ [segs ! i]"
    using assms(3) by (simp add: take_Suc_conv_app_nth)
  show ?thesis
  proof (cases "i = 0")
    case True
    have "path_join [abs_path rs, segs ! 0] = abs_path (rs @ [segs ! 0])"
      using path_join_abs_rel [OF assms(1), of "[segs ! 0]"] seg True by simp
    with True seg assms(1) take_Suc show ?thesis
      by (simp add: buildDiscCandidatePaths_def)
  next
    case False
    then have ne: "take i segs \<noteq> []"
      using assms(3) by auto
    have j: "path_join (take i segs) = join_with ''/'' (take i segs)"
      using path_join_plain take_ok ne by blast
    have "join_with ''/'' (take i segs) \<noteq> []"
      using join_with_Nil_iff take_ok ne by blast
    moreover have "join_with ''/'' (take i segs) \<noteq> dot"
    proof
      assume "join_with ''/'' (take i segs) = dot"
      then have "take i segs = [dot]"
        using path_comps_join [of "take i segs"] take_ok [of i] by (simp add: plain_comps_iff path_comps_def dot_def)
      with take_ok [of i] show False
        by (simp add: plain_comp_def)
    qed
    moreover have "path_join [join_with ''/'' (take i segs), segs ! i] = join_with ''/'' (take (i + 1) segs)"
      using path_join_rel [OF take_ok ne seg] take_Suc by simp
    moreover have "segs \<noteq> []"
      using assms(3) by auto
    ultimately show ?thesis
      using False j path_join_abs_rel [OF assms(1) take_ok ne] path_join_abs_rel [OF assms(1) take_ok [of "i + 1"]] take_Suc
        take_ok assms(1) seg
      by (simp add: buildDiscCandidatePaths_def max_def)
  qed
qed

lemma unprotected_Nil [simp]: "\<not> isPathProtectedByIgnorePaths u p []"
  by (simp add: isPathProtectedByIgnorePaths_def isIgnoredPath_def Let_def)

lemma chooseDiscUnit_unprotected:
  assumes "chooseDiscUnit u env fs cand marker up tfm igs = d" and "\<not> dd_disableGrouping d"
  shows "dd_chosenUnit d \<in> {cand, marker}" and "\<not> isPathProtectedByIgnorePaths u (dd_chosenUnit d) igs"
  using assms by (auto simp: chooseDiscUnit_def Let_def split: if_splits)

text \<open>What a disc unit is: a directory below the root that the ignore paths do not protect.\<close>

definition disc_ok :: "unicode_norm \<Rightarrow> fs_node \<Rightarrow> string list \<Rightarrow> string list \<Rightarrow> string \<Rightarrow> bool" where
  "disc_ok u fs rs igs p \<longleftrightarrow>
     (\<exists>cs es. p = abs_path cs \<and> plain_comps cs \<and> strict_prefix rs cs \<and> fs_at fs cs = Some (FDir es)) \<and>
     \<not> isPathProtectedByIgnorePaths u p igs"

text \<open>
  The disc of a file is the topmost folder between the root and the file that is named like a disc (\<open>marker_of\<close>). The unit is that
  folder or the one above it. The cache knows a disc by \<open>disc_key\<close>: two discs with the same key share what was decided for the
  one seen first.
\<close>

definition marker_of :: "string list \<Rightarrow> string list \<Rightarrow> string list option" where
  "marker_of rs cs = map_option (\<lambda>(i, seg, up). take (length rs + i + 1) cs) (findDiscMarker 0 (butlast (drop (length rs) cs)))"

definition disc_key :: "unicode_norm \<Rightarrow> string list \<Rightarrow> string \<times> string" where
  "disc_key u ms = (normalizePath u (abs_path (butlast ms)), to_upper (last ms))"

definition disc_at :: "fs_node \<Rightarrow> string list \<Rightarrow> bool" where
  "disc_at fs ms \<longleftrightarrow> ms \<noteq> [] \<and> to_upper (last ms) \<in> set discLayoutMarkers \<and> (\<exists>es. fs_at fs ms = Some (FDir es))"

definition disc_unit :: "unicode_norm \<Rightarrow> fs_node \<Rightarrow> string list \<Rightarrow> string list \<Rightarrow> string list \<Rightarrow> string \<Rightarrow> bool" where
  "disc_unit u fs rs igs ms p \<longleftrightarrow> disc_ok u fs rs igs p \<and> disc_at fs ms \<and> (p = abs_path ms \<or> p = abs_path (butlast ms))"

definition unit_of :: "unicode_norm \<Rightarrow> fs_node \<Rightarrow> string list \<Rightarrow> string list \<Rightarrow> string list \<Rightarrow> string \<Rightarrow> bool" where
  "unit_of u fs rs igs cs p \<longleftrightarrow>
     (\<exists>ms ms'. marker_of rs cs = Some ms \<and> disc_at fs ms \<and> strict_prefix ms cs \<and> disc_key u ms' = disc_key u ms \<and> disc_unit u fs rs igs ms' p)"

definition cache_ok :: "unicode_norm \<Rightarrow> fs_node \<Rightarrow> string list \<Rightarrow> string list \<Rightarrow> disc_cache \<Rightarrow> bool" where
  "cache_ok u fs rs igs cache \<longleftrightarrow>
     (\<forall>key d. gm_get cache key = Some d \<and> \<not> dd_disableGrouping d \<longrightarrow>
        (\<exists>ms. key = fst (disc_key u ms) @ ''|'' @ snd (disc_key u ms) \<and> disc_unit u fs rs igs ms (dd_chosenUnit d)))"

lemma cache_ok_Nil [simp]: "cache_ok u fs rs igs []"
  by (simp add: cache_ok_def)

lemma cache_ok_put:
  "cache_ok u fs rs igs cache \<Longrightarrow> key = fst (disc_key u ms) @ ''|'' @ snd (disc_key u ms) \<Longrightarrow>
    (\<not> dd_disableGrouping d \<Longrightarrow> disc_unit u fs rs igs ms (dd_chosenUnit d)) \<Longrightarrow> cache_ok u fs rs igs (gm_put key d cache)"
  by (auto simp: cache_ok_def split: if_splits)

lemma disc_key_cancel:
  assumes "fst (disc_key u ms) @ ''|'' @ snd (disc_key u ms) = fst (disc_key u ms') @ ''|'' @ snd (disc_key u ms')"
    and "disc_at fs ms" and "disc_at fs ms'"
  shows "disc_key u ms = disc_key u ms'"
proof -
  have ne: "a @ ''|BDMV'' \<noteq> b @ ''|VIDEO_TS''" for a b
  proof
    assume "a @ ''|BDMV'' = b @ ''|VIDEO_TS''"
    then have "last (a @ ''|BDMV'') = last (b @ ''|VIDEO_TS'')"
      by (simp only:)
    then show False
      by simp
  qed
  have "snd (disc_key u ms) = snd (disc_key u ms')"
    using assms ne [of "fst (disc_key u ms)" "fst (disc_key u ms')"] ne [of "fst (disc_key u ms')" "fst (disc_key u ms)"]
    by (auto simp: disc_at_def disc_key_def discLayoutMarkers_def)
  with assms(1) show ?thesis
    by (simp add: prod_eq_iff)
qed

lemma marker_of_segments:
  assumes "findDiscMarker 0 segs = Some (i, seg, up)"
  shows "marker_of rs (rs @ segs @ [c]) = Some (rs @ take i segs @ [seg])"
  using findDiscMarker_at [OF assms] assms by (simp add: marker_of_def take_Suc_conv_app_nth butlast_append)

lemma discOrphanUnit_ok:
  assumes root: "is_rooted root" "path_comps (path_clean root) = rs" and q: "is_rooted q"
    and at: "fs_at fs (path_comps (path_clean q)) = Some (FFile info)" and cache: "cache_ok u fs rs igs cache"
    and res: "discOrphanUnit u env fs root q tfm igs cache = ((unit_path, disc), cache')"
  shows "cache_ok u fs rs igs cache' \<and> 
    (if disc then unit_of u fs rs igs (path_comps (path_clean q)) unit_path else unit_path = path_clean q)"
proof -
  have rs: "plain_comps rs" and croot: "path_clean root = abs_path rs"
    using path_clean_abs_path [OF root(1)] root(2) by auto
  have cq: "is_rooted (path_clean q)" "path_clean (path_clean q) = path_clean q"
    using q by (simp_all add: is_rooted_path_clean path_clean_idem)
  show ?thesis
  proof (cases "discRelativeSegments (abs_path rs) (path_clean q)")
    case None
    with res cache show ?thesis
      by (auto simp: discOrphanUnit_def Let_def croot)
  next
    case (Some segs)
    obtain c where comps: "path_comps (path_clean q) = rs @ segs @ [c]" and "segs \<noteq> []" and plain: "plain_comps (segs @ [c])"
      using discRelativeSegments_comps [OF cq(1) Some rs cq(2)] by blast
    show ?thesis
    proof (cases "findDiscMarker 0 segs")
      case None
      with Some res cache show ?thesis
        by (auto simp: discOrphanUnit_def Let_def croot)
    next
      case found: (Some marker)
      obtain i seg up where marker: "marker = (i, seg, up)"
        using prod_cases3 by blast
      with found findDiscMarker_at [of 0 segs i seg up] have i: "i < length segs" and seg: "seg = segs ! i"
          and up: "up = to_upper seg" "up \<in> set discLayoutMarkers"
        by auto
      let ?ms = "rs @ take i segs @ [seg]"
      have ms: "?ms = rs @ take (i + 1) segs" and key: "disc_key u ?ms = (normalizePath u (abs_path (rs @ take i segs)), up)"
        using i seg up by (simp_all add: take_Suc_conv_app_nth disc_key_def butlast_append)
      have marker_of: "marker_of rs (path_comps (path_clean q)) = Some ?ms"
        unfolding comps by (rule marker_of_segments) (use found marker in simp)
      let ?cand = "abs_path (rs @ take (max 1 i) segs)" and ?marker = "abs_path (rs @ take (i + 1) segs)"
      have paths: "buildDiscCandidatePaths (abs_path rs) segs i seg = (?cand, ?marker)"
        using buildDiscCandidatePaths_comps [OF rs _ i] plain seg by simp
      have dir: "\<exists>es. fs_at fs (rs @ take n segs) = Some (FDir es)" if "n \<ge> 1" for n
      proof -
        have eq: "rs @ segs @ [c] = (rs @ take n segs) @ (drop n segs @ [c])"
          by simp
        have "fs_at fs ((rs @ take n segs) @ (drop n segs @ [c])) = Some (FFile info)"
          using at comps eq by metis
        then obtain m where m: "fs_at fs (rs @ take n segs) = Some m"
          unfolding fs_at_append [of fs "rs @ take n segs"] by (auto simp: bind_eq_Some_conv)
        moreover have "strict_prefix (rs @ take n segs) (path_comps (path_clean q))"
          unfolding comps eq by (simp add: strict_prefix_def del: append_assoc append_take_drop_id)
        ultimately have "is_dir m"
          using parents_dirs_at [OF at] by (simp add: parents_dirs_def)
        with m show ?thesis
          by (cases m) auto
      qed
      have ok: "disc_ok u fs rs igs (abs_path (rs @ take n segs))"
        if "n \<ge> 1" "\<not> isPathProtectedByIgnorePaths u (abs_path (rs @ take n segs)) igs" for n
      proof -
        have "plain_comps (rs @ take n segs)" and "strict_prefix rs (rs @ take n segs)"
          using rs plain plain_comps_prefix [OF take_is_prefix, of segs n] \<open>segs \<noteq> []\<close> that(1)
          by (auto simp: strict_prefix_def)
        with dir [OF that(1)] that(2) show ?thesis
          by (auto simp: disc_ok_def)
      qed
      have disc_ms: "disc_at fs ?ms" and pre_ms: "strict_prefix ?ms (path_comps (path_clean q))"
      proof -
        have "\<exists>es. fs_at fs ?ms = Some (FDir es)"
          unfolding ms by (rule dir) simp
        then show "disc_at fs ?ms"
          using up by (simp add: disc_at_def)
        have "path_comps (path_clean q) = ?ms @ (drop (i + 1) segs @ [c])"
          unfolding ms comps by (simp only: append_assoc [symmetric] append_take_drop_id) simp
        then show "strict_prefix ?ms (path_comps (path_clean q))"
          by (simp add: strict_prefix_def prefix_def)
      qed
      have unit_ofI: "unit_of u fs rs igs (path_comps (path_clean q)) p" if "disc_unit u fs rs igs ms' p" "disc_key u ms' = disc_key u ?ms" for ms' p
        using that marker_of disc_ms pre_ms unfolding unit_of_def by blast
      have unitI: "disc_unit u fs rs igs ?ms (abs_path (rs @ take n segs))"
        if "n \<ge> 1" "n = i \<or> n = i + 1" "\<not> isPathProtectedByIgnorePaths u (abs_path (rs @ take n segs)) igs" for n
      proof -
        have "butlast ?ms = rs @ take i segs"
          by (simp add: butlast_append)
        then have "abs_path (rs @ take n segs) = abs_path ?ms \<or> abs_path (rs @ take n segs) = abs_path (butlast ?ms)"
          using that(2) ms by metis
        with ok [OF that(1,3)] disc_ms show ?thesis
          unfolding disc_unit_def by blast
      qed
      have "rs @ take (max 1 i) segs \<noteq> rs"
        using \<open>segs \<noteq> []\<close> by (simp add: max_def)
      moreover have "plain_comps (take (max 1 i) segs)"
        using plain plain_comps_prefix [OF take_is_prefix, of segs "max 1 i"] by simp
      ultimately have ne: "?cand \<noteq> abs_path rs"
        using rs abs_path_inject by simp
      show ?thesis
      proof (cases "i > 0")
        case False
        then have "max 1 i = 1" and "i = 0"
          by auto
        with res Some found marker paths ne cache unit_ofI [OF unitI refl, of 1] False show ?thesis
          by (auto simp: discOrphanUnit_def Let_def croot split: if_splits)
      next
        case True
        then have m1: "max 1 i = i"
          by simp
        have *: "discUnitFromParentMarker u env fs (path_clean q) ?cand ?marker up tfm igs cache = ((unit_path, disc), cache')"
          using res Some found marker paths ne True by (simp add: discOrphanUnit_def Let_def croot)
        let ?key = "normalizePath u ?cand @ ''|'' @ up" and ?d = "chooseDiscUnit u env fs ?cand ?marker up tfm igs"
        have key': "?key = fst (disc_key u ?ms) @ ''|'' @ snd (disc_key u ?ms)"
          by (simp only: key m1 fst_conv snd_conv)
        have chosen: "disc_unit u fs rs igs ?ms (dd_chosenUnit ?d)" if "\<not> dd_disableGrouping ?d"
          using chooseDiscUnit_unprotected [OF refl that] unitI [of i] unitI [of "i + 1"] True m1 by auto
        show ?thesis
        proof (cases "gm_get cache ?key")
          case None
          with * unit_ofI [OF chosen refl] cache_ok_put [OF cache key' chosen] show ?thesis
            by (auto simp: discUnitFromParentMarker_def Let_def split: if_splits)
        next
          case (Some d)
          have "unit_of u fs rs igs (path_comps (path_clean q)) (dd_chosenUnit d)" if enabled: "\<not> dd_disableGrouping d"
          proof -
            obtain ms' where ms': "?key = fst (disc_key u ms') @ ''|'' @ snd (disc_key u ms')" "disc_unit u fs rs igs ms' (dd_chosenUnit d)"
              using cache Some enabled unfolding cache_ok_def by blast
            then have "disc_key u ms' = disc_key u ?ms"
              using disc_key_cancel [of u ms' ?ms fs] key' disc_ms by (simp add: disc_unit_def)
            with ms'(2) show ?thesis
              by (rule unit_ofI)
          qed
          with Some * cache show ?thesis
            by (auto simp: discUnitFromParentMarker_def split: if_splits)
        qed
      qed
    qed
  qed
qed

lemma unit_of_ok: "unit_of u fs rs igs cs p \<Longrightarrow> disc_ok u fs rs igs p"
  by (auto simp: unit_of_def disc_unit_def)

text \<open>Where no two discs have the same key, the unit of a file is the disc folder it lies in, or the folder above that.\<close>

fun dirs_of :: "fs_node \<Rightarrow> string list list" where
  "dirs_of (FDir es) = [] # concat (map (\<lambda>(c, n). map (Cons c) (dirs_of n)) es)"
| "dirs_of n = []"

definition discs_differ :: "unicode_norm \<Rightarrow> fs_node \<Rightarrow> bool" where
  "discs_differ u fs \<longleftrightarrow>
     distinct (map (disc_key u) (filter (\<lambda>ms. ms \<noteq> [] \<and> to_upper (last ms) \<in> set discLayoutMarkers) (dirs_of fs)))"

lemma dirs_of_at: "fs_at fs ms = Some (FDir es) \<Longrightarrow> ms \<in> set (dirs_of fs)"
proof (induction ms arbitrary: fs)
  case (Cons c ms)
  then obtain cs n where fs: "fs = FDir cs" "map_of cs c = Some n" "fs_at n ms = Some (FDir es)"
    by (cases fs) (auto split: option.splits)
  then have "ms \<in> set (dirs_of n)" and "(c, n) \<in> set cs"
    using Cons.IH map_of_SomeD by fast+
  with fs(1) show ?case
    by force
qed simp

lemma unit_above:
  assumes "discs_differ u fs" and "unit_of u fs rs igs cs p" and "plain_comps cs"
  shows "\<exists>ms ds. marker_of rs cs = Some ms \<and> p = abs_path ds \<and> (ds = ms \<or> ds = butlast ms) \<and> strict_prefix rs ds \<and> strict_prefix ds cs"
proof -
  obtain ms ms' where ms: "marker_of rs cs = Some ms" "strict_prefix ms cs" and at: "disc_at fs ms" "disc_at fs ms'"
    and key: "disc_key u ms' = disc_key u ms" and p: "disc_ok u fs rs igs p" "p = abs_path ms' \<or> p = abs_path (butlast ms')"
    using assms(2) by (auto simp: unit_of_def disc_unit_def)
  have "ms' = ms"
    using assms(1) at key dirs_of_at [of fs]
    by (auto simp: discs_differ_def distinct_map disc_at_def dest!: inj_onD)
  then obtain ds where ds: "p = abs_path ds" "ds = ms \<or> ds = butlast ms"
    using p(2) by blast
  have "prefix (butlast ms) ms"
    by (metis append_butlast_last_id prefixI prefix_order.refl butlast.simps(1))
  then have pre: "strict_prefix ds cs"
    using ds(2) ms(2) prefix_order.le_less_trans by blast
  then have "plain_comps ds"
    using assms(3) plain_comps_prefix by (auto simp: strict_prefix_def)
  then have "strict_prefix rs ds"
    using p(1) ds(1) abs_path_inject by (auto simp: disc_ok_def)
  with ms(1) ds pre show ?thesis
    by blast
qed

section \<open>What a scan reports\<close>

text \<open>
  A file counts as an orphan: a regular file at or below the root that no torrent uses, that is not
  ignored, and that is old enough.
\<close>

definition orphan_at :: "unicode_norm \<Rightarrow> fs_node \<Rightarrow> scan_config \<Rightarrow> string list \<Rightarrow> bool" where
  "orphan_at u fs cfg cs \<longleftrightarrow>
     prefix (path_comps (path_clean (scf_root cfg))) cs \<and> plain_comps cs \<and>
     (\<exists>info. fs_at fs cs = Some (FFile info) \<and> scf_now cfg - m_time info \<ge> scf_grace cfg) \<and>
     \<not> tfm_has (scf_tfm cfg) (normalizePath u (abs_path cs)) \<and> \<not> isIgnoredPath u (abs_path cs) (scf_ignore cfg)"

definition reported_ok :: "unicode_norm \<Rightarrow> fs_node \<Rightarrow> scan_config \<Rightarrow> string \<Rightarrow> bool" where
  "reported_ok u fs cfg p \<longleftrightarrow>
     (\<exists>cs. orphan_at u fs cfg cs \<and>
        (p = abs_path cs \<or> unit_of u fs (path_comps (path_clean (scf_root cfg))) (scf_ignore cfg) cs p))"

text \<open>The unit is such a file, or the disc folder it lies in, or the folder above that, below the root and not protected.\<close>

definition holds_orphan :: "unicode_norm \<Rightarrow> fs_node \<Rightarrow> scan_config \<Rightarrow> string \<Rightarrow> bool" where
  "holds_orphan u fs cfg p \<longleftrightarrow>
     (\<exists>cs. orphan_at u fs cfg cs \<and>
        (p = abs_path cs \<or>
         (\<exists>ms ds. marker_of (path_comps (path_clean (scf_root cfg))) cs = Some ms \<and> p = abs_path ds \<and> (ds = ms \<or> ds = butlast ms) \<and>
            strict_prefix (path_comps (path_clean (scf_root cfg))) ds \<and> strict_prefix ds cs \<and>
            \<not> isPathProtectedByIgnorePaths u p (scf_ignore cfg))))"

lemma holds_orphanI:
  assumes "discs_differ u fs" and "reported_ok u fs cfg p"
  shows "holds_orphan u fs cfg p"
proof -
  let ?rs = "path_comps (path_clean (scf_root cfg))" and ?igs = "scf_ignore cfg"
  obtain cs where cs: "orphan_at u fs cfg cs" "p = abs_path cs \<or> unit_of u fs ?rs ?igs cs p"
    using assms(2) by (auto simp: reported_ok_def)
  then show ?thesis
  proof (cases "p = abs_path cs")
    case False
    with cs(2) have unit: "unit_of u fs ?rs ?igs cs p"
      by blast
    have "\<not> isPathProtectedByIgnorePaths u p ?igs"
      using unit_of_ok [OF unit] by (simp add: disc_ok_def)
    moreover have "plain_comps cs"
      using cs(1) by (simp add: orphan_at_def)
    ultimately show ?thesis
      using unit_above [OF assms(1) unit] cs(1) unfolding holds_orphan_def by blast
  qed (auto simp: holds_orphan_def)
qed

definition scan_inv :: "unicode_norm \<Rightarrow> fs_node \<Rightarrow> scan_config \<Rightarrow> scan_state \<Rightarrow> bool" where
  "scan_inv u fs cfg st \<longleftrightarrow>
     gm_ok (sw_orphans st) \<and>
     (\<forall>p e. gm_get (sw_orphans st) p = Some e \<longrightarrow> oe_Path e = p \<and> reported_ok u fs cfg p) \<and>
     (scf_maxFiles cfg > 0 \<longrightarrow> int (length (sw_orphans st)) \<le> scf_maxFiles cfg) \<and>
     cache_ok u fs (path_comps (path_clean (scf_root cfg))) (scf_ignore cfg) (sw_cache st) \<and>
     (\<forall>p \<in> set (sw_inUse st). disc_ok u fs (path_comps (path_clean (scf_root cfg))) (scf_ignore cfg) p \<and>
        gm_get (sw_orphans st) p = None)"

lemma scan_inv_new: "scan_inv u fs cfg newScanState"
  by (simp add: scan_inv_def newScanState_def)

lemma scan_inv_cong:
  "sw_orphans st' = sw_orphans st \<Longrightarrow> sw_inUse st' = sw_inUse st \<Longrightarrow> sw_cache st' = sw_cache st \<Longrightarrow>
    scan_inv u fs cfg st' = scan_inv u fs cfg st"
  by (simp add: scan_inv_def)

lemma shouldSkipDuplicate_inv: "scan_inv u fs cfg (snd (shouldSkipDuplicate info st)) = scan_inv u fs cfg st"
  and shouldSkipDuplicate_inUse: "sw_inUse (snd (shouldSkipDuplicate info st)) = sw_inUse st"
  by (simp_all add: shouldSkipDuplicate_def scan_inv_def)

lemma length_gm_put: "length (gm_put k v m) = (if gm_get m k = None then length m + 1 else length m)"
  unfolding gm_put_def gm_get_def by (induction m) auto

lemma length_gm_del: "length (gm_del k m) \<le> length m"
  unfolding gm_del_def by (rule length_delete_le)

lemma markInUse_inv:
  assumes "scan_inv u fs cfg st"
    and "disc \<Longrightarrow> disc_ok u fs (path_comps (path_clean (scf_root cfg))) (scf_ignore cfg) p"
  shows "scan_inv u fs cfg (markInUse p disc st)"
  using assms length_gm_del [of p "sw_orphans st"] by (auto simp: scan_inv_def markInUse_def split: if_splits)

lemma addOrUpdateUnit_inv:
  assumes inv: "scan_inv u fs cfg st" and new: "reported_ok u fs cfg p" and free: "p \<notin> set (sw_inUse st)"
  shows "scan_inv u fs cfg (snd (addOrUpdateUnit (scf_maxFiles cfg) p info st))"
proof (cases "gm_get (sw_orphans st) p")
  case None
  with assms show ?thesis
    by (auto simp: addOrUpdateUnit_def scan_inv_def length_gm_put)
next
  case (Some e)
  with assms show ?thesis
    by (auto simp: addOrUpdateUnit_def scan_inv_def length_gm_put)
qed

lemma handleFile_inv:
  assumes root: "is_rooted (scf_root cfg)" and q: "is_rooted q"
    and comps: "path_comps (path_clean q) = path_comps (path_clean (scf_root cfg)) @ cs"
    and at: "fs_at fs (path_comps (path_clean q)) = Some (FFile info)" and inv: "scan_inv u fs cfg st0"
  shows "scan_inv u fs cfg (snd (handleFile u env fs cfg q name info st0))"
proof (cases "isIgnoredPath u q (scf_ignore cfg)")
  case True
  with inv show ?thesis
    by (simp add: handleFile_def)
next
  case notign: False
  let ?rs = "path_comps (path_clean (scf_root cfg))" and ?igs = "scf_ignore cfg"
  obtain unit_path disc cache where unit_eq:
    "discOrphanUnit u env fs (scf_root cfg) q (Some (scf_tfm cfg)) ?igs (sw_cache st0) = ((unit_path, disc), cache)"
    by (metis surj_pair)
  have cache0: "cache_ok u fs ?rs ?igs (sw_cache st0)"
    using inv by (simp add: scan_inv_def)
  have cache: "cache_ok u fs ?rs ?igs cache"
    and disc_unit: "disc \<Longrightarrow> unit_of u fs ?rs ?igs (path_comps (path_clean q)) unit_path" and file_unit: "\<not> disc \<Longrightarrow> unit_path = path_clean q"
    using discOrphanUnit_ok [OF root refl q at cache0 unit_eq] by (auto split: if_splits)
  let ?st = "st0\<lparr>sw_cache := cache\<rparr>"
  have inv1: "scan_inv u fs cfg ?st"
    using inv cache by (simp add: scan_inv_def)
  have clean: "path_clean q = abs_path (path_comps (path_clean q))" and plain: "plain_comps (path_comps (path_clean q))"
    using path_clean_abs_path [OF q] by auto
  have norm: "normalizePath u (abs_path (path_comps (path_clean q))) = normalizePath u q"
    using normalizePath_clean [OF q] clean by metis
  have ign: "isIgnoredPath u (abs_path (path_comps (path_clean q))) ?igs = isIgnoredPath u q ?igs"
    by (simp add: isIgnoredPath_def norm)
  have pre: "prefix ?rs (path_comps (path_clean q))"
    by (simp add: comps)
  have file_free: "path_clean q \<notin> set (sw_inUse st)" if "scan_inv u fs cfg st" for st
  proof
    assume "path_clean q \<in> set (sw_inUse st)"
    with that obtain ds es where "path_clean q = abs_path ds" "plain_comps ds" "fs_at fs ds = Some (FDir es)"
      by (auto simp: scan_inv_def disc_ok_def)
    with at plain show False
      using path_comps_abs_path [of ds] by auto
  qed
  have reported: "reported_ok u fs cfg unit_path"
    if "\<not> tfm_has (scf_tfm cfg) (normalizePath u q)" "scf_now cfg - m_time info \<ge> scf_grace cfg"
  proof -
    have "orphan_at u fs cfg (path_comps (path_clean q))"
      using that at plain notign pre unfolding orphan_at_def norm ign by blast
    moreover have "unit_path = abs_path (path_comps (path_clean q)) \<or> unit_of u fs ?rs ?igs (path_comps (path_clean q)) unit_path"
      using disc_unit file_unit clean by metis
    ultimately show ?thesis
      unfolding reported_ok_def by blast
  qed
  obtain dup st1 where dup: "shouldSkipDuplicate info ?st = (dup, st1)"
    by fastforce
  have inv2: "scan_inv u fs cfg st1"
    using shouldSkipDuplicate_inv [of u fs cfg info ?st] inv1 dup by simp
  let ?st2 = "if disc then st1\<lparr>sw_discPaths := gs_add unit_path (sw_discPaths st1)\<rparr> else st1"
  have inv3: "scan_inv u fs cfg ?st2"
    using inv2 by (simp add: scan_inv_def)
  have added: "scan_inv u fs cfg (snd (addOrUpdateUnit (scf_maxFiles cfg) unit_path info ?st2))"
    if "\<not> tfm_has (scf_tfm cfg) (normalizePath u q)" "scf_now cfg - m_time info \<ge> scf_grace cfg"
      "\<not> (disc \<and> unit_path \<in> set (sw_inUse st1))"
  proof -
    have "unit_path \<notin> set (sw_inUse ?st2)"
      using that(3) file_unit file_free [OF inv2] by (cases disc) auto
    then show ?thesis
      by (rule addOrUpdateUnit_inv [OF inv3 reported [OF that(1,2)]])
  qed
  have marked: "scan_inv u fs cfg (markInUse unit_path disc ?st)"
    using markInUse_inv [OF inv1] disc_unit unit_of_ok by blast
  show ?thesis
    unfolding handleFile_def
    using notign unit_eq marked inv1 inv2 inv3 added shouldSkipDuplicate_inv dup
    by (cases dup; cases disc; simp add: Let_def)
qed

lemma walkStep_inv:
  assumes "is_rooted (scf_root cfg)" and "is_rooted q"
    and "path_comps (path_clean q) = path_comps (path_clean (scf_root cfg)) @ cs"
    and at: "fs_at fs (path_comps (path_clean q)) = Some n" and inv: "scan_inv u fs cfg st0"
  shows "scan_inv u fs cfg (snd (walkStep u env fs cfg q (Some (name, n)) e st0))"
proof -
  have inv': "scan_inv u fs cfg (st0\<lparr>sw_calls := k\<rparr>)" for k
    using inv by (simp add: scan_inv_def)
  show ?thesis
  proof (cases n)
    case (FFile info)
    with handleFile_inv [OF assms(1-3) _ inv'] at inv' show ?thesis
      by (auto simp: walkStep_def Let_def split: option.splits)
  qed (use inv' in \<open>auto simp: walkStep_def Let_def split: option.splits\<close>)
qed

lemma mergeSuppressed_sub:
  assumes ok: "gm_ok (sw_orphans st)" and paths: "\<forall>p e. gm_get (sw_orphans st) p = Some e \<longrightarrow> oe_Path e = p"
  shows "gm_ok (mergeSuppressedUnits u st) \<and> length (mergeSuppressedUnits u st) \<le> length (sw_orphans st) \<and>
    (\<forall>p e. gm_get (mergeSuppressedUnits u st) p = Some e \<longrightarrow> oe_Path e = p \<and> gm_get (sw_orphans st) p \<noteq> None)"
proof -
  define Q where "Q = (\<lambda>m :: (string, orphan_entry) gomap. gm_ok m \<and> length m \<le> length (sw_orphans st) \<and>
    (\<forall>p e. gm_get m p = Some e \<longrightarrow> oe_Path e = p \<and> gm_get (sw_orphans st) p \<noteq> None))"
  have base: "Q (sw_orphans st)"
    using assms by (simp add: Q_def)
  have del: "Q (gm_del p m)" if "Q m" for p m
    using that le_trans [OF length_gm_del [of p m]] by (auto simp: Q_def)
  have merge: "Q (mergeIntoDiscUnit p du e m)" if "Q m" for p du e m
  proof (cases "gm_get m du")
    case None
    with that del show ?thesis
      by (simp add: mergeIntoDiscUnit_def)
  next
    case (Some d)
    with that have "Q (gm_put du (d\<lparr>oe_Size := s, oe_ModifiedAt := t\<rparr>) m)" for s t
      by (auto simp: Q_def length_gm_put)
    with Some del show ?thesis
      by (simp add: mergeIntoDiscUnit_def)
  qed
  have "Q (mergeSuppressedUnits u st)"
  proof (cases "sw_discPaths st = []")
    case False
    have "Q (fold (\<lambda>unit_path orphans. case gm_get orphans unit_path of None \<Rightarrow> orphans
        | Some entry \<Rightarrow> (case containingDiscUnit (normalizePath u unit_path) roots of None \<Rightarrow> orphans
          | Some du \<Rightarrow> mergeIntoDiscUnit unit_path du entry orphans)) ks (sw_orphans st))" for roots ks
      by (rule fold_invariant [of Q]) (use base merge in \<open>auto split: option.split\<close>)
    with False show ?thesis
      by (simp add: mergeSuppressedUnits_def Let_def)
  qed (simp add: mergeSuppressedUnits_def base)
  then show ?thesis
    by (simp add: Q_def)
qed

text \<open>
  C24. Whatever ends the walk of a root (an error, a cancellation, the limit on units), the units it
  reports are different, at most as many as the limit, and each stands for a regular file below the root
  that is not in the map of files in use, that is not ignored and that is as old as the grace period asks: it is that
  file, or a unit of the disc of that file, or of a disc that has the same key in the cache. Where no two discs of
  the file system have the same key (that is, the same folder above them up to Unicode normalisation, and the same name up to the
  case), the unit is that file, or a folder that the file lies in: the topmost one below the root that is named like a disc, or the one
  right above that, below the root as well; and the ignore paths do not protect it.
\<close>

theorem walkScanRoot_sound:
  assumes env: "honest_env env" and wf: "fs_wf fs" and root: "is_rooted (scf_root cfg)"
    and scan: "walkScanRoot u env fs cfg = (os, truncated, err)"
  shows "distinct (map oe_Path os) \<and> (scf_maxFiles cfg > 0 \<longrightarrow> int (length os) \<le> scf_maxFiles cfg) \<and>
    (\<forall>o' \<in> set os. reported_ok u fs cfg (oe_Path o')) \<and>
    (discs_differ u fs \<longrightarrow> (\<forall>o' \<in> set os. holds_orphan u fs cfg (oe_Path o')))"
proof -
  obtain r st where walk: "walk_dir env fs (walkStep u env fs cfg) (scf_root cfg) newScanState = (r, st)"
    by fastforce
  have "scan_inv u fs cfg (snd (walk_dir env fs (walkStep u env fs cfg) (scf_root cfg) newScanState))"
  proof (rule walk_dir_inv [where P = "scan_inv u fs cfg", OF _ _ wf root scan_inv_new])
    fix q name m st e cs
    assume "is_rooted q" and q: "path_comps (path_clean q) = path_comps (path_clean (scf_root cfg)) @ cs"
      and "fs_at fs (os_phys env (scf_root cfg) @ cs) = Some m" and "scan_inv u fs cfg st"
    then show "scan_inv u fs cfg (snd (walkStep u env fs cfg q (Some (name, m)) e st))"
      using walkStep_inv [OF root, of q cs fs m] env root by (simp add: honest_env_def)
  qed (simp add: walkStep_def scan_inv_new newScanState_def scan_inv_def Let_def)
  then have inv: "scan_inv u fs cfg st"
    by (simp add: walk)
  have os: "os = map snd (mergeSuppressedUnits u st)"
    using scan walk by (simp add: walkScanRoot_def orphansOf_def)
  have sub: "gm_ok (mergeSuppressedUnits u st)" "length (mergeSuppressedUnits u st) \<le> length (sw_orphans st)"
      "\<And>p e. gm_get (mergeSuppressedUnits u st) p = Some e \<Longrightarrow> oe_Path e = p \<and> gm_get (sw_orphans st) p \<noteq> None"
    using mergeSuppressed_sub [of st u] inv by (auto simp: scan_inv_def)
  have keyed: "oe_Path e = p \<and> reported_ok u fs cfg p" if "(p, e) \<in> set (mergeSuppressedUnits u st)" for p e
    using that sub(3) [of p e] gm_get_iff [OF sub(1)] inv by (auto simp: scan_inv_def)
  have "map oe_Path os = map fst (mergeSuppressedUnits u st)"
    using keyed os by auto
  then have "distinct (map oe_Path os)"
    using sub(1) by (simp add: gm_ok_def)
  moreover have "scf_maxFiles cfg > 0 \<longrightarrow> int (length os) \<le> scf_maxFiles cfg"
    using sub(2) os inv by (auto simp: scan_inv_def)
  moreover have "\<forall>o' \<in> set os. reported_ok u fs cfg (oe_Path o')"
    using keyed os by auto
  ultimately show ?thesis
    using holds_orphanI by blast
qed

section \<open>Concrete scans\<close>

definition demo_scan :: "string \<Rightarrow> string list \<Rightarrow> scan_config" where
  "demo_scan root used =
     \<lparr>scf_root = root,
      scf_tfm = (case opt_fold (tfm_add ascii_norm) used newTorrentFileMap of None \<Rightarrow> newTorrentFileMap | Some m \<Rightarrow> m),
      scf_ignore = [''/data/keep''], scf_grace = 10, scf_maxFiles = 0, scf_filter = None, scf_now = 50,
      scf_canceled = (\<lambda>n. False)\<rparr>"

text \<open>A disc next to a file: the folder above the disc is reported when the file is not in use.\<close>

definition old_file :: "nat \<Rightarrow> fs_node" where
  "old_file n = FFile \<lparr>m_size = 7, m_time = 1, m_inode = (1, n), m_nlink = 1\<rparr>"

definition single_disc :: fs_node where
  "single_disc = FDir [(''data'', FDir [(''dvd'', FDir [(''VIDEO_TS'', FDir [(''v.vob'', old_file 2)]), (''note.txt'', old_file 3)])])]"

theorem walkScanRoot_sound_witness:
  "\<exists>os truncated err. walkScanRoot ascii_norm demo_env single_disc (demo_scan ''/data'' []) = (os, truncated, err) \<and>
     map oe_Path os = [''/data/dvd''] \<and>
     list_all (\<lambda>o'. holds_orphan ascii_norm single_disc (demo_scan ''/data'' []) (oe_Path o')) os"
proof -
  let ?cfg = "demo_scan ''/data'' []"
  obtain os truncated err where scan: "walkScanRoot ascii_norm demo_env single_disc ?cfg = (os, truncated, err)"
    by (metis surj_pair)
  have "case walkScanRoot ascii_norm demo_env single_disc ?cfg of (os, truncated, err) \<Rightarrow> map oe_Path os = [''/data/dvd'']"
    by code_simp
  moreover have "fs_wf single_disc" and "discs_differ ascii_norm single_disc"
    by code_simp+
  moreover have "is_rooted (scf_root ?cfg)"
    by (simp add: demo_scan_def)
  ultimately show ?thesis
    using walkScanRoot_sound [OF honest_demo_env _ _ scan] scan by (auto simp: list_all_iff)
qed

text \<open>
  A disc with an audio folder in use: the folder above it is reported as one orphan, since \<open>AUDIO_TS\<close>
  is among the folders a disc may have and its files count as no part of the disc. The deletion finds
  the file in use and skips the whole unit.
\<close>

definition demo_disc :: fs_node where
  "demo_disc = FDir [(''data'', FDir [(''dvd'', FDir
     [(''AUDIO_TS'', FDir [(''a.aob'', demo_file)]), (''VIDEO_TS'', FDir [(''v.vob'', FFile \<lparr>m_size = 7, m_time = 1, m_inode = (1, 2), m_nlink = 1\<rparr>)])])])]"

lemma disc_reported_with_file_in_use:
  "case walkScanRoot ascii_norm demo_env demo_disc (demo_scan ''/data'' [''/data/dvd/AUDIO_TS/a.aob'']) of
     (os, truncated, err) \<Rightarrow> map oe_Path os = [''/data/dvd''] \<and> err = None"
  "fst (safeDeleteTarget ascii_norm demo_env ''/data'' ''/data/dvd'' (scf_tfm (demo_scan ''/data'' [''/data/dvd/AUDIO_TS/a.aob'']))
     [''/data/keep''] demo_disc) = Inr SkippedInUse"
  by code_simp+

text \<open>
  Two discs whose names differ only in their case share what was decided for the first: the folder \<open>BDMV\<close>, whose only
  file is too young to be an orphan, is reported for the old file in \<open>bdmv\<close>.
\<close>

definition demo_twin_discs :: fs_node where
  "demo_twin_discs = FDir [(''data'', FDir [(''dvd'', FDir
     [(''BDMV'', FDir [(''new.m2ts'', FFile \<lparr>m_size = 7, m_time = 45, m_inode = (1, 2), m_nlink = 1\<rparr>)]),
      (''bdmv'', FDir [(''old.m2ts'', old_file 3)]), (''used.mkv'', old_file 4)])])]"

lemma twin_disc_reported:
  "case walkScanRoot ascii_norm demo_env demo_twin_discs (demo_scan ''/data'' [''/data/dvd/used.mkv'']) of
     (os, truncated, err) \<Rightarrow> map oe_Path os = [''/data/dvd/BDMV''] \<and> err = None"
  "\<not> discs_differ ascii_norm demo_twin_discs"
  by code_simp+

end
