(* ===== verification/Link_Plan.thy ===== *)
theory Link_Plan
  imports Go_Path Path_Segments
begin

text \<open>
  Planning of hardlink trees (\<open>src/pkg/hardlinktree/plan.go\<close>): every file of an incoming torrent is
  matched with an existing file of the same size and gets a place below the destination that fits the
  content layout. On Unix; the working directory of \<open>filepath.Abs\<close> is a parameter.
\<close>

section \<open>Data\<close>

record link_torrent_file =
  ltf_Path :: string
  ltf_Size :: int

record existing_file =
  exf_AbsPath :: string
  exf_RelPath :: string
  exf_Size :: int

record file_plan =
  fpl_SourcePath :: string
  fpl_TargetPath :: string

record tree_plan =
  tpl_RootDir :: string
  tpl_Files :: "file_plan list"

datatype link_plan_error =
    NoCandidateFiles | NoExistingFiles | NoDestination
  | EmptyFilePath | AbsoluteFilePath string | VolumePrefix string | CurrentDirectory string | ParentTraversal string
  | NoMatchingFile string | NoAvailableFile string | CouldNotMatch string
  | NoRelativePath | TargetEscapes string

datatype content_layout = LayoutOriginal | LayoutSubfolder | LayoutNoSubfolder

section \<open>Paths\<close>

text \<open>On Unix no path has a volume name, and \<open>FromSlash\<close> changes nothing.\<close>

definition volumeName :: "string \<Rightarrow> string" where
  "volumeName p = []"

definition validateCandidatePath :: "string \<Rightarrow> link_plan_error option" where
  "validateCandidatePath path =
     (if path = [] then Some EmptyFilePath
      else if has_prefix path ''/'' then Some (AbsoluteFilePath path)
      else let p = path_clean path in
        if is_rooted p then Some (AbsoluteFilePath path)
        else if volumeName p \<noteq> [] then Some (VolumePrefix path)
        else if p = ''.'' then Some (CurrentDirectory path)
        else if p = ''..'' \<or> has_prefix p ''../'' then Some (ParentTraversal path)
        else if List.member (split_on (CHR ''/'') p) ''..'' then Some (ParentTraversal path)
        else None)"

definition validateTargetInsideBase :: "string \<Rightarrow> string \<Rightarrow> string \<Rightarrow> link_plan_error option" where
  "validateTargetInsideBase cwd targetPath baseDir =
     (case path_rel (path_abs cwd baseDir) (path_abs cwd targetPath) of
        None \<Rightarrow> Some NoRelativePath
      | Some rel \<Rightarrow> if has_prefix rel ''../'' \<or> rel = ''..'' then Some (TargetEscapes targetPath) else None)"

text \<open>\<open>strings.SplitN(s, sep, 2)\<close>: what comes after the first separator, if there is one.\<close>

definition after_first :: "char \<Rightarrow> string \<Rightarrow> string option" where
  "after_first sep s = (case dropWhile (\<lambda>c. c \<noteq> sep) s of [] \<Rightarrow> None | _ # rest \<Rightarrow> Some rest)"

definition before_first :: "char \<Rightarrow> string \<Rightarrow> string" where
  "before_first sep s = takeWhile (\<lambda>c. c \<noteq> sep) s"

definition computeTargetPath :: "string \<Rightarrow> content_layout \<Rightarrow> string \<Rightarrow> string \<Rightarrow> string" where
  "computeTargetPath candidatePath layout torrentName destDir =
     (case layout of
        LayoutSubfolder \<Rightarrow>
          (let ext = path_ext torrentName;
               folderName = (if CHR ''/'' \<notin> set candidatePath \<and> ext \<noteq> []
                 then take (length torrentName - length ext) torrentName else torrentName)
           in path_join [destDir, SanitizePathSegment folderName, candidatePath])
      | LayoutNoSubfolder \<Rightarrow>
          (case after_first (CHR ''/'') candidatePath of
             Some rest \<Rightarrow> path_join [destDir, rest]
           | None \<Rightarrow> path_join [destDir, candidatePath])
      | LayoutOriginal \<Rightarrow> path_join [destDir, candidatePath])"

section \<open>Keys\<close>

definition fileBaseName :: "string \<Rightarrow> string" where
  "fileBaseName path = path_base path"

text \<open>A name split at its last dot, when something follows the dot: name and extension.\<close>

definition split_last_dot :: "string \<Rightarrow> (string \<times> string) option" where
  "split_last_dot s =
     (let e = takeWhile (\<lambda>c. c \<noteq> CHR ''.'') (rev s) in
      if length e < length s \<and> e \<noteq> [] then Some (take (length s - length e - 1) s, rev e) else None)"

definition sidecarExts :: "string list" where
  "sidecarExts = [''nfo'', ''srt'', ''sub'', ''idx'', ''sfv'', ''txt'']"

definition videoExts :: "string list" where
  "videoExts = [''mkv'', ''mp4'', ''avi'', ''ts'', ''m2ts'', ''mov'', ''mpg'', ''mpeg'']"

definition is_alnum_lower :: "char \<Rightarrow> bool" where
  "is_alnum_lower c \<longleftrightarrow> (let n = of_char c :: nat in 97 \<le> n \<and> n \<le> 122 \<or> 48 \<le> n \<and> n \<le> 57)"

definition normalizeFileKey :: "string \<Rightarrow> string" where
  "normalizeFileKey path =
     (let base0 = fileBaseName path in
      if base0 = [] then []
      else
        let (base1, ext) = (case split_last_dot base0 of None \<Rightarrow> (base0, []) | Some (b, e) \<Rightarrow> (b, to_lower e));
            base2 = (if List.member sidecarExts ext then
                (case split_last_dot base1 of
                   None \<Rightarrow> base1
                 | Some (b, v) \<Rightarrow> if List.member videoExts (to_lower v) then b else base1)
              else base1)
        in filter is_alnum_lower (to_lower base2) @ (if ext \<noteq> [] then CHR ''.'' # ext else []))"

section \<open>Matching\<close>

text \<open>
  The entries of the index with their positions among the existing files. The index by size keeps the
  order of the files; \<open>used\<close> lists the positions already taken.
\<close>

record existing_entry =
  een_pos :: nat
  een_file :: existing_file
  een_base :: string
  een_normalized :: string

definition existingEntries :: "existing_file list \<Rightarrow> existing_entry list" where
  "existingEntries files =
     map (\<lambda>(i, f). \<lparr>een_pos = i, een_file = f, een_base = to_lower (fileBaseName (exf_RelPath f)),
       een_normalized = normalizeFileKey (exf_RelPath f)\<rparr>) (enumerate 0 files)"

definition only_one :: "'a list \<Rightarrow> 'a option" where
  "only_one xs = (case xs of [x] \<Rightarrow> Some x | _ \<Rightarrow> None)"

text \<open>The first strategy that gives an entry.\<close>

fun first_some :: "'a option list \<Rightarrow> 'a option" where
  "first_some [] = None"
| "first_some (None # xs) = first_some xs"
| "first_some (Some x # xs) = Some x"

definition matchCandidate :: "existing_entry list \<Rightarrow> nat list \<Rightarrow> link_torrent_file \<Rightarrow> link_plan_error + existing_entry" where
  "matchCandidate entries used cf =
     (let bucket = filter (\<lambda>e. exf_Size (een_file e) = ltf_Size cf) entries;
          candidateBase = to_lower (fileBaseName (ltf_Path cf));
          candidateNorm = normalizeFileKey (ltf_Path cf);
          available = filter (\<lambda>e. een_pos e \<notin> set used) bucket
      in if bucket = [] then Inl (NoMatchingFile (ltf_Path cf))
         else if available = [] then Inl (NoAvailableFile (ltf_Path cf))
         else case first_some
             [List.find (\<lambda>e. exf_RelPath (een_file e) = ltf_Path cf) available,
              only_one (filter (\<lambda>e. een_base e = candidateBase) available),
              only_one (filter (\<lambda>e. een_normalized e = candidateNorm) available),
              only_one available] of
           None \<Rightarrow> Inl (CouldNotMatch (ltf_Path cf))
         | Some e \<Rightarrow> Inr e)"

fun planFiles ::
  "string \<Rightarrow> existing_entry list \<Rightarrow> content_layout \<Rightarrow> string \<Rightarrow> string \<Rightarrow> link_torrent_file list \<Rightarrow> nat list \<Rightarrow>
    link_plan_error + file_plan list" where
  "planFiles cwd entries layout torrentName destDir [] used = Inr []"
| "planFiles cwd entries layout torrentName destDir (cf # cfs) used =
     (case matchCandidate entries used cf of
        Inl e \<Rightarrow> Inl e
      | Inr entry \<Rightarrow>
          let targetPath = computeTargetPath (ltf_Path cf) layout torrentName destDir in
          case validateTargetInsideBase cwd targetPath destDir of
            Some e \<Rightarrow> Inl e
          | None \<Rightarrow>
              (case planFiles cwd entries layout torrentName destDir cfs (een_pos entry # used) of
                 Inl e \<Rightarrow> Inl e
               | Inr files \<Rightarrow>
                   Inr (\<lparr>fpl_SourcePath = exf_AbsPath (een_file entry), fpl_TargetPath = targetPath\<rparr> # files)))"

fun validateCandidates :: "link_torrent_file list \<Rightarrow> link_plan_error option" where
  "validateCandidates [] = None"
| "validateCandidates (cf # cfs) =
     (case validateCandidatePath (ltf_Path cf) of Some e \<Rightarrow> Some e | None \<Rightarrow> validateCandidates cfs)"

definition BuildPlan ::
  "string \<Rightarrow> link_torrent_file list \<Rightarrow> existing_file list \<Rightarrow> content_layout \<Rightarrow> string \<Rightarrow> string \<Rightarrow>
    link_plan_error + tree_plan" where
  "BuildPlan cwd candidateFiles existingFiles layout torrentName destDir =
     (if candidateFiles = [] then Inl NoCandidateFiles
      else if existingFiles = [] then Inl NoExistingFiles
      else if destDir = [] then Inl NoDestination
      else case validateCandidates candidateFiles of
        Some e \<Rightarrow> Inl e
      | None \<Rightarrow>
          (case planFiles cwd (existingEntries existingFiles) layout torrentName destDir candidateFiles [] of
             Inl e \<Rightarrow> Inl e
           | Inr files \<Rightarrow> Inr \<lparr>tpl_RootDir = destDir, tpl_Files = sort_key fpl_TargetPath files\<rparr>))"

text \<open>\<open>HasCommonRootFolder\<close>: the root of each file, none for a file at the top level.\<close>

definition rootOf :: "link_torrent_file \<Rightarrow> string option" where
  "rootOf f = (if CHR ''/'' \<in> set (ltf_Path f) then Some (before_first (CHR ''/'') (ltf_Path f)) else None)"

definition HasCommonRootFolder :: "link_torrent_file list \<Rightarrow> bool" where
  "HasCommonRootFolder files =
     (case files of
        [] \<Rightarrow> False
      | f # fs \<Rightarrow>
          (case rootOf f of
             None \<Rightarrow> False
           | Some commonRoot \<Rightarrow> list_all (\<lambda>g. rootOf g = Some commonRoot) fs \<and> commonRoot \<noteq> []))"

section \<open>What a plan guarantees\<close>

lemma first_some_mem: "first_some xs = Some x \<Longrightarrow> Some x \<in> set xs"
  by (induction xs rule: first_some.induct) auto

lemma only_one_mem: "Some x = only_one xs \<Longrightarrow> x \<in> set xs"
  by (auto simp: only_one_def split: list.splits)

lemma find_mem: "Some x = List.find P xs \<Longrightarrow> x \<in> set xs"
  by (auto simp: find_Some_iff2)

lemma matchCandidate_mem:
  assumes "matchCandidate entries used cf = Inr e"
  shows "e \<in> set entries" and "een_pos e \<notin> set used" and "exf_Size (een_file e) = ltf_Size cf"
proof -
  let ?av = "filter (\<lambda>e. een_pos e \<notin> set used) (filter (\<lambda>e. exf_Size (een_file e) = ltf_Size cf) entries)"
  obtain b n where "first_some [List.find (\<lambda>e. exf_RelPath (een_file e) = ltf_Path cf) ?av, only_one (filter b ?av),
      only_one (filter n ?av), only_one ?av] = Some e"
    using assms by (auto simp: matchCandidate_def Let_def split: if_splits option.splits)
  from first_some_mem [OF this] have "e \<in> set ?av"
    by (auto dest!: only_one_mem find_mem)
  then show "e \<in> set entries" and "een_pos e \<notin> set used" and "exf_Size (een_file e) = ltf_Size cf"
    by auto
qed

lemma existingEntries_mem:
  "e \<in> set (existingEntries files) \<Longrightarrow> een_pos e < length files \<and> een_file e = files ! een_pos e"
  by (auto simp: existingEntries_def in_set_enumerate_eq)

definition planned :: "existing_file list \<Rightarrow> content_layout \<Rightarrow> string \<Rightarrow> string \<Rightarrow> link_torrent_file \<Rightarrow> nat \<Rightarrow> file_plan" where
  "planned files layout torrentName destDir cf k =
     \<lparr>fpl_SourcePath = exf_AbsPath (files ! k), fpl_TargetPath = computeTargetPath (ltf_Path cf) layout torrentName destDir\<rparr>"

lemma planFiles_sound:
  "planFiles cwd (existingEntries files) layout torrentName destDir cfs used = Inr fps \<Longrightarrow>
    \<exists>ks. length ks = length cfs \<and> distinct ks \<and> set ks \<inter> set used = {} \<and>
      list_all2 (\<lambda>cf k. k < length files \<and> exf_Size (files ! k) = ltf_Size cf) cfs ks \<and>
      fps = map2 (planned files layout torrentName destDir) cfs ks \<and>
      list_all (\<lambda>fp. validateTargetInsideBase cwd (fpl_TargetPath fp) destDir = None) fps"
proof (induction cfs arbitrary: used fps)
  case (Cons cf cfs)
  obtain e where e: "matchCandidate (existingEntries files) used cf = Inr e"
    using Cons.prems by (auto split: sum.splits)
  note mem = matchCandidate_mem [OF e] existingEntries_mem [OF matchCandidate_mem(1) [OF e]]
  obtain rest where v: "validateTargetInsideBase cwd (computeTargetPath (ltf_Path cf) layout torrentName destDir) destDir = None"
      and rest: "planFiles cwd (existingEntries files) layout torrentName destDir cfs (een_pos e # used) = Inr rest"
      and fps: "fps = planned files layout torrentName destDir cf (een_pos e) # rest"
    using Cons.prems e mem(4) by (auto simp: Let_def planned_def split: option.splits sum.splits)
  obtain ks where ks: "length ks = length cfs" "distinct ks" "set ks \<inter> set (een_pos e # used) = {}"
      "list_all2 (\<lambda>cf k. k < length files \<and> exf_Size (files ! k) = ltf_Size cf) cfs ks"
      "rest = map2 (planned files layout torrentName destDir) cfs ks"
      "list_all (\<lambda>fp. validateTargetInsideBase cwd (fpl_TargetPath fp) destDir = None) rest"
    using Cons.IH [OF rest] by blast
  then show ?case
    using mem v fps by (intro exI [of _ "een_pos e # ks"]) (auto simp: planned_def)
qed simp

lemma path_abs_rooted: "is_rooted cwd \<Longrightarrow> is_rooted (path_abs cwd p)"
  using clean_abs_path_abs clean_abs_def by blast

lemma validateTargetInsideBase_inside:
  assumes "validateTargetInsideBase cwd target destDir = None" and "is_rooted cwd"
  shows "prefix (path_comps (path_clean (path_abs cwd destDir))) (path_comps (path_clean (path_abs cwd target)))"
proof -
  obtain r where "path_rel (path_abs cwd destDir) (path_abs cwd target) = Some r" and "r \<noteq> ''..''" and "\<not> has_prefix r ''../''"
    using assms(1) by (auto simp: validateTargetInsideBase_def split: option.splits if_splits)
  then show ?thesis
    using path_rel_inside path_abs_rooted [OF assms(2)] by blast
qed

text \<open>
  C40. A plan has the destination as its root and one link per file of the torrent. The sources are
  different existing files --- different by their position in the list, so no file is used twice ---, each
  of the size of the torrent's file, the targets are the places the layout gives the torrent's files, and
  no target leaves the destination.
\<close>

theorem BuildPlan_sound:
  assumes "BuildPlan cwd candidateFiles existingFiles layout torrentName destDir = Inr plan" and "is_rooted cwd"
  shows "tpl_RootDir plan = destDir \<and>
    (\<exists>ks. distinct ks \<and>
      list_all2 (\<lambda>cf k. k < length existingFiles \<and> exf_Size (existingFiles ! k) = ltf_Size cf) candidateFiles ks \<and>
      mset (tpl_Files plan) = mset (map2 (planned existingFiles layout torrentName destDir) candidateFiles ks)) \<and>
    sorted (map fpl_TargetPath (tpl_Files plan)) \<and>
    (\<forall>fp \<in> set (tpl_Files plan).
      prefix (path_comps (path_clean (path_abs cwd destDir))) (path_comps (path_clean (path_abs cwd (fpl_TargetPath fp)))))"
proof -
  obtain fps where fps: "planFiles cwd (existingEntries existingFiles) layout torrentName destDir candidateFiles [] = Inr fps"
      and plan: "plan = \<lparr>tpl_RootDir = destDir, tpl_Files = sort_key fpl_TargetPath fps\<rparr>"
    using assms(1) by (auto simp: BuildPlan_def split: if_splits option.splits sum.splits)
  obtain ks where "distinct ks"
      "list_all2 (\<lambda>cf k. k < length existingFiles \<and> exf_Size (existingFiles ! k) = ltf_Size cf) candidateFiles ks"
      "fps = map2 (planned existingFiles layout torrentName destDir) candidateFiles ks"
      and inside: "list_all (\<lambda>fp. validateTargetInsideBase cwd (fpl_TargetPath fp) destDir = None) fps"
    using planFiles_sound [OF fps] by blast
  moreover have "prefix (path_comps (path_clean (path_abs cwd destDir))) (path_comps (path_clean (path_abs cwd (fpl_TargetPath fp))))"
    if "fp \<in> set fps" for fp
    using inside that validateTargetInsideBase_inside [OF _ assms(2)] by (simp add: list_all_iff)
  ultimately show ?thesis
    using plan by auto
qed

theorem BuildPlan_sound_witness:
  "case BuildPlan ''/srv'' [\<lparr>ltf_Path = ''Show/e1.mkv'', ltf_Size = 10\<rparr>, \<lparr>ltf_Path = ''Show/e1.nfo'', ltf_Size = 3\<rparr>]
      [\<lparr>exf_AbsPath = ''/d/a.nfo'', exf_RelPath = ''a.nfo'', exf_Size = 3\<rparr>, \<lparr>exf_AbsPath = ''/d/E1.mkv'', exf_RelPath = ''E1.mkv'', exf_Size = 10\<rparr>]
      LayoutNoSubfolder ''Show'' ''links'' of
     Inl e \<Rightarrow> False
   | Inr plan \<Rightarrow> map fpl_SourcePath (tpl_Files plan) = [''/d/E1.mkv'', ''/d/a.nfo''] \<and>
       map fpl_TargetPath (tpl_Files plan) = [''links/e1.mkv'', ''links/e1.nfo''] \<and>
       sorted (map fpl_TargetPath (tpl_Files plan))"
proof -
  let ?plan = "BuildPlan ''/srv'' [\<lparr>ltf_Path = ''Show/e1.mkv'', ltf_Size = 10\<rparr>, \<lparr>ltf_Path = ''Show/e1.nfo'', ltf_Size = 3\<rparr>]
      [\<lparr>exf_AbsPath = ''/d/a.nfo'', exf_RelPath = ''a.nfo'', exf_Size = 3\<rparr>, \<lparr>exf_AbsPath = ''/d/E1.mkv'', exf_RelPath = ''E1.mkv'', exf_Size = 10\<rparr>]
      LayoutNoSubfolder ''Show'' ''links''"
  have "case ?plan of Inl e \<Rightarrow> False
   | Inr plan \<Rightarrow> map fpl_SourcePath (tpl_Files plan) = [''/d/E1.mkv'', ''/d/a.nfo''] \<and>
       map fpl_TargetPath (tpl_Files plan) = [''links/e1.mkv'', ''links/e1.nfo'']"
    by code_simp
  moreover have "sorted (map fpl_TargetPath (tpl_Files plan))" if "?plan = Inr plan" for plan
    using BuildPlan_sound [OF that] by simp
  ultimately show ?thesis
    by (simp split: sum.splits)
qed

text \<open>Nothing keeps two files of a torrent from getting the same place when their folders are stripped.\<close>

lemma BuildPlan_same_target:
  "case BuildPlan ''/srv'' [\<lparr>ltf_Path = ''A/x.mkv'', ltf_Size = 10\<rparr>, \<lparr>ltf_Path = ''B/x.mkv'', ltf_Size = 11\<rparr>]
      [\<lparr>exf_AbsPath = ''/d/1'', exf_RelPath = ''1'', exf_Size = 10\<rparr>, \<lparr>exf_AbsPath = ''/d/2'', exf_RelPath = ''2'', exf_Size = 11\<rparr>]
      LayoutNoSubfolder ''T'' ''/links'' of
     Inl e \<Rightarrow> False
   | Inr plan \<Rightarrow> map fpl_TargetPath (tpl_Files plan) = [''/links/x.mkv'', ''/links/x.mkv'']"
  by code_simp

end
