(* ===== verification/Release_Names.thy ===== *)
theory Release_Names
  imports Go_Utf8
begin

text \<open>
  Names of releases and their normal forms: \<open>src/pkg/stringutils\<close> (normalisation of titles) and
  \<open>src/pkg/releases\<close> (codecs, sources, HDR tags, the parser with its HDR enrichment). The release
  parser \<open>rls\<close>, the transformer of \<open>golang.org/x/text\<close> that decomposes characters and removes the
  marks, and the regular expressions are the record \<open>match_lib\<close>. The caches of these pure functions
  have no counterpart.
\<close>

section \<open>Releases\<close>

text \<open>The fields of \<open>rls.Release\<close> the program reads; \<open>RlsUnknown\<close> is the zero value of its type.\<close>

datatype rls_type = RlsUnknown | RlsMovie | RlsSeries | RlsEpisode | RlsMusic | RlsOther string

record rls_release =
  rr_Type :: rls_type
  rr_Artist :: string
  rr_Title :: string
  rr_Alt :: string
  rr_Platform :: string
  rr_Arch :: string
  rr_Source :: string
  rr_Resolution :: string
  rr_Collection :: string
  rr_Year :: int
  rr_Month :: int
  rr_Day :: int
  rr_Series :: int
  rr_Episode :: int
  rr_Version :: string
  rr_Disc :: string
  rr_Codec :: "string list"
  rr_HDR :: "string list"
  rr_Audio :: "string list"
  rr_Other :: "string list"
  rr_Cut :: "string list"
  rr_Edition :: "string list"
  rr_Language :: "string list"
  rr_BitDepth :: string
  rr_Sum :: string
  rr_Site :: string
  rr_Group :: string

definition zeroRelease :: rls_release where
  "zeroRelease = \<lparr>rr_Type = RlsUnknown, rr_Artist = [], rr_Title = [], rr_Alt = [], rr_Platform = [], rr_Arch = [],
     rr_Source = [], rr_Resolution = [], rr_Collection = [], rr_Year = 0, rr_Month = 0, rr_Day = 0, rr_Series = 0,
     rr_Episode = 0, rr_Version = [], rr_Disc = [], rr_Codec = [], rr_HDR = [], rr_Audio = [], rr_Other = [],
     rr_Cut = [], rr_Edition = [], rr_Language = [], rr_BitDepth = [], rr_Sum = [], rr_Site = [], rr_Group = []\<rparr>"

text \<open>
  \<open>ml_findIndex pattern s\<close> is the start of the first match of the pattern; \<open>ml_isWordRune\<close> tells letters
  and digits among the runes outside ASCII.
\<close>

record match_lib =
  ml_parseString :: "string \<Rightarrow> rls_release"
  ml_decompose :: "string \<Rightarrow> string option"
  ml_isWordRune :: "string \<Rightarrow> bool"
  ml_findIndex :: "string \<Rightarrow> string \<Rightarrow> nat option"
  ml_quoteMeta :: "string \<Rightarrow> string"

section \<open>Replacing and splitting\<close>

text \<open>\<open>strings.ReplaceAll\<close> and \<open>strings.Split\<close> for a pattern that is not empty.\<close>

fun replace_all :: "string \<Rightarrow> string \<Rightarrow> string \<Rightarrow> string" where
  "replace_all old new [] = []"
| "replace_all old new (c # cs) =
     (if prefix old (c # cs) then new @ replace_all old new (drop (length old - 1) cs)
      else c # replace_all old new cs)"

fun split_str :: "string \<Rightarrow> string \<Rightarrow> string list" where
  "split_str sep [] = [[]]"
| "split_str sep (c # cs) =
     (if prefix sep (c # cs) then [] # split_str sep (drop (length sep - 1) cs)
      else (case split_str sep cs of [] \<Rightarrow> [[c]] | w # ws \<Rightarrow> (c # w) # ws))"

text \<open>A \<open>strings.Replacer\<close> that replaces each of the strings of a list by the same string.\<close>

fun replace_each :: "string list \<Rightarrow> string \<Rightarrow> string \<Rightarrow> string" where
  "replace_each olds new [] = []"
| "replace_each olds new (c # cs) =
     (case List.find (\<lambda>old. prefix old (c # cs)) olds of
        None \<Rightarrow> c # replace_each olds new cs
      | Some old \<Rightarrow> new @ replace_each olds new (drop (length old - 1) cs))"

text \<open>\<open>strings.FieldsFunc\<close>: the longest pieces without a separator.\<close>

function fields_by :: "(char \<Rightarrow> bool) \<Rightarrow> string \<Rightarrow> string list" where
  "fields_by sep [] = []"
| "fields_by sep (c # cs) =
     (if sep c then fields_by sep cs
      else (c # takeWhile (\<lambda>x. \<not> sep x) cs) # fields_by sep (dropWhile (\<lambda>x. \<not> sep x) cs))"
  by pat_completeness auto
termination
  by (relation "measure (\<lambda>(sep, s). length s)") (simp_all add: length_dropWhile_le less_Suc_eq_le)

definition trim_right_chars :: "string \<Rightarrow> string \<Rightarrow> string" where
  "trim_right_chars cs s = rev (dropWhile (\<lambda>c. c \<in> set cs) (rev s))"

section \<open>Titles\<close>

text \<open>\<open>defaultTransform\<close> is \<open>normalizeLowerTrim\<close> of the base theory, under the name of this package.\<close>

definition defaultTransform :: "string \<Rightarrow> string" where
  "defaultTransform s = to_lower (trim_space s)"

definition special_letters :: "(string \<times> string) list" where
  "special_letters =
     [([CHR 0xC3, CHR 0xA6], ''ae''), ([CHR 0xC3, CHR 0x86], ''AE''), ([CHR 0xC5, CHR 0x93], ''oe''),
      ([CHR 0xC5, CHR 0x92], ''OE''), ([CHR 0xC3, CHR 0xB8], ''o''), ([CHR 0xC3, CHR 0x98], ''O''),
      ([CHR 0xC3, CHR 0x9F], ''ss''), ([CHR 0xC3, CHR 0xB0], ''d''), ([CHR 0xC3, CHR 0x90], ''D''),
      ([CHR 0xC3, CHR 0xBE], ''th''), ([CHR 0xC3, CHR 0x9E], ''TH'')]"

definition normalizeUnicodeInner :: "match_lib \<Rightarrow> string \<Rightarrow> string" where
  "normalizeUnicodeInner lib s0 =
     (let s = fold (\<lambda>(old, new). replace_all old new) special_letters s0 in
      case ml_decompose lib s of None \<Rightarrow> s | Some t \<Rightarrow> t)"

text \<open>The decorative symbols of anime titles, as UTF-8.\<close>

definition animeTitleSymbols :: "string list" where
  "animeTitleSymbols =
     [[CHR 0xE2, CHR 0x98, CHR 0x85], [CHR 0xE2, CHR 0x98, CHR 0x86], [CHR 0xE2, CHR 0x9C, CHR 0xA9],
      [CHR 0xE2, CHR 0x9C, CHR 0xAD], [CHR 0xE2, CHR 0x9C, CHR 0xAF], [CHR 0xE2, CHR 0x9C, CHR 0xB0],
      [CHR 0xE2, CHR 0x9C, CHR 0xA6], [CHR 0xE2, CHR 0x9C, CHR 0xA7], [CHR 0xE2, CHR 0x97, CHR 0x86],
      [CHR 0xE2, CHR 0x97, CHR 0x87], [CHR 0xE2, CHR 0x96, CHR 0xA0], [CHR 0xE2, CHR 0x96, CHR 0xA1],
      [CHR 0xE2, CHR 0x97, CHR 0x8F], [CHR 0xE2, CHR 0x97, CHR 0x8B], [CHR 0xE2, CHR 0x97, CHR 0x8E],
      [CHR 0xE2, CHR 0x99, CHR 0xAA], [CHR 0xE2, CHR 0x99, CHR 0xAB], [CHR 0xE2, CHR 0x99, CHR 0xAC],
      [CHR 0xE2, CHR 0x99, CHR 0xA9], [CHR 0xE2, CHR 0x99, CHR 0xA1], [CHR 0xE2, CHR 0x99, CHR 0xA5],
      [CHR 0xE3, CHR 0x83, CHR 0xBB], [CHR 0xEF, CHR 0xBD, CHR 0xA5], [CHR 0xC2, CHR 0xB7],
      [CHR 0xE2, CHR 0x80, CHR 0xA2]]"

definition normalizedTitle :: "match_lib \<Rightarrow> string \<Rightarrow> string" where
  "normalizedTitle lib s0 =
     (let s1 = to_lower (trim_space (normalizeUnicodeInner lib s0));
          s2 = fold (\<lambda>old. replace_all old [])
            [[CHR 0x27], [CHR 0xE2, CHR 0x80, CHR 0x99], [CHR 0xE2, CHR 0x80, CHR 0x98], [CHR 0xCA, CHR 0xBC], [CHR 0x60], '':''] s1;
          s3 = replace_all ''-'' '' '' (replace_all ''&'' '' and '' (replace_all '','' '' '' s2));
          s4 = replace_each animeTitleSymbols '' '' s3
      in join_with '' '' (fields_by is_space s4))"

section \<open>Codecs and sources\<close>

definition videoCodecAliases :: "(string, string) gomap" where
  "videoCodecAliases = [(''X264'', ''AVC''), (''H.264'', ''AVC''), (''H264'', ''AVC''), (''AVC'', ''AVC''),
     (''X265'', ''HEVC''), (''H.265'', ''HEVC''), (''H265'', ''HEVC''), (''HEVC'', ''HEVC'')]"

definition sourceAliases :: "(string, string) gomap" where
  "sourceAliases = [(''WEB-DL'', ''WEBDL''), (''WEBDL'', ''WEBDL''), (''WEB-RIP'', ''WEBRIP''), (''WEBRIP'', ''WEBRIP''),
     (''WEB'', ''WEB'')]"

definition aliased :: "(string, string) gomap \<Rightarrow> string \<Rightarrow> string" where
  "aliased aliases s = (let upper = to_upper (trim_space s) in case gm_get aliases upper of Some canonical \<Rightarrow> canonical | None \<Rightarrow> upper)"

definition NormalizeVideoCodec :: "string \<Rightarrow> string" where
  "NormalizeVideoCodec codec = aliased videoCodecAliases codec"

definition NormalizeSource :: "string \<Rightarrow> string" where
  "NormalizeSource source = aliased sourceAliases source"

definition JoinNormalizedCodecSlice :: "string list \<Rightarrow> string" where
  "JoinNormalizedCodecSlice slice = join_with '' '' (sort (fold (\<lambda>codec. gs_add (NormalizeVideoCodec codec)) slice []))"

section \<open>HDR tags\<close>

definition CanonicalHDRTag :: "string \<Rightarrow> string" where
  "CanonicalHDRTag tag =
     (let upper = to_upper (trim_space tag) in
      if upper = [] then []
      else
        let key = filter (\<lambda>c. c \<noteq> CHR 0x20 \<and> c \<noteq> CHR ''.'' \<and> c \<noteq> CHR ''_'' \<and> c \<noteq> CHR ''-'') upper in
        if List.member [''DOVI'', ''DOLBYVISION'', ''DV''] key then ''DV''
        else if List.member [''HDR10PLUS'', ''HDR10P'', ''HDR10+''] key then ''HDR10+''
        else if List.member [''HDR10'', ''HDR'', ''HLG''] key then key
        else upper)"

definition seenHDRTags :: "string list \<Rightarrow> string goset" where
  "seenHDRTags tags = fold (\<lambda>tag s. let c = CanonicalHDRTag tag in if c = [] then s else gs_add c s) tags []"

definition NormalizeHDRTags :: "string list \<Rightarrow> string list" where
  "NormalizeHDRTags tags =
     (let seen = seenHDRTags tags in
      sort (if List.member seen ''HDR10+'' then filter (\<lambda>t. t \<noteq> ''HDR10'') seen else seen))"

definition hdrCodecs :: "string list" where
  "hdrCodecs = [''X264'', ''H264'', ''H.264'', ''AVC'', ''X265'', ''H265'', ''H.265'', ''HEVC'', ''AV1'', ''XVID'', ''DIVX'']"

definition shouldScanRawHDR :: "rls_release \<Rightarrow> bool" where
  "shouldScanRawHDR release \<longleftrightarrow>
     rr_Type release = RlsMovie \<or> rr_Type release = RlsSeries \<or> rr_Type release = RlsEpisode \<or>
     rr_Resolution release \<noteq> [] \<or> rr_Source release \<noteq> [] \<or>
     list_ex (\<lambda>codec. List.member [''DV'', ''HDR'', ''HDR10'', ''HDR10+'', ''HLG''] (CanonicalHDRTag codec) \<or>
       List.member hdrCodecs (to_upper (trim_space codec))) (rr_Codec release)"

text \<open>The patterns of the five tags.\<close>

definition hdrTagMatchers :: "(string \<times> string) list" where
  "hdrTagMatchers =
     (let start = ''(?i)(?:^|[^A-Z0-9])''; fin = ''(?:$|[^A-Z0-9])'' in
      [(''DV'', start @ ''(?:DV|DOVI|DOLBY[ ._-]?VISION)'' @ fin),
       (''HDR10+'', start @ ''HDR(?:[ ._-]?10(?:[ ._-]?(?:'' @ [CHR 0x5C] @ ''+|P(?:LUS)?)))'' @ fin),
       (''HDR10'', start @ ''HDR(?:[ ._-]?10)(?:$|[^A-Z0-9+P])''),
       (''HDR'', start @ ''HDR(?:$|[^A-Z0-9+])''),
       (''HLG'', start @ ''HLG'' @ fin)])"

text \<open>Removing the group and the site at the end of a name, so that they are not taken for tags.\<close>

definition trimTrailingDelimitedToken :: "string \<Rightarrow> string \<Rightarrow> string option" where
  "trimTrailingDelimitedToken rawName token =
     (if length rawName \<le> length token then None
      else
        let start = length rawName - length token; pre = take start rawName; trimmed = trim_right_chars '' ._-'' pre in
        if \<not> equal_fold (drop start rawName) token then None
        else if length trimmed = length pre then None
        else Some (trim_space trimmed))"

definition trimTrailingWrappedToken :: "string \<Rightarrow> string \<Rightarrow> string option" where
  "trimTrailingWrappedToken rawName wrapped =
     (if length rawName < length wrapped then None
      else
        let start = length rawName - length wrapped in
        if \<not> equal_fold (drop start rawName) wrapped then None
        else Some (trim_space (take start rawName)))"

definition trailingTokenRegexes :: "match_lib \<Rightarrow> string \<Rightarrow> string list" where
  "trailingTokenRegexes lib token =
     (let bs = [CHR 0x5C]; quoted = ml_quoteMeta lib token; ext = ''(?:'' @ bs @ ''.[^./'' @ bs @ bs @ '']+)?$'' in
      [''(?i)['' @ bs @ ''s._-]+'' @ quoted @ ext,
       ''(?i)'' @ bs @ ''['' @ quoted @ bs @ '']'' @ ext,
       ''(?i)'' @ bs @ ''('' @ quoted @ bs @ '')'' @ ext])"

definition trimTrailingParsedToken :: "match_lib \<Rightarrow> string \<Rightarrow> string \<Rightarrow> string" where
  "trimTrailingParsedToken lib rawName token0 =
     (let token = trim_space token0 in
      if rawName = [] \<or> token = [] then rawName
      else case trimTrailingDelimitedToken rawName token of
        Some t \<Rightarrow> t
      | None \<Rightarrow>
          (case trimTrailingWrappedToken rawName (''['' @ token @ '']'') of
             Some t \<Rightarrow> t
           | None \<Rightarrow>
               (case trimTrailingWrappedToken rawName (''('' @ token @ '')'') of
                  Some t \<Rightarrow> t
                | None \<Rightarrow>
                    trim_space (fold (\<lambda>re s. case ml_findIndex lib re s of
                        None \<Rightarrow> s | Some i \<Rightarrow> trim_right_chars '' ._-'' (take i s))
                      (trailingTokenRegexes lib token) rawName))))"

definition trimOnce :: "match_lib \<Rightarrow> rls_release \<Rightarrow> string \<Rightarrow> string" where
  "trimOnce lib release s = fold (\<lambda>token t. trimTrailingParsedToken lib t token) [rr_Group release, rr_Site release] s"

text \<open>The loop ends: a round that changes the name makes it shorter.\<close>

lemma sublist_length_eq: "sublist s t \<Longrightarrow> length s = length t \<Longrightarrow> s = t"
  by (auto simp: sublist_def)

lemma sublist_trim_space: "sublist (trim_space s) s"
proof -
  have "suffix (trim_left s) s" and "suffix (trim_left (rev (trim_left s))) (rev (trim_left s))"
    by (rule trim_left_suffix)+
  then have "prefix (trim_space s) (trim_left s)"
    by (simp add: trim_space_alt suffix_to_prefix)
  with \<open>suffix (trim_left s) s\<close> show ?thesis
    by (meson prefix_imp_sublist sublist_order.order_trans suffix_imp_sublist)
qed

lemma sublist_trim_right_chars: "sublist (trim_right_chars cs s) s"
proof -
  have "suffix (dropWhile (\<lambda>c. c \<in> set cs) (rev s)) (rev s)"
    by (rule suffix_dropWhile)
  then have "prefix (trim_right_chars cs s) s"
    by (simp add: trim_right_chars_def suffix_to_prefix)
  then show ?thesis
    by (rule prefix_imp_sublist)
qed

lemma sublist_take_trans: "sublist s (take n t) \<Longrightarrow> sublist s t"
  using sublist_order.order_trans sublist_take by blast

lemma sublist_trimTrailingDelimitedToken: "trimTrailingDelimitedToken s tok = Some t \<Longrightarrow> sublist t s"
  by (auto simp: trimTrailingDelimitedToken_def Let_def split: if_splits
      intro: sublist_take_trans sublist_order.order_trans [OF sublist_trim_space sublist_trim_right_chars])

lemma sublist_trimTrailingWrappedToken: "trimTrailingWrappedToken s w = Some t \<Longrightarrow> sublist t s"
  by (auto simp: trimTrailingWrappedToken_def Let_def split: if_splits intro: sublist_take_trans sublist_trim_space)

lemma sublist_fold: "(\<And>x s. sublist (f x s) s) \<Longrightarrow> sublist (fold f xs s) s"
proof (induction xs arbitrary: s)
  case (Cons x xs)
  have "sublist (fold f xs (f x s)) (f x s)"
    by (rule Cons.IH) (rule Cons.prems)
  also have "sublist (f x s) s"
    by (rule Cons.prems)
  finally show ?case
    by simp
qed simp

lemma sublist_trimTrailingParsedToken: "sublist (trimTrailingParsedToken lib s token) s"
proof -
  have "sublist (fold (\<lambda>re s. case ml_findIndex lib re s of None \<Rightarrow> s | Some i \<Rightarrow> trim_right_chars '' ._-'' (take i s)) res s) s" for res
    by (rule sublist_fold) (auto split: option.split intro: sublist_take_trans sublist_trim_right_chars)
  then show ?thesis
    unfolding trimTrailingParsedToken_def Let_def
    by (simp split: option.split add: sublist_trimTrailingDelimitedToken sublist_trimTrailingWrappedToken)
       (blast intro: sublist_order.order_trans [OF sublist_trim_space] sublist_trimTrailingDelimitedToken sublist_trimTrailingWrappedToken)
qed

lemma sublist_trimOnce: "sublist (trimOnce lib release s) s"
  unfolding trimOnce_def by (rule sublist_fold) (rule sublist_trimTrailingParsedToken)

function trimLoop :: "match_lib \<Rightarrow> rls_release \<Rightarrow> string \<Rightarrow> string" where
  "trimLoop lib release s = (let t = trimOnce lib release s in if t = s then s else trimLoop lib release t)"
  by pat_completeness auto
termination
proof (relation "measure (\<lambda>(lib, release, s). length s)")
  fix lib release s x
  assume "x = trimOnce lib release s" and "x \<noteq> s"
  then show "((lib, release, x), lib, release, s) \<in> measure (\<lambda>(lib, release, s). length s)"
    using sublist_trimOnce [of lib release s] sublist_length_le [of x s] sublist_length_eq [of x s] by force
qed simp

declare trimLoop.simps [simp del]

definition trimTrailingGroupOrSite :: "match_lib \<Rightarrow> string \<Rightarrow> rls_release \<Rightarrow> string" where
  "trimTrailingGroupOrSite lib rawName release =
     (let trimmed = trim_space rawName in if trimmed = [] then [] else trimLoop lib release trimmed)"

definition enrichReleaseHDR :: "match_lib \<Rightarrow> string \<Rightarrow> rls_release \<Rightarrow> rls_release" where
  "enrichReleaseHDR lib rawName release =
     (let found = (if shouldScanRawHDR release then
            let scanName = trimTrailingGroupOrSite lib rawName release in
            map fst (filter (\<lambda>(tag, re). ml_findIndex lib re scanName \<noteq> None) hdrTagMatchers)
          else [])
      in release\<lparr>rr_HDR := NormalizeHDRTags (rr_HDR release @ found)\<rparr>)"

text \<open>\<open>Parser.Parse\<close>, of a parser that is not \<open>nil\<close>.\<close>

definition parseRelease :: "match_lib \<Rightarrow> string \<Rightarrow> rls_release" where
  "parseRelease lib name =
     (let key = trim_space name in
      if key = [] then zeroRelease else enrichReleaseHDR lib key (ml_parseString lib key))"

section \<open>Normal forms\<close>

text \<open>Normalised HDR tags are sorted and different, never hold HDR10 beside HDR10+, and do not depend on the order of the tags.\<close>

lemma seenHDRTags_set: "set (seenHDRTags tags) = CanonicalHDRTag ` set tags - {[]}" (is ?set)
  and seenHDRTags_distinct: "distinct (seenHDRTags tags)" (is ?distinct)
proof -
  have "set (fold (\<lambda>x s. let c = CanonicalHDRTag x in if c = [] then s else gs_add c s) tags s) =
          set s \<union> (CanonicalHDRTag ` set tags - {[]}) \<and>
        (distinct s \<longrightarrow> distinct (fold (\<lambda>x s. let c = CanonicalHDRTag x in if c = [] then s else gs_add c s) tags s))" for s
    by (induction tags arbitrary: s) (auto simp: Let_def)
  from this [of "[]"] show ?set ?distinct
    by (simp_all add: seenHDRTags_def)
qed

lemma set_NormalizeHDRTags:
  "set (NormalizeHDRTags tags) =
     (let tags' = CanonicalHDRTag ` set tags - {[]} in if ''HDR10+'' \<in> tags' then tags' - {''HDR10''} else tags')"
  by (auto simp: NormalizeHDRTags_def Let_def seenHDRTags_set)

lemma distinct_NormalizeHDRTags: "distinct (NormalizeHDRTags tags)" "sorted (NormalizeHDRTags tags)"
  by (simp_all add: NormalizeHDRTags_def Let_def seenHDRTags_distinct)

lemma NormalizeHDRTags_cong:
  assumes "set tags = set tags'"
  shows "NormalizeHDRTags tags = NormalizeHDRTags tags'"
  using sorted_distinct_set_unique [OF distinct_NormalizeHDRTags(2,1) distinct_NormalizeHDRTags(2,1)]
    set_NormalizeHDRTags [of tags] set_NormalizeHDRTags [of tags'] assms by simp

end
