(* ===== verification/Release_Match.thy ===== *)
theory Release_Match
  imports Release_Names Go_Number
begin

text \<open>
  When two releases are the same content: the checks of \<open>src/internal/services/crossseed/matching.go\<close>
  on parsed names and the tags of \<open>variant_overrides.go\<close>. A check gives \<open>None\<close> when it passes and the
  reason otherwise.
\<close>

section \<open>Kinds of releases\<close>

text \<open>The functions that accept a nil release take an option.\<close>

definition isTVRelease :: "rls_release \<Rightarrow> bool" where
  "isTVRelease r \<longleftrightarrow> rr_Type r = RlsSeries \<or> rr_Type r = RlsEpisode \<or> rr_Series r > 0 \<or> rr_Episode r > 0"

definition isTVEpisode :: "rls_release \<Rightarrow> bool" where
  "isTVEpisode r \<longleftrightarrow> isTVRelease r \<and> rr_Episode r > 0"

definition isTVSeasonPack :: "rls_release \<Rightarrow> bool" where
  "isTVSeasonPack r \<longleftrightarrow> isTVRelease r \<and> (rr_Series r > 0 \<or> rr_Type r = RlsSeries) \<and> rr_Episode r = 0"

definition rejectSeasonPackFromEpisode :: "rls_release \<Rightarrow> rls_release \<Rightarrow> bool \<Rightarrow> bool" where
  "rejectSeasonPackFromEpisode newR existingR episodeMatching \<longleftrightarrow>
     episodeMatching \<and> isTVSeasonPack newR \<and> isTVEpisode existingR"

record release_key =
  rk_series :: int
  rk_episode :: int
  rk_year :: int
  rk_month :: int
  rk_day :: int

definition zeroKey :: release_key where
  "zeroKey = \<lparr>rk_series = 0, rk_episode = 0, rk_year = 0, rk_month = 0, rk_day = 0\<rparr>"

definition makeReleaseKey :: "rls_release \<Rightarrow> release_key" where
  "makeReleaseKey r =
     (if rr_Series r > 0 \<and> rr_Episode r > 0 then zeroKey\<lparr>rk_series := rr_Series r, rk_episode := rr_Episode r\<rparr>
      else if rr_Series r > 0 then zeroKey\<lparr>rk_series := rr_Series r\<rparr>
      else if rr_Year r > 0 \<and> rr_Month r > 0 \<and> rr_Day r > 0
        then zeroKey\<lparr>rk_year := rr_Year r, rk_month := rr_Month r, rk_day := rr_Day r\<rparr>
      else if rr_Year r > 0 then zeroKey\<lparr>rk_year := rr_Year r\<rparr>
      else zeroKey)"

section \<open>Normal forms of the tags\<close>

definition normalizeVariant :: "string \<Rightarrow> string" where
  "normalizeVariant value = to_upper (trim_space value)"

definition joinNormalizedSlice :: "string list \<Rightarrow> string" where
  "joinNormalizedSlice slice = join_with '' '' (sort (map normalizeVariant slice))"

definition joinNormalizedHDRSlice :: "string list \<Rightarrow> string" where
  "joinNormalizedHDRSlice slice = join_with '' '' (NormalizeHDRTags slice)"

definition matchCodecAliases :: "(string, string) gomap" where
  "matchCodecAliases = [(''X264'', ''AVC''), (''H.264'', ''AVC''), (''H264'', ''AVC''), (''AVC'', ''AVC''),
     (''X265'', ''HEVC''), (''H.265'', ''HEVC''), (''H265'', ''HEVC''), (''HEVC'', ''HEVC'')]"

definition matchSourceAliases :: "(string, string) gomap" where
  "matchSourceAliases = [(''WEB-DL'', ''WEBDL''), (''WEBDL'', ''WEBDL''), (''WEBRIP'', ''WEBRIP''), (''WEB'', ''WEB'')]"

definition normalizeVideoCodec :: "string \<Rightarrow> string" where
  "normalizeVideoCodec codec = aliased matchCodecAliases codec"

definition normalizeSource :: "string \<Rightarrow> string" where
  "normalizeSource source = aliased matchSourceAliases source"

definition joinNormalizedCodecSlice :: "string list \<Rightarrow> string" where
  "joinNormalizedCodecSlice slice = join_with '' '' (sort (fold (\<lambda>codec. gs_add (normalizeVideoCodec codec)) slice []))"

definition isWebSource :: "string \<Rightarrow> bool" where
  "isWebSource source \<longleftrightarrow> List.member [''WEB'', ''WEBDL'', ''WEBRIP''] source"

definition sourcesCompatible :: "string \<Rightarrow> string \<Rightarrow> bool" where
  "sourcesCompatible source candidate \<longleftrightarrow>
     source = [] \<or> candidate = [] \<or> source = candidate \<or>
     isWebSource source \<and> isWebSource candidate \<and> (source = ''WEB'' \<or> candidate = ''WEB'')"

section \<open>Variants\<close>

record variant_overrides =
  vo_collection :: "string list"
  vo_other :: "string list"
  vo_edition :: "string list"
  vo_cut :: "string list"

definition normalizeVariantSlice :: "string list \<Rightarrow> string list" where
  "normalizeVariantSlice values = filter (\<lambda>v. v \<noteq> []) (map normalizeVariant values)"

definition newVariantOverrides :: "string list \<Rightarrow> string list \<Rightarrow> string list \<Rightarrow> string list \<Rightarrow> variant_overrides" where
  "newVariantOverrides collection other edition ct =
     \<lparr>vo_collection = normalizeVariantSlice collection, vo_other = normalizeVariantSlice other,
      vo_edition = normalizeVariantSlice edition, vo_cut = normalizeVariantSlice ct\<rparr>"

definition strictVariantOverrides :: variant_overrides where
  "strictVariantOverrides = newVariantOverrides [''IMAX''] [''HYBRID''] [] []"

definition nonPackVariantOverrides :: variant_overrides where
  "nonPackVariantOverrides = newVariantOverrides []
     [''REPACK'', ''REPACK2'', ''REPACK3'', ''REPACK4'', ''REPACK5'', ''REPACK6'', ''REPACK7'', ''REPACK8'', ''REPACK9'',
      ''REPACK10'', ''PROPER''] [] []"

definition variantTokens :: "string \<Rightarrow> string list" where
  "variantTokens value =
     (let tokens = fields_by (\<lambda>c. c \<in> set ''.-_ /+[]()'') value in
      if tokens = [] \<and> value \<noteq> [] then [value] else tokens)"

definition variantValueMatches :: "string \<Rightarrow> string \<Rightarrow> bool" where
  "variantValueMatches value target \<longleftrightarrow>
     value \<noteq> [] \<and> target \<noteq> [] \<and> (value = target \<or> List.member (variantTokens value) target)"

definition listVariants :: "string list \<Rightarrow> string list \<Rightarrow> string goset \<Rightarrow> string goset" where
  "listVariants values strictValues variants =
     fold (\<lambda>entry. let nv = normalizeVariant entry in
         if nv = [] then id
         else fold (\<lambda>candidate s. if variantValueMatches nv candidate \<and> candidate \<noteq> [] then gs_add candidate s else s) strictValues)
       values variants"

definition releaseVariants :: "variant_overrides \<Rightarrow> rls_release \<Rightarrow> string goset" where
  "releaseVariants ov r =
     (let collected = fold (\<lambda>candidate s. if normalizeVariant (rr_Collection r) = candidate \<and> candidate \<noteq> [] then gs_add candidate s else s)
            (vo_collection ov) []
      in listVariants (rr_Cut r) (vo_cut ov) (listVariants (rr_Edition r) (vo_edition ov) (listVariants (rr_Other r) (vo_other ov) collected)))"

definition findMismatch :: "variant_overrides \<Rightarrow> rls_release \<Rightarrow> rls_release \<Rightarrow> string option" where
  "findMismatch ov source candidate =
     List.find (\<lambda>key. key \<notin> set (releaseVariants ov candidate)) (releaseVariants ov source)"

definition isSeasonPack :: "rls_release \<Rightarrow> bool" where
  "isSeasonPack r \<longleftrightarrow> rr_Series r > 0 \<and> rr_Episode r = 0"

text \<open>The first check of a list that does not pass.\<close>

fun first_reason :: "string option list \<Rightarrow> string option" where
  "first_reason [] = None"
| "first_reason (None # cs) = first_reason cs"
| "first_reason (Some r # cs) = Some r"

definition checkVariantsCompatible :: "rls_release \<Rightarrow> rls_release \<Rightarrow> string option" where
  "checkVariantsCompatible source candidate =
     first_reason
       [findMismatch strictVariantOverrides source candidate,
        findMismatch strictVariantOverrides candidate source,
        if isSeasonPack source \<or> isSeasonPack candidate then None
        else first_reason [findMismatch nonPackVariantOverrides source candidate, findMismatch nonPackVariantOverrides candidate source]]"

section \<open>Titles, artists and dates\<close>

definition rawAKATitleParts :: "string \<Rightarrow> string list" where
  "rawAKATitleParts rawName =
     (if rawName = [] \<or> \<not> contains_str rawName '' AKA '' then []
      else
        let titles = filter (\<lambda>t. length t \<ge> 4) (map trim_space (split_str '' AKA '' rawName)) in
        if length titles < 2 then [] else titles)"

definition addNormalizedTitle :: "match_lib \<Rightarrow> string \<Rightarrow> string goset \<Rightarrow> string goset" where
  "addNormalizedTitle lib title titles = (let n = normalizedTitle lib title in if n \<noteq> [] then gs_add n titles else titles)"

definition normalizedReleaseTitles :: "match_lib \<Rightarrow> rls_release \<Rightarrow> string \<Rightarrow> string goset" where
  "normalizedReleaseTitles lib release rawName =
     fold (\<lambda>rawTitle titles.
         let parsed = ml_parseString lib rawTitle in
         addNormalizedTitle lib (rr_Alt parsed) (addNormalizedTitle lib (rr_Title parsed) titles))
       (rawAKATitleParts rawName)
       (addNormalizedTitle lib (rr_Alt release) (addNormalizedTitle lib (rr_Title release) []))"

definition addNormalizedTitles :: "match_lib \<Rightarrow> string list \<Rightarrow> string goset \<Rightarrow> string goset" where
  "addNormalizedTitles lib extraTitles titles = fold (addNormalizedTitle lib) extraTitles titles"

definition normalizedTitleSetsOverlap :: "string goset \<Rightarrow> string goset \<Rightarrow> bool" where
  "normalizedTitleSetsOverlap sourceTitles candidateTitles \<longleftrightarrow> list_ex (\<lambda>t. t \<in> set candidateTitles) sourceTitles"

text \<open>What is known of a release besides its parsed fields: the raw name and further titles.\<close>

record named_release =
  nr_release :: rls_release
  nr_name :: string
  nr_titles :: "string list"

definition titlesOf :: "match_lib \<Rightarrow> named_release \<Rightarrow> string goset" where
  "titlesOf lib n = addNormalizedTitles lib (nr_titles n) (normalizedReleaseTitles lib (nr_release n) (nr_name n))"

definition validateTitleArtistAndDates :: "match_lib \<Rightarrow> named_release \<Rightarrow> named_release \<Rightarrow> bool \<Rightarrow> string option" where
  "validateTitleArtistAndDates lib ns nc isTV =
     (let source = nr_release ns; candidate = nr_release nc;
          sourceTitles = titlesOf lib ns; candidateTitles = titlesOf lib nc in
      if sourceTitles = [] \<or> candidateTitles = [] then Some ''empty normalized title''
      else if \<not> normalizedTitleSetsOverlap sourceTitles candidateTitles then Some ''title mismatch''
      else if rr_Artist source \<noteq> [] \<and> rr_Artist candidate \<noteq> [] \<and>
          defaultTransform (rr_Artist source) \<noteq> defaultTransform (rr_Artist candidate) then Some ''artist mismatch''
      else if rr_Year source > 0 \<and> rr_Year candidate > 0 \<and> rr_Year source \<noteq> rr_Year candidate then Some ''year mismatch''
      else if rr_Year source > 0 \<and> rr_Month source > 0 \<and> rr_Day source > 0 \<and>
          rr_Year candidate > 0 \<and> rr_Month candidate > 0 \<and> rr_Day candidate > 0 \<and>
          (rr_Month source \<noteq> rr_Month candidate \<or> rr_Day source \<noteq> rr_Day candidate) then Some ''date mismatch''
      else if \<not> isTV \<and> rr_Type source \<noteq> RlsUnknown \<and> rr_Type candidate \<noteq> RlsUnknown \<and> rr_Type source \<noteq> rr_Type candidate
        then Some ''content type mismatch''
      else None)"

section \<open>Structure, group, format and flags\<close>

definition validateTVStructure :: "rls_release \<Rightarrow> rls_release \<Rightarrow> bool \<Rightarrow> bool \<Rightarrow> string option" where
  "validateTVStructure source candidate findIndividualEpisodes isTV =
     (let sourceIsPack = isTVSeasonPack source; candidateIsPack = isTVSeasonPack candidate in
      if \<not> isTV then None
      else if isTVRelease source \<and> \<not> isTVRelease candidate then Some ''candidate not recognized as TV''
      else if isTVRelease candidate \<and> \<not> isTVRelease source then Some ''source not recognized as TV''
      else if rr_Series source > 0 \<and> rr_Series candidate > 0 \<and> rr_Series source \<noteq> rr_Series candidate then Some ''season mismatch''
      else if \<not> findIndividualEpisodes then
        (if sourceIsPack \<noteq> candidateIsPack then Some ''season pack versus episode mismatch''
         else if \<not> sourceIsPack \<and> \<not> candidateIsPack \<and> rr_Episode source \<noteq> rr_Episode candidate then Some ''episode mismatch''
         else None)
      else if \<not> sourceIsPack \<and> \<not> candidateIsPack \<and> rr_Episode source \<noteq> rr_Episode candidate then Some ''episode mismatch''
      else None)"

definition validateGroupSiteAndChecksum :: "rls_release \<Rightarrow> rls_release \<Rightarrow> string option" where
  "validateGroupSiteAndChecksum source candidate =
     (let sourceGroup = defaultTransform (rr_Group source); candidateGroup = defaultTransform (rr_Group candidate);
          sourceSite = defaultTransform (rr_Site source); candidateSite = defaultTransform (rr_Site candidate);
          candidateGroupIdentity = (if candidateGroup = [] then candidateSite else candidateGroup);
          candidateSiteIdentity = (if candidateSite = [] then candidateGroup else candidateSite);
          sourceSum = defaultTransform (rr_Sum source); candidateSum = defaultTransform (rr_Sum candidate) in
      if sourceGroup \<noteq> [] \<and> (candidateGroupIdentity = [] \<or> sourceGroup \<noteq> candidateGroupIdentity) then Some ''group mismatch''
      else if sourceSite \<noteq> [] \<and> candidateSiteIdentity \<noteq> [] \<and> sourceSite \<noteq> candidateSiteIdentity then Some ''site mismatch''
      else if sourceSum \<noteq> [] \<and> (candidateSum = [] \<or> sourceSum \<noteq> candidateSum) then Some ''checksum mismatch''
      else None)"

definition sourceMismatchReason :: string where
  "sourceMismatchReason = ''source mismatch''"

definition isKnownSD :: "string \<Rightarrow> bool" where
  "isKnownSD res \<longleftrightarrow> List.member [''480P'', ''576P'', ''SD''] (normalizeVariant res)"

definition validateFormatAndCodec :: "rls_release \<Rightarrow> rls_release \<Rightarrow> bool \<Rightarrow> string option" where
  "validateFormatAndCodec source candidate isTV =
     (let sourceRes = defaultTransform (rr_Resolution source); candidateRes = defaultTransform (rr_Resolution candidate);
          sourceCollection = defaultTransform (rr_Collection source); candidateCollection = defaultTransform (rr_Collection candidate);
          sourceBitDepth = defaultTransform (rr_BitDepth source); candidateBitDepth = defaultTransform (rr_BitDepth candidate) in
      if \<not> sourcesCompatible (normalizeSource (rr_Source source)) (normalizeSource (rr_Source candidate)) then Some sourceMismatchReason
      else if sourceRes \<noteq> candidateRes \<and>
          \<not> (sourceRes = [] \<and> isKnownSD candidateRes \<or> candidateRes = [] \<and> isKnownSD sourceRes) then Some ''resolution mismatch''
      else if sourceCollection \<noteq> candidateCollection \<and>
          \<not> (isTV \<and> (rr_Series source = 0 \<or> rr_Series candidate = 0) \<and> (sourceCollection = [] \<or> candidateCollection = []))
        then Some ''collection mismatch''
      else if rr_Codec source \<noteq> [] \<and> rr_Codec candidate \<noteq> [] \<and>
          joinNormalizedCodecSlice (rr_Codec source) \<noteq> joinNormalizedCodecSlice (rr_Codec candidate) then Some ''codec mismatch''
      else if joinNormalizedHDRSlice (rr_HDR source) \<noteq> joinNormalizedHDRSlice (rr_HDR candidate) then Some ''hdr mismatch''
      else if sourceBitDepth \<noteq> [] \<and> candidateBitDepth \<noteq> [] \<and> sourceBitDepth \<noteq> candidateBitDepth then Some ''bit depth mismatch''
      else None)"

definition isEnglishOrEmpty :: "string \<Rightarrow> bool" where
  "isEnglishOrEmpty lang \<longleftrightarrow> lang = [] \<or> lang = ''ENGLISH''"

text \<open>Two values that must be equal when both are there.\<close>

definition differ_if_both :: "string \<Rightarrow> string \<Rightarrow> bool" where
  "differ_if_both a b \<longleftrightarrow> defaultTransform a \<noteq> [] \<and> defaultTransform b \<noteq> [] \<and> defaultTransform a \<noteq> defaultTransform b"

definition validateMetadataFlags :: "rls_release \<Rightarrow> rls_release \<Rightarrow> string option" where
  "validateMetadataFlags source candidate =
     (let sourceLanguage = joinNormalizedSlice (rr_Language source); candidateLanguage = joinNormalizedSlice (rr_Language candidate) in
      if rr_Cut source \<noteq> [] \<and> rr_Cut candidate \<noteq> [] \<and> joinNormalizedSlice (rr_Cut source) \<noteq> joinNormalizedSlice (rr_Cut candidate)
        then Some ''cut mismatch''
      else if rr_Edition source \<noteq> [] \<and> rr_Edition candidate \<noteq> [] \<and>
          joinNormalizedSlice (rr_Edition source) \<noteq> joinNormalizedSlice (rr_Edition candidate) then Some ''edition mismatch''
      else if sourceLanguage \<noteq> candidateLanguage \<and> \<not> (isEnglishOrEmpty sourceLanguage \<and> isEnglishOrEmpty candidateLanguage)
        then Some ''language mismatch''
      else if differ_if_both (rr_Version source) (rr_Version candidate) then Some ''version mismatch''
      else if differ_if_both (rr_Disc source) (rr_Disc candidate) then Some ''disc mismatch''
      else if differ_if_both (rr_Platform source) (rr_Platform candidate) then Some ''platform mismatch''
      else if differ_if_both (rr_Arch source) (rr_Arch candidate) then Some ''architecture mismatch''
      else None)"

definition validateReleaseVariants :: "rls_release \<Rightarrow> rls_release \<Rightarrow> string option" where
  "validateReleaseVariants source candidate =
     (case checkVariantsCompatible source candidate of
        None \<Rightarrow> None
      | Some reason \<Rightarrow> Some (if reason = [] then ''variant mismatch'' else reason))"

section \<open>The match\<close>

text \<open>\<open>same\<close> says that both arguments are the same pointer. Nil releases do not reach this function.\<close>

definition releasesMatchWithReason :: "match_lib \<Rightarrow> bool \<Rightarrow> named_release \<Rightarrow> named_release \<Rightarrow> bool \<Rightarrow> string option" where
  "releasesMatchWithReason lib same ns nc findIndividualEpisodes =
     (if same then None
      else
        let source = nr_release ns; candidate = nr_release nc; isTV = isTVRelease source \<or> isTVRelease candidate in
        first_reason
          [validateTitleArtistAndDates lib ns nc isTV,
           validateTVStructure source candidate findIndividualEpisodes isTV,
           validateGroupSiteAndChecksum source candidate,
           validateFormatAndCodec source candidate isTV,
           validateMetadataFlags source candidate,
           validateReleaseVariants source candidate])"

definition unnamed :: "rls_release \<Rightarrow> named_release" where
  "unnamed r = \<lparr>nr_release = r, nr_name = [], nr_titles = []\<rparr>"

definition releasesMatch :: "match_lib \<Rightarrow> bool \<Rightarrow> rls_release \<Rightarrow> rls_release \<Rightarrow> bool \<Rightarrow> bool" where
  "releasesMatch lib same source candidate findIndividualEpisodes \<longleftrightarrow>
     releasesMatchWithReason lib same (unnamed source) (unnamed candidate) findIndividualEpisodes = None"

text \<open>The fallback for announcements of one indexer that leave the collection out.\<close>

definition supportsWebhookCollectionFallback :: "string \<Rightarrow> bool" where
  "supportsWebhookCollectionFallback indexer \<longleftrightarrow> indexer = ''hdb''"

definition supportsWebhookCollectionFallbackContent :: "rls_release \<Rightarrow> rls_release \<Rightarrow> bool" where
  "supportsWebhookCollectionFallbackContent source candidate \<longleftrightarrow>
     rr_Series source > 0 \<and> rr_Series candidate > 0 \<or>
     isWebSource (normalizeSource (rr_Source source)) \<and> isWebSource (normalizeSource (rr_Source candidate))"

definition hasNonEmptyNormalizedMatch :: "string \<Rightarrow> string \<Rightarrow> bool" where
  "hasNonEmptyNormalizedMatch left right \<longleftrightarrow> defaultTransform left \<noteq> [] \<and> defaultTransform left = defaultTransform right"

definition canUseWebhookCollectionFallback :: "rls_release \<Rightarrow> rls_release \<Rightarrow> string \<Rightarrow> bool" where
  "canUseWebhookCollectionFallback source candidate indexer \<longleftrightarrow>
     supportsWebhookCollectionFallback indexer \<and>
     \<not> (rr_Collection source \<noteq> [] \<or> rr_Collection candidate = []) \<and>
     supportsWebhookCollectionFallbackContent source candidate \<and>
     (hasNonEmptyNormalizedMatch (rr_Group source) (rr_Group candidate) \<or>
      hasNonEmptyNormalizedMatch (rr_Site source) (rr_Site candidate))"

definition releasesMatchWebhook :: "match_lib \<Rightarrow> bool \<Rightarrow> rls_release \<Rightarrow> rls_release \<Rightarrow> bool \<Rightarrow> string \<Rightarrow> bool" where
  "releasesMatchWebhook lib same source candidate findIndividualEpisodes indexer \<longleftrightarrow>
     releasesMatch lib same source candidate findIndividualEpisodes \<or>
     canUseWebhookCollectionFallback source candidate indexer \<and>
     releasesMatch lib False (source\<lparr>rr_Collection := rr_Collection candidate\<rparr>) candidate findIndividualEpisodes"

text \<open>A candidate that differs in the label of its web source only.\<close>

definition isWebSourceRelabel :: "match_lib \<Rightarrow> named_release \<Rightarrow> named_release \<Rightarrow> bool \<Rightarrow> bool" where
  "isWebSourceRelabel lib ns nc findIndividualEpisodes \<longleftrightarrow>
     isWebSource (normalizeSource (rr_Source (nr_release ns))) \<and> isWebSource (normalizeSource (rr_Source (nr_release nc))) \<and>
     releasesMatchWithReason lib False ns (nc\<lparr>nr_release := (nr_release nc)\<lparr>rr_Source := rr_Source (nr_release ns)\<rparr>\<rparr>)
       findIndividualEpisodes = None"

text \<open>\<open>float64(sourceSize) * (tolerancePercent / 100)\<close> on either side of the size.\<close>

definition fl_neg :: "float64 \<Rightarrow> float64" where
  "fl_neg a = (case a of Fl n \<Rightarrow> Fl (- n) | PosInf \<Rightarrow> NegInf | NegInf \<Rightarrow> PosInf | NaN \<Rightarrow> NaN)"

definition isSizeWithinTolerance :: "int \<Rightarrow> int \<Rightarrow> float64 \<Rightarrow> bool" where
  "isSizeWithinTolerance sourceSize candidateSize tolerance0 =
     (let tolerancePercent = (if fl_less tolerance0 (Fl 0) then Fl 0 else tolerance0) in
      if sourceSize = 0 \<or> candidateSize = 0 then sourceSize = candidateSize
      else if fl_eq tolerancePercent (Fl 0) then sourceSize = candidateSize
      else
        let size = fl_of_int sourceSize; tolerance = fl_mult size (fl_div tolerancePercent 100); c = fl_of_int candidateSize in
        fl_le (fl_add size (fl_neg tolerance)) c \<and> fl_le c (fl_add size tolerance))"

definition shouldAcceptWebSourceRelabel ::
  "match_lib \<Rightarrow> named_release \<Rightarrow> named_release \<Rightarrow> bool \<Rightarrow> bool \<Rightarrow> int \<Rightarrow> int \<Rightarrow> float64 \<Rightarrow> string \<Rightarrow> bool" where
  "shouldAcceptWebSourceRelabel lib ns nc findIndividualEpisodes ignoreSizeCheck sourceSize candidateSize tolerancePercent mismatchReason \<longleftrightarrow>
     mismatchReason = sourceMismatchReason \<and>
     (ignoreSizeCheck \<or> isSizeWithinTolerance sourceSize candidateSize tolerancePercent) \<and>
     isWebSourceRelabel lib ns nc findIndividualEpisodes"

section \<open>Variants agree\<close>

lemma first_reason_None: "first_reason cs = None \<longleftrightarrow> list_all (\<lambda>c. c = None) cs"
  by (induction cs rule: first_reason.induct) simp_all

lemma find_None: "List.find P xs = None \<longleftrightarrow> (\<forall>x \<in> set xs. \<not> P x)"
  by (auto simp: find_None_iff)

lemma findMismatch_both:
  "findMismatch ov a b = None \<and> findMismatch ov b a = None \<longleftrightarrow> set (releaseVariants ov a) = set (releaseVariants ov b)"
  by (auto simp: findMismatch_def find_None)

lemma checkVariantsCompatible_iff:
  "checkVariantsCompatible a b = None \<longleftrightarrow>
     set (releaseVariants strictVariantOverrides a) = set (releaseVariants strictVariantOverrides b) \<and>
     (isSeasonPack a \<or> isSeasonPack b \<or>
      set (releaseVariants nonPackVariantOverrides a) = set (releaseVariants nonPackVariantOverrides b))"
  using findMismatch_both [of strictVariantOverrides a b] findMismatch_both [of nonPackVariantOverrides a b]
  by (auto simp: checkVariantsCompatible_def first_reason_None)

text \<open>A strict tag of a release: its collection, or a part of one of its other tags.\<close>

lemma set_listVariants:
  "set (listVariants values strictValues variants) = set variants \<union>
     {c \<in> set strictValues. c \<noteq> [] \<and> (\<exists>entry \<in> set values. normalizeVariant entry \<noteq> [] \<and> variantValueMatches (normalizeVariant entry) c)}"
proof -
  have inner: "set (fold (\<lambda>candidate s. if P candidate then gs_add candidate s else s) cs s) = set s \<union> {c \<in> set cs. P c}"
    for P :: "string \<Rightarrow> bool" and cs s
    by (induction cs arbitrary: s) auto
  show ?thesis
    unfolding listVariants_def
    by (induction "values" arbitrary: variants) (auto simp: Let_def inner)
qed

lemma strict_IMAX: "''IMAX'' \<in> set (releaseVariants strictVariantOverrides r) \<longleftrightarrow> normalizeVariant (rr_Collection r) = ''IMAX''"
proof -
  have ov: "strictVariantOverrides = \<lparr>vo_collection = [''IMAX''], vo_other = [''HYBRID''], vo_edition = [], vo_cut = []\<rparr>"
    by code_simp
  show ?thesis
    by (auto simp: ov releaseVariants_def set_listVariants)
qed

lemma strict_HYBRID: "''HYBRID'' \<in> set (releaseVariants strictVariantOverrides r) \<longleftrightarrow>
  (\<exists>tag \<in> set (rr_Other r). variantValueMatches (normalizeVariant tag) ''HYBRID'')"
proof -
  have ov: "strictVariantOverrides = \<lparr>vo_collection = [''IMAX''], vo_other = [''HYBRID''], vo_edition = [], vo_cut = []\<rparr>"
    by code_simp
  show ?thesis
    by (auto simp: ov releaseVariants_def set_listVariants variantValueMatches_def)
qed

section \<open>A release matches itself\<close>

lemma titles_grow: "set titles \<subseteq> set (addNormalizedTitle lib t titles)"
  by (auto simp: addNormalizedTitle_def Let_def)

lemma fold_titles_grow:
  assumes "\<And>x titles. set titles \<subseteq> set (f x titles)"
  shows "set titles \<subseteq> set (fold f xs titles)"
proof (induction xs arbitrary: titles)
  case (Cons x xs)
  have "set titles \<subseteq> set (f x titles)"
    by (rule assms)
  also have "\<dots> \<subseteq> set (fold f xs (f x titles))"
    by (rule Cons.IH)
  finally show ?case
    by simp
qed simp

lemma titlesOf_contains:
  assumes "t = rr_Title (nr_release n) \<or> t = rr_Alt (nr_release n)" and "normalizedTitle lib t \<noteq> []"
  shows "normalizedTitle lib t \<in> set (titlesOf lib n)"
proof -
  let ?base = "addNormalizedTitle lib (rr_Alt (nr_release n)) (addNormalizedTitle lib (rr_Title (nr_release n)) [])"
  have "normalizedTitle lib t \<in> set ?base"
    using assms by (auto simp: addNormalizedTitle_def Let_def)
  moreover have "set ?base \<subseteq> set (normalizedReleaseTitles lib (nr_release n) (nr_name n))"
    unfolding normalizedReleaseTitles_def Let_def
    by (rule fold_titles_grow) (meson subset_trans titles_grow)
  moreover have "set ts \<subseteq> set (addNormalizedTitles lib xs ts)" for xs ts
    unfolding addNormalizedTitles_def by (rule fold_titles_grow) (rule titles_grow)
  ultimately show ?thesis
    unfolding titlesOf_def by blast
qed

lemma validators_self:
  "validateTVStructure r r fie isTV = None" "validateGroupSiteAndChecksum r r = None"
  "validateFormatAndCodec r r isTV = None" "validateMetadataFlags r r = None" "validateReleaseVariants r r = None"
  by (auto simp: validateTVStructure_def validateGroupSiteAndChecksum_def validateFormatAndCodec_def sourcesCompatible_def
      validateMetadataFlags_def differ_if_both_def validateReleaseVariants_def Let_def
      checkVariantsCompatible_iff split: option.split)

lemma overlap_self: "set xs \<inter> set ys \<noteq> {} \<Longrightarrow> normalizedTitleSetsOverlap xs ys"
  by (auto simp: normalizedTitleSetsOverlap_def list_ex_iff)

lemma releasesMatchWithReason_self:
  assumes "nr_release ns = r" and "nr_release nc = r" and "t = rr_Title r \<or> t = rr_Alt r" and "normalizedTitle lib t \<noteq> []"
  shows "releasesMatchWithReason lib same ns nc fie = None"
proof -
  have "normalizedTitle lib t \<in> set (titlesOf lib ns)" and "normalizedTitle lib t \<in> set (titlesOf lib nc)"
    using titlesOf_contains assms by auto
  then have "normalizedTitleSetsOverlap (titlesOf lib ns) (titlesOf lib nc)" and "titlesOf lib ns \<noteq> []" and "titlesOf lib nc \<noteq> []"
    using overlap_self by auto
  then have "validateTitleArtistAndDates lib ns nc isTV = None" for isTV
    using assms(1,2) by (simp add: validateTitleArtistAndDates_def Let_def)
  then show ?thesis
    using assms(1,2) validators_self by (simp add: releasesMatchWithReason_def Let_def first_reason_None)
qed

section \<open>Symmetry\<close>

text \<open>
  The checks of group, site and checksum ask more of the candidate than of the source: they are symmetric
  for releases that have the same of these three.
\<close>

definition same_identity_fields :: "rls_release \<Rightarrow> rls_release \<Rightarrow> bool" where
  "same_identity_fields a b \<longleftrightarrow>
     (defaultTransform (rr_Group a) = [] \<longleftrightarrow> defaultTransform (rr_Group b) = []) \<and>
     (defaultTransform (rr_Site a) = [] \<longleftrightarrow> defaultTransform (rr_Site b) = []) \<and>
     (defaultTransform (rr_Sum a) = [] \<longleftrightarrow> defaultTransform (rr_Sum b) = [])"

lemma overlap_sym: "normalizedTitleSetsOverlap xs ys = normalizedTitleSetsOverlap ys xs"
  by (auto simp: normalizedTitleSetsOverlap_def list_ex_iff)

lemma guard_None: "(if c then Some r else x) = None \<longleftrightarrow> \<not> c \<and> x = None"
  by simp

lemma title_check_sym:
  "validateTitleArtistAndDates lib ns nc isTV = None \<longleftrightarrow> validateTitleArtistAndDates lib nc ns isTV = None"
  unfolding validateTitleArtistAndDates_def Let_def overlap_sym [of "titlesOf lib ns"]
  by (simp only: guard_None) argo

lemma structure_check_sym: "validateTVStructure a b fie isTV = None \<longleftrightarrow> validateTVStructure b a fie isTV = None"
  by (cases isTV; cases fie) (simp_all only: validateTVStructure_def Let_def guard_None if_True if_False simp_thms, argo+)

lemma group_check_sym:
  "same_identity_fields a b \<Longrightarrow> validateGroupSiteAndChecksum a b = None \<longleftrightarrow> validateGroupSiteAndChecksum b a = None"
  unfolding validateGroupSiteAndChecksum_def Let_def same_identity_fields_def
  by (cases "defaultTransform (rr_Group a) = []"; cases "defaultTransform (rr_Site a) = []")
     (simp_all only: guard_None if_True if_False simp_thms, argo+)

lemma sourcesCompatible_sym: "sourcesCompatible a b = sourcesCompatible b a"
  unfolding sourcesCompatible_def by blast

lemma format_check_sym: "validateFormatAndCodec a b isTV = None \<longleftrightarrow> validateFormatAndCodec b a isTV = None"
  unfolding validateFormatAndCodec_def Let_def sourcesCompatible_sym [of "normalizeSource (rr_Source a)"]
  by (simp only: guard_None) argo

lemma flags_check_sym: "validateMetadataFlags a b = None \<longleftrightarrow> validateMetadataFlags b a = None"
  unfolding validateMetadataFlags_def Let_def differ_if_both_def by (simp only: guard_None) argo

lemma variants_check: "validateReleaseVariants a b = None \<longleftrightarrow> checkVariantsCompatible a b = None"
  by (simp add: validateReleaseVariants_def split: option.split)

lemma variants_check_sym: "validateReleaseVariants a b = None \<longleftrightarrow> validateReleaseVariants b a = None"
  unfolding variants_check checkVariantsCompatible_iff by blast

lemma releasesMatch_sym:
  assumes "same_identity_fields a b"
  shows "releasesMatch lib same a b fie = releasesMatch lib same b a fie"
  using title_check_sym structure_check_sym group_check_sym [OF assms] format_check_sym flags_check_sym variants_check_sym
  by (simp add: releasesMatch_def releasesMatchWithReason_def Let_def first_reason_None unnamed_def disj_commute)

section \<open>The match as a relation\<close>

lemma structure_check:
  assumes "validateTVStructure a b fie (isTVRelease a \<or> isTVRelease b) = None"
  shows "isTVRelease a = isTVRelease b" and "\<not> fie \<longrightarrow> isTVSeasonPack a = isTVSeasonPack b"
    and "isTVEpisode a \<and> isTVEpisode b \<longrightarrow> rr_Episode a = rr_Episode b \<and>
      (rr_Series a > 0 \<and> rr_Series b > 0 \<longrightarrow> rr_Series a = rr_Series b)"
  using assms unfolding validateTVStructure_def Let_def
  by (auto simp: isTVEpisode_def isTVSeasonPack_def split: if_splits)

lemma sum_check:
  "validateGroupSiteAndChecksum a b = None \<Longrightarrow> defaultTransform (rr_Sum a) \<noteq> [] \<Longrightarrow>
     defaultTransform (rr_Sum a) = defaultTransform (rr_Sum b)"
  unfolding validateGroupSiteAndChecksum_def Let_def by (auto split: if_splits)

text \<open>
  C8. Matching of two parsed names behaves like a relation between releases: a release with a title that
  survives normalisation matches itself, and matching is symmetric between releases of which both or
  neither have a group, a site and a checksum. Whatever matches agrees on being television, in strict mode
  on being a season pack, between episodes on the episode and on the season where both name it, on a
  checksum the source has, on the tags IMAX and HYBRID, and on the repacks unless one of the two is a
  season pack.
\<close>

theorem releasesMatch_relation:
  "((\<exists>t \<in> {rr_Title a, rr_Alt a}. normalizedTitle lib t \<noteq> []) \<longrightarrow> releasesMatch lib False a a fie) \<and>
   (same_identity_fields a b \<longrightarrow> releasesMatch lib same a b fie = releasesMatch lib same b a fie) \<and>
   (releasesMatch lib False a b fie \<longrightarrow>
      isTVRelease a = isTVRelease b \<and> (\<not> fie \<longrightarrow> isTVSeasonPack a = isTVSeasonPack b) \<and>
      (isTVEpisode a \<and> isTVEpisode b \<longrightarrow>
         rr_Episode a = rr_Episode b \<and> (rr_Series a > 0 \<and> rr_Series b > 0 \<longrightarrow> rr_Series a = rr_Series b)) \<and>
      (defaultTransform (rr_Sum a) \<noteq> [] \<longrightarrow> defaultTransform (rr_Sum a) = defaultTransform (rr_Sum b)) \<and>
      (normalizeVariant (rr_Collection a) = ''IMAX'' \<longleftrightarrow> normalizeVariant (rr_Collection b) = ''IMAX'') \<and>
      ((\<exists>tag \<in> set (rr_Other a). variantValueMatches (normalizeVariant tag) ''HYBRID'') \<longleftrightarrow>
       (\<exists>tag \<in> set (rr_Other b). variantValueMatches (normalizeVariant tag) ''HYBRID'')) \<and>
      (\<not> isSeasonPack a \<and> \<not> isSeasonPack b \<longrightarrow>
         set (releaseVariants nonPackVariantOverrides a) = set (releaseVariants nonPackVariantOverrides b)))"
proof (intro conjI impI)
  assume "\<exists>t \<in> {rr_Title a, rr_Alt a}. normalizedTitle lib t \<noteq> []"
  then show "releasesMatch lib False a a fie"
    unfolding releasesMatch_def using releasesMatchWithReason_self [of "unnamed a" a "unnamed a"] by (auto simp: unnamed_def)
next
  assume "same_identity_fields a b"
  then show "releasesMatch lib same a b fie = releasesMatch lib same b a fie"
    by (rule releasesMatch_sym)
next
  assume "releasesMatch lib False a b fie"
  then have checks: "validateTVStructure a b fie (isTVRelease a \<or> isTVRelease b) = None"
      "validateGroupSiteAndChecksum a b = None" "checkVariantsCompatible a b = None"
    by (simp_all add: releasesMatch_def releasesMatchWithReason_def first_reason_None unnamed_def Let_def variants_check)
  note tv = structure_check [OF checks(1)] and variants = checks(3) [unfolded checkVariantsCompatible_iff]
  show "isTVRelease a = isTVRelease b"
    by (rule tv)
  show "isTVSeasonPack a = isTVSeasonPack b" if "\<not> fie"
    using tv that by blast
  show "rr_Episode a = rr_Episode b" if "isTVEpisode a \<and> isTVEpisode b"
    using tv that by blast
  show "rr_Series a = rr_Series b" if "isTVEpisode a \<and> isTVEpisode b" and "rr_Series a > 0 \<and> rr_Series b > 0"
    using tv that by blast
  show "defaultTransform (rr_Sum a) = defaultTransform (rr_Sum b)" if "defaultTransform (rr_Sum a) \<noteq> []"
    using sum_check [OF checks(2) that] .
  show "normalizeVariant (rr_Collection a) = ''IMAX'' \<longleftrightarrow> normalizeVariant (rr_Collection b) = ''IMAX''"
    using variants strict_IMAX [of a] strict_IMAX [of b] by blast
  show "(\<exists>tag \<in> set (rr_Other a). variantValueMatches (normalizeVariant tag) ''HYBRID'') \<longleftrightarrow>
      (\<exists>tag \<in> set (rr_Other b). variantValueMatches (normalizeVariant tag) ''HYBRID'')"
    using variants strict_HYBRID [of a] strict_HYBRID [of b] by blast
  show "set (releaseVariants nonPackVariantOverrides a) = set (releaseVariants nonPackVariantOverrides b)"
    if "\<not> isSeasonPack a \<and> \<not> isSeasonPack b"
    using variants that by blast
qed

text \<open>Two names of one episode, with different labels for the codec and the web source.\<close>

definition demo_lib :: match_lib where
  "demo_lib = \<lparr>ml_parseString = (\<lambda>s. zeroRelease\<lparr>rr_Title := s\<rparr>), ml_decompose = Some, ml_isWordRune = (\<lambda>r. True),
     ml_findIndex = (\<lambda>re s. None), ml_quoteMeta = id\<rparr>"

definition demo_episode :: rls_release where
  "demo_episode = zeroRelease\<lparr>rr_Type := RlsEpisode, rr_Title := ''Law & Order'', rr_Series := 2, rr_Episode := 3, rr_Source := ''WEB-DL'',
     rr_Codec := [''H.264''], rr_Group := ''GRP'', rr_Other := [''Hybrid-Remux'']\<rparr>"

definition demo_other_name :: rls_release where
  "demo_other_name = demo_episode\<lparr>rr_Title := ''law and order'', rr_Codec := [''x264'', ''AVC''], rr_Source := ''WEB'', rr_Group := ''grp'',
     rr_Other := [''HYBRID'']\<rparr>"

theorem releasesMatch_relation_witness:
  "releasesMatch demo_lib False demo_episode demo_episode True \<and>
   releasesMatch demo_lib False demo_other_name demo_episode False \<and>
   isTVSeasonPack demo_episode = isTVSeasonPack demo_other_name"
proof -
  have title: "normalizedTitle demo_lib (rr_Title demo_episode) \<noteq> []"
    and same: "same_identity_fields demo_episode demo_other_name"
    and match: "releasesMatch demo_lib False demo_episode demo_other_name False"
    by code_simp+
  have "releasesMatch demo_lib False demo_episode demo_episode True"
    using releasesMatch_relation [where lib = demo_lib and a = demo_episode and fie = True] title by blast
  moreover have "releasesMatch demo_lib False demo_other_name demo_episode False"
    using releasesMatch_relation [where lib = demo_lib and a = demo_episode and b = demo_other_name and same = False and fie = False]
      same match by blast
  moreover have "isTVSeasonPack demo_episode = isTVSeasonPack demo_other_name"
    using releasesMatch_relation [where lib = demo_lib and a = demo_episode and b = demo_other_name and same = False and fie = False]
      match by blast
  ultimately show ?thesis
    by blast
qed

section \<open>Where the checks differ from what is intended\<close>

text \<open>
  The table of web sources here lacks the label \<open>WEB-RIP\<close> that the table of package \<open>releases\<close> has, so the
  two spellings of one source do not match.
\<close>

lemma web_rip_alias_missing:
  "NormalizeSource ''WEB-Rip'' = NormalizeSource ''WEBRip''"
  "\<not> sourcesCompatible (normalizeSource ''WEB-Rip'') (normalizeSource ''WEBRip'')"
  by code_simp+

text \<open>
  A candidate without a site is rejected because of the site of the source when it has a group, even when
  that group is the one of the source.
\<close>

lemma missing_site_rejected:
  "validateGroupSiteAndChecksum (zeroRelease\<lparr>rr_Group := ''GRP'', rr_Site := ''SubsPlease''\<rparr>) (zeroRelease\<lparr>rr_Group := ''GRP''\<rparr>) =
     Some ''site mismatch''"
  by code_simp

end
