(* ===== verification/Go_Rounding.thy ===== *)
theory Go_Rounding
  imports Go_Number
begin

text \<open>
  Comparing a count with \<open>float64(n) * 0.8\<close> is exact: although \<open>0.8\<close> is not a \<open>float64\<close>, the rounded
  product lies on the right side of every integer.
\<close>

section \<open>Four fifths\<close>

lemma round_ratio_mult:
  assumes "0 \<le> n" and "0 < d"
  shows "round_ratio (n * d) d = round53 n"
proof -
  define s where "s = bitlen n - 53"
  have e: "n * d div d = n" "n * d div (d * 2 ^ s) = n div 2 ^ s" "n * d mod (d * 2 ^ s) = d * (n mod 2 ^ s)"
  proof -
    have "d \<noteq> 0"
      using assms(2) by simp
    then show "n * d div d = n" and "n * d div (d * 2 ^ s) = n div 2 ^ s"
      unfolding mult.commute [of n d] by (rule nonzero_mult_div_cancel_left, rule div_mult_mult1)
    show "n * d mod (d * 2 ^ s) = d * (n mod 2 ^ s)"
      unfolding mult.commute [of n d] by (rule mult_mod_right [symmetric])
  qed
  have half: "(2 * (d * r) > d * 2 ^ s) = (2 * r > 2 ^ s)" "(2 * (d * r) = d * 2 ^ s) = (2 * r = 2 ^ s)" for r :: int
  proof -
    have "2 * (d * r) = d * (2 * r)"
      by simp
    then show "(2 * (d * r) > d * 2 ^ s) = (2 * r > 2 ^ s)" "(2 * (d * r) = d * 2 ^ s) = (2 * r = 2 ^ s)"
      using assms(2) by (simp_all only: mult_less_cancel_left_pos mult_cancel_left)
        auto
  qed
  show ?thesis
    unfolding round_ratio_def e(1) s_def [symmetric] Let_def e(2,3) half
    by (cases "bitlen n \<le> 53") (simp_all add: round53_def round_half_even_def s_def [symmetric] Let_def, simp_all add: s_def)
qed

lemma fl_of_int_small:
  assumes "0 \<le> n" and "n < 2 ^ 53"
  shows "fl_of_int n = Fl (n * 2 ^ 1074)"
proof -
  have "round_ratio (n * 2 ^ 1074) 1 = n * 2 ^ 1074"
    using round_ratio_mult [of "n * 2 ^ 1074" 1] round53_shift_small [of n 1074] assms by simp
  moreover have "n * 2 ^ 1074 < 2 ^ 53 * (2 ^ 1074 :: int)"
    using assms(2) by (rule mult_strict_right_mono) simp
  moreover have "2 ^ 53 * (2 ^ 1074 :: int) \<le> 2 ^ 2098"
    unfolding power_add [symmetric] by (rule power_increasing) simp_all
  ultimately have "\<not> 2 ^ 2098 \<le> round_ratio (n * 2 ^ 1074) 1"
    by linarith
  with \<open>round_ratio (n * 2 ^ 1074) 1 = n * 2 ^ 1074\<close> show ?thesis
    using assms(1) by (cases "n = 0") (simp_all add: fl_of_int_def fl_of_ratio_def Let_def)
qed

definition four_fifths :: int where
  "four_fifths = 7205759403792794"

lemma fl_four_fifths: "fl_of_ratio 4 5 = Fl (four_fifths * 2 ^ 1021)"
proof -
  define k where "k = (2::int) ^ 1021"
  have k: "k > 0"
    by (simp add: k_def)
  have n: "4 * (2::int) ^ 1074 = 36028797018963968 * k"
    using power_add [of "2::int" 53 1021] by (simp only: k_def) simp
  let ?x = "36028797018963968 * k div 5"
  have "?x \<ge> 2 ^ 52 * k" and "?x < 2 ^ 53 * k"
    using k by simp_all
  moreover have p: "(2::int) ^ 1073 = 2 ^ 52 * k" "(2::int) ^ 1074 = 2 ^ 53 * k"
    using power_add [of "2::int" 52 1021] power_add [of "2::int" 53 1021] by (simp_all only: k_def) simp_all
  ultimately have "?x \<ge> 2 ^ 1073" and "?x < 2 ^ 1074"
    by (simp_all only: p)
  then have "bitlen ?x \<le> 1074" and "\<not> bitlen ?x \<le> 1073"
    using bitlen_le_iff [of ?x 1074] bitlen_le_iff [of ?x 1073] zero_less_power [of "2::int" 1073] by linarith+
  then have s: "bitlen ?x - 53 = 1021"
    by linarith
  have q: "36028797018963968 * k div (5 * k) = 7205759403792793" "36028797018963968 * k mod (5 * k) = 3 * k"
    using k div_mult_mult2 [of k 36028797018963968 5] mult_mod_left [of 36028797018963968 5 k] by simp_all
  have "round_ratio (36028797018963968 * k) 5 = four_fifths * 2 ^ 1021"
    unfolding round_ratio_def s Let_def k_def [symmetric] q using k by (simp add: four_fifths_def)
  moreover have "\<not> four_fifths * 2 ^ 1021 \<ge> 2 ^ 2098"
  proof -
    have "four_fifths * 2 ^ 1021 < 2 ^ 53 * 2 ^ 1021"
      by (rule mult_strict_right_mono) (simp_all add: four_fifths_def)
    also have "\<dots> \<le> 2 ^ 2098"
      unfolding power_add [symmetric] by (rule power_increasing) simp_all
    finally show ?thesis
      by linarith
  qed
  ultimately show ?thesis
    unfolding fl_of_ratio_def by (simp only: abs_numeral n Let_def if_False) simp
qed

lemma fl_mult_four_fifths:
  assumes "0 \<le> n" and "n < 2 ^ 50"
  shows "fl_mult (fl_of_int n) (fl_of_ratio 4 5) = Fl (round53 (n * four_fifths * 2 ^ 1021))"
proof -
  let ?x = "n * four_fifths * 2 ^ 1021"
  have x: "0 \<le> ?x"
    using assms by (simp add: four_fifths_def)
  have "n * 2 ^ 1074 * (four_fifths * 2 ^ 1021) * 2 ^ 1074 = ?x * 2 ^ (1074 + 1074)"
    unfolding power_add by simp
  then have e: "n * 2 ^ 1074 * (four_fifths * 2 ^ 1021) * 2 ^ 1074 = ?x * 2 ^ 2148"
    by simp
  have "round_ratio (?x * 2 ^ 2148) (2 ^ 2148) = round53 ?x"
    by (rule round_ratio_mult [OF x]) simp
  moreover have "round53 ?x \<le> round53 (2 ^ 2000)"
  proof (rule round53_mono [OF x])
    have "n * four_fifths \<le> 2 ^ 50 * 2 ^ 53"
      using assms by (intro mult_mono) (simp_all add: four_fifths_def)
    then have "?x \<le> 2 ^ 50 * 2 ^ 53 * 2 ^ 1021"
      by (rule mult_right_mono) simp
    also have "\<dots> \<le> 2 ^ 2000"
      unfolding power_add [symmetric] by (rule power_increasing) simp_all
    finally show "?x \<le> 2 ^ 2000" .
  qed
  moreover have "round53 (2 ^ 2000) = 2 ^ 2000"
    using round53_shift_small [of 1 2000] by simp
  moreover have "(2::int) ^ 2000 < 2 ^ 2098"
    by (rule power_strict_increasing) simp_all
  ultimately have r: "round_ratio (?x * 2 ^ 2148) (2 ^ 2148) = round53 ?x" "\<not> 2 ^ 2098 \<le> round53 ?x"
    by linarith+
  have fl: "fl_mult (Fl (n * 2 ^ 1074)) (Fl (four_fifths * 2 ^ 1021)) =
      fl_of_ratio (n * 2 ^ 1074 * (four_fifths * 2 ^ 1021)) (2 ^ 2148)"
    by (simp add: fl_mult_def)
  have sg: "sgn (n * 2 ^ 1074 * (four_fifths * 2 ^ 1021)) = sgn n" "\<bar>n * 2 ^ 1074 * (four_fifths * 2 ^ 1021)\<bar> = n * 2 ^ 1074 * (four_fifths * 2 ^ 1021)"
    using assms(1) by (simp_all add: sgn_mult four_fifths_def)
  have abs2: "\<bar>2 ^ 2148\<bar> = (2 ^ 2148 :: int)" "sgn (2 ^ 2148 :: int) = 1"
    by (rule abs_of_nonneg, simp, rule sgn_pos, simp)
  have n0: "round53 ?x = 0" if "n = 0"
    using that by (simp add: round53_def)
  have "fl_of_ratio (n * 2 ^ 1074 * (four_fifths * 2 ^ 1021)) (2 ^ 2148) = Fl (sgn n * round53 ?x)"
    unfolding fl_of_ratio_def sg abs2 e r(1) Let_def if_not_P [OF r(2)] by simp
  moreover have "sgn n * round53 ?x = round53 ?x"
    using assms(1) n0 by (cases "n = 0") simp_all
  ultimately show ?thesis
    using assms fl unfolding fl_four_fifths by (subst fl_of_int_small) simp_all
qed

lemma round53_lower: "n > 0 \<Longrightarrow> round53 n > n - 2 ^ (bitlen n - 53)"
proof -
  assume n: "n > 0"
  define s where "s = bitlen n - 53"
  have "n mod 2 ^ s < 2 ^ s"
    by (rule pos_mod_bound) simp
  moreover have "n = n div 2 ^ s * 2 ^ s + n mod 2 ^ s"
    by (rule div_mult_mod_eq [symmetric])
  moreover have "n div 2 ^ s * 2 ^ s \<le> round_half_even n s * 2 ^ s"
    using round_half_even_bounds(1) [of n s] by simp
  ultimately have "round_half_even n s * 2 ^ s > n - 2 ^ s"
    by linarith
  then show ?thesis
    by (auto simp: round53_def s_def)
qed

text \<open>Rounding takes \<open>0.8\<close> of a multiple of five back to the integer.\<close>

lemma round53_four_fifths_exact:
  assumes "0 < j" and "j < 2 ^ 48"
  shows "round53 (5 * j * four_fifths * 2 ^ 1021) = 4 * j * 2 ^ 1074"
proof -
  define b where "b = bitlen j"
  have b: "2 ^ (b - 1) \<le> j" "j < 2 ^ b" "b > 0" "b \<le> 48"
    using bitlen_bounds [OF assms(1)] bitlen_le_iff [OF assms(1), of 48] assms(2) by (simp_all add: b_def)
  define x where "x = j * 2 ^ 55 + 2 * j"
  have x: "5 * j * four_fifths * 2 ^ 1021 = x * 2 ^ 1021"
    by (simp add: x_def four_fifths_def)
  have "x > 0"
    using assms by (simp add: x_def)
  have "(2::int) ^ (b + 1) \<le> 2 ^ 55"
    using b(4) by (intro power_increasing) simp_all
  moreover have "(j + 1) * 2 ^ 55 \<le> 2 ^ b * 2 ^ 55" and "2 * j < 2 ^ (b + 1)"
    using b(2) by simp_all
  ultimately have "x < 2 ^ (b + 55)"
    unfolding x_def power_add distrib_right by linarith
  then have "bitlen x \<le> b + 55"
    using bitlen_le_iff [OF \<open>x > 0\<close>] by blast
  moreover have "\<not> bitlen x \<le> b + 54"
  proof -
    have "(2::int) ^ (b - 1) * 2 ^ 55 \<le> j * 2 ^ 55"
      using b(1) by simp
    moreover have "(2::int) ^ (b - 1) * 2 ^ 55 = 2 ^ (b + 54)"
      using b(3) by (simp only: power_add [symmetric]) simp
    ultimately have "\<not> x < 2 ^ (b + 54)"
      using assms(1) unfolding x_def by linarith
    then show ?thesis
      using bitlen_le_iff [OF \<open>x > 0\<close>] by blast
  qed
  ultimately have bx: "bitlen (x * 2 ^ 1021) = (b + 1023) + 53"
    using bitlen_shift [OF \<open>x > 0\<close>, of 1021] by simp
  define s where "s = b + 1023"
  have split: "x * 2 ^ 1021 = j * 2 ^ (53 - b) * 2 ^ s + 2 * j * 2 ^ 1021"
  proof -
    have "(2::int) ^ (53 - b) * 2 ^ s = 2 ^ 55 * 2 ^ 1021"
      using b(4) by (simp only: s_def power_add [symmetric]) simp
    then show ?thesis
      by (simp add: x_def distrib_right mult.assoc)
  qed
  have rest: "0 \<le> 2 * j * 2 ^ 1021" "2 * (2 * j * 2 ^ 1021) < 2 ^ s"
  proof -
    have "j * 2 ^ 1023 < 2 ^ b * 2 ^ 1023"
      using b(2) by (rule mult_strict_right_mono) simp
    moreover have four: "(2::int) ^ 1023 = 4 * 2 ^ 1021"
      using power_add [of "2::int" 2 1021] by simp
    moreover have "j * 2 ^ 1023 = 4 * (j * 2 ^ 1021)"
      unfolding four by (rule mult.left_commute)
    moreover have "2 * (2 * j * 2 ^ 1021) = 4 * (j * 2 ^ 1021)"
      by simp
    ultimately show "2 * (2 * j * 2 ^ 1021) < 2 ^ s"
      unfolding s_def power_add by (metis (no_types))
  qed (use assms in simp)
  have q: "x * 2 ^ 1021 div 2 ^ s = j * 2 ^ (53 - b)" "x * 2 ^ 1021 mod 2 ^ s = 2 * j * 2 ^ 1021"
    unfolding split using rest by (simp_all add: div_pos_pos_trivial mod_pos_pos_trivial)
  have "round_half_even (x * 2 ^ 1021) s = j * 2 ^ (53 - b)"
    unfolding round_half_even_def q Let_def using rest(2) by simp
  then have "round53 (x * 2 ^ 1021) = j * 2 ^ (53 - b) * 2 ^ s"
    unfolding round53_def bx s_def by (simp only: add_diff_cancel_right') simp
  also have "\<dots> = j * (2 ^ (53 - b) * 2 ^ s)"
    by simp
  also have "(2::int) ^ (53 - b) * 2 ^ s = 2 ^ 1076"
    using b(4) by (simp only: s_def power_add [symmetric]) simp
  finally show ?thesis
    unfolding x by simp
qed

lemma fl_le_four_fifths:
  assumes "0 < n" and "n < 2 ^ 50" and "0 \<le> m" and "m \<le> n"
  shows "fl_le (fl_mult (fl_of_int n) (fl_of_ratio 4 5)) (fl_of_int m) \<longleftrightarrow> 4 * n \<le> 5 * m"
proof -
  let ?x = "n * four_fifths * 2 ^ 1021" and ?y = "m * 2 ^ 1074"
  have "fl_le (fl_mult (fl_of_int n) (fl_of_ratio 4 5)) (fl_of_int m) \<longleftrightarrow> round53 ?x \<le> ?y"
    using fl_mult_four_fifths [of n] fl_of_int_small [of m] assms by (auto simp: fl_le_def)
  also have "\<dots> \<longleftrightarrow> 4 * n \<le> 5 * m"
  proof -
    have y: "?y = m * 2 ^ 53 * 2 ^ 1021"
      by simp
    have five: "5 * (n * four_fifths) = 4 * n * 2 ^ 53 + 2 * n"
      by (simp add: four_fifths_def)
    have p: "(2::int) ^ 53 = 9007199254740992" "(2::int) ^ 50 = 1125899906842624"
      by simp_all
    consider "4 * n < 5 * m" | "4 * n = 5 * m" | "4 * n > 5 * m"
      by linarith
    then show ?thesis
    proof cases
      case 1
      then have "n * four_fifths \<le> m * 2 ^ 53"
        using five assms(2) unfolding p by linarith
      then have "?x \<le> ?y"
        unfolding y by (rule mult_right_mono) simp
      then have "round53 ?x \<le> round53 ?y"
        using assms(1) by (intro round53_mono) (simp_all add: four_fifths_def)
      with 1 show ?thesis
        using round53_shift_small [of m 1074] assms by simp
    next
      case 2
      define j where "j = m div 4"
      have "m = 4 * j" "n = 5 * j"
        using 2 unfolding j_def by presburger+
      then show ?thesis
        using round53_four_fifths_exact [of j] assms by simp
    next
      case 3
      then have "n * four_fifths \<ge> m * 2 ^ 53 + 2 ^ 50"
        using five assms(1) unfolding p by linarith
      then have "?x \<ge> (m * 2 ^ 53 + 2 ^ 50) * 2 ^ 1021"
        by (rule mult_right_mono) simp
      then have x: "?x \<ge> ?y + 2 ^ 1071"
        by (simp add: distrib_right)
      have "?x > 0"
        using assms(1) by (simp add: four_fifths_def)
      have "n * four_fifths < 2 ^ 50 * 2 ^ 53"
        using assms by (intro mult_strict_mono) (simp_all add: four_fifths_def)
      then have "?x < 2 ^ 50 * 2 ^ 53 * 2 ^ 1021"
        by (rule mult_strict_right_mono) simp
      then have "?x < 2 ^ 1124"
        by simp
      then have "bitlen ?x \<le> 1124"
        using bitlen_le_iff [OF \<open>?x > 0\<close>] by blast
      then have "(2::int) ^ (bitlen ?x - 53) \<le> 2 ^ 1071"
        by (intro power_increasing) simp_all
      with round53_lower [OF \<open>?x > 0\<close>] x 3 show ?thesis
        by linarith
    qed
  qed
  finally show ?thesis .
qed

end
