(* ===== verification/Match_Type.thy ===== *)
theory Match_Type
  imports Release_Match Go_Path Go_Rounding
begin

text \<open>
  Whether the files of two torrents fit (\<open>getMatchType\<close>, \<open>getMatchTypeWithReason\<close> and
  \<open>getMatchTypeFromTitle\<close> of \<open>src/internal/services/crossseed/matching.go\<close>, \<open>layout.go\<close> and
  \<open>ignore_patterns.go\<close>). Sums of sizes wrap like \<open>int64\<close>; the metrics and the log are left out.
\<close>

section \<open>Files\<close>

record qb_file =
  qf_Name :: string
  qf_Size :: int

definition DefaultIgnoredExtensions :: "string list" where
  "DefaultIgnoredExtensions =
     [''.nfo'', ''.srr'', ''.srt'', ''.sub'', ''.idx'', ''.ass'', ''.ssa'', ''.sup'', ''.vtt'', ''.txt'']"

definition DefaultIgnoredPathKeywords :: "string list" where
  "DefaultIgnoredPathKeywords = [''sample'', ''!sample'', ''proof'', ''extras'', ''bonus'', ''trailer'', ''featurette'']"

definition shouldIgnoreFile :: "string \<Rightarrow> bool" where
  "shouldIgnoreFile filename \<longleftrightarrow>
     (let lower = defaultTransform filename in
      list_ex (has_suffix lower) DefaultIgnoredExtensions \<or> list_ex (contains_str lower) DefaultIgnoredPathKeywords)"

section \<open>Layouts\<close>

datatype torrent_layout = LayoutUnknown | LayoutFiles | LayoutArchives

definition archiveExtensions :: "string list" where
  "archiveExtensions = [''.rar'', ''.zip'', ''.7z''] @
     map (\<lambda>i. if i < 10 then ''.r0'' @ show_nat i else ''.r'' @ show_nat i) [0..<100]"

definition isArchiveFilename :: "string \<Rightarrow> bool" where
  "isArchiveFilename nameLower \<longleftrightarrow>
     list_ex (has_suffix nameLower) [''.tar.gz'', ''.tar.xz'', ''.tar.bz2'', ''.tar''] \<or>
     List.member archiveExtensions (path_ext nameLower)"

text \<open>The first file of the largest size, if that is positive: name and size.\<close>

definition largestFile :: "qb_file list \<Rightarrow> string \<times> int" where
  "largestFile files = fold (\<lambda>f (name, size). if qf_Size f > size then (qf_Name f, qf_Size f) else (name, size)) files ([], 0)"

definition classifyTorrentLayout :: "qb_file list \<Rightarrow> torrent_layout" where
  "classifyTorrentLayout files =
     (case largestFile (filter (\<lambda>f. \<not> shouldIgnoreFile (qf_Name f)) files) of
        (largestName, largestSize) \<Rightarrow>
          if largestSize = 0 \<or> trim_space largestName = [] then LayoutUnknown
          else if isArchiveFilename (to_lower largestName) then LayoutArchives
          else LayoutFiles)"

section \<open>Keys of files\<close>

definition enrichReleaseFromTorrent :: "rls_release \<Rightarrow> rls_release \<Rightarrow> rls_release" where
  "enrichReleaseFromTorrent f t =
     f\<lparr>rr_Group := if rr_Group f = [] \<and> rr_Group t \<noteq> [] then rr_Group t else rr_Group f,
       rr_Resolution := if rr_Resolution f = [] \<and> rr_Resolution t \<noteq> [] then rr_Resolution t else rr_Resolution f,
       rr_Codec := if rr_Codec f = [] \<and> rr_Codec t \<noteq> [] then rr_Codec t else rr_Codec f,
       rr_Audio := if rr_Audio f = [] \<and> rr_Audio t \<noteq> [] then rr_Audio t else rr_Audio f,
       rr_Source := if rr_Source f = [] \<and> rr_Source t \<noteq> [] then rr_Source t else rr_Source f,
       rr_HDR := if rr_HDR f = [] \<and> rr_HDR t \<noteq> [] then rr_HDR t else rr_HDR f,
       rr_BitDepth := if rr_BitDepth f = [] \<and> rr_BitDepth t \<noteq> [] then rr_BitDepth t else rr_BitDepth f,
       rr_Series := if rr_Series f = 0 \<and> rr_Series t > 0 then rr_Series t else rr_Series f,
       rr_Year := if rr_Year f = 0 \<and> rr_Year t > 0 then rr_Year t else rr_Year f\<rparr>"

definition fileKey :: "match_lib \<Rightarrow> rls_release \<Rightarrow> qb_file \<Rightarrow> release_key" where
  "fileKey lib torrentRelease f = makeReleaseKey (enrichReleaseFromTorrent (parseRelease lib (qf_Name f)) torrentRelease)"

definition usableFiles :: "qb_file list \<Rightarrow> qb_file list" where
  "usableFiles files = filter (\<lambda>f. \<not> shouldIgnoreFile (qf_Name f)) files"

definition totalSize :: "qb_file list \<Rightarrow> int" where
  "totalSize files = fold (\<lambda>f total. wrap64 (total + qf_Size f)) files 0"

text \<open>The largest size of the files of each key.\<close>

definition noteKey :: "match_lib \<Rightarrow> rls_release \<Rightarrow> qb_file \<Rightarrow> (release_key, int) gomap \<Rightarrow> (release_key, int) gomap" where
  "noteKey lib release f keys =
     (let key = fileKey lib release f in
      if key = zeroKey then keys
      else case gm_get keys key of
        None \<Rightarrow> gm_put key (qf_Size f) keys
      | Some existing \<Rightarrow> if qf_Size f > existing then gm_put key (qf_Size f) keys else keys)"

definition releaseKeys :: "match_lib \<Rightarrow> rls_release \<Rightarrow> qb_file list \<Rightarrow> (release_key, int) gomap" where
  "releaseKeys lib release files = fold (noteKey lib release) files []"

section \<open>Comparisons\<close>

definition streamingExactMatch :: "qb_file list \<Rightarrow> qb_file list \<Rightarrow> bool" where
  "streamingExactMatch sourceFiles candidateFiles \<longleftrightarrow>
     length sourceFiles = length candidateFiles \<and>
     (let sourceMap = fold (\<lambda>f. gm_put (qf_Name f) (qf_Size f)) sourceFiles [] in
      list_all (\<lambda>cf. gm_get sourceMap (qf_Name cf) = Some (qf_Size cf)) candidateFiles)"

definition baseWithoutExt :: "string \<Rightarrow> string" where
  "baseWithoutExt p =
     (let base = path_base p; ext = path_ext p in
      to_lower (if has_suffix base ext then take (length base - length ext) base else base))"

definition streamingLargestFileMatch :: "qb_file list \<Rightarrow> qb_file list \<Rightarrow> bool" where
  "streamingLargestFileMatch sourceFiles candidateFiles \<longleftrightarrow>
     (case (largestFile sourceFiles, largestFile candidateFiles) of
        ((srcPath, srcSize), (candPath, candSize)) \<Rightarrow>
          srcSize > 0 \<and> srcSize = candSize \<and> baseWithoutExt srcPath \<noteq> [] \<and> baseWithoutExt srcPath = baseWithoutExt candPath)"

definition matchCount :: "(release_key, int) gomap \<Rightarrow> (release_key, int) gomap \<Rightarrow> nat" where
  "matchCount sub super = length (filter (\<lambda>(key, size). gm_get super key = Some size) sub)"

definition checkPartialMatch :: "(release_key, int) gomap \<Rightarrow> (release_key, int) gomap \<Rightarrow> bool" where
  "checkPartialMatch sub super \<longleftrightarrow>
     sub \<noteq> [] \<and> super \<noteq> [] \<and>
     fl_le (fl_mult (fl_of_int (int (length sub))) (fl_of_ratio 4 5)) (fl_of_int (int (matchCount sub super)))"

section \<open>The type of a match\<close>

definition partialMatch :: "(release_key, int) gomap \<Rightarrow> (release_key, int) gomap \<Rightarrow> string option" where
  "partialMatch sourceKeys candidateKeys =
     (if sourceKeys \<noteq> [] \<and> candidateKeys \<noteq> [] then
        if checkPartialMatch sourceKeys candidateKeys then Some ''partial-in-pack''
        else if checkPartialMatch candidateKeys sourceKeys then Some ''partial-contains''
        else None
      else None)"

definition layoutsConflict :: "qb_file list \<Rightarrow> qb_file list \<Rightarrow> bool" where
  "layoutsConflict sourceFiles candidateFiles \<longleftrightarrow>
     (let sourceLayout = classifyTorrentLayout sourceFiles; candidateLayout = classifyTorrentLayout candidateFiles in
      sourceLayout \<noteq> LayoutUnknown \<and> candidateLayout \<noteq> LayoutUnknown \<and> sourceLayout \<noteq> candidateLayout)"

text \<open>Both functions differ in the comparison of the sizes only, and in the reason one of them gives.\<close>

definition matchFiles :: "match_lib \<Rightarrow> rls_release \<Rightarrow> rls_release \<Rightarrow> qb_file list \<Rightarrow> qb_file list \<Rightarrow> (int \<Rightarrow> int \<Rightarrow> bool) \<Rightarrow> string" where
  "matchFiles lib sourceRelease candidateRelease sourceFiles candidateFiles sizesFit =
     (let ss = usableFiles sourceFiles; cs = usableFiles candidateFiles;
          sk = releaseKeys lib sourceRelease ss; ck = releaseKeys lib candidateRelease cs;
          total = totalSize ss in
      if streamingExactMatch ss cs then ''exact''
      else case partialMatch sk ck of
        Some t \<Rightarrow> t
      | None \<Rightarrow>
          if total > 0 \<and> ss \<noteq> [] \<and> sizesFit total (totalSize cs) then ''size''
          else if sk = [] \<and> ck = [] \<and> ss \<noteq> [] \<and> cs \<noteq> [] \<and> streamingLargestFileMatch ss cs then ''size''
          else [])"

definition getMatchType :: "match_lib \<Rightarrow> rls_release \<Rightarrow> rls_release \<Rightarrow> qb_file list \<Rightarrow> qb_file list \<Rightarrow> string" where
  "getMatchType lib sourceRelease candidateRelease sourceFiles candidateFiles =
     (if layoutsConflict sourceFiles candidateFiles then []
      else matchFiles lib sourceRelease candidateRelease sourceFiles candidateFiles (=))"

datatype no_match_reason =
    LayoutMismatch torrent_layout torrent_layout
  | NoUsableSourceFiles | NoUsableCandidateFiles
  | SizeMismatch float64 float64 float64 float64
  | FileCountMismatch nat nat
  | NoReleaseMetadata | MetadataMismatch | FilesMismatch

definition gigabytes :: "int \<Rightarrow> float64" where
  "gigabytes n = fl_div (fl_of_int n) (1024 * 1024 * 1024)"

definition buildNoMatchReason ::
  "qb_file list \<Rightarrow> qb_file list \<Rightarrow> int \<Rightarrow> int \<Rightarrow> (release_key, int) gomap \<Rightarrow> (release_key, int) gomap \<Rightarrow> float64 \<Rightarrow> no_match_reason" where
  "buildNoMatchReason ss cs sourceSize candidateSize sk ck tolerancePercent =
     (if ss = [] then NoUsableSourceFiles
      else if cs = [] then NoUsableCandidateFiles
      else if sourceSize \<noteq> candidateSize then
        let d = wrap64 (sourceSize - candidateSize);
            diffPercent = (if sourceSize > 0
              then fl_mult (fl_div (fl_of_int (if d < 0 then wrap64 (- d) else d)) sourceSize) (fl_of_int 100) else Fl 0)
        in SizeMismatch (gigabytes sourceSize) (gigabytes candidateSize) diffPercent tolerancePercent
      else if length ss \<noteq> length cs then FileCountMismatch (length ss) (length cs)
      else if sk = [] \<and> ck = [] then NoReleaseMetadata
      else if sk \<noteq> [] \<and> ck \<noteq> [] then MetadataMismatch
      else FilesMismatch)"

definition getMatchTypeWithReason ::
  "match_lib \<Rightarrow> rls_release \<Rightarrow> rls_release \<Rightarrow> qb_file list \<Rightarrow> qb_file list \<Rightarrow> float64 \<Rightarrow> no_match_reason + string" where
  "getMatchTypeWithReason lib sourceRelease candidateRelease sourceFiles candidateFiles tolerancePercent =
     (if layoutsConflict sourceFiles candidateFiles
      then Inl (LayoutMismatch (classifyTorrentLayout sourceFiles) (classifyTorrentLayout candidateFiles))
      else
        let t = matchFiles lib sourceRelease candidateRelease sourceFiles candidateFiles
              (\<lambda>s c. isSizeWithinTolerance s c tolerancePercent);
            ss = usableFiles sourceFiles; cs = usableFiles candidateFiles in
        if t \<noteq> [] then Inr t
        else Inl (buildNoMatchReason ss cs (totalSize ss) (totalSize cs)
          (releaseKeys lib sourceRelease ss) (releaseKeys lib candidateRelease cs) tolerancePercent))"

section \<open>Matches by title\<close>

text \<open>
  The number in the first \<open>" - "\<close> of a name, when digits and a blank follow it; the loop looks at the
  first place only that has the three characters.
\<close>

fun extractEpisode :: "string \<Rightarrow> string" where
  "extractEpisode (a # b # c # rest) =
     (if length rest < 2 then []
      else if a = CHR 0x20 \<and> b = CHR ''-'' \<and> c = CHR 0x20 then
        (let digits = takeWhile is_digit rest; remaining = dropWhile is_digit rest in
         if digits \<noteq> [] \<and> remaining \<noteq> [] \<and> hd remaining = CHR 0x20 then digits else [])
      else extractEpisode (b # c # rest))"
| "extractEpisode _ = []"

definition titleKeys :: "match_lib \<Rightarrow> rls_release \<Rightarrow> qb_file list \<Rightarrow> (release_key, int) gomap" where
  "titleKeys lib candidateRelease files =
     fold (\<lambda>cf keys. let key = fileKey lib candidateRelease cf in if key = zeroKey then keys else gm_put key (qf_Size cf) keys)
       (usableFiles files) []"

definition getMatchTypeFromTitle :: "match_lib \<Rightarrow> string \<Rightarrow> string \<Rightarrow> rls_release \<Rightarrow> rls_release \<Rightarrow> qb_file list \<Rightarrow> string" where
  "getMatchTypeFromTitle lib targetName candidateName target candidateRelease candidateFiles =
     (let keys = titleKeys lib candidateRelease candidateFiles;
          found =
            (if rr_Series target > 0 \<and> rr_Episode target > 0 then
               (if gm_has keys (zeroKey\<lparr>rk_series := rr_Series target, rk_episode := rr_Episode target\<rparr>) then ''partial-in-pack'' else [])
             else if rr_Series target > 0 then
               (if list_ex (\<lambda>(key, size). rk_series key = rr_Series target \<and> rk_episode key > 0) keys then ''partial-contains'' else [])
             else if rr_Year target > 0 \<and> rr_Month target > 0 \<and> rr_Day target > 0 then
               (if gm_has keys (zeroKey\<lparr>rk_year := rr_Year target, rk_month := rr_Month target, rk_day := rr_Day target\<rparr>)
                then ''partial-in-pack'' else [])
             else if gm_has keys (makeReleaseKey target) then ''partial-in-pack'' else [])
      in if found \<noteq> [] then found
         else if keys = [] \<and> normalizedTitle lib (rr_Title target) \<noteq> [] \<and>
             normalizedTitle lib (rr_Title target) = normalizedTitle lib (rr_Title candidateRelease) then
           let targetEp = extractEpisode (to_lower targetName); candidateEp = extractEpisode (to_lower candidateName) in
           if targetEp \<noteq> [] \<and> candidateEp \<noteq> [] \<and> targetEp = candidateEp then ''partial-in-pack''
           else if makeReleaseKey target = zeroKey \<and> targetEp = [] \<and> candidateEp = [] then ''release-match''
           else []
         else [])"

section \<open>Equal lists of files\<close>

lemma gm_get_fold_put:
  assumes "distinct (map key xs)"
  shows "gm_get (fold (\<lambda>x. gm_put (key x) (val x)) xs m) k =
    (case List.find (\<lambda>x. key x = k) xs of Some x \<Rightarrow> Some (val x) | None \<Rightarrow> gm_get m k)"
  using assms
proof (induction xs arbitrary: m)
  case (Cons x xs)
  have "List.find (\<lambda>y. key y = key x) xs = None"
    using Cons.prems unfolding find_None_iff by (metis distinct.simps(2) image_eqI list.set_map list.simps(9))
  with Cons show ?case
    by (auto split: option.split)
qed simp

lemma find_key:
  assumes "distinct (map key xs)"
  shows "List.find (\<lambda>x. key x = k) xs = Some x \<longleftrightarrow> x \<in> set xs \<and> key x = k"
  using assms by (induction xs) (auto simp: rev_image_eqI)

lemma streamingExactMatch_iff:
  assumes "distinct (map qf_Name ss)" and "distinct (map qf_Name cs)"
  shows "streamingExactMatch ss cs \<longleftrightarrow> mset ss = mset cs"
proof -
  have get: "gm_get (fold (\<lambda>f. gm_put (qf_Name f) (qf_Size f)) ss []) (qf_Name cf) = Some (qf_Size cf) \<longleftrightarrow> cf \<in> set ss" for cf
  proof (cases "List.find (\<lambda>x. qf_Name x = qf_Name cf) ss")
    case None
    then have "cf \<notin> set ss"
      by (auto simp: find_None_iff)
    with None show ?thesis
      by (simp add: gm_get_fold_put [OF assms(1)])
  next
    case (Some x)
    then have "x \<in> set ss" and "qf_Name x = qf_Name cf"
      using find_key [OF assms(1)] by blast+
    moreover have "cf \<in> set ss \<Longrightarrow> cf = x"
      using find_key [OF assms(1), of "qf_Name cf" cf] Some by simp
    moreover have "qf_Size x = qf_Size cf \<Longrightarrow> x = cf"
      using \<open>qf_Name x = qf_Name cf\<close> by simp
    ultimately have "qf_Size x = qf_Size cf \<longleftrightarrow> cf \<in> set ss"
      by metis
    with Some show ?thesis
      by (simp add: gm_get_fold_put [OF assms(1)])
  qed
  have "streamingExactMatch ss cs \<longleftrightarrow> length ss = length cs \<and> set cs \<subseteq> set ss"
    by (auto simp: streamingExactMatch_def Let_def list_all_iff get)
  also have "\<dots> \<longleftrightarrow> mset ss = mset cs"
  proof
    have d: "distinct ss" "distinct cs"
      using assms distinct_map by blast+
    assume a: "length ss = length cs \<and> set cs \<subseteq> set ss"
    then have "set cs = set ss"
      using card_subset_eq [of "set ss" "set cs"] d by (simp add: distinct_card)
    with d show "mset ss = mset cs"
      by (intro distinct_mset_eqI) simp_all
  next
    assume "mset ss = mset cs"
    then show "length ss = length cs \<and> set cs \<subseteq> set ss"
      by (metis mset_eq_length set_mset_mset order_refl)
  qed
  finally show ?thesis .
qed

section \<open>Keys and their sizes\<close>

text \<open>A key stands for the largest of the files that have it.\<close>

lemma gm_get_noteKey:
  "gm_get (noteKey lib r f m) k =
     (if fileKey lib r f = k \<and> k \<noteq> zeroKey then
        Some (case gm_get m k of None \<Rightarrow> qf_Size f | Some e \<Rightarrow> max (qf_Size f) e)
      else gm_get m k)"
  by (auto simp: noteKey_def Let_def split: option.split)

lemma fold_largest: "fold (\<lambda>x o'. Some (case o' of None \<Rightarrow> x | Some e \<Rightarrow> max x e)) xs (Some e) = Some (fold max xs e)"
  by (induction xs arbitrary: e) (simp_all add: max.commute)

lemma gm_get_releaseKeys:
  assumes "k \<noteq> zeroKey"
  shows "gm_get (fold (noteKey lib r) files m) k =
    fold (\<lambda>x o'. Some (case o' of None \<Rightarrow> x | Some e \<Rightarrow> max x e)) (map qf_Size (filter (\<lambda>f. fileKey lib r f = k) files)) (gm_get m k)"
  using assms by (induction files arbitrary: m) (auto simp: gm_get_noteKey)

definition keySizes :: "match_lib \<Rightarrow> rls_release \<Rightarrow> qb_file list \<Rightarrow> release_key \<Rightarrow> int list" where
  "keySizes lib r files k = map qf_Size (filter (\<lambda>f. fileKey lib r f = k) files)"

lemma releaseKeys_get:
  assumes "k \<noteq> zeroKey"
  shows "gm_get (releaseKeys lib r files) k = (if keySizes lib r files k = [] then None else Some (Max (set (keySizes lib r files k))))"
proof (cases "keySizes lib r files k")
  case Nil
  then show ?thesis
    using gm_get_releaseKeys [OF assms, of lib r files "[]"] by (simp add: releaseKeys_def keySizes_def)
next
  case (Cons x xs)
  then show ?thesis
    using gm_get_releaseKeys [OF assms, of lib r files "[]"] Max.set_eq_fold [of x xs]
    by (simp add: releaseKeys_def keySizes_def fold_largest)
qed

lemma gm_ok_releaseKeys: "gm_ok (releaseKeys lib r files)"
proof -
  have "gm_ok m \<Longrightarrow> gm_ok (fold (noteKey lib r) files m)" for m
    by (induction files arbitrary: m) (auto simp: noteKey_def Let_def split: option.split)
  then show ?thesis
    by (simp add: releaseKeys_def)
qed

lemma length_releaseKeys: "length (releaseKeys lib r files) \<le> length files"
proof -
  have put: "length (gm_put k v m) \<le> Suc (length m)" for k :: release_key and v :: int and m
    by (induction m) (auto simp: gm_put_def)
  have "length (fold (noteKey lib r) files m) \<le> length m + length files" for m
  proof (induction files arbitrary: m)
    case (Cons f files)
    have "length (noteKey lib r f m) \<le> Suc (length m)"
      using put by (auto simp: noteKey_def Let_def split: option.split)
    with Cons [of "noteKey lib r f m"] show ?case
      by simp
  qed simp
  from this [of "[]"] show ?thesis
    by (simp add: releaseKeys_def)
qed

lemma checkPartialMatch_iff:
  assumes "length sub < 2 ^ 50"
  shows "checkPartialMatch sub super \<longleftrightarrow> sub \<noteq> [] \<and> super \<noteq> [] \<and> 4 * length sub \<le> 5 * matchCount sub super"
proof (cases "sub = []")
  case False
  have "matchCount sub super \<le> length sub"
    by (simp add: matchCount_def)
  moreover have "int (length sub) < 2 ^ 50"
    using assms by (metis of_nat_less_iff of_nat_numeral of_nat_power)
  ultimately have "fl_le (fl_mult (fl_of_int (int (length sub))) (fl_of_ratio 4 5)) (fl_of_int (int (matchCount sub super))) \<longleftrightarrow>
      4 * int (length sub) \<le> 5 * int (matchCount sub super)"
    using False by (intro fl_le_four_fifths) simp_all
  with False show ?thesis
    by (auto simp: checkPartialMatch_def)
qed (simp add: checkPartialMatch_def)

lemma checkPartialMatch_code [code]:
  "checkPartialMatch sub super \<longleftrightarrow>
     (if int (length sub) < 1125899906842624
      then sub \<noteq> [] \<and> super \<noteq> [] \<and> 4 * int (length sub) \<le> 5 * int (matchCount sub super)
      else sub \<noteq> [] \<and> super \<noteq> [] \<and>
        fl_le (fl_mult (fl_of_int (int (length sub))) (fl_of_ratio 4 5)) (fl_of_int (int (matchCount sub super))))"
  using checkPartialMatch_iff [of sub super] by (auto simp: checkPartialMatch_def)

section \<open>What a match means\<close>

lemma partialMatch_cases:
  "partialMatch sk ck = Some t \<Longrightarrow>
     t = ''partial-in-pack'' \<and> checkPartialMatch sk ck \<or> t = ''partial-contains'' \<and> checkPartialMatch ck sk \<and> \<not> checkPartialMatch sk ck"
  by (auto simp: partialMatch_def split: if_splits)

text \<open>
  C26. What the answers of \<open>getMatchType\<close> say, for torrents of less than \<open>2 ^ 50\<close> files whose usable files have
  different names. Layouts that conflict never match. Otherwise the answer is exact just when the
  usable files of both sides are the same, name by name and size by size; a partial match means that at
  least four fifths of the keys of one side have the same size on the other --- although the code
  compares \<open>float64\<close> numbers ---, where the size of a key is that of its largest file; a match by size
  means equal positive totals or largest files of the same size, and the empty answer that
  neither holds.
\<close>

theorem getMatchType_spec:
  assumes "distinct (map qf_Name (usableFiles sf))" and "distinct (map qf_Name (usableFiles cf))"
    and "length sf < 2 ^ 50" and "length cf < 2 ^ 50"
  shows "let ss = usableFiles sf; cs = usableFiles cf; sk = releaseKeys lib sr ss; ck = releaseKeys lib cr cs;
      t = getMatchType lib sr cr sf cf in
    (layoutsConflict sf cf \<longrightarrow> t = []) \<and>
    (\<not> layoutsConflict sf cf \<longrightarrow>
      (t = ''exact'' \<longleftrightarrow> mset ss = mset cs) \<and>
      (t = ''partial-in-pack'' \<longleftrightarrow> mset ss \<noteq> mset cs \<and> sk \<noteq> [] \<and> ck \<noteq> [] \<and> 4 * length sk \<le> 5 * matchCount sk ck) \<and>
      (t = ''partial-contains'' \<longrightarrow> sk \<noteq> [] \<and> ck \<noteq> [] \<and> 4 * length ck \<le> 5 * matchCount ck sk \<and> 4 * length sk > 5 * matchCount sk ck) \<and>
      (t = ''size'' \<longrightarrow> ss \<noteq> [] \<and> (totalSize ss > 0 \<and> totalSize ss = totalSize cs \<or>
         0 < snd (largestFile ss) \<and> snd (largestFile ss) = snd (largestFile cs))) \<and>
      (t = [] \<longrightarrow> mset ss \<noteq> mset cs \<and> \<not> (ss \<noteq> [] \<and> totalSize ss > 0 \<and> totalSize ss = totalSize cs)) \<and>
      (\<forall>k. k \<noteq> zeroKey \<longrightarrow> gm_get sk k = (if keySizes lib sr ss k = [] then None else Some (Max (set (keySizes lib sr ss k))))) \<and>
      (\<forall>k. k \<noteq> zeroKey \<longrightarrow> gm_get ck k = (if keySizes lib cr cs k = [] then None else Some (Max (set (keySizes lib cr cs k))))))"
proof -
  define ss cs where "ss = usableFiles sf" and "cs = usableFiles cf"
  define sk ck where "sk = releaseKeys lib sr ss" and "ck = releaseKeys lib cr cs"
  define t where "t = getMatchType lib sr cr sf cf"
  note names = assms(1,2) [folded ss_def cs_def] and small = assms(3,4)
  have len: "length sk < 2 ^ 50" "length ck < 2 ^ 50"
    using length_releaseKeys [of lib sr ss] length_releaseKeys [of lib cr cs] length_filter_le [of _ sf] length_filter_le [of _ cf] small
    unfolding sk_def ck_def ss_def cs_def usableFiles_def by (meson le_less_trans order_trans)+
  note partial = checkPartialMatch_iff [OF len(1), of ck] checkPartialMatch_iff [OF len(2), of sk]
  note exact = streamingExactMatch_iff [OF names]
  have t: "t = (if layoutsConflict sf cf then [] else if mset ss = mset cs then ''exact''
      else case partialMatch sk ck of Some r \<Rightarrow> r
      | None \<Rightarrow> if totalSize ss > 0 \<and> ss \<noteq> [] \<and> totalSize ss = totalSize cs then ''size''
          else if sk = [] \<and> ck = [] \<and> ss \<noteq> [] \<and> cs \<noteq> [] \<and> streamingLargestFileMatch ss cs then ''size'' else [])"
    by (simp only: t_def getMatchType_def matchFiles_def Let_def exact flip: ss_def cs_def sk_def ck_def)
  have partial_exact: "partialMatch sk ck = Some ''partial-in-pack'' \<longleftrightarrow> checkPartialMatch sk ck"
    by (auto simp: partialMatch_def checkPartialMatch_def)
  have largest: "streamingLargestFileMatch ss cs \<Longrightarrow> 0 < snd (largestFile ss) \<and> snd (largestFile ss) = snd (largestFile cs)"
    by (auto simp: streamingLargestFileMatch_def split: prod.splits)
  have keys: "\<forall>k. k \<noteq> zeroKey \<longrightarrow> gm_get sk k = (if keySizes lib sr ss k = [] then None else Some (Max (set (keySizes lib sr ss k))))"
    "\<forall>k. k \<noteq> zeroKey \<longrightarrow> gm_get ck k = (if keySizes lib cr cs k = [] then None else Some (Max (set (keySizes lib cr cs k))))"
    using releaseKeys_get unfolding sk_def ck_def by blast+
  note folds = Let_def ss_def [symmetric] cs_def [symmetric] sk_def [symmetric] ck_def [symmetric] t_def [symmetric]
  show ?thesis
  proof (cases "layoutsConflict sf cf \<or> mset ss = mset cs")
    case True
    then show ?thesis
      unfolding folds using t keys by auto
  next
    case False
    show ?thesis
    proof (cases "partialMatch sk ck")
      case None
      then have "\<not> checkPartialMatch sk ck"
        using partial_exact by simp
      with None False show ?thesis
        unfolding folds using t keys partial largest by auto
    next
      case (Some r)
      with False have "t = r"
        using t by simp
      with Some show ?thesis
        unfolding folds using partialMatch_cases [OF Some] False keys partial by auto
    qed
  qed
qed

text \<open>An episode and the pack that contains it.\<close>

definition demo_parse_lib :: match_lib where
  "demo_parse_lib = \<lparr>ml_parseString = (\<lambda>s. if contains_str s ''E01'' then zeroRelease\<lparr>rr_Series := 1, rr_Episode := 1\<rparr>
       else if contains_str s ''E02'' then zeroRelease\<lparr>rr_Series := 1, rr_Episode := 2\<rparr> else zeroRelease),
     ml_decompose = Some, ml_isWordRune = (\<lambda>r. True), ml_findIndex = (\<lambda>re s. None), ml_quoteMeta = id\<rparr>"

theorem getMatchType_spec_witness:
  "let episode = [\<lparr>qf_Name = ''S1E01.mkv'', qf_Size = 10\<rparr>, \<lparr>qf_Name = ''S1E01.nfo'', qf_Size = 1\<rparr>];
       pack = [\<lparr>qf_Name = ''P/S1E01.mkv'', qf_Size = 10\<rparr>, \<lparr>qf_Name = ''P/S1E02.mkv'', qf_Size = 11\<rparr>];
       sk = releaseKeys demo_parse_lib zeroRelease (usableFiles episode); ck = releaseKeys demo_parse_lib zeroRelease (usableFiles pack)
   in getMatchType demo_parse_lib zeroRelease zeroRelease episode pack = ''partial-in-pack'' \<and>
      4 * length sk \<le> 5 * matchCount sk ck"
proof -
  let ?episode = "[\<lparr>qf_Name = ''S1E01.mkv'', qf_Size = 10\<rparr>, \<lparr>qf_Name = ''S1E01.nfo'', qf_Size = 1\<rparr>]"
  let ?pack = "[\<lparr>qf_Name = ''P/S1E01.mkv'', qf_Size = 10\<rparr>, \<lparr>qf_Name = ''P/S1E02.mkv'', qf_Size = 11\<rparr>]"
  have names: "distinct (map qf_Name (usableFiles ?episode))" "distinct (map qf_Name (usableFiles ?pack))"
    by code_simp+
  have small: "length ?episode < 2 ^ 50" "length ?pack < 2 ^ 50"
    by simp_all
  have layouts: "\<not> layoutsConflict ?episode ?pack"
    by code_simp
  have t: "getMatchType demo_parse_lib zeroRelease zeroRelease ?episode ?pack = ''partial-in-pack''"
    by code_simp
  note spec = getMatchType_spec [OF names small, where lib = demo_parse_lib and sr = zeroRelease and cr = zeroRelease, unfolded Let_def]
  note pack = conjunct1 [OF conjunct2 [OF mp [OF conjunct2 [OF spec] layouts]]]
  show ?thesis
    unfolding Let_def by (rule conjI, rule t, rule conjunct2 [OF conjunct2 [OF conjunct2 [OF iffD1 [OF pack t]]]])
qed

section \<open>Torrents without usable files\<close>

text \<open>
  The keywords are looked for anywhere in the path, and two torrents of which no file is usable match
  exactly, whatever their files are.
\<close>

lemma unusable_files_match_exactly:
  "getMatchType lib a b [\<lparr>qf_Name = ''Bulletproof.1996.mkv'', qf_Size = 4000\<rparr>] [\<lparr>qf_Name = ''Death.Proof.2007.mkv'', qf_Size = 9000\<rparr>] = ''exact''"
proof -
  have "usableFiles [\<lparr>qf_Name = ''Bulletproof.1996.mkv'', qf_Size = 4000\<rparr>] = []"
    and "usableFiles [\<lparr>qf_Name = ''Death.Proof.2007.mkv'', qf_Size = 9000\<rparr>] = []"
    and "\<not> layoutsConflict [\<lparr>qf_Name = ''Bulletproof.1996.mkv'', qf_Size = 4000\<rparr>] [\<lparr>qf_Name = ''Death.Proof.2007.mkv'', qf_Size = 9000\<rparr>]"
    by code_simp+
  then show ?thesis
    by (simp add: getMatchType_def matchFiles_def Let_def streamingExactMatch_def)
qed

end
