(* ===== verification/Cross_Files.thy ===== *)
theory Cross_Files
  imports Match_Type "HOL-Library.Product_Lexorder"
begin

text \<open>
  Files of a cross-seed against the files of the torrent it takes its data from: the matching and
  renaming plans of \<open>src/internal/services/crossseed/align.go\<close>, and the check of \<open>piece_boundary.go\<close> that
  the files to be downloaded share no piece with the files that are there.
\<close>

section \<open>Keys\<close>

definition xsFileBaseName :: "string \<Rightarrow> string" where
  "xsFileBaseName path =
     (let base = rev (takeWhile (\<lambda>c. c \<noteq> CHR ''/'') (rev path)) in
      if CHR ''/'' \<in> set path \<and> base \<noteq> [] then base else path)"

text \<open>A name split at its last dot, when something follows the dot: name and extension.\<close>

definition xsSplitLastDot :: "string \<Rightarrow> (string \<times> string) option" where
  "xsSplitLastDot s =
     (let e = takeWhile (\<lambda>c. c \<noteq> CHR ''.'') (rev s) in
      if length e < length s \<and> e \<noteq> [] then Some (take (length s - length e - 1) s, rev e) else None)"

definition is_ascii_alnum :: "char \<Rightarrow> bool" where
  "is_ascii_alnum c \<longleftrightarrow> (let n = of_char c :: nat in 97 \<le> n \<and> n \<le> 122 \<or> 65 \<le> n \<and> n \<le> 90 \<or> 48 \<le> n \<and> n \<le> 57)"

text \<open>The loop over the runes that keeps letters and digits.\<close>

definition wordRunes :: "match_lib \<Rightarrow> string \<Rightarrow> string" where
  "wordRunes lib s =
     concat (filter (\<lambda>r. case r of [c] \<Rightarrow> is_ascii_alnum c | _ \<Rightarrow> ml_isWordRune lib r) (utf8_runes s))"

definition xsSidecarExts :: "string list" where
  "xsSidecarExts = [''nfo'', ''srt'', ''sub'', ''idx'', ''sfv'', ''txt'']"

definition xsVideoExts :: "string list" where
  "xsVideoExts = [''mkv'', ''mp4'', ''avi'', ''ts'', ''m2ts'', ''mov'', ''mpg'', ''mpeg'']"

definition xsNormalizeFileKey :: "match_lib \<Rightarrow> string \<Rightarrow> string" where
  "xsNormalizeFileKey lib path =
     (let base0 = xsFileBaseName path in
      if base0 = [] then []
      else
        let (base1, ext) = (case xsSplitLastDot base0 of None \<Rightarrow> (base0, []) | Some (b, e) \<Rightarrow> (b, to_lower e));
            base2 = (if List.member xsSidecarExts ext then
                (case xsSplitLastDot base1 of
                   None \<Rightarrow> base1
                 | Some (b, v) \<Rightarrow> if List.member xsVideoExts (to_lower v) then b else base1)
              else base1);
            base3 = replace_all ''dd+'' ''ddp'' (to_lower (normalizeUnicodeInner lib base2))
        in wordRunes lib base3 @ (if ext \<noteq> [] then CHR ''.'' # ext else []))"

section \<open>Matching files\<close>

record file_match =
  fm_sourceIndex :: nat
  fm_sourcePath :: string
  fm_candidatePath :: string

text \<open>The candidates with their positions; \<open>used\<close> lists the positions already taken.\<close>

record cand_entry =
  cde_pos :: nat
  cde_path :: string
  cde_size :: int
  cde_base :: string
  cde_normalized :: string

definition candidateEntries :: "match_lib \<Rightarrow> qb_file list \<Rightarrow> cand_entry list" where
  "candidateEntries lib files =
     map (\<lambda>(i, f). \<lparr>cde_pos = i, cde_path = qf_Name f, cde_size = qf_Size f, cde_base = to_lower (xsFileBaseName (qf_Name f)),
       cde_normalized = xsNormalizeFileKey lib (qf_Name f)\<rparr>) (enumerate 0 files)"

definition sole :: "'a list \<Rightarrow> 'a option" where
  "sole xs = (case xs of [x] \<Rightarrow> Some x | _ \<Rightarrow> None)"

fun first_hit :: "'a option list \<Rightarrow> 'a option" where
  "first_hit [] = None"
| "first_hit (None # xs) = first_hit xs"
| "first_hit (Some x # xs) = Some x"

definition matchSource :: "match_lib \<Rightarrow> (string \<Rightarrow> string \<Rightarrow> bool) \<Rightarrow> cand_entry list \<Rightarrow> nat list \<Rightarrow> qb_file \<Rightarrow> cand_entry option" where
  "matchSource lib allow entries used sf =
     (let available = filter (\<lambda>e. cde_pos e \<notin> set used) (filter (\<lambda>e. cde_size e = qf_Size sf) entries);
          sourceBase = to_lower (xsFileBaseName (qf_Name sf));
          sourceNorm = xsNormalizeFileKey lib (qf_Name sf)
      in first_hit
        [List.find (\<lambda>e. cde_path e = qf_Name sf) available,
         sole (filter (\<lambda>e. cde_base e = sourceBase) available),
         sole (filter (\<lambda>e. cde_normalized e = sourceNorm) available),
         (case sole available of None \<Rightarrow> None | Some e \<Rightarrow> if allow (qf_Name sf) (cde_path e) then Some e else None)])"

fun matchFrom ::
  "match_lib \<Rightarrow> (string \<Rightarrow> string \<Rightarrow> bool) \<Rightarrow> cand_entry list \<Rightarrow> nat \<Rightarrow> qb_file list \<Rightarrow> nat list \<Rightarrow> file_match list \<times> string list" where
  "matchFrom lib allow entries i [] used = ([], [])"
| "matchFrom lib allow entries i (sf # sfs) used =
     (case matchSource lib allow entries used sf of
        None \<Rightarrow>
          (case matchFrom lib allow entries (Suc i) sfs used of (matches, unmatched) \<Rightarrow> (matches, qf_Name sf # unmatched))
      | Some e \<Rightarrow>
          (case matchFrom lib allow entries (Suc i) sfs (cde_pos e # used) of
             (matches, unmatched) \<Rightarrow>
               (\<lparr>fm_sourceIndex = i, fm_sourcePath = qf_Name sf, fm_candidatePath = cde_path e\<rparr> # matches, unmatched)))"

definition matchSourceFilesWithPolicy ::
  "match_lib \<Rightarrow> (string \<Rightarrow> string \<Rightarrow> bool) \<Rightarrow> qb_file list \<Rightarrow> qb_file list \<Rightarrow> file_match list \<times> string list" where
  "matchSourceFilesWithPolicy lib allow sourceFiles candidateFiles =
     matchFrom lib allow (candidateEntries lib candidateFiles) 0 sourceFiles []"

definition matchSourceFilesToCandidates :: "match_lib \<Rightarrow> qb_file list \<Rightarrow> qb_file list \<Rightarrow> file_match list \<times> string list" where
  "matchSourceFilesToCandidates lib = matchSourceFilesWithPolicy lib (\<lambda>s c. True)"

definition isIgnoredMaterializedSizeOnlyFile :: "string \<Rightarrow> bool" where
  "isIgnoredMaterializedSizeOnlyFile name \<longleftrightarrow>
     List.member DefaultIgnoredExtensions (to_lower (path_ext (xsFileBaseName name))) \<or>
     list_ex (contains_str (to_lower name)) DefaultIgnoredPathKeywords"

definition allowMaterializedSizeOnlyMatch :: "string \<Rightarrow> string \<Rightarrow> bool" where
  "allowMaterializedSizeOnlyMatch sourcePath candidatePath \<longleftrightarrow>
     \<not> isIgnoredMaterializedSizeOnlyFile sourcePath \<and> \<not> isIgnoredMaterializedSizeOnlyFile candidatePath"

definition matchMaterializedSourceFiles :: "match_lib \<Rightarrow> qb_file list \<Rightarrow> qb_file list \<Rightarrow> file_match list \<times> string list" where
  "matchMaterializedSourceFiles lib = matchSourceFilesWithPolicy lib allowMaterializedSizeOnlyMatch"

text \<open>The plan of renames: old and new paths, in order.\<close>

definition buildFileRenamePlan :: "match_lib \<Rightarrow> qb_file list \<Rightarrow> qb_file list \<Rightarrow> (string \<times> string) list \<times> string list" where
  "buildFileRenamePlan lib sourceFiles candidateFiles =
     (case matchSourceFilesToCandidates lib sourceFiles candidateFiles of
        (matches, unmatched) \<Rightarrow>
          (sort (map (\<lambda>m. (fm_sourcePath m, fm_candidatePath m)) (filter (\<lambda>m. fm_sourcePath m \<noteq> fm_candidatePath m) matches)), unmatched))"

definition planRequiresRenames :: "match_lib \<Rightarrow> qb_file list \<Rightarrow> qb_file list \<Rightarrow> bool" where
  "planRequiresRenames lib sourceFiles candidateFiles \<longleftrightarrow>
     list_ex (\<lambda>(oldPath, newPath). oldPath \<noteq> [] \<and> newPath \<noteq> [] \<and> oldPath \<noteq> newPath) (fst (buildFileRenamePlan lib sourceFiles candidateFiles))"

section \<open>Roots\<close>

text \<open>The part of a path before the first separator, if there is one.\<close>

definition firstPart :: "string \<Rightarrow> string option" where
  "firstPart p = (if CHR ''/'' \<in> set p then Some (takeWhile (\<lambda>c. c \<noteq> CHR ''/'') p) else None)"

fun commonRootLoop :: "string list \<Rightarrow> string \<Rightarrow> string" where
  "commonRootLoop [] root = root"
| "commonRootLoop (p # ps) root =
     (case firstPart p of
        None \<Rightarrow> []
      | Some first \<Rightarrow>
          if first = [] then []
          else if root = [] then commonRootLoop ps first
          else if first \<noteq> root then []
          else commonRootLoop ps root)"

definition detectCommonRoot :: "qb_file list \<Rightarrow> string" where
  "detectCommonRoot files = commonRootLoop (map qf_Name files) []"

definition adjustPathForRootRename :: "string \<Rightarrow> string \<Rightarrow> string \<Rightarrow> string" where
  "adjustPathForRootRename path oldRoot newRoot =
     (if oldRoot = [] \<or> newRoot = [] \<or> path = [] then path
      else if path = oldRoot then newRoot
      else if prefix (oldRoot @ ''/'') path then newRoot @ ''/'' @ drop (length oldRoot + 1) path
      else path)"

definition autoGeneratedSubfolderName :: "string \<Rightarrow> string" where
  "autoGeneratedSubfolderName singleFileName =
     (let base = xsFileBaseName singleFileName in take (length base - length (path_ext base)) base)"

section \<open>Sizes and extra files\<close>

definition keySize :: "match_lib \<Rightarrow> qb_file \<Rightarrow> string \<times> int" where
  "keySize lib f = (xsNormalizeFileKey lib (qf_Name f), qf_Size f)"

text \<open>The files of the source that find no partner of the same key and size.\<close>

fun countMatched :: "(string \<times> int) list \<Rightarrow> (string \<times> int) list \<Rightarrow> nat" where
  "countMatched [] available = 0"
| "countMatched (k # ks) available =
     (if k \<in> set available then Suc (countMatched ks (remove1 k available)) else countMatched ks available)"

definition hasExtraSourceFiles :: "match_lib \<Rightarrow> qb_file list \<Rightarrow> qb_file list \<Rightarrow> bool" where
  "hasExtraSourceFiles lib sourceFiles candidateFiles \<longleftrightarrow>
     countMatched (map (keySize lib) sourceFiles) (map (keySize lib) candidateFiles) < length sourceFiles"

definition filesNeedRenaming :: "match_lib \<Rightarrow> qb_file list \<Rightarrow> qb_file list \<Rightarrow> bool" where
  "filesNeedRenaming lib sourceFiles candidateFiles \<longleftrightarrow>
     sourceFiles \<noteq> [] \<and> candidateFiles \<noteq> [] \<and>
     (list_ex (\<lambda>sf. keySize lib sf \<notin> set (map (keySize lib) candidateFiles)) sourceFiles \<or>
      list_ex (\<lambda>sf. \<not> list_ex (\<lambda>cf. qf_Size cf = qf_Size sf \<and> xsFileBaseName (qf_Name cf) = xsFileBaseName (qf_Name sf)) candidateFiles)
        sourceFiles)"

definition needsRenameAlignment :: "match_lib \<Rightarrow> string \<Rightarrow> string \<Rightarrow> qb_file list \<Rightarrow> qb_file list \<Rightarrow> bool" where
  "needsRenameAlignment lib torrentName matchedTorrentName sourceFiles candidateFiles =
     (let sourceRoot = detectCommonRoot sourceFiles; candidateRoot = detectCommonRoot candidateFiles in
      if sourceRoot = [] \<and> candidateRoot \<noteq> [] then
        (if length sourceFiles = 1 \<and> autoGeneratedSubfolderName (qf_Name (hd sourceFiles)) \<noteq> candidateRoot then True
         else filesNeedRenaming lib sourceFiles candidateFiles)
      else if sourceRoot \<noteq> [] \<and> candidateRoot = [] then filesNeedRenaming lib sourceFiles candidateFiles
      else if trim_space torrentName \<noteq> trim_space matchedTorrentName then True
      else if sourceRoot \<noteq> [] \<and> candidateRoot \<noteq> [] \<and> sourceRoot \<noteq> candidateRoot then True
      else planRequiresRenames lib sourceFiles candidateFiles)"

record size_mismatch =
  sm_SourceFile :: string
  sm_SourceSize :: int
  sm_CandidateFile :: string
  sm_CandidateSize :: int

text \<open>The candidate files of a key: those still free, and all of them.\<close>

record mismatch_state =
  mms_free :: "(string, qb_file list) gomap"
  mms_mismatches :: "size_mismatch list"
  mms_largestMatched :: int
  mms_largestWithKey :: int

definition candidatesByKey :: "match_lib \<Rightarrow> qb_file list \<Rightarrow> (string, qb_file list) gomap" where
  "candidatesByKey lib files =
     fold (\<lambda>cf m. let key = xsNormalizeFileKey lib (qf_Name cf) in if key = [] then m else gm_append key cf m) files []"

fun delete_first :: "('a \<Rightarrow> bool) \<Rightarrow> 'a list \<Rightarrow> 'a list" where
  "delete_first P [] = []"
| "delete_first P (x # xs) = (if P x then xs else x # delete_first P xs)"

definition mismatchStep :: "match_lib \<Rightarrow> (string, qb_file list) gomap \<Rightarrow> qb_file \<Rightarrow> mismatch_state \<Rightarrow> mismatch_state" where
  "mismatchStep lib all sf st =
     (let key = xsNormalizeFileKey lib (qf_Name sf) in
      if key = [] then st
      else case gm_get all key of
        None \<Rightarrow> st
      | Some allFiles \<Rightarrow>
          let st1 = st\<lparr>mms_largestWithKey := max (mms_largestWithKey st) (qf_Size sf)\<rparr>;
              free = (case gm_get (mms_free st) key of None \<Rightarrow> [] | Some fs \<Rightarrow> fs) in
          if list_ex (\<lambda>f. qf_Size f = qf_Size sf) free then
            st1\<lparr>mms_free := gm_put key (delete_first (\<lambda>f. qf_Size f = qf_Size sf) free) (mms_free st1),
                mms_largestMatched := max (mms_largestMatched st1) (qf_Size sf)\<rparr>
          else
            let cf = (if free \<noteq> [] then hd free else hd allFiles) in
            st1\<lparr>mms_mismatches := mms_mismatches st1 @
              [\<lparr>sm_SourceFile = qf_Name sf, sm_SourceSize = qf_Size sf, sm_CandidateFile = qf_Name cf, sm_CandidateSize = qf_Size cf\<rparr>]\<rparr>)"

definition minSubstantialSize :: int where
  "minSubstantialSize = 1048576"

definition hasContentFileSizeMismatch :: "match_lib \<Rightarrow> qb_file list \<Rightarrow> qb_file list \<Rightarrow> bool \<times> size_mismatch list" where
  "hasContentFileSizeMismatch lib sourceFiles candidateFiles =
     (let source = usableFiles sourceFiles; candidate = usableFiles candidateFiles in
      if source = [] then (False, [])
      else
        let all = candidatesByKey lib candidate;
            st = fold (mismatchStep lib all) source
              \<lparr>mms_free = all, mms_mismatches = [], mms_largestMatched = 0, mms_largestWithKey = 0\<rparr> in
        if mms_mismatches st \<noteq> [] then (True, mms_mismatches st)
        else if mms_largestMatched st \<ge> mms_largestWithKey st \<and> mms_largestWithKey st > 0 \<and> mms_largestMatched st \<ge> minSubstantialSize
          then (False, [])
        else case (largestFile source, largestFile candidate) of
          ((sName, sSize), (cName, cSize)) \<Rightarrow>
            if sSize > 0 \<and> cSize > 0 \<and> sSize \<noteq> cSize
            then (True, [\<lparr>sm_SourceFile = sName, sm_SourceSize = sSize, sm_CandidateFile = cName, sm_CandidateSize = cSize\<rparr>])
            else (False, []))"

section \<open>Pieces\<close>

record boundary_file =
  bf_Path :: string
  bf_Size :: int
  bf_IsContent :: bool

record boundary_violation =
  pbv_Offset :: int
  pbv_PieceIndex :: int
  pbv_PieceStart :: int
  pbv_PieceEnd :: int
  pbv_ContentFile :: string
  pbv_IgnoredFile :: string

record boundary_result =
  pbr_Safe :: bool
  pbr_Reason :: string
  pbr_UnsafeBoundaries :: "boundary_violation list"

text \<open>Go's division rounds towards zero.\<close>

definition go_quot :: "int \<Rightarrow> int \<Rightarrow> int" where
  "go_quot a b = (if a \<ge> 0 then a div b else - ((- a) div b))"

fun boundaryViolations :: "int \<Rightarrow> int \<Rightarrow> boundary_file list \<Rightarrow> boundary_violation list" where
  "boundaryViolations pieceLength offset0 (currentFile # nextFile # files) =
     (let offset = wrap64 (offset0 + bf_Size currentFile) in
      (if bf_IsContent currentFile \<noteq> bf_IsContent nextFile \<and> offset mod pieceLength \<noteq> 0 then
         let pieceIndex = go_quot offset pieceLength; pieceStart = wrap64 (pieceIndex * pieceLength) in
         [\<lparr>pbv_Offset = offset, pbv_PieceIndex = pieceIndex, pbv_PieceStart = pieceStart, pbv_PieceEnd = wrap64 (pieceStart + pieceLength),
           pbv_ContentFile = bf_Path (if bf_IsContent currentFile then currentFile else nextFile),
           pbv_IgnoredFile = bf_Path (if bf_IsContent currentFile then nextFile else currentFile)\<rparr>]
       else []) @ boundaryViolations pieceLength offset (nextFile # files))"
| "boundaryViolations pieceLength offset0 files = []"

definition CheckPieceBoundarySafety :: "boundary_file list \<Rightarrow> int \<Rightarrow> boundary_result" where
  "CheckPieceBoundarySafety files pieceLength =
     (if pieceLength \<le> 0 then \<lparr>pbr_Safe = False, pbr_Reason = ''invalid piece length'', pbr_UnsafeBoundaries = []\<rparr>
      else if files = [] then \<lparr>pbr_Safe = True, pbr_Reason = ''no files to check'', pbr_UnsafeBoundaries = []\<rparr>
      else
        let violations = boundaryViolations pieceLength 0 files in
        if violations \<noteq> [] then
          \<lparr>pbr_Safe = False,
           pbr_Reason = ''found '' @ show_nat (length violations) @ '' piece boundary violation(s) between content and ignored files'',
           pbr_UnsafeBoundaries = violations\<rparr>
        else \<lparr>pbr_Safe = True, pbr_Reason = ''all content/ignored transitions are piece-aligned'', pbr_UnsafeBoundaries = []\<rparr>)"

text \<open>
  The metadata of a torrent (package \<open>metainfo\<close>): its files with their display paths and lengths. A
  torrent of one file has no list of files.
\<close>

record meta_info =
  mi_Name :: string
  mi_Length :: int
  mi_PieceLength :: int
  mi_IsDir :: bool
  mi_Files :: "(string \<times> int) list"

definition metaFilePath :: "meta_info \<Rightarrow> string \<Rightarrow> string" where
  "metaFilePath info displayPath =
     (if mi_IsDir info \<and> displayPath \<noteq> [] then mi_Name info @ ''/'' @ displayPath
      else if displayPath \<noteq> [] then displayPath
      else mi_Name info)"

definition BuildFilesForBoundaryCheck :: "meta_info option \<Rightarrow> (string \<Rightarrow> bool) \<Rightarrow> boundary_file list" where
  "BuildFilesForBoundaryCheck info isContentFile =
     (case info of
        None \<Rightarrow> []
      | Some i \<Rightarrow>
          if mi_Files i = [] then [\<lparr>bf_Path = mi_Name i, bf_Size = mi_Length i, bf_IsContent = isContentFile (mi_Name i)\<rparr>]
          else map (\<lambda>(d, len). let path = metaFilePath i d in \<lparr>bf_Path = path, bf_Size = len, bf_IsContent = isContentFile path\<rparr>) (mi_Files i))"

definition safeResult :: "string \<Rightarrow> boundary_result" where
  "safeResult reason = \<lparr>pbr_Safe = True, pbr_Reason = reason, pbr_UnsafeBoundaries = []\<rparr>"

definition HasUnsafeIgnoredExtras :: "meta_info option \<Rightarrow> (string \<Rightarrow> bool) \<Rightarrow> bool \<times> boundary_result" where
  "HasUnsafeIgnoredExtras info isIgnored =
     (case info of
        None \<Rightarrow> (False, safeResult ''nil torrent info'')
      | Some i \<Rightarrow>
          let files = BuildFilesForBoundaryCheck info (\<lambda>path. \<not> isIgnored path) in
          if list_all bf_IsContent files then (False, safeResult ''no ignored files'')
          else let result = CheckPieceBoundarySafety files (mi_PieceLength i) in (\<not> pbr_Safe result, result))"

definition unmaterializedSourceFilePaths :: "match_lib \<Rightarrow> qb_file list \<Rightarrow> qb_file list \<Rightarrow> string goset" where
  "unmaterializedSourceFilePaths lib sourceFiles candidateFiles =
     (let materialized = map fm_sourcePath (fst (matchMaterializedSourceFiles lib sourceFiles candidateFiles)) in
      fold (\<lambda>f s. if qf_Name f \<in> set materialized then s else gs_add (qf_Name f) s) sourceFiles [])"

definition HasUnsafeUnmaterializedSourcePieces ::
  "match_lib \<Rightarrow> meta_info option \<Rightarrow> qb_file list \<Rightarrow> qb_file list \<Rightarrow> bool \<times> boundary_result" where
  "HasUnsafeUnmaterializedSourcePieces lib info sourceFiles candidateFiles =
     (let unmaterialized = unmaterializedSourceFilePaths lib sourceFiles candidateFiles in
      if unmaterialized = [] then (False, safeResult ''no unmaterialized files'')
      else HasUnsafeIgnoredExtras info (\<lambda>path. path \<in> set unmaterialized))"

section \<open>No piece is shared\<close>

text \<open>
  The bytes of a torrent in order, each with the flag of its file, and what is wanted of them: two bytes
  of one piece have the same flag.
\<close>

definition torrentBytes :: "boundary_file list \<Rightarrow> bool list" where
  "torrentBytes files = concat (map (\<lambda>f. replicate (nat (bf_Size f)) (bf_IsContent f)) files)"

definition piecesPure :: "int \<Rightarrow> int \<Rightarrow> bool list \<Rightarrow> bool" where
  "piecesPure p off bs \<longleftrightarrow>
     (\<forall>i j. i < length bs \<and> j < length bs \<and> (off + int i) div p = (off + int j) div p \<longrightarrow> bs ! i = bs ! j)"

text \<open>The same, looking at neighbours only.\<close>

fun neighboursPure :: "int \<Rightarrow> int \<Rightarrow> bool list \<Rightarrow> bool" where
  "neighboursPure p off (a # b # bs) \<longleftrightarrow> (a \<noteq> b \<longrightarrow> p dvd off + 1) \<and> neighboursPure p (off + 1) (b # bs)"
| "neighboursPure p off bs \<longleftrightarrow> True"

lemma neighboursPure_nth:
  "neighboursPure p off bs \<longleftrightarrow> (\<forall>i. Suc i < length bs \<and> bs ! i \<noteq> bs ! Suc i \<longrightarrow> p dvd off + int (Suc i))"
proof (induction p off bs rule: neighboursPure.induct)
  case (1 p off a b bs)
  have "(\<forall>i. Suc i < length (a # b # bs) \<and> (a # b # bs) ! i \<noteq> (a # b # bs) ! Suc i \<longrightarrow> p dvd off + int (Suc i)) \<longleftrightarrow>
      (a \<noteq> b \<longrightarrow> p dvd off + 1) \<and>
      (\<forall>i. Suc i < length (b # bs) \<and> (b # bs) ! i \<noteq> (b # bs) ! Suc i \<longrightarrow> p dvd off + 1 + int (Suc i))"
    (is "?l = ?r")
  proof
    assume l: ?l
    show ?r
    proof (intro conjI allI impI)
      show "p dvd off + 1" if "a \<noteq> b"
        using spec [OF l, of 0] that by simp
      fix i assume "Suc i < length (b # bs) \<and> (b # bs) ! i \<noteq> (b # bs) ! Suc i"
      then show "p dvd off + 1 + int (Suc i)"
        using spec [OF l, of "Suc i"] by (simp add: algebra_simps)
    qed
  next
    assume r: ?r
    show ?l
    proof (intro allI impI)
      fix i assume i: "Suc i < length (a # b # bs) \<and> (a # b # bs) ! i \<noteq> (a # b # bs) ! Suc i"
      show "p dvd off + int (Suc i)"
      proof (cases i)
        case (Suc k)
        then show ?thesis
          using spec [OF conjunct2 [OF r], of k] i by (simp add: algebra_simps)
      qed (use i r in simp)
    qed
  qed
  with 1 show ?case
    by simp
qed simp_all

lemma same_piece_between:
  assumes "p > 0" and "a div p = c div p" and "a < b" and "b \<le> c"
  shows "\<not> p dvd (b :: int)"
proof
  assume "p dvd b"
  then obtain k where k: "b = p * k"
    by blast
  have "k \<le> c div p"
    using zdiv_mono1 [of b c p] assms by (simp add: k)
  then have "p * k \<le> p * (a div p)"
    using assms by simp
  also have "\<dots> \<le> a"
    using assms(1) mult_div_mod_eq [of p a] pos_mod_sign [of p a] by linarith
  finally show False
    using assms(3) k by simp
qed

lemma next_piece:
  assumes "p > 0" and "\<not> p dvd (x + 1 :: int)"
  shows "(x + 1) div p = x div p"
proof (rule int_div_pos_eq)
  show "x + 1 = p * (x div p) + (x mod p + 1)"
    using mult_div_mod_eq [of p x] by linarith
  show "0 \<le> x mod p + 1"
    using pos_mod_sign [of p x] assms(1) by linarith
  have "x mod p + 1 \<noteq> p"
  proof
    assume "x mod p + 1 = p"
    then have "x + 1 = p * (x div p + 1)"
      using mult_div_mod_eq [of p x] unfolding distrib_left mult_1_right by linarith
    with assms(2) show False
      by (metis dvd_triv_left)
  qed
  then show "x mod p + 1 < p"
    using pos_mod_bound [of p x] assms(1) by linarith
qed

lemma neighboursPure_iff: 
  assumes "p > 0"
  shows "neighboursPure p off bs \<longleftrightarrow> piecesPure p off bs"
proof
  assume n: "neighboursPure p off bs"
  have up: "bs ! i = bs ! (i + d)" if "i + d < length bs" and "(off + int i) div p = (off + int (i + d)) div p" for i d
    using that
  proof (induction d)
    case (Suc d)
    have "(off + int i) div p \<le> (off + int (i + d)) div p" and "(off + int (i + d)) div p \<le> (off + int (i + Suc d)) div p"
      using assms by (simp_all add: zdiv_mono1)
    with Suc.prems have same: "(off + int i) div p = (off + int (i + d)) div p"
      by linarith
    then have "bs ! i = bs ! (i + d)"
      using Suc by simp
    moreover have "\<not> p dvd off + int (Suc (i + d))"
      using same_piece_between [OF assms, of "off + int i" "off + int (i + Suc d)" "off + int (Suc (i + d))"] Suc.prems by simp
    ultimately show ?case
      using spec [OF n [unfolded neighboursPure_nth], of "i + d"] Suc.prems(1) by auto
  qed simp
  show "piecesPure p off bs"
    unfolding piecesPure_def
  proof (intro allI impI)
    fix i j assume ij: "i < length bs \<and> j < length bs \<and> (off + int i) div p = (off + int j) div p"
    show "bs ! i = bs ! j"
    proof (cases "i \<le> j")
      case True
      then show ?thesis
        using up [of i "j - i"] ij by simp
    next
      case False
      then show ?thesis
        using up [of j "i - j"] ij by simp
    qed
  qed
next
  assume pure: "piecesPure p off bs"
  show "neighboursPure p off bs"
    unfolding neighboursPure_nth
  proof (intro allI impI)
    fix i assume i: "Suc i < length bs \<and> bs ! i \<noteq> bs ! Suc i"
    then have "(off + int i) div p \<noteq> (off + int (Suc i)) div p"
      using pure unfolding piecesPure_def by (metis Suc_lessD)
    then show "p dvd off + int (Suc i)"
      using next_piece [OF assms, of "off + int i"] by (auto simp: algebra_simps)
  qed
qed

lemma neighboursPure_replicate:
  "neighboursPure p off (replicate n a @ bs) \<longleftrightarrow>
     neighboursPure p (off + int n) bs \<and> (n > 0 \<and> bs \<noteq> [] \<and> hd bs \<noteq> a \<longrightarrow> p dvd off + int n)"
proof (induction n arbitrary: off)
  case (Suc n)
  show ?case
  proof (cases n)
    case 0
    then show ?thesis
      by (cases bs) auto
  next
    case (Suc k)
    then show ?thesis
      using Suc.IH [of "off + 1"] by (simp add: algebra_simps)
  qed
qed simp

lemma torrentBytes_Nil [simp]: "torrentBytes [] = []"
  by (simp add: torrentBytes_def)

lemma torrentBytes_Cons [simp]:
  "torrentBytes (f # fs) = replicate (nat (bf_Size f)) (bf_IsContent f) @ torrentBytes fs"
  by (simp add: torrentBytes_def)

text \<open>Without overflow the offsets are the sums of the sizes.\<close>

lemma boundaryViolations_Nil_iff:
  assumes "off + bf_Size f < 2 ^ 63" and "0 \<le> off" and "0 \<le> bf_Size f"
  shows "boundaryViolations p off (f # g # fs) = [] \<longleftrightarrow>
    (bf_IsContent f \<noteq> bf_IsContent g \<longrightarrow> p dvd off + bf_Size f) \<and> boundaryViolations p (off + bf_Size f) (g # fs) = []"
proof -
  have "wrap64 (off + bf_Size f) = off + bf_Size f"
    using assms by (simp add: int64_def)
  then show ?thesis
    by (auto simp: Let_def dvd_eq_mod_eq_0)
qed

lemma boundaryViolations_sound:
  assumes "boundaryViolations p off files = []" and "0 \<le> off" and "off + sum_list (map bf_Size files) < 2 ^ 63"
    and "list_all (\<lambda>f. 0 \<le> bf_Size f) files"
  shows "neighboursPure p off (torrentBytes files) \<and>
    (torrentBytes files \<noteq> [] \<and> hd (torrentBytes files) \<noteq> bf_IsContent (hd files) \<longrightarrow> p dvd off)"
  using assms
proof (induction files arbitrary: off)
  case (Cons f fs)
  show ?case
  proof (cases fs)
    case Nil
    then show ?thesis
      using neighboursPure_replicate [of p off "nat (bf_Size f)" "bf_IsContent f" "[]"]
      by (cases "nat (bf_Size f)") (simp_all add: torrentBytes_def)
  next
    case fs: (Cons g gs)
    have nn: "0 \<le> sum_list (map bf_Size fs)"
      using Cons.prems(4) by (intro sum_list_nonneg) (auto simp: list_all_iff)
    then have small: "off + bf_Size f < 2 ^ 63"
      using Cons.prems(3) by simp
    have now: "bf_IsContent f \<noteq> bf_IsContent g \<longrightarrow> p dvd off + bf_Size f"
      and later: "boundaryViolations p (off + bf_Size f) fs = []"
      using Cons.prems(1,2,4) boundaryViolations_Nil_iff [OF small, of p g gs] by (simp_all add: fs)
    have IH: "neighboursPure p (off + bf_Size f) (torrentBytes fs)"
      "torrentBytes fs \<noteq> [] \<Longrightarrow> hd (torrentBytes fs) \<noteq> bf_IsContent g \<Longrightarrow> p dvd off + bf_Size f"
      using Cons.IH [OF later] Cons.prems(2-4) by (simp_all add: fs add.assoc)
    then show ?thesis
      using now Cons.prems(4) by (cases "bf_Size f = 0") (auto simp: neighboursPure_replicate hd_append)
  qed
qed (simp add: torrentBytes_def)

lemma boundaryViolations_complete:
  assumes "neighboursPure p off (torrentBytes files)" and "0 \<le> off" and "off + sum_list (map bf_Size files) < 2 ^ 63"
    and "list_all (\<lambda>f. 0 < bf_Size f) files"
  shows "boundaryViolations p off files = []"
  using assms
proof (induction files arbitrary: off)
  case (Cons f fs)
  show ?case
  proof (cases fs)
    case fs: (Cons g gs)
    have nn: "0 \<le> sum_list (map bf_Size fs)"
      using Cons.prems(4) by (intro sum_list_nonneg) (auto simp: list_all_iff)
    then have small: "off + bf_Size f < 2 ^ 63"
      using Cons.prems(3) by simp
    have "neighboursPure p (off + bf_Size f) (torrentBytes fs)"
      and "bf_IsContent f \<noteq> bf_IsContent g \<longrightarrow> p dvd off + bf_Size f"
      using Cons.prems(1,4) by (auto simp: neighboursPure_replicate fs hd_append)
    moreover from this have "boundaryViolations p (off + bf_Size f) fs = []"
      using Cons.IH [of "off + bf_Size f"] Cons.prems(2-4) by (simp add: add.assoc)
    ultimately show ?thesis
      using boundaryViolations_Nil_iff [OF small, of p g gs] Cons.prems(2,4) by (simp add: fs)
  qed simp
qed simp

lemma CheckPieceBoundarySafety_Safe:
  "p > 0 \<Longrightarrow> pbr_Safe (CheckPieceBoundarySafety files p) \<longleftrightarrow> boundaryViolations p 0 files = []"
  by (auto simp: CheckPieceBoundarySafety_def Let_def)

text \<open>
  C30. The check of piece boundaries looks at the places where a file to be kept meets a file to be
  skipped. When it says safe, no piece of the torrent has bytes of both kinds, wherever they are; and when
  no file is empty, it says safe exactly then. (An empty file between two kept files is refused although
  it has no byte.)
\<close>

theorem CheckPieceBoundarySafety_iff:
  assumes "p > 0" and "list_all (\<lambda>f. 0 \<le> bf_Size f) files" and "sum_list (map bf_Size files) < 2 ^ 63"
  shows "(pbr_Safe (CheckPieceBoundarySafety files p) \<longrightarrow> piecesPure p 0 (torrentBytes files)) \<and>
    (list_all (\<lambda>f. bf_Size f \<noteq> 0) files \<longrightarrow>
      pbr_Safe (CheckPieceBoundarySafety files p) = piecesPure p 0 (torrentBytes files))"
proof -
  have sound: "pbr_Safe (CheckPieceBoundarySafety files p) \<Longrightarrow> piecesPure p 0 (torrentBytes files)"
    using boundaryViolations_sound [of p 0 files] assms
    by (simp add: CheckPieceBoundarySafety_Safe neighboursPure_iff)
  moreover have "pbr_Safe (CheckPieceBoundarySafety files p)"
    if "list_all (\<lambda>f. bf_Size f \<noteq> 0) files" and "piecesPure p 0 (torrentBytes files)"
  proof -
    have "list_all (\<lambda>f. 0 < bf_Size f) files"
      using that(1) assms(2) by (auto simp: list_all_iff order_less_le)
    then show ?thesis
      using boundaryViolations_complete [of p 0 files] that(2) assms
      by (simp add: CheckPieceBoundarySafety_Safe neighboursPure_iff)
  qed
  ultimately show ?thesis
    by blast
qed

lemma CheckPieceBoundarySafety_iff_witness:
  "piecesPure 4 0 (torrentBytes
     [\<lparr>bf_Path = ''a.mkv'', bf_Size = 8, bf_IsContent = True\<rparr>, \<lparr>bf_Path = ''b.nfo'', bf_Size = 3, bf_IsContent = False\<rparr>]) \<and>
   \<not> piecesPure 4 0 (torrentBytes
     [\<lparr>bf_Path = ''a.mkv'', bf_Size = 6, bf_IsContent = True\<rparr>, \<lparr>bf_Path = ''b.nfo'', bf_Size = 3, bf_IsContent = False\<rparr>])"
  using CheckPieceBoundarySafety_iff [of 4
      "[\<lparr>bf_Path = ''a.mkv'', bf_Size = 8, bf_IsContent = True\<rparr>, \<lparr>bf_Path = ''b.nfo'', bf_Size = 3, bf_IsContent = False\<rparr>]"]
    CheckPieceBoundarySafety_iff [of 4
      "[\<lparr>bf_Path = ''a.mkv'', bf_Size = 6, bf_IsContent = True\<rparr>, \<lparr>bf_Path = ''b.nfo'', bf_Size = 3, bf_IsContent = False\<rparr>]"]
  by (simp add: CheckPieceBoundarySafety_Safe Let_def wrap64_def)

text \<open>What the flow relies on: no refusal, no piece with bytes to be fetched and bytes that are there.\<close>

lemma HasUnsafeIgnoredExtras_safe:
  assumes "HasUnsafeIgnoredExtras (Some info) ignored = (False, r)" and "mi_PieceLength info > 0"
    and "files = BuildFilesForBoundaryCheck (Some info) (\<lambda>path. \<not> ignored path)"
    and "list_all (\<lambda>f. 0 \<le> bf_Size f) files" and "sum_list (map bf_Size files) < 2 ^ 63"
  shows "piecesPure (mi_PieceLength info) 0 (torrentBytes files)"
proof (cases "list_all bf_IsContent files")
  case True
  then have "set (torrentBytes files) \<subseteq> {True}"
    by (auto simp: torrentBytes_def list_all_iff)
  then have "torrentBytes files ! i = True" if "i < length (torrentBytes files)" for i
    using nth_mem [OF that] by blast
  then show ?thesis
    by (simp add: piecesPure_def)
next
  case False
  then have "pbr_Safe (CheckPieceBoundarySafety files (mi_PieceLength info))"
    using assms(1) by (auto simp: HasUnsafeIgnoredExtras_def Let_def simp flip: assms(3))
  then have "boundaryViolations (mi_PieceLength info) 0 files = []"
    using assms(2) by (simp add: CheckPieceBoundarySafety_Safe)
  then show ?thesis
    using boundaryViolations_sound [of "mi_PieceLength info" 0 files] assms(4,5) neighboursPure_iff [OF assms(2)] by simp
qed

section \<open>What a match is\<close>

lemma first_hit_in: "first_hit xs = Some x \<Longrightarrow> Some x \<in> set xs"
  by (induction xs rule: first_hit.induct) auto

lemma sole_in: "Some x = sole xs \<Longrightarrow> x \<in> set xs"
  by (auto simp: sole_def split: list.splits)

lemma sole_filter_in: "Some x = sole (filter P xs) \<Longrightarrow> x \<in> set xs"
  by (drule sole_in) simp

lemma find_in: "Some x = List.find P xs \<Longrightarrow> x \<in> set xs"
  by (induction xs) (auto split: if_splits)

lemma matchSource_available:
  assumes "matchSource lib allow entries used sf = Some e"
  shows "e \<in> set entries \<and> cde_size e = qf_Size sf \<and> cde_pos e \<notin> set used"
proof -
  define available where "available = filter (\<lambda>e. cde_pos e \<notin> set used) (filter (\<lambda>e. cde_size e = qf_Size sf) entries)"
  have "e \<in> set available"
    using first_hit_in [OF assms [unfolded matchSource_def Let_def]] unfolding available_def [symmetric]
    by (auto dest: find_in sole_filter_in sole_in [OF sym] split: option.splits if_splits)
  then show ?thesis
    by (simp add: available_def)
qed

text \<open>A match names a file of the source by its index, and the candidate that stands for it.\<close>

definition backed :: "qb_file list \<Rightarrow> qb_file list \<Rightarrow> file_match \<Rightarrow> nat \<Rightarrow> bool" where
  "backed sourceFiles candidateFiles m j \<longleftrightarrow>
     fm_sourceIndex m < length sourceFiles \<and> j < length candidateFiles \<and>
     fm_sourcePath m = qf_Name (sourceFiles ! fm_sourceIndex m) \<and>
     fm_candidatePath m = qf_Name (candidateFiles ! j) \<and>
     qf_Size (sourceFiles ! fm_sourceIndex m) = qf_Size (candidateFiles ! j)"

lemma candidateEntries_nth:
  "e \<in> set (candidateEntries lib files) \<Longrightarrow>
    cde_pos e < length files \<and> cde_path e = qf_Name (files ! cde_pos e) \<and> cde_size e = qf_Size (files ! cde_pos e)"
  by (auto simp: candidateEntries_def in_set_enumerate_eq)

lemma matchFrom_backed:
  assumes "matchFrom lib allow (candidateEntries lib cands) i (drop i sources) used = (ms, un)" and "i \<le> length sources"
  shows "\<exists>js. distinct js \<and> set js \<inter> set used = {} \<and> list_all2 (backed sources cands) ms js \<and>
    sorted_wrt (<) (map fm_sourceIndex ms) \<and> (\<forall>m \<in> set ms. i \<le> fm_sourceIndex m) \<and>
    length ms + length un = length sources - i"
  using assms
proof (induction "length sources - i" arbitrary: i used ms un)
  case (Suc n)
  then have i: "i < length sources"
    by simp
  let ?sf = "sources ! i" and ?go = "matchFrom lib allow (candidateEntries lib cands) (Suc i) (drop (Suc i) sources)"
  have step: "drop i sources = ?sf # drop (Suc i) sources"
    using i by (simp add: Cons_nth_drop_Suc)
  show ?case
  proof (cases "matchSource lib allow (candidateEntries lib cands) used ?sf")
    case None
    then obtain un' where un': "?go used = (ms, un')" "un = qf_Name ?sf # un'"
      using Suc.prems(1) by (auto simp: step split: prod.splits)
    then show ?thesis
      using Suc.hyps(1) [of "Suc i" used ms un'] Suc.hyps(2) i by fastforce
  next
    case (Some e)
    then obtain ms' where ms': "?go (cde_pos e # used) = (ms', un)"
      "ms = \<lparr>fm_sourceIndex = i, fm_sourcePath = qf_Name ?sf, fm_candidatePath = cde_path e\<rparr> # ms'"
      using Suc.prems(1) by (auto simp: step split: prod.splits)
    have "n = length sources - Suc i"
      using Suc.hyps(2) by simp
    then obtain js where js: "distinct js" "set js \<inter> set (cde_pos e # used) = {}" "list_all2 (backed sources cands) ms' js"
      "sorted_wrt (<) (map fm_sourceIndex ms')" "\<forall>m \<in> set ms'. Suc i \<le> fm_sourceIndex m"
      "length ms' + length un = length sources - Suc i"
      using Suc.hyps(1) [OF _ ms'(1)] i by auto
    have "backed sources cands (hd ms) (cde_pos e)"
      using matchSource_available [OF Some] candidateEntries_nth [of e lib cands] i by (auto simp: backed_def ms'(2))
    then show ?thesis
      using js matchSource_available [OF Some] i
      by (intro exI [of _ "cde_pos e # js"]) (auto simp: ms'(2))
  qed
qed simp

text \<open>
  The matching of files, whatever the rule for matches by size alone: no two files of the source share a
  candidate, every pair has the same size, and every file of the source is either matched or reported.
\<close>

lemma matchSourceFilesWithPolicy_backed:
  "\<exists>js. distinct js \<and> list_all2 (backed sources cands) (fst (matchSourceFilesWithPolicy lib allow sources cands)) js \<and>
    distinct (map fm_sourceIndex (fst (matchSourceFilesWithPolicy lib allow sources cands))) \<and>
    length (fst (matchSourceFilesWithPolicy lib allow sources cands)) +
    length (snd (matchSourceFilesWithPolicy lib allow sources cands)) = length sources"
proof -
  obtain ms un where eq: "matchFrom lib allow (candidateEntries lib cands) 0 sources [] = (ms, un)"
    by fastforce
  show ?thesis
    using matchFrom_backed [of lib allow cands 0 sources "[]" ms un] eq
    by (auto simp: matchSourceFilesWithPolicy_def strict_sorted_iff)
qed

end
