(* ===== verification/Recheck_Resume.thy ===== *)
theory Recheck_Resume
  imports Automation_Model
begin

text \<open>
  The worker of \<open>src/internal/services/crossseed/service.go\<close> that watches torrents which were added paused and
  sent to a recheck, and resumes them when the recheck has found enough of the data. One goroutine keeps the
  pending requests in a map and polls the clients at every tick; calls to the clients are parameters.
\<close>

section \<open>Requests\<close>

definition maxRecheckResumeAttempts :: nat where "maxRecheckResumeAttempts = 3"
definition recheckResumeStablePolls :: nat where "recheckResumeStablePolls = 2"
definition maxMissingFilesResumeAttempts :: nat where "maxMissingFilesResumeAttempts = 3"

text \<open>Sixty minutes, in nanoseconds.\<close>

definition recheckAbsoluteTimeout :: int where "recheckAbsoluteTimeout = 60 * 60 * 1000000000"

record pending_resume =
  pr_instanceID :: int
  pr_hash :: string
  pr_threshold :: float64
  pr_addedAt :: int
  pr_recoverMissingFiles :: bool
  pr_missingAttempts :: nat
  pr_missingSucceeded :: bool
  pr_resumeAttempts :: nat
  pr_awaitingConfirmation :: bool
  pr_sawChecking :: bool
  pr_readyPolls :: nat
  pr_confirmedPolls :: nat

definition normalizeHash :: "string \<Rightarrow> string" where
  "normalizeHash hash = normalizeLowerTrim hash"

definition recheckResumeKey :: "int \<Rightarrow> string \<Rightarrow> string" where
  "recheckResumeKey instanceID hash = show_int instanceID @ '':'' @ normalizeHash hash"

fun dedupeFrom :: "string list \<Rightarrow> string list \<Rightarrow> string list" where
  "dedupeFrom seen [] = []"
| "dedupeFrom seen (hash # hashes) =
     (let trimmed = trim_space hash; canonical = normalizeHash trimmed in
      if trimmed = [] \<or> canonical \<in> set seen then dedupeFrom seen hashes
      else trimmed # dedupeFrom (canonical # seen) hashes)"

definition dedupeHashes :: "string list \<Rightarrow> string list" where
  "dedupeHashes hashes = dedupeFrom [] hashes"

section \<open>States of torrents\<close>

definition isCheckingState :: "string \<Rightarrow> bool" where
  "isCheckingState state \<longleftrightarrow> List.member [''checkingUP'', ''checkingDL'', ''checkingResumeData''] state"

definition isRecheckResumeConfirmed :: "string \<Rightarrow> bool" where
  "isRecheckResumeConfirmed state \<longleftrightarrow>
     List.member [''uploading'', ''stalledUP'', ''queuedUP'', ''forcedUP'', ''downloading'', ''stalledDL'', ''queuedDL'', ''forcedDL'',
       ''metaDL''] state"

definition isPausedOrStopped :: "string \<Rightarrow> bool" where
  "isPausedOrStopped state \<longleftrightarrow> List.member [''pausedUP'', ''stoppedUP'', ''pausedDL'', ''stoppedDL''] state"

definition isDownloadingOrQueued :: "string \<Rightarrow> bool" where
  "isDownloadingOrQueued state \<longleftrightarrow>
     List.member [''downloading'', ''stalledDL'', ''metaDL'', ''queuedDL'', ''allocating'', ''forcedDL''] state"

section \<open>One poll of one request\<close>

text \<open>
  The result of a poll: the request as it is then, whether it stays pending, and whether the client was
  asked to resume the torrent. \<open>fails\<close> says whether that call fails.
\<close>

record poll_result =
  pol_req :: pending_resume
  pol_keep :: bool
  pol_called :: bool

definition keepReq :: "pending_resume \<Rightarrow> poll_result" where
  "keepReq req = \<lparr>pol_req = req, pol_keep = True, pol_called = False\<rparr>"

definition dropReq :: "pending_resume \<Rightarrow> poll_result" where
  "dropReq req = \<lparr>pol_req = req, pol_keep = False, pol_called = False\<rparr>"

definition resumePendingRecheck :: "bool \<Rightarrow> pending_resume \<Rightarrow> poll_result" where
  "resumePendingRecheck fails req =
     (if pr_resumeAttempts req \<ge> maxRecheckResumeAttempts then dropReq req
      else
        let req1 = req\<lparr>pr_resumeAttempts := pr_resumeAttempts req + 1\<rparr> in
        if fails then \<lparr>pol_req = req1, pol_keep = pr_resumeAttempts req1 < maxRecheckResumeAttempts, pol_called = True\<rparr>
        else \<lparr>pol_req = req1\<lparr>pr_awaitingConfirmation := True\<rparr>, pol_keep = True, pol_called = True\<rparr>)"

definition recoverMissingFiles :: "bool \<Rightarrow> pending_resume \<Rightarrow> poll_result" where
  "recoverMissingFiles fails req =
     (if pr_missingSucceeded req then keepReq req
      else if pr_missingAttempts req \<ge> maxMissingFilesResumeAttempts then dropReq req
      else
        let req1 = req\<lparr>pr_missingAttempts := pr_missingAttempts req + 1\<rparr> in
        if fails then \<lparr>pol_req = req1, pol_keep = pr_missingAttempts req1 < maxMissingFilesResumeAttempts, pol_called = True\<rparr>
        else \<lparr>pol_req = req1\<lparr>pr_missingSucceeded := True\<rparr>, pol_keep = True, pol_called = True\<rparr>)"

definition noteChecking :: "string \<Rightarrow> pending_resume \<Rightarrow> pending_resume" where
  "noteChecking state req =
     (if isCheckingState state then req\<lparr>pr_sawChecking := True, pr_readyPolls := 0, pr_confirmedPolls := 0\<rparr> else req)"

definition awaitConfirmation :: "bool \<Rightarrow> pending_resume \<Rightarrow> torrent \<Rightarrow> poll_result" where
  "awaitConfirmation fails req t =
     (let state = t_State t; reached = fl_le (pr_threshold req) (t_Progress t) in
      if isRecheckResumeConfirmed state then
        let req1 = req\<lparr>pr_confirmedPolls := pr_confirmedPolls req + 1\<rparr> in
        if pr_confirmedPolls req1 < recheckResumeStablePolls then keepReq req1 else dropReq req1
      else
        let req1 = req\<lparr>pr_confirmedPolls := 0\<rparr> in
        if isCheckingState state then keepReq req1
        else if isPausedOrStopped state \<and> fl_less (t_Progress t) (pr_threshold req) then dropReq req1
        else if reached \<and> isPausedOrStopped state then resumePendingRecheck fails req1
        else keepReq req1)"

definition processPendingRecheckResume :: "bool \<Rightarrow> pending_resume \<Rightarrow> torrent \<Rightarrow> poll_result" where
  "processPendingRecheckResume fails req0 t =
     (let state = t_State t; progress = t_Progress t; isChecking = isCheckingState state; req = noteChecking state req0 in
      if state = ''missingFiles'' \<and> pr_recoverMissingFiles req then recoverMissingFiles fails req
      else if pr_awaitingConfirmation req then awaitConfirmation fails req t
      else if fl_le (pr_threshold req) progress \<and> \<not> isChecking then
        let req1 = req\<lparr>pr_readyPolls := pr_readyPolls req + 1\<rparr> in
        if \<not> pr_sawChecking req1 \<and> pr_readyPolls req1 < recheckResumeStablePolls then keepReq req1
        else resumePendingRecheck fails req1
      else if isDownloadingOrQueued state then keepReq req
      else if \<not> isChecking \<and> fl_less (Fl 0) progress \<and> fl_less progress (pr_threshold req) then dropReq req
      else keepReq req)"

section \<open>The worker\<close>

text \<open>
  The channel of new requests holds at most 100; the calls are recorded in the order in which they are made,
  each with the request and the torrent it was made for.
\<close>

record resume_call =
  rc_instanceID :: int
  rc_hash :: string
  rc_req :: pending_resume
  rc_torrent :: torrent

record worker =
  wk_queue :: "pending_resume list"
  wk_pending :: "(string, pending_resume) gomap"
  wk_calls :: "resume_call list"
  wk_running :: bool

definition newPendingResume :: "int \<Rightarrow> int \<Rightarrow> string \<Rightarrow> float64 \<Rightarrow> bool \<Rightarrow> pending_resume" where
  "newPendingResume now instanceID hash threshold recover =
     \<lparr>pr_instanceID = instanceID, pr_hash = hash, pr_threshold = threshold, pr_addedAt = now, pr_recoverMissingFiles = recover,
      pr_missingAttempts = 0, pr_missingSucceeded = False, pr_resumeAttempts = 0, pr_awaitingConfirmation = False,
      pr_sawChecking = False, pr_readyPolls = 0, pr_confirmedPolls = 0\<rparr>"

text \<open>The answer is false when the channel is full.\<close>

definition queueRecheckResumeWithOptions :: "int \<Rightarrow> int \<Rightarrow> string \<Rightarrow> float64 \<Rightarrow> bool \<Rightarrow> worker \<Rightarrow> worker \<times> bool" where
  "queueRecheckResumeWithOptions now instanceID hash threshold recover w =
     (if length (wk_queue w) < 100
      then (w\<lparr>wk_queue := wk_queue w @ [newPendingResume now instanceID hash threshold recover]\<rparr>, True)
      else (w, False))"

definition receiveRequest :: "pending_resume \<Rightarrow> worker \<Rightarrow> worker" where
  "receiveRequest req w = w\<lparr>wk_pending := gm_put (recheckResumeKey (pr_instanceID req) (pr_hash req)) req (wk_pending w)\<rparr>"

definition buildTorrentVariantLookup :: "torrent list \<Rightarrow> (string, torrent) gomap" where
  "buildTorrentVariantLookup torrents =
     fold (\<lambda>t m. fold (\<lambda>hash m. let normalized = normalizeHash hash in if normalized = [] then m else gm_put normalized t m)
       [t_Hash t, t_InfohashV1 t, t_InfohashV2 t] m) torrents []"

definition missingVariantLookupHash :: "(string, torrent) gomap \<Rightarrow> string list \<Rightarrow> bool" where
  "missingVariantLookupHash torrentByHash hashes \<longleftrightarrow> list_ex (\<lambda>hash. \<not> gm_has torrentByHash (normalizeHash hash)) hashes"

definition canonicalRecheckResumeHash :: "string \<Rightarrow> torrent \<Rightarrow> string" where
  "canonicalRecheckResumeHash queuedHash t =
     (let canonicalHash = normalizeHash (t_Hash t) in if canonicalHash \<noteq> [] then canonicalHash else normalizeHash queuedHash)"

text \<open>The request moves to the key of the hash the client uses, replacing what is there.\<close>

definition rekeyPendingRecheckResume ::
  "(string, pending_resume) gomap \<Rightarrow> int \<Rightarrow> string \<Rightarrow> pending_resume \<Rightarrow> torrent \<Rightarrow> (string, pending_resume) gomap \<times> string \<times> string" where
  "rekeyPendingRecheckResume pending instanceID queuedHash req t =
     (let canonicalHash = canonicalRecheckResumeHash queuedHash t;
          canonicalKey = recheckResumeKey instanceID canonicalHash;
          key = recheckResumeKey instanceID queuedHash;
          moved = (if canonicalKey \<noteq> key then gm_del key pending else pending)
      in (gm_put canonicalKey (req\<lparr>pr_hash := canonicalHash\<rparr>) moved, canonicalHash, canonicalKey))"

text \<open>
  What the clients answer during a tick: torrents by hash, all torrents, and the calls that fail, by the
  number of calls made before. A failed query is \<open>None\<close>.
\<close>

record tick_env =
  te_get :: "int \<Rightarrow> string list \<Rightarrow> torrent list option"
  te_all :: "int \<Rightarrow> torrent list option"
  te_fails :: "nat \<Rightarrow> bool"

text \<open>
  One request of the second pass. \<open>None\<close> stands for the panic of the goroutine: \<open>pending[key]\<close> is nil when
  an earlier request of the same tick has removed the entry, and \<open>rekeyPendingRecheckResume\<close> writes to it.
\<close>

definition pollOne :: "tick_env \<Rightarrow> int \<Rightarrow> (string, torrent) gomap \<Rightarrow> string \<Rightarrow> worker \<Rightarrow> worker option" where
  "pollOne env instanceID torrentByHash hash w =
     (let key = recheckResumeKey instanceID hash in
      case gm_get torrentByHash (normalizeHash hash) of
        None \<Rightarrow> Some (w\<lparr>wk_pending := gm_del key (wk_pending w)\<rparr>)
      | Some t \<Rightarrow>
          (case gm_get (wk_pending w) key of
             None \<Rightarrow> None
           | Some req \<Rightarrow>
               (case rekeyPendingRecheckResume (wk_pending w) instanceID hash req t of
                  (pending, canonicalHash, canonicalKey) \<Rightarrow>
                    let req1 = req\<lparr>pr_hash := canonicalHash\<rparr>;
                        result = processPendingRecheckResume (te_fails env (length (wk_calls w))) req1 t;
                        calls = (if pol_called result
                          then wk_calls w @ [\<lparr>rc_instanceID = instanceID, rc_hash = canonicalHash, rc_req = req1, rc_torrent = t\<rparr>]
                          else wk_calls w)
                    in Some (w\<lparr>wk_pending := (if pol_keep result then gm_put canonicalKey (pol_req result) pending
                                             else gm_del canonicalKey (gm_del key pending)),
                              wk_calls := calls\<rparr>))))"

fun pollAll :: "tick_env \<Rightarrow> int \<Rightarrow> (string, torrent) gomap \<Rightarrow> string list \<Rightarrow> worker \<Rightarrow> worker option" where
  "pollAll env instanceID torrentByHash [] w = Some w"
| "pollAll env instanceID torrentByHash (hash # hashes) w =
     (case pollOne env instanceID torrentByHash hash w of
        None \<Rightarrow> None
      | Some w' \<Rightarrow> pollAll env instanceID torrentByHash hashes w')"

definition torrentsOf :: "tick_env \<Rightarrow> int \<Rightarrow> string list \<Rightarrow> (string, torrent) gomap option" where
  "torrentsOf env instanceID hashes =
     (case te_get env instanceID hashes of
        None \<Rightarrow> None
      | Some torrents \<Rightarrow>
          let torrentByHash = buildTorrentVariantLookup torrents in
          Some (if missingVariantLookupHash torrentByHash hashes
                then (case te_all env instanceID of None \<Rightarrow> torrentByHash | Some allTorrents \<Rightarrow> buildTorrentVariantLookup allTorrents)
                else torrentByHash))"

fun pollInstances :: "tick_env \<Rightarrow> (int \<times> string list) list \<Rightarrow> worker \<Rightarrow> worker option" where
  "pollInstances env [] w = Some w"
| "pollInstances env ((instanceID, hashes) # rest) w =
     (case torrentsOf env instanceID hashes of
        None \<Rightarrow> pollInstances env rest w
      | Some torrentByHash \<Rightarrow>
          (case pollAll env instanceID torrentByHash hashes w of
             None \<Rightarrow> None
           | Some w' \<Rightarrow> pollInstances env rest w'))"

definition dropExpired :: "int \<Rightarrow> worker \<Rightarrow> worker" where
  "dropExpired now w = w\<lparr>wk_pending := filter (\<lambda>(k, req). now - pr_addedAt req \<le> recheckAbsoluteTimeout) (wk_pending w)\<rparr>"

definition byInstance :: "(string, pending_resume) gomap \<Rightarrow> (int, string list) gomap" where
  "byInstance pending = group_by (\<lambda>(k, req). Some (pr_instanceID req)) (\<lambda>(k, req). pr_hash req) pending"

definition recheckTick :: "tick_env \<Rightarrow> int \<Rightarrow> worker \<Rightarrow> worker option" where
  "recheckTick env now w =
     (if wk_pending w = [] then Some w
      else let w1 = dropExpired now w in pollInstances env (byInstance (wk_pending w1)) w1)"

text \<open>The goroutine and its callers. A tick that panics is no step.\<close>

inductive worker_step :: "worker \<Rightarrow> worker \<Rightarrow> bool" where
  queue: "worker_step w (fst (queueRecheckResumeWithOptions now instanceID hash threshold recover w))"
| receive: "wk_running w \<Longrightarrow> wk_queue w = req # rest \<Longrightarrow> worker_step w (receiveRequest req (w\<lparr>wk_queue := rest\<rparr>))"
| tick: "wk_running w \<Longrightarrow> recheckTick env now w = Some w' \<Longrightarrow> worker_step w w'"
| shutdown: "worker_step w (w\<lparr>wk_running := False\<rparr>)"

definition newWorker :: worker where
  "newWorker = \<lparr>wk_queue = [], wk_pending = [], wk_calls = [], wk_running = True\<rparr>"

inductive worker_reachable :: "worker \<Rightarrow> bool" where
  init: "worker_reachable newWorker"
| step: "worker_reachable w \<Longrightarrow> worker_step w w' \<Longrightarrow> worker_reachable w'"

section \<open>Keys tell requests apart\<close>

definition digits_value :: "string \<Rightarrow> nat" where
  "digits_value s = foldl (\<lambda>v c. 10 * v + (of_char c - 48)) 0 s"

lemma digits_value_show_nat: "digits_value (show_nat n) = n"
proof (induction n rule: show_nat.induct)
  case (1 n)
  show ?case
  proof (cases "n < 10")
    case False
    then have "digits_value (show_nat n) = 10 * digits_value (show_nat (n div 10)) + n mod 10"
      by (subst show_nat.simps) (simp add: digits_value_def digit_char_def)
    with 1 [OF False] show ?thesis
      by simp
  qed (simp add: show_nat.simps digits_value_def digit_char_def)
qed

lemma show_nat_digits: "c \<in> set (show_nat n) \<Longrightarrow> \<exists>d < 10. c = digit_char d"
proof (induction n rule: show_nat.induct)
  case (1 n)
  then show ?case
    by (subst (asm) (2) show_nat.simps) (auto split: if_splits intro: exI [of _ "n mod 10"])
qed

lemma digit_char_neq: "d < 10 \<Longrightarrow> digit_char d \<noteq> CHR '':'' \<and> digit_char d \<noteq> CHR ''-''"
  by (auto simp: digit_char_def dest!: arg_cong [where f = "of_char :: char \<Rightarrow> nat"])

lemma show_nat_chars: "CHR '':'' \<notin> set (show_nat n)" "CHR ''-'' \<notin> set (show_nat n)"
  using show_nat_digits digit_char_neq by metis+

lemma show_int_no_colon: "CHR '':'' \<notin> set (show_int i)"
  by (simp add: show_int_def show_nat_chars)

lemma show_nat_inj: "show_nat m = show_nat n \<Longrightarrow> m = n"
  by (metis digits_value_show_nat)

lemma show_int_inj: "show_int i = show_int j \<Longrightarrow> i = j"
  by (auto simp: show_int_def split: if_splits dest!: show_nat_inj dest: arg_cong [where f = set] simp: show_nat_chars)
    (metis list.set_intros(1) show_nat_chars(2))+

lemma recheckResumeKey_inj:
  "recheckResumeKey i h = recheckResumeKey j h' \<longleftrightarrow> i = j \<and> normalizeHash h = normalizeHash h'"
proof
  assume eq: "recheckResumeKey i h = recheckResumeKey j h'"
  have "takeWhile (\<lambda>c. c \<noteq> CHR '':'') (recheckResumeKey k x) = show_int k" for k x
    using show_int_no_colon [of k] by (subst recheckResumeKey_def, subst takeWhile_append2) auto
  with eq have "show_int i = show_int j"
    by metis
  with eq show "i = j \<and> normalizeHash h = normalizeHash h'"
    by (auto dest: show_int_inj simp: recheckResumeKey_def)
qed (simp add: recheckResumeKey_def)

section \<open>What a poll does\<close>

definition typed_request :: "pending_resume \<Rightarrow> bool" where
  "typed_request r \<longleftrightarrow>
     pr_missingAttempts r \<le> maxMissingFilesResumeAttempts \<and> pr_resumeAttempts r \<le> maxRecheckResumeAttempts \<and>
     (pr_missingSucceeded r \<longrightarrow> pr_missingAttempts r > 0) \<and> (pr_awaitingConfirmation r \<longrightarrow> pr_resumeAttempts r > 0) \<and>
     pr_confirmedPolls r < recheckResumeStablePolls \<and> (pr_confirmedPolls r > 0 \<longrightarrow> pr_awaitingConfirmation r)"

text \<open>When the client may be asked to resume a torrent.\<close>

definition may_resume :: "pending_resume \<Rightarrow> torrent \<Rightarrow> bool" where
  "may_resume r t \<longleftrightarrow>
     t_State t = ''missingFiles'' \<and> pr_recoverMissingFiles r \<and> \<not> pr_missingSucceeded r \<and>
       pr_missingAttempts r < maxMissingFilesResumeAttempts \<or>
     \<not> isCheckingState (t_State t) \<and> fl_le (pr_threshold r) (t_Progress t) \<and> pr_resumeAttempts r < maxRecheckResumeAttempts \<and>
       (if pr_awaitingConfirmation r then isPausedOrStopped (t_State t)
        else pr_sawChecking r \<or> pr_readyPolls r + 1 \<ge> recheckResumeStablePolls)"

definition resumes_made :: "pending_resume \<Rightarrow> nat" where
  "resumes_made r = pr_missingAttempts r + pr_resumeAttempts r"

lemmas recheck_limits = maxRecheckResumeAttempts_def recheckResumeStablePolls_def maxMissingFilesResumeAttempts_def

lemmas poll_defs = processPendingRecheckResume_def awaitConfirmation_def recoverMissingFiles_def resumePendingRecheck_def
  noteChecking_def keepReq_def dropReq_def Let_def

lemma process_typed:
  "typed_request r \<Longrightarrow> pol_keep (processPendingRecheckResume f r t) \<Longrightarrow>
    typed_request (pol_req (processPendingRecheckResume f r t))"
  by (auto simp: poll_defs typed_request_def recheck_limits split: if_splits)

lemma process_may_resume: "pol_called (processPendingRecheckResume f r t) \<Longrightarrow> may_resume r t"
  by (auto simp: poll_defs may_resume_def recheck_limits isCheckingState_def split: if_splits)

lemma process_counts:
  "resumes_made (pol_req (processPendingRecheckResume f r t)) =
    resumes_made r + (if pol_called (processPendingRecheckResume f r t) then 1 else 0)"
  by (auto simp: poll_defs resumes_made_def)

lemma process_frame:
  "pr_addedAt (pol_req (processPendingRecheckResume f r t)) = pr_addedAt r \<and>
   pr_instanceID (pol_req (processPendingRecheckResume f r t)) = pr_instanceID r \<and>
   pr_hash (pol_req (processPendingRecheckResume f r t)) = pr_hash r"
  by (auto simp: poll_defs)

lemma process_bounded:
  "typed_request r \<Longrightarrow> resumes_made (pol_req (processPendingRecheckResume f r t)) \<le> 6"
  by (auto simp: poll_defs typed_request_def recheck_limits resumes_made_def split: if_splits)

text \<open>The calls made for one request over a sequence of polls, until it is dropped.\<close>

fun pollRun :: "pending_resume \<Rightarrow> (bool \<times> torrent) list \<Rightarrow> nat" where
  "pollRun r [] = 0"
| "pollRun r ((fails, t) # polls) =
     (let p = processPendingRecheckResume fails r t in
      (if pol_called p then 1 else 0) + (if pol_keep p then pollRun (pol_req p) polls else 0))"

lemma pollRun_bounded: "typed_request r \<Longrightarrow> resumes_made r + pollRun r polls \<le> 6"
proof (induction r polls rule: pollRun.induct)
  case (1 r)
  then show ?case
    by (simp add: typed_request_def resumes_made_def recheck_limits)
next
  case (2 r fails t polls)
  let ?p = "processPendingRecheckResume fails r t"
  show ?case
  proof (cases "pol_keep ?p")
    case True
    then show ?thesis
      using 2(1) [OF refl True process_typed [OF 2(2) True]] process_counts [of fails r t] by (simp add: Let_def)
  next
    case False
    then show ?thesis
      using process_bounded [OF 2(2), of fails t] process_counts [of fails r t] by (simp add: Let_def)
  qed
qed

section \<open>What the worker keeps\<close>

definition justified_call :: "resume_call \<Rightarrow> bool" where
  "justified_call c \<longleftrightarrow>
     may_resume (rc_req c) (rc_torrent c) \<and> pr_instanceID (rc_req c) = rc_instanceID c \<and> pr_hash (rc_req c) = rc_hash c \<and>
     (normalizeHash (t_Hash (rc_torrent c)) = [] \<or> rc_hash c = normalizeHash (t_Hash (rc_torrent c)))"

definition typed_pending :: "(int \<Rightarrow> bool) \<Rightarrow> (string, pending_resume) gomap \<Rightarrow> bool" where
  "typed_pending T pending \<longleftrightarrow> gm_ok pending \<and>
     (\<forall>k r. gm_get pending k = Some r \<longrightarrow>
       k = recheckResumeKey (pr_instanceID r) (pr_hash r) \<and> typed_request r \<and> T (pr_addedAt r))"

definition worker_ok :: "(int \<Rightarrow> bool) \<Rightarrow> worker \<Rightarrow> bool" where
  "worker_ok T w \<longleftrightarrow> typed_pending T (wk_pending w) \<and> list_all typed_request (wk_queue w) \<and> list_all justified_call (wk_calls w)"

lemma typed_pending_put:
  "typed_pending T p \<Longrightarrow> k = recheckResumeKey (pr_instanceID r) (pr_hash r) \<Longrightarrow> typed_request r \<Longrightarrow> T (pr_addedAt r) \<Longrightarrow>
    typed_pending T (gm_put k r p)"
  by (simp add: typed_pending_def)

lemma typed_pending_del: "typed_pending T p \<Longrightarrow> typed_pending T (gm_del k p)"
  by (simp add: typed_pending_def)

lemma typed_request_hash [simp]: "typed_request (r\<lparr>pr_hash := h\<rparr>) = typed_request r"
  by (simp add: typed_request_def)

lemma pollOne_ok:
  assumes "worker_ok T w" and "pollOne env i lookup h w = Some w'"
  shows "worker_ok T w'"
proof (cases "gm_get lookup (normalizeHash h)")
  case None
  then show ?thesis
    using assms by (auto simp: pollOne_def worker_ok_def typed_pending_del)
next
  case (Some t)
  then obtain req where req: "gm_get (wk_pending w) (recheckResumeKey i h) = Some req"
    using assms(2) by (auto simp: pollOne_def Let_def split: option.splits)
  let ?ch = "canonicalRecheckResumeHash h t"
  let ?req = "req\<lparr>pr_hash := ?ch\<rparr>"
  let ?res = "processPendingRecheckResume (te_fails env (length (wk_calls w))) ?req t"
  have ok: "typed_pending T (wk_pending w)"
    using assms(1) by (simp add: worker_ok_def)
  then have "recheckResumeKey i h = recheckResumeKey (pr_instanceID req) (pr_hash req)"
    and typed: "typed_request req" "T (pr_addedAt req)"
    using req unfolding typed_pending_def by blast+
  then have req': "pr_instanceID req = i" "typed_request req" "T (pr_addedAt req)"
    by (simp_all add: recheckResumeKey_inj)
  have moved: "typed_pending T (fst (rekeyPendingRecheckResume (wk_pending w) i h req t))"
    using ok req' by (auto simp: rekeyPendingRecheckResume_def Let_def intro!: typed_pending_put typed_pending_del)
  have "typed_pending T (wk_pending w')"
    using assms(2) Some req moved ok req' process_typed [of ?req] process_frame [of _ ?req t]
    by (auto simp: pollOne_def Let_def rekeyPendingRecheckResume_def intro!: typed_pending_put typed_pending_del)
  moreover have "list_all justified_call (wk_calls w')"
    using assms Some req req'(1) process_may_resume [of _ ?req t]
    by (auto simp: pollOne_def Let_def rekeyPendingRecheckResume_def worker_ok_def justified_call_def canonicalRecheckResumeHash_def)
  moreover have "list_all typed_request (wk_queue w')"
    using assms Some req by (auto simp: pollOne_def Let_def rekeyPendingRecheckResume_def worker_ok_def)
  ultimately show ?thesis
    by (simp add: worker_ok_def)
qed

lemma pollAll_ok: "worker_ok T w \<Longrightarrow> pollAll env i lookup hs w = Some w' \<Longrightarrow> worker_ok T w'"
  by (induction env i lookup hs w rule: pollAll.induct) (auto split: option.splits dest: pollOne_ok)

lemma pollInstances_ok: "worker_ok T w \<Longrightarrow> pollInstances env is w = Some w' \<Longrightarrow> worker_ok T w'"
  by (induction env "is" w rule: pollInstances.induct) (auto split: option.splits dest: pollAll_ok)

lemma dropExpired_ok:
  assumes "worker_ok T w"
  shows "worker_ok (\<lambda>a. now - a \<le> recheckAbsoluteTimeout) (dropExpired now w)"
proof -
  let ?f = "filter (\<lambda>(k, req). now - pr_addedAt req \<le> recheckAbsoluteTimeout) (wk_pending w)"
  have p: "gm_ok (wk_pending w)"
    using assms by (simp add: worker_ok_def typed_pending_def)
  then have f: "gm_ok ?f"
    by (auto simp: gm_ok_def distinct_map inj_on_def)
  then have "typed_pending (\<lambda>a. now - a \<le> recheckAbsoluteTimeout) ?f"
    using assms unfolding worker_ok_def typed_pending_def by (auto simp: gm_get_iff [OF p] gm_get_iff [OF f])
  then show ?thesis
    using assms by (simp add: worker_ok_def dropExpired_def)
qed

lemma recheckTick_ok:
  assumes "worker_ok T w" and "recheckTick env now w = Some w'"
  shows "worker_ok (\<lambda>a. now - a \<le> recheckAbsoluteTimeout) w'"
proof (cases "wk_pending w = []")
  case True
  then show ?thesis
    using assms by (auto simp: recheckTick_def worker_ok_def typed_pending_def)
next
  case False
  then show ?thesis
    using assms pollInstances_ok [OF dropExpired_ok [OF assms(1)]] by (auto simp: recheckTick_def Let_def)
qed

lemma worker_ok_weaken: "worker_ok T w \<Longrightarrow> worker_ok (\<lambda>_. True) w"
  by (simp add: worker_ok_def typed_pending_def)

lemma worker_reachable_ok: "worker_reachable w \<Longrightarrow> worker_ok (\<lambda>_. True) w"
proof (induction rule: worker_reachable.induct)
  case init
  then show ?case
    by (simp add: newWorker_def worker_ok_def typed_pending_def)
next
  case (step w w')
  from step.hyps(2) show ?case
  proof cases
    case queue
    then show ?thesis
      using step.IH by (auto simp: queueRecheckResumeWithOptions_def newPendingResume_def worker_ok_def typed_request_def recheck_limits)
  next
    case receive
    then show ?thesis
      using step.IH by (auto simp: receiveRequest_def worker_ok_def intro!: typed_pending_put)
  next
    case tick
    then show ?thesis
      using recheckTick_ok [OF step.IH] worker_ok_weaken by blast
  qed (use step.IH in \<open>simp add: worker_ok_def\<close>)
qed

section \<open>Properties\<close>

text \<open>
  C37. In every reachable state of the worker the map of pending requests is well typed: one request per
  key, stored under the key of its instance and hash, with its counters within their limits. Every call
  that was made to resume a torrent was allowed: the torrent was not being checked and had reached the
  threshold of its request --- after a check had been seen or on the second such poll, and once the client
  has accepted a call only when the torrent had stopped again ---, or it was one with missing files whose
  request asks for recovery. Whatever its torrent does, a request leads to at most six calls, and no request
  older than the timeout survives a tick.
\<close>

theorem recheck_worker_typed:
  assumes "worker_reachable w"
  shows "typed_pending (\<lambda>_. True) (wk_pending w) \<and> list_all justified_call (wk_calls w) \<and>
    (\<forall>k r polls. gm_get (wk_pending w) k = Some r \<longrightarrow> resumes_made r + pollRun r polls \<le> 6) \<and>
    (\<forall>env now w' k r. recheckTick env now w = Some w' \<longrightarrow> gm_get (wk_pending w') k = Some r \<longrightarrow>
      now - pr_addedAt r \<le> recheckAbsoluteTimeout)"
proof (intro conjI allI impI)
  note ok = worker_reachable_ok [OF assms]
  then show typed: "typed_pending (\<lambda>_. True) (wk_pending w)" and "list_all justified_call (wk_calls w)"
    by (simp_all add: worker_ok_def)
  show "resumes_made r + pollRun r polls \<le> 6" if "gm_get (wk_pending w) k = Some r" for k r polls
    using typed that by (auto simp: typed_pending_def intro!: pollRun_bounded)
  show "now - pr_addedAt r \<le> recheckAbsoluteTimeout"
    if "recheckTick env now w = Some w'" and "gm_get (wk_pending w') k = Some r" for env now w' k r
    using recheckTick_ok [OF ok that(1)] that(2) by (auto simp: worker_ok_def typed_pending_def)
qed

definition recheck_torrent :: "string \<Rightarrow> string \<Rightarrow> string \<Rightarrow> float64 \<Rightarrow> torrent" where
  "recheck_torrent v1 v2 state progress =
    \<lparr>t_Hash = v1, t_Name = [], t_InfohashV1 = v1, t_InfohashV2 = v2, t_MagnetURI = [], t_Category = [], t_Tags = [], t_SavePath = [],
     t_ContentPath = [], t_DownloadPath = [], t_CreatedBy = [], t_Comment = [], t_State = state, t_Tracker = [], t_Trackers = [],
     t_Size = 0, t_TotalSize = 0, t_Completed = 0, t_Downloaded = 0, t_DownloadedSession = 0, t_Uploaded = 0, t_UploadedSession = 0,
     t_AmountLeft = 0, t_AddedOn = 0, t_CompletionOn = 0, t_LastActivity = 0, t_SeenComplete = 0, t_ETA = 0, t_Reannounce = 0,
     t_SeedingTime = 0, t_TimeActive = 0, t_MaxSeedingTime = 0, t_MaxInactiveSeedingTime = 0, t_SeedingTimeLimit = 0,
     t_InactiveSeedingTimeLimit = 0, t_DlSpeed = 0, t_UpSpeed = 0, t_DlLimit = 0, t_UpLimit = 0, t_NumSeeds = 0, t_NumLeechs = 0,
     t_NumComplete = 0, t_NumIncomplete = 0, t_TrackersCount = 0, t_Priority = 0, t_Ratio = Fl 0, t_RatioLimit = Fl 0,
     t_MaxRatio = Fl 0, t_Progress = progress, t_Availability = Fl 0, t_Popularity = Fl 0, t_Private = False, t_AutoManaged = False, t_FirstLastPiecePrio = False,
     t_ForceStart = False, t_SequentialDownload = False, t_SuperSeeding = False\<rparr>"

definition recheck_env :: "torrent list \<Rightarrow> tick_env" where
  "recheck_env ts = \<lparr>te_get = \<lambda>i hs. Some ts, te_all = \<lambda>i. Some ts, te_fails = \<lambda>n. False\<rparr>"

definition demo_add :: "string \<Rightarrow> worker \<Rightarrow> worker" where
  "demo_add h w = receiveRequest (newPendingResume 0 1 h (Fl 4) False) w"

lemma demo_add_reachable: "worker_reachable w \<Longrightarrow> wk_running w \<Longrightarrow> wk_queue w = [] \<Longrightarrow> worker_reachable (demo_add h w)"
proof -
  assume w: "worker_reachable w" "wk_running w" "wk_queue w = []"
  let ?q = "fst (queueRecheckResumeWithOptions 0 1 h (Fl 4) False w)"
  have q: "worker_reachable ?q"
    using w(1) by (rule worker_reachable.step) (rule worker_step.queue)
  have "worker_step ?q (receiveRequest (newPendingResume 0 1 h (Fl 4) False) (?q\<lparr>wk_queue := []\<rparr>))"
    using w by (intro worker_step.receive) (simp_all add: queueRecheckResumeWithOptions_def)
  moreover have "receiveRequest (newPendingResume 0 1 h (Fl 4) False) (?q\<lparr>wk_queue := []\<rparr>) = demo_add h w"
    using w by (simp add: queueRecheckResumeWithOptions_def demo_add_def receiveRequest_def)
  ultimately show ?thesis
    using q worker_reachable.step by fastforce
qed

lemma demo_reachable: "worker_reachable (demo_add h newWorker)" "worker_reachable (demo_add h (demo_add h' newWorker))"
  by (intro demo_add_reachable worker_reachable.init; simp add: demo_add_def receiveRequest_def newWorker_def)+

lemma recheck_worker_typed_witness:
  "typed_pending (\<lambda>_. True) (wk_pending (demo_add ''aa'' newWorker)) \<and> wk_pending (demo_add ''aa'' newWorker) \<noteq> []"
  using recheck_worker_typed [OF demo_reachable(1) [of "''aa''"]]
  by (simp add: demo_add_def receiveRequest_def newWorker_def gm_put_def)

text \<open>A tick that makes a call, which the theorem speaks about.\<close>

lemma demo_tick_calls:
  "map_option (\<lambda>w. map rc_hash (wk_calls w))
     (Option.bind (recheckTick (recheck_env [recheck_torrent ''aa'' ''bb'' ''pausedUP'' (Fl 4)]) 0 (demo_add ''aa'' newWorker))
       (recheckTick (recheck_env [recheck_torrent ''aa'' ''bb'' ''pausedUP'' (Fl 4)]) 0)) = Some [''aa'']"
  by code_simp

text \<open>
  The worker can panic. Two requests for one torrent, queued under its two hashes, are both pending; the
  one under the second hash is moved to the first and replaces the other; when it is dropped in the same
  tick, the entry of the other is gone before its turn comes.
\<close>

lemma recheckTick_panics:
  "worker_reachable (demo_add ''aa'' (demo_add ''bb'' newWorker)) \<and>
   recheckTick (recheck_env [recheck_torrent ''aa'' ''bb'' ''pausedUP'' (Fl 2)]) 0 (demo_add ''aa'' (demo_add ''bb'' newWorker)) = None"
proof
  show "recheckTick (recheck_env [recheck_torrent ''aa'' ''bb'' ''pausedUP'' (Fl 2)]) 0 (demo_add ''aa'' (demo_add ''bb'' newWorker)) = None"
    by code_simp
qed (rule demo_reachable)

section \<open>No panic\<close>

text \<open>
  When every pending request names the hash under which its client lists the torrent, the entries of
  different requests stay apart and a tick does not panic.
\<close>

definition own_hashes :: "string list \<Rightarrow> (string, torrent) gomap \<Rightarrow> bool" where
  "own_hashes hashes torrentByHash \<longleftrightarrow>
     (\<forall>h t. h \<in> set hashes \<and> gm_get torrentByHash (normalizeHash h) = Some t \<longrightarrow>
       normalizeHash (t_Hash t) \<in> {[], normalizeHash h})"

lemma normalizeHash_idem [simp]: "normalizeHash (normalizeHash h) = normalizeHash h"
  by (simp add: normalizeHash_def)

lemma recheckResumeKey_normalizeHash [simp]: "recheckResumeKey i (normalizeHash h) = recheckResumeKey i h"
  by (simp add: recheckResumeKey_def)

lemma pollOne_total:
  assumes "\<And>t. gm_get lookup (normalizeHash h) = Some t \<Longrightarrow> normalizeHash (t_Hash t) \<in> {[], normalizeHash h}"
    and "gm_get (wk_pending w) (recheckResumeKey i h) \<noteq> None"
  shows "\<exists>w'. pollOne env i lookup h w = Some w' \<and>
    (\<forall>k. k \<noteq> recheckResumeKey i h \<longrightarrow> gm_get (wk_pending w') k = gm_get (wk_pending w) k)"
proof (cases "gm_get lookup (normalizeHash h)")
  case (Some t)
  then have "recheckResumeKey i (canonicalRecheckResumeHash h t) = recheckResumeKey i h"
    using assms(1) [OF Some] by (auto simp: canonicalRecheckResumeHash_def Let_def recheckResumeKey_inj)
  then show ?thesis
    using Some assms(2) by (auto simp: pollOne_def Let_def rekeyPendingRecheckResume_def)
qed (simp add: pollOne_def)

lemma pollAll_total:
  assumes "own_hashes hs lookup" and "distinct (map (recheckResumeKey i) hs)"
    and "\<forall>h \<in> set hs. gm_get (wk_pending w) (recheckResumeKey i h) \<noteq> None"
  shows "\<exists>w'. pollAll env i lookup hs w = Some w' \<and>
    (\<forall>k. k \<notin> recheckResumeKey i ` set hs \<longrightarrow> gm_get (wk_pending w') k = gm_get (wk_pending w) k)"
  using assms
proof (induction hs arbitrary: w)
  case (Cons h hs)
  obtain w1 where w1: "pollOne env i lookup h w = Some w1"
    "\<forall>k. k \<noteq> recheckResumeKey i h \<longrightarrow> gm_get (wk_pending w1) k = gm_get (wk_pending w) k"
    using pollOne_total [of lookup h w i env] Cons.prems by (auto simp: own_hashes_def)
  have "own_hashes hs lookup"
    using Cons.prems(1) by (auto simp: own_hashes_def)
  moreover have "\<forall>h' \<in> set hs. gm_get (wk_pending w1) (recheckResumeKey i h') \<noteq> None"
    using Cons.prems(2,3) w1(2) by (metis distinct.simps(2) image_eqI list.set_intros(2) list.set_map list.simps(9))
  ultimately obtain w2 where "pollAll env i lookup hs w1 = Some w2"
    "\<forall>k. k \<notin> recheckResumeKey i ` set hs \<longrightarrow> gm_get (wk_pending w2) k = gm_get (wk_pending w1) k"
    using Cons.IH [of w1] Cons.prems(2) by auto
  with w1 show ?case
    by auto
qed simp

text \<open>The hashes of an instance are those of its pending requests.\<close>

definition instance_keys :: "(int \<times> string list) \<Rightarrow> string list" where
  "instance_keys = (\<lambda>(i, hs). map (recheckResumeKey i) hs)"

lemma pollInstances_total:
  assumes "\<forall>(i, hs) \<in> set iss. \<forall>lookup. torrentsOf env i hs = Some lookup \<longrightarrow> own_hashes hs lookup"
    and "distinct (map fst iss)" and "\<forall>e \<in> set iss. distinct (instance_keys e)"
    and "\<forall>e \<in> set iss. \<forall>k \<in> set (instance_keys e). gm_get (wk_pending w) k \<noteq> None"
  shows "pollInstances env iss w \<noteq> None"
  using assms
proof (induction env iss w rule: pollInstances.induct)
  case (2 env i hs rest w)
  show ?case
  proof (cases "torrentsOf env i hs")
    case None
    then show ?thesis
      using 2 by simp
  next
    case (Some lookup)
    obtain w' where w': "pollAll env i lookup hs w = Some w'"
      "\<forall>k. k \<notin> recheckResumeKey i ` set hs \<longrightarrow> gm_get (wk_pending w') k = gm_get (wk_pending w) k"
      using pollAll_total [of hs lookup i w env] 2(3,5,6) Some by (auto simp: instance_keys_def)
    have "gm_get (wk_pending w') k \<noteq> None" if e: "e \<in> set rest" "k \<in> set (instance_keys e)" for e k
    proof -
      have "fst e \<noteq> i"
        using e(1) 2(4) by (auto simp: rev_image_eqI)
      then have "k \<notin> recheckResumeKey i ` set hs"
        using e(2) by (cases e) (auto simp: instance_keys_def recheckResumeKey_inj)
      then show ?thesis
        using w'(2) 2(6) e by auto
    qed
    then show ?thesis
      using 2(2) [OF Some w'(1)] 2(3-5) Some w'(1) by auto
  qed
qed simp

lemma set_byInstance:
  "(i, hs) \<in> set (byInstance p) \<Longrightarrow> hs = map (\<lambda>(k, r). pr_hash r) (filter (\<lambda>(k, r). pr_instanceID r = i) p)"
proof -
  assume "(i, hs) \<in> set (byInstance p)"
  then have "gm_get (byInstance p) i = Some hs"
    by (simp add: gm_get_iff byInstance_def gm_ok_group_by)
  then show ?thesis
    by (auto simp: byInstance_def gm_get_group_by split: if_splits intro!: arg_cong [where f = "map _"] filter_cong)
qed

lemma typed_instance_keys:
  assumes "typed_pending T p" and "e \<in> set (byInstance p)"
  shows "instance_keys e = map fst (filter (\<lambda>(k, r). pr_instanceID r = fst e) p)"
proof -
  obtain i hs where e: "e = (i, hs)"
    by fastforce
  have "k = recheckResumeKey (pr_instanceID r) (pr_hash r)" if "(k, r) \<in> set p" for k r
    using assms(1) that by (auto simp: typed_pending_def gm_get_iff)
  then show ?thesis
    using set_byInstance [of i hs p] assms(2) by (auto simp: e instance_keys_def)
qed

text \<open>
  A tick in a state the worker can reach, all of whose requests use the hashes of the clients, does not
  panic.
\<close>

lemma recheckTick_total:
  assumes "worker_reachable w"
    and "\<And>i hs lookup. (i, hs) \<in> set (byInstance (wk_pending (dropExpired now w))) \<Longrightarrow> torrentsOf env i hs = Some lookup \<Longrightarrow>
      own_hashes hs lookup"
  shows "recheckTick env now w \<noteq> None"
proof -
  let ?p = "wk_pending (dropExpired now w)"
  have typed: "typed_pending (\<lambda>a. now - a \<le> recheckAbsoluteTimeout) ?p"
    using dropExpired_ok [OF worker_reachable_ok [OF assms(1)]] by (simp add: worker_ok_def)
  then have ok: "gm_ok ?p"
    by (simp add: typed_pending_def)
  have "pollInstances env (byInstance ?p) (dropExpired now w) \<noteq> None"
  proof (rule pollInstances_total)
    show "distinct (map fst (byInstance ?p))"
      using gm_ok_group_by by (simp add: byInstance_def flip: gm_ok_def)
    show "\<forall>e \<in> set (byInstance ?p). distinct (instance_keys e)"
      using typed_instance_keys [OF typed] ok by (auto simp: gm_ok_def distinct_map inj_on_def)
    show "\<forall>e \<in> set (byInstance ?p). \<forall>k \<in> set (instance_keys e). gm_get ?p k \<noteq> None"
      using typed_instance_keys [OF typed] by (force simp: gm_get_iff [OF ok, symmetric])
  qed (use assms(2) in blast)
  then show ?thesis
    by (simp add: recheckTick_def Let_def)
qed

end
