(* ===== verification/Tr_Rpc.thy ===== *)
theory Tr_Rpc
  imports Go_Number
begin

text \<open>
  Names and values of the Transmission RPC (\<open>src/internal/transmissionqbt/methods.go\<close>). The adapter writes every
  name in snake case; requests translate names into what the method expects, responses are translated back.
\<close>

section \<open>Names of requests\<close>

definition snakeToHyphen :: "string \<Rightarrow> string" where
  "snakeToHyphen value' = map (\<lambda>c. if c = CHR ''_'' then CHR ''-'' else c) value'"

definition transmissionMethodName :: "string \<Rightarrow> string" where
  "transmissionMethodName m = snakeToHyphen m"

definition is_lower_letter :: "char \<Rightarrow> bool" where
  "is_lower_letter c \<longleftrightarrow> (let n = of_char c :: nat in 97 \<le> n \<and> n \<le> 122)"

definition is_upper_letter :: "char \<Rightarrow> bool" where
  "is_upper_letter c \<longleftrightarrow> (let n = of_char c :: nat in 65 \<le> n \<and> n \<le> 90)"

fun camelLoop :: "bool \<Rightarrow> string \<Rightarrow> string" where
  "camelLoop upperNext [] = []"
| "camelLoop upperNext (c # cs) =
     (if c = CHR ''_'' then camelLoop True cs
      else (if upperNext \<and> is_lower_letter c then upper_char c else c) # camelLoop False cs)"

definition snakeToLowerCamel :: "string \<Rightarrow> string" where
  "snakeToLowerCamel value' = (if value' = [] \<or> CHR ''_'' \<notin> set value' then value' else camelLoop False value')"

definition sessionRequestKey :: "string \<Rightarrow> string" where
  "sessionRequestKey key =
     (if key = ''seed_ratio_limit'' then ''seedRatioLimit''
      else if key = ''seed_ratio_limited'' then ''seedRatioLimited''
      else snakeToHyphen key)"

definition plainRequestKeys :: "string list" where
  "plainRequestKeys =
     [''ids'', ''fields'', ''filename'', ''metainfo'', ''paused'', ''labels'', ''group'', ''comment'', ''location'', ''move'', ''path'', ''name'']"

definition torrentAddRequestKey :: "string \<Rightarrow> string" where
  "torrentAddRequestKey key =
     (if List.member plainRequestKeys key then key
      else if List.member [''download_dir'', ''peer_limit'', ''files_unwanted'', ''files_wanted'', ''priority_low'',
          ''priority_normal'', ''priority_high''] key then snakeToHyphen key
      else snakeToLowerCamel key)"

definition torrentSetRequestKey :: "string \<Rightarrow> string" where
  "torrentSetRequestKey key =
     (if List.member plainRequestKeys key then key
      else if List.member [''peer_limit'', ''files_unwanted'', ''files_wanted'', ''priority_low'', ''priority_normal'',
          ''priority_high''] key then snakeToHyphen key
      else snakeToLowerCamel key)"

definition groupSetRequestKey :: "string \<Rightarrow> string" where
  "groupSetRequestKey key = (if key = ''honors_session_limits'' then ''honorsSessionLimits'' else snakeToHyphen key)"

definition transmissionRequestKey :: "string \<Rightarrow> string \<Rightarrow> string" where
  "transmissionRequestKey m key =
     (if m = ''session_get'' then key
      else if m = ''session_set'' then sessionRequestKey key
      else if m = ''free_space'' then key
      else if m = ''torrent_remove'' then snakeToHyphen key
      else if m = ''torrent_add'' then torrentAddRequestKey key
      else if m = ''torrent_set'' then torrentSetRequestKey key
      else if m = ''group_set'' then groupSetRequestKey key
      else key)"

definition torrentGetField :: "string \<Rightarrow> string" where
  "torrentGetField field =
     (if List.member [''file_count'', ''peer_limit'', ''primary_mime_type''] field then snakeToHyphen field
      else snakeToLowerCamel field)"

definition transmissionRequestField :: "string \<Rightarrow> string \<Rightarrow> string" where
  "transmissionRequestField m field =
     (if m = ''session_get'' then sessionRequestKey field else if m = ''torrent_get'' then torrentGetField field else field)"

definition transmissionRequestFields :: "string \<Rightarrow> string list \<Rightarrow> string list" where
  "transmissionRequestFields m fields = map (transmissionRequestField m) fields"

definition torrentFields :: "string list" where
  "torrentFields =
     [''activity_date'', ''added_date'', ''availability'', ''bandwidth_priority'', ''bytes_completed'',
      ''comment'', ''corrupt_ever'', ''creator'', ''date_created'', ''desired_available'', ''done_date'',
      ''download_dir'', ''downloaded_ever'', ''download_limit'', ''download_limited'', ''error'',
      ''error_string'', ''eta'', ''file_count'', ''files'', ''file_stats'', ''group'', ''hash_string'',
      ''have_unchecked'', ''have_valid'', ''honors_session_limits'', ''id'', ''is_finished'',
      ''is_private'', ''is_stalled'', ''labels'', ''left_until_done'', ''magnet_link'',
      ''max_connected_peers'', ''metadata_percent_complete'', ''name'', ''peer_limit'',
      ''peers_connected'', ''peers_getting_from_us'', ''peers_sending_to_us'', ''percent_complete'',
      ''percent_done'', ''piece_count'', ''piece_size'', ''priorities'', ''queue_position'',
      ''rate_download'', ''rate_upload'', ''recheck_progress'', ''seconds_downloading'',
      ''seconds_seeding'', ''seed_idle_limit'', ''seed_idle_mode'', ''seed_ratio_limit'',
      ''seed_ratio_mode'', ''sequential_download'', ''size_when_done'', ''start_date'', ''status'',
      ''torrent_file'', ''total_size'', ''trackers'', ''tracker_list'', ''tracker_stats'',
      ''uploaded_ever'', ''upload_limit'', ''upload_limited'', ''upload_ratio'', ''wanted'',
      ''webseeds'', ''webseeds_ex'', ''webseeds_sending_to_us'']"

section \<open>Names of responses\<close>

text \<open>The previous rune is \<open>None\<close> before the first one; it is the one written last.\<close>

fun snakeLoop :: "char option \<Rightarrow> string \<Rightarrow> string" where
  "snakeLoop prev [] = []"
| "snakeLoop prev (c # cs) =
     (if is_upper_letter c then
        (if prev \<noteq> None \<and> prev \<noteq> Some (CHR ''_'') then [CHR ''_''] else []) @ lower_char c # snakeLoop (Some (lower_char c)) cs
      else c # snakeLoop (Some c) cs)"

definition transmissionKeyToSnake :: "string \<Rightarrow> string" where
  "transmissionKeyToSnake key = snakeLoop None (map (\<lambda>c. if c = CHR ''-'' then CHR ''_'' else c) key)"

section \<open>Values\<close>

text \<open>
  Decoded JSON. Numbers keep their text (\<open>json.Number\<close>) until they are normalised to an \<open>int64\<close> or to a
  Boolean; an object is a map. \<open>JStrs\<close> and \<open>JFloat\<close> are values of type \<open>[]string\<close> and \<open>float64\<close> in requests.
\<close>

datatype json =
    JNull
  | JBool bool
  | JNum string
  | JInt int
  | JFloat float64
  | JStr string
  | JStrs "string list"
  | JArr "json list"
  | JObj "(string \<times> json) list"

text \<open>
  The number as an \<open>int64\<close>: \<open>Number.Int64\<close>, else a float without a fraction. The bound \<open>math.MaxInt64\<close> becomes
  \<open>2 ^ 63\<close> as a float, so \<open>2 ^ 63\<close> passes; the conversion wraps around (on amd64).
\<close>

definition whole_float :: "string \<Rightarrow> int option" where
  "whole_float text' =
     (case ParseFloat text' of
        Some (Fl n) \<Rightarrow>
          if n mod 2 ^ 1074 = 0 \<and> - (2 ^ 63) * 2 ^ 1074 \<le> n \<and> n \<le> 2 ^ 63 * 2 ^ 1074 then Some (wrap64 (n div 2 ^ 1074)) else None
      | _ \<Rightarrow> None)"

definition number_int :: "string \<Rightarrow> int option" where
  "number_int text' = (case ParseInt text' of Some i \<Rightarrow> Some i | None \<Rightarrow> whole_float text')"

definition transmissionBoolFields :: "string list" where
  "transmissionBoolFields =
     [''alt_speed_enabled'', ''blocklist_enabled'', ''dht_enabled'', ''download_limited'', ''download_queue_enabled'', ''has_announced'',
      ''has_scraped'', ''honors_session_limits'', ''idle_seeding_limit_enabled'', ''incomplete_dir_enabled'', ''is_backup'',
      ''is_downloading_from'', ''is_encrypted'', ''is_finished'', ''is_incoming'', ''is_private'', ''is_stalled'', ''is_uploading_to'',
      ''is_utp'', ''last_announce_succeeded'', ''last_announce_timed_out'', ''last_scrape_succeeded'', ''last_scrape_timed_out'',
      ''lpd_enabled'', ''pex_enabled'', ''port_forwarding_enabled'', ''queue_stalled_enabled'', ''rename_partial_files'',
      ''script_torrent_added_enabled'', ''seed_queue_enabled'', ''seed_ratio_limited'', ''sequential_download'',
      ''speed_limit_down_enabled'', ''speed_limit_up_enabled'', ''start_added_torrents'', ''trash_original_torrent_files'',
      ''upload_limited'', ''utp_enabled'', ''wanted'']"

definition normalizeTransmissionBoolNumber :: "string \<Rightarrow> string \<Rightarrow> bool option" where
  "normalizeTransmissionBoolNumber key text' =
     (if \<not> List.member transmissionBoolFields key then None
      else case number_int text' of
        None \<Rightarrow> None
      | Some i \<Rightarrow> if i = 0 then Some False else if i = 1 then Some True else None)"

definition normalizeTransmissionNumber :: "string \<Rightarrow> json" where
  "normalizeTransmissionNumber text' = (case number_int text' of Some i \<Rightarrow> JInt i | None \<Rightarrow> JNum text')"

fun normalizeTransmissionValue :: "string \<Rightarrow> json \<Rightarrow> json" where
  "normalizeTransmissionValue key (JObj entries) =
     JObj (fold (\<lambda>(k, v) m. gm_put k v m)
       (map (\<lambda>(itemKey, item). let k = transmissionKeyToSnake itemKey in (k, normalizeTransmissionValue k item)) entries) [])"
| "normalizeTransmissionValue key (JArr items) = JArr (map (normalizeTransmissionValue key) items)"
| "normalizeTransmissionValue key (JNum text') =
     (case normalizeTransmissionBoolNumber key text' of Some b \<Rightarrow> JBool b | None \<Rightarrow> normalizeTransmissionNumber text')"
| "normalizeTransmissionValue key v = v"

definition normalizeTransmissionKeys :: "json \<Rightarrow> json" where
  "normalizeTransmissionKeys v = normalizeTransmissionValue [] v"

fun normalizeTransmissionRequestValue :: "string \<Rightarrow> string \<Rightarrow> json \<Rightarrow> json" where
  "normalizeTransmissionRequestValue m key (JObj entries) =
     JObj (fold (\<lambda>(k, v) mp. gm_put k v mp)
       (map (\<lambda>(itemKey, item). (transmissionRequestKey m itemKey, normalizeTransmissionRequestValue m itemKey item)) entries) [])"
| "normalizeTransmissionRequestValue m key (JStrs fields) =
     JStrs (if key = ''fields'' then transmissionRequestFields m fields else fields)"
| "normalizeTransmissionRequestValue m key (JArr items) = JArr (map (normalizeTransmissionRequestValue m key) items)"
| "normalizeTransmissionRequestValue m key v = v"

definition normalizeTransmissionRequest :: "string \<Rightarrow> json \<Rightarrow> json" where
  "normalizeTransmissionRequest m params = normalizeTransmissionRequestValue m [] params"

section \<open>Names survive the way there and back\<close>

text \<open>
  The snake names of the adapter: lower-case letters, digits and single underscores, each followed by a
  letter; the first character is not an underscore.
\<close>

fun snake_rest :: "string \<Rightarrow> bool" where
  "snake_rest [] = True"
| "snake_rest (c # cs) =
     ((if c = CHR ''_'' then cs \<noteq> [] \<and> is_lower_letter (hd cs) else is_lower_letter c \<or> is_digit c) \<and> snake_rest cs)"

definition snake_name :: "string \<Rightarrow> bool" where
  "snake_name s \<longleftrightarrow> s \<noteq> [] \<and> hd s \<noteq> CHR ''_'' \<and> snake_rest s"

lemma letter_classes [simp]:
  "is_lower_letter c \<Longrightarrow> \<not> is_upper_letter c" "is_digit c \<Longrightarrow> \<not> is_upper_letter c"
  by (simp_all add: is_lower_letter_def is_upper_letter_def is_digit_def Let_def)

lemma separator_classes [simp]:
  "\<not> is_upper_letter (CHR ''_'')" "\<not> is_lower_letter (CHR ''_'')" "\<not> is_digit (CHR ''_'')"
  "\<not> is_upper_letter (CHR ''-'')" "\<not> is_lower_letter (CHR ''-'')" "\<not> is_digit (CHR ''-'')"
  by (simp_all add: is_upper_letter_def is_lower_letter_def is_digit_def)

lemma of_char_upper: "is_lower_letter c \<Longrightarrow> (of_char (upper_char c) :: nat) = of_char c - 32"
  by (clarsimp simp: upper_char_def is_lower_letter_def Let_def)

lemma upper_is_upper [simp]: "is_lower_letter c \<Longrightarrow> is_upper_letter (upper_char c)"
  using of_char_upper [of c] by (auto simp: is_upper_letter_def is_lower_letter_def Let_def)

lemma lower_upper_char [simp]: "is_lower_letter c \<Longrightarrow> lower_char (upper_char c) = c"
proof -
  assume c: "is_lower_letter c"
  then have "lower_char (upper_char c) = char_of (of_char c :: nat)"
    using of_char_upper [of c] unfolding lower_char_def [of "upper_char c"] by (auto simp: is_lower_letter_def Let_def)
  then show ?thesis
    by simp
qed

lemma upper_not_sep: "is_lower_letter c \<Longrightarrow> upper_char c \<noteq> CHR ''-'' \<and> upper_char c \<noteq> CHR ''_''"
  using upper_is_upper [of c] by (metis separator_classes(1,4))

abbreviation unhyphen :: "string \<Rightarrow> string" where
  "unhyphen \<equiv> map (\<lambda>c. if c = CHR ''-'' then CHR ''_'' else c)"

lemma snake_rest_chars: "snake_rest s \<Longrightarrow> c \<in> set s \<Longrightarrow> c = CHR ''_'' \<or> is_lower_letter c \<or> is_digit c"
  by (induction s) (auto split: if_splits)

lemma unhyphen_snake: "snake_rest s \<Longrightarrow> unhyphen s = s" "snake_rest s \<Longrightarrow> unhyphen (snakeToHyphen s) = s"
  unfolding snakeToHyphen_def by (auto intro!: map_idI dest!: snake_rest_chars)

lemma snakeLoop_lower: "\<forall>c \<in> set s. \<not> is_upper_letter c \<Longrightarrow> snakeLoop prev s = s"
  by (induction s arbitrary: prev) auto

lemma snakeLoop_snake: "snake_rest s \<Longrightarrow> snakeLoop prev s = s"
  by (rule snakeLoop_lower) (auto dest: snake_rest_chars)

lemma snake_camel:
  "snake_rest s \<Longrightarrow> (s \<noteq> [] \<and> hd s = CHR ''_'' \<longrightarrow> prev \<noteq> None \<and> prev \<noteq> Some (CHR ''_'')) \<Longrightarrow>
    snakeLoop prev (unhyphen (camelLoop False s)) = s \<and>
    (s \<noteq> [] \<and> is_lower_letter (hd s) \<and> prev \<noteq> None \<and> prev \<noteq> Some (CHR ''_'') \<longrightarrow>
      snakeLoop prev (unhyphen (camelLoop True s)) = CHR ''_'' # s)"
proof (induction s arbitrary: prev)
  case (Cons c cs)
  show ?case
  proof (cases "c = CHR ''_''")
    case True
    then show ?thesis
      using Cons.IH [of prev] Cons.prems by (cases cs) auto
  next
    case False
    then have c: "is_lower_letter c \<or> is_digit c" "snake_rest cs"
      using Cons.prems by auto
    then have "c \<noteq> CHR ''-''"
      by auto
    then show ?thesis
      using Cons.IH [of "Some c"] False c by (auto simp: upper_not_sep)
  qed
qed simp

lemma camel_snake: "snake_name s \<Longrightarrow> transmissionKeyToSnake (snakeToLowerCamel s) = s"
  using snake_camel [of s None] snakeLoop_snake [of s] unhyphen_snake(1) [of s]
  by (auto simp: transmissionKeyToSnake_def snakeToLowerCamel_def snake_name_def)

lemma hyphen_snake: "snake_name s \<Longrightarrow> transmissionKeyToSnake (snakeToHyphen s) = s"
  by (simp add: transmissionKeyToSnake_def snake_name_def unhyphen_snake snakeLoop_snake)

lemma plain_snake: "snake_name s \<Longrightarrow> transmissionKeyToSnake s = s"
  by (simp add: transmissionKeyToSnake_def snake_name_def unhyphen_snake snakeLoop_snake)

lemma torrentFields_snake: "list_all snake_name torrentFields"
  by code_simp

lemma special_session_keys:
  "transmissionKeyToSnake ''seedRatioLimit'' = ''seed_ratio_limit''"
  "transmissionKeyToSnake ''seedRatioLimited'' = ''seed_ratio_limited''"
  "transmissionKeyToSnake ''honorsSessionLimits'' = ''honors_session_limits''"
  by code_simp+

lemma request_key_snake:
  assumes "snake_name key"
  shows "transmissionKeyToSnake (transmissionRequestKey m key) = key"
proof -
  note unsnake = camel_snake [OF assms] hyphen_snake [OF assms] plain_snake [OF assms]
  have "transmissionKeyToSnake (sessionRequestKey key) = key"
    unfolding sessionRequestKey_def by (simp add: unsnake special_session_keys)
  moreover have "transmissionKeyToSnake (groupSetRequestKey key) = key"
    unfolding groupSetRequestKey_def by (simp add: unsnake special_session_keys)
  moreover have "transmissionKeyToSnake (torrentAddRequestKey key) = key"
    unfolding torrentAddRequestKey_def by (simp only: if_distrib [of transmissionKeyToSnake] unsnake if_cancel)
  moreover have "transmissionKeyToSnake (torrentSetRequestKey key) = key"
    unfolding torrentSetRequestKey_def by (simp only: if_distrib [of transmissionKeyToSnake] unsnake if_cancel)
  ultimately show ?thesis
    unfolding transmissionRequestKey_def by (simp only: if_distrib [of transmissionKeyToSnake] unsnake if_cancel)
qed

lemma request_field_snake:
  assumes "snake_name field"
  shows "transmissionKeyToSnake (transmissionRequestField m field) = field"
proof -
  note unsnake = camel_snake [OF assms] hyphen_snake [OF assms] plain_snake [OF assms]
  have "transmissionKeyToSnake (sessionRequestKey field) = field"
    unfolding sessionRequestKey_def by (simp add: unsnake special_session_keys)
  moreover have "transmissionKeyToSnake (torrentGetField field) = field"
    unfolding torrentGetField_def by (simp only: if_distrib [of transmissionKeyToSnake] unsnake if_cancel)
  ultimately show ?thesis
    unfolding transmissionRequestField_def by (simp only: if_distrib [of transmissionKeyToSnake] unsnake if_cancel)
qed

text \<open>
  C22. Names survive the way to Transmission and back. Whatever the method, a name in the adapter's snake
  case that is sent as a key or as a requested field is read back as the same name, so that a response to
  \<open>torrent_get\<close> fills the fields that were asked for; the names asked for are all of that form, and no two of
  them become one.
\<close>

theorem transmission_names_roundtrip:
  assumes "snake_name key"
  shows "transmissionKeyToSnake (transmissionRequestKey m key) = key \<and>
    transmissionKeyToSnake (transmissionRequestField m key) = key \<and>
    map transmissionKeyToSnake (transmissionRequestFields m torrentFields) = torrentFields \<and>
    distinct (transmissionRequestFields m torrentFields)"
proof -
  have "transmissionKeyToSnake (transmissionRequestField m f) = f" if "f \<in> set torrentFields" for f
    using torrentFields_snake that by (auto simp: list_all_iff intro: request_field_snake)
  then have names: "map transmissionKeyToSnake (transmissionRequestFields m torrentFields) = torrentFields"
    by (simp add: transmissionRequestFields_def map_idI)
  moreover have "distinct torrentFields"
    by code_simp
  ultimately have "distinct (transmissionRequestFields m torrentFields)"
    by (metis distinct_map)
  with names show ?thesis
    using assms by (simp add: request_key_snake request_field_snake)
qed

lemma transmission_names_roundtrip_witness:
  "transmissionRequestField ''torrent_get'' ''peers_sending_to_us'' = ''peersSendingToUs'' \<and>
   transmissionKeyToSnake ''peersSendingToUs'' = ''peers_sending_to_us'' \<and>
   map transmissionKeyToSnake (transmissionRequestFields ''torrent_get'' torrentFields) = torrentFields"
proof -
  have "snake_name ''peers_sending_to_us''"
    by code_simp
  moreover have "transmissionRequestField ''torrent_get'' ''peers_sending_to_us'' = ''peersSendingToUs''"
    by code_simp
  ultimately show ?thesis
    using transmission_names_roundtrip [of "''peers_sending_to_us''" "''torrent_get''"] by simp
qed

text \<open>
  A name that is not in camel case is read back as something else: \<open>isUTP\<close>, as Transmission calls the flag of a
  peer, becomes \<open>is_u_t_p\<close>, while the field of the adapter is \<open>is_utp\<close>.
\<close>

lemma isUTP_lost: "transmissionKeyToSnake ''isUTP'' = ''is_u_t_p'' \<and> List.member transmissionBoolFields ''is_utp''"
  by code_simp

end
