(* ===== verification/Tr_Torrent.thy ===== *)
theory Tr_Torrent
  imports Automation_Model Tr_Rpc "HOL-Library.Word"
begin

text \<open>
  Torrents of Transmission as the rest of the server sees them: the translation of a torrent, its state,
  trackers, files, pieces and limits (\<open>src/internal/transmissionqbt/methods.go\<close>), and the filters of \<open>filter.go\<close>.
\<close>

section \<open>Data\<close>

record tr_file =
  trf_BytesCompleted :: int
  trf_Length :: int
  trf_Name :: string
  trf_BeginPiece :: int
  trf_EndPiece :: int

record tr_file_stat =
  trs_BytesCompleted :: int
  trs_Wanted :: bool
  trs_Priority :: int

record tr_tracker_stat =
  tst_Announce :: string
  tst_AnnounceState :: int
  tst_DownloadCount :: int
  tst_LastAnnouncePeerCount :: int
  tst_LastAnnounceResult :: string
  tst_LastAnnounceSucceeded :: bool
  tst_LastAnnounceTimedOut :: bool
  tst_LastScrapeResult :: string
  tst_LastScrapeSucceeded :: bool
  tst_LastScrapeTimedOut :: bool
  tst_LeecherCount :: int
  tst_SeederCount :: int
  tst_ScrapeState :: int

text \<open>The fields of a torrent that the modelled code reads; a tracker is its announce URL.\<close>

record tr_torrent =
  tr_ActivityDate :: int
  tr_AddedDate :: int
  tr_Availability :: "int list"
  tr_Comment :: string
  tr_Creator :: string
  tr_DoneDate :: int
  tr_DownloadDir :: string
  tr_DownloadedEver :: int
  tr_DownloadLimit :: int
  tr_DownloadLimited :: bool
  tr_Error :: int
  tr_Eta :: int
  tr_Files :: "tr_file list"
  tr_FileStats :: "tr_file_stat list"
  tr_Group :: string
  tr_HashString :: string
  tr_IsFinished :: bool
  tr_IsPrivate :: bool
  tr_IsStalled :: bool
  tr_Labels :: "string list"
  tr_LeftUntilDone :: int
  tr_MagnetLink :: string
  tr_Name :: string
  tr_PeersGettingFromUs :: int
  tr_PeersSendingToUs :: int
  tr_PercentComplete :: float64
  tr_PercentDone :: float64
  tr_PieceCount :: int
  tr_QueuePosition :: int
  tr_RateDownload :: int
  tr_RateUpload :: int
  tr_SecondsDownloading :: int
  tr_SecondsSeeding :: int
  tr_SeedIdleLimit :: int
  tr_SeedRatioLimit :: float64
  tr_SequentialDownload :: bool
  tr_SizeWhenDone :: int
  tr_Status :: int
  tr_TotalSize :: int
  tr_Trackers :: "string list"
  tr_TrackerList :: string
  tr_TrackerStats :: "tr_tracker_stat list"
  tr_UploadedEver :: int
  tr_UploadLimit :: int
  tr_UploadLimited :: bool
  tr_UploadRatio :: float64

datatype tracker_status = TrackerNotContacted | TrackerOK | TrackerUpdating | TrackerError | TrackerUnreachable

record tracker_info =
  ti_Url :: string
  ti_Status :: tracker_status
  ti_NumPeers :: int
  ti_NumSeeds :: int
  ti_NumLeechers :: int
  ti_NumDownloaded :: int
  ti_Message :: string

text \<open>A torrent of the client, with what is known of its trackers and the two fields on share limits that no rule reads.\<close>

record client_torrent = torrent +
  ct_Trackers :: "tracker_info list"
  ct_ShareLimitAction :: string
  ct_ShareLimitsMode :: string

section \<open>Translation\<close>

text \<open>Limits: Transmission counts in units of 1000 bytes, with a flag of their own.\<close>

definition kbToBytes :: "int \<Rightarrow> bool \<Rightarrow> int" where
  "kbToBytes v enabled = (if \<not> enabled \<or> v \<le> 0 then 0 else wrap64 (v * 1000))"

definition bytesToKB :: "int \<Rightarrow> int" where
  "bytesToKB v = (if v \<le> 0 then 0 else v div 1000)"

definition fl_one :: float64 where
  "fl_one = Fl (2 ^ 1074)"

definition firstNonEmpty :: "string list \<Rightarrow> string" where
  "firstNonEmpty values = (case filter (\<lambda>v. trim_space v \<noteq> []) values of [] \<Rightarrow> [] | v # _ \<Rightarrow> v)"

definition trackerStatus :: "tr_tracker_stat \<Rightarrow> tracker_status" where
  "trackerStatus stat =
     (if tst_LastAnnounceSucceeded stat \<or> tst_LastScrapeSucceeded stat then TrackerOK
      else if tst_AnnounceState stat = 1 \<or> tst_ScrapeState stat = 1 then TrackerUpdating
      else if tst_LastAnnounceTimedOut stat \<or> tst_LastScrapeTimedOut stat then TrackerUnreachable
      else if tst_LastAnnounceResult stat \<noteq> [] \<or> tst_LastScrapeResult stat \<noteq> [] then TrackerError
      else TrackerNotContacted)"

definition trackerOfStat :: "tr_tracker_stat \<Rightarrow> tracker_info" where
  "trackerOfStat stat =
     \<lparr>ti_Url = tst_Announce stat, ti_Status = trackerStatus stat, ti_NumPeers = tst_LastAnnouncePeerCount stat,
      ti_NumSeeds = tst_SeederCount stat, ti_NumLeechers = tst_LeecherCount stat, ti_NumDownloaded = tst_DownloadCount stat,
      ti_Message = firstNonEmpty [tst_LastAnnounceResult stat, tst_LastScrapeResult stat]\<rparr>"

definition toTrackers :: "tr_torrent \<Rightarrow> tracker_info list" where
  "toTrackers tr =
     (if tr_TrackerStats tr \<noteq> [] then map trackerOfStat (tr_TrackerStats tr)
      else map (\<lambda>url. \<lparr>ti_Url = url, ti_Status = TrackerNotContacted, ti_NumPeers = 0, ti_NumSeeds = 0, ti_NumLeechers = 0,
        ti_NumDownloaded = 0, ti_Message = []\<rparr>) (tr_Trackers tr))"

definition firstSeederCount :: "tr_tracker_stat list \<Rightarrow> int" where
  "firstSeederCount stats = (case List.find (\<lambda>s. tst_SeederCount s \<ge> 0) stats of Some s \<Rightarrow> tst_SeederCount s | None \<Rightarrow> 0)"

definition firstLeecherCount :: "tr_tracker_stat list \<Rightarrow> int" where
  "firstLeecherCount stats = (case List.find (\<lambda>s. tst_LeecherCount s \<ge> 0) stats of Some s \<Rightarrow> tst_LeecherCount s | None \<Rightarrow> 0)"

definition availabilityScore :: "int list \<Rightarrow> float64" where
  "availabilityScore availability =
     (if availability = [] then Fl 0
      else fl_of_ratio (int (length (filter (\<lambda>v. v \<noteq> 0) availability))) (int (length availability)))"

definition toState :: "tr_torrent \<Rightarrow> float64 \<Rightarrow> string" where
  "toState tr progress =
     (let complete = fl_le fl_one progress \<or> tr_IsFinished tr in
      if tr_Error tr \<noteq> 0 then ''error''
      else if tr_Status tr = 0 then (if complete then ''stoppedUP'' else ''stoppedDL'')
      else if tr_Status tr = 1 then ''checkingResumeData''
      else if tr_Status tr = 2 then (if complete then ''checkingUP'' else ''checkingDL'')
      else if tr_Status tr = 3 then ''queuedDL''
      else if tr_Status tr = 4 then (if tr_IsStalled tr then ''stalledDL'' else ''downloading'')
      else if tr_Status tr = 5 then ''queuedUP''
      else if tr_Status tr = 6 then (if tr_IsStalled tr then ''stalledUP'' else ''uploading'')
      else ''unknown'')"

definition progressOf :: "tr_torrent \<Rightarrow> float64" where
  "progressOf tr =
     (if fl_eq (tr_PercentDone tr) (Fl 0) \<and> fl_less (Fl 0) (tr_PercentComplete tr) then tr_PercentComplete tr else tr_PercentDone tr)"

definition completionOf :: "tr_torrent \<Rightarrow> int" where
  "completionOf tr =
     (if tr_DoneDate tr = 0 \<and> (tr_IsFinished tr \<or> fl_le fl_one (progressOf tr)) then tr_ActivityDate tr else tr_DoneDate tr)"

definition contentPathOf :: "tr_torrent \<Rightarrow> string" where
  "contentPathOf tr =
     path_join [tr_DownloadDir tr, (case tr_Files tr of [f] \<Rightarrow> trf_Name f | _ \<Rightarrow> tr_Name tr)]"

text \<open>Fields that are not set are zero.\<close>

definition toQBT :: "tr_torrent \<Rightarrow> client_torrent" where
  "toQBT tr =
     (let hash = to_upper (trim_space (tr_HashString tr)); progress = progressOf tr; trackers = toTrackers tr;
          completionOn = completionOf tr in
      \<lparr>t_Hash = hash, t_Name = tr_Name tr, t_InfohashV1 = hash, t_InfohashV2 = [], t_MagnetURI = tr_MagnetLink tr,
       t_Category = tr_Group tr, t_Tags = join_with '', '' (tr_Labels tr), t_SavePath = tr_DownloadDir tr,
       t_ContentPath = contentPathOf tr, t_DownloadPath = tr_DownloadDir tr, t_CreatedBy = tr_Creator tr, t_Comment = tr_Comment tr,
       t_State = toState tr progress, t_Tracker = (case trackers of [] \<Rightarrow> [] | t # _ \<Rightarrow> ti_Url t),
       t_Trackers = map ti_Url trackers, t_Size = tr_SizeWhenDone tr,
       t_TotalSize = (if tr_TotalSize tr = 0 then tr_SizeWhenDone tr else tr_TotalSize tr),
       t_Completed = wrap64 (tr_SizeWhenDone tr - tr_LeftUntilDone tr), t_Downloaded = tr_DownloadedEver tr, t_DownloadedSession = 0,
       t_Uploaded = tr_UploadedEver tr, t_UploadedSession = 0, t_AmountLeft = tr_LeftUntilDone tr, t_AddedOn = tr_AddedDate tr,
       t_CompletionOn = completionOn, t_LastActivity = 0, t_SeenComplete = completionOn, t_ETA = tr_Eta tr, t_Reannounce = 0,
       t_SeedingTime = tr_SecondsSeeding tr, t_TimeActive = wrap64 (tr_SecondsDownloading tr + tr_SecondsSeeding tr),
       t_MaxSeedingTime = tr_SecondsSeeding tr, t_MaxInactiveSeedingTime = tr_SeedIdleLimit tr,
       t_SeedingTimeLimit = tr_SeedIdleLimit tr, t_InactiveSeedingTimeLimit = tr_SeedIdleLimit tr, t_DlSpeed = tr_RateDownload tr,
       t_UpSpeed = tr_RateUpload tr, t_DlLimit = kbToBytes (tr_DownloadLimit tr) (tr_DownloadLimited tr),
       t_UpLimit = kbToBytes (tr_UploadLimit tr) (tr_UploadLimited tr), t_NumSeeds = tr_PeersGettingFromUs tr,
       t_NumLeechs = tr_PeersSendingToUs tr, t_NumComplete = firstSeederCount (tr_TrackerStats tr),
       t_NumIncomplete = firstLeecherCount (tr_TrackerStats tr), t_TrackersCount = int (length trackers),
       t_Priority = tr_QueuePosition tr, t_Ratio = tr_UploadRatio tr, t_RatioLimit = tr_SeedRatioLimit tr,
       t_MaxRatio = tr_SeedRatioLimit tr, t_Progress = progress, t_Availability = availabilityScore (tr_Availability tr),
       t_Popularity = Fl 0, t_Private = tr_IsPrivate tr, t_AutoManaged = True, t_FirstLastPiecePrio = False,
       t_ForceStart = (tr_Status tr = 4 \<and> tr_QueuePosition tr < 0), t_SequentialDownload = tr_SequentialDownload tr,
       t_SuperSeeding = False, ct_Trackers = trackers, ct_ShareLimitAction = [], ct_ShareLimitsMode = []\<rparr>)"

section \<open>Files\<close>

record torrent_file =
  tf_Index :: nat
  tf_IsSeed :: bool
  tf_Name :: string
  tf_PieceRange :: "int list"
  tf_Priority :: int
  tf_Progress :: float64
  tf_Size :: int

text \<open>Rounding to \<open>float32\<close>, for numbers in its normal range.\<close>

definition fl_to_32 :: "float64 \<Rightarrow> float64" where
  "fl_to_32 v =
     (case v of
        Fl n \<Rightarrow> (let s = bitlen \<bar>n\<bar> - 24 in Fl (sgn n * round_half_even \<bar>n\<bar> s * 2 ^ s))
      | _ \<Rightarrow> v)"

definition filePriority :: "tr_file_stat \<Rightarrow> int" where
  "filePriority stat = (if \<not> trs_Wanted stat then 0 else if trs_Priority stat < 0 then 1 else if trs_Priority stat > 0 then 7 else 4)"

definition fileOf :: "nat \<Rightarrow> tr_file \<Rightarrow> tr_file_stat \<Rightarrow> torrent_file" where
  "fileOf i f stat =
     \<lparr>tf_Index = i, tf_IsSeed = (trf_BytesCompleted f \<ge> trf_Length f \<and> trf_Length f > 0), tf_Name = trf_Name f,
      tf_PieceRange = [trf_BeginPiece f, trf_EndPiece f], tf_Priority = filePriority stat,
      tf_Progress = (if trf_Length f > 0
        then (case (fl_of_int (trf_BytesCompleted f), fl_of_int (trf_Length f)) of
            (Fl a, Fl b) \<Rightarrow> fl_to_32 (fl_of_ratio a b) | _ \<Rightarrow> NaN)
        else Fl 0),
      tf_Size = trf_Length f\<rparr>"

definition transmissionFilesToQBT :: "tr_torrent \<Rightarrow> torrent_file list" where
  "transmissionFilesToQBT tr =
     map (\<lambda>(i, f). fileOf i f (if i < length (tr_FileStats tr) then tr_FileStats tr ! i
        else \<lparr>trs_BytesCompleted = 0, trs_Wanted = True, trs_Priority = 0\<rparr>)) (enumerate 0 (tr_Files tr))"

text \<open>Pieces: one bit each, the first one the highest bit of the first byte.\<close>

definition pieceStates :: "8 word list \<Rightarrow> nat \<Rightarrow> bool list" where
  "pieceStates pieces pieceCount =
     map (\<lambda>i. i div 8 < length pieces \<and> bit (pieces ! (i div 8)) (7 - i mod 8)) [0..<pieceCount]"

section \<open>Filters\<close>

text \<open>The first of equal strings stays. Nothing in gives a nil slice (\<open>None\<close>), which becomes a null in JSON.\<close>

definition removeDuplicateStrings :: "string list \<Rightarrow> string list option" where
  "removeDuplicateStrings input = (if input = [] then None else Some (rev (remdups (rev input))))"

definition removeStrings :: "string list \<Rightarrow> string list \<Rightarrow> string list" where
  "removeStrings input toRemove = filter (\<lambda>s. s \<notin> set toRemove) input"

definition containsExactTag :: "string \<Rightarrow> string \<Rightarrow> bool" where
  "containsExactTag tags target \<longleftrightarrow>
     tags \<noteq> [] \<and> target \<noteq> [] \<and> trim_space target \<noteq> [] \<and>
     list_ex (\<lambda>tag. trim_space tag = trim_space target) (split_on (CHR '','') tags)"

text \<open>The filters that match a state, without \<open>running\<close> and \<open>resumed\<close>, which are decided before.\<close>

definition stateFilterMatches :: "string \<Rightarrow> string list option" where
  "stateFilterMatches = map_of
     [(''error'', [''all'', ''errored'', ''inactive'']),
      (''missingFiles'', [''all'', ''inactive'']),
      (''uploading'', [''all'', ''active'', ''uploading'', ''completed'', ''resumed'']),
      (''pausedUP'', [''all'', ''paused'', ''stopped'', ''completed'', ''inactive'']),
      (''stoppedUP'', [''all'', ''paused'', ''stopped'', ''completed'', ''inactive'']),
      (''queuedUP'', [''all'', ''completed'', ''inactive'']),
      (''stalledUP'', [''all'', ''stalled'', ''stalled_uploading'', ''completed'', ''inactive'']),
      (''checkingUP'', [''all'', ''active'', ''completed'', ''resumed'']),
      (''forcedUP'', [''all'', ''active'', ''uploading'', ''completed'', ''resumed'']),
      (''allocating'', [''all'', ''active'', ''downloading'', ''resumed'']),
      (''downloading'', [''all'', ''active'', ''downloading'', ''resumed'']),
      (''metaDL'', [''all'', ''active'', ''downloading'', ''resumed'']),
      (''pausedDL'', [''all'', ''paused'', ''stopped'', ''inactive'']),
      (''stoppedDL'', [''all'', ''paused'', ''stopped'', ''inactive'']),
      (''queuedDL'', [''all'', ''inactive'']),
      (''stalledDL'', [''all'', ''stalled'', ''stalled_downloading'', ''inactive'']),
      (''checkingDL'', [''all'', ''active'', ''downloading'', ''resumed'']),
      (''forcedDL'', [''all'', ''active'', ''downloading'', ''resumed'']),
      (''checkingResumeData'', [''all'']),
      (''moving'', [''all'']),
      (''unknown'', [''all''])]"

definition matchesStateFilter :: "string \<Rightarrow> string \<Rightarrow> bool" where
  "matchesStateFilter state flt =
     (if flt = ''running'' then state \<noteq> ''stoppedUP'' \<and> state \<noteq> ''stoppedDL''
      else if flt = ''resumed'' then state \<noteq> ''pausedUP'' \<and> state \<noteq> ''pausedDL'' \<and> state \<noteq> ''stoppedUP'' \<and> state \<noteq> ''stoppedDL''
      else case stateFilterMatches state of
        Some fs \<Rightarrow> List.member fs flt
      | None \<Rightarrow> flt = ''all'')"

definition ParseTorrentFilter :: "string \<Rightarrow> string" where
  "ParseTorrentFilter flt =
     (if flt = ''seeding'' then ''uploading''
      else if List.member [''downloading'', ''completed'', ''resumed'', ''stopped'', ''running'', ''active'', ''inactive'', ''stalled'',
          ''stalled_uploading'', ''stalled_downloading'', ''checking'', ''moving'', ''errored''] flt then flt
      else ''all'')"

record filter_options =
  fo_Filter :: string
  fo_Category :: string
  fo_Tag :: string
  fo_Sort :: string
  fo_Reverse :: bool
  fo_Limit :: int
  fo_Offset :: int
  fo_Hashes :: "string list"

definition noFilter :: filter_options where
  "noFilter = \<lparr>fo_Filter = [], fo_Category = [], fo_Tag = [], fo_Sort = [], fo_Reverse = False, fo_Limit = 0, fo_Offset = 0, fo_Hashes = []\<rparr>"

definition matchesTorrentFilter :: "('a torrent_scheme) \<Rightarrow> filter_options \<Rightarrow> bool" where
  "matchesTorrentFilter t opts \<longleftrightarrow>
     (fo_Hashes opts = [] \<or> t_Hash t \<in> set (fo_Hashes opts)) \<and>
     (fo_Category opts = [] \<or> t_Category t = fo_Category opts) \<and>
     (fo_Tag opts = [] \<or> containsExactTag (t_Tags t) (fo_Tag opts)) \<and>
     (fo_Filter opts = [] \<or> matchesStateFilter (t_State t) (fo_Filter opts))"

text \<open>
  Sorting, then a window. \<open>None\<close> is the panic of a slice with a negative start; \<open>sorter\<close> is the sorting by
  the field and direction of the options.
\<close>

definition applyTorrentFilterOptions ::
  "(string \<Rightarrow> bool \<Rightarrow> 'a list \<Rightarrow> 'a list) \<Rightarrow> 'a list \<Rightarrow> filter_options \<Rightarrow> 'a list option" where
  "applyTorrentFilterOptions sorter torrents0 opts =
     (let torrents = sorter (fo_Sort opts) (fo_Reverse opts) torrents0; start = fo_Offset opts; n = int (length torrents) in
      if \<not> (start > 0 \<or> fo_Limit opts > 0) then Some torrents
      else if start \<ge> n then Some []
      else
        let stop = (if fo_Limit opts > 0 \<and> wrap64 (start + fo_Limit opts) < n then wrap64 (start + fo_Limit opts) else n) in
        if start < 0 \<or> stop < start then None
        else Some (take (nat (stop - start)) (drop (nat start) torrents)))"

section \<open>What states and filters mean\<close>

lemma toState_cases:
  "toState tr p \<in> {''error'', ''stoppedUP'', ''stoppedDL'', ''checkingResumeData'', ''checkingUP'', ''checkingDL'', ''queuedDL'',
     ''stalledDL'', ''downloading'', ''queuedUP'', ''stalledUP'', ''uploading'', ''unknown''}"
  by (simp add: toState_def Let_def)

lemma state_filters_code:
  "list_all (\<lambda>s. matchesStateFilter s ''all'' \<and> matchesStateFilter s ''running'' = (\<not> matchesStateFilter s ''stopped'') \<and>
      matchesStateFilter s ''resumed'' = matchesStateFilter s ''running'' \<and>
      \<not> (matchesStateFilter s ''active'' \<and> matchesStateFilter s ''inactive'') \<and>
      (matchesStateFilter s ''stopped'' \<longrightarrow> matchesStateFilter s ''inactive'') \<and>
      matchesStateFilter s ''errored'' = (s = ''error'') \<and>
      matchesStateFilter s ''stopped'' = (s = ''stoppedUP'' \<or> s = ''stoppedDL''))
    [''error'', ''stoppedUP'', ''stoppedDL'', ''checkingResumeData'', ''checkingUP'', ''checkingDL'', ''queuedDL'',
     ''stalledDL'', ''downloading'', ''queuedUP'', ''stalledUP'', ''uploading'', ''unknown'']"
  by code_simp

lemma toState_stopped:
  "toState tr p = ''stoppedUP'' \<or> toState tr p = ''stoppedDL'' \<longleftrightarrow> tr_Error tr = 0 \<and> tr_Status tr = 0"
  by (simp add: toState_def Let_def)

lemma toState_error: "toState tr p = ''error'' \<longleftrightarrow> tr_Error tr \<noteq> 0"
  by (simp add: toState_def Let_def)

lemma checking_filter_empty:
  "list_all (\<lambda>s. \<not> matchesStateFilter s (ParseTorrentFilter ''checking'') \<and> \<not> matchesStateFilter s (ParseTorrentFilter ''moving''))
    [''checkingUP'', ''checkingDL'', ''checkingResumeData'', ''moving'']"
  by code_simp

section \<open>Limits\<close>

text \<open>
  A limit that is set and read back loses what is below 1000 bytes; one below 1000 bytes is sent as a limit of
  zero that is switched on, and read back as no limit.
\<close>

lemma limit_roundtrip:
  assumes "1000 \<le> v" and "int64 v"
  shows "kbToBytes (bytesToKB v) (v > 0) = v - v mod 1000"
proof -
  have "v div 1000 * 1000 = v - v mod 1000"
    by (simp add: minus_mod_eq_div_mult)
  moreover from this have "int64 (v div 1000 * 1000)"
    using assms pos_mod_bound [of 1000 v] pos_mod_sign [of 1000 v] unfolding int64_def by linarith
  moreover have "v div 1000 > 0"
    using assms by (simp add: pos_imp_zdiv_pos_iff)
  ultimately show ?thesis
    using assms by (simp add: kbToBytes_def bytesToKB_def)
qed

lemma small_limit_lost: "0 < v \<Longrightarrow> v < 1000 \<Longrightarrow> bytesToKB v = 0 \<and> kbToBytes (bytesToKB v) (v > 0) = 0"
  by (simp add: bytesToKB_def kbToBytes_def)

section \<open>Hashes\<close>

text \<open>
  A torrent carries its hash in upper case, and the filter compares hashes as they are: a caller that asks
  for the hash in lower case gets nothing, although Transmission itself finds the torrent.
\<close>

lemma to_upper_idem [simp]: "to_upper (to_upper s) = to_upper s"
proof -
  have "upper_char (upper_char c) = upper_char c" for c
    by (clarsimp simp: upper_char_def)
  then show ?thesis
    by (simp add: to_upper_def)
qed

lemma lower_case_hashes_match_nothing:
  assumes "fo_Hashes opts \<noteq> []" and "\<forall>h \<in> set (fo_Hashes opts). to_upper h \<noteq> h"
  shows "\<not> matchesTorrentFilter (toQBT tr) opts"
proof
  assume "matchesTorrentFilter (toQBT tr) opts"
  then have "to_upper (trim_space (tr_HashString tr)) \<in> set (fo_Hashes opts)"
    using assms(1) by (simp add: matchesTorrentFilter_def toQBT_def Let_def)
  with assms(2) show False
    using to_upper_idem by blast
qed

end
