(* ===== verification/Tr_Client.thy ===== *)
theory Tr_Client
  imports Tr_Torrent
begin

text \<open>
  The operations of the client (\<open>src/internal/transmissionqbt/methods.go\<close>): each reads torrents and sends requests.
  Transmission is a parameter with a state of its own.
\<close>

section \<open>Transmission\<close>

text \<open>
  \<open>rp_torrents\<close> answers \<open>torrent_get\<close>, with no hashes for all torrents (\<open>None\<close> is an error); \<open>rp_call\<close> is a request that
  changes something, with true for an error.
\<close>

record 'w rpc =
  rp_torrents :: "string list \<Rightarrow> 'w \<Rightarrow> tr_torrent list option"
  rp_call :: "string \<Rightarrow> (string \<times> json) list \<Rightarrow> 'w \<Rightarrow> 'w \<times> bool"

datatype client_error = RpcFailed | ErrTorrentNotFound | ErrInvalidPriority

type_synonym 'w outcome = "'w \<times> client_error option"

definition rpcCall :: "'w rpc \<Rightarrow> string \<Rightarrow> (string \<times> json) list \<Rightarrow> 'w \<Rightarrow> 'w outcome" where
  "rpcCall rp m params w = (case rp_call rp m params w of (w', failed) \<Rightarrow> (w', if failed then Some RpcFailed else None))"

definition getTorrents :: "'w rpc \<Rightarrow> (string \<Rightarrow> bool \<Rightarrow> client_torrent list \<Rightarrow> client_torrent list) \<Rightarrow> filter_options \<Rightarrow> 'w \<Rightarrow>
    client_torrent list option option" where
  "getTorrents rp sorter opts w =
     (case rp_torrents rp (fo_Hashes opts) w of
        None \<Rightarrow> Some None
      | Some trs \<Rightarrow>
          (case applyTorrentFilterOptions sorter (filter (\<lambda>t. matchesTorrentFilter t opts) (map toQBT trs)) opts of
             None \<Rightarrow> None
           | Some ts \<Rightarrow> Some (Some ts)))"

text \<open>Without options there is no sorting and no window.\<close>

definition allTorrents :: "'w rpc \<Rightarrow> 'w \<Rightarrow> client_torrent list option" where
  "allTorrents rp w = map_option (map toQBT) (rp_torrents rp [] w)"

section \<open>Values of options\<close>

text \<open>\<open>ParseBool\<close>; a string that is none is false.\<close>

definition truthy :: "string \<Rightarrow> bool" where
  "truthy v \<longleftrightarrow> List.member [''1'', ''t'', ''T'', ''TRUE'', ''true'', ''True''] v"

text \<open>On a range error \<open>ParseInt\<close> returns the bound next to the error, which is dropped.\<close>

definition int64Value :: "string \<Rightarrow> int" where
  "int64Value v =
     (case split_sign v of (sg, ds) \<Rightarrow>
        if ds \<noteq> [] \<and> list_all is_digit ds then max (- (2 ^ 63)) (min (2 ^ 63 - 1) (sg * digits_val ds)) else 0)"

fun fields_by_sep :: "(char \<Rightarrow> bool) \<Rightarrow> string \<Rightarrow> string \<Rightarrow> string list" where
  "fields_by_sep sep acc [] = (if acc = [] then [] else [rev acc])"
| "fields_by_sep sep acc (c # cs) =
     (if sep c then (if acc = [] then [] else [rev acc]) @ fields_by_sep sep [] cs else fields_by_sep sep (c # acc) cs)"

definition splitCSV :: "string \<Rightarrow> string list" where
  "splitCSV v =
     (if trim_space v = [] then []
      else filter (\<lambda>s. s \<noteq> []) (map trim_space (fields_by_sep (\<lambda>c. c = CHR '','' \<or> c = CHR ''|'') [] v)))"

definition str_fields :: "string \<Rightarrow> string list" where
  "str_fields s = fields_by_sep is_space [] s"

text \<open>
  The parameters of a torrent to be added, from the options in the order the map is ranged over. \<open>floats\<close> is
  \<open>ParseFloat\<close>, whose value is kept on an error.
\<close>

definition addParam :: "(string \<Rightarrow> float64) \<Rightarrow> string \<times> string \<Rightarrow> (string, json) gomap \<Rightarrow> (string, json) gomap" where
  "addParam floats opt params =
     (case opt of (key, v) \<Rightarrow>
        if key = ''savepath'' then gm_put ''download_dir'' (JStr v) params
        else if key = ''category'' then gm_put ''group'' (JStr v) params
        else if key = ''tags'' then gm_put ''labels'' (if trim_space v = [] then JNull else JStrs (splitCSV v)) params
        else if key = ''paused'' \<or> key = ''stopped'' then (if truthy v then gm_put ''paused'' (JBool True) params else params)
        else if key = ''skip_checking'' then gm_put ''paused'' (JBool (truthy v)) params
        else if key = ''upLimit'' then (if int64Value v > 0 then gm_put ''upload_limit'' (JInt (bytesToKB (int64Value v))) params else params)
        else if key = ''dlLimit'' then (if int64Value v > 0 then gm_put ''download_limit'' (JInt (bytesToKB (int64Value v))) params else params)
        else if key = ''ratioLimit'' then gm_put ''seed_ratio_mode'' (JInt 1) (gm_put ''seed_ratio_limit'' (JFloat (floats v)) params)
        else if key = ''seedingTimeLimit'' then gm_put ''seed_idle_mode'' (JInt 1) (gm_put ''seed_idle_limit'' (JInt (int64Value v)) params)
        else if key = ''sequentialDownload'' then gm_put ''sequential_download'' (JBool (truthy v)) params
        else params)"

definition addParamsFromOptions :: "(string \<Rightarrow> float64) \<Rightarrow> (string, string) gomap \<Rightarrow> (string, json) gomap" where
  "addParamsFromOptions floats options = fold (addParam floats) options []"

text \<open>
  The option for adding without a check pauses the torrent, and takes back a request to pause it if it comes later
  in the order of the map.
\<close>

lemma skip_checking_order:
  "gm_get (addParamsFromOptions fl [(''paused'', ''true''), (''skip_checking'', ''false'')]) ''paused'' = Some (JBool False) \<and>
   gm_get (addParamsFromOptions fl [(''skip_checking'', ''false''), (''paused'', ''true'')]) ''paused'' = Some (JBool True) \<and>
   gm_get (addParamsFromOptions fl [(''skip_checking'', ''true'')]) ''paused'' = Some (JBool True)"
  by (simp add: addParamsFromOptions_def addParam_def truthy_def)

section \<open>Requests without reading\<close>

definition idsParam :: "string list \<Rightarrow> (string \<times> json) list" where
  "idsParam hashes = [(''ids'', JStrs hashes)]"

definition deleteTorrents :: "'w rpc \<Rightarrow> string list \<Rightarrow> bool \<Rightarrow> 'w \<Rightarrow> 'w outcome" where
  "deleteTorrents rp hashes deleteFiles =
     rpcCall rp ''torrent_remove'' [(''ids'', JStrs hashes), (''delete_local_data'', JBool deleteFiles)]"

definition reAnnounceTorrents :: "'w rpc \<Rightarrow> string list \<Rightarrow> 'w \<Rightarrow> 'w outcome" where
  "reAnnounceTorrents rp hashes = rpcCall rp ''torrent_reannounce'' (idsParam hashes)"

definition pauseTorrents :: "'w rpc \<Rightarrow> string list \<Rightarrow> 'w \<Rightarrow> 'w outcome" where
  "pauseTorrents rp hashes = rpcCall rp ''torrent_stop'' (idsParam hashes)"

definition resumeTorrents :: "'w rpc \<Rightarrow> string list \<Rightarrow> 'w \<Rightarrow> 'w outcome" where
  "resumeTorrents rp hashes = rpcCall rp ''torrent_start'' (idsParam hashes)"

definition setForceStart :: "'w rpc \<Rightarrow> string list \<Rightarrow> bool \<Rightarrow> 'w \<Rightarrow> 'w outcome" where
  "setForceStart rp hashes v = rpcCall rp (if v then ''torrent_start_now'' else ''torrent_start'') (idsParam hashes)"

definition recheckTorrents :: "'w rpc \<Rightarrow> string list \<Rightarrow> 'w \<Rightarrow> 'w outcome" where
  "recheckTorrents rp hashes = rpcCall rp ''torrent_verify'' (idsParam hashes)"

definition setLocation :: "'w rpc \<Rightarrow> string list \<Rightarrow> string \<Rightarrow> 'w \<Rightarrow> 'w outcome" where
  "setLocation rp hashes location =
     rpcCall rp ''torrent_set_location'' [(''ids'', JStrs hashes), (''location'', JStr location), (''move'', JBool True)]"

definition setCategory :: "'w rpc \<Rightarrow> string list \<Rightarrow> string \<Rightarrow> 'w \<Rightarrow> 'w outcome" where
  "setCategory rp hashes category = rpcCall rp ''torrent_set'' [(''ids'', JStrs hashes), (''group'', JStr category)]"

definition createCategory :: "'w rpc \<Rightarrow> string \<Rightarrow> string \<Rightarrow> 'w \<Rightarrow> 'w outcome" where
  "createCategory rp category categoryPath = rpcCall rp ''group_set'' [(''name'', JStr category)]"

definition editCategory :: "'w rpc \<Rightarrow> string \<Rightarrow> string \<Rightarrow> 'w \<Rightarrow> 'w outcome" where
  "editCategory rp category categoryPath = rpcCall rp ''group_set'' [(''name'', JStr category)]"

definition setComment :: "'w rpc \<Rightarrow> string list \<Rightarrow> string \<Rightarrow> 'w \<Rightarrow> 'w outcome" where
  "setComment rp hashes comment = rpcCall rp ''torrent_set'' [(''ids'', JStrs hashes), (''comment'', JStr comment)]"

definition setTorrentDownloadLimit :: "'w rpc \<Rightarrow> string list \<Rightarrow> int \<Rightarrow> 'w \<Rightarrow> 'w outcome" where
  "setTorrentDownloadLimit rp hashes limit =
     rpcCall rp ''torrent_set''
       [(''ids'', JStrs hashes), (''download_limit'', JInt (bytesToKB limit)), (''download_limited'', JBool (limit > 0))]"

definition setTorrentUploadLimit :: "'w rpc \<Rightarrow> string list \<Rightarrow> int \<Rightarrow> 'w \<Rightarrow> 'w outcome" where
  "setTorrentUploadLimit rp hashes limit =
     rpcCall rp ''torrent_set''
       [(''ids'', JStrs hashes), (''upload_limit'', JInt (bytesToKB limit)), (''upload_limited'', JBool (limit > 0))]"

definition setTorrentShareLimit :: "'w rpc \<Rightarrow> string list \<Rightarrow> float64 \<Rightarrow> int \<Rightarrow> 'w \<Rightarrow> 'w outcome" where
  "setTorrentShareLimit rp hashes ratioLimit seedingTimeLimit =
     rpcCall rp ''torrent_set''
       ([(''ids'', JStrs hashes)] @
        (if fl_le (Fl 0) ratioLimit then [(''seed_ratio_limit'', JFloat ratioLimit), (''seed_ratio_mode'', JInt 1)] else []) @
        (if seedingTimeLimit \<ge> 0 then [(''seed_idle_limit'', JInt seedingTimeLimit), (''seed_idle_mode'', JInt 1)] else []))"

definition renameFile :: "'w rpc \<Rightarrow> string \<Rightarrow> string \<Rightarrow> string \<Rightarrow> 'w \<Rightarrow> 'w outcome" where
  "renameFile rp hash oldPath newPath =
     rpcCall rp ''torrent_rename_path'' [(''ids'', JStrs [hash]), (''path'', JStr oldPath), (''name'', JStr (path_base newPath))]"

definition parseFileID :: "string \<Rightarrow> int option" where
  "parseFileID part = ParseInt (trim_space part)"

definition parseFileIDs :: "string \<Rightarrow> int list option" where
  "parseFileIDs raw =
     those (map parseFileID (filter (\<lambda>p. trim_space p \<noteq> [])
       (fields_by_sep (\<lambda>c. c = CHR ''|'' \<or> c = CHR '','' \<or> c = CHR '' '') [] raw)))"

definition filePriorityParams :: "int list \<Rightarrow> int \<Rightarrow> (string \<times> json) list" where
  "filePriorityParams ids priority =
     (let v = JArr (map JInt ids) in
      if priority \<le> 0 then [(''files_unwanted'', v)]
      else if priority \<le> 1 then [(''files_wanted'', v), (''priority_low'', v)]
      else if priority \<ge> 6 then [(''files_wanted'', v), (''priority_high'', v)]
      else [(''files_wanted'', v), (''priority_normal'', v)])"

definition setFilePriority :: "'w rpc \<Rightarrow> string \<Rightarrow> string \<Rightarrow> int \<Rightarrow> 'w \<Rightarrow> 'w outcome" where
  "setFilePriority rp hash rawIDs priority w =
     (case parseFileIDs rawIDs of
        None \<Rightarrow> (w, Some ErrInvalidPriority)
      | Some ids \<Rightarrow> rpcCall rp ''torrent_set'' ((''ids'', JStrs [hash]) # filePriorityParams ids priority) w)"

section \<open>Tags\<close>

text \<open>A nil slice of strings is sent as null.\<close>

definition slice_json :: "string list option \<Rightarrow> json" where
  "slice_json labels = (case labels of None \<Rightarrow> JNull | Some ls \<Rightarrow> JStrs ls)"

definition setLabels :: "'w rpc \<Rightarrow> string list \<Rightarrow> string list \<Rightarrow> 'w \<Rightarrow> 'w outcome" where
  "setLabels rp hashes labels =
     rpcCall rp ''torrent_set'' [(''ids'', JStrs hashes), (''labels'', slice_json (removeDuplicateStrings labels))]"

definition labelMap :: "'w rpc \<Rightarrow> string list \<Rightarrow> 'w \<Rightarrow> (string, string list) gomap option" where
  "labelMap rp hashes w =
     map_option (\<lambda>trs. fold (\<lambda>t m. gm_put (to_upper (tr_HashString t)) (tr_Labels t) m) trs []) (rp_torrents rp hashes w)"

definition labelsIn :: "(string, string list) gomap \<Rightarrow> string \<Rightarrow> string list" where
  "labelsIn current hash = (case gm_get current (to_upper hash) of None \<Rightarrow> [] | Some ls \<Rightarrow> ls)"

text \<open>One request per hash, until one fails.\<close>

fun eachHash :: "(string \<Rightarrow> 'w \<Rightarrow> 'w outcome) \<Rightarrow> string list \<Rightarrow> 'w \<Rightarrow> 'w outcome" where
  "eachHash f [] w = (w, None)"
| "eachHash f (hash # hashes) w =
     (case f hash w of (w', Some e) \<Rightarrow> (w', Some e) | (w', None) \<Rightarrow> eachHash f hashes w')"

definition addTags :: "'w rpc \<Rightarrow> string list \<Rightarrow> string \<Rightarrow> 'w \<Rightarrow> 'w outcome" where
  "addTags rp hashes tags w =
     (case labelMap rp hashes w of
        None \<Rightarrow> (w, Some RpcFailed)
      | Some current \<Rightarrow> eachHash (\<lambda>hash. setLabels rp [hash] (labelsIn current hash @ splitCSV tags)) hashes w)"

definition setTags :: "'w rpc \<Rightarrow> string list \<Rightarrow> string \<Rightarrow> 'w \<Rightarrow> 'w outcome" where
  "setTags rp hashes tags = setLabels rp hashes (splitCSV tags)"

definition removeTags :: "'w rpc \<Rightarrow> string list \<Rightarrow> string \<Rightarrow> 'w \<Rightarrow> 'w outcome" where
  "removeTags rp hashes tags w =
     (case labelMap rp hashes w of
        None \<Rightarrow> (w, Some RpcFailed)
      | Some current \<Rightarrow>
          eachHash (\<lambda>hash. setLabels rp [hash] (filter (\<lambda>l. l \<notin> set (splitCSV tags)) (labelsIn current hash))) hashes w)"

definition deleteTags :: "'w rpc \<Rightarrow> string list \<Rightarrow> 'w \<Rightarrow> 'w outcome" where
  "deleteTags rp tags w =
     (case allTorrents rp w of
        None \<Rightarrow> (w, Some RpcFailed)
      | Some ts \<Rightarrow> removeTags rp (map t_Hash ts) (join_with '','' tags) w)"

definition getTags :: "'w rpc \<Rightarrow> 'w \<Rightarrow> string list option" where
  "getTags rp w = map_option (\<lambda>ts. sort (remdups (concat (map (splitCSV \<circ> t_Tags) ts)))) (allTorrents rp w)"

section \<open>Categories\<close>

record category_info =
  cti_Name :: string
  cti_SavePath :: string

definition noteCategory :: "client_torrent \<Rightarrow> (string, category_info) gomap \<Rightarrow> (string, category_info) gomap" where
  "noteCategory t m =
     (if t_Category t \<noteq> [] then gm_put (t_Category t) \<lparr>cti_Name = t_Category t, cti_SavePath = t_SavePath t\<rparr> m else m)"

definition getCategories :: "'w rpc \<Rightarrow> 'w \<Rightarrow> (string, category_info) gomap option" where
  "getCategories rp w =
     map_option (\<lambda>ts. fold noteCategory ts []) (allTorrents rp w)"

definition removeCategories :: "'w rpc \<Rightarrow> string list \<Rightarrow> 'w \<Rightarrow> 'w outcome" where
  "removeCategories rp categories w =
     (case allTorrents rp w of
        None \<Rightarrow> (w, Some RpcFailed)
      | Some ts \<Rightarrow>
          let hashes = map t_Hash (filter (\<lambda>t. t_Category t \<in> set categories) ts) in
          if hashes = [] then (w, None) else setCategory rp hashes [] w)"

section \<open>Trackers, names and files\<close>

definition trackerURLs :: "tr_torrent \<Rightarrow> string list" where
  "trackerURLs tr =
     (if trim_space (tr_TrackerList tr) \<noteq> [] then str_fields (tr_TrackerList tr) else filter (\<lambda>u. u \<noteq> []) (tr_Trackers tr))"

definition withTorrent :: "'w rpc \<Rightarrow> string \<Rightarrow> (tr_torrent \<Rightarrow> 'w \<Rightarrow> 'w outcome) \<Rightarrow> 'w \<Rightarrow> 'w outcome" where
  "withTorrent rp hash f w =
     (case rp_torrents rp [hash] w of
        None \<Rightarrow> (w, Some RpcFailed)
      | Some [] \<Rightarrow> (w, Some ErrTorrentNotFound)
      | Some (tr # _) \<Rightarrow> f tr w)"

definition updateTrackerList :: "'w rpc \<Rightarrow> string \<Rightarrow> (string list \<Rightarrow> string list) \<Rightarrow> 'w \<Rightarrow> 'w outcome" where
  "updateTrackerList rp hash upd =
     withTorrent rp hash (\<lambda>tr. rpcCall rp ''torrent_set''
       [(''ids'', JStrs [hash]), (''tracker_list'', JStr (join_with [CHR 0x0A] (upd (trackerURLs tr))))])"

definition removeTrackers :: "'w rpc \<Rightarrow> string \<Rightarrow> string \<Rightarrow> 'w \<Rightarrow> 'w outcome" where
  "removeTrackers rp hash urls = updateTrackerList rp hash (filter (\<lambda>u. u \<notin> set (str_fields urls)))"

definition editTracker :: "'w rpc \<Rightarrow> string \<Rightarrow> string \<Rightarrow> string \<Rightarrow> 'w \<Rightarrow> 'w outcome" where
  "editTracker rp hash old new' = updateTrackerList rp hash (map (\<lambda>u. if u = old then new' else u))"

definition addTrackers :: "'w rpc \<Rightarrow> string \<Rightarrow> string \<Rightarrow> 'w \<Rightarrow> 'w outcome" where
  "addTrackers rp hash urls =
     updateTrackerList rp hash (\<lambda>existing.
       case removeDuplicateStrings (existing @ map trim_space (filter (\<lambda>u. trim_space u \<noteq> []) (str_fields urls))) of
         None \<Rightarrow> [] | Some us \<Rightarrow> us)"

definition setTorrentName :: "'w rpc \<Rightarrow> string \<Rightarrow> string \<Rightarrow> 'w \<Rightarrow> 'w outcome" where
  "setTorrentName rp hash name =
     withTorrent rp hash (\<lambda>tr. rpcCall rp ''torrent_rename_path''
       [(''ids'', JStrs [hash]), (''path'', JStr (tr_Name tr)), (''name'', JStr name)])"

definition getFilesInformation :: "'w rpc \<Rightarrow> string \<Rightarrow> 'w \<Rightarrow> client_error + torrent_file list" where
  "getFilesInformation rp hash w =
     (case rp_torrents rp [hash] w of
        None \<Rightarrow> Inl RpcFailed
      | Some [] \<Rightarrow> Inl ErrTorrentNotFound
      | Some (tr # _) \<Rightarrow> Inr (transmissionFilesToQBT tr))"

fun toggleEach :: "'w rpc \<Rightarrow> tr_torrent list \<Rightarrow> 'w \<Rightarrow> 'w outcome" where
  "toggleEach rp [] w = (w, None)"
| "toggleEach rp (tr # trs) w =
     (case rpcCall rp ''torrent_set''
         [(''ids'', JStrs [tr_HashString tr]), (''sequential_download'', JBool (\<not> tr_SequentialDownload tr))] w of
        (w', Some e) \<Rightarrow> (w', Some e)
      | (w', None) \<Rightarrow> toggleEach rp trs w')"

definition toggleTorrentSequentialDownload :: "'w rpc \<Rightarrow> string list \<Rightarrow> 'w \<Rightarrow> 'w outcome" where
  "toggleTorrentSequentialDownload rp hashes w =
     (case rp_torrents rp hashes w of None \<Rightarrow> (w, Some RpcFailed) | Some trs \<Rightarrow> toggleEach rp trs w)"

definition limitMap :: "(tr_torrent \<Rightarrow> int) \<Rightarrow> (tr_torrent \<Rightarrow> bool) \<Rightarrow> 'w rpc \<Rightarrow> string list \<Rightarrow> 'w \<Rightarrow> (string, int) gomap option" where
  "limitMap limit limited rp hashes w =
     map_option (\<lambda>trs. fold (\<lambda>t m. gm_put (to_upper (tr_HashString t)) (kbToBytes (limit t) (limited t)) m) trs []) (rp_torrents rp hashes w)"

definition getTorrentUploadLimit :: "'w rpc \<Rightarrow> string list \<Rightarrow> 'w \<Rightarrow> (string, int) gomap option" where
  "getTorrentUploadLimit = limitMap tr_UploadLimit tr_UploadLimited"

definition getTorrentDownloadLimit :: "'w rpc \<Rightarrow> string list \<Rightarrow> 'w \<Rightarrow> (string, int) gomap option" where
  "getTorrentDownloadLimit = limitMap tr_DownloadLimit tr_DownloadLimited"

section \<open>A full update\<close>

record main_data =
  md_Torrents :: "(string, client_torrent) gomap"
  md_Categories :: "(string, category_info) gomap"
  md_Tags :: "string list"
  md_Trackers :: "(string, string list) gomap"

definition addToMainData :: "client_torrent \<Rightarrow> main_data \<Rightarrow> main_data" where
  "addToMainData t d =
     \<lparr>md_Torrents = gm_put (t_Hash t) t (md_Torrents d),
      md_Categories = noteCategory t (md_Categories d),
      md_Tags = fold gs_add (splitCSV (t_Tags t)) (md_Tags d),
      md_Trackers = (if t_Tracker t \<noteq> [] then gm_append (t_Tracker t) (t_Hash t) (md_Trackers d) else md_Trackers d)\<rparr>"

text \<open>The state of the server and the number of the response are left out.\<close>

definition syncMainData :: "'w rpc \<Rightarrow> 'w \<Rightarrow> main_data option" where
  "syncMainData rp w =
     map_option (\<lambda>ts. let d = fold addToMainData ts \<lparr>md_Torrents = [], md_Categories = [], md_Tags = [], md_Trackers = []\<rparr> in
       d\<lparr>md_Tags := sort (md_Tags d)\<rparr>) (allTorrents rp w)"

section \<open>Splitting and joining of tags\<close>

definition tag_separator :: "char \<Rightarrow> bool" where
  "tag_separator c \<longleftrightarrow> c = CHR '','' \<or> c = CHR ''|''"

definition clean_tag :: "string \<Rightarrow> bool" where
  "clean_tag t \<longleftrightarrow> t \<noteq> [] \<and> trim_space t = t \<and> list_all (\<lambda>c. \<not> tag_separator c) t"

lemma splitCSV_alt: "splitCSV v = filter (\<lambda>s. s \<noteq> []) (map trim_space (fields_by_sep tag_separator [] v))" if "trim_space v \<noteq> []"
  using that by (simp add: splitCSV_def tag_separator_def [abs_def])

lemma fields_by_sep_plain: "list_all (\<lambda>c. \<not> sep c) u \<Longrightarrow> u \<noteq> [] \<or> acc \<noteq> [] \<Longrightarrow> fields_by_sep sep acc u = [rev acc @ u]"
  by (induction u arbitrary: acc) auto

lemma fields_by_sep_cut:
  "list_all (\<lambda>c. \<not> sep c) u \<Longrightarrow> sep c \<Longrightarrow> u \<noteq> [] \<or> acc \<noteq> [] \<Longrightarrow>
    fields_by_sep sep acc (u @ c # rest) = (rev acc @ u) # fields_by_sep sep [] rest"
  by (induction u arbitrary: acc) auto

lemma fields_by_sep_join:
  assumes "list_all (\<lambda>t. t \<noteq> [] \<and> list_all (\<lambda>c. \<not> sep c) t) (t # ts)" and "sep c" and "list_all (\<lambda>c. \<not> sep c) pad"
    and "list_all (\<lambda>c. \<not> sep c) pre"
  shows "fields_by_sep sep [] (pre @ join_with (c # pad) (t # ts)) = (pre @ t) # map (\<lambda>t. pad @ t) ts"
  using assms
proof (induction ts arbitrary: t pre)
  case Nil
  then show ?case
    using fields_by_sep_plain [of sep "pre @ t" "[]"] by simp
next
  case (Cons v ts)
  have "fields_by_sep sep [] ((pre @ t) @ c # (pad @ join_with (c # pad) (v # ts))) =
      (pre @ t) # fields_by_sep sep [] (pad @ join_with (c # pad) (v # ts))"
    using Cons.prems fields_by_sep_cut [of sep "pre @ t" c "[]"] by simp
  with Cons.IH [of v pad] Cons.prems show ?case
    by simp
qed

lemma trim_left_spaces: "list_all is_space pad \<Longrightarrow> trim_left (pad @ t) = trim_left t"
  by (induction pad) (simp_all add: trim_left_def)

lemma trim_space_pad: "list_all is_space pad \<Longrightarrow> trim_space (pad @ t) = trim_space t"
  by (simp add: trim_space_def trim_left_spaces)

lemma trim_space_Nil_iff: "trim_space s = [] \<longleftrightarrow> list_all is_space s"
proof -
  have "trim_left s = [] \<longleftrightarrow> list_all is_space s" for s
    by (simp add: trim_left_def dropWhile_eq_Nil_conv list_all_iff)
  then have "trim_space s = [] \<longleftrightarrow> list_all is_space (trim_left s)" and nil: "trim_left s = [] \<longleftrightarrow> list_all is_space s"
    by (simp_all add: trim_space_def)
  moreover have "list_all is_space (trim_left s) \<longleftrightarrow> trim_left s = []"
    using hd_trim_left [of s] by (cases "trim_left s") auto
  ultimately show ?thesis
    by simp
qed

lemma trim_space_join_nonempty: "clean_tag t \<Longrightarrow> trim_space (t @ rest) \<noteq> []"
  using trim_space_Nil_iff [of t] by (auto simp: clean_tag_def trim_space_Nil_iff)

lemma space_no_separator: "is_space c \<Longrightarrow> \<not> tag_separator c"
  by (auto simp: tag_separator_def is_space_def)

lemma splitCSV_join:
  assumes "list_all clean_tag ts" and "list_all is_space pad"
  shows "splitCSV (join_with (CHR '','' # pad) ts) = ts"
proof (cases ts)
  case Nil
  then show ?thesis
    by (simp add: splitCSV_def)
next
  case (Cons t us)
  have pad: "list_all (\<lambda>c. \<not> tag_separator c) pad"
    using assms(2) space_no_separator by (simp add: list_all_iff)
  have "trim_space (join_with (CHR '','' # pad) ts) \<noteq> []"
    using assms(1) trim_space_join_nonempty [of t] by (cases us) (simp_all add: Cons clean_tag_def)
  moreover have "fields_by_sep tag_separator [] (join_with (CHR '','' # pad) ts) = t # map (\<lambda>t. pad @ t) us"
    using fields_by_sep_join [of tag_separator t us "CHR '',''" pad "[]"] assms(1) pad
    by (auto simp: Cons clean_tag_def tag_separator_def list_all_iff)
  ultimately have "splitCSV (join_with (CHR '','' # pad) ts) = filter (\<lambda>s. s \<noteq> []) (trim_space t # map trim_space us)"
    using assms(2) by (simp add: splitCSV_alt trim_space_pad comp_def)
  also have "\<dots> = ts"
    using assms(1) by (auto simp: Cons clean_tag_def list_all_iff intro!: map_idI filter_True)
  finally show ?thesis .
qed

lemma fields_by_sep_no_sep:
  "u \<in> set (fields_by_sep sep acc s) \<Longrightarrow> \<forall>c \<in> set acc. \<not> sep c \<Longrightarrow> c \<in> set u \<Longrightarrow> \<not> sep c"
proof (induction s arbitrary: acc)
  case Nil
  then show ?case
    by (simp split: if_splits)
next
  case (Cons d s)
  show ?case
  proof (cases "sep d \<and> u \<notin> set (fields_by_sep sep [] s)")
    case True
    then show ?thesis
      using Cons.prems by (simp split: if_splits)
  next
    case False
    then show ?thesis
      using Cons.IH [of "[]"] Cons.IH [of "d # acc"] Cons.prems by (simp split: if_splits)
  qed
qed

lemma set_trim_space: "set (trim_space s) \<subseteq> set s"
  by (auto simp: trim_space_def trim_left_def dest!: set_dropWhileD)

lemma splitCSV_clean: "list_all clean_tag (splitCSV v)"
proof -
  have "clean_tag t" if t: "t \<in> set (splitCSV v)" for t
  proof -
    have v: "trim_space v \<noteq> []"
      using t by (auto simp: splitCSV_def split: if_splits)
    obtain u where u: "u \<in> set (fields_by_sep tag_separator [] v)" "t = trim_space u" "t \<noteq> []"
      using t by (auto simp: splitCSV_alt [OF v])
    have "\<not> tag_separator c" if "c \<in> set t" for c
      using fields_by_sep_no_sep [OF u(1)] set_trim_space [of u] that u(2) by auto
    then show ?thesis
      using u by (simp add: clean_tag_def list_all_iff)
  qed
  then show ?thesis
    by (simp add: list_all_iff)
qed

section \<open>Tags as sets\<close>

text \<open>
  What the operations on tags rely on: \<open>torrent_get\<close> lists the torrents with the hashes it is asked for, whatever
  their case, and \<open>torrent_set\<close> with a list of labels replaces the labels of the torrents it names. Without a label to
  send the client sends a null; \<open>nulled\<close> is what Transmission makes of it, once or repeatedly: \<open>\<lambda>ls. []\<close> if it clears
  the labels, \<open>\<lambda>ls. ls\<close> if it ignores the null. \<open>view\<close> gives the labels of a torrent by its hash in capital letters.
\<close>

definition listing :: "(string \<Rightarrow> string list option) \<Rightarrow> string list \<Rightarrow> tr_torrent list \<Rightarrow> bool" where
  "listing labels hashes trs \<longleftrightarrow>
     (\<forall>tr \<in> set trs. trim_space (tr_HashString tr) = tr_HashString tr \<and> labels (to_upper (tr_HashString tr)) = Some (tr_Labels tr)) \<and>
     (\<forall>h ls. labels h = Some ls \<and> (hashes = [] \<or> h \<in> to_upper ` set hashes) \<longrightarrow> (\<exists>tr \<in> set trs. to_upper (tr_HashString tr) = h))"

definition relabel :: "string set \<Rightarrow> (string list \<Rightarrow> string list) \<Rightarrow> (string \<Rightarrow> string list option) \<Rightarrow> string \<Rightarrow> string list option" where
  "relabel hs f v = (\<lambda>h. if h \<in> hs then map_option f (v h) else v h)"

definition keeps_labels :: "'w rpc \<Rightarrow> ('w \<Rightarrow> string \<Rightarrow> string list option) \<Rightarrow> (string list \<Rightarrow> string list) \<Rightarrow> bool" where
  "keeps_labels rp view nulled \<longleftrightarrow>
     (\<forall>w hashes. \<exists>trs. rp_torrents rp hashes w = Some trs \<and> listing (view w) hashes trs) \<and>
     (\<forall>w hashes ls. hashes \<noteq> [] \<and> ls \<noteq> [] \<longrightarrow>
        (\<exists>w'. rp_call rp ''torrent_set'' [(''ids'', JStrs hashes), (''labels'', JStrs ls)] w = (w', False) \<and>
           view w' = relabel (to_upper ` set hashes) (\<lambda>_. ls) (view w))) \<and>
     (\<forall>w hashes. hashes \<noteq> [] \<longrightarrow>
        (\<exists>w'. rp_call rp ''torrent_set'' [(''ids'', JStrs hashes), (''labels'', JNull)] w = (w', False) \<and>
           view w' = relabel (to_upper ` set hashes) nulled (view w))) \<and>
     (\<forall>ls. nulled (nulled ls) = nulled ls)"

text \<open>The labels after the client was to put \<open>new\<close> in the place of \<open>old\<close>.\<close>

definition put_labels :: "(string list \<Rightarrow> string list) \<Rightarrow> string list \<Rightarrow> string list \<Rightarrow> string list" where
  "put_labels nulled old new = (case removeDuplicateStrings new of None \<Rightarrow> nulled old | Some ls \<Rightarrow> ls)"

lemma put_labels_nonempty: "new \<noteq> [] \<Longrightarrow> put_labels nulled old new = rev (remdups (rev new))"
  by (simp add: put_labels_def removeDuplicateStrings_def)

lemma put_labels_empty: "put_labels nulled old [] = nulled old"
  by (simp add: put_labels_def removeDuplicateStrings_def)

lemma setLabels_keeps:
  assumes "keeps_labels rp view nulled" and "hashes \<noteq> []"
  shows "\<exists>w'. setLabels rp hashes ls w = (w', None) \<and>
    view w' = relabel (to_upper ` set hashes) (\<lambda>old. put_labels nulled old ls) (view w)"
proof (cases "removeDuplicateStrings ls")
  case None
  then have "setLabels rp hashes ls w = rpcCall rp ''torrent_set'' [(''ids'', JStrs hashes), (''labels'', JNull)] w"
    by (simp add: setLabels_def slice_json_def)
  moreover obtain w' where "rp_call rp ''torrent_set'' [(''ids'', JStrs hashes), (''labels'', JNull)] w = (w', False)"
    "view w' = relabel (to_upper ` set hashes) nulled (view w)"
    using assms unfolding keeps_labels_def by metis
  ultimately show ?thesis
    using None by (simp add: rpcCall_def put_labels_def)
next
  case (Some us)
  then have "us \<noteq> []"
    by (auto simp: removeDuplicateStrings_def split: if_splits)
  have "setLabels rp hashes ls w = rpcCall rp ''torrent_set'' [(''ids'', JStrs hashes), (''labels'', JStrs us)] w"
    using Some by (simp add: setLabels_def slice_json_def)
  moreover obtain w' where "rp_call rp ''torrent_set'' [(''ids'', JStrs hashes), (''labels'', JStrs us)] w = (w', False)"
    "view w' = relabel (to_upper ` set hashes) (\<lambda>_. us) (view w)"
    using assms \<open>us \<noteq> []\<close> unfolding keeps_labels_def by metis
  ultimately show ?thesis
    using Some by (simp add: rpcCall_def put_labels_def)
qed

lemma get_fold_put_key:
  "gm_get (fold (\<lambda>t m. gm_put (key t) (val t) m) ts m0) k =
     (case filter (\<lambda>t. key t = k) (rev ts) of [] \<Rightarrow> gm_get m0 k | t # _ \<Rightarrow> Some (val t))"
  by (induction ts arbitrary: m0 rule: rev_induct) (auto split: list.splits)

lemma labelMap_keeps:
  assumes "keeps_labels rp view nulled"
  shows "\<exists>current. labelMap rp hashes w = Some current \<and>
    (\<forall>h. h \<in> to_upper ` set hashes \<and> view w h \<noteq> None \<longrightarrow> gm_get current h = view w h)"
proof -
  obtain trs where trs1: "rp_torrents rp hashes w = Some trs" and l: "listing (view w) hashes trs"
    using assms unfolding keeps_labels_def by blast
  have trs: "rp_torrents rp hashes w = Some trs"
    "\<And>tr. tr \<in> set trs \<Longrightarrow> view w (to_upper (tr_HashString tr)) = Some (tr_Labels tr)"
    "\<And>h ls. view w h = Some ls \<Longrightarrow> h \<in> to_upper ` set hashes \<Longrightarrow> \<exists>tr \<in> set trs. to_upper (tr_HashString tr) = h"
    using trs1 l unfolding listing_def by blast+
  let ?m = "fold (\<lambda>t m. gm_put (to_upper (tr_HashString t)) (tr_Labels t) m) trs []"
  have "gm_get ?m h = view w h" if h: "h \<in> to_upper ` set hashes" "view w h \<noteq> None" for h
  proof (cases "filter (\<lambda>t. to_upper (tr_HashString t) = h) (rev trs)")
    case Nil
    then show ?thesis
      using trs(3) [of h] h by (auto simp: filter_empty_conv)
  next
    case (Cons t ts)
    have "t \<in> set (filter (\<lambda>t. to_upper (tr_HashString t) = h) (rev trs))"
      by (simp add: Cons)
    then have "t \<in> set trs" and "to_upper (tr_HashString t) = h"
      by simp_all
    then show ?thesis
      using trs(2) [of t] Cons by (auto simp: get_fold_put_key)
  qed
  then show ?thesis
    using trs(1) by (auto simp: labelMap_def)
qed

lemma eachHash_keeps:
  assumes "keeps_labels rp view nulled"
  shows "\<exists>w'. eachHash (\<lambda>hash. setLabels rp [hash] (L (to_upper hash))) hashes w = (w', None) \<and>
    view w' = (\<lambda>h. if h \<in> to_upper ` set hashes then map_option (\<lambda>ls. put_labels nulled ls (L h)) (view w h) else view w h)"
proof (induction hashes arbitrary: w)
  case (Cons hash hashes)
  obtain w1 where w1: "setLabels rp [hash] (L (to_upper hash)) w = (w1, None)"
    "view w1 = relabel {to_upper hash} (\<lambda>ls. put_labels nulled ls (L (to_upper hash))) (view w)"
    using setLabels_keeps [OF assms, of "[hash]" "L (to_upper hash)" w] by auto
  obtain w2 where w2: "eachHash (\<lambda>hash. setLabels rp [hash] (L (to_upper hash))) hashes w1 = (w2, None)"
    "view w2 = (\<lambda>h. if h \<in> to_upper ` set hashes then map_option (\<lambda>ls. put_labels nulled ls (L h)) (view w1 h) else view w1 h)"
    using Cons.IH by blast
  have "nulled (nulled ls) = nulled ls" for ls
    using assms by (simp add: keeps_labels_def)
  then have twice: "put_labels nulled (put_labels nulled ls new) new = put_labels nulled ls new" for ls new
    by (simp add: put_labels_def split: option.split)
  show ?case
    using w1 w2 by (auto simp: relabel_def option.map_comp comp_def twice)
qed simp

text \<open>The two operations that read the labels before they write them.\<close>

lemma eachHash_relabel:
  assumes "keeps_labels rp view nulled"
  shows "\<exists>current w'. labelMap rp hashes w = Some current \<and>
    eachHash (\<lambda>hash. setLabels rp [hash] (f (labelsIn current hash))) hashes w = (w', None) \<and>
    view w' = relabel (to_upper ` set hashes) (\<lambda>ls. put_labels nulled ls (f ls)) (view w)"
proof -
  obtain current where current: "labelMap rp hashes w = Some current"
    "\<And>h. h \<in> to_upper ` set hashes \<Longrightarrow> view w h \<noteq> None \<Longrightarrow> gm_get current h = view w h"
    using labelMap_keeps [OF assms] by metis
  obtain w' where w': "eachHash (\<lambda>hash. setLabels rp [hash] (f (labelsIn current hash))) hashes w = (w', None)"
    "view w' = (\<lambda>h. if h \<in> to_upper ` set hashes then map_option (\<lambda>ls. put_labels nulled ls (f (labelsIn current h))) (view w h) else view w h)"
    using eachHash_keeps [OF assms, of "\<lambda>h. f (labelsIn current h)" hashes w] by (auto simp: labelsIn_def)
  moreover have "map_option (\<lambda>ls. put_labels nulled ls (f (labelsIn current h))) (view w h) =
      map_option (\<lambda>ls. put_labels nulled ls (f ls)) (view w h)" if "h \<in> to_upper ` set hashes" for h
    using current(2) [OF that] that by (cases "view w h") (auto simp: labelsIn_def)
  ultimately show ?thesis
    using current(1) by (auto simp: relabel_def)
qed

lemma allTorrents_keeps:
  assumes "keeps_labels rp view nulled"
  obtains trs where "rp_torrents rp [] w = Some trs"
    and "\<And>tr. tr \<in> set trs \<Longrightarrow> t_Hash (toQBT tr) = to_upper (tr_HashString tr) \<and> view w (to_upper (tr_HashString tr)) = Some (tr_Labels tr)"
    and "\<And>h ls. view w h = Some ls \<Longrightarrow> \<exists>tr \<in> set trs. to_upper (tr_HashString tr) = h \<and> tr_Labels tr = ls"
proof -
  obtain trs where trs1: "rp_torrents rp [] w = Some trs" and l: "listing (view w) [] trs"
    using assms unfolding keeps_labels_def by blast
  have trs: "rp_torrents rp [] w = Some trs"
    "\<And>tr. tr \<in> set trs \<Longrightarrow> trim_space (tr_HashString tr) = tr_HashString tr \<and> view w (to_upper (tr_HashString tr)) = Some (tr_Labels tr)"
    "\<And>h ls. view w h = Some ls \<Longrightarrow> \<exists>tr \<in> set trs. to_upper (tr_HashString tr) = h"
    using trs1 l unfolding listing_def by blast+
  show thesis
  proof (rule that [OF trs(1)])
    show "t_Hash (toQBT tr) = to_upper (tr_HashString tr) \<and> view w (to_upper (tr_HashString tr)) = Some (tr_Labels tr)"
      if "tr \<in> set trs" for tr
      using trs(2) [OF that] by (simp add: toQBT_def Let_def)
    show "\<exists>tr \<in> set trs. to_upper (tr_HashString tr) = h \<and> tr_Labels tr = ls" if "view w h = Some ls" for h ls
      using trs(2,3) that by (metis option.inject)
  qed
qed

lemma set_getTags:
  assumes "keeps_labels rp view nulled" and "\<And>h ls. view w h = Some ls \<Longrightarrow> list_all clean_tag ls"
  shows "\<exists>ts. getTags rp w = Some ts \<and> sorted ts \<and> distinct ts \<and> set ts = {t. \<exists>h ls. view w h = Some ls \<and> t \<in> set ls}"
proof -
  obtain trs where trs: "rp_torrents rp [] w = Some trs"
    "\<And>tr. tr \<in> set trs \<Longrightarrow> t_Hash (toQBT tr) = to_upper (tr_HashString tr) \<and> view w (to_upper (tr_HashString tr)) = Some (tr_Labels tr)"
    "\<And>h ls. view w h = Some ls \<Longrightarrow> \<exists>tr \<in> set trs. to_upper (tr_HashString tr) = h \<and> tr_Labels tr = ls"
    using allTorrents_keeps [OF assms(1)] by blast
  have "splitCSV (t_Tags (toQBT tr)) = tr_Labels tr" if "tr \<in> set trs" for tr
  proof -
    have "list_all clean_tag (tr_Labels tr)"
      using assms(2) trs(2) [OF that] by blast
    then show ?thesis
      using splitCSV_join [of "tr_Labels tr" "'' ''"] by (simp add: toQBT_def Let_def is_space_def)
  qed
  then have "set (concat (map (splitCSV \<circ> t_Tags) (map toQBT trs))) = (\<Union>tr \<in> set trs. set (tr_Labels tr))"
    by simp
  also have "\<dots> = {t. \<exists>h ls. view w h = Some ls \<and> t \<in> set ls}"
    using trs(2,3) by blast
  finally show ?thesis
    using trs(1) by (simp add: getTags_def allTorrents_def)
qed

lemma deleteTags_relabel:
  assumes "keeps_labels rp view nulled" and "list_all clean_tag tags"
  shows "\<exists>w'. deleteTags rp tags w = (w', None) \<and>
    view w' = (\<lambda>h. map_option (\<lambda>ls. put_labels nulled ls (filter (\<lambda>l. l \<notin> set tags) ls)) (view w h))"
proof -
  obtain trs where trs: "rp_torrents rp [] w = Some trs"
    "\<And>tr. tr \<in> set trs \<Longrightarrow> t_Hash (toQBT tr) = to_upper (tr_HashString tr) \<and> view w (to_upper (tr_HashString tr)) = Some (tr_Labels tr)"
    "\<And>h ls. view w h = Some ls \<Longrightarrow> \<exists>tr \<in> set trs. to_upper (tr_HashString tr) = h \<and> tr_Labels tr = ls"
    using allTorrents_keeps [OF assms(1)] by blast
  let ?hs = "map t_Hash (map toQBT trs)"
  have "splitCSV (join_with '','' tags) = tags"
    using splitCSV_join [OF assms(2), of "[]"] by simp
  then obtain w' where w': "removeTags rp ?hs (join_with '','' tags) w = (w', None)"
    "view w' = relabel (to_upper ` set ?hs) (\<lambda>ls. put_labels nulled ls (filter (\<lambda>l. l \<notin> set tags) ls)) (view w)"
    using eachHash_relabel [OF assms(1), of ?hs w "filter (\<lambda>l. l \<notin> set tags)"] by (auto simp: removeTags_def)
  moreover have "view w h = None" if "h \<notin> to_upper ` set ?hs" for h
  proof (rule ccontr)
    assume "view w h \<noteq> None"
    then obtain tr where "tr \<in> set trs" "to_upper (tr_HashString tr) = h"
      using trs(3) by blast
    then have "h = to_upper (t_Hash (toQBT tr))"
      using trs(2) by (metis to_upper_idem)
    with that \<open>tr \<in> set trs\<close> show False
      by simp
  qed
  ultimately show ?thesis
    using trs(1) by (auto simp: deleteTags_def allTorrents_def relabel_def)
qed

text \<open>
  C14. Tags. On a Transmission that keeps the lists of labels it is given, the operations on tags do what their names
  say, although each of them reads and writes the list of a torrent's labels as a whole: adding and
  removing, and setting when a torrent is named, change the torrents named, whatever the case of the hashes, and no
  other, and deleting takes the tags from every torrent. The new labels are the computed ones, the first of equal ones
  kept, provided there is one; when none is left, the client sends a null, and the torrent has what the
  Transmission makes of its old labels then (\<open>put_labels\<close>, \<open>put_labels_nonempty\<close>, \<open>put_labels_empty\<close>). The list of tags is sorted
  and holds exactly the tags some torrent has. Tags are what \<open>splitCSV\<close> returns: trimmed, not empty, without a comma or a bar.
\<close>

theorem tags_refine:
  assumes "keeps_labels rp view nulled"
  shows "(\<exists>w'. addTags rp hashes tags w = (w', None) \<and>
      view w' = relabel (to_upper ` set hashes) (\<lambda>ls. put_labels nulled ls (ls @ splitCSV tags)) (view w)) \<and>
    (hashes \<noteq> [] \<longrightarrow> (\<exists>w'. setTags rp hashes tags w = (w', None) \<and>
      view w' = relabel (to_upper ` set hashes) (\<lambda>ls. put_labels nulled ls (splitCSV tags)) (view w))) \<and>
    (\<exists>w'. removeTags rp hashes tags w = (w', None) \<and>
      view w' = relabel (to_upper ` set hashes) (\<lambda>ls. put_labels nulled ls (filter (\<lambda>l. l \<notin> set (splitCSV tags)) ls)) (view w)) \<and>
    (\<exists>w'. deleteTags rp (splitCSV tags) w = (w', None) \<and>
      view w' = (\<lambda>h. map_option (\<lambda>ls. put_labels nulled ls (filter (\<lambda>l. l \<notin> set (splitCSV tags)) ls)) (view w h))) \<and>
    ((\<forall>h ls. view w h = Some ls \<longrightarrow> list_all clean_tag ls) \<longrightarrow>
      (\<exists>ts. getTags rp w = Some ts \<and> sorted ts \<and> distinct ts \<and> set ts = {t. \<exists>h ls. view w h = Some ls \<and> t \<in> set ls}))"
proof (intro conjI impI)
  show "\<exists>w'. addTags rp hashes tags w = (w', None) \<and>
      view w' = relabel (to_upper ` set hashes) (\<lambda>ls. put_labels nulled ls (ls @ splitCSV tags)) (view w)"
    using eachHash_relabel [OF assms, of hashes w "\<lambda>ls. ls @ splitCSV tags"] by (auto simp: addTags_def)
  show "\<exists>w'. setTags rp hashes tags w = (w', None) \<and>
      view w' = relabel (to_upper ` set hashes) (\<lambda>ls. put_labels nulled ls (splitCSV tags)) (view w)" if "hashes \<noteq> []"
    unfolding setTags_def by (rule setLabels_keeps [OF assms that])
  show "\<exists>w'. removeTags rp hashes tags w = (w', None) \<and>
      view w' = relabel (to_upper ` set hashes) (\<lambda>ls. put_labels nulled ls (filter (\<lambda>l. l \<notin> set (splitCSV tags)) ls)) (view w)"
    using eachHash_relabel [OF assms, of hashes w "filter (\<lambda>l. l \<notin> set (splitCSV tags))"] by (auto simp: removeTags_def)
  show "\<exists>w'. deleteTags rp (splitCSV tags) w = (w', None) \<and>
      view w' = (\<lambda>h. map_option (\<lambda>ls. put_labels nulled ls (filter (\<lambda>l. l \<notin> set (splitCSV tags)) ls)) (view w h))"
    by (rule deleteTags_relabel [OF assms splitCSV_clean])
  show "\<exists>ts. getTags rp w = Some ts \<and> sorted ts \<and> distinct ts \<and> set ts = {t. \<exists>h ls. view w h = Some ls \<and> t \<in> set ls}"
    if "\<forall>h ls. view w h = Some ls \<longrightarrow> list_all clean_tag ls"
    using set_getTags [OF assms] that by blast
qed

definition plain_torrent :: "string \<Rightarrow> string list \<Rightarrow> tr_torrent" where
  "plain_torrent hash labels =
    \<lparr>tr_ActivityDate = 0, tr_AddedDate = 0, tr_Availability = [], tr_Comment = [], tr_Creator = [], tr_DoneDate = 0, tr_DownloadDir = [],
     tr_DownloadedEver = 0, tr_DownloadLimit = 0, tr_DownloadLimited = False, tr_Error = 0, tr_Eta = 0, tr_Files = [], tr_FileStats = [],
     tr_Group = [], tr_HashString = hash, tr_IsFinished = False, tr_IsPrivate = False, tr_IsStalled = False, tr_Labels = labels,
     tr_LeftUntilDone = 0, tr_MagnetLink = [], tr_Name = [], tr_PeersGettingFromUs = 0, tr_PeersSendingToUs = 0,
     tr_PercentComplete = Fl 0, tr_PercentDone = Fl 0, tr_PieceCount = 0, tr_QueuePosition = 0, tr_RateDownload = 0, tr_RateUpload = 0,
     tr_SecondsDownloading = 0, tr_SecondsSeeding = 0, tr_SeedIdleLimit = 0, tr_SeedRatioLimit = Fl 0, tr_SequentialDownload = False,
     tr_SizeWhenDone = 0, tr_Status = 0, tr_TotalSize = 0, tr_Trackers = [], tr_TrackerList = [], tr_TrackerStats = [],
     tr_UploadedEver = 0, tr_UploadLimit = 0, tr_UploadLimited = False, tr_UploadRatio = Fl 0\<rparr>"

text \<open>A Transmission with one torrent, whose state is the labels of it, and which does \<open>nulled\<close> when it is sent a null.\<close>

definition one_torrent_rpc :: "(string list \<Rightarrow> string list) \<Rightarrow> string list rpc" where
  "one_torrent_rpc nulled =
    \<lparr>rp_torrents = \<lambda>hashes labels. Some (if hashes = [] \<or> ''AA'' \<in> to_upper ` set hashes then [plain_torrent ''AA'' labels] else []),
     rp_call = \<lambda>m params labels.
       (case params of
          [(_, JStrs hashes), (_, JStrs ls)] \<Rightarrow> (if ''AA'' \<in> to_upper ` set hashes then ls else labels, False)
        | [(_, JStrs hashes), (_, JNull)] \<Rightarrow> (if ''AA'' \<in> to_upper ` set hashes then nulled labels else labels, False)
        | _ \<Rightarrow> (labels, True))\<rparr>"

definition one_torrent_view :: "string list \<Rightarrow> string \<Rightarrow> string list option" where
  "one_torrent_view labels h = (if h = ''AA'' then Some labels else None)"

lemma one_torrent_keeps_labels:
  assumes "\<And>ls. nulled (nulled ls) = nulled ls"
  shows "keeps_labels (one_torrent_rpc nulled) one_torrent_view nulled"
proof -
  have "to_upper ''AA'' = ''AA''" and "trim_space ''AA'' = ''AA''"
    by code_simp+
  then show ?thesis
    by (auto simp: keeps_labels_def listing_def relabel_def one_torrent_rpc_def one_torrent_view_def plain_torrent_def fun_eq_iff assms)
qed

lemma tags_refine_witness:
  "\<exists>w'. addTags (one_torrent_rpc id) [''aa''] ''new, old'' [''old''] = (w', None) \<and> one_torrent_view w' ''AA'' = Some [''old'', ''new'']"
proof -
  have tags: "to_upper ''aa'' = ''AA''" "put_labels id [''old''] ([''old''] @ splitCSV ''new, old'') = [''old'', ''new'']"
    by code_simp+
  obtain w' where w': "addTags (one_torrent_rpc id) [''aa''] ''new, old'' [''old''] = (w', None)"
    "one_torrent_view w' = relabel (to_upper ` set [''aa'']) (\<lambda>ls. put_labels id ls (ls @ splitCSV ''new, old''))
      (one_torrent_view [''old''])"
    using tags_refine [OF one_torrent_keeps_labels [of id], of "[''aa'']" "''new, old''" "[''old'']"] by auto
  then have "one_torrent_view w' ''AA'' = Some (put_labels id [''old''] ([''old''] @ splitCSV ''new, old''))"
    by (simp add: relabel_def one_torrent_view_def tags(1))
  with w'(1) tags(2) show ?thesis
    by simp
qed

text \<open>
  The null matters: a Transmission that ignores a member it cannot read as a list keeps the last tag of a torrent when the
  tag is removed, while one of two tags goes.
\<close>

lemma last_tag_kept:
  "removeTags (one_torrent_rpc id) [''aa''] ''old'' [''old''] = ([''old''], None)"
  "removeTags (one_torrent_rpc id) [''aa''] ''old'' [''old'', ''new''] = ([''new''], None)"
  "removeTags (one_torrent_rpc (\<lambda>_. [])) [''aa''] ''old'' [''old''] = ([], None)"
  by code_simp+

end
