(* ===== verification/Tr_Sort.thy ===== *)
theory Tr_Sort
  imports Tr_Torrent Condition_Properties
begin

text \<open>
  Sorting of torrents by a field (\<open>src/internal/transmissionqbt/filter_generated.go\<close>): indices are sorted, and the
  list is then permuted in place, cycle by cycle.
\<close>

section \<open>Comparators\<close>

definition compareInt :: "('a \<Rightarrow> int) \<Rightarrow> 'a \<Rightarrow> 'a \<Rightarrow> int" where
  "compareInt f a b = (if f a < f b then - 1 else if f a > f b then 1 else 0)"

definition compareFloat :: "('a \<Rightarrow> float64) \<Rightarrow> 'a \<Rightarrow> 'a \<Rightarrow> int" where
  "compareFloat f a b = (if fl_less (f a) (f b) then - 1 else if fl_less (f b) (f a) then 1 else 0)"

definition compareStr :: "('a \<Rightarrow> string) \<Rightarrow> 'a \<Rightarrow> 'a \<Rightarrow> int" where
  "compareStr f a b = (if f a = f b then 0 else if f a < f b then - 1 else 1)"

definition compareFlag :: "('a \<Rightarrow> bool) \<Rightarrow> 'a \<Rightarrow> 'a \<Rightarrow> int" where
  "compareFlag f a b = (if f a \<noteq> f b then (if f a then 1 else - 1) else 0)"

definition torrentComparators :: "string \<Rightarrow> ('a client_torrent_scheme \<Rightarrow> 'a client_torrent_scheme \<Rightarrow> int) option" where
  "torrentComparators = map_of
     [(''added_on'', compareInt t_AddedOn), (''amount_left'', compareInt t_AmountLeft), (''auto_tmm'', compareFlag t_AutoManaged),
      (''availability'', compareFloat t_Availability), (''category'', compareStr t_Category), (''comment'', compareStr t_Comment),
      (''completed'', compareInt t_Completed), (''completion_on'', compareInt t_CompletionOn), (''created_by'', compareStr t_CreatedBy),
      (''content_path'', compareStr t_ContentPath), (''dl_limit'', compareInt t_DlLimit), (''dlspeed'', compareInt t_DlSpeed),
      (''download_path'', compareStr t_DownloadPath), (''downloaded'', compareInt t_Downloaded), (''downloaded_session'', compareInt t_DownloadedSession),
      (''eta'', compareInt t_ETA), (''f_l_piece_prio'', compareFlag t_FirstLastPiecePrio), (''force_start'', compareFlag t_ForceStart),
      (''hash'', compareStr t_Hash), (''infohash_v1'', compareStr t_InfohashV1), (''infohash_v2'', compareStr t_InfohashV2),
      (''popularity'', compareFloat t_Popularity), (''private'', compareFlag t_Private), (''last_activity'', compareInt t_LastActivity),
      (''magnet_uri'', compareStr t_MagnetURI), (''max_ratio'', compareFloat t_MaxRatio), (''max_seeding_time'', compareInt t_MaxSeedingTime),
      (''max_inactive_seeding_time'', compareInt t_MaxInactiveSeedingTime), (''name'', compareStr t_Name), (''num_complete'', compareInt t_NumComplete),
      (''num_incomplete'', compareInt t_NumIncomplete), (''num_leechs'', compareInt t_NumLeechs), (''num_seeds'', compareInt t_NumSeeds),
      (''priority'', compareInt t_Priority), (''progress'', compareFloat t_Progress), (''ratio'', compareFloat t_Ratio),
      (''ratio_limit'', compareFloat t_RatioLimit), (''reannounce'', compareInt t_Reannounce), (''save_path'', compareStr t_SavePath),
      (''seeding_time'', compareInt t_SeedingTime), (''seeding_time_limit'', compareInt t_SeedingTimeLimit), (''inactive_seeding_time_limit'', compareInt t_InactiveSeedingTimeLimit),
      (''share_limit_action'', compareStr ct_ShareLimitAction),
      (''share_limits_mode'', compareStr ct_ShareLimitsMode), (''seen_complete'', compareInt t_SeenComplete),
      (''seq_dl'', compareFlag t_SequentialDownload), (''size'', compareInt t_Size), (''state'', compareStr t_State),
      (''super_seeding'', compareFlag t_SuperSeeding), (''tags'', compareStr t_Tags), (''time_active'', compareInt t_TimeActive),
      (''total_size'', compareInt t_TotalSize), (''tracker'', compareStr t_Tracker), (''trackers_count'', compareInt t_TrackersCount),
      (''up_limit'', compareInt t_UpLimit), (''uploaded'', compareInt t_Uploaded), (''uploaded_session'', compareInt t_UploadedSession),
      (''upspeed'', compareInt t_UpSpeed), (''default'', compareStr t_Name)]"

definition comparatorOf :: "string \<Rightarrow> 'a client_torrent_scheme \<Rightarrow> 'a client_torrent_scheme \<Rightarrow> int" where
  "comparatorOf sortField = (case torrentComparators sortField of Some c \<Rightarrow> c | None \<Rightarrow> compareStr t_Name)"

definition sorterCompare :: "('a torrent_scheme \<Rightarrow> 'a torrent_scheme \<Rightarrow> int) \<Rightarrow> bool \<Rightarrow> 'a torrent_scheme \<Rightarrow> 'a torrent_scheme \<Rightarrow> int" where
  "sorterCompare comparator rv a b =
     (let result = (if comparator a b = 0 then (if t_Hash a = t_Hash b then 0 else if t_Hash a < t_Hash b then - 1 else 1)
                    else comparator a b)
      in if rv then - result else result)"

section \<open>Sorting of indices, permutation in place\<close>

text \<open>\<open>slices.SortFunc\<close> by insertion: with torrents of different hashes only one order is sorted.\<close>

fun insert_by :: "('b \<Rightarrow> 'b \<Rightarrow> int) \<Rightarrow> 'b \<Rightarrow> 'b list \<Rightarrow> 'b list" where
  "insert_by cmp x [] = [x]"
| "insert_by cmp x (y # ys) = (if cmp x y \<le> 0 then x # y # ys else y # insert_by cmp x ys)"

definition sort_by :: "('b \<Rightarrow> 'b \<Rightarrow> int) \<Rightarrow> 'b list \<Rightarrow> 'b list" where
  "sort_by cmp xs = foldr (insert_by cmp) xs []"

text \<open>
  The inner loop follows a cycle from \<open>i\<close>: \<open>saved\<close> is the torrent that was at \<open>i\<close>. It ends when the cycle is
  closed.
\<close>

partial_function (option) cycleLoop :: "nat \<Rightarrow> 'b \<Rightarrow> nat \<Rightarrow> nat list \<Rightarrow> 'b list \<Rightarrow> (nat list \<times> 'b list) option" where
  "cycleLoop i saved j indices ts =
     (let k = indices ! j; indices' = indices[j := j] in
      if k = i then Some (indices', ts[j := saved]) else cycleLoop i saved k indices' (ts[j := ts ! k]))"

fun permuteFrom :: "nat list \<Rightarrow> nat list \<Rightarrow> 'b list \<Rightarrow> 'b list option" where
  "permuteFrom [] indices ts = Some ts"
| "permuteFrom (i # is) indices ts =
     (if indices ! i \<noteq> i then
        (case cycleLoop i (ts ! i) i indices ts of None \<Rightarrow> None | Some (indices', ts') \<Rightarrow> permuteFrom is indices' ts')
      else permuteFrom is indices ts)"

definition applyTorrentSorting :: "string \<Rightarrow> bool \<Rightarrow> 'a client_torrent_scheme list \<Rightarrow> 'a client_torrent_scheme list option" where
  "applyTorrentSorting sortField rv ts =
     (if sortField = [] then Some ts
      else
        let indices = sort_by (\<lambda>i j. sorterCompare (comparatorOf sortField) rv (ts ! i) (ts ! j)) [0..<length ts]
        in permuteFrom [0..<length ts] indices ts)"

section \<open>The permutation in place\<close>

text \<open>
  In the middle of a cycle the indices are those of a permutation \<open>q\<close>, except that the place which leads to
  the current position still says \<open>i\<close>. What is to come to a place is the torrent saved, if \<open>q\<close> leads from it to the
  current position, and else the torrent where \<open>q\<close> leads.
\<close>

definition mid_cycle :: "(nat \<Rightarrow> nat) \<Rightarrow> nat \<Rightarrow> 'b \<Rightarrow> nat \<Rightarrow> nat list \<Rightarrow> 'b list \<Rightarrow> (nat \<Rightarrow> 'b) \<Rightarrow> bool" where
  "mid_cycle q i saved j indices ts target \<longleftrightarrow>
     length indices = length ts \<and> bij_betw q {..<length ts} {..<length ts} \<and> i < length ts \<and> j < length ts \<and> (j = i \<or> q i = i) \<and>
     (\<forall>x < length ts. indices ! x = (if q x = j then i else q x)) \<and>
     (\<forall>x < length ts. target x = (if q x = j then saved else ts ! q x))"

definition out_of_place :: "(nat \<Rightarrow> nat) \<Rightarrow> nat \<Rightarrow> nat set" where
  "out_of_place q n = {x. x < n \<and> q x \<noteq> x}"

lemma mid_cycle_last:
  assumes "mid_cycle q i saved j indices ts target" and "indices ! j = i"
  shows "q j = j \<and> (\<forall>x < length ts. indices[j := j] ! x = q x) \<and> (\<forall>x < length ts. target x = ts[j := saved] ! q x)"
proof -
  have inj: "inj_on q {..<length ts}" and ij: "i < length ts" "j < length ts"
    using assms(1) by (auto simp: mid_cycle_def bij_betw_def)
  have "q j = j"
  proof (rule ccontr)
    assume ne: "q j \<noteq> j"
    then have "q j = i" and "j \<noteq> i"
      using assms ij unfolding mid_cycle_def by auto
    moreover from this have "q i = i"
      using assms(1) by (auto simp: mid_cycle_def)
    ultimately show False
      using inj_onD [OF inj, of i j] ij by simp
  qed
  moreover have "q x \<noteq> j" if "x \<noteq> j" "x < length ts" for x
    using inj_onD [OF inj, of x j] \<open>q j = j\<close> that ij by auto
  ultimately show ?thesis
    using assms(1) ij by (auto simp: mid_cycle_def nth_list_update)
qed

lemma mid_cycle_step:
  assumes "mid_cycle q i saved j indices ts target" and "indices ! j \<noteq> i"
  defines "k \<equiv> indices ! j"
  shows "\<exists>q'. mid_cycle q' i saved k (indices[j := j]) (ts[j := ts ! k]) target \<and>
    out_of_place q' (length ts) \<subset> out_of_place q (length ts) \<and> (\<forall>x. q x = x \<longrightarrow> q' x = x)"
proof -
  let ?n = "length ts"
  have bij: "bij_betw q {..<?n} {..<?n}" and inj: "inj_on q {..<?n}" and ij: "i < ?n" "j < ?n"
    using assms(1) by (auto simp: mid_cycle_def bij_betw_def)
  have k: "k = q j" "q j \<noteq> j"
    using assms ij by (auto simp: mid_cycle_def split: if_splits)
  then have kn: "k < ?n"
    using bij ij by (auto simp: bij_betw_def)
  obtain l where l: "l < ?n" "q l = j"
    using bij ij unfolding bij_betw_def by (metis imageE lessThan_iff)
  have l_uniq: "q x = j \<longleftrightarrow> x = l" if "x < ?n" for x
    using inj_onD [OF inj, of x l] l that by auto
  have k_uniq: "q x = k \<longleftrightarrow> x = j" if "x < ?n" for x
    using inj_onD [OF inj, of x j] k(1) ij that by auto
  have lj: "l \<noteq> j"
    using l k(2) by auto
  let ?q = "q(j := j, l := k)"
  have img: "?q ` {..<?n} = {..<?n}"
  proof
    show "?q ` {..<?n} \<subseteq> {..<?n}"
      using bij kn ij by (auto simp: bij_betw_def)
    show "{..<?n} \<subseteq> ?q ` {..<?n}"
    proof
      fix y assume "y \<in> {..<?n}"
      then obtain x where x: "x < ?n" "q x = y"
        using bij unfolding bij_betw_def by (metis imageE lessThan_iff)
      show "y \<in> ?q ` {..<?n}"
      proof (cases "x = j \<or> x = l")
        case True
        then have "y = k \<or> y = j"
          using x k(1) l(2) by auto
        then show ?thesis
          using l(1) ij(2) lj by (auto simp: image_iff intro: bexI [of _ l] bexI [of _ j])
      next
        case False
        then show ?thesis
          using x by (auto simp: image_iff intro!: bexI [of _ x])
      qed
    qed
  qed
  then have bij': "bij_betw ?q {..<?n} {..<?n}"
    by (simp add: bij_betw_def eq_card_imp_inj_on)
  have fixes_kept: "?q x = x" if "q x = x" for x
    using that l(2) lj k(2) by auto
  have "mid_cycle ?q i saved k (indices[j := j]) (ts[j := ts ! k]) target"
    unfolding mid_cycle_def
  proof (intro conjI allI impI)
    show "k = i \<or> ?q i = i"
      using assms(1) l lj unfolding mid_cycle_def by auto
  next
    fix x assume x: "x < length (ts[j := ts ! k])"
    then have "indices ! x = (if q x = j then i else q x)" and "length indices = ?n"
      using assms(1) by (auto simp: mid_cycle_def)
    then show "indices[j := j] ! x = (if ?q x = k then i else ?q x)"
      using x l_uniq [of x] k_uniq [of x] k lj ij by (auto simp: nth_list_update)
    have "target x = (if q x = j then saved else ts ! q x)"
      using assms(1) x by (auto simp: mid_cycle_def)
    then show "target x = (if ?q x = k then saved else ts[j := ts ! k] ! ?q x)"
      using x l_uniq [of x] k_uniq [of x] k lj ij by (auto simp: nth_list_update)
  qed (use assms(1) bij' kn in \<open>auto simp: mid_cycle_def\<close>)
  moreover have "out_of_place ?q ?n \<subset> out_of_place q ?n"
    using fixes_kept k(2) ij lj l(2) by (auto simp: out_of_place_def)
  ultimately show ?thesis
    using fixes_kept by blast
qed

definition permuted :: "(nat \<Rightarrow> nat) \<Rightarrow> nat list \<Rightarrow> 'b list \<Rightarrow> (nat \<Rightarrow> 'b) \<Rightarrow> bool" where
  "permuted q indices ts target \<longleftrightarrow>
     length indices = length ts \<and> bij_betw q {..<length ts} {..<length ts} \<and>
     (\<forall>x < length ts. indices ! x = q x \<and> target x = ts ! q x)"

lemma cycleLoop_closes:
  assumes "mid_cycle q i saved j indices ts target"
  shows "\<exists>indices' ts' q'. cycleLoop i saved j indices ts = Some (indices', ts') \<and> length ts' = length ts \<and>
    permuted q' indices' ts' target \<and> (\<forall>x. q x = x \<longrightarrow> q' x = x) \<and> q' i = i"
  using assms
proof (induction "card (out_of_place q (length ts))" arbitrary: q j indices ts rule: less_induct)
  case less
  show ?case
  proof (cases "indices ! j = i")
    case True
    then have "permuted q (indices[j := j]) (ts[j := saved]) target"
      using mid_cycle_last [OF less.prems True] less.prems by (auto simp: permuted_def mid_cycle_def)
    moreover have "q i = i"
      using mid_cycle_last [OF less.prems True] less.prems by (auto simp: mid_cycle_def)
    ultimately show ?thesis
      using True by (subst cycleLoop.simps) (auto simp: Let_def)
  next
    case False
    let ?k = "indices ! j"
    obtain q' where q': "mid_cycle q' i saved ?k (indices[j := j]) (ts[j := ts ! ?k]) target"
      "out_of_place q' (length ts) \<subset> out_of_place q (length ts)" "\<forall>x. q x = x \<longrightarrow> q' x = x"
      using mid_cycle_step [OF less.prems False] by blast
    have "card (out_of_place q' (length (ts[j := ts ! ?k]))) < card (out_of_place q (length ts))"
      using q'(2) by (auto intro: psubset_card_mono simp: out_of_place_def)
    then obtain indices' ts' q'' where "cycleLoop i saved ?k (indices[j := j]) (ts[j := ts ! ?k]) = Some (indices', ts')"
      "length ts' = length ts" "permuted q'' indices' ts' target" "\<forall>x. q' x = x \<longrightarrow> q'' x = x" "q'' i = i"
      using less.hyps [OF _ q'(1)] by auto
    then show ?thesis
      using False q'(3) by (subst cycleLoop.simps) (auto simp: Let_def)
  qed
qed

lemma permuteFrom_finishes:
  assumes "permuted q indices ts target" and "\<forall>i \<in> set is. i < length ts"
  shows "\<exists>ts' q'. permuteFrom is indices ts = Some ts' \<and> length ts' = length ts \<and>
    (\<forall>x < length ts. target x = ts' ! q' x) \<and> (\<forall>x. q x = x \<or> x \<in> set is \<longrightarrow> q' x = x)"
  using assms
proof (induction "is" arbitrary: q indices ts)
  case Nil
  then show ?case
    by (auto simp: permuted_def)
next
  case (Cons i "is")
  have i: "i < length ts" "indices ! i = q i"
    using Cons.prems by (auto simp: permuted_def)
  show ?case
  proof (cases "q i = i")
    case True
    obtain ts' q' where "permuteFrom is indices ts = Some ts'" "length ts' = length ts"
      "\<forall>x < length ts. target x = ts' ! q' x" "\<forall>x. q x = x \<or> x \<in> set is \<longrightarrow> q' x = x"
      using Cons.IH [OF Cons.prems(1)] Cons.prems(2) by auto
    then show ?thesis
      using True i by (intro exI [of _ ts'] exI [of _ q']) auto
  next
    case False
    have mid: "mid_cycle q i (ts ! i) i indices ts target"
      using Cons.prems(1) i(1) by (auto simp: permuted_def mid_cycle_def)
    obtain indices' ts1 q1 where step: "cycleLoop i (ts ! i) i indices ts = Some (indices', ts1)" "length ts1 = length ts"
      "permuted q1 indices' ts1 target" "\<forall>x. q x = x \<longrightarrow> q1 x = x" "q1 i = i"
      using cycleLoop_closes [OF mid] by blast
    obtain ts' q' where "permuteFrom is indices' ts1 = Some ts'" "length ts' = length ts"
      "\<forall>x < length ts. target x = ts' ! q' x" "\<forall>x. q1 x = x \<or> x \<in> set is \<longrightarrow> q' x = x"
      using Cons.IH [OF step(3)] Cons.prems(2) step(2) by auto
    then show ?thesis
      using False i step by (intro exI [of _ ts'] exI [of _ q']) auto
  qed
qed

lemma permute_in_place:
  assumes "distinct indices" and "set indices = {..<length ts}"
  shows "permuteFrom [0..<length ts] indices ts = Some (map (\<lambda>i. ts ! i) indices)"
proof -
  have len: "length indices = length ts"
    using assms distinct_card [of indices] by simp
  let ?target = "\<lambda>x. ts ! (indices ! x)"
  have "permuted (\<lambda>x. indices ! x) indices ts ?target"
    using bij_betw_nth [OF assms(1)] assms(2) len by (auto simp: permuted_def lessThan_atLeast0)
  then obtain ts' q' where ts': "permuteFrom [0..<length ts] indices ts = Some ts'" "length ts' = length ts"
    and target: "\<forall>x < length ts. ?target x = ts' ! q' x" and "\<forall>x. indices ! x = x \<or> x \<in> set [0..<length ts] \<longrightarrow> q' x = x"
    using permuteFrom_finishes [of "\<lambda>x. indices ! x" indices ts ?target "[0..<length ts]"] by fastforce
  then have "ts' ! x = ?target x" if "x < length ts" for x
    using that by auto
  then have "ts' = map (\<lambda>i. ts ! i) indices"
    using len ts'(2) by (auto intro!: nth_equalityI)
  with ts'(1) show ?thesis
    by simp
qed

section \<open>The result is sorted\<close>

definition comparator_ok :: "('b \<Rightarrow> 'b \<Rightarrow> int) \<Rightarrow> 'b set \<Rightarrow> bool" where
  "comparator_ok cmp S \<longleftrightarrow>
     (\<forall>a \<in> S. \<forall>b \<in> S. cmp b a = - cmp a b) \<and> (\<forall>a \<in> S. \<forall>b \<in> S. \<forall>c \<in> S. cmp a b \<le> 0 \<longrightarrow> cmp b c \<le> 0 \<longrightarrow> cmp a c \<le> 0)"

lemma compareInt_ok: "comparator_ok (compareInt f) S"
  by (auto simp: comparator_ok_def compareInt_def)

lemma compareStr_ok: "comparator_ok (compareStr f) S"
  by (auto simp: comparator_ok_def compareStr_def)

lemma compareFlag_ok: "comparator_ok (compareFlag f) S"
  by (auto simp: comparator_ok_def compareFlag_def)

lemma compareFloat_ok:
  assumes "\<forall>a \<in> S. f a \<noteq> NaN"
  shows "comparator_ok (compareFloat f) S"
proof -
  have le: "compareFloat f a b \<le> 0 \<longleftrightarrow> \<not> fl_less (f b) (f a)" for a b
    by (auto simp: compareFloat_def dest: fl_less_asym)
  have swap: "compareFloat f b a = - compareFloat f a b" for a b
    by (auto simp: compareFloat_def dest: fl_less_asym)
  have "\<not> fl_less (f c) (f a)" if "\<not> fl_less (f b) (f a)" "\<not> fl_less (f c) (f b)" "a \<in> S" "b \<in> S" "c \<in> S" for a b c
    using that assms by (cases "f a"; cases "f b"; cases "f c") auto
  with swap show ?thesis
    unfolding comparator_ok_def le by blast
qed

lemma map_of_all: "list_all (\<lambda>p. P (snd p)) xs \<Longrightarrow> map_of xs k = Some v \<Longrightarrow> P v"
  by (metis list_all_iff map_of_SomeD snd_conv)

definition numbers_of :: "'a torrent_scheme \<Rightarrow> float64 set" where
  "numbers_of t = {t_Availability t, t_Popularity t, t_MaxRatio t, t_Progress t, t_Ratio t, t_RatioLimit t}"

lemma comparatorOf_ok:
  assumes "\<forall>t \<in> S. NaN \<notin> numbers_of t"
  shows "comparator_ok (comparatorOf sortField) S"
proof -
  have "comparator_ok c S" if "torrentComparators sortField = Some c" for c
    using _ that unfolding torrentComparators_def
  proof (rule map_of_all)
  qed (use assms in \<open>simp only: list.pred_inject snd_conv simp_thms compareInt_ok compareStr_ok compareFlag_ok\<close>,
       use assms in \<open>auto intro!: compareFloat_ok simp: numbers_of_def\<close>)
  then show ?thesis
    by (auto simp: comparatorOf_def compareStr_ok split: option.split)
qed

lemma comparator_okD:
  assumes "comparator_ok cmp S" and "a \<in> S" "b \<in> S"
  shows "cmp b a = - cmp a b" and "c \<in> S \<Longrightarrow> cmp a b \<le> 0 \<Longrightarrow> cmp b c \<le> 0 \<Longrightarrow> cmp a c \<le> 0"
  using assms unfolding comparator_ok_def by blast+

lemma comparator_ok_image: "comparator_ok cmp (f ` S) \<Longrightarrow> comparator_ok (\<lambda>i j. cmp (f i) (f j)) S"
  unfolding comparator_ok_def by blast

lemma comparator_ok_negate: "comparator_ok cmp S \<Longrightarrow> comparator_ok (\<lambda>a b. - cmp a b) S"
  unfolding comparator_ok_def by (metis neg_equal_iff_equal)

lemma comparator_ok_then:
  assumes c: "comparator_ok c S" and d: "comparator_ok d S"
  shows "comparator_ok (\<lambda>x y. if c x y = 0 then d x y else c x y) S"
proof -
  have "(if c x z = 0 then d x z else c x z) \<le> 0"
    if le: "(if c x y = 0 then d x y else c x y) \<le> 0" "(if c y z = 0 then d y z else c y z) \<le> 0"
      and S: "x \<in> S" "y \<in> S" "z \<in> S" for x y z
  proof -
    have xy: "c x y \<le> 0" and yz: "c y z \<le> 0"
      using le by (simp_all split: if_splits)
    then have xz: "c x z \<le> 0"
      using comparator_okD(2) [OF c] S by blast
    show ?thesis
    proof (cases "c x z = 0")
      case True
      then have "c z x \<le> 0"
        using comparator_okD(1) [OF c S(1,3)] by simp
      then have "c z y \<le> 0" and "c y x \<le> 0"
        using comparator_okD(2) [OF c] S xy yz by blast+
      then have "c x y = 0" and "c y z = 0"
        using comparator_okD(1) [OF c S(1,2)] comparator_okD(1) [OF c S(2,3)] xy yz by simp_all
      with True le show ?thesis
        using comparator_okD(2) [OF d S(1,2,3)] by simp
    qed (use xz in simp)
  qed
  moreover have "(if c y x = 0 then d y x else c y x) = - (if c x y = 0 then d x y else c x y)" if "x \<in> S" "y \<in> S" for x y
    using comparator_okD(1) [OF c that] comparator_okD(1) [OF d that] by simp
  ultimately show ?thesis
    unfolding comparator_ok_def by blast
qed

lemma sorterCompare_ok:
  assumes "comparator_ok c S"
  shows "comparator_ok (sorterCompare c rv) S"
proof -
  have "sorterCompare c rv = (let r = (\<lambda>a b. if c a b = 0 then compareStr t_Hash a b else c a b) in if rv then (\<lambda>a b. - r a b) else r)"
    by (intro ext) (simp add: sorterCompare_def compareStr_def Let_def)
  moreover have "comparator_ok (\<lambda>a b. if c a b = 0 then compareStr t_Hash a b else c a b) S"
    by (intro comparator_ok_then assms compareStr_ok)
  ultimately show ?thesis
    using comparator_ok_negate by (cases rv) (simp_all only: Let_def if_True if_False)
qed

lemma sorterCompare_zero: "sorterCompare c rv a b = 0 \<Longrightarrow> t_Hash a = t_Hash b"
  by (simp add: sorterCompare_def Let_def split: if_splits)

lemma mset_insert_by [simp]: "mset (insert_by cmp x ys) = add_mset x (mset ys)"
  by (induction ys) auto

lemma set_insert_by [simp]: "set (insert_by cmp x ys) = insert x (set ys)"
  by (induction ys) auto

lemma insert_by_sorted:
  assumes ok: "comparator_ok cmp S" and "x \<in> S" "set ys \<subseteq> S" and "sorted_wrt (\<lambda>a b. cmp a b \<le> 0) ys"
  shows "sorted_wrt (\<lambda>a b. cmp a b \<le> 0) (insert_by cmp x ys)"
  using assms(3,4)
proof (induction ys)
  case (Cons y ys)
  then have yS: "y \<in> S" and ysS: "set ys \<subseteq> S" and first: "\<forall>z \<in> set ys. cmp y z \<le> 0"
    by simp_all
  show ?case
  proof (cases "cmp x y \<le> 0")
    case True
    then have "\<forall>z \<in> set ys. cmp x z \<le> 0"
      using comparator_okD(2) [OF ok assms(2) yS] first ysS by blast
    with True Cons.prems(2) show ?thesis
      by simp
  next
    case False
    then have "cmp y x \<le> 0"
      using comparator_okD(1) [OF ok assms(2) yS] by linarith
    with False first Cons show ?thesis
      by simp
  qed
qed simp

lemma sort_by_sorted:
  assumes "comparator_ok cmp (set xs)"
  shows "mset (sort_by cmp xs) = mset xs \<and> sorted_wrt (\<lambda>a b. cmp a b \<le> 0) (sort_by cmp xs)"
proof -
  have "mset (sort_by cmp ys) = mset ys \<and> sorted_wrt (\<lambda>a b. cmp a b \<le> 0) (sort_by cmp ys)" if "set ys \<subseteq> set xs" for ys
    using that
  proof (induction ys)
    case (Cons y ys)
    then have props: "mset (sort_by cmp ys) = mset ys" "sorted_wrt (\<lambda>a b. cmp a b \<le> 0) (sort_by cmp ys)"
      by simp_all
    have "set (sort_by cmp ys) \<subseteq> set xs" and "y \<in> set xs"
      using Cons.prems mset_eq_setD [OF props(1)] by simp_all
    with props show ?case
      using insert_by_sorted [OF assms, of y "sort_by cmp ys"] by (simp add: sort_by_def)
  qed (simp add: sort_by_def)
  then show ?thesis
    by simp
qed

lemma sorted_lists_equal:
  assumes "mset us = mset vs" and "sorted_wrt (\<lambda>a b. cmp a b < (0 :: int)) us" "sorted_wrt (\<lambda>a b. cmp a b < 0) vs"
    and "\<forall>a \<in> set us. \<forall>b \<in> set us. cmp b a = - cmp a b"
  shows "us = vs"
  using assms
proof (induction us arbitrary: vs)
  case (Cons u us)
  obtain v vs' where vs: "vs = v # vs'"
    using Cons.prems(1) by (cases vs) auto
  have sets: "insert u (set us) = insert v (set vs')"
    using mset_eq_setD [OF Cons.prems(1)] vs by simp
  have "u = v"
  proof (rule ccontr)
    assume ne: "u \<noteq> v"
    have "v \<in> insert u (set us)"
      by (simp only: sets insertI1)
    moreover have "u \<in> insert v (set vs')"
      by (simp only: sets [symmetric] insertI1)
    ultimately have in_both: "v \<in> set us" "u \<in> set vs'"
      using ne by simp_all
    then have "cmp v u < 0" and "cmp u v < 0"
      using vs Cons.prems(2,3) by simp_all
    moreover have "cmp v u = - cmp u v"
      using Cons.prems(4) in_both(1) by (meson list.set_intros(1) list.set_intros(2))
    ultimately show False
      by linarith
  qed
  moreover have "us = vs'"
  proof (rule Cons.IH)
    show "\<forall>a \<in> set us. \<forall>b \<in> set us. cmp b a = - cmp a b"
      using Cons.prems(4) by (meson list.set_intros(2))
  qed (use Cons.prems(1-3) vs \<open>u = v\<close> in simp_all)
  ultimately show ?case
    by (simp only: vs)
qed simp

lemma sorted_strictly:
  assumes "sorted_wrt (\<lambda>a b. sorterCompare c rv a b \<le> 0) ts" and "distinct (map t_Hash ts)"
  shows "sorted_wrt (\<lambda>a b. sorterCompare c rv a b < 0) ts"
  using assms
proof (induction ts)
  case (Cons t ts)
  have "sorterCompare c rv t u < 0" if "u \<in> set ts" for u
  proof -
    have "t_Hash t \<noteq> t_Hash u"
      using Cons.prems(2) that by (metis distinct.simps(2) image_eqI list.set_map list.simps(9))
    then show ?thesis
      using Cons.prems(1) that sorterCompare_zero [of c rv t u] by fastforce
  qed
  with Cons show ?case
    by simp
qed simp

lemma applyTorrentSorting_sorted:
  assumes "sortField \<noteq> []" and "distinct (map t_Hash ts)" and "\<forall>t \<in> set ts. NaN \<notin> numbers_of t"
  shows "\<exists>ts'. applyTorrentSorting sortField rv ts = Some ts' \<and> mset ts' = mset ts \<and>
    sorted_wrt (\<lambda>a b. sorterCompare (comparatorOf sortField) rv a b < 0) ts'"
proof -
  let ?cmp = "sorterCompare (comparatorOf sortField) rv"
  let ?at = "\<lambda>i j. ?cmp (ts ! i) (ts ! j)"
  let ?indices = "sort_by ?at [0..<length ts]"
  have "comparator_ok ?cmp ((\<lambda>i. ts ! i) ` set [0..<length ts])"
    by (intro sorterCompare_ok comparatorOf_ok) (use assms(3) in auto)
  then have "comparator_ok ?at (set [0..<length ts])"
    by (rule comparator_ok_image)
  note props = sort_by_sorted [OF this]
  then have m: "mset ?indices = mset [0..<length ts]"
    by (rule conjunct1)
  have dist: "distinct ?indices" and sets: "set ?indices = {..<length ts}"
    using mset_eq_imp_distinct_iff [OF m] mset_eq_setD [OF m] by (simp_all only: distinct_upt atLeast_upt)
  let ?ts' = "map (\<lambda>i. ts ! i) ?indices"
  have result: "applyTorrentSorting sortField rv ts = Some ?ts'"
    using assms(1) permute_in_place [OF dist sets] by (simp add: applyTorrentSorting_def)
  have "mset ?ts' = mset (map (\<lambda>i. ts ! i) [0..<length ts])"
    by (simp only: mset_map m)
  then have mset: "mset ?ts' = mset ts"
    by (simp only: map_nth)
  have "sorted_wrt (\<lambda>a b. ?cmp a b \<le> 0) ?ts'"
    using props by (simp add: sorted_wrt_map)
  moreover have hashes: "distinct (map t_Hash ?ts')"
    using assms(2) mset_eq_imp_distinct_iff [of "map t_Hash ?ts'" "map t_Hash ts"] mset by (simp only: mset_map)
  ultimately have "sorted_wrt (\<lambda>a b. ?cmp a b < 0) ?ts'"
    by (rule sorted_strictly)
  with result mset show ?thesis
    by blast
qed

section \<open>The sorted list\<close>

text \<open>
  C13. Sorting of torrents: for torrents of different hashes whose floating-point fields are numbers, the loops that
  follow the cycles end, whatever field is asked for; the result holds the same torrents, each strictly before
  the next in the order of the field, of its reversal and of the hashes; and any other arrangement of the same torrents
  gives the same result, so the choices left to \<open>slices.SortFunc\<close> do not show.
\<close>

theorem applyTorrentSorting_sorts:
  assumes "sortField \<noteq> []" and "distinct (map t_Hash ts)" and "\<forall>t \<in> set ts. NaN \<notin> numbers_of t"
  shows "\<exists>ts'. applyTorrentSorting sortField rv ts = Some ts' \<and> mset ts' = mset ts \<and>
    sorted_wrt (\<lambda>a b. sorterCompare (comparatorOf sortField) rv a b < 0) ts' \<and>
    (\<forall>us. mset us = mset ts \<longrightarrow> applyTorrentSorting sortField rv us = Some ts') \<and>
    (\<forall>us. mset us = mset ts \<and> sorted_wrt (\<lambda>a b. sorterCompare (comparatorOf sortField) rv a b < 0) us \<longrightarrow> us = ts')"
proof -
  let ?cmp = "sorterCompare (comparatorOf sortField) rv"
  obtain ts' where ts': "applyTorrentSorting sortField rv ts = Some ts'" "mset ts' = mset ts" "sorted_wrt (\<lambda>a b. ?cmp a b < 0) ts'"
    using applyTorrentSorting_sorted [OF assms] by blast
  have ok: "comparator_ok ?cmp (set ts)"
    by (intro sorterCompare_ok comparatorOf_ok assms(3))
  have unique: "us = ts'" if "mset us = mset ts" "sorted_wrt (\<lambda>a b. ?cmp a b < 0) us" for us
  proof (rule sorted_lists_equal)
    show "\<forall>a \<in> set us. \<forall>b \<in> set us. ?cmp b a = - ?cmp a b"
      using comparator_okD(1) [OF ok] mset_eq_setD [OF that(1)] by blast
  qed (use that ts' in simp_all)
  have "applyTorrentSorting sortField rv us = Some ts'" if us: "mset us = mset ts" for us
  proof -
    have "mset (map t_Hash us) = mset (map t_Hash ts)"
      by (simp only: mset_map us)
    then have "distinct (map t_Hash us)" and "\<forall>t \<in> set us. NaN \<notin> numbers_of t"
      using assms(2,3) mset_eq_imp_distinct_iff mset_eq_setD [OF us] by blast+
    then obtain us' where "applyTorrentSorting sortField rv us = Some us'" "mset us' = mset us" "sorted_wrt (\<lambda>a b. ?cmp a b < 0) us'"
      using applyTorrentSorting_sorted [OF assms(1)] by blast
    with unique [of us'] us show ?thesis
      by simp
  qed
  with ts' unique show ?thesis
    by blast
qed

definition sorted_sample :: "string \<Rightarrow> string \<Rightarrow> string \<Rightarrow> client_torrent" where
  "sorted_sample hash name mode =
     torrent.extend (sample_torrent hash name ''tv'') \<lparr>ct_Trackers = [], ct_ShareLimitAction = [], ct_ShareLimitsMode = mode\<rparr>"

theorem applyTorrentSorting_sorts_witness:
  "\<exists>ts'. applyTorrentSorting ''share_limits_mode'' True
       [sorted_sample ''b'' ''x'' ''MatchAny'', sorted_sample ''a'' ''y'' ''MatchAll'', sorted_sample ''c'' ''x'' ''MatchAny''] = Some ts' \<and>
     length ts' = 3 \<and> sorted_wrt (\<lambda>a b. sorterCompare (comparatorOf ''share_limits_mode'') True a b < 0) ts'"
proof -
  define ts where "ts = [sorted_sample ''b'' ''x'' ''MatchAny'', sorted_sample ''a'' ''y'' ''MatchAll'', sorted_sample ''c'' ''x'' ''MatchAny'']"
  have "distinct (map t_Hash ts)" and "\<forall>t \<in> set ts. NaN \<notin> numbers_of t"
    by (simp_all add: ts_def sorted_sample_def torrent.defs sample_torrent_def numbers_of_def)
  then obtain ts' where "applyTorrentSorting ''share_limits_mode'' True ts = Some ts'" "mset ts' = mset ts"
    "sorted_wrt (\<lambda>a b. sorterCompare (comparatorOf ''share_limits_mode'') True a b < 0) ts'"
    using applyTorrentSorting_sorts [of "''share_limits_mode''" ts True] by blast
  moreover have "length ts = 3"
    by (simp add: ts_def)
  ultimately show ?thesis
    unfolding ts_def [symmetric] by (metis size_mset)
qed

end
