(* ===== verification/Spec2Isabelle.thy ===== *)
theory Spec2Isabelle
  imports Restore_Plan Restore_Trace Scheduler_Properties Condition_Properties Grouping_Properties
    Processor_Properties Torrent_Sort Path_Segments Orphan_Walk Link_Plan
    Cross_Files Recheck_Resume Tr_Client Tr_Sort
begin

text \<open>
  A verification development for qui-transmission, a Go server that manages torrent clients. It models
  seven subsystems of the server that carry logic of their own and proves what they promise.

  Parts and how they interact.

  \<^item> Restore of backups (\<open>src/internal/backups\<close>). A snapshot of an instance is compared with its live
    state; \<open>restore_plan.go\<close> computes what to create, change and remove, \<open>restore_execute.go\<close> carries
    the plan out through writers for categories, tags and torrents.
  \<^item> Searches of torznab indexers (\<open>src/internal/services/jackett/scheduler.go\<close>). A scheduler queues
    one task per indexer of a job by priority, a rate limiter says when an indexer may be asked, and
    workers report results through callbacks.
  \<^item> Automations (\<open>src/internal/services/automations\<close>). Rules with conditions and actions are applied to
    the torrents of an instance: \<open>evaluator.go\<close> evaluates conditions, \<open>grouping.go\<close> finds torrents that
    belong together, \<open>processor.go\<close> collects what should be done with each torrent. The data model is
    \<open>src/internal/models/automation.go\<close>; names used in paths come from \<open>src/pkg/pathutil/sanitize.go\<close>.
  \<^item> Orphan scans (\<open>src/internal/services/orphanscan\<close>). From the torrents of all instances that share the
    file system \<open>service.go\<close> builds a map of the files in use (\<open>filemap.go\<close>), \<open>walker.go\<close> walks the scan
    roots for files that are not in it, and \<open>delete.go\<close> deletes what the user confirmed after checking
    each target against a fresh map.
  \<^item> Link plans (\<open>src/pkg/hardlinktree/plan.go\<close>). The files of a torrent to be added are matched with
    files on disk, and each gets a place in a tree of links.
  \<^item> Cross-seeds (\<open>src/internal/services/crossseed\<close>, \<open>src/pkg/releases\<close>, \<open>src/pkg/stringutils\<close>). A torrent
    found at an indexer is matched with torrents of an instance, by the names of the releases
    (\<open>matching.go\<close>, \<open>variants.go\<close>) and by their files (\<open>matching.go\<close>, \<open>align.go\<close>,
    \<open>piece_boundary.go\<close>); after it was added, a worker (\<open>service.go\<close>) waits for the recheck and resumes it.
  \<^item> The adapter to Transmission (\<open>src/internal/transmissionqbt\<close>). It takes the place of the client library
    (\<open>go.mod\<close> replaces it), so that every torrent and every operation of the other parts goes through it:
    names and values of requests and answers, torrents in the shape of the qBittorrent interface, filters,
    sorting, tags and the other operations of a client.

  Base theories. \<open>Go_Base\<close> (strings, maps, sets, loops, \<open>int64\<close>), \<open>Go_Path\<close> (\<open>filepath.Clean\<close> and its
  relatives), \<open>Go_Number\<close> (\<open>float64\<close> and the parsing of numbers), \<open>Go_Utf8\<close> (runes and their encoding),
  \<open>Go_Rounding\<close> (what is known of a rounded quotient).

  Restore. \<open>Restore_Plan\<close> has the records of snapshots, live states and plans, and every function of
  \<open>restore_plan.go\<close>; C1 and C2 show that carrying out the plan gives what the mode asks for, C3 that the
  iteration order of maps does not matter, C4 that an agreeing state needs no change. \<open>Restore_Execute\<close> has the execution over abstract writers that may fail or be
  cancelled at any call; C6, C7 and C9 show that every planned action is accounted for once, with a count of its own for the changes
  of an update, that only planned objects are touched, and that blobs are only read below the data
  directory. \<open>Restore_Trace\<close> puts a record next to the writers; C10 shows that a complete run makes exactly the calls of its plan, and
  reports exactly those that succeeded. Nothing is assumed of the writers: the adapter to Transmission, for one, drops the save paths
  of categories and does nothing to create a tag.

  Searches. \<open>Rate_Limiter\<close> (C11 and C12: exact waits, the order of priorities under \<open>float64\<close> rounding;
  lemmas on the escalation of cooldowns and the reservation of slots), \<open>Task_Heap\<close> (the heap of \<open>container/heap\<close>),
  \<open>Search_Scheduler\<close> (every critical section of the code as a step of a relation, with a ledger of tasks
  as its invariant) and \<open>Scheduler_Properties\<close> (C15 to C21: one request per indexer, one RSS task per
  indexer, callbacks at most once, accounting of jobs, completion with the last task, no inversion of
  priorities, progress; a lemma exhibits a state in which a queued task is never dispatched).

  Automations. \<open>Automation_Model\<close> (fields, operators, actions, sorting configurations, rules),
  \<open>Eval_Context\<close> (what conditions read besides the torrent, free-space projections, release fields),
  \<open>Condition_Eval\<close> and \<open>Condition_Properties\<close> (C23, C25, C27), \<open>Torrent_Index\<close> (paths, domains,
  tracker patterns), \<open>Torrent_Grouping\<close> and \<open>Grouping_Properties\<close> (C28, C29), \<open>Rule_Processor\<close> and
  \<open>Processor_Properties\<close> (C31 to C34), \<open>Torrent_Sort\<close> (C35), \<open>Path_Segments\<close> (C36). They show what a
  condition tree means, that indices answer like searches, that free-space projections survive the
  switch between rules and count freed space once, that groups partition the torrents and are
  available where conditions need them, that nothing is deleted without an explicit condition that
  held, that desired states are consistent, what tag actions achieve, that sorting leaves no choice
  and that sanitised names are safe.

  Orphan scans. \<open>Go_Files\<close> is a tree of files, symbolic links and directories with the calls of package
  \<open>os\<close> and \<open>filepath.WalkDir\<close> on it. \<open>Orphan_Paths\<close> (the map of files in use, normalised and ignored paths;
  C38: adding a path returns and keeps the directories of the map exact), \<open>Orphan_Sources\<close> (scan roots
  and the merging of instances; C39: no file of a torrent is left out of the map), \<open>Orphan_Walk\<close> (the
  walk; C24: what it reports is an orphan file, or the disc folder of one or the folder above it, if no two discs share a key of the cache)
  and \<open>Orphan_Delete\<close> (C5: what a deletion may remove, and that it records what happened; the files of a torrent without a list
  of files are not safe from it).

  Cross-seeds. \<open>Release_Names\<close> (normalisers, aliases of codecs and sources, the parser around the release
  library), \<open>Release_Match\<close> (every check of two releases; C8: which releases match, when matching is
  symmetric and what a match guarantees), \<open>Match_Type\<close> (layouts, keys of files, kinds of match; C26: what each
  kind means), \<open>Cross_Files\<close> (alignment of files, rename plans and piece boundaries; C30: the check of
  boundaries is equivalent to the absence of a shared piece) and \<open>Recheck_Resume\<close> (the worker as a step
  relation; C37: its state is well typed, every resumption was allowed and their number is bounded).

  Transmission. \<open>Tr_Rpc\<close> (names and values; C22: names survive the way there and back), \<open>Tr_Torrent\<close>
  (torrents, trackers, files, pieces, filters), \<open>Tr_Client\<close> (the operations over a Transmission with a state of
  its own; C14: the operations on tags refine operations on sets of labels, up to what Transmission makes of the null that is sent in
  the place of an empty list) and \<open>Tr_Sort\<close> (C13: sorting in
  place ends and leaves no choice).

  Link plans. \<open>Link_Plan\<close> (C40: a plan uses each file once, with the right size, inside the destination).

  Conventions. A Go map is an association list with distinct keys, a set a list without repetitions, and
  the order of the list is the order of iteration. Values reached through pointers and changed in place
  are passed on and returned. Errors are values of sum or option types. \<open>int64\<close> arithmetic wraps where
  the code can overflow; finite \<open>float64\<close> values are integers in units of \<open>2 ^ -1074\<close>, and the two zeros
  are one value. Case mapping and white space are those of ASCII. Mutual exclusion is modelled by
  atomic steps: one step per critical section. The one recursion limit is that of the code
  (\<open>maxConditionDepth\<close>, 20), and C23 covers every tree below it; loops that might not end have the value
  \<open>None\<close> then, and C13 and C38 show that they end; all other functions are total.

  Parameters. Regular expressions, URL and address parsing, \<open>path.Match\<close>, \<open>text/template\<close>,
  \<open>strconv.FormatFloat\<close>, the clock and the calendar, the release parser, Unicode normalisation and
  decomposition, the metadata of torrent files, Transmission behind the adapter, the errors of the file system, the working directory, and the clients behind restores and orphan scans are
  arguments of the definitions that use them.

  Not modelled. The execution of desired states and the rest of \<open>automations/service.go\<close>, the hardlink
  index (it rests on stat calls), the searches, downloads and injections of the cross-seed service, the
  directory scan, the transport, the background synchronisation and the preferences of the adapter to
  Transmission, reannouncing, the runs and the schedule of orphan scans,
  the creation of links, the HTTP interface, the proxy,
  the database, notifications, configuration and the command line. Caches of pure functions (normalisers,
  domains, compiled expressions) are left out since they return what the function returns; logging has
  no counterpart.
\<close>

end
